(* ===== verification/Prelude.thy ===== *)
theory Prelude
  imports Main "HOL-Library.Word" "HOL-Library.Monad_Syntax"
begin

text \<open>
  Shared vocabulary of the development: the fixed-width integer types of the C and C++
  sources, checked signed arithmetic (signed overflow is undefined in C++, and is the value
  \<open>None\<close> here), counted loops in the option monad, and the generic facts about loops, sums,
  lists and words that the component theories use.
\<close>

unbundle bit_operations_syntax

named_theorems abi_defs \<open>definitions of ABI constants, register offsets and sizes\<close>
named_theorems loop_intros \<open>rules that show a loop runs to its end\<close>

type_synonym u8 = "8 word"
type_synonym u16 = "16 word"
type_synonym u32 = "32 word"
type_synonym u64 = "64 word"
type_synonym bytes = "8 word list"

section \<open>Checked signed arithmetic\<close>

text \<open>
  A value of a signed C type is an \<open>int\<close>. An operation whose mathematical result does not fit
  the type is undefined behaviour, modelled by \<open>None\<close>.
\<close>

definition int32_range :: "int \<Rightarrow> bool" where
  "int32_range x \<longleftrightarrow> - 2147483648 \<le> x \<and> x \<le> 2147483647"

definition int64_range :: "int \<Rightarrow> bool" where
  "int64_range x \<longleftrightarrow> - 9223372036854775808 \<le> x \<and> x \<le> 9223372036854775807"

definition s32 :: "int \<Rightarrow> int option" where
  "s32 x = (if int32_range x then Some x else None)"

definition s64 :: "int \<Rightarrow> int option" where
  "s64 x = (if int64_range x then Some x else None)"

lemma s32_Some [simp]: "int32_range x \<Longrightarrow> s32 x = Some x"
  by (simp add: s32_def)

lemma s64_Some [simp]: "int64_range x \<Longrightarrow> s64 x = Some x"
  by (simp add: s64_def)

text \<open>The implicit conversion of an out-of-range value to \<open>int32_t\<close> keeps the low 32 bits.\<close>

definition to_int32 :: "u32 \<Rightarrow> int" where
  "to_int32 w = sint w"

lemma sint32_range [simp]: "int32_range (sint (w :: u32))"
  using sint_range_size [of w] by (simp add: int32_range_def word_size)

lemma sint8_bounds: "- 128 \<le> sint (w :: u8)" "sint (w :: u8) \<le> 127"
  using sint_range_size [of w] by (simp_all add: word_size)

lemma sint_word_of_int8:
  "- 128 \<le> x \<Longrightarrow> x \<le> 127 \<Longrightarrow> sint (word_of_int x :: u8) = x"
  by (simp add: int_word_sint)

section \<open>Counted loops\<close>

text \<open>
  \<open>loop f is s\<close> runs the body \<open>f i\<close> on the state for every index of \<open>is\<close> in order, and is
  \<open>None\<close> as soon as one body is.
\<close>

primrec loop :: "('i \<Rightarrow> 's \<Rightarrow> 's option) \<Rightarrow> 'i list \<Rightarrow> 's \<Rightarrow> 's option" where
  "loop f [] s = Some s"
| "loop f (i # is) s = Option.bind (f i s) (loop f is)"

lemma loop_append: "loop f (xs @ ys) s = Option.bind (loop f xs s) (loop f ys)"
  by (induction xs arbitrary: s) (auto split: bind_splits)

lemma loop_single: "loop f [i] = f i"
  by (simp add: fun_eq_iff bind_eq_Some_conv split: bind_splits)

lemma loop_map: "loop f (map g xs) s = loop (\<lambda>x. f (g x)) xs s"
  by (induction xs arbitrary: s) (auto split: bind_splits)

lemma loop_cong:
  assumes "\<And>i s. i \<in> set xs \<Longrightarrow> f i s = g i s"
  shows "loop f xs s = loop g xs s"
  using assms by (induction xs arbitrary: s) (auto intro!: bind_option_cong)

text \<open>Two nested counted loops are one loop over the pairs of indices.\<close>

lemma loop_nested:
  "loop (\<lambda>x. loop (f x) ys) xs s = loop (\<lambda>p. f (fst p) (snd p)) (List.product xs ys) s"
proof (induction xs arbitrary: s)
  case Nil
  then show ?case by simp
next
  case (Cons x xs)
  show ?case
    by (auto simp: loop_append loop_map Cons.IH intro: bind_option_cong)
qed

text \<open>An invariant that every body keeps holds for the final state.\<close>

lemma loop_invariant:
  assumes "loop f xs s = Some s'" and "P s"
    and "\<And>i s s'. i \<in> set xs \<Longrightarrow> P s \<Longrightarrow> f i s = Some s' \<Longrightarrow> P s'"
  shows "P s'"
  using assms
proof (induction xs arbitrary: s)
  case Nil
  then show ?case by simp
next
  case (Cons x xs)
  from Cons.prems(1) obtain t where t: "f x s = Some t" and r: "loop f xs t = Some s'"
    by (auto split: bind_splits)
  have "P t" using Cons.prems(2,3) t by auto
  then show ?case using Cons.IH [OF r] Cons.prems(3) by auto
qed

text \<open>
  An accumulating loop whose terms are bounded by \<open>c\<close> stays inside a range \<open>B\<close> that has
  room for all of them, and then computes the sum.
\<close>

lemma loop_sum:
  fixes t :: "'i \<Rightarrow> int"
  assumes step: "\<And>i a. i \<in> set xs \<Longrightarrow> \<bar>a\<bar> + c \<le> B \<Longrightarrow> f i a = Some (a + t i)"
    and bound: "\<And>i. i \<in> set xs \<Longrightarrow> \<bar>t i\<bar> \<le> c"
    and room: "\<bar>a\<bar> + c * int (length xs) \<le> B"
    and c: "0 \<le> c"
  shows "loop f xs a = Some (a + (\<Sum>i\<leftarrow>xs. t i))"
  using assms
proof (induction xs arbitrary: a)
  case Nil
  then show ?case by simp
next
  case (Cons x xs)
  have len: "c * int (length (x # xs)) = c + c * int (length xs)"
    by (simp add: algebra_simps)
  have nn: "0 \<le> c * int (length xs)" using Cons.prems(4) by simp
  have "\<bar>a\<bar> + c \<le> B" using Cons.prems(3) len nn by linarith
  then have fx: "f x a = Some (a + t x)" using Cons.prems(1) by simp
  have tx: "\<bar>t x\<bar> \<le> c" using Cons.prems(2) by simp
  have "\<bar>a + t x\<bar> + c * int (length xs) \<le> B"
    using Cons.prems(3) len tx by linarith
  then have "loop f xs (a + t x) = Some (a + t x + (\<Sum>i\<leftarrow>xs. t i))"
    using Cons.prems by (intro Cons.IH) auto
  with fx show ?case by simp
qed

lemma abs_sum_list_le:
  fixes t :: "'i \<Rightarrow> int"
  assumes "\<And>i. i \<in> set xs \<Longrightarrow> \<bar>t i\<bar> \<le> c"
  shows "\<bar>\<Sum>i\<leftarrow>xs. t i\<bar> \<le> c * int (length xs)"
  using assms
proof (induction xs)
  case Nil
  then show ?case by simp
next
  case (Cons x xs)
  have "\<bar>t x\<bar> \<le> c" "\<bar>\<Sum>i\<leftarrow>xs. t i\<bar> \<le> c * int (length xs)"
    using Cons by auto
  then show ?case by (auto simp: algebra_simps)
qed

text \<open>A loop whose body may return from the function with failure, keeping its effects.\<close>

primrec loop_ok :: "('i \<Rightarrow> 's \<Rightarrow> (bool \<times> 's) option) \<Rightarrow> 'i list \<Rightarrow> 's \<Rightarrow> (bool \<times> 's) option" where
  "loop_ok f [] s = Some (True, s)"
| "loop_ok f (i # is) s = do { (ok, s') \<leftarrow> f i s; if ok then loop_ok f is s' else Some (False, s') }"

lemma loop_ok_invariant:
  assumes "loop_ok f xs s = Some (b, s')" and "P s"
    and "\<And>i s b s'. i \<in> set xs \<Longrightarrow> P s \<Longrightarrow> f i s = Some (b, s') \<Longrightarrow> P s'"
  shows "P s'"
  using assms
proof (induction xs arbitrary: s)
  case Nil
  then show ?case by simp
next
  case (Cons x xs)
  from Cons.prems(1) obtain c t where t: "f x s = Some (c, t)"
    and r: "if c then loop_ok f xs t = Some (b, s') else t = s'"
    by (auto split: bind_splits if_splits)
  have pt: "P t" using Cons.prems(3) [OF _ Cons.prems(2) t] by simp
  show ?case
  proof (cases c)
    case True
    then show ?thesis using r Cons.prems(3) by (intro Cons.IH [OF _ pt]) (simp, metis list.set_intros(2))
  next
    case False
    then show ?thesis using r pt by simp
  qed
qed

lemma loop_ok_append:
  "loop_ok f (xs @ ys) s = do { (ok, s') \<leftarrow> loop_ok f xs s; if ok then loop_ok f ys s' else Some (False, s') }"
  by (induction xs arbitrary: s) (auto split: bind_splits)

text \<open>A loop whose checks depend on the index only: it succeeds exactly if every check does.\<close>

lemma loop_ok_upt:
  assumes "\<And>i s. i < n \<Longrightarrow> P i s \<Longrightarrow> \<exists>s'. f i s = Some (Q i, s') \<and> (Q i \<longrightarrow> P (Suc i) s')" and "P 0 s"
  shows "\<exists>s'. loop_ok f [0..<n] s = Some (\<forall>i < n. Q i, s') \<and> ((\<forall>i < n. Q i) \<longrightarrow> P n s')"
  using assms(1)
proof (induction n)
  case 0
  then show ?case using assms(2) by simp
next
  case (Suc n)
  then obtain s' where s': "loop_ok f [0..<n] s = Some (\<forall>i < n. Q i, s')" "(\<forall>i < n. Q i) \<longrightarrow> P n s'"
    by (metis less_SucI)
  show ?case
  proof (cases "\<forall>i < n. Q i")
    case True
    then obtain t where "f n s' = Some (Q n, t)" "Q n \<longrightarrow> P (Suc n) t" using Suc.prems [of n s'] s' by auto
    then show ?thesis using True s' by (auto simp: loop_ok_append less_Suc_eq)
  next
    case False
    then show ?thesis using s' by (auto simp: loop_ok_append less_Suc_eq)
  qed
qed

lemma loop_total:
  assumes "\<And>i s. i \<in> set xs \<Longrightarrow> P s \<Longrightarrow> \<exists>s'. f i s = Some s' \<and> P s'" and "P s"
  shows "\<exists>s'. loop f xs s = Some s' \<and> P s'"
  using assms
proof (induction xs arbitrary: s)
  case Nil
  then show ?case by simp
next
  case (Cons x xs)
  obtain t where t: "f x s = Some t" "P t" using Cons.prems(1) [of x s] Cons.prems(2) by auto
  have "\<exists>s'. loop f xs t = Some s' \<and> P s'"
    using t(2) Cons.prems(1) by (intro Cons.IH) simp_all
  then show ?case using t by simp
qed

lemma loop_ok_total:
  assumes "\<And>i s. i \<in> set xs \<Longrightarrow> P s \<Longrightarrow> \<exists>b s'. f i s = Some (b, s') \<and> P s'" and "P s"
  shows "\<exists>b s'. loop_ok f xs s = Some (b, s') \<and> P s'"
  using assms
proof (induction xs arbitrary: s)
  case Nil
  then show ?case by auto
next
  case (Cons x xs)
  obtain b t where t: "f x s = Some (b, t)" "P t" using Cons.prems(1) [of x s] Cons.prems(2) by auto
  show ?case
  proof (cases b)
    case True
    have "\<exists>b s'. loop_ok f xs t = Some (b, s') \<and> P s'"
      using t(2) Cons.prems(1) by (intro Cons.IH) simp_all
    then show ?thesis using t True by simp
  next
    case False
    then show ?thesis using t by auto
  qed
qed

section \<open>Lists\<close>

lemma nth_take_drop [simp]:
  "i < n \<Longrightarrow> a + n \<le> length xs \<Longrightarrow> take n (drop a xs) ! i = xs ! (a + i)"
  by simp

lemma nth_splice:
  assumes "a + length bs \<le> length m" "i < length m"
  shows "(take a m @ bs @ drop (a + length bs) m) ! i =
    (if a \<le> i \<and> i < a + length bs then bs ! (i - a) else m ! i)"
  using assms by (auto simp: nth_append)

lemma length_splice [simp]:
  "a + length bs \<le> length m \<Longrightarrow> length (take a m @ bs @ drop (a + length bs) m) = length m"
  by simp

section \<open>Words\<close>

lemma unat_add_nowrap:
  fixes a b :: "'a :: len word"
  assumes "unat a + unat b < 2 ^ LENGTH('a)"
  shows "unat (a + b) = unat a + unat b"
  using assms by (simp add: unat_word_ariths)

lemma unat_mult_nowrap:
  fixes a b :: "'a :: len word"
  assumes "unat a * unat b < 2 ^ LENGTH('a)"
  shows "unat (a * b) = unat a * unat b"
  using assms by (simp add: unat_word_ariths)

lemma unat_of_nat_nowrap:
  assumes "n < 2 ^ LENGTH('a)"
  shows "unat (of_nat n :: 'a :: len word) = n"
  using assms by (simp add: unat_of_nat)

lemma word_of_nat_unat: "of_nat (unat w) = (w :: 'a :: len word)"
  by simp

lemma unat_pow2: "k < LENGTH('a) \<Longrightarrow> unat (2 ^ k :: 'a :: len word) = 2 ^ k"
  using unat_of_nat_nowrap [of "2 ^ k", where 'a = 'a] by simp

lemma unat_lt_pow2 [simp]: "unat (w :: 'a :: len word) < 2 ^ LENGTH('a)"
  by (rule unsigned_less)

lemma u32_lt: "unat (w :: u32) < 4294967296"
  using unat_lt_pow2 [of w] by simp

lemma unat_ucast_u32_u64 [simp]: "unat (ucast (w :: u32) :: u64) = unat w"
  using u32_lt [of w] by (simp add: unsigned_ucast_eq take_bit_nat_eq_self_iff)

lemma unat_sub_le:
  fixes a b :: "'a :: len word"
  assumes "b \<le> a"
  shows "unat (a - b) = unat a - unat b"
  using assms by (rule unat_sub)

lemma and_low_mask_unat:
  fixes w :: "'a :: len word"
  shows "unat (w AND mask n) = unat w mod 2 ^ n"
proof -
  have "unat (w AND mask n) = take_bit n (unat w)"
    by (simp only: take_bit_eq_mask [symmetric] unsigned_take_bit_eq)
  then show ?thesis by (simp only: take_bit_eq_mod)
qed

lemma and_not_low_mask_unat:
  fixes w :: "'a :: len word"
  shows "unat (w AND NOT (mask n)) = unat w - unat w mod 2 ^ n"
proof -
  have "(w AND mask n) + (w AND NOT (mask n)) = (w AND mask n) OR (w AND NOT (mask n))"
    by (rule disjunctive_add) (auto simp: bit_simps)
  also have "\<dots> = w" by (rule bit_word_eqI) (auto simp: bit_simps)
  finally have "w AND NOT (mask n) = w - (w AND mask n)" by (simp add: eq_diff_eq add.commute)
  moreover have "w AND mask n \<le> w" by (rule word_and_le2)
  ultimately show ?thesis by (simp add: unat_sub_le and_low_mask_unat)
qed

text \<open>The usual test for a power of two.\<close>

lemma power_of_two_test:
  fixes w :: "'a :: len word"
  assumes "w \<noteq> 0" "w AND (w - 1) = 0"
  shows "\<exists>k < LENGTH('a). unat w = 2 ^ k \<and> w - 1 = mask k"
proof -
  let ?n = "unat w"
  have pos: "0 < ?n" using assms(1) by (simp add: unat_gt_0)
  obtain k where k: "2 ^ k \<le> ?n" "?n < 2 ^ (k + 1)" using ex_power_ivl1 [of 2 ?n] pos by auto
  have kl: "k < LENGTH('a)"
  proof (rule ccontr)
    assume "\<not> k < LENGTH('a)"
    then have "(2::nat) ^ LENGTH('a) \<le> 2 ^ k" by simp
    then show False using k(1) unat_lt_pow2 [of w] by linarith
  qed
  have top: "bit m k" if "2 ^ k \<le> m" "m < 2 ^ (k + 1)" for m :: nat
  proof -
    have "m div 2 ^ k = 1" using that by (simp add: div_nat_eqI)
    then show ?thesis by (simp add: bit_iff_odd)
  qed
  have eq: "?n = 2 ^ k"
  proof (rule ccontr)
    assume "?n \<noteq> 2 ^ k"
    then have "2 ^ k \<le> ?n - 1" "?n - 1 < 2 ^ (k + 1)" using k by auto
    moreover have "unat (w - 1) = ?n - 1" using assms(1) by (simp add: unat_minus_one)
    ultimately have "bit (unat w) k" "bit (unat (w - 1)) k" using top k by auto
    then have "bit (w AND (w - 1)) k" by (simp add: bit_and_iff bit_unsigned_iff)
    then show False using assms(2) by simp
  qed
  moreover have "w - 1 = mask k"
  proof -
    have "unat (w - 1) = 2 ^ k - 1" using assms(1) eq by (simp add: unat_minus_one)
    moreover have "unat (mask k :: 'a word) = 2 ^ k - 1"
    proof -
      have "unat (mask k :: 'a word) = unat (- 1 :: 'a word) mod 2 ^ k"
        using and_low_mask_unat [of "- 1 :: 'a word" k] by simp
      also have "\<dots> = (2 ^ LENGTH('a) - 1) mod 2 ^ k" by (simp add: unsigned_minus_1_eq_mask mask_eq_exp_minus_1)
      also have "\<dots> = mask LENGTH('a) mod 2 ^ k" by (simp add: mask_eq_exp_minus_1)
      also have "\<dots> = take_bit k (mask LENGTH('a))" by (simp only: take_bit_eq_mod)
      also have "\<dots> = (mask k :: nat)" using kl by (simp add: take_bit_of_mask min_def)
      finally show ?thesis by (simp add: mask_eq_exp_minus_1)
    qed
    ultimately show ?thesis by (simp only: word_unat_eq_iff)
  qed
  ultimately show ?thesis using kl by blast
qed

end
