(* ===== verification/Byte_Memory.thy ===== *)
theory Byte_Memory
  imports Prelude
begin

text \<open>
  Byte-addressed memory as the sources use it: a \<open>std::vector<uint8_t>\<close> or a mapped window,
  read and written by \<open>memcpy\<close> and through typed pointers. A byte vector is a list; an access
  outside it is \<open>None\<close>. The interface a client needs (what a read returns after a write, what
  a write leaves alone, how a transfer splits into chunks) is the locale \<open>byte_store\<close>,
  interpreted here on byte vectors.
\<close>

section \<open>Little-endian encoding\<close>

primrec le_bytes :: "nat \<Rightarrow> 'a :: len word \<Rightarrow> bytes" where
  "le_bytes 0 w = []"
| "le_bytes (Suc n) w = ucast w # le_bytes n (drop_bit 8 w)"

primrec le_word :: "bytes \<Rightarrow> 'a :: len word" where
  "le_word [] = 0"
| "le_word (b # bs) = ucast b OR push_bit 8 (le_word bs)"

lemma length_le_bytes [simp]: "length (le_bytes n w) = n"
  by (induction n arbitrary: w) auto

lemma le_word_le_bytes_take: "le_word (le_bytes n w) = take_bit (8 * n) (w :: 'a :: len word)"
proof (induction n arbitrary: w)
  case 0
  then show ?case by simp
next
  case (Suc n)
  have IH: "le_word (le_bytes n (drop_bit 8 w)) = take_bit (8 * n) (drop_bit 8 w)"
    by (rule Suc.IH)
  show ?case
    by (rule bit_word_eqI)
      (auto simp: IH bit_or_iff bit_push_bit_iff bit_take_bit_iff bit_drop_bit_eq
        bit_ucast_iff bit_simps)
qed

lemma le_word_le_bytes:
  "LENGTH('a) \<le> 8 * n \<Longrightarrow> le_word (le_bytes n w) = (w :: 'a :: len word)"
  by (simp add: le_word_le_bytes_take take_bit_word_eq_self)

lemma le_bytes_le_word:
  "8 * length bs \<le> LENGTH('a) \<Longrightarrow> le_bytes (length bs) (le_word bs :: 'a :: len word) = bs"
proof (induction bs)
  case Nil
  then show ?case by simp
next
  case (Cons b bs)
  let ?w = "le_word bs :: 'a word"
  have hd: "(ucast (ucast b OR push_bit 8 ?w :: 'a word) :: u8) = b"
    using Cons.prems
    by (intro bit_word_eqI) (auto simp: bit_simps)
  have small: "take_bit (LENGTH('a) - 8) ?w = ?w"
  proof -
    have "le_word (le_bytes (length bs) ?w) = take_bit (8 * length bs) ?w"
      by (rule le_word_le_bytes_take)
    then have "?w = take_bit (8 * length bs) ?w"
      using Cons by simp
    then have "take_bit (LENGTH('a) - 8) ?w = take_bit (LENGTH('a) - 8) (take_bit (8 * length bs) ?w)"
      by simp
    also have "\<dots> = take_bit (8 * length bs) ?w"
    proof -
      have "min (LENGTH('a) - 8) (8 * length bs) = 8 * length bs" using Cons.prems by simp
      then show ?thesis by (simp only: take_bit_take_bit)
    qed
    also have "\<dots> = ?w" using \<open>?w = take_bit (8 * length bs) ?w\<close> by simp
    finally show ?thesis .
  qed
  have tl: "drop_bit 8 (ucast b OR push_bit 8 ?w :: 'a word) = ?w"
  proof (rule bit_word_eqI)
    fix n assume n: "n < LENGTH('a)"
    have "bit (take_bit (LENGTH('a) - 8) ?w) n = bit ?w n" by (simp add: small)
    then show "bit (drop_bit 8 (ucast b OR push_bit 8 ?w :: 'a word)) n = bit ?w n"
      using n by (auto simp: bit_simps dest: bit_imp_le_length)
  qed
  show ?case using Cons hd tl by simp
qed

section \<open>The memory interface\<close>

text \<open>A transfer done chunk by chunk, over any read and write operation.\<close>

primrec rd_chunks ::
  "('m \<Rightarrow> nat \<Rightarrow> nat \<Rightarrow> bytes option) \<Rightarrow> 'm \<Rightarrow> nat \<Rightarrow> nat list \<Rightarrow> bytes option" where
  "rd_chunks rd m a [] = Some []"
| "rd_chunks rd m a (n # ns) =
     do { xs \<leftarrow> rd m a n; ys \<leftarrow> rd_chunks rd m (a + n) ns; Some (xs @ ys) }"

primrec wr_chunks ::
  "('m \<Rightarrow> nat \<Rightarrow> bytes \<Rightarrow> 'm option) \<Rightarrow> 'm \<Rightarrow> nat \<Rightarrow> bytes list \<Rightarrow> 'm option" where
  "wr_chunks wr m a [] = Some m"
| "wr_chunks wr m a (c # cs) = do { m' \<leftarrow> wr m a c; wr_chunks wr m' (a + length c) cs }"

locale byte_store =
  fixes size_of :: "'m \<Rightarrow> nat"
    and rd :: "'m \<Rightarrow> nat \<Rightarrow> nat \<Rightarrow> bytes option"
    and wr :: "'m \<Rightarrow> nat \<Rightarrow> bytes \<Rightarrow> 'm option"
  assumes rd_defined: "rd m a n \<noteq> None \<longleftrightarrow> a + n \<le> size_of m"
    and wr_defined: "wr m a bs \<noteq> None \<longleftrightarrow> a + length bs \<le> size_of m"
    and wr_size: "wr m a bs = Some m' \<Longrightarrow> size_of m' = size_of m"
    and wr_nil: "a \<le> size_of m \<Longrightarrow> wr m a [] = Some m"
    and rd_length: "rd m a n = Some bs \<Longrightarrow> length bs = n"
    and rd_wr_same: "wr m a bs = Some m' \<Longrightarrow> rd m' a (length bs) = Some bs"
    and rd_wr_disjoint:
      "wr m a bs = Some m' \<Longrightarrow> b + n \<le> a \<or> a + length bs \<le> b \<Longrightarrow> rd m' b n = rd m b n"
    and rd_split: "rd m a (n + k) = do { xs \<leftarrow> rd m a n; ys \<leftarrow> rd m (a + n) k; Some (xs @ ys) }"
    and wr_split: "wr m a (xs @ ys) = do { m' \<leftarrow> wr m a xs; wr m' (a + length xs) ys }"
begin

lemma rd_in_range: "a + n \<le> size_of m \<Longrightarrow> \<exists>bs. rd m a n = Some bs \<and> length bs = n"
  using rd_defined [of m a n] rd_length [of m a n] by auto

lemma wr_in_range:
  "a + length bs \<le> size_of m \<Longrightarrow> \<exists>m'. wr m a bs = Some m' \<and> size_of m' = size_of m"
  using wr_defined [of m a bs] wr_size [of m a bs] by auto

text \<open>Reading a transfer chunk by chunk gives the bytes of one contiguous read.\<close>

lemma rd_chunks_contiguous:
  "a + sum_list ns \<le> size_of m \<Longrightarrow> rd_chunks rd m a ns = rd m a (sum_list ns)"
proof (induction ns arbitrary: a)
  case Nil
  obtain bs where "rd m a 0 = Some bs" "length bs = 0"
    using rd_in_range [of a 0 m] Nil by auto
  then show ?case by simp
next
  case (Cons n ns)
  then show ?case by (simp add: rd_split add.assoc)
qed

text \<open>Writing a transfer chunk by chunk is one contiguous write.\<close>

lemma wr_chunks_contiguous:
  "a + length (concat cs) \<le> size_of m \<Longrightarrow> wr_chunks wr m a cs = wr m a (concat cs)"
proof (induction cs arbitrary: m a)
  case Nil
  then show ?case by (simp add: wr_nil)
next
  case (Cons c cs)
  obtain m' where m': "wr m a c = Some m'" "size_of m' = size_of m"
    using wr_in_range [of a c m] Cons.prems by auto
  then show ?case using Cons by (simp add: wr_split add.assoc)
qed

text \<open>What a chunked write stores, a chunked read with any other chunking returns.\<close>

lemma rd_chunks_after_wr_chunks:
  assumes "wr_chunks wr m a cs = Some m'" "a + length (concat cs) \<le> size_of m"
    and "sum_list ns = length (concat cs)"
  shows "rd_chunks rd m' a ns = Some (concat cs)"
proof -
  have w: "wr m a (concat cs) = Some m'"
    using assms wr_chunks_contiguous by simp
  then have "size_of m' = size_of m" by (rule wr_size)
  then show ?thesis
    using rd_wr_same [OF w] assms rd_chunks_contiguous [of a ns m'] by simp
qed

end

section \<open>Byte vectors\<close>

definition load_bytes :: "bytes \<Rightarrow> nat \<Rightarrow> nat \<Rightarrow> bytes option" where
  "load_bytes m a n = (if a + n \<le> length m then Some (take n (drop a m)) else None)"

definition store_bytes :: "bytes \<Rightarrow> nat \<Rightarrow> bytes \<Rightarrow> bytes option" where
  "store_bytes m a bs =
     (if a + length bs \<le> length m then Some (take a m @ bs @ drop (a + length bs) m) else None)"

definition load8 :: "bytes \<Rightarrow> nat \<Rightarrow> u8 option" where
  "load8 m a = (if a < length m then Some (m ! a) else None)"

definition store8 :: "bytes \<Rightarrow> nat \<Rightarrow> u8 \<Rightarrow> bytes option" where
  "store8 m a b = (if a < length m then Some (m[a := b]) else None)"

definition load32 :: "bytes \<Rightarrow> nat \<Rightarrow> u32 option" where
  "load32 m a = map_option le_word (load_bytes m a 4)"

definition store32 :: "bytes \<Rightarrow> nat \<Rightarrow> u32 \<Rightarrow> bytes option" where
  "store32 m a w = store_bytes m a (le_bytes 4 w)"

lemma load_store_disjoint:
  assumes "a + length bs \<le> length m" and "b + n \<le> a \<or> a + length bs \<le> b"
  shows "take n (drop b (take a m @ bs @ drop (a + length bs) m)) = take n (drop b m)"
  using assms(2)
proof
  assume "b + n \<le> a"
  then show ?thesis using assms(1)
    by (simp add: take_drop)
next
  assume "a + length bs \<le> b"
  then show ?thesis using assms(1) by simp
qed

interpretation ram: byte_store length load_bytes store_bytes
proof
  fix m :: bytes and a n k b :: nat and bs xs ys m' :: bytes
  show "load_bytes m a n \<noteq> None \<longleftrightarrow> a + n \<le> length m"
    by (simp add: load_bytes_def)
  show "store_bytes m a bs \<noteq> None \<longleftrightarrow> a + length bs \<le> length m"
    by (simp add: store_bytes_def)
  show "store_bytes m a bs = Some m' \<Longrightarrow> length m' = length m"
    by (auto simp: store_bytes_def split: if_splits)
  show "a \<le> length m \<Longrightarrow> store_bytes m a [] = Some m"
    by (simp add: store_bytes_def)
  show "load_bytes m a n = Some bs \<Longrightarrow> length bs = n"
    by (auto simp: load_bytes_def split: if_splits)
  show "store_bytes m a bs = Some m' \<Longrightarrow> load_bytes m' a (length bs) = Some bs"
    by (auto simp: load_bytes_def store_bytes_def split: if_splits)
  show "store_bytes m a bs = Some m' \<Longrightarrow> b + n \<le> a \<or> a + length bs \<le> b \<Longrightarrow>
      load_bytes m' b n = load_bytes m b n"
    by (auto simp: load_bytes_def store_bytes_def load_store_disjoint split: if_splits
        simp del: drop_append take_append)
  show "load_bytes m a (n + k) =
      do { xs \<leftarrow> load_bytes m a n; ys \<leftarrow> load_bytes m (a + n) k; Some (xs @ ys) }"
    by (auto simp: load_bytes_def take_add add.commute [of n a])
  show "store_bytes m a (xs @ ys) =
      do { m' \<leftarrow> store_bytes m a xs; store_bytes m' (a + length xs) ys }"
    by (auto simp: store_bytes_def ac_simps)
qed

lemma load32_store32:
  "store32 m a w = Some m' \<Longrightarrow> load32 m' a = Some w"
  using ram.rd_wr_same [of m a "le_bytes 4 w" m']
  by (simp add: store32_def load32_def le_word_le_bytes)

lemma load32_store32_other:
  "store32 m a w = Some m' \<Longrightarrow> b + 4 \<le> a \<or> a + 4 \<le> b \<Longrightarrow> load32 m' b = load32 m b"
  using ram.rd_wr_disjoint [of m a "le_bytes 4 w" m' b 4]
  by (simp add: store32_def load32_def)

lemma load32_in_range: "a + 4 \<le> length m \<Longrightarrow> \<exists>w. load32 m a = Some w"
  using ram.rd_in_range [of a 4 m] by (auto simp: load32_def)

lemma store32_length: "store32 m a w = Some m' \<Longrightarrow> length m' = length m"
  unfolding store32_def by (rule ram.wr_size)

lemma store32_in_range: "a + 4 \<le> length m \<Longrightarrow> \<exists>m'. store32 m a w = Some m'"
  using ram.wr_in_range [of a "le_bytes 4 w" m] by (auto simp: store32_def)

section \<open>Loops that fill a byte region\<close>

definition same_outside :: "nat \<Rightarrow> nat \<Rightarrow> bytes \<Rightarrow> bytes \<Rightarrow> bool" where
  "same_outside a n m m' \<longleftrightarrow>
     length m' = length m \<and> (\<forall>i < length m. i < a \<or> a + n \<le> i \<longrightarrow> m' ! i = m ! i)"

lemma same_outside_refl [simp]: "same_outside a n m m"
  by (simp add: same_outside_def)

lemma same_outside_length: "same_outside a n m m' \<Longrightarrow> length m' = length m"
  by (simp add: same_outside_def)

lemma same_outside_load8:
  "same_outside a n m m' \<Longrightarrow> i < a \<or> a + n \<le> i \<Longrightarrow> load8 m' i = load8 m i"
  by (auto simp: same_outside_def load8_def)

lemma same_outside_load_bytes:
  assumes "same_outside a n m m'" and "b + k \<le> a \<or> a + n \<le> b"
  shows "load_bytes m' b k = load_bytes m b k"
  using assms by (auto simp: same_outside_def load_bytes_def intro!: nth_equalityI)

lemma same_outside_load32:
  "same_outside a n m m' \<Longrightarrow> b + 4 \<le> a \<or> a + n \<le> b \<Longrightarrow> load32 m' b = load32 m b"
  by (simp add: load32_def same_outside_load_bytes)

section \<open>Word arrays\<close>

primrec load_words :: "bytes \<Rightarrow> nat \<Rightarrow> nat \<Rightarrow> u32 list option" where
  "load_words m a 0 = Some []"
| "load_words m a (Suc n) = do { w \<leftarrow> load32 m a; ws \<leftarrow> load_words m (a + 4) n; Some (w # ws) }"

primrec store_words :: "bytes \<Rightarrow> nat \<Rightarrow> u32 list \<Rightarrow> bytes option" where
  "store_words m a [] = Some m"
| "store_words m a (w # ws) = do { m' \<leftarrow> store32 m a w; store_words m' (a + 4) ws }"

lemma store_words_bytes:
  "a + 4 * length ws \<le> length m \<Longrightarrow>
    store_words m a ws = store_bytes m a (concat (map (le_bytes 4) ws))"
proof (induction ws arbitrary: m a)
  case Nil
  then show ?case by (simp add: ram.wr_nil)
next
  case (Cons w ws)
  obtain m' where m': "store32 m a w = Some m'" using store32_in_range [of a m w] Cons.prems by auto
  then have "length m' = length m" by (rule store32_length)
  then show ?case using Cons m'
    by (simp add: ram.wr_split store32_def)
qed

lemma load_words_length: "load_words m a n = Some ws \<Longrightarrow> length ws = n"
  by (induction n arbitrary: a ws) (auto split: bind_splits)

lemma load_words_nth: "load_words m a n = Some ws \<Longrightarrow> i < n \<Longrightarrow> load32 m (a + 4 * i) = Some (ws ! i)"
proof (induction n arbitrary: a ws i)
  case 0
  then show ?case by simp
next
  case (Suc n)
  from Suc.prems(1) obtain w vs where "load32 m a = Some w" "load_words m (a + 4) n = Some vs" "ws = w # vs"
    by (auto split: bind_splits)
  then show ?case using Suc.IH [of "a + 4" vs "i - 1"] Suc.prems(2) by (cases i) (auto simp: add.assoc)
qed

lemma load_words_in_range: "a + 4 * n \<le> length m \<Longrightarrow> \<exists>ws. load_words m a n = Some ws"
proof (induction n arbitrary: a)
  case 0
  then show ?case by simp
next
  case (Suc n)
  obtain w where "load32 m a = Some w" using load32_in_range [of a m] Suc.prems by auto
  moreover obtain ws where "load_words m (a + 4) n = Some ws" using Suc.IH [of "a + 4"] Suc.prems by auto
  ultimately show ?case by simp
qed

lemma store_words_length: "store_words m a ws = Some m' \<Longrightarrow> length m' = length m"
  by (induction ws arbitrary: m a) (auto split: bind_splits dest: store32_length)

lemma store_words_in_range:
  "a + 4 * length ws \<le> length m \<Longrightarrow> \<exists>m'. store_words m a ws = Some m'"
proof (induction ws arbitrary: m a)
  case Nil
  then show ?case by simp
next
  case (Cons w ws)
  then show ?case
    using store32_in_range [of a m w] store32_length Cons.IH by fastforce
qed

lemma load32_store_words_below:
  "store_words m a ws = Some m' \<Longrightarrow> b + 4 \<le> a \<Longrightarrow> load32 m' b = load32 m b"
proof (induction ws arbitrary: m a)
  case Nil
  then show ?case by simp
next
  case (Cons w ws)
  from Cons.prems obtain k where k: "store32 m a w = Some k" "store_words k (a + 4) ws = Some m'"
    by (auto split: bind_splits)
  then show ?case using Cons.IH [OF k(2)] load32_store32_other [OF k(1)] Cons.prems(2) by simp
qed

lemma load_words_store_words:
  "store_words m a ws = Some m' \<Longrightarrow> load_words m' a (length ws) = Some ws"
proof (induction ws arbitrary: m a)
  case Nil
  then show ?case by simp
next
  case (Cons w ws)
  from Cons.prems obtain k where k: "store32 m a w = Some k" "store_words k (a + 4) ws = Some m'"
    by (auto split: bind_splits)
  have "load32 m' a = Some w"
    using load32_store_words_below [OF k(2), of a] load32_store32 [OF k(1)] by simp
  then show ?case using Cons.IH [OF k(2)] by simp
qed

lemma store_words_same_outside:
  assumes "store_words m a ws = Some m'" "a + 4 * length ws \<le> length m"
  shows "same_outside a (4 * length ws) m m'"
proof -
  have len: "length (concat (map (le_bytes 4) ws)) = 4 * length ws"
    by (simp add: length_concat comp_def sum_list_triv)
  have "m' = take a m @ concat (map (le_bytes 4) ws) @ drop (a + 4 * length ws) m"
    using assms store_words_bytes [OF assms(2)] len by (auto simp: store_bytes_def)
  then show ?thesis
    using assms(2) nth_splice [of a "concat (map (le_bytes 4) ws)" m] len
    by (auto simp: same_outside_def)
qed

text \<open>
  A loop that computes one byte per index from the memory outside the region and stores it at
  that index's place in the region leaves exactly those bytes there, and changes nothing else.
\<close>

lemma loop_store8:
  assumes g: "\<And>i m'. i \<in> set xs \<Longrightarrow> same_outside a n m m' \<Longrightarrow> g i m' = Some (v i)"
    and k: "\<And>i. i \<in> set xs \<Longrightarrow> k i < n"
    and inj: "inj_on k (set xs)" and dist: "distinct xs" and room: "a + n \<le> length m"
  shows "\<exists>m'. loop (\<lambda>i m. do { b \<leftarrow> g i m; store8 m (a + k i) b }) xs m = Some m' \<and>
    same_outside a n m m' \<and> (\<forall>i \<in> set xs. m' ! (a + k i) = v i) \<and>
    (\<forall>j < n. j \<notin> k ` set xs \<longrightarrow> m' ! (a + j) = m ! (a + j))"
  using g k inj dist
proof (induction xs rule: rev_induct)
  case Nil
  then show ?case by simp
next
  case (snoc x xs)
  have "\<exists>m'. loop (\<lambda>i m. do { b \<leftarrow> g i m; store8 m (a + k i) b }) xs m = Some m' \<and>
    same_outside a n m m' \<and> (\<forall>i \<in> set xs. m' ! (a + k i) = v i) \<and>
    (\<forall>j < n. j \<notin> k ` set xs \<longrightarrow> m' ! (a + j) = m ! (a + j))"
    using snoc.prems by (intro snoc.IH) (auto simp: inj_on_def)
  then obtain m' where m': "loop (\<lambda>i m. do { b \<leftarrow> g i m; store8 m (a + k i) b }) xs m = Some m'"
    and so: "same_outside a n m m'" and vs: "\<forall>i \<in> set xs. m' ! (a + k i) = v i"
    and rest: "\<forall>j < n. j \<notin> k ` set xs \<longrightarrow> m' ! (a + j) = m ! (a + j)"
    by blast
  have gx: "g x m' = Some (v x)" using snoc.prems(1) so by simp
  have kx: "k x < n" using snoc.prems(2) by simp
  have lt: "a + k x < length m'" using kx room same_outside_length [OF so] by simp
  have ne: "k i \<noteq> k x" if "i \<in> set xs" for i
    using snoc.prems(3,4) that by (auto simp: inj_on_def)
  let ?m = "m'[a + k x := v x]"
  have l: "loop (\<lambda>i m. do { b \<leftarrow> g i m; store8 m (a + k i) b }) (xs @ [x]) m = Some ?m"
    using m' gx lt by (simp add: loop_append store8_def)
  have s: "same_outside a n m ?m"
    using so kx by (auto simp: same_outside_def)
  have v1: "\<forall>i \<in> set (xs @ [x]). ?m ! (a + k i) = v i"
    using vs lt by (auto simp: nth_list_update dest: ne)
  have r1: "\<forall>j < n. j \<notin> k ` set (xs @ [x]) \<longrightarrow> ?m ! (a + j) = m ! (a + j)"
    using rest by auto
  show ?case using l s v1 r1 by blast
qed

section \<open>Frames of several ranges\<close>

text \<open>Memory is the same outside a list of ranges.\<close>

definition same_except :: "(nat \<times> nat) list \<Rightarrow> bytes \<Rightarrow> bytes \<Rightarrow> bool" where
  "same_except rs m m' \<longleftrightarrow> length m' = length m \<and>
     (\<forall>i < length m. (\<forall>(a, n) \<in> set rs. i < a \<or> a + n \<le> i) \<longrightarrow> m' ! i = m ! i)"

lemma same_except_refl [simp]: "same_except rs m m"
  by (simp add: same_except_def)

lemma same_except_trans: "same_except rs m m1 \<Longrightarrow> same_except rs m1 m2 \<Longrightarrow> same_except rs m m2"
  by (simp add: same_except_def)

lemma same_except_length: "same_except rs m m' \<Longrightarrow> length m' = length m"
  by (simp add: same_except_def)

lemma store32_same_except:
  assumes "store32 m a w = Some m'" "(b, n) \<in> set rs" "b \<le> a" "a + 4 \<le> b + n"
  shows "same_except rs m m'"
proof -
  have m': "m' = take a m @ le_bytes 4 w @ drop (a + 4) m" and l: "a + 4 \<le> length m"
    using assms(1) by (simp_all add: store32_def store_bytes_def split: if_splits)
  have "m' ! i = m ! i" if "i < length m" "\<forall>(a, n) \<in> set rs. i < a \<or> a + n \<le> i" for i
  proof -
    have "i < a \<or> a + 4 \<le> i" using that(2) assms(2-4) by fastforce
    then show ?thesis using nth_splice [of a "le_bytes 4 w" m i] m' l that(1) by auto
  qed
  then show ?thesis using m' l by (simp add: same_except_def)
qed

lemma same_except_load32:
  assumes "same_except rs m m'" "\<forall>(a, n) \<in> set rs. b + 4 \<le> a \<or> a + n \<le> b"
  shows "load32 m' b = load32 m b"
proof -
  have "take 4 (drop b m') = take 4 (drop b m)" if "b + 4 \<le> length m"
  proof (rule nth_equalityI)
    show "length (take 4 (drop b m')) = length (take 4 (drop b m))" using assms(1) by (simp add: same_except_def)
    fix i assume "i < length (take 4 (drop b m'))"
    then have i: "i < 4" by simp
    have "\<forall>(a, n) \<in> set rs. b + i < a \<or> a + n \<le> b + i" using assms(2) i by fastforce
    then have "m' ! (b + i) = m ! (b + i)" using assms(1) that i by (simp add: same_except_def)
    then show "take 4 (drop b m') ! i = take 4 (drop b m) ! i"
      using i that same_except_length [OF assms(1)] by simp
  qed
  then show ?thesis using same_except_length [OF assms(1)] by (simp add: load32_def load_bytes_def)
qed

lemma same_except_mono:
  assumes "same_except rs m m'" "\<And>a n. (a, n) \<in> set rs \<Longrightarrow> \<exists>(b, k) \<in> set rs'. b \<le> a \<and> a + n \<le> b + k"
  shows "same_except rs' m m'"
proof -
  have "m' ! i = m ! i" if "i < length m" "\<forall>(a, n) \<in> set rs'. i < a \<or> a + n \<le> i" for i
  proof -
    have "\<forall>(a, n) \<in> set rs. i < a \<or> a + n \<le> i" using that(2) assms(2) by fastforce
    then show ?thesis using assms(1) that(1) unfolding same_except_def by blast
  qed
  then show ?thesis using assms(1) unfolding same_except_def by blast
qed

lemma load_words_map:
  assumes "\<And>j. j < n \<Longrightarrow> load32 m (a + 4 * j) = Some (f j)"
  shows "load_words m a n = Some (map f [0..<n])"
  using assms
proof (induction n arbitrary: a f)
  case (Suc n)
  have "load_words m (a + 4) n = Some (map (\<lambda>j. f (Suc j)) [0..<n])"
    using Suc.prems [of "Suc j" for j] by (intro Suc.IH) (simp add: algebra_simps)
  moreover have "load32 m a = Some (f 0)" using Suc.prems [of 0] by simp
  ultimately show ?case by (simp add: upt_conv_Cons map_Suc_upt [symmetric] comp_def del: upt_Suc)
qed simp

lemma store_words_same_except:
  assumes "store_words m a ws = Some m'" "a + 4 * length ws \<le> length m"
  shows "same_except [(a, 4 * length ws)] m m'"
  using store_words_same_outside [OF assms] by (auto simp: same_except_def same_outside_def)

lemma same_except_load_words:
  assumes "same_except rs m m'" "\<forall>(a, n) \<in> set rs. b + 4 * k \<le> a \<or> a + n \<le> b"
  shows "load_words m' b k = load_words m b k"
  using assms(2)
proof (induction k arbitrary: b)
  case (Suc k)
  have "load32 m' b = load32 m b" using same_except_load32 [OF assms(1), of b] Suc.prems by fastforce
  moreover have "load_words m' (b + 4) k = load_words m (b + 4) k" using Suc.prems by (intro Suc.IH) fastforce
  ultimately show ?case by simp
qed simp

end
