(* ===== verification/Axi_Dma.thy ===== *)
theory Axi_Dma
  imports Byte_Memory
begin

text \<open>
  AXI bursts and DMA requests (\<open>gem5_bridge/gem5_dma_request_builder.h\<close> and the structures of
  \<open>coralnpu_gem5_abi.h\<close>): the translation of a read or write burst of the NPU core into one request
  to the host memory system, and of the returned bytes into read beats.

  The bursts the builders accept are characterised over the naturals (\<open>axi_burst_ok\<close>), and byte \<open>k\<close>
  of a burst at address \<open>A\<close> is shown to travel on byte lane \<open>(A + k) mod 16\<close> in both directions.
\<close>

section \<open>Data\<close>

text \<open>The pins of an AXI channel; a 128-bit data bus is the list of its sixteen bytes.\<close>

record AxiAddr =
  addr_bits_addr :: u32
  addr_bits_prot :: u8
  addr_bits_id :: u8
  addr_bits_len :: u8
  addr_bits_size :: u8
  addr_bits_burst :: u8
  addr_bits_lock :: u8
  addr_bits_cache :: u8
  addr_bits_qos :: u8
  addr_bits_region :: u8

record AxiRData =
  read_data_bits_data :: bytes
  read_data_bits_id :: u8
  read_data_bits_resp :: u8
  read_data_bits_last :: u8

record AxiWData =
  write_data_bits_data :: bytes
  write_data_bits_strb :: u16
  write_data_bits_last :: u8

record AxiWResp =
  write_resp_bits_id :: u8
  write_resp_bits_resp :: u8

record coral_gem5_dma_request =
  dma_type :: u32
  dma_addr :: u32
  dma_size :: u32
  dma_id :: u32
  dma_data :: bytes

abbreviation (input) CORAL_GEM5_AXI_DATA_BYTES :: nat where "CORAL_GEM5_AXI_DATA_BYTES \<equiv> 16"
abbreviation (input) CORAL_GEM5_DMA_DATA_BYTES :: nat where "CORAL_GEM5_DMA_DATA_BYTES \<equiv> 4096"
abbreviation (input) CORAL_GEM5_DMA_READ :: u32 where "CORAL_GEM5_DMA_READ \<equiv> 0"
abbreviation (input) CORAL_GEM5_DMA_WRITE :: u32 where "CORAL_GEM5_DMA_WRITE \<equiv> 1"

definition zero_dma_request :: coral_gem5_dma_request where
  "zero_dma_request = \<lparr> dma_type = 0, dma_addr = 0, dma_size = 0, dma_id = 0,
     dma_data = replicate CORAL_GEM5_DMA_DATA_BYTES 0 \<rparr>"

definition zero_read_response :: AxiRData where
  "zero_read_response = \<lparr> read_data_bits_data = replicate CORAL_GEM5_AXI_DATA_BYTES 0,
     read_data_bits_id = 0, read_data_bits_resp = 0, read_data_bits_last = 0 \<rparr>"

section \<open>Building requests\<close>

definition bytes_per_beat :: "AxiAddr \<Rightarrow> u32" where
  "bytes_per_beat a = push_bit (unat (addr_bits_size a)) 1"

definition burst_beats :: "AxiAddr \<Rightarrow> u32" where
  "burst_beats a = ucast (addr_bits_len a) + 1"

definition beat_lane :: "u32 \<Rightarrow> u32 \<Rightarrow> nat \<Rightarrow> u32" where
  "beat_lane a beat_size beat = (a + of_nat beat * beat_size) AND 0xf"

text \<open>The pointers the caller passes are options; a failed call leaves what they point to.\<close>

definition BuildGem5DmaReadRequest ::
  "AxiAddr \<Rightarrow> coral_gem5_dma_request option \<Rightarrow> u32 option \<Rightarrow> u32 option \<Rightarrow>
    bool \<times> coral_gem5_dma_request option \<times> u32 option \<times> u32 option" where
  "BuildGem5DmaReadRequest a request beat_size beat_count =
     (if request = None \<or> beat_size = None \<or> beat_count = None \<or>
         4 < addr_bits_size a \<or> addr_bits_burst a \<noteq> 1
      then (False, request, beat_size, beat_count)
      else let size = bytes_per_beat a * burst_beats a; page_offset = addr_bits_addr a AND 0xfff in
        if of_nat CORAL_GEM5_DMA_DATA_BYTES < size \<or> 4096 < page_offset + size
        then (False, request, beat_size, beat_count)
        else if list_ex (\<lambda>beat. of_nat CORAL_GEM5_AXI_DATA_BYTES <
            beat_lane (addr_bits_addr a) (bytes_per_beat a) beat + bytes_per_beat a) [0..<unat (burst_beats a)]
        then (False, request, beat_size, beat_count)
        else (True, Some (zero_dma_request\<lparr> dma_type := CORAL_GEM5_DMA_READ, dma_addr := addr_bits_addr a,
            dma_size := size, dma_id := ucast (addr_bits_id a) \<rparr>), Some (bytes_per_beat a), Some (burst_beats a)))"

text \<open>One byte of a write beat, then one beat, each returning false on a missing strobe or a bad flag.\<close>

definition write_byte ::
  "AxiWData \<Rightarrow> nat \<Rightarrow> nat \<Rightarrow> nat \<Rightarrow> coral_gem5_dma_request \<Rightarrow> (bool \<times> coral_gem5_dma_request) option" where
  "write_byte d lane start i r =
     (if (write_data_bits_strb d AND push_bit (lane + i) 1) = 0 then Some (False, r)
      else do { b \<leftarrow> load8 (write_data_bits_data d) (lane + i);
                bs \<leftarrow> store8 (dma_data r) (start + i) b;
                Some (True, r\<lparr> dma_data := bs \<rparr>) })"

definition write_beat ::
  "AxiAddr \<Rightarrow> AxiWData list \<Rightarrow> nat \<Rightarrow> coral_gem5_dma_request \<Rightarrow> (bool \<times> coral_gem5_dma_request) option" where
  "write_beat a data beat r =
     (let n = bytes_per_beat a; last = beat + 1 = unat (burst_beats a);
          lane = beat_lane (addr_bits_addr a) n beat in
      if write_data_bits_last (data ! beat) \<noteq> of_bool last then Some (False, r)
      else if of_nat CORAL_GEM5_AXI_DATA_BYTES < lane + n then Some (False, r)
      else loop_ok (write_byte (data ! beat) (unat lane) (beat * unat n)) [0..<unat n] r)"

definition BuildGem5DmaWriteRequest ::
  "AxiAddr \<Rightarrow> AxiWData list \<Rightarrow> coral_gem5_dma_request option \<Rightarrow>
    (bool \<times> coral_gem5_dma_request option) option" where
  "BuildGem5DmaWriteRequest a data request =
     (if request = None \<or> 4 < addr_bits_size a \<or> addr_bits_burst a \<noteq> 1 then Some (False, request)
      else let size = bytes_per_beat a * burst_beats a; page_offset = addr_bits_addr a AND 0xfff in
        if length data \<noteq> unat (burst_beats a) \<or> of_nat CORAL_GEM5_DMA_DATA_BYTES < size \<or> 4096 < page_offset + size
        then Some (False, request)
        else do { (ok, r) \<leftarrow> loop_ok (write_beat a data) [0..<unat (burst_beats a)]
              (zero_dma_request\<lparr> dma_type := CORAL_GEM5_DMA_WRITE, dma_addr := addr_bits_addr a, dma_size := size,
                 dma_id := ucast (addr_bits_id a) \<rparr>);
            Some (ok, Some r) })"

text \<open>
  The read beats of a completed request: beat by beat, the bytes of the source copied to the lanes
  of a zeroed response, the last beat flagged.
\<close>

definition read_beat ::
  "coral_gem5_dma_request \<Rightarrow> u32 \<Rightarrow> u32 \<Rightarrow> bytes \<Rightarrow> nat \<Rightarrow> AxiRData option" where
  "read_beat r beat_size beat_count source beat =
     do { bs \<leftarrow> load_bytes source (beat * unat beat_size) (unat beat_size);
          d \<leftarrow> store_bytes (read_data_bits_data zero_read_response)
                 (unat (beat_lane (dma_addr r) beat_size beat)) bs;
          Some (zero_read_response\<lparr> read_data_bits_data := d, read_data_bits_id := ucast (dma_id r),
            read_data_bits_last := of_bool (beat + 1 = unat beat_count) \<rparr>) }"

primrec read_beats ::
  "coral_gem5_dma_request \<Rightarrow> u32 \<Rightarrow> u32 \<Rightarrow> bytes \<Rightarrow> nat list \<Rightarrow> AxiRData list option" where
  "read_beats r beat_size beat_count source [] = Some []"
| "read_beats r beat_size beat_count source (beat # beats) =
     do { b \<leftarrow> read_beat r beat_size beat_count source beat;
          bs \<leftarrow> read_beats r beat_size beat_count source beats;
          Some (b # bs) }"

section \<open>The bursts that are accepted\<close>

text \<open>Size, length and address of a burst as natural numbers.\<close>

definition b_size :: "AxiAddr \<Rightarrow> nat" where "b_size a = 2 ^ unat (addr_bits_size a)"
definition b_len :: "AxiAddr \<Rightarrow> nat" where "b_len a = unat (addr_bits_len a) + 1"
definition b_addr :: "AxiAddr \<Rightarrow> nat" where "b_addr a = unat (addr_bits_addr a)"

lemmas burst_accessors = b_size_def b_len_def b_addr_def

definition axi_burst_ok :: "AxiAddr \<Rightarrow> bool" where
  "axi_burst_ok a \<longleftrightarrow> addr_bits_size a \<le> 4 \<and> addr_bits_burst a = 1 \<and>
     b_addr a mod 4096 + b_size a * b_len a \<le> 4096 \<and>
     (\<forall>beat < b_len a. (b_addr a + beat * b_size a) mod 16 + b_size a \<le> 16)"


lemma b_size_pos [simp]: "0 < b_size a" by (simp add: b_size_def)
lemma b_len_pos [simp]: "0 < b_len a" by (simp add: b_len_def)

lemma b_len_le: "b_len a \<le> 256"
  using unat_lt_pow2 [of "addr_bits_len a"] by (simp add: b_len_def)

lemma b_size_le:
  assumes "addr_bits_size a \<le> 4"
  shows "b_size a \<le> 16"
proof -
  have "unat (addr_bits_size a) \<le> 4" using assms by (simp add: word_le_nat_alt)
  then have "(2::nat) ^ unat (addr_bits_size a) \<le> 2 ^ 4" by (intro power_increasing) simp_all
  then show ?thesis by (simp add: b_size_def)
qed

lemma burst_words:
  assumes "addr_bits_size a \<le> 4"
  shows unat_bytes_per_beat: "unat (bytes_per_beat a) = b_size a"
    and unat_burst_beats: "unat (burst_beats a) = b_len a"
    and unat_burst_size: "unat (bytes_per_beat a * burst_beats a) = b_size a * b_len a"
    and unat_page_offset: "unat (addr_bits_addr a AND 0xfff) = b_addr a mod 4096"
    and unat_page_end: "unat ((addr_bits_addr a AND 0xfff) + bytes_per_beat a * burst_beats a) =
      b_addr a mod 4096 + b_size a * b_len a"
    and burst_size_le: "b_size a * b_len a \<le> 4096"
proof -
  have s4: "unat (addr_bits_size a) \<le> 4" using assms by (simp add: word_le_nat_alt)
  have "push_bit (unat (addr_bits_size a)) (1 :: u32) = 2 ^ unat (addr_bits_size a)" by (simp add: push_bit_eq_mult)
  then show n: "unat (bytes_per_beat a) = b_size a"
    using s4 by (simp add: bytes_per_beat_def b_size_def unat_pow2)
  have "unat (ucast (addr_bits_len a) :: u32) = unat (addr_bits_len a)"
    using unat_lt_pow2 [of "addr_bits_len a"] by (simp add: unsigned_ucast_eq take_bit_nat_eq_self_iff)
  then show l: "unat (burst_beats a) = b_len a"
    using unat_lt_pow2 [of "addr_bits_len a"]
    by (simp add: burst_beats_def b_len_def unat_add_nowrap)
  show le: "b_size a * b_len a \<le> 4096"
    using mult_le_mono [OF b_size_le [OF assms] b_len_le [of a]] by simp
  show m: "unat (bytes_per_beat a * burst_beats a) = b_size a * b_len a"
    using le by (subst unat_mult_nowrap) (simp_all add: n l)
  have "addr_bits_addr a AND 0xfff = addr_bits_addr a AND mask 12" by (simp add: mask_eq_exp_minus_1)
  then show p: "unat (addr_bits_addr a AND 0xfff) = b_addr a mod 4096"
    by (simp add: b_addr_def and_low_mask_unat)
  have "b_addr a mod 4096 < 4096" by simp
  then have "b_addr a mod 4096 + b_size a * b_len a < 2 ^ LENGTH(32)" using le by simp
  then show "unat ((addr_bits_addr a AND 0xfff) + bytes_per_beat a * burst_beats a) =
      b_addr a mod 4096 + b_size a * b_len a"
    by (subst unat_add_nowrap) (simp_all only: m p)
qed

lemma unat_beat_lane:
  "unat (beat_lane a n beat) = (unat a + beat * unat n) mod 16"
proof -
  have "unat (a + of_nat beat * n) = (unat a + beat * unat n) mod 2 ^ 32"
    by (simp add: unat_word_ariths unat_of_nat mod_simps)
  moreover have "(a + of_nat beat * n) AND 0xf = (a + of_nat beat * n) AND mask 4" by (simp add: mask_eq_exp_minus_1)
  moreover have "x mod 2 ^ 32 mod 16 = x mod (16 :: nat)" for x by (simp add: mod_mod_cancel)
  ultimately show ?thesis by (simp add: beat_lane_def and_low_mask_unat)
qed

lemma lane_check:
  assumes "addr_bits_size a \<le> 4"
  shows "of_nat CORAL_GEM5_AXI_DATA_BYTES < beat_lane (addr_bits_addr a) (bytes_per_beat a) beat + bytes_per_beat a \<longleftrightarrow>
    \<not> (b_addr a + beat * b_size a) mod 16 + b_size a \<le> 16"
proof -
  have l: "unat (beat_lane (addr_bits_addr a) (bytes_per_beat a) beat) = (b_addr a + beat * b_size a) mod 16"
    by (simp add: unat_beat_lane unat_bytes_per_beat [OF assms] b_addr_def)
  have "(b_addr a + beat * b_size a) mod 16 < 16" by simp
  then have "unat (beat_lane (addr_bits_addr a) (bytes_per_beat a) beat + bytes_per_beat a) =
      (b_addr a + beat * b_size a) mod 16 + b_size a"
    using b_size_le [OF assms] by (subst unat_add_nowrap) (simp_all add: l unat_bytes_per_beat [OF assms])
  then show ?thesis by (simp add: word_less_nat_alt not_le)
qed

lemma size_checks:
  assumes "addr_bits_size a \<le> 4"
  shows "of_nat CORAL_GEM5_DMA_DATA_BYTES < bytes_per_beat a * burst_beats a \<or>
      4096 < (addr_bits_addr a AND 0xfff) + bytes_per_beat a * burst_beats a \<longleftrightarrow>
    \<not> b_addr a mod 4096 + b_size a * b_len a \<le> 4096"
  using burst_size_le [OF assms]
  by (auto simp: word_less_nat_alt unat_page_end [OF assms] unat_burst_size [OF assms])

lemma BuildGem5DmaReadRequest_value:
  "BuildGem5DmaReadRequest a (Some r) (Some s) (Some c) =
    (if axi_burst_ok a
     then (True, Some (zero_dma_request\<lparr> dma_type := CORAL_GEM5_DMA_READ, dma_addr := addr_bits_addr a,
         dma_size := bytes_per_beat a * burst_beats a, dma_id := ucast (addr_bits_id a) \<rparr>),
       Some (bytes_per_beat a), Some (burst_beats a))
     else (False, Some r, Some s, Some c))"
proof (cases "addr_bits_size a \<le> 4")
  case True
  have "list_ex (\<lambda>beat. of_nat CORAL_GEM5_AXI_DATA_BYTES < beat_lane (addr_bits_addr a) (bytes_per_beat a) beat +
      bytes_per_beat a) [0..<unat (burst_beats a)] \<longleftrightarrow>
    \<not> (\<forall>beat < b_len a. (b_addr a + beat * b_size a) mod 16 + b_size a \<le> 16)"
    unfolding lane_check [OF True] unat_burst_beats [OF True] by (auto simp: list_ex_iff)
  then show ?thesis
    using True unfolding BuildGem5DmaReadRequest_def Let_def size_checks [OF True] axi_burst_ok_def by auto
next
  case False
  then show ?thesis by (auto simp: BuildGem5DmaReadRequest_def axi_burst_ok_def)
qed

section \<open>Write bursts\<close>

text \<open>The write bursts that become a request: every byte strobed, the last flag on the last beat only.\<close>

definition write_beat_ok :: "AxiAddr \<Rightarrow> AxiWData list \<Rightarrow> nat \<Rightarrow> bool" where
  "write_beat_ok a data beat \<longleftrightarrow>
     write_data_bits_last (data ! beat) = of_bool (beat + 1 = b_len a) \<and>
     (b_addr a + beat * b_size a) mod 16 + b_size a \<le> 16 \<and>
     (\<forall>i < b_size a. bit (write_data_bits_strb (data ! beat)) ((b_addr a + beat * b_size a + i) mod 16))"

definition write_burst_ok :: "AxiAddr \<Rightarrow> AxiWData list \<Rightarrow> bool" where
  "write_burst_ok a data \<longleftrightarrow> axi_burst_ok a \<and> length data = b_len a \<and>
     (\<forall>beat < b_len a. write_beat_ok a data beat)"

text \<open>Byte \<open>k\<close> of a burst: on the lane of its address, in the beat that carries it.\<close>

definition burst_byte :: "AxiAddr \<Rightarrow> AxiWData list \<Rightarrow> nat \<Rightarrow> u8" where
  "burst_byte a data k = write_data_bits_data (data ! (k div b_size a)) ! ((b_addr a + k) mod 16)"

lemma strobe_test: "(w :: u16) AND push_bit k 1 = 0 \<longleftrightarrow> \<not> bit w k"
proof -
  have "w AND push_bit k 1 = (if bit w k then push_bit k 1 else 0)"
    by (rule bit_word_eqI) (auto simp: bit_simps)
  moreover have "push_bit k (1 :: u16) \<noteq> 0" if "bit w k"
  proof -
    have "k < 16" using bit_imp_le_length [OF that] by simp
    then have "bit (push_bit k (1 :: u16)) k" by (simp add: bit_push_bit_iff del: push_bit_of_1)
    then show ?thesis by (metis bit_0_eq bot_apply bot_bool_def)
  qed
  ultimately show ?thesis by auto
qed

lemma lane_split:
  fixes x n i :: nat
  assumes "x mod 16 + n \<le> 16" "i < n"
  shows "x mod 16 + i = (x + i) mod 16"
proof -
  have "x mod 16 + i < 16" using assms by simp
  then show ?thesis by (metis mod_add_left_eq mod_less)
qed

lemma write_byte_loop:
  assumes "lane + n \<le> 16" "length (write_data_bits_data d) = 16" "start + n \<le> length (dma_data r)"
  shows "\<exists>r'. loop_ok (write_byte d lane start) [0..<n] r =
      Some (\<forall>i < n. bit (write_data_bits_strb d) (lane + i), r') \<and>
    ((\<forall>i < n. bit (write_data_bits_strb d) (lane + i)) \<longrightarrow>
      (\<exists>bs. r' = r\<lparr> dma_data := bs \<rparr> \<and> same_outside start n (dma_data r) bs \<and>
        (\<forall>i < n. bs ! (start + i) = write_data_bits_data d ! (lane + i))))"
proof (rule loop_ok_upt [where P = "\<lambda>n r'. \<exists>bs. r' = r\<lparr> dma_data := bs \<rparr> \<and> same_outside start n (dma_data r) bs \<and>
        (\<forall>i < n. bs ! (start + i) = write_data_bits_data d ! (lane + i))"])
  fix i s assume i: "i < n" and "\<exists>bs. s = r\<lparr> dma_data := bs \<rparr> \<and> same_outside start i (dma_data r) bs \<and>
        (\<forall>j < i. bs ! (start + j) = write_data_bits_data d ! (lane + j))"
  then obtain bs where bs: "s = r\<lparr> dma_data := bs \<rparr>" "same_outside start i (dma_data r) bs"
    "\<forall>j < i. bs ! (start + j) = write_data_bits_data d ! (lane + j)" by blast
  have len: "length bs = length (dma_data r)" using bs(2) by (rule same_outside_length)
  show "\<exists>s'. write_byte d lane start i s = Some (bit (write_data_bits_strb d) (lane + i), s') \<and>
     (bit (write_data_bits_strb d) (lane + i) \<longrightarrow> (\<exists>bs. s' = r\<lparr> dma_data := bs \<rparr> \<and>
       same_outside start (Suc i) (dma_data r) bs \<and>
        (\<forall>j < Suc i. bs ! (start + j) = write_data_bits_data d ! (lane + j))))"
  proof (cases "bit (write_data_bits_strb d) (lane + i)")
    case True
    let ?bs = "bs[start + i := write_data_bits_data d ! (lane + i)]"
    have "write_byte d lane start i s = Some (True, r\<lparr> dma_data := ?bs \<rparr>)"
      using True assms i len by (simp add: write_byte_def strobe_test load8_def store8_def bs(1) del: push_bit_of_1)
    moreover have "same_outside start (Suc i) (dma_data r) ?bs"
      using bs(2) by (auto simp: same_outside_def nth_list_update)
    moreover have "\<forall>j < Suc i. ?bs ! (start + j) = write_data_bits_data d ! (lane + j)"
      using bs(3) assms(3) i len by (auto simp: nth_list_update less_Suc_eq)
    ultimately show ?thesis using True by auto
  next
    case False
    then show ?thesis by (simp add: write_byte_def strobe_test del: push_bit_of_1)
  qed
qed (auto intro: exI [of _ "dma_data r"])

lemma write_beat_lane:
  fixes a data m
  defines "x \<equiv> b_addr a + m * b_size a"
  assumes s4: "addr_bits_size a \<le> 4" and m: "m < b_len a" and lane: "x mod 16 + b_size a \<le> 16"
    and dm: "length (write_data_bits_data (data ! m)) = 16"
    and lw: "unat (beat_lane (addr_bits_addr a) (bytes_per_beat a) m) = x mod 16"
    and room: "m * b_size a + b_size a \<le> 4096"
    and bs: "s = r\<lparr> dma_data := bs \<rparr>" "length bs = 4096"
    "\<forall>k < m * b_size a. bs ! k = burst_byte a data k" "\<forall>k < 4096. m * b_size a \<le> k \<longrightarrow> bs ! k = 0"
  shows "\<exists>s'. write_beat a data m s = Some (write_beat_ok a data m, s') \<and> (write_beat_ok a data m \<longrightarrow>
      (\<exists>bs. s' = r\<lparr> dma_data := bs \<rparr> \<and> length bs = 4096 \<and> (\<forall>k < Suc m * b_size a. bs ! k = burst_byte a data k) \<and>
       (\<forall>k < 4096. Suc m * b_size a \<le> k \<longrightarrow> bs ! k = 0)))"
proof -
  let ?lane = "x mod 16" and ?x = x
  have ls: "?lane + i = (?x + i) mod 16" if "i < b_size a" for i using lane_split [OF lane that] .
  obtain r' where r': "loop_ok (write_byte (data ! m) ?lane (m * b_size a)) [0..<b_size a] s =
      Some (\<forall>i < b_size a. bit (write_data_bits_strb (data ! m)) (?lane + i), r')"
    and d: "(\<forall>i < b_size a. bit (write_data_bits_strb (data ! m)) (?lane + i)) \<Longrightarrow>
      \<exists>bs'. r' = s\<lparr> dma_data := bs' \<rparr> \<and> same_outside (m * b_size a) (b_size a) (dma_data s) bs' \<and>
        (\<forall>i < b_size a. bs' ! (m * b_size a + i) = write_data_bits_data (data ! m) ! (?lane + i))"
    using write_byte_loop [OF lane dm, of "m * b_size a" s] room bs(1,2) by auto
  have beat: "write_beat a data m s =
      (if write_data_bits_last (data ! m) = of_bool (m + 1 = b_len a)
       then Some (\<forall>i < b_size a. bit (write_data_bits_strb (data ! m)) (?lane + i), r') else Some (False, s))"
    unfolding write_beat_def Let_def lane_check [OF s4] lw unat_bytes_per_beat [OF s4] unat_burst_beats [OF s4] r'
    using lane by (simp add: x_def)
  have ok: "write_beat_ok a data m \<longleftrightarrow> write_data_bits_last (data ! m) = of_bool (m + 1 = b_len a) \<and>
      (\<forall>i < b_size a. bit (write_data_bits_strb (data ! m)) (?lane + i))"
    unfolding write_beat_ok_def using lane ls by (simp add: x_def)
  show ?thesis
  proof (cases "write_beat_ok a data m")
    case True
    then obtain bs' where bs': "r' = s\<lparr> dma_data := bs' \<rparr>" "same_outside (m * b_size a) (b_size a) bs bs'"
      "\<forall>i < b_size a. bs' ! (m * b_size a + i) = write_data_bits_data (data ! m) ! (?lane + i)"
      using d ok bs(1) by auto
    have "bs' ! k = burst_byte a data k" if k: "k < Suc m * b_size a" for k
    proof (cases "k < m * b_size a")
      case True
      then show ?thesis using bs'(2) bs(2,3) room by (simp add: same_outside_def)
    next
      case False
      then obtain i where i: "k = m * b_size a + i" "i < b_size a" using k by (auto simp: not_less le_iff_add)
      then have "k div b_size a = m" by simp
      moreover have "?lane + i = (b_addr a + k) mod 16" using ls i by (simp add: x_def add.assoc)
      ultimately show ?thesis using bs'(3) i by (simp add: burst_byte_def)
    qed
    moreover have "bs' ! k = 0" if "k < 4096" "Suc m * b_size a \<le> k" for k
      using that bs'(2) bs(2,4) by (simp add: same_outside_def)
    moreover have "length bs' = 4096" using same_outside_length [OF bs'(2)] bs(2) by simp
    moreover have "r' = r\<lparr> dma_data := bs' \<rparr>" using bs'(1) bs(1) by simp
    ultimately show ?thesis using beat ok True by (intro exI [of _ r']) auto
  next
    case False
    then show ?thesis using beat ok by auto
  qed
qed

lemma write_beats_loop:
  assumes s4: "addr_bits_size a \<le> 4" and "length data = b_len a" "\<forall>d \<in> set data. length (write_data_bits_data d) = 16"
    and "dma_data r = replicate 4096 0"
  shows "\<exists>r'. loop_ok (write_beat a data) [0..<b_len a] r = Some (\<forall>beat < b_len a. write_beat_ok a data beat, r') \<and>
    ((\<forall>beat < b_len a. write_beat_ok a data beat) \<longrightarrow>
      (\<exists>bs. r' = r\<lparr> dma_data := bs \<rparr> \<and> length bs = 4096 \<and> (\<forall>k < b_len a * b_size a. bs ! k = burst_byte a data k) \<and>
        (\<forall>k < 4096. b_len a * b_size a \<le> k \<longrightarrow> bs ! k = 0)))"
proof (rule loop_ok_upt [where P = "\<lambda>m r'. \<exists>bs. r' = r\<lparr> dma_data := bs \<rparr> \<and> length bs = 4096 \<and>
        (\<forall>k < m * b_size a. bs ! k = burst_byte a data k) \<and> (\<forall>k < 4096. m * b_size a \<le> k \<longrightarrow> bs ! k = 0)"])
  fix m s assume m: "m < b_len a" and "\<exists>bs. s = r\<lparr> dma_data := bs \<rparr> \<and> length bs = 4096 \<and>
        (\<forall>k < m * b_size a. bs ! k = burst_byte a data k) \<and> (\<forall>k < 4096. m * b_size a \<le> k \<longrightarrow> bs ! k = 0)"
  then obtain bs where bs: "s = r\<lparr> dma_data := bs \<rparr>" "length bs = 4096"
    "\<forall>k < m * b_size a. bs ! k = burst_byte a data k" "\<forall>k < 4096. m * b_size a \<le> k \<longrightarrow> bs ! k = 0" by blast
  let ?x = "b_addr a + m * b_size a"
  let ?lane = "?x mod 16"
  have room: "m * b_size a + b_size a \<le> 4096"
  proof -
    have "Suc m * b_size a \<le> b_len a * b_size a" using m by (intro mult_le_mono1) simp
    then show ?thesis using burst_size_le [OF s4] by (simp add: mult.commute)
  qed
  have dm: "length (write_data_bits_data (data ! m)) = 16" using assms(2,3) m by simp
  have lw: "unat (beat_lane (addr_bits_addr a) (bytes_per_beat a) m) = ?lane"
    by (simp add: unat_beat_lane unat_bytes_per_beat [OF s4] b_addr_def)
  show "\<exists>s'. write_beat a data m s = Some (write_beat_ok a data m, s') \<and> (write_beat_ok a data m \<longrightarrow>
      (\<exists>bs. s' = r\<lparr> dma_data := bs \<rparr> \<and> length bs = 4096 \<and> (\<forall>k < Suc m * b_size a. bs ! k = burst_byte a data k) \<and>
       (\<forall>k < 4096. Suc m * b_size a \<le> k \<longrightarrow> bs ! k = 0)))"
  proof (cases "?lane + b_size a \<le> 16")
    case False
    then have "write_beat a data m s = Some (False, s)"
      unfolding write_beat_def Let_def lane_check [OF s4] by simp
    then show ?thesis using False by (simp add: write_beat_ok_def)
  next
    case lane: True
    show ?thesis by (rule write_beat_lane [OF s4 m lane dm lw room bs])
  qed
qed (use assms(4) in \<open>auto intro: exI [of _ "dma_data r"]\<close>)

lemma write_request_facts:
  assumes "\<forall>d \<in> set data. length (write_data_bits_data d) = 16"
  shows "\<exists>r'. BuildGem5DmaWriteRequest a data (Some r) = Some (write_burst_ok a data, Some r') \<and>
    (write_burst_ok a data \<longrightarrow> dma_type r' = CORAL_GEM5_DMA_WRITE \<and> dma_addr r' = addr_bits_addr a \<and>
      unat (dma_size r') = b_size a * b_len a \<and> dma_id r' = ucast (addr_bits_id a) \<and>
      length (dma_data r') = 4096 \<and> (\<forall>k < b_size a * b_len a. dma_data r' ! k = burst_byte a data k) \<and>
      (\<forall>k < 4096. b_size a * b_len a \<le> k \<longrightarrow> dma_data r' ! k = 0))"
proof (cases "addr_bits_size a \<le> 4 \<and> addr_bits_burst a = 1 \<and> length data = b_len a \<and>
    b_addr a mod 4096 + b_size a * b_len a \<le> 4096")
  case False
  then show ?thesis
    using size_checks [of a] unat_burst_beats [of a]
    by (cases "addr_bits_size a \<le> 4")
      (auto simp: BuildGem5DmaWriteRequest_def Let_def write_burst_ok_def axi_burst_ok_def)
next
  case True
  then have s4: "addr_bits_size a \<le> 4" by simp
  let ?r = "zero_dma_request\<lparr> dma_type := CORAL_GEM5_DMA_WRITE, dma_addr := addr_bits_addr a,
      dma_size := bytes_per_beat a * burst_beats a, dma_id := ucast (addr_bits_id a) \<rparr>"
  have run: "BuildGem5DmaWriteRequest a data (Some r) =
      do { (ok, r) \<leftarrow> loop_ok (write_beat a data) [0..<b_len a] ?r; Some (ok, Some r) }"
    using True size_checks [OF s4] by (auto simp: BuildGem5DmaWriteRequest_def Let_def unat_burst_beats [OF s4])
  have z: "dma_data ?r = replicate 4096 0" by (simp add: zero_dma_request_def)
  have ok: "write_burst_ok a data \<longleftrightarrow> (\<forall>beat < b_len a. write_beat_ok a data beat)"
    using True by (auto simp: write_burst_ok_def axi_burst_ok_def write_beat_ok_def)
  obtain r' where "loop_ok (write_beat a data) [0..<b_len a] ?r = Some (write_burst_ok a data, r')"
    "write_burst_ok a data \<Longrightarrow> \<exists>bs. r' = ?r\<lparr> dma_data := bs \<rparr> \<and> length bs = 4096 \<and>
      (\<forall>k < b_len a * b_size a. bs ! k = burst_byte a data k) \<and> (\<forall>k < 4096. b_len a * b_size a \<le> k \<longrightarrow> bs ! k = 0)"
    using write_beats_loop [OF s4 _ assms z] True unfolding ok by auto
  then show ?thesis unfolding run by (auto simp: unat_burst_size [OF s4] mult.commute [of "b_len a"])
qed

lemma BuildGem5DmaWriteRequest_length:
  assumes "BuildGem5DmaWriteRequest a data (Some r) = Some (ok, Some r')" "length (dma_data r) = 4096"
  shows "length (dma_data r') = 4096"
proof -
  have byte: "length (dma_data s') = 4096" if "write_byte d lane start i s = Some (k, s')" "length (dma_data s) = 4096"
    for d lane start i s k s'
    using that by (auto simp: write_byte_def store8_def split: if_splits bind_split_asm)
  have beat: "length (dma_data s') = 4096" if "write_beat a data i s = Some (k, s')" "length (dma_data s) = 4096" for i s k s'
    using that byte by (auto simp: write_beat_def Let_def split: if_splits
        intro: loop_ok_invariant [where P = "\<lambda>s. length (dma_data s) = 4096"])
  show ?thesis
    using assms beat
    by (auto simp: BuildGem5DmaWriteRequest_def Let_def zero_dma_request_def split: if_splits bind_split_asm
        intro: loop_ok_invariant [where P = "\<lambda>s. length (dma_data s) = 4096"])
qed

text \<open>
  C24: a write burst becomes a DMA request exactly if it is an incrementing burst of at most 16
  bytes a beat that stays in its 4096-byte page, each beat fits the bus, every byte of every beat
  is strobed and the last flag is on the last beat only. Then the request holds the address and
  size of the burst, byte \<open>k\<close> is the byte on lane \<open>(A + k) mod 16\<close> of beat \<open>k div size\<close>, and the
  rest of the buffer is zero. No access leaves the request buffer or the bus.
\<close>

theorem BuildGem5DmaWriteRequest_correct:
  assumes "\<forall>d \<in> set data. length (write_data_bits_data d) = 16"
  shows "\<exists>r'. BuildGem5DmaWriteRequest a data (Some r) = Some (write_burst_ok a data, Some r') \<and>
    (write_burst_ok a data \<longrightarrow> dma_type r' = CORAL_GEM5_DMA_WRITE \<and> dma_addr r' = addr_bits_addr a \<and>
      unat (dma_size r') = b_size a * b_len a \<and> dma_id r' = ucast (addr_bits_id a) \<and>
      length (dma_data r') = 4096 \<and> (\<forall>k < b_size a * b_len a. dma_data r' ! k = burst_byte a data k) \<and>
      (\<forall>k < 4096. b_size a * b_len a \<le> k \<longrightarrow> dma_data r' ! k = 0))"
  using assms by (rule write_request_facts)

text \<open>Two beats of four bytes at an address in the middle of the bus.\<close>

definition write_example_addr :: AxiAddr where
  "write_example_addr = \<lparr> addr_bits_addr = 0x20000018, addr_bits_prot = 0, addr_bits_id = 5, addr_bits_len = 1,
     addr_bits_size = 2, addr_bits_burst = 1, addr_bits_lock = 0, addr_bits_cache = 0, addr_bits_qos = 0,
     addr_bits_region = 0 \<rparr>"

definition write_example_data :: "AxiWData list" where
  "write_example_data =
     [\<lparr> write_data_bits_data = map of_nat [0..<16], write_data_bits_strb = 0x0f00, write_data_bits_last = 0 \<rparr>,
      \<lparr> write_data_bits_data = map of_nat [16..<32], write_data_bits_strb = 0xf000, write_data_bits_last = 1 \<rparr>]"

lemma all_beats_2: "(\<forall>i < Suc (Suc 0). P i) \<longleftrightarrow> P 0 \<and> P 1"
  by (auto simp: less_Suc_eq)

lemma all_bytes_4: "(\<forall>i < (4::nat). P i) \<longleftrightarrow> P 0 \<and> P 1 \<and> P 2 \<and> P 3"
  by (auto simp: eval_nat_numeral less_Suc_eq)

lemma write_example_ok: "write_burst_ok write_example_addr write_example_data"
  by (simp add: write_burst_ok_def axi_burst_ok_def write_beat_ok_def burst_accessors write_example_addr_def
      write_example_data_def all_beats_2 all_bytes_4)

theorem BuildGem5DmaWriteRequest_correct_witness:
  "\<exists>r. BuildGem5DmaWriteRequest write_example_addr write_example_data (Some zero_dma_request) = Some (True, Some r) \<and>
    dma_addr r = 0x20000018 \<and> unat (dma_size r) = 8 \<and> dma_data r ! 3 = 11 \<and> dma_data r ! 4 = 28"
proof -
  have d: "\<forall>d \<in> set write_example_data. length (write_data_bits_data d) = 16"
    by (simp add: write_example_data_def)
  have b: "burst_byte write_example_addr write_example_data 3 = 11" "burst_byte write_example_addr write_example_data 4 = 28"
    "b_size write_example_addr * b_len write_example_addr = 8" "addr_bits_addr write_example_addr = 0x20000018"
    by (simp_all add: burst_byte_def burst_accessors write_example_addr_def write_example_data_def)
  obtain r where "BuildGem5DmaWriteRequest write_example_addr write_example_data (Some zero_dma_request) =
      Some (write_burst_ok write_example_addr write_example_data, Some r)"
    "write_burst_ok write_example_addr write_example_data \<longrightarrow> dma_addr r = addr_bits_addr write_example_addr \<and>
      unat (dma_size r) = b_size write_example_addr * b_len write_example_addr \<and>
      (\<forall>k < b_size write_example_addr * b_len write_example_addr.
        dma_data r ! k = burst_byte write_example_addr write_example_data k)"
    using BuildGem5DmaWriteRequest_correct [OF d, of write_example_addr zero_dma_request] by blast
  then show ?thesis using write_example_ok b by (intro exI [of _ r]) simp
qed

section \<open>Read beats\<close>

text \<open>What the beats of a read burst carry: byte \<open>k\<close> of the source on lane \<open>(A + k) mod 16\<close>.\<close>

definition beats_carry :: "AxiAddr \<Rightarrow> bytes \<Rightarrow> AxiRData list \<Rightarrow> bool" where
  "beats_carry a source beats \<longleftrightarrow> length beats = b_len a \<and>
     (\<forall>beat < b_len a. length (read_data_bits_data (beats ! beat)) = 16 \<and>
        read_data_bits_id (beats ! beat) = addr_bits_id a \<and> read_data_bits_resp (beats ! beat) = 0 \<and>
        read_data_bits_last (beats ! beat) = of_bool (beat + 1 = b_len a)) \<and>
     (\<forall>k < b_size a * b_len a.
        read_data_bits_data (beats ! (k div b_size a)) ! ((b_addr a + k) mod 16) = source ! k)"

lemma read_beats_map:
  "(\<And>b. b \<in> set beats \<Longrightarrow> read_beat r s c source b = Some (f b)) \<Longrightarrow>
    read_beats r s c source beats = Some (map f beats)"
  by (induction beats) auto

lemma read_beats_correct:
  assumes ok: "axi_burst_ok a" and addr: "dma_addr r = addr_bits_addr a" and i: "dma_id r = ucast (addr_bits_id a)"
    and len: "b_size a * b_len a \<le> length source"
  shows "\<exists>beats. read_beats r (bytes_per_beat a) (burst_beats a) source [0..<unat (burst_beats a)] = Some beats \<and>
    beats_carry a source beats"
proof -
  have s4: "addr_bits_size a \<le> 4" using ok by (simp add: axi_burst_ok_def)
  note w = unat_bytes_per_beat [OF s4] unat_burst_beats [OF s4]
  let ?lane = "\<lambda>beat. (b_addr a + beat * b_size a) mod 16"
  let ?piece = "\<lambda>beat. take (b_size a) (drop (beat * b_size a) source)"
  let ?d = "\<lambda>beat. take (?lane beat) (replicate 16 0) @ ?piece beat @ drop (?lane beat + b_size a) (replicate 16 0)"
  let ?f = "\<lambda>beat. \<lparr> read_data_bits_data = ?d beat, read_data_bits_id = addr_bits_id a, read_data_bits_resp = 0,
      read_data_bits_last = of_bool (beat + 1 = b_len a) \<rparr>"
  have lane: "?lane beat + b_size a \<le> 16" if "beat < b_len a" for beat
    using ok that by (simp add: axi_burst_ok_def)
  have piece: "beat * b_size a + b_size a \<le> length source" "length (?piece beat) = b_size a" if "beat < b_len a" for beat
  proof -
    have "Suc beat * b_size a \<le> b_len a * b_size a" using that by (intro mult_le_mono1) simp
    then show "beat * b_size a + b_size a \<le> length source" using len by (simp add: mult.commute)
    then show "length (?piece beat) = b_size a" by simp
  qed
  have lw: "unat (beat_lane (dma_addr r) (bytes_per_beat a) beat) = ?lane beat" for beat
    by (simp add: unat_beat_lane w addr b_addr_def)
  have id: "(ucast (ucast (addr_bits_id a) :: u32) :: u8) = addr_bits_id a"
    by (rule bit_word_eqI) (simp add: bit_simps)
  have one: "read_beat r (bytes_per_beat a) (burst_beats a) source beat = Some (?f beat)" if "beat < b_len a" for beat
    using lane [OF that] piece [OF that]
    by (simp add: read_beat_def w lw load_bytes_def store_bytes_def zero_read_response_def i id)
  have dlen: "length (?d beat) = 16" if "beat < b_len a" for beat
    using lane [OF that] piece(2) [OF that] by simp
  have dk: "?d (k div b_size a) ! ((b_addr a + k) mod 16) = source ! k" if k: "k < b_size a * b_len a" for k
  proof -
    let ?beat = "k div b_size a" and ?i = "k mod b_size a"
    have beat: "?beat < b_len a" using k by (simp add: less_mult_imp_div_less mult.commute)
    have ki: "k = ?beat * b_size a + ?i" by simp
    have il: "?i < b_size a" by simp
    have "?lane ?beat + ?i = (b_addr a + k) mod 16"
      using lane_split [OF lane [OF beat] il] by (simp add: add.assoc)
    moreover have "?d ?beat ! (?lane ?beat + ?i) = ?piece ?beat ! ?i"
      using lane [OF beat] piece(2) [OF beat] il by (simp add: nth_append)
    moreover have "?piece ?beat ! ?i = source ! k"
      using piece(1) [OF beat] il ki by simp
    ultimately show ?thesis by simp
  qed
  have "read_beats r (bytes_per_beat a) (burst_beats a) source [0..<b_len a] = Some (map ?f [0..<b_len a])"
    using one by (intro read_beats_map) simp
  moreover have "beats_carry a source (map ?f [0..<b_len a])"
    unfolding beats_carry_def
  proof (intro conjI allI impI)
    fix k assume k: "k < b_size a * b_len a"
    have "k div b_size a < b_len a" using k by (simp add: less_mult_imp_div_less mult.commute)
    then show "read_data_bits_data (map ?f [0..<b_len a] ! (k div b_size a)) ! ((b_addr a + k) mod 16) = source ! k"
      using dk [OF k] by simp
  qed (use dlen in simp_all)
  ultimately show ?thesis by (simp add: w)
qed

end
