(* ===== verification/Coral_Backend.thy ===== *)
theory Coral_Backend
  imports Axi_Dma
begin

text \<open>
  The interface between the NPU device of gem5 and its execution backends
  (\<open>dev/npu/coral_backend.hh\<close> and \<open>.cc\<close>). The virtual functions are the fields of a record over the
  backend state; the contract the device relies on is the locale \<open>coral_backend_laws\<close>, interpreted
  by each backend.

  The packet of an access is its address with its size (a read) or its payload (a write). A read
  returns the payload of the response, or \<open>None\<close> when the backend does not handle the access. A
  \<open>fatal\<close>, a \<open>panic\<close> and an access outside an array end the simulation: the outer \<open>None\<close>. The current
  tick is an argument.
\<close>

section \<open>Requests\<close>

datatype CoralDmaType = Read | Write

record CoralDmaRequest =
  cd_type :: CoralDmaType
  cd_addr :: u64
  cd_size :: u32
  cd_data :: bytes

text \<open>The two bits of the control register, in both backends.\<close>

definition kResetBit :: u32 where [abi_defs]: "kResetBit = 1"
definition kClockGateBit :: u32 where [abi_defs]: "kClockGateBit = 2"

section \<open>Virtual functions\<close>

record 'b coral_backend =
  be_read :: "u64 \<Rightarrow> u64 \<Rightarrow> nat \<Rightarrow> u64 \<Rightarrow> 'b \<Rightarrow> (bytes option \<times> 'b) option"
  be_write :: "u64 \<Rightarrow> u64 \<Rightarrow> bytes \<Rightarrow> u64 \<Rightarrow> 'b \<Rightarrow> (bool \<times> 'b) option"
  be_translate :: "u64 \<Rightarrow> u64"
  be_hasPendingEvent :: "'b \<Rightarrow> bool"
  be_nextEventTick :: "'b \<Rightarrow> u64"
  be_processEvent :: "u64 \<Rightarrow> 'b \<Rightarrow> 'b option"
  be_hasDmaRequest :: "'b \<Rightarrow> bool"
  be_dmaRequest :: "'b \<Rightarrow> CoralDmaRequest option"
  be_completeDma :: "u64 \<Rightarrow> bytes option \<Rightarrow> nat \<Rightarrow> bool \<Rightarrow> 'b \<Rightarrow> 'b option"
  be_hasLocalExtmem :: "'b \<Rightarrow> bool"
  be_readLocalExtmem :: "u64 \<Rightarrow> nat \<Rightarrow> 'b \<Rightarrow> bytes option"
  be_writeLocalExtmem :: "u64 \<Rightarrow> bytes \<Rightarrow> 'b \<Rightarrow> 'b option"

text \<open>The default bodies of the base class.\<close>

definition default_hasDmaRequest :: "'b \<Rightarrow> bool" where
  "default_hasDmaRequest b = False"

definition default_dmaRequest :: "'b \<Rightarrow> CoralDmaRequest option" where
  "default_dmaRequest b = None"

definition default_completeDma :: "u64 \<Rightarrow> bytes option \<Rightarrow> nat \<Rightarrow> bool \<Rightarrow> 'b \<Rightarrow> 'b option" where
  "default_completeDma now data n error b = None"

definition default_hasLocalExtmem :: "'b \<Rightarrow> bool" where
  "default_hasLocalExtmem b = False"

definition default_readLocalExtmem :: "u64 \<Rightarrow> nat \<Rightarrow> 'b \<Rightarrow> bytes option" where
  "default_readLocalExtmem a n b = None"

definition default_writeLocalExtmem :: "u64 \<Rightarrow> bytes \<Rightarrow> 'b \<Rightarrow> 'b option" where
  "default_writeLocalExtmem a bs b = None"

lemmas default_backend_defs = default_hasDmaRequest_def default_dmaRequest_def default_completeDma_def
  default_hasLocalExtmem_def default_readLocalExtmem_def default_writeLocalExtmem_def

section \<open>The contract\<close>

definition dma_request_ok :: "CoralDmaRequest \<Rightarrow> bool" where
  "dma_request_ok r \<longleftrightarrow> 0 < cd_size r \<and> unat (cd_size r) \<le> CORAL_GEM5_DMA_DATA_BYTES \<and>
     length (cd_data r) = CORAL_GEM5_DMA_DATA_BYTES"

text \<open>
  What the device relies on: a request stays until it is completed and completion removes it;
  register accesses neither raise nor drop a request; an event is pending exactly when its tick is
  not zero; a presented request has a size that fits its buffer.
\<close>

locale coral_backend_laws =
  fixes V :: "'b coral_backend" and wf :: "'b \<Rightarrow> bool"
  assumes pending_tick: "be_hasPendingEvent V b \<longleftrightarrow> be_nextEventTick V b \<noteq> 0"
    and translate_identity: "be_translate V a = a"
    and read_keeps: "wf b \<Longrightarrow> be_read V now a n pio b = Some (resp, b') \<Longrightarrow>
      wf b' \<and> be_hasDmaRequest V b' = be_hasDmaRequest V b \<and> be_dmaRequest V b' = be_dmaRequest V b \<and>
      be_hasLocalExtmem V b' = be_hasLocalExtmem V b"
    and write_keeps: "wf b \<Longrightarrow> be_write V now a bs pio b = Some (ok, b') \<Longrightarrow>
      wf b' \<and> be_hasDmaRequest V b' = be_hasDmaRequest V b \<and> be_dmaRequest V b' = be_dmaRequest V b \<and>
      be_hasLocalExtmem V b' = be_hasLocalExtmem V b"
    and process_keeps: "wf b \<Longrightarrow> be_processEvent V now b = Some b' \<Longrightarrow>
      wf b' \<and> (be_hasDmaRequest V b \<longrightarrow> be_hasDmaRequest V b') \<and>
      be_hasLocalExtmem V b' = be_hasLocalExtmem V b"
    and request_shape: "wf b \<Longrightarrow> be_hasDmaRequest V b \<Longrightarrow> \<exists>r. be_dmaRequest V b = Some r \<and> dma_request_ok r"
    and complete_removes: "wf b \<Longrightarrow> be_completeDma V now data n error b = Some b' \<Longrightarrow>
      wf b' \<and> \<not> be_hasDmaRequest V b' \<and> be_hasLocalExtmem V b' = be_hasLocalExtmem V b"
    and local_write_keeps: "wf b \<Longrightarrow> be_writeLocalExtmem V a bs b = Some b' \<Longrightarrow>
      wf b' \<and> be_hasDmaRequest V b' = be_hasDmaRequest V b \<and> be_dmaRequest V b' = be_dmaRequest V b \<and>
      be_hasLocalExtmem V b' = be_hasLocalExtmem V b \<and> be_nextEventTick V b' = be_nextEventTick V b"
    and local_read_length: "be_readLocalExtmem V a n b = Some bs \<Longrightarrow> length bs = n"
begin

lemma pending_event_tick: "(if be_hasPendingEvent V b then Some (be_nextEventTick V b) else None) =
    (if be_nextEventTick V b = 0 then None else Some (be_nextEventTick V b))"
  by (simp add: pending_tick)

end

end
