(* ===== verification/Stagea_Backend.thy ===== *)
theory Stagea_Backend
  imports Coral_Backend
begin

text \<open>
  The transaction-level backend (\<open>dev/npu/coral_stagea_backend.cc\<close>): instruction and data memory
  windows, the control, program-counter and status registers, and an execution that is one event
  after a fixed latency.
\<close>

section \<open>State\<close>

record stagea =
  sa_pioAddr :: u64
  sa_pioSize :: u64
  sa_itcmSize :: u64
  sa_dtcmSize :: u64
  sa_executionLatency :: u64
  sa_autoHalt :: bool
  sa_resetControl :: u32
  sa_pcStart :: u32
  sa_halted :: bool
  sa_fault :: bool
  sa_pendingEventTick :: u64
  sa_itcm :: bytes
  sa_dtcm :: bytes

definition kDtcmOffset :: u64 where [abi_defs]: "kDtcmOffset = 0x10000"
definition kCsrOffset :: u64 where [abi_defs]: "kCsrOffset = 0x30000"
definition kCsrSize :: u64 where [abi_defs]: "kCsrSize = 0x1000"

definition CoralStageABackend :: "u64 \<Rightarrow> u64 \<Rightarrow> u64 \<Rightarrow> u64 \<Rightarrow> u64 \<Rightarrow> bool \<Rightarrow> stagea option" where
  "CoralStageABackend pio_addr pio_size itcm_size dtcm_size latency auto_halt =
     (if pio_size < kCsrOffset + kCsrSize then None
      else Some \<lparr> sa_pioAddr = pio_addr, sa_pioSize = pio_size, sa_itcmSize = itcm_size, sa_dtcmSize = dtcm_size,
        sa_executionLatency = latency, sa_autoHalt = auto_halt, sa_resetControl = kResetBit OR kClockGateBit,
        sa_pcStart = 0, sa_halted = False, sa_fault = False, sa_pendingEventTick = 0,
        sa_itcm = replicate (unat itcm_size) 0, sa_dtcm = replicate (unat dtcm_size) 0 \<rparr>)"

section \<open>Windows\<close>

definition inItcm :: "stagea \<Rightarrow> u64 \<Rightarrow> u64 \<Rightarrow> bool" where
  "inItcm s offset n \<longleftrightarrow> offset < sa_itcmSize s \<and> n \<le> sa_itcmSize s - offset"

definition inDtcm :: "stagea \<Rightarrow> u64 \<Rightarrow> u64 \<Rightarrow> bool" where
  "inDtcm s offset n \<longleftrightarrow> kDtcmOffset \<le> offset \<and> offset - kDtcmOffset < sa_dtcmSize s \<and>
     n \<le> sa_dtcmSize s - (offset - kDtcmOffset)"

definition inCsr :: "u64 \<Rightarrow> u64 \<Rightarrow> bool" where
  "inCsr offset n \<longleftrightarrow> kCsrOffset \<le> offset \<and> offset - kCsrOffset < kCsrSize \<and>
     n \<le> kCsrSize - (offset - kCsrOffset)"

definition readMemoryWindow :: "stagea \<Rightarrow> u64 \<Rightarrow> nat \<Rightarrow> bytes \<Rightarrow> u64 \<Rightarrow> bytes option option" where
  "readMemoryWindow s a n window windowBase =
     (let offset = a - sa_pioAddr s - windowBase in
      if of_nat (length window) < offset + of_nat n then Some None
      else map_option Some (load_bytes window (unat offset) n))"

definition writeMemoryWindow :: "stagea \<Rightarrow> u64 \<Rightarrow> bytes \<Rightarrow> bytes \<Rightarrow> u64 \<Rightarrow> bytes option option" where
  "writeMemoryWindow s a bs window windowBase =
     (let offset = a - sa_pioAddr s - windowBase in
      if of_nat (length window) < offset + of_nat (length bs) then Some None
      else map_option Some (store_bytes window (unat offset) bs))"

section \<open>Registers and execution\<close>

definition startExecution :: "u64 \<Rightarrow> stagea \<Rightarrow> stagea" where
  "startExecution now s =
     (let s = s\<lparr> sa_halted := False, sa_fault := False \<rparr> in
      if sa_autoHalt s then s\<lparr> sa_pendingEventTick := now + sa_executionLatency s \<rparr> else s)"

definition stopExecution :: "bool \<Rightarrow> stagea \<Rightarrow> stagea" where
  "stopExecution setHalted s = s\<lparr> sa_pendingEventTick := 0, sa_halted := setHalted \<rparr>"

definition completeExecution :: "stagea \<Rightarrow> stagea" where
  "completeExecution s = s\<lparr> sa_halted := True, sa_pendingEventTick := 0 \<rparr>"

definition readCsr :: "nat \<Rightarrow> u64 \<Rightarrow> stagea \<Rightarrow> bytes option" where
  "readCsr n offset s =
     (if n \<noteq> 4 \<or> offset AND 0x3 \<noteq> 0 then None
      else let reg = offset - kCsrOffset in
        if reg = 0x0 then Some (le_bytes 4 (sa_resetControl s))
        else if reg = 0x4 then Some (le_bytes 4 (sa_pcStart s))
        else if reg = 0x8 then Some (le_bytes 4 ((if sa_halted s then 0x1 else 0x0) OR (if sa_fault s then 0x2 else 0x0 :: u32)))
        else None)"

definition writeCsr :: "u64 \<Rightarrow> bytes \<Rightarrow> u64 \<Rightarrow> stagea \<Rightarrow> bool \<times> stagea" where
  "writeCsr now bs offset s =
     (if length bs \<noteq> 4 \<or> offset AND 0x3 \<noteq> 0 then (False, s)
      else let reg = offset - kCsrOffset in
        if reg = 0x0 then
          let oldControl = sa_resetControl s;
              control = le_word bs AND (kResetBit OR kClockGateBit);
              s = s\<lparr> sa_resetControl := control \<rparr> in
          (True, if control AND kResetBit \<noteq> 0 then stopExecution False s
                 else if oldControl AND kResetBit \<noteq> 0 \<and> control AND kClockGateBit = 0 then startExecution now s
                 else s)
        else if reg = 0x4 then (True, s\<lparr> sa_pcStart := le_word bs \<rparr>)
        else (False, s))"

section \<open>The virtual functions\<close>

definition stagea_read :: "u64 \<Rightarrow> u64 \<Rightarrow> nat \<Rightarrow> u64 \<Rightarrow> stagea \<Rightarrow> (bytes option \<times> stagea) option" where
  "stagea_read now a n pio_addr s =
     (let offset = a - pio_addr in
      if inItcm s offset (of_nat n) then map_option (\<lambda>r. (r, s)) (readMemoryWindow s a n (sa_itcm s) 0)
      else if inDtcm s offset (of_nat n) then map_option (\<lambda>r. (r, s)) (readMemoryWindow s a n (sa_dtcm s) kDtcmOffset)
      else if inCsr offset (of_nat n) then Some (readCsr n offset s, s)
      else Some (None, s))"

definition stagea_write :: "u64 \<Rightarrow> u64 \<Rightarrow> bytes \<Rightarrow> u64 \<Rightarrow> stagea \<Rightarrow> (bool \<times> stagea) option" where
  "stagea_write now a bs pio_addr s =
     (let offset = a - pio_addr; n = of_nat (length bs) in
      if inItcm s offset n then
        map_option (\<lambda>r. case r of None \<Rightarrow> (False, s) | Some w \<Rightarrow> (True, s\<lparr> sa_itcm := w \<rparr>))
          (writeMemoryWindow s a bs (sa_itcm s) 0)
      else if inDtcm s offset n then
        map_option (\<lambda>r. case r of None \<Rightarrow> (False, s) | Some w \<Rightarrow> (True, s\<lparr> sa_dtcm := w \<rparr>))
          (writeMemoryWindow s a bs (sa_dtcm s) kDtcmOffset)
      else if inCsr offset n then Some (writeCsr now bs offset s)
      else Some (False, s))"

definition stagea_translate :: "u64 \<Rightarrow> u64" where
  "stagea_translate vaddr = vaddr"

definition stagea_hasPendingEvent :: "stagea \<Rightarrow> bool" where
  "stagea_hasPendingEvent s \<longleftrightarrow> sa_pendingEventTick s \<noteq> 0"

definition stagea_processEvent :: "u64 \<Rightarrow> stagea \<Rightarrow> stagea option" where
  "stagea_processEvent now s = Some (completeExecution s)"

definition stagea_backend :: "stagea coral_backend" where
  "stagea_backend = \<lparr> be_read = stagea_read, be_write = stagea_write, be_translate = stagea_translate,
     be_hasPendingEvent = stagea_hasPendingEvent, be_nextEventTick = sa_pendingEventTick,
     be_processEvent = stagea_processEvent, be_hasDmaRequest = default_hasDmaRequest,
     be_dmaRequest = default_dmaRequest, be_completeDma = default_completeDma,
     be_hasLocalExtmem = default_hasLocalExtmem, be_readLocalExtmem = default_readLocalExtmem,
     be_writeLocalExtmem = default_writeLocalExtmem \<rparr>"

lemma stagea_backend_simps [simp]:
  "be_read stagea_backend = stagea_read" "be_write stagea_backend = stagea_write"
  "be_translate stagea_backend = stagea_translate"
  "be_hasPendingEvent stagea_backend = stagea_hasPendingEvent"
  "be_nextEventTick stagea_backend = sa_pendingEventTick"
  "be_processEvent stagea_backend = stagea_processEvent"
  "be_hasDmaRequest stagea_backend = default_hasDmaRequest"
  "be_dmaRequest stagea_backend = default_dmaRequest"
  "be_completeDma stagea_backend = default_completeDma"
  "be_hasLocalExtmem stagea_backend = default_hasLocalExtmem"
  "be_readLocalExtmem stagea_backend = default_readLocalExtmem"
  "be_writeLocalExtmem stagea_backend = default_writeLocalExtmem"
  by (simp_all add: stagea_backend_def)

section \<open>Invariant and contract\<close>

text \<open>The windows have their configured sizes, and only the two control bits are ever set.\<close>

definition stagea_wf :: "stagea \<Rightarrow> bool" where
  "stagea_wf s \<longleftrightarrow> length (sa_itcm s) = unat (sa_itcmSize s) \<and> length (sa_dtcm s) = unat (sa_dtcmSize s) \<and>
     sa_resetControl s AND (kResetBit OR kClockGateBit) = sa_resetControl s"

lemma CoralStageABackend_wf: "CoralStageABackend a n it dt lat ah = Some s \<Longrightarrow> stagea_wf s"
  by (auto simp: CoralStageABackend_def stagea_wf_def abi_defs split: if_splits)

lemma store_bytes_length: "store_bytes m a bs = Some m' \<Longrightarrow> length m' = length m"
  by (rule ram.wr_size)

lemma writeCsr_wf: "stagea_wf s \<Longrightarrow> stagea_wf (snd (writeCsr now bs offset s))"
  by (auto simp: writeCsr_def stagea_wf_def Let_def stopExecution_def startExecution_def and.assoc)

lemma stagea_write_wf:
  assumes "stagea_wf s" and "stagea_write now a bs pio s = Some (ok, s')"
  shows "stagea_wf s'"
proof -
  have "stagea_wf (snd (writeCsr now bs (a - pio) s))" using assms(1) by (rule writeCsr_wf)
  then show ?thesis
    using assms
    by (auto simp: stagea_write_def stagea_wf_def writeMemoryWindow_def Let_def dest!: store_bytes_length
      split: if_splits)
qed

lemma stagea_read_same: "stagea_read now a n pio s = Some (r, s') \<Longrightarrow> s' = s"
  by (auto simp: stagea_read_def Let_def split: if_splits)

lemma completeExecution_wf [simp]: "stagea_wf (completeExecution s) = stagea_wf s"
  by (simp add: completeExecution_def stagea_wf_def)

interpretation stage: coral_backend_laws stagea_backend stagea_wf
  by unfold_locales
    (auto simp: stagea_hasPendingEvent_def stagea_translate_def stagea_processEvent_def default_backend_defs
      dest: stagea_read_same stagea_write_wf)

section \<open>Memory windows\<close>

lemma window_fits:
  fixes off base size n :: u64
  assumes "base \<le> off" "off - base < size" "n \<le> size - (off - base)"
  shows "unat (off - base) + unat n \<le> unat size" and "\<not> size < off - base + n"
proof -
  have le: "off - base \<le> size" using assms(2) by simp
  have "unat n \<le> unat size - unat (off - base)"
    using assms(3) le by (simp add: word_le_nat_alt unat_sub)
  then show sum: "unat (off - base) + unat n \<le> unat size"
    using assms(2) by (simp add: word_less_nat_alt)
  have "unat (off - base + n) = unat (off - base) + unat n"
    by (rule unat_add_nowrap) (use sum unat_lt_pow2 [of size] in simp)
  then show "\<not> size < off - base + n"
    using sum by (simp add: word_less_nat_alt)
qed

lemma inItcm_fits:
  assumes "stagea_wf s" "inItcm s (a - sa_pioAddr s) (of_nat n)" "n < 2 ^ 64"
  shows "unat (a - sa_pioAddr s) + n \<le> length (sa_itcm s)"
    and "\<not> of_nat (length (sa_itcm s)) < a - sa_pioAddr s - 0 + (of_nat n :: u64)"
  using window_fits [of 0 "a - sa_pioAddr s" "sa_itcmSize s" "of_nat n"] assms
  by (simp_all add: inItcm_def stagea_wf_def unat_of_nat_nowrap)

lemma inDtcm_fits:
  assumes "stagea_wf s" "inDtcm s (a - sa_pioAddr s) (of_nat n)" "n < 2 ^ 64"
  shows "unat (a - sa_pioAddr s - kDtcmOffset) + n \<le> length (sa_dtcm s)"
    and "\<not> of_nat (length (sa_dtcm s)) < a - sa_pioAddr s - kDtcmOffset + (of_nat n :: u64)"
    and "unat (a - sa_pioAddr s - kDtcmOffset) = unat (a - sa_pioAddr s) - 0x10000"
    and "0x10000 \<le> unat (a - sa_pioAddr s)"
  using window_fits [of kDtcmOffset "a - sa_pioAddr s" "sa_dtcmSize s" "of_nat n"] assms
  by (simp_all add: inDtcm_def stagea_wf_def unat_of_nat_nowrap unat_sub word_le_nat_alt kDtcmOffset_def)

lemma stagea_read_windows:
  assumes "stagea_wf s" "n < 2 ^ 64"
  shows "stagea_read now a n (sa_pioAddr s) s = Some
    (if inItcm s (a - sa_pioAddr s) (of_nat n) then load_bytes (sa_itcm s) (unat (a - sa_pioAddr s)) n
     else if inDtcm s (a - sa_pioAddr s) (of_nat n) then load_bytes (sa_dtcm s) (unat (a - sa_pioAddr s) - 0x10000) n
     else if inCsr (a - sa_pioAddr s) (of_nat n) then readCsr n (a - sa_pioAddr s) s
     else None, s)"
  using inItcm_fits [OF assms(1) _ assms(2)] inDtcm_fits [OF assms(1) _ assms(2)]
    ram.rd_in_range [of "unat (a - sa_pioAddr s)" n "sa_itcm s"]
    ram.rd_in_range [of "unat (a - sa_pioAddr s - kDtcmOffset)" n "sa_dtcm s"]
  by (auto simp: stagea_read_def readMemoryWindow_def Let_def)

lemma stagea_write_windows:
  assumes "stagea_wf s" "length bs < 2 ^ 64"
  shows "inItcm s (a - sa_pioAddr s) (of_nat (length bs)) \<Longrightarrow>
      \<exists>m. store_bytes (sa_itcm s) (unat (a - sa_pioAddr s)) bs = Some m \<and>
        stagea_write now a bs (sa_pioAddr s) s = Some (True, s\<lparr> sa_itcm := m \<rparr>)"
    and "\<not> inItcm s (a - sa_pioAddr s) (of_nat (length bs)) \<Longrightarrow>
      inDtcm s (a - sa_pioAddr s) (of_nat (length bs)) \<Longrightarrow>
      \<exists>m. store_bytes (sa_dtcm s) (unat (a - sa_pioAddr s) - 0x10000) bs = Some m \<and>
        stagea_write now a bs (sa_pioAddr s) s = Some (True, s\<lparr> sa_dtcm := m \<rparr>)"
  using inItcm_fits [OF assms(1) _ assms(2)] inDtcm_fits [OF assms(1) _ assms(2)]
    ram.wr_in_range [of "unat (a - sa_pioAddr s)" bs "sa_itcm s"]
    ram.wr_in_range [of "unat (a - sa_pioAddr s - kDtcmOffset)" bs "sa_dtcm s"]
  by (auto simp: stagea_write_def writeMemoryWindow_def Let_def)

lemma in_window_update [simp]:
  "inItcm (s\<lparr> sa_itcm := m \<rparr>) = inItcm s" "inItcm (s\<lparr> sa_dtcm := m \<rparr>) = inItcm s"
  "inDtcm (s\<lparr> sa_itcm := m \<rparr>) = inDtcm s" "inDtcm (s\<lparr> sa_dtcm := m \<rparr>) = inDtcm s"
  "readCsr n off (s\<lparr> sa_itcm := m \<rparr>) = readCsr n off s" "readCsr n off (s\<lparr> sa_dtcm := m \<rparr>) = readCsr n off s"
  by (simp_all add: inItcm_def inDtcm_def readCsr_def fun_eq_iff Let_def)

text \<open>
  The memory windows of the transaction-level backend are a byte store: a write that falls in a
  window is accepted and reads back, and a read of other offsets, in the windows or of registers,
  returns what it returned before.
\<close>

theorem stagea_memory_windows:
  assumes wf: "stagea_wf s" and len: "length bs < 2 ^ 64"
    and win: "inItcm s (a - sa_pioAddr s) (of_nat (length bs)) \<or> inDtcm s (a - sa_pioAddr s) (of_nat (length bs))"
  shows "\<exists>s'. stagea_write now a bs (sa_pioAddr s) s = Some (True, s') \<and> stagea_wf s' \<and>
    stagea_read now' a (length bs) (sa_pioAddr s) s' = Some (Some bs, s') \<and>
    (\<forall>a2 n2. n2 < 2 ^ 64 \<longrightarrow>
      unat (a2 - sa_pioAddr s) + n2 \<le> unat (a - sa_pioAddr s) \<or>
      unat (a - sa_pioAddr s) + length bs \<le> unat (a2 - sa_pioAddr s) \<longrightarrow>
      (\<exists>r. stagea_read now' a2 n2 (sa_pioAddr s) s = Some (r, s) \<and>
        stagea_read now' a2 n2 (sa_pioAddr s) s' = Some (r, s')))"
proof (cases "inItcm s (a - sa_pioAddr s) (of_nat (length bs))")
  case True
  obtain m where m: "store_bytes (sa_itcm s) (unat (a - sa_pioAddr s)) bs = Some m"
    and w: "stagea_write now a bs (sa_pioAddr s) s = Some (True, s\<lparr> sa_itcm := m \<rparr>)"
    using stagea_write_windows(1) [OF wf len True] by blast
  have wf': "stagea_wf (s\<lparr> sa_itcm := m \<rparr>)" using stagea_write_wf [OF wf w] .
  have rd: "\<And>a2 n2. n2 < 2 ^ 64 \<Longrightarrow> stagea_read now' a2 n2 (sa_pioAddr s) (s\<lparr> sa_itcm := m \<rparr>) = Some
    (if inItcm s (a2 - sa_pioAddr s) (of_nat n2) then load_bytes m (unat (a2 - sa_pioAddr s)) n2
     else if inDtcm s (a2 - sa_pioAddr s) (of_nat n2) then load_bytes (sa_dtcm s) (unat (a2 - sa_pioAddr s) - 0x10000) n2
     else if inCsr (a2 - sa_pioAddr s) (of_nat n2) then readCsr n2 (a2 - sa_pioAddr s) s
     else None, s\<lparr> sa_itcm := m \<rparr>)"
    using stagea_read_windows [OF wf'] by simp
  show ?thesis
    using w wf' rd [OF len] True ram.rd_wr_same [OF m] ram.rd_wr_disjoint [OF m]
    by (auto simp: rd stagea_read_windows [OF wf])
next
  case False
  then have d: "inDtcm s (a - sa_pioAddr s) (of_nat (length bs))" using win by blast
  obtain m where m: "store_bytes (sa_dtcm s) (unat (a - sa_pioAddr s) - 0x10000) bs = Some m"
    and w: "stagea_write now a bs (sa_pioAddr s) s = Some (True, s\<lparr> sa_dtcm := m \<rparr>)"
    using stagea_write_windows(2) [OF wf len False d] by blast
  have wf': "stagea_wf (s\<lparr> sa_dtcm := m \<rparr>)" using stagea_write_wf [OF wf w] .
  have rd: "\<And>a2 n2. n2 < 2 ^ 64 \<Longrightarrow> stagea_read now' a2 n2 (sa_pioAddr s) (s\<lparr> sa_dtcm := m \<rparr>) = Some
    (if inItcm s (a2 - sa_pioAddr s) (of_nat n2) then load_bytes (sa_itcm s) (unat (a2 - sa_pioAddr s)) n2
     else if inDtcm s (a2 - sa_pioAddr s) (of_nat n2) then load_bytes m (unat (a2 - sa_pioAddr s) - 0x10000) n2
     else if inCsr (a2 - sa_pioAddr s) (of_nat n2) then readCsr n2 (a2 - sa_pioAddr s) s
     else None, s\<lparr> sa_dtcm := m \<rparr>)"
    using stagea_read_windows [OF wf'] by simp
  have dis: "load_bytes m (unat (a2 - sa_pioAddr s) - 0x10000) n2 = load_bytes (sa_dtcm s) (unat (a2 - sa_pioAddr s) - 0x10000) n2"
    if "inDtcm s (a2 - sa_pioAddr s) (of_nat n2)" "n2 < 2 ^ 64"
      "unat (a2 - sa_pioAddr s) + n2 \<le> unat (a - sa_pioAddr s) \<or>
       unat (a - sa_pioAddr s) + length bs \<le> unat (a2 - sa_pioAddr s)" for a2 n2
    using that inDtcm_fits(4) [OF wf that(1,2)] inDtcm_fits(4) [OF wf d len]
    by (intro ram.rd_wr_disjoint [OF m]) linarith
  show ?thesis
    using w wf' rd [OF len] False d ram.rd_wr_same [OF m] dis
    by (auto simp: rd stagea_read_windows [OF wf])
qed

definition stagea_example :: stagea where
  "stagea_example = \<lparr> sa_pioAddr = 0x1000, sa_pioSize = 0x31000, sa_itcmSize = 8, sa_dtcmSize = 8,
     sa_executionLatency = 1000, sa_autoHalt = True, sa_resetControl = 3, sa_pcStart = 0, sa_halted = False,
     sa_fault = False, sa_pendingEventTick = 0, sa_itcm = replicate 8 0, sa_dtcm = replicate 8 0 \<rparr>"

lemma stagea_example_wf: "stagea_wf stagea_example"
  by (simp add: stagea_wf_def stagea_example_def abi_defs)

theorem stagea_memory_windows_witness:
  "stagea_wf stagea_example \<and> inItcm stagea_example (0x1004 - sa_pioAddr stagea_example) (of_nat (length [5 :: u8, 7])) \<and>
   (\<exists>s'. stagea_write 0 0x1004 [5, 7] 0x1000 stagea_example = Some (True, s') \<and>
     stagea_read 0 0x1004 (length [5 :: u8, 7]) 0x1000 s' = Some (Some [5, 7], s'))"
  using stagea_memory_windows [of stagea_example "[5, 7]" "0x1004" 0 0] stagea_example_wf
  by (auto simp: stagea_example_def inItcm_def)

section \<open>Execution\<close>

text \<open>An aperture whose registers are not hidden by a memory window.\<close>

definition registers_visible :: "stagea \<Rightarrow> bool" where
  "registers_visible s \<longleftrightarrow> sa_itcmSize s \<le> kCsrOffset \<and> sa_dtcmSize s \<le> kCsrOffset - kDtcmOffset"

lemma not_in_memory:
  assumes "registers_visible s" "kCsrOffset \<le> off"
  shows "\<not> inItcm s off n" "\<not> inDtcm s off n"
proof -
  show "\<not> inItcm s off n"
    using assms by (auto simp: registers_visible_def inItcm_def)
  have "kCsrOffset - kDtcmOffset \<le> off - kDtcmOffset"
    using assms(2) by (simp add: word_le_nat_alt unat_sub abi_defs)
  then show "\<not> inDtcm s off n"
    using assms(1) by (auto simp: registers_visible_def inDtcm_def)
qed

lemma csr_access:
  assumes "registers_visible s" "reg < kCsrSize - 3"
  shows "kCsrOffset \<le> kCsrOffset + reg" "inCsr (kCsrOffset + reg) 4"
  using assms unat_add_nowrap [of kCsrOffset reg]
  by (simp_all add: inCsr_def abi_defs word_le_nat_alt word_less_nat_alt unat_sub)

lemma stagea_csr_write:
  assumes "registers_visible s" "reg < kCsrSize - 3" "length bs = 4"
  shows "stagea_write now (pio + kCsrOffset + reg) bs pio s = Some (writeCsr now bs (kCsrOffset + reg) s)"
  using not_in_memory [OF assms(1) csr_access(1) [OF assms(1,2)]] csr_access(2) [OF assms(1,2)] assms(3)
  by (simp add: stagea_write_def Let_def add.assoc)

lemma stagea_csr_read:
  assumes "registers_visible s" "reg < kCsrSize - 3"
  shows "stagea_read now (pio + kCsrOffset + reg) 4 pio s = Some (readCsr 4 (kCsrOffset + reg) s, s)"
  using not_in_memory [OF assms(1) csr_access(1) [OF assms(1,2)]] csr_access(2) [OF assms(1,2)]
  by (simp add: stagea_read_def Let_def add.assoc)

text \<open>
  A run of the transaction-level backend ends: releasing reset and clock gate of a backend held
  in reset schedules one event after the execution latency, the status register reads zero until
  then, and processing the event makes it read halted with nothing left pending.
\<close>

theorem stagea_run_completes:
  assumes "registers_visible s" and "sa_autoHalt s" and "sa_resetControl s AND kResetBit \<noteq> 0"
    and "now + sa_executionLatency s \<noteq> 0"
  shows "\<exists>s1 s2. stagea_write now (pio + kCsrOffset) (le_bytes 4 (0 :: u32)) pio s = Some (True, s1) \<and>
    stagea_hasPendingEvent s1 \<and> sa_pendingEventTick s1 = now + sa_executionLatency s \<and>
    stagea_read t (pio + kCsrOffset + 8) 4 pio s1 = Some (Some (le_bytes 4 (0 :: u32)), s1) \<and>
    stagea_processEvent (sa_pendingEventTick s1) s1 = Some s2 \<and> \<not> stagea_hasPendingEvent s2 \<and>
    stagea_read t (pio + kCsrOffset + 8) 4 pio s2 = Some (Some (le_bytes 4 (1 :: u32)), s2)"
proof -
  define s1 where "s1 = startExecution now (s\<lparr> sa_resetControl := 0 \<rparr>)"
  define s2 where "s2 = completeExecution s1"
  have vis: "registers_visible s1" "registers_visible s2"
    using assms(1) by (simp_all add: registers_visible_def s2_def completeExecution_def s1_def startExecution_def Let_def)
  have w: "stagea_write now (pio + kCsrOffset) (le_bytes 4 (0 :: u32)) pio s = Some (True, s1)"
    using stagea_csr_write [OF assms(1), of 0 "le_bytes 4 (0 :: u32)" now pio] assms(3)
    by (simp add: writeCsr_def Let_def s1_def le_word_le_bytes abi_defs)
  have st: "sa_halted s1 = False" "sa_fault s1 = False" "sa_halted s2 = True" "sa_fault s2 = False"
    "sa_pendingEventTick s1 = now + sa_executionLatency s" "sa_pendingEventTick s2 = 0"
    using assms(2) by (simp_all add: s2_def completeExecution_def s1_def startExecution_def Let_def)
  have r: "stagea_read t (pio + kCsrOffset + 8) 4 pio s' = Some (readCsr 4 (kCsrOffset + 8) s', s')"
    if "registers_visible s'" for s'
    using stagea_csr_read [OF that, of 8 t pio] by (simp add: abi_defs)
  show ?thesis
    by (rule exI [of _ s1], rule exI [of _ s2])
      (use w assms(4) st r [OF vis(1)] r [OF vis(2)] in
        \<open>simp add: stagea_hasPendingEvent_def stagea_processEvent_def s2_def [symmetric] readCsr_def Let_def abi_defs\<close>)
qed

theorem stagea_run_completes_witness:
  "registers_visible stagea_example \<and> sa_autoHalt stagea_example \<and>
   (\<exists>s1 s2. stagea_write 5 (0x1000 + kCsrOffset) (le_bytes 4 (0 :: u32)) 0x1000 stagea_example = Some (True, s1) \<and>
     sa_pendingEventTick s1 = 1005 \<and> stagea_processEvent 1005 s1 = Some s2 \<and>
     stagea_read 2000 (0x1000 + kCsrOffset + 8) 4 0x1000 s2 = Some (Some (le_bytes 4 (1 :: u32)), s2))"
  using stagea_run_completes [of stagea_example 5 "0x1000" 2000]
  by (auto simp: stagea_example_def registers_visible_def abi_defs)

end
