(* ===== verification/Axi_Drivers.thy ===== *)
theory Axi_Drivers
  imports Axi_Dma
begin

text \<open>
  The AXI master drivers of the bridge (\<open>gem5_bridge/gem5_axi_master_drivers.h\<close>): two state machines
  that run on every falling clock edge, accept the requests of the core, hand them to a deferred
  callback and feed the responses back.

  The core is the environment. One edge samples its pins at the points where the code reads them:
  the valid pins on entry, the ready pin of the response channel and the payload after the first
  \<open>clock().Eval()\<close>. The callback is a parameter: it acts on a host state and returns the responses
  it queues.
\<close>

section \<open>The read driver\<close>

record read_driver =
  r_responses :: "AxiRData list"
  r_request :: AxiAddr
  r_request_pending :: bool
  r_request_seen :: bool
  r_response_handshake_pending :: bool
  r_addr_ready :: bool
  r_data_valid :: bool
  r_data :: AxiRData

type_synonym 'h read_callback = "AxiAddr \<Rightarrow> 'h \<Rightarrow> ('h \<times> AxiRData list) option"

definition zero_addr :: AxiAddr where
  "zero_addr = \<lparr> addr_bits_addr = 0, addr_bits_prot = 0, addr_bits_id = 0, addr_bits_len = 0, addr_bits_size = 0,
     addr_bits_burst = 0, addr_bits_lock = 0, addr_bits_cache = 0, addr_bits_qos = 0, addr_bits_region = 0 \<rparr>"

definition init_read_driver :: read_driver where
  "init_read_driver = \<lparr> r_responses = [], r_request = zero_addr, r_request_pending = False, r_request_seen = False,
     r_response_handshake_pending = False, r_addr_ready = True, r_data_valid = False, r_data = zero_read_response \<rparr>"

definition read_QueueResponse :: "AxiRData \<Rightarrow> read_driver \<Rightarrow> read_driver" where
  "read_QueueResponse r d = d\<lparr> r_responses := r_responses d @ [r] \<rparr>"

text \<open>Retiring the response the core took; popping an empty queue is undefined.\<close>

definition read_retire :: "read_driver \<Rightarrow> read_driver option" where
  "read_retire d =
     (if \<not> r_response_handshake_pending d then Some d
      else case r_responses d of
        [] \<Rightarrow> None
      | r # rs \<Rightarrow> Some (d\<lparr> r_responses := rs, r_response_handshake_pending := False,
          r_request_pending := (if read_data_bits_last r \<noteq> 0 then False else r_request_pending d) \<rparr>))"

text \<open>Driving the ready and data pins, and latching the response handshake after the evaluation.\<close>

definition read_drive :: "bool \<Rightarrow> bool \<Rightarrow> read_driver \<Rightarrow> read_driver" where
  "read_drive addr_valid data_ready d =
     d\<lparr> r_request_seen := (if addr_valid then r_request_seen d else False),
        r_addr_ready := \<not> r_request_pending d,
        r_data_valid := r_responses d \<noteq> [],
        r_data := (case r_responses d of [] \<Rightarrow> r_data d | r # _ \<Rightarrow> r),
        r_response_handshake_pending := r_responses d \<noteq> [] \<and> data_ready \<rparr>"

definition read_OnFallingEdge ::
  "'h read_callback \<Rightarrow> bool \<Rightarrow> bool \<Rightarrow> AxiAddr \<Rightarrow> read_driver \<Rightarrow> 'h \<Rightarrow> (read_driver \<times> 'h) option" where
  "read_OnFallingEdge callback addr_valid data_ready pins d h =
     do { let addr_handshake = addr_valid \<and> r_addr_ready d;
          d \<leftarrow> read_retire d;
          let d = read_drive addr_valid data_ready d;
          if addr_handshake \<and> \<not> r_request_seen d \<and> \<not> r_request_pending d
          then do { let d = d\<lparr> r_request_seen := True, r_request := pins, r_request_pending := True \<rparr>;
                    (h, rs) \<leftarrow> callback pins h;
                    Some (foldl (\<lambda>d r. read_QueueResponse r d) d rs\<lparr> r_addr_ready := False \<rparr>, h) }
          else Some (d, h) }"

section \<open>The write driver\<close>

record write_driver =
  w_responses :: "AxiWResp list"
  w_request_addr :: AxiAddr
  w_request_data :: "AxiWData list"
  w_request_pending :: bool
  w_addr_captured :: bool
  w_data_complete :: bool
  w_request_submitted :: bool
  w_response_handshake_pending :: bool
  w_addr_ready :: bool
  w_data_ready :: bool
  w_resp_valid :: bool
  w_resp :: AxiWResp

type_synonym 'h write_callback = "AxiAddr \<Rightarrow> AxiWData list \<Rightarrow> 'h \<Rightarrow> ('h \<times> AxiWResp list) option"

definition init_write_driver :: write_driver where
  "init_write_driver = \<lparr> w_responses = [], w_request_addr = zero_addr, w_request_data = [], w_request_pending = False,
     w_addr_captured = False, w_data_complete = False, w_request_submitted = False,
     w_response_handshake_pending = False, w_addr_ready = False, w_data_ready = False, w_resp_valid = False,
     w_resp = \<lparr> write_resp_bits_id = 0, write_resp_bits_resp = 0 \<rparr> \<rparr>"

definition write_QueueResponse :: "AxiWResp \<Rightarrow> write_driver \<Rightarrow> write_driver" where
  "write_QueueResponse r d = d\<lparr> w_responses := w_responses d @ [r] \<rparr>"

definition write_retire :: "write_driver \<Rightarrow> write_driver option" where
  "write_retire d =
     (if \<not> w_response_handshake_pending d then Some d
      else case w_responses d of
        [] \<Rightarrow> None
      | r # rs \<Rightarrow> Some (d\<lparr> w_responses := rs, w_response_handshake_pending := False, w_request_pending := False,
          w_addr_captured := False, w_data_complete := False, w_request_submitted := False, w_request_data := [] \<rparr>))"

definition write_drive :: "bool \<Rightarrow> write_driver \<Rightarrow> write_driver" where
  "write_drive resp_ready d =
     d\<lparr> w_resp_valid := w_responses d \<noteq> [],
        w_resp := (case w_responses d of [] \<Rightarrow> w_resp d | r # _ \<Rightarrow> r),
        w_response_handshake_pending := w_responses d \<noteq> [] \<and> resp_ready \<rparr>"

definition write_capture_addr :: "bool \<Rightarrow> AxiAddr \<Rightarrow> write_driver \<Rightarrow> write_driver" where
  "write_capture_addr addr_handshake pins d =
     (if addr_handshake \<and> \<not> w_addr_captured d
      then d\<lparr> w_addr_captured := True, w_request_addr := pins \<rparr> else d)"

definition write_capture_data :: "bool \<Rightarrow> AxiWData \<Rightarrow> write_driver \<Rightarrow> write_driver" where
  "write_capture_data data_handshake beat d =
     (if data_handshake \<and> \<not> w_data_complete d
      then d\<lparr> w_request_data := w_request_data d @ [beat], w_data_complete := write_data_bits_last beat \<noteq> 0 \<rparr>
      else d)"

definition write_set_ready :: "write_driver \<Rightarrow> write_driver" where
  "write_set_ready d =
     d\<lparr> w_addr_ready := \<not> w_request_pending d \<and> \<not> w_addr_captured d,
        w_data_ready := \<not> w_request_pending d \<and> \<not> w_data_complete d \<and> length (w_request_data d) < 256 \<rparr>"

definition write_OnFallingEdge ::
  "'h write_callback \<Rightarrow> bool \<Rightarrow> bool \<Rightarrow> bool \<Rightarrow> AxiAddr \<Rightarrow> AxiWData \<Rightarrow> write_driver \<Rightarrow> 'h \<Rightarrow>
    (write_driver \<times> 'h) option" where
  "write_OnFallingEdge callback addr_valid data_valid resp_ready pins beat d h =
     do { let addr_handshake = addr_valid \<and> w_addr_ready d;
          let data_handshake = data_valid \<and> w_data_ready d;
          d \<leftarrow> write_retire d;
          let d = write_drive resp_ready d;
          let d = write_capture_addr addr_handshake pins d;
          let d = write_capture_data data_handshake beat d;
          (d, h) \<leftarrow> (if w_addr_captured d \<and> w_data_complete d \<and> \<not> w_request_submitted d
            then do { let d = d\<lparr> w_request_submitted := True, w_request_pending := True \<rparr>;
                      (h, rs) \<leftarrow> callback (w_request_addr d) (w_request_data d) h;
                      Some (foldl (\<lambda>d r. write_QueueResponse r d) d rs, h) }
            else Some (d, h));
          Some (write_set_ready d, h) }"

section \<open>One outstanding request\<close>

text \<open>
  What both drivers promise: a request is handed over only while none is outstanding. A driver is a
  step relation on states that count the requests handed over and those retired.
\<close>

locale deferred_master =
  fixes start :: "'s \<Rightarrow> bool" and step :: "'s \<Rightarrow> 's \<Rightarrow> bool" and inv :: "'s \<Rightarrow> bool"
    and pending :: "'s \<Rightarrow> bool" and sent :: "'s \<Rightarrow> nat" and retired :: "'s \<Rightarrow> nat"
  assumes start_inv: "start s \<Longrightarrow> inv s"
    and start_empty: "start s \<Longrightarrow> \<not> pending s \<and> sent s = 0 \<and> retired s = 0"
    and step_inv: "inv s \<Longrightarrow> step s s' \<Longrightarrow> inv s'"
    and step_balance: "inv s \<Longrightarrow> step s s' \<Longrightarrow>
      sent s' + retired s + of_bool (pending s) = sent s + retired s' + of_bool (pending s')"
begin

lemma reachable_inv:
  assumes "rtranclp step s s'" "start s"
  shows "inv s'"
  using assms by (induction) (auto intro: start_inv step_inv)

lemma one_outstanding:
  assumes "rtranclp step s s'" "start s"
  shows "sent s' = retired s' + of_bool (pending s')"
  using assms
proof (induction)
  case base
  then show ?case using start_empty by simp
next
  case (step t u)
  then show ?case using step_balance [OF reachable_inv [OF step.hyps(1) step.prems] step.hyps(2)] by simp
qed

end

section \<open>Runs of the read driver\<close>

text \<open>
  The history of a run: an edge that sees the address valid pin low, a request handed to the
  callback, the last response of an outstanding request taken by the core.
\<close>

datatype read_label = Low | Sent AxiAddr | Done

type_synonym 'h read_sys = "read_driver \<times> 'h \<times> read_label list"

definition logged_read :: "'h read_callback \<Rightarrow> ('h \<times> read_label list) read_callback" where
  "logged_read callback a = (\<lambda>(h, tr). do { (h', rs) \<leftarrow> callback a h; Some ((h', tr @ [Sent a]), rs) })"

definition edge_labels :: "bool \<Rightarrow> read_driver \<Rightarrow> read_label list" where
  "edge_labels addr_valid d =
     (if r_response_handshake_pending d \<and> r_request_pending d \<and> r_responses d \<noteq> [] \<and>
         read_data_bits_last (hd (r_responses d)) \<noteq> 0 then [Done] else []) @
     (if addr_valid then [] else [Low])"

text \<open>Any edge of the core, and any response queued from outside between edges.\<close>

inductive read_step :: "'h read_callback \<Rightarrow> 'h read_sys \<Rightarrow> 'h read_sys \<Rightarrow> bool" for callback where
  read_edge: "read_OnFallingEdge (logged_read callback) v r pins d (h, tr @ edge_labels v d) = Some (d', h') \<Longrightarrow>
    read_step callback (d, h, tr) (d', h')"
| read_respond: "read_step callback (d, h, tr) (read_QueueResponse x d, h, tr)"

inductive_cases read_stepE: "read_step callback (d, h, tr) s'"

definition read_start :: "'h read_sys \<Rightarrow> bool" where
  "read_start s \<longleftrightarrow> fst s = init_read_driver \<and> snd (snd s) = []"

definition is_sent :: "read_label \<Rightarrow> bool" where
  "is_sent l \<longleftrightarrow> l \<noteq> Low \<and> l \<noteq> Done"

lemma is_sent_simps [simp]: "is_sent (Sent a)" "\<not> is_sent Low" "\<not> is_sent Done"
  by (simp_all add: is_sent_def)

text \<open>Every request of the history is followed by a low edge; two requests are separated by one.\<close>

definition closed_trace :: "read_label list \<Rightarrow> bool" where
  "closed_trace tr \<longleftrightarrow> (\<forall>i < length tr. is_sent (tr ! i) \<longrightarrow> (\<exists>k < length tr. i < k \<and> tr ! k = Low))"

definition separated_trace :: "read_label list \<Rightarrow> bool" where
  "separated_trace tr \<longleftrightarrow> (\<forall>j < length tr. \<forall>i < j. is_sent (tr ! i) \<longrightarrow> is_sent (tr ! j) \<longrightarrow>
     (\<exists>k < j. i < k \<and> tr ! k = Low))"

lemma trace_snoc_nth:
  assumes "j \<le> length tr"
  shows "(\<exists>k < j. i < k \<and> (tr @ [l]) ! k = Low) \<longleftrightarrow> (\<exists>k < j. i < k \<and> tr ! k = Low)"
proof -
  have "\<forall>k < j. (tr @ [l]) ! k = tr ! k" using assms by (simp add: nth_append)
  then show ?thesis by auto
qed

lemma closed_trace_snoc:
  "closed_trace (tr @ [l]) \<longleftrightarrow> l = Low \<or> closed_trace tr \<and> \<not> is_sent l"
proof -
  have ex: "(\<exists>k < Suc (length tr). i < k \<and> (tr @ [l]) ! k = Low) \<longleftrightarrow>
      (\<exists>k < length tr. i < k \<and> tr ! k = Low) \<or> i < length tr \<and> l = Low" for i
    using trace_snoc_nth [of "length tr" tr i l] by (simp add: Ex_less_Suc disj_commute)
  have all: "(\<forall>i < length tr. is_sent ((tr @ [l]) ! i) \<longrightarrow> Q i) \<longleftrightarrow> (\<forall>i < length tr. is_sent (tr ! i) \<longrightarrow> Q i)" for Q
    by (simp add: nth_append)
  show ?thesis unfolding closed_trace_def length_append_singleton ex All_less_Suc all by auto
qed

lemma separated_trace_snoc:
  "separated_trace (tr @ [l]) \<longleftrightarrow> separated_trace tr \<and> (is_sent l \<longrightarrow> closed_trace tr)"
proof -
  have "(\<forall>i < j. is_sent ((tr @ [l]) ! i) \<longrightarrow> is_sent ((tr @ [l]) ! j) \<longrightarrow> (\<exists>k < j. i < k \<and> (tr @ [l]) ! k = Low)) \<longleftrightarrow>
      (\<forall>i < j. is_sent (tr ! i) \<longrightarrow> is_sent (tr ! j) \<longrightarrow> (\<exists>k < j. i < k \<and> tr ! k = Low))" if "j < length tr" for j
    using that by (simp add: trace_snoc_nth) (simp add: nth_append)
  moreover have "(\<forall>i < length tr. is_sent ((tr @ [l]) ! i) \<longrightarrow> is_sent l \<longrightarrow>
      (\<exists>k < length tr. i < k \<and> (tr @ [l]) ! k = Low)) \<longleftrightarrow> (is_sent l \<longrightarrow> closed_trace tr)"
    by (auto simp add: trace_snoc_nth closed_trace_def nth_append)
  ultimately show ?thesis
    unfolding separated_trace_def by (simp add: All_less_Suc cong: conj_cong) (rule conj_commute)
qed

lemma trace_nil [simp]: "closed_trace []" "separated_trace []"
  by (simp_all add: closed_trace_def separated_trace_def)

definition read_inv :: "'h read_sys \<Rightarrow> bool" where
  "read_inv = (\<lambda>(d, h, tr).
     (r_response_handshake_pending d \<longrightarrow> r_responses d \<noteq> []) \<and>
     (r_addr_ready d \<longleftrightarrow> \<not> r_request_pending d) \<and>
     separated_trace tr \<and> (r_request_seen d \<or> closed_trace tr))"

definition read_sent :: "'h read_sys \<Rightarrow> nat" where
  "read_sent = (\<lambda>(d, h, tr). length (filter is_sent tr))"

definition read_retired :: "'h read_sys \<Rightarrow> nat" where
  "read_retired = (\<lambda>(d, h, tr). length (filter (\<lambda>l. l = Done) tr))"

definition read_pending :: "'h read_sys \<Rightarrow> bool" where
  "read_pending s = r_request_pending (fst s)"

lemmas read_sys_defs = read_inv_def read_sent_def read_retired_def read_pending_def read_start_def

lemma read_queue_fields [simp]:
  fixes d :: read_driver and rs
  defines "q \<equiv> foldl (\<lambda>d r. read_QueueResponse r d) d rs"
  shows "r_responses q = r_responses d @ rs" "r_request_pending q = r_request_pending d"
    "r_request_seen q = r_request_seen d" "r_response_handshake_pending q = r_response_handshake_pending d"
    "r_addr_ready q = r_addr_ready d"
  unfolding q_def by (induction rs arbitrary: d) (simp_all add: read_QueueResponse_def)

lemma read_drive_fields [simp]:
  "r_responses (read_drive v r d) = r_responses d"
  "r_request_pending (read_drive v r d) = r_request_pending d"
  "r_request_seen (read_drive v r d) = (v \<and> r_request_seen d)"
  "r_response_handshake_pending (read_drive v r d) = (r_responses d \<noteq> [] \<and> r)"
  "r_addr_ready (read_drive v r d) = (\<not> r_request_pending d)"
  by (simp_all add: read_drive_def)

text \<open>What one edge does to the state and the history.\<close>

lemma read_retire_inv:
  assumes "r_response_handshake_pending d \<longrightarrow> r_responses d \<noteq> []"
  shows "\<exists>d1. read_retire d = Some d1 \<and> r_request_seen d1 = r_request_seen d \<and>
    r_request_pending d1 = (r_request_pending d \<and>
      \<not> (r_response_handshake_pending d \<and> read_data_bits_last (hd (r_responses d)) \<noteq> 0))"
  using assms by (cases "r_responses d") (auto simp: read_retire_def)

lemma edge_labels_trace:
  "separated_trace (tr @ edge_labels v d) = separated_trace tr"
  "closed_trace (tr @ edge_labels v d) = (\<not> v \<or> closed_trace tr)"
  by (auto simp: edge_labels_def separated_trace_snoc closed_trace_snoc append_assoc [symmetric] simp del: append_assoc)

lemma read_edge_cases:
  assumes "read_OnFallingEdge (logged_read callback) v r pins d (h, tr @ edge_labels v d) = Some (d', h', tr')"
    and "read_inv (d, h, tr)"
  shows "read_inv (d', h', tr')" and "read_sent (d', h', tr') + read_retired (d, h, tr) + of_bool (r_request_pending d) =
    read_sent (d, h, tr) + read_retired (d', h', tr') + of_bool (r_request_pending d')"
proof -
  let ?done = "r_response_handshake_pending d \<and> read_data_bits_last (hd (r_responses d)) \<noteq> 0"
  have i: "r_response_handshake_pending d \<longrightarrow> r_responses d \<noteq> []" "r_addr_ready d \<longleftrightarrow> \<not> r_request_pending d"
    "separated_trace tr" "r_request_seen d \<or> closed_trace tr"
    using assms(2) by (simp_all add: read_inv_def)
  obtain d1 where d1: "read_retire d = Some d1" "r_request_seen d1 = r_request_seen d"
    "r_request_pending d1 = (r_request_pending d \<and> \<not> ?done)"
    using read_retire_inv [OF i(1)] by blast
  let ?go = "v \<and> r_addr_ready d \<and> \<not> r_request_seen d"
  have labels: "length (filter (\<lambda>l. l = Done) (edge_labels v d)) = of_bool (?done \<and> r_request_pending d)"
    "filter is_sent (edge_labels v d) = []"
    using i(1) by (auto simp: edge_labels_def)
  have "read_inv (d', h', tr') \<and> read_sent (d', h', tr') + read_retired (d, h, tr) + of_bool (r_request_pending d) =
    read_sent (d, h, tr) + read_retired (d', h', tr') + of_bool (r_request_pending d')"
  proof (cases ?go)
    case True
    then have "\<not> r_request_pending d1" using d1(3) i(2) by simp
    then obtain rs where cb: "callback pins h = Some (h', rs)" "tr' = (tr @ edge_labels v d) @ [Sent pins]"
      "d' = foldl (\<lambda>d r. read_QueueResponse r d) (read_drive v r d1
         \<lparr>r_request_seen := True, r_request := pins, r_request_pending := True\<rparr>) rs\<lparr> r_addr_ready := False \<rparr>"
      using assms(1) True d1 by (auto simp: read_OnFallingEdge_def logged_read_def Let_def split: bind_split_asm)
    then show ?thesis using True i labels
      by (simp add: read_sys_defs separated_trace_snoc closed_trace_snoc edge_labels_trace del: append_assoc)
  next
    case False
    then have "\<not> (v \<and> r_addr_ready d \<and> \<not> r_request_seen (read_drive v r d1) \<and> \<not> r_request_pending (read_drive v r d1))"
      using d1(2) by auto
    then have "d' = read_drive v r d1" "h' = h" "tr' = tr @ edge_labels v d"
      using assms(1) d1(1) by (auto simp: read_OnFallingEdge_def Let_def split: if_splits)
    then show ?thesis using i labels d1(2,3) by (auto simp: read_sys_defs edge_labels_trace)
  qed
  then show "read_inv (d', h', tr')" "read_sent (d', h', tr') + read_retired (d, h, tr) + of_bool (r_request_pending d) =
    read_sent (d, h, tr) + read_retired (d', h', tr') + of_bool (r_request_pending d')" by simp_all
qed

interpretation read_master: deferred_master read_start "read_step callback" read_inv read_pending read_sent read_retired
  for callback
proof
  fix s s' :: "'a read_sys"
  show "read_start s \<Longrightarrow> read_inv s" "read_start s \<Longrightarrow> \<not> read_pending s \<and> read_sent s = 0 \<and> read_retired s = 0"
    by (cases s; simp add: read_sys_defs init_read_driver_def)+
  assume inv: "read_inv s" and st: "read_step callback s s'"
  obtain d h tr where s: "s = (d, h, tr)" by (cases s)
  have "read_inv s' \<and> read_sent s' + read_retired s + of_bool (read_pending s) =
      read_sent s + read_retired s' + of_bool (read_pending s')"
  proof (rule read_stepE [OF st [unfolded s]])
    fix v r pins d' h'
    assume "s' = (d', h')"
      "read_OnFallingEdge (logged_read callback) v r pins d (h, tr @ edge_labels v d) = Some (d', h')"
    then show ?thesis using read_edge_cases [of callback v r pins d h tr d'] inv s
      by (cases h') (auto simp: read_pending_def)
  next
    fix x assume "s' = (read_QueueResponse x d, h, tr)"
    then show ?thesis using inv s by (auto simp: read_sys_defs read_QueueResponse_def)
  qed
  then show "read_inv s'" "read_sent s' + read_retired s + of_bool (read_pending s) =
      read_sent s + read_retired s' + of_bool (read_pending s')" by simp_all
qed

text \<open>
  C37: in every run of the read driver, whatever the core does and whenever responses arrive, a held
  valid signal never replays a request (between two requests handed over the address valid pin was
  low at some edge), at most one request is outstanding (the requests handed over are those retired
  plus the pending one), and an edge is always defined: no response is popped from an empty queue.
\<close>

theorem read_driver_safe:
  assumes "rtranclp (read_step callback) (init_read_driver, h0, []) (d, h, tr)"
  shows "separated_trace tr \<and>
    length (filter is_sent tr) = length (filter (\<lambda>l. l = Done) tr) + of_bool (r_request_pending d) \<and>
    (\<forall>v r pins. read_OnFallingEdge callback v r pins d h = None \<longrightarrow> callback pins h = None)"
proof -
  have st: "read_start (init_read_driver, h0, [])" by (simp add: read_start_def)
  note inv = read_master.reachable_inv [OF assms st]
  obtain d1 where "read_retire d = Some d1"
    using read_retire_inv [of d] inv by (auto simp: read_inv_def)
  then have "\<forall>v r pins. read_OnFallingEdge callback v r pins d h = None \<longrightarrow> callback pins h = None"
    by (auto simp: read_OnFallingEdge_def Let_def split: bind_splits)
  then show ?thesis
    using inv read_master.one_outstanding [OF assms st] by (auto simp: read_sys_defs)
qed

text \<open>A request accepted at one edge and held over the next is handed over once.\<close>

theorem read_driver_safe_witness:
  "\<exists>d. rtranclp (read_step (\<lambda>a (h :: nat). Some (h + 1, []))) (init_read_driver, 0, []) (d, 1, [Sent write_example_addr]) \<and>
    separated_trace [Sent write_example_addr] \<and> r_request_pending d"
proof -
  let ?cb = "\<lambda>a (h :: nat). Some (h + 1, [] :: AxiRData list)"
  let ?d = "init_read_driver\<lparr> r_request := write_example_addr, r_request_pending := True, r_request_seen := True,
      r_addr_ready := False \<rparr>"
  have 1: "read_step ?cb (init_read_driver, 0, []) (?d, 1, [Sent write_example_addr])"
    by (rule read_edge [where v = True and r = False and pins = write_example_addr])
      (simp add: read_OnFallingEdge_def logged_read_def edge_labels_def read_retire_def read_drive_def Let_def
        init_read_driver_def)
  have 2: "read_step ?cb (?d, 1, [Sent write_example_addr]) (?d, 1, [Sent write_example_addr])"
    by (rule read_edge [where v = True and r = False and pins = write_example_addr])
      (simp add: read_OnFallingEdge_def logged_read_def edge_labels_def read_retire_def read_drive_def Let_def
        init_read_driver_def)
  have run: "rtranclp (read_step ?cb) (init_read_driver, 0, []) (?d, 1, [Sent write_example_addr])"
    using 1 2 by (meson rtranclp.rtrancl_into_rtrancl rtranclp.rtrancl_refl)
  show ?thesis using read_driver_safe [OF run] run by (intro exI [of _ ?d]) simp
qed

section \<open>Runs of the write driver\<close>

text \<open>
  The history of a run: the addresses and the data beats accepted on the pins (valid and ready both
  high), the bursts handed to the callback, and the number of responses taken.
\<close>

record write_history =
  h_addrs :: "AxiAddr list"
  h_beats :: "AxiWData list"
  h_sent :: "(AxiAddr \<times> AxiWData list) list"
  h_retired :: nat

type_synonym 'h write_sys = "write_driver \<times> 'h \<times> write_history"

definition logged_write :: "'h write_callback \<Rightarrow> ('h \<times> write_history) write_callback" where
  "logged_write callback a data = (\<lambda>(h, g). do { (h', rs) \<leftarrow> callback a data h;
     Some ((h', g\<lparr> h_sent := h_sent g @ [(a, data)] \<rparr>), rs) })"

definition accept :: "bool \<Rightarrow> bool \<Rightarrow> AxiAddr \<Rightarrow> AxiWData \<Rightarrow> write_driver \<Rightarrow> write_history \<Rightarrow> write_history" where
  "accept addr_valid data_valid pins beat d g =
     g\<lparr> h_addrs := h_addrs g @ (if addr_valid \<and> w_addr_ready d then [pins] else []),
        h_beats := h_beats g @ (if data_valid \<and> w_data_ready d then [beat] else []),
        h_retired := h_retired g + of_bool (w_response_handshake_pending d) \<rparr>"

text \<open>
  Any edge of the core; between edges one response to the outstanding burst. The callback answers
  a burst at most once, at once or later.
\<close>

inductive write_step :: "'h write_callback \<Rightarrow> 'h write_sys \<Rightarrow> 'h write_sys \<Rightarrow> bool" for callback where
  write_edge: "write_OnFallingEdge (logged_write callback) av dv rr pins beat d (h, accept av dv pins beat d g) =
      Some (d', h') \<Longrightarrow> length (w_responses d') \<le> 1 \<Longrightarrow> write_step callback (d, h, g) (d', h')"
| write_respond: "w_request_pending d \<Longrightarrow> w_responses d = [] \<Longrightarrow>
    write_step callback (d, h, g) (write_QueueResponse x d, h, g)"

inductive_cases write_stepE: "write_step callback (d, h, g) s'"

definition empty_history :: write_history where
  "empty_history = \<lparr> h_addrs = [], h_beats = [], h_sent = [], h_retired = 0 \<rparr>"

definition write_start :: "'h write_sys \<Rightarrow> bool" where
  "write_start s \<longleftrightarrow> fst s = init_write_driver \<and> snd (snd s) = empty_history"

text \<open>A burst with the last flag on its last beat and on no other.\<close>

definition framed :: "AxiWData list \<Rightarrow> bool" where
  "framed data \<longleftrightarrow> data \<noteq> [] \<and> write_data_bits_last (last data) \<noteq> 0 \<and>
     (\<forall>b \<in> set (butlast data). write_data_bits_last b = 0)"

definition write_inv :: "'h write_sys \<Rightarrow> bool" where
  "write_inv = (\<lambda>(d, h, g).
     (w_response_handshake_pending d \<longrightarrow> w_responses d \<noteq> []) \<and> length (w_responses d) \<le> 1 \<and>
     (w_responses d \<noteq> [] \<longrightarrow> w_request_pending d) \<and>
     (w_request_pending d \<longleftrightarrow> w_request_submitted d) \<and>
     (w_request_submitted d \<longleftrightarrow> w_addr_captured d \<and> w_data_complete d) \<and>
     (w_addr_ready d \<longrightarrow> \<not> w_request_pending d \<and> \<not> w_addr_captured d) \<and>
     (w_data_ready d \<longrightarrow> \<not> w_request_pending d \<and> \<not> w_data_complete d \<and> length (w_request_data d) < 256) \<and>
     length (w_request_data d) \<le> 256 \<and>
     (if w_data_complete d then framed (w_request_data d)
      else (\<forall>b \<in> set (w_request_data d). write_data_bits_last b = 0)) \<and>
     h_addrs g = map fst (h_sent g) @ (if w_addr_captured d \<and> \<not> w_request_submitted d then [w_request_addr d] else []) \<and>
     h_beats g = concat (map snd (h_sent g)) @ (if w_request_submitted d then [] else w_request_data d) \<and>
     (\<forall>(a, data) \<in> set (h_sent g). framed data \<and> length data \<le> 256))"

definition write_sent :: "'h write_sys \<Rightarrow> nat" where
  "write_sent s = length (h_sent (snd (snd s)))"

definition write_retired :: "'h write_sys \<Rightarrow> nat" where
  "write_retired s = h_retired (snd (snd s))"

definition write_pending :: "'h write_sys \<Rightarrow> bool" where
  "write_pending s = w_request_pending (fst s)"

lemmas write_sys_defs = write_inv_def write_sent_def write_retired_def write_pending_def write_start_def

lemma write_queue_fields [simp]:
  fixes d :: write_driver and rs
  defines "q \<equiv> foldl (\<lambda>d r. write_QueueResponse r d) d rs"
  shows "w_responses q = w_responses d @ rs" "w_request_pending q = w_request_pending d"
    "w_request_submitted q = w_request_submitted d" "w_response_handshake_pending q = w_response_handshake_pending d"
    "w_addr_ready q = w_addr_ready d" "w_data_ready q = w_data_ready d" "w_addr_captured q = w_addr_captured d"
    "w_data_complete q = w_data_complete d" "w_request_data q = w_request_data d" "w_request_addr q = w_request_addr d"
  unfolding q_def by (induction rs arbitrary: d) (simp_all add: write_QueueResponse_def)

lemma framed_snoc:
  assumes "\<forall>b \<in> set data. write_data_bits_last b = 0"
  shows "framed (data @ [b]) \<longleftrightarrow> write_data_bits_last b \<noteq> 0"
  using assms by (simp add: framed_def)

text \<open>The state after the capture phase of an edge, before the burst is submitted.\<close>

definition write_captured :: "bool \<Rightarrow> bool \<Rightarrow> bool \<Rightarrow> AxiAddr \<Rightarrow> AxiWData \<Rightarrow> write_driver \<Rightarrow> write_driver option" where
  "write_captured av dv rr pins beat d =
     map_option (\<lambda>d1. write_capture_data (dv \<and> w_data_ready d) beat
       (write_capture_addr (av \<and> w_addr_ready d) pins (write_drive rr d1))) (write_retire d)"

lemma write_edge_unfold:
  "write_OnFallingEdge callback av dv rr pins beat d h =
     do { d \<leftarrow> write_captured av dv rr pins beat d;
          (d, h) \<leftarrow> (if w_addr_captured d \<and> w_data_complete d \<and> \<not> w_request_submitted d
            then do { (h, rs) \<leftarrow> callback (w_request_addr d) (w_request_data d) h;
                      Some (foldl (\<lambda>d r. write_QueueResponse r d)
                        (d\<lparr> w_request_submitted := True, w_request_pending := True \<rparr>) rs, h) }
            else Some (d, h));
          Some (write_set_ready d, h) }"
  by (simp add: write_OnFallingEdge_def write_captured_def Let_def map_option_case split: option.split)

text \<open>What holds between the capture and the submission.\<close>

definition write_mid :: "write_driver \<Rightarrow> write_history \<Rightarrow> bool" where
  "write_mid d g \<longleftrightarrow>
     (w_response_handshake_pending d \<longrightarrow> w_responses d \<noteq> []) \<and> length (w_responses d) \<le> 1 \<and>
     (w_responses d \<noteq> [] \<longrightarrow> w_request_pending d) \<and>
     (w_request_pending d \<longleftrightarrow> w_request_submitted d) \<and>
     (w_request_submitted d \<longrightarrow> w_addr_captured d \<and> w_data_complete d) \<and>
     length (w_request_data d) \<le> 256 \<and>
     (if w_data_complete d then framed (w_request_data d)
      else (\<forall>b \<in> set (w_request_data d). write_data_bits_last b = 0)) \<and>
     h_addrs g = map fst (h_sent g) @ (if w_addr_captured d \<and> \<not> w_request_submitted d then [w_request_addr d] else []) \<and>
     h_beats g = concat (map snd (h_sent g)) @ (if w_request_submitted d then [] else w_request_data d) \<and>
     (\<forall>(a, data) \<in> set (h_sent g). framed data \<and> length data \<le> 256)"

lemma write_captured_mid:
  assumes "write_inv (d, h, g)"
  shows "\<exists>d1. write_captured av dv rr pins beat d = Some d1 \<and> write_mid d1 (accept av dv pins beat d g) \<and>
    h_retired g + of_bool (w_request_pending d) = h_retired (accept av dv pins beat d g) + of_bool (w_request_pending d1)"
proof (cases "w_response_handshake_pending d")
  case True
  then have r: "\<exists>r. w_responses d = [r]" and p: "w_request_pending d" "\<not> w_addr_ready d" "\<not> w_data_ready d"
    using assms by (auto simp: write_inv_def length_Suc_conv le_Suc_eq)
  then show ?thesis
    using assms True
    by (auto simp: write_captured_def write_retire_def write_drive_def write_capture_addr_def write_capture_data_def
        write_inv_def write_mid_def accept_def)
next
  case False
  let ?d = "write_drive rr d"
  have f: "w_addr_ready d \<longrightarrow> \<not> w_addr_captured d" "w_data_ready d \<longrightarrow> \<not> w_data_complete d"
    using assms by (auto simp: write_inv_def)
  have cap: "write_captured av dv rr pins beat d = Some (write_capture_data (dv \<and> w_data_ready d) beat
      (write_capture_addr (av \<and> w_addr_ready d) pins ?d))"
    using False by (simp add: write_captured_def write_retire_def)
  show ?thesis
    unfolding cap using assms False
    by (cases "av \<and> w_addr_ready d"; cases "dv \<and> w_data_ready d")
      (auto simp: write_drive_def write_capture_addr_def write_capture_data_def framed_snoc
        write_inv_def write_mid_def accept_def split: if_splits)
qed

lemma write_edge_cases:
  assumes "write_OnFallingEdge (logged_write callback) av dv rr pins beat d (h, accept av dv pins beat d g) =
      Some (d', h', g')" "length (w_responses d') \<le> 1" "write_inv (d, h, g)"
  shows "write_inv (d', h', g') \<and> length (h_sent g') + h_retired g + of_bool (w_request_pending d) =
    length (h_sent g) + h_retired g' + of_bool (w_request_pending d')"
proof -
  let ?g = "accept av dv pins beat d g"
  obtain d1 where d1: "write_captured av dv rr pins beat d = Some d1" "write_mid d1 ?g"
    "h_retired g + of_bool (w_request_pending d) = h_retired ?g + of_bool (w_request_pending d1)"
    using write_captured_mid [OF assms(3)] by blast
  have hs: "h_sent ?g = h_sent g" by (simp add: accept_def)
  show ?thesis
  proof (cases "w_addr_captured d1 \<and> w_data_complete d1 \<and> \<not> w_request_submitted d1")
    case True
    then obtain rs where cb: "g' = ?g\<lparr> h_sent := h_sent ?g @ [(w_request_addr d1, w_request_data d1)] \<rparr>"
      "d' = write_set_ready (foldl (\<lambda>d r. write_QueueResponse r d)
         (d1\<lparr> w_request_submitted := True, w_request_pending := True \<rparr>) rs)"
      using assms(1) d1(1) by (auto simp: write_edge_unfold logged_write_def split: bind_split_asm)
    have "\<not> w_request_pending d1" "w_responses d1 = []" using d1(2) True by (auto simp: write_mid_def)
    then show ?thesis using True d1(2,3) assms(2) hs
      by (auto simp: cb write_inv_def write_mid_def write_set_ready_def)
  next
    case False
    then have "d' = write_set_ready d1" "g' = ?g" using assms(1) d1(1) by (auto simp: write_edge_unfold)
    then show ?thesis using False d1(2,3) hs by (auto simp: write_inv_def write_mid_def write_set_ready_def)
  qed
qed

interpretation write_master: deferred_master write_start "write_step callback" write_inv write_pending write_sent
    write_retired
  for callback
proof
  fix s s' :: "'a write_sys"
  show "write_start s \<Longrightarrow> write_inv s" "write_start s \<Longrightarrow> \<not> write_pending s \<and> write_sent s = 0 \<and> write_retired s = 0"
    by (cases s; simp add: write_sys_defs init_write_driver_def empty_history_def)+
  assume inv: "write_inv s" and st: "write_step callback s s'"
  obtain d h g where s: "s = (d, h, g)" by (cases s)
  have "write_inv s' \<and> write_sent s' + write_retired s + of_bool (write_pending s) =
      write_sent s + write_retired s' + of_bool (write_pending s')"
  proof (rule write_stepE [OF st [unfolded s]])
    fix av dv rr pins beat d' h'
    assume "s' = (d', h')" "length (w_responses d') \<le> Suc 0"
      "write_OnFallingEdge (logged_write callback) av dv rr pins beat d (h, accept av dv pins beat d g) = Some (d', h')"
    then show ?thesis using write_edge_cases [of callback av dv rr pins beat d h g d'] inv s
      by (cases h') (auto simp: write_sent_def write_retired_def write_pending_def)
  next
    fix x assume "s' = (write_QueueResponse x d, h, g)" "w_request_pending d" "w_responses d = []"
    then show ?thesis using inv s by (auto simp: write_sys_defs write_QueueResponse_def)
  qed
  then show "write_inv s'" "write_sent s' + write_retired s + of_bool (write_pending s) =
      write_sent s + write_retired s' + of_bool (write_pending s')" by simp_all
qed

text \<open>
  C11: in every run of the write driver no transfer is lost, duplicated or reordered, whatever the
  order in which addresses and data beats arrive. The accepted addresses are those of the bursts
  handed over, in order, plus at most the one being assembled; the accepted beats are the beats of
  those bursts, in order, plus those being assembled; every burst handed over has the last flag on
  its last beat only and at most 256 beats; and the bursts handed over are those answered plus the
  pending one. The runs are those in which a burst is answered at most once, as the write callback of
  the bridge does (\<open>bridge_write_answers\<close>).
\<close>

theorem write_driver_lossless:
  assumes "rtranclp (write_step callback) (init_write_driver, h0, empty_history) (d, h, g)"
  shows "(\<exists>rest. h_addrs g = map fst (h_sent g) @ rest \<and> length rest \<le> 1) \<and>
    h_beats g = concat (map snd (h_sent g)) @ (if w_request_pending d then [] else w_request_data d) \<and>
    (\<forall>burst \<in> set (h_sent g). framed (snd burst) \<and> length (snd burst) \<le> 256) \<and>
    length (h_sent g) = h_retired g + of_bool (w_request_pending d)"
proof -
  have st: "write_start (init_write_driver, h0, empty_history)" by (simp add: write_start_def)
  note inv = write_master.reachable_inv [OF assms st] and one = write_master.one_outstanding [OF assms st]
  show ?thesis using inv one by (auto simp: write_sys_defs)
qed

text \<open>The data beat is accepted an edge before the address; the burst goes out when both are there.\<close>

definition single_beat :: AxiWData where
  "single_beat = \<lparr> write_data_bits_data = replicate 16 7, write_data_bits_strb = 0xffff, write_data_bits_last = 1 \<rparr>"

definition answer_write :: "nat write_callback" where
  "answer_write a data h = Some (h + length data, [\<lparr> write_resp_bits_id = addr_bits_id a, write_resp_bits_resp = 0 \<rparr>])"

lemmas write_edge_defs = write_OnFallingEdge_def logged_write_def accept_def Let_def write_retire_def write_drive_def
  write_capture_addr_def write_capture_data_def write_set_ready_def write_QueueResponse_def

theorem write_driver_lossless_witness:
  "\<exists>d g. rtranclp (write_step answer_write) (init_write_driver, 0, empty_history) (d, 1, g) \<and>
    h_sent g = [(write_example_addr, [single_beat])] \<and> h_addrs g = [write_example_addr] \<and> h_beats g = [single_beat] \<and>
    w_request_pending d \<and> length (h_sent g) = h_retired g + 1"
proof -
  let ?d1 = "init_write_driver\<lparr> w_addr_ready := True, w_data_ready := True \<rparr>"
  let ?d2 = "?d1\<lparr> w_request_data := [single_beat], w_data_complete := True, w_data_ready := False \<rparr>"
  let ?g2 = "empty_history\<lparr> h_beats := [single_beat] \<rparr>"
  let ?g3 = "?g2\<lparr> h_addrs := [write_example_addr], h_sent := [(write_example_addr, [single_beat])] \<rparr>"
  let ?d3 = "?d2\<lparr> w_addr_captured := True, w_request_addr := write_example_addr, w_request_submitted := True,
      w_request_pending := True, w_responses := [\<lparr> write_resp_bits_id = 5, write_resp_bits_resp = 0 \<rparr>],
      w_addr_ready := False \<rparr>"
  have 1: "write_step answer_write (init_write_driver, 0, empty_history) (?d1, 0, empty_history)"
    by (rule write_edge [where av = False and dv = False and rr = False and pins = zero_addr and beat = single_beat])
      (simp_all add: write_edge_defs init_write_driver_def empty_history_def)
  have 2: "write_step answer_write (?d1, 0, empty_history) (?d2, 0, ?g2)"
    by (rule write_edge [where av = False and dv = True and rr = False and pins = zero_addr and beat = single_beat])
      (simp_all add: write_edge_defs init_write_driver_def empty_history_def single_beat_def)
  have 3: "write_step answer_write (?d2, 0, ?g2) (?d3, 1, ?g3)"
    by (rule write_edge [where av = True and dv = False and rr = False and pins = write_example_addr and beat = single_beat])
      (simp_all add: write_edge_defs init_write_driver_def empty_history_def single_beat_def answer_write_def
        write_example_addr_def)
  have run: "rtranclp (write_step answer_write) (init_write_driver, 0, empty_history) (?d3, 1, ?g3)"
    using 1 2 3 by (meson rtranclp.rtrancl_into_rtrancl rtranclp.rtrancl_refl)
  show ?thesis
    using write_driver_lossless [OF run] run by (intro exI [of _ ?d3] exI [of _ ?g3]) simp
qed

end
