(* ===== verification/Custom_Mac.thy ===== *)
theory Custom_Mac
  imports Prelude
begin

text \<open>
  The custom multiply-accumulate unit: its RTL (\<open>hdl/verilog/opennpux\<close>) as a transition function on
  its registers, and the wrapper that clocks it only while a command is active
  (\<open>gem5_bridge/gem5_custom_mac.h\<close>). The clock gating of the wrapper is shown to be invisible: a
  gated unit and one clocked on every step hold the same registers.
\<close>

section \<open>The RTL\<close>

record mac_regs =
  operand_a_q :: u32
  operand_b_q :: u32
  accumulator_q :: u32
  result_q :: u32
  cycles_q :: u32
  countdown_q :: "3 word"
  busy_q :: bool
  done_q :: bool

definition mac_reset :: mac_regs where
  "mac_reset = \<lparr> operand_a_q = 0, operand_b_q = 0, accumulator_q = 0, result_q = 0, cycles_q = 0,
     countdown_q = 0, busy_q = False, done_q = False \<rparr>"

text \<open>The busy branch of the clocked process, on the registers before the edge.\<close>

definition mac_busy :: "mac_regs \<Rightarrow> mac_regs" where
  "mac_busy r =
     (if \<not> busy_q r then r
      else let r' = r\<lparr> cycles_q := cycles_q r + 1 \<rparr> in
        if countdown_q r = 1
        then r'\<lparr> result_q := operand_a_q r * operand_b_q r + accumulator_q r, countdown_q := 0, busy_q := False,
               done_q := True \<rparr>
        else r'\<lparr> countdown_q := countdown_q r - 1 \<rparr>)"

text \<open>
  A rising edge. The writes of the second branch are non-blocking too: they test the registers
  before the edge and override those of the busy branch.
\<close>

definition mac_posedge :: "bool \<Rightarrow> u8 \<Rightarrow> u32 \<Rightarrow> mac_regs \<Rightarrow> mac_regs" where
  "mac_posedge write_en a w r =
     (let r' = mac_busy r in
      if \<not> write_en then r'
      else if a = 0x00 then r'\<lparr> operand_a_q := w \<rparr>
      else if a = 0x04 then r'\<lparr> operand_b_q := w \<rparr>
      else if a = 0x08 then r'\<lparr> accumulator_q := w \<rparr>
      else if a = 0x0c \<and> bit w 0 \<and> \<not> busy_q r
      then r'\<lparr> countdown_q := 3, busy_q := True, done_q := False \<rparr>
      else r')"

definition mac_read :: "u8 \<Rightarrow> mac_regs \<Rightarrow> u32" where
  "mac_read a r =
     (if a = 0x00 then operand_a_q r
      else if a = 0x04 then operand_b_q r
      else if a = 0x08 then accumulator_q r
      else if a = 0x10 then result_q r
      else if a = 0x14 then of_bool (busy_q r) * 2 + of_bool (done_q r)
      else if a = 0x18 then cycles_q r
      else if a = 0x1c then 0x4e5058a1
      else 0)"

section \<open>The wrapper\<close>

record custom_mac =
  mac_model :: mac_regs
  active_cycles :: u32

abbreviation (input) kBase :: u32 where "kBase \<equiv> 0x30000000"
abbreviation (input) kSize :: u32 where "kSize \<equiv> 0x100"

text \<open>Reset holds the reset pin low over one clock and high over another.\<close>

definition mac_Reset :: "custom_mac \<Rightarrow> custom_mac" where
  "mac_Reset m = \<lparr> mac_model = mac_posedge False 0 0 mac_reset, active_cycles = 0 \<rparr>"

definition mac_Step :: "custom_mac \<Rightarrow> custom_mac" where
  "mac_Step m = m\<lparr> mac_model := mac_posedge False 0 0 (mac_model m) \<rparr>"

definition mac_StepIfActive :: "custom_mac \<Rightarrow> custom_mac" where
  "mac_StepIfActive m =
     (if active_cycles m = 0 then m else (mac_Step m)\<lparr> active_cycles := active_cycles m - 1 \<rparr>)"

definition mac_Contains :: "u32 \<Rightarrow> u32 \<Rightarrow> bool" where
  "mac_Contains a n \<longleftrightarrow> kBase \<le> a \<and> n \<noteq> 0 \<and> a - kBase < kSize \<and> n \<le> kSize - (a - kBase)"

definition mac_Write32 :: "u32 \<Rightarrow> u32 \<Rightarrow> custom_mac \<Rightarrow> custom_mac" where
  "mac_Write32 a w m =
     (let m' = m\<lparr> mac_model := mac_posedge True (ucast (a - kBase)) w (mac_model m) \<rparr> in
      if a = kBase + 0x0c \<and> w AND 1 \<noteq> 0 then m'\<lparr> active_cycles := 3 \<rparr> else m')"

definition mac_Read32 :: "u32 \<Rightarrow> custom_mac \<Rightarrow> u32" where
  "mac_Read32 a m = mac_read (ucast (a - kBase)) (mac_model m)"

section \<open>Clock gating\<close>

text \<open>
  While the unit is busy it is at most three clocks from done and the wrapper still has that many
  active cycles to give.
\<close>

definition mac_inv :: "custom_mac \<Rightarrow> bool" where
  "mac_inv m \<longleftrightarrow> (busy_q (mac_model m) \<longrightarrow>
     0 < unat (countdown_q (mac_model m)) \<and> unat (countdown_q (mac_model m)) \<le> unat (active_cycles m)) \<and>
     active_cycles m \<le> 3"

datatype mac_op = Mac_write u32 u32 | Mac_tick

primrec mac_gated :: "mac_op \<Rightarrow> custom_mac \<Rightarrow> custom_mac" where
  "mac_gated (Mac_write a w) m = mac_Write32 a w m"
| "mac_gated Mac_tick m = mac_StepIfActive m"

primrec mac_free :: "mac_op \<Rightarrow> custom_mac \<Rightarrow> custom_mac" where
  "mac_free (Mac_write a w) m = mac_Write32 a w m"
| "mac_free Mac_tick m = mac_Step m"

lemma mac_idle_clock: "\<not> busy_q r \<Longrightarrow> mac_posedge False a w r = r"
  by (simp add: mac_posedge_def mac_busy_def)

lemma mac_Reset_regs: "mac_Reset m = \<lparr> mac_model = mac_reset, active_cycles = 0 \<rparr>"
  by (simp add: mac_Reset_def mac_idle_clock mac_reset_def)

lemma mac_inv_Reset: "mac_inv (mac_Reset m)"
  by (simp add: mac_Reset_regs mac_inv_def mac_reset_def)

lemma countdown_pred:
  fixes c :: "3 word"
  assumes "0 < unat c" "c \<noteq> 1"
  shows "unat (c - 1) = unat c - 1" "0 < unat (c - 1)"
proof -
  have "c \<noteq> 0" using assms(1) by auto
  then show u: "unat (c - 1) = unat c - 1" by (rule unat_minus_one)
  have "unat c \<noteq> 1" using assms(2) by (metis unsigned_1 word_unat_eq_iff)
  then show "0 < unat (c - 1)" using assms(1) u by simp
qed

lemma mac_busy_inv:
  assumes "busy_q r \<longrightarrow> 0 < unat (countdown_q r)"
  shows "busy_q (mac_busy r) \<Longrightarrow> busy_q r"
    "busy_q (mac_busy r) \<Longrightarrow> 0 < unat (countdown_q (mac_busy r))"
    "busy_q (mac_busy r) \<Longrightarrow> unat (countdown_q (mac_busy r)) = unat (countdown_q r) - 1"
  using assms countdown_pred [of "countdown_q r"] by (auto simp: mac_busy_def Let_def split: if_splits)

lemma command_offset:
  assumes "mac_Contains a 4"
  shows "(ucast (a - kBase) :: u8) = 0x0c \<longleftrightarrow> a = kBase + 0x0c"
proof
  let ?x = "a - kBase"
  assume "(ucast ?x :: u8) = 0x0c"
  then have "unat (ucast ?x :: u8) = 12" by simp
  moreover have "unat ?x < 256" using assms by (simp add: mac_Contains_def word_less_nat_alt)
  ultimately have "unat ?x = 12" by (simp add: unsigned_ucast_eq take_bit_eq_mod)
  then have "?x = 12" by (simp add: word_unat_eq_iff)
  then show "a = kBase + 0x0c" by (simp add: diff_eq_eq)
qed simp

definition mac_op_ok :: "mac_op \<Rightarrow> bool" where
  "mac_op_ok p = (case p of Mac_write a w \<Rightarrow> mac_Contains a 4 | Mac_tick \<Rightarrow> True)"

lemma mac_Write32_inv:
  assumes "mac_inv m" "mac_Contains a 4"
  shows "mac_inv (mac_Write32 a w m)"
proof -
  let ?r = "mac_model m"
  have b: "busy_q ?r \<longrightarrow> 0 < unat (countdown_q ?r)" "active_cycles m \<le> 3"
    "busy_q ?r \<longrightarrow> unat (countdown_q ?r) \<le> unat (active_cycles m)"
    using assms(1) by (auto simp: mac_inv_def)
  note bi = mac_busy_inv [OF b(1)]
  have act: "unat (active_cycles m) \<le> 3" using b(2) by (simp add: word_le_nat_alt)
  have odd: "w AND 1 \<noteq> 0 \<longleftrightarrow> bit w 0" by (simp add: and_one_eq bit_0 odd_iff_mod_2_eq_one)
  show ?thesis
    using bi b act odd command_offset [OF assms(2)]
    by (auto simp: mac_inv_def mac_Write32_def mac_posedge_def Let_def)
qed

lemma mac_StepIfActive_inv:
  assumes "mac_inv m"
  shows "mac_inv (mac_StepIfActive m)" "mac_model (mac_StepIfActive m) = mac_posedge False 0 0 (mac_model m)"
proof -
  let ?r = "mac_model m"
  have b: "busy_q ?r \<longrightarrow> 0 < unat (countdown_q ?r)" "active_cycles m \<le> 3"
    "busy_q ?r \<longrightarrow> unat (countdown_q ?r) \<le> unat (active_cycles m)"
    using assms by (auto simp: mac_inv_def)
  show "mac_model (mac_StepIfActive m) = mac_posedge False 0 0 ?r"
    using b by (auto simp: mac_StepIfActive_def mac_Step_def mac_idle_clock)
  have "unat (active_cycles m - 1) = unat (active_cycles m) - 1" if "active_cycles m \<noteq> 0"
    using that by (rule unat_minus_one)
  then show "mac_inv (mac_StepIfActive m)"
    using b mac_busy_inv [OF b(1)]
    by (auto simp: mac_inv_def mac_StepIfActive_def mac_Step_def mac_posedge_def word_le_nat_alt)
qed

lemma mac_gated_inv: "mac_inv m \<Longrightarrow> mac_op_ok p \<Longrightarrow> mac_inv (mac_gated p m)"
  by (cases p) (simp_all add: mac_op_ok_def mac_Write32_inv mac_StepIfActive_inv)

lemma mac_gated_model:
  assumes "mac_inv m" "mac_op_ok p" "mac_model m' = mac_model m"
  shows "mac_model (mac_gated p m) = mac_model (mac_free p m')"
  using assms mac_StepIfActive_inv(2) [OF assms(1)]
  by (cases p) (simp_all add: mac_Write32_def Let_def mac_Step_def)

text \<open>
  C25: clocking the unit only while a command is active is invisible. After a reset, for any sequence
  of register writes in the unit's window and clock ticks, the gated unit and one clocked on every
  tick hold the same registers, so every read returns the same value.
\<close>

theorem mac_clock_gating:
  assumes "list_all mac_op_ok ops"
  shows "mac_model (fold mac_gated ops (mac_Reset m)) = mac_model (fold mac_free ops (mac_Reset m))"
proof -
  have "mac_model (fold mac_gated ops g) = mac_model (fold mac_free ops f)"
    if "mac_inv g" "mac_model g = mac_model f" for g f
    using assms that
  proof (induction ops arbitrary: g f)
    case Nil
    then show ?case by simp
  next
    case (Cons p ops)
    then show ?case using mac_gated_model [of g p f] mac_gated_inv by simp
  qed
  then show ?thesis using mac_inv_Reset by blast
qed

text \<open>The registers of one multiply-accumulate: operands, addend, the command, and three ticks.\<close>

definition mac_program :: "u32 \<Rightarrow> u32 \<Rightarrow> u32 \<Rightarrow> mac_op list" where
  "mac_program x y z = [Mac_write (kBase + 0x00) x, Mac_write (kBase + 0x04) y, Mac_write (kBase + 0x08) z,
     Mac_write (kBase + 0x0c) 1, Mac_tick, Mac_tick, Mac_tick]"

theorem mac_clock_gating_witness:
  "\<forall>m0. mac_Read32 (kBase + 0x10) (fold mac_gated (mac_program 6 7 8) (mac_Reset m0)) =
     mac_Read32 (kBase + 0x10) (fold mac_free (mac_program 6 7 8) (mac_Reset m0))"
proof -
  have "list_all mac_op_ok (mac_program 6 7 8)"
    by (simp add: mac_program_def mac_op_ok_def mac_Contains_def)
  then show ?thesis using mac_clock_gating [of "mac_program 6 7 8"] by (simp add: mac_Read32_def)
qed

text \<open>
  a command started on an idle unit delivers \<open>x * y + z\<close> modulo \<open>2 ^ 32\<close> after exactly three
  ticks, done and not busy, with the cycle counter advanced by three; after one or two ticks the unit
  still reports busy and the old result.
\<close>

theorem mac_computes:
  assumes "\<not> busy_q (mac_model m)"
  shows "mac_Read32 (kBase + 0x10) (fold mac_gated (mac_program x y z) m) = x * y + z \<and>
    mac_Read32 (kBase + 0x14) (fold mac_gated (mac_program x y z) m) = 1 \<and>
    mac_Read32 (kBase + 0x18) (fold mac_gated (mac_program x y z) m) = mac_Read32 (kBase + 0x18) m + 3 \<and>
    mac_Read32 (kBase + 0x14) (fold mac_gated (take 5 (mac_program x y z)) m) = 2 \<and>
    mac_Read32 (kBase + 0x14) (fold mac_gated (take 6 (mac_program x y z)) m) = 2 \<and>
    mac_Read32 (kBase + 0x10) (fold mac_gated (take 6 (mac_program x y z)) m) = mac_Read32 (kBase + 0x10) m"
  using assms
  by (simp add: mac_program_def mac_Write32_def mac_StepIfActive_def mac_Step_def mac_posedge_def
      mac_busy_def mac_Read32_def mac_read_def Let_def)

theorem mac_computes_witness:
  "mac_Read32 (kBase + 0x10) (fold mac_gated (mac_program 6 7 8) (mac_Reset \<lparr> mac_model = mac_reset, active_cycles = 0 \<rparr>)) = 50"
  using mac_computes [of "mac_Reset \<lparr> mac_model = mac_reset, active_cycles = 0 \<rparr>" 6 7 8]
  by (simp add: mac_Reset_regs mac_reset_def)

end
