(* ===== verification/C_Strings.thy ===== *)
theory C_Strings
  imports Prelude
begin

text \<open>
  The C library functions on strings that the sources call: \<open>isspace\<close>, \<open>strtoull\<close> and \<open>strtoul\<close> with
  base 0 (64-bit \<open>unsigned long\<close>), and comma-separated tokens. A C string is the list of its
  characters before the terminator.
\<close>

definition c_isspace :: "char \<Rightarrow> bool" where
  "c_isspace c \<longleftrightarrow> (of_char c :: nat) \<in> {9, 10, 11, 12, 13, 32}"

definition c_digit :: "char \<Rightarrow> nat" where
  "c_digit c =
     (let n = of_char c :: nat in
      if 48 \<le> n \<and> n \<le> 57 then n - 48
      else if 97 \<le> n \<and> n \<le> 122 then n - 87
      else if 65 \<le> n \<and> n \<le> 90 then n - 55
      else 36)"

definition digits_value :: "nat \<Rightarrow> string \<Rightarrow> nat" where
  "digits_value b = foldl (\<lambda>v c. v * b + c_digit c) 0"

definition take_digits :: "nat \<Rightarrow> string \<Rightarrow> string" where
  "take_digits b = takeWhile (\<lambda>c. c_digit c < b)"

text \<open>The base of a number literal and the text of its digits, after the sign.\<close>

fun c_base :: "string \<Rightarrow> nat \<times> string" where
  "c_base (a # x # c # s) =
     (if a = CHR ''0'' \<and> (x = CHR ''x'' \<or> x = CHR ''X'') \<and> c_digit c < 16 then (16, c # s)
      else if a = CHR ''0'' then (8, a # x # c # s) else (10, a # x # c # s))"
| "c_base (a # s) = (if a = CHR ''0'' then (8, a # s) else (10, a # s))"
| "c_base [] = (10, [])"

fun c_sign :: "string \<Rightarrow> bool \<times> string" where
  "c_sign (c # s) = (if c = CHR ''-'' then (True, s) else if c = CHR ''+'' then (False, s) else (False, c # s))"
| "c_sign [] = (False, [])"

text \<open>
  \<open>strtoull(text, &end, 0)\<close>: the value, the text at \<open>end\<close>, and whether \<open>errno\<close> is set to \<open>ERANGE\<close>.
  Without digits the value is 0 and \<open>end\<close> is \<open>text\<close>.
\<close>

definition strtoull :: "string \<Rightarrow> u64 \<times> string \<times> bool" where
  "strtoull text =
     (let (neg, s) = c_sign (dropWhile c_isspace text); (b, s) = c_base s; ds = take_digits b s in
      if ds = [] then (0, text, False)
      else let n = digits_value b ds; rest = drop (length ds) s in
        if 2 ^ 64 \<le> n then (- 1, rest, True)
        else ((if neg then - of_nat n else of_nat n), rest, False))"

section \<open>Printing and parsing numbers\<close>

text \<open>The decimal digits of a number, as \<open>%llu\<close> prints them.\<close>

definition dec_digit :: "nat \<Rightarrow> char" where
  "dec_digit k = char_of (48 + k)"

fun dec_string :: "nat \<Rightarrow> string" where
  "dec_string n = (if n < 10 then [dec_digit n] else dec_string (n div 10) @ [dec_digit (n mod 10)])"

declare dec_string.simps [simp del]

lemma of_char_dec_digit: "k < 10 \<Longrightarrow> of_char (dec_digit k) = 48 + k"
  by (simp add: dec_digit_def take_bit_nat_eq_self)

lemma c_digit_char [simp]: "k < 10 \<Longrightarrow> c_digit (dec_digit k) = k"
  by (simp add: c_digit_def of_char_dec_digit)

lemma digits_value_snoc: "digits_value b (s @ [c]) = digits_value b s * b + c_digit c"
  by (simp add: digits_value_def)

lemma dec_string_digits: "\<forall>c \<in> set (dec_string n). \<exists>k < 10. c = dec_digit k"
proof (induction n rule: dec_string.induct)
  case (1 n)
  have "n mod 10 < 10" by simp
  then show ?case using 1 by (subst dec_string.simps) (auto split: if_splits intro: exI [of _ "n mod 10"])
qed

lemma digits_value_dec_string: "digits_value 10 (dec_string n) = n"
proof (induction n rule: dec_string.induct)
  case (1 n)
  show ?case
  proof (cases "n < 10")
    case True
    then show ?thesis by (simp add: dec_string.simps [of n] digits_value_def)
  next
    case False
    then show ?thesis using 1 by (simp add: dec_string.simps [of n] digits_value_snoc)
  qed
qed

lemma dec_string_first:
  "0 < n \<Longrightarrow> \<exists>k s. dec_string n = dec_digit k # s \<and> 0 < k \<and> k < 10"
proof (induction n rule: dec_string.induct)
  case (1 n)
  show ?case
  proof (cases "n < 10")
    case True
    then show ?thesis using 1 by (auto simp: dec_string.simps [of n] intro: exI [of _ n])
  next
    case False
    then have "0 < n div 10" by (simp add: div_greater_zero_iff)
    then show ?thesis using 1 False by (subst dec_string.simps) auto
  qed
qed

lemma c_base_nonzero: "c \<noteq> CHR ''0'' \<Longrightarrow> c_base (c # s) = (10, c # s)"
proof (cases s)
  case (Cons x t)
  then show "c \<noteq> CHR ''0'' \<Longrightarrow> c_base (c # s) = (10, c # s)" by (cases t) auto
qed simp

lemma strtoull_dec_string:
  assumes "n < 2 ^ 64"
  shows "strtoull (dec_string n) = (of_nat n, [], False)"
proof (cases "n = 0")
  case True
  have "strtoull ''0'' = (0, [], False)"
    by (simp add: strtoull_def take_digits_def c_digit_def c_isspace_def digits_value_def)
  moreover have "dec_string 0 = ''0''" by (simp add: dec_string.simps dec_digit_def char_of_def bit_0)
  ultimately show ?thesis using True by simp
next
  case False
  then obtain k s where ks: "dec_string n = dec_digit k # s" "0 < k" "k < 10" using dec_string_first by blast
  let ?c = "dec_digit k"
  have o: "of_char ?c = 48 + k" using ks(3) by (rule of_char_dec_digit)
  have "?c \<noteq> d" if "of_char d \<le> (48 :: nat)" for d using o ks(2) that by auto
  then have c: "\<not> c_isspace ?c" "?c \<noteq> CHR ''-''" "?c \<noteq> CHR ''+''" "?c \<noteq> CHR ''0''"
    using o by (simp_all add: c_isspace_def)
  have all: "take_digits 10 (dec_string n) = dec_string n"
    using dec_string_digits [of n] by (auto simp: take_digits_def takeWhile_eq_all_conv)
  have "c_sign (dropWhile c_isspace (dec_string n)) = (False, dec_string n)" "c_base (dec_string n) = (10, dec_string n)"
    unfolding ks(1) using c by (simp_all add: c_base_nonzero)
  then show ?thesis
    using all assms ks(1) digits_value_dec_string [of n] by (auto simp: strtoull_def)
qed

section \<open>Tokens\<close>

definition trim :: "string \<Rightarrow> string" where
  "trim s = rev (dropWhile c_isspace (rev (dropWhile c_isspace s)))"

text \<open>The pieces of a string between separators.\<close>

fun split_on :: "char \<Rightarrow> string \<Rightarrow> string list" where
  "split_on c [] = [[]]"
| "split_on c (x # s) = (if x = c then [] # split_on c s
     else case split_on c s of t # ts \<Rightarrow> (x # t) # ts | [] \<Rightarrow> [[x]])"

lemma split_on_nonempty: "split_on c s \<noteq> []"
  by (induction s) (auto split: list.splits)

lemma split_on_append: "c \<notin> set t \<Longrightarrow> split_on c (t @ s) = (t @ hd (split_on c s)) # tl (split_on c s)"
  by (induction t) (use split_on_nonempty [of c s] in \<open>auto split: list.splits\<close>)

end
