(* ===== verification/Coral_Operator.thy ===== *)
theory Coral_Operator
  imports Byte_Memory
begin

text \<open>
  The operator ABI between the NPU firmware and the hybrid bridge
  (\<open>gem5_bridge/coral_operator.h\<close>) and the firmware-side client helpers
  (\<open>gem5_bridge/coral_operator_client.h\<close>): constants, the tensor and descriptor structs, their
  layout in external memory, the staging allocator, tensor set-up and the hybrid/RTL choice.
  An \<open>int32_t\<close> field is an \<open>int\<close>; a pointer that the code compares with \<open>nullptr\<close> is an option.
\<close>

section \<open>Constants\<close>

abbreviation (input) CORAL_OPERATOR_ABI_MAGIC :: u32 where "CORAL_OPERATOR_ABI_MAGIC \<equiv> 0x4e50584f"
abbreviation (input) CORAL_OPERATOR_ABI_VERSION :: u32 where "CORAL_OPERATOR_ABI_VERSION \<equiv> 4"

definition CORAL_OPERATOR_MMIO_BASE :: u32 where
  [abi_defs]: "CORAL_OPERATOR_MMIO_BASE = 0x30000100"

definition CORAL_OPERATOR_MODE_REG :: u32 where
  [abi_defs]: "CORAL_OPERATOR_MODE_REG = CORAL_OPERATOR_MMIO_BASE + 0x00"

definition CORAL_OPERATOR_DOORBELL_REG :: u32 where
  [abi_defs]: "CORAL_OPERATOR_DOORBELL_REG = CORAL_OPERATOR_MMIO_BASE + 0x04"

definition CORAL_OPERATOR_STATUS_REG :: u32 where
  [abi_defs]: "CORAL_OPERATOR_STATUS_REG = CORAL_OPERATOR_MMIO_BASE + 0x08"

definition CORAL_OPERATOR_CAPABILITIES_REG :: u32 where
  [abi_defs]: "CORAL_OPERATOR_CAPABILITIES_REG = CORAL_OPERATOR_MMIO_BASE + 0x0c"

definition CORAL_OPERATOR_SAMPLED_RTL_MASK_REG :: u32 where
  [abi_defs]: "CORAL_OPERATOR_SAMPLED_RTL_MASK_REG = CORAL_OPERATOR_MMIO_BASE + 0x10"

definition CORAL_EXECUTION_DESCRIPTOR_OFFSET :: u32 where
  [abi_defs]: "CORAL_EXECUTION_DESCRIPTOR_OFFSET = 0x00400100"

definition CORAL_OPERATOR_DESCRIPTOR_OFFSET :: u32 where
  [abi_defs]: "CORAL_OPERATOR_DESCRIPTOR_OFFSET = 0x00400300"

definition CORAL_OPERATOR_STAGING_OFFSET :: u32 where
  [abi_defs]: "CORAL_OPERATOR_STAGING_OFFSET = 0x00500000"

definition CORAL_OPERATOR_STAGING_SIZE :: u32 where
  [abi_defs]: "CORAL_OPERATOR_STAGING_SIZE = 0x00300000"

abbreviation (input) CORAL_OPERATOR_MAX_TENSORS :: u32 where "CORAL_OPERATOR_MAX_TENSORS \<equiv> 4"
abbreviation (input) CORAL_OPERATOR_MAX_DIMS :: u32 where "CORAL_OPERATOR_MAX_DIMS \<equiv> 4"

abbreviation (input) CORAL_OPERATOR_MODE_RTL :: u32 where "CORAL_OPERATOR_MODE_RTL \<equiv> 0"
abbreviation (input) CORAL_OPERATOR_MODE_HYBRID :: u32 where "CORAL_OPERATOR_MODE_HYBRID \<equiv> 1"
abbreviation (input) CORAL_OPERATOR_MODE_SAMPLED :: u32 where "CORAL_OPERATOR_MODE_SAMPLED \<equiv> 2"

abbreviation (input) CORAL_OPERATOR_OP_INVALID :: u32 where "CORAL_OPERATOR_OP_INVALID \<equiv> 0"
abbreviation (input) CORAL_OPERATOR_OP_PARTIAL_MOBILENET :: u32 where "CORAL_OPERATOR_OP_PARTIAL_MOBILENET \<equiv> 1"
abbreviation (input) CORAL_OPERATOR_OP_CONV_2D_INT8 :: u32 where "CORAL_OPERATOR_OP_CONV_2D_INT8 \<equiv> 2"
abbreviation (input) CORAL_OPERATOR_OP_DEPTHWISE_CONV_2D_INT8 :: u32 where "CORAL_OPERATOR_OP_DEPTHWISE_CONV_2D_INT8 \<equiv> 3"
abbreviation (input) CORAL_OPERATOR_OP_MATMUL_INT8 :: u32 where "CORAL_OPERATOR_OP_MATMUL_INT8 \<equiv> 4"
abbreviation (input) CORAL_OPERATOR_OP_FULLY_CONNECTED_INT8 :: u32 where "CORAL_OPERATOR_OP_FULLY_CONNECTED_INT8 \<equiv> 5"
abbreviation (input) CORAL_OPERATOR_OP_ADD_INT8 :: u32 where "CORAL_OPERATOR_OP_ADD_INT8 \<equiv> 6"
abbreviation (input) CORAL_OPERATOR_OP_SOFTMAX :: u32 where "CORAL_OPERATOR_OP_SOFTMAX \<equiv> 7"
abbreviation (input) CORAL_OPERATOR_OP_LAYER_NORM :: u32 where "CORAL_OPERATOR_OP_LAYER_NORM \<equiv> 8"

abbreviation (input) CORAL_OPERATOR_STATE_IDLE :: u32 where "CORAL_OPERATOR_STATE_IDLE \<equiv> 0"
abbreviation (input) CORAL_OPERATOR_STATE_SUBMITTED :: u32 where "CORAL_OPERATOR_STATE_SUBMITTED \<equiv> 1"
abbreviation (input) CORAL_OPERATOR_STATE_RUNNING :: u32 where "CORAL_OPERATOR_STATE_RUNNING \<equiv> 2"
abbreviation (input) CORAL_OPERATOR_STATE_COMPLETE :: u32 where "CORAL_OPERATOR_STATE_COMPLETE \<equiv> 3"
abbreviation (input) CORAL_OPERATOR_STATE_ERROR :: u32 where "CORAL_OPERATOR_STATE_ERROR \<equiv> 4"

abbreviation (input) CORAL_OPERATOR_ERROR_NONE :: u32 where "CORAL_OPERATOR_ERROR_NONE \<equiv> 0"
abbreviation (input) CORAL_OPERATOR_ERROR_BAD_DESCRIPTOR :: u32 where "CORAL_OPERATOR_ERROR_BAD_DESCRIPTOR \<equiv> 1"
abbreviation (input) CORAL_OPERATOR_ERROR_UNSUPPORTED :: u32 where "CORAL_OPERATOR_ERROR_UNSUPPORTED \<equiv> 2"
abbreviation (input) CORAL_OPERATOR_ERROR_EXECUTION :: u32 where "CORAL_OPERATOR_ERROR_EXECUTION \<equiv> 3"
abbreviation (input) CORAL_OPERATOR_ERROR_ADDRESS :: u32 where "CORAL_OPERATOR_ERROR_ADDRESS \<equiv> 4"

abbreviation (input) CORAL_OPERATOR_ELEMENT_INT8 :: u32 where "CORAL_OPERATOR_ELEMENT_INT8 \<equiv> 1"
abbreviation (input) CORAL_OPERATOR_ELEMENT_INT32 :: u32 where "CORAL_OPERATOR_ELEMENT_INT32 \<equiv> 2"
abbreviation (input) CORAL_OPERATOR_ELEMENT_FLOAT32 :: u32 where "CORAL_OPERATOR_ELEMENT_FLOAT32 \<equiv> 3"

section \<open>Structs\<close>

record coral_operator_tensor =
  address :: u32
  tsize :: u32
  rank :: u32
  dimensions :: "u32 list"
  element_type :: u32
  zero_point :: int

record coral_operator_descriptor =
  magic :: u32
  version :: u32
  descriptor_size :: u32
  opcode :: u32
  op_state :: u32
  op_error :: u32
  flags :: u32
  execution_mode :: u32
  tensor_count :: u32
  tensors :: "coral_operator_tensor list"
  stride_height :: u32
  stride_width :: u32
  padding_height :: u32
  padding_width :: u32
  multiplier_address :: u32
  shift_address :: u32
  output_zero_point :: int
  activation_min :: int
  activation_max :: int
  quantization_count :: u32
  operation_count :: u64
  host_elapsed_ns :: u64
  modeled_cycles :: u64
  bytes_read :: u64
  bytes_written :: u64
  reserved :: "u32 list"

text \<open>The array fields have their declared lengths and the signed fields their declared width.\<close>

definition tensor_wf :: "coral_operator_tensor \<Rightarrow> bool" where
  "tensor_wf t \<longleftrightarrow> length (dimensions t) = 4 \<and> int32_range (zero_point t)"

definition descriptor_wf :: "coral_operator_descriptor \<Rightarrow> bool" where
  "descriptor_wf d \<longleftrightarrow> length (tensors d) = 4 \<and> list_all tensor_wf (tensors d) \<and>
     length (reserved d) = 8 \<and> int32_range (output_zero_point d) \<and>
     int32_range (activation_min d) \<and> int32_range (activation_max d)"

text \<open>
  The layout the compiler gives the structs: a tensor is nine words; a descriptor is nine
  words, four tensors, ten words, one word of padding that aligns the 64-bit counters, the
  five counters, and the reserved words: 74 words, 296 bytes.
\<close>

definition sizeof_descriptor :: nat where
  [abi_defs]: "sizeof_descriptor = 296"

definition s32_word :: "int \<Rightarrow> u32" where
  "s32_word x = word_of_int x"

definition lo_word :: "u64 \<Rightarrow> u32" where
  "lo_word w = ucast w"

definition hi_word :: "u64 \<Rightarrow> u32" where
  "hi_word w = ucast (drop_bit 32 w)"

definition join_words :: "u32 \<Rightarrow> u32 \<Rightarrow> u64" where
  "join_words lo hi = ucast lo OR push_bit 32 (ucast hi)"

definition tensor_words :: "coral_operator_tensor \<Rightarrow> u32 list" where
  "tensor_words t = [address t, tsize t, rank t] @ dimensions t @
     [element_type t, s32_word (zero_point t)]"

definition tensor_of_words :: "u32 list \<Rightarrow> coral_operator_tensor" where
  "tensor_of_words ws = \<lparr> address = ws ! 0, tsize = ws ! 1, rank = ws ! 2,
     dimensions = take 4 (drop 3 ws), element_type = ws ! 7, zero_point = sint (ws ! 8) \<rparr>"

definition descriptor_words :: "u32 \<Rightarrow> coral_operator_descriptor \<Rightarrow> u32 list" where
  "descriptor_words pad d =
     [magic d, version d, descriptor_size d, opcode d, op_state d, op_error d, flags d,
      execution_mode d, tensor_count d] @ concat (map tensor_words (tensors d)) @
     [stride_height d, stride_width d, padding_height d, padding_width d,
      multiplier_address d, shift_address d, s32_word (output_zero_point d),
      s32_word (activation_min d), s32_word (activation_max d), quantization_count d, pad] @
     concat (map (\<lambda>w. [lo_word w, hi_word w])
       [operation_count d, host_elapsed_ns d, modeled_cycles d, bytes_read d, bytes_written d]) @
     reserved d"

definition descriptor_of_words :: "u32 list \<Rightarrow> coral_operator_descriptor" where
  "descriptor_of_words ws = \<lparr>
     magic = ws ! 0, version = ws ! 1, descriptor_size = ws ! 2, opcode = ws ! 3,
     op_state = ws ! 4, op_error = ws ! 5, flags = ws ! 6, execution_mode = ws ! 7,
     tensor_count = ws ! 8,
     tensors = map (\<lambda>i. tensor_of_words (take 9 (drop (9 + 9 * i) ws))) [0..<4],
     stride_height = ws ! 45, stride_width = ws ! 46,
     padding_height = ws ! 47, padding_width = ws ! 48,
     multiplier_address = ws ! 49, shift_address = ws ! 50,
     output_zero_point = sint (ws ! 51), activation_min = sint (ws ! 52),
     activation_max = sint (ws ! 53), quantization_count = ws ! 54,
     operation_count = join_words (ws ! 56) (ws ! 57),
     host_elapsed_ns = join_words (ws ! 58) (ws ! 59),
     modeled_cycles = join_words (ws ! 60) (ws ! 61),
     bytes_read = join_words (ws ! 62) (ws ! 63),
     bytes_written = join_words (ws ! 64) (ws ! 65),
     reserved = take 8 (drop 66 ws) \<rparr>"

definition load_descriptor :: "bytes \<Rightarrow> nat \<Rightarrow> coral_operator_descriptor option" where
  "load_descriptor m a = map_option descriptor_of_words (load_words m a 74)"

text \<open>Stores through the struct pointer do not touch the padding word.\<close>

definition store_descriptor :: "bytes \<Rightarrow> nat \<Rightarrow> coral_operator_descriptor \<Rightarrow> bytes option" where
  "store_descriptor m a d =
     do { pad \<leftarrow> load32 m (a + 220); store_words m a (descriptor_words pad d) }"

section \<open>The firmware client\<close>

record OperatorStagingAllocator =
  base :: u32
  asize :: u32
  cursor :: u32

definition HybridOperatorSupported :: "u32 \<Rightarrow> u32 \<Rightarrow> bool" where
  "HybridOperatorSupported capabilities op \<longleftrightarrow>
     op < 32 \<and> capabilities AND push_bit (unat op) 1 \<noteq> 0"

definition OperatorUsesHybrid :: "u32 \<Rightarrow> u32 \<Rightarrow> u32 \<Rightarrow> u32 \<Rightarrow> bool" where
  "OperatorUsesHybrid mode capabilities sampled_rtl_mask op =
     (if mode = CORAL_OPERATOR_MODE_HYBRID then HybridOperatorSupported capabilities op
      else if mode = CORAL_OPERATOR_MODE_SAMPLED then
        HybridOperatorSupported capabilities op \<and> sampled_rtl_mask AND push_bit (unat op) 1 = 0
      else False)"

definition InitializeStagingAllocator :: "u32 \<Rightarrow> OperatorStagingAllocator" where
  "InitializeStagingAllocator extmem_base =
     \<lparr> base = extmem_base + CORAL_OPERATOR_STAGING_OFFSET,
       asize = CORAL_OPERATOR_STAGING_SIZE, cursor = 0 \<rparr>"

definition AllocateStaging ::
  "OperatorStagingAllocator option \<Rightarrow> u32 \<Rightarrow> u32 \<Rightarrow> u32 \<times> OperatorStagingAllocator option" where
  "AllocateStaging allocator n alignment =
     (case allocator of
        None \<Rightarrow> (0, None)
      | Some al \<Rightarrow>
          if n = 0 \<or> alignment = 0 \<or> alignment AND (alignment - 1) \<noteq> 0 then (0, Some al)
          else
            let aligned = (cursor al + alignment - 1) AND NOT (alignment - 1) in
            if aligned < cursor al \<or> asize al < n \<or> asize al - n < aligned then (0, Some al)
            else (base al + aligned, Some (al\<lparr> cursor := aligned + n \<rparr>)))"

definition SetOperatorTensor ::
  "coral_operator_descriptor option \<Rightarrow> u32 \<Rightarrow> u32 \<Rightarrow> u32 \<Rightarrow> u32 \<Rightarrow> u32 list option \<Rightarrow> u32 \<Rightarrow> int
    \<Rightarrow> bool \<times> coral_operator_descriptor option" where
  "SetOperatorTensor descriptor index addr n rnk dims etype zp =
     (case (descriptor, dims) of
        (Some d, Some ds) \<Rightarrow>
          if CORAL_OPERATOR_MAX_TENSORS \<le> index \<or> addr = 0 \<or> n = 0 \<or> rnk = 0 \<or>
             CORAL_OPERATOR_MAX_DIMS < rnk then (False, descriptor)
          else
            let t = \<lparr> address = addr, tsize = n, rank = rnk, dimensions = take 4 ds,
                      element_type = etype, zero_point = zp \<rparr>;
                d1 = d\<lparr> tensors := (tensors d)[unat index := t] \<rparr>
            in (True, Some (if tensor_count d1 \<le> index then d1\<lparr> tensor_count := index + 1 \<rparr> else d1))
      | _ \<Rightarrow> (False, descriptor))"

definition InitializeOperatorDescriptor :: "u32 \<Rightarrow> u32 \<Rightarrow> coral_operator_descriptor" where
  "InitializeOperatorDescriptor op mode =
     (descriptor_of_words (replicate (sizeof_descriptor div 4) 0))
       \<lparr> magic := CORAL_OPERATOR_ABI_MAGIC, version := CORAL_OPERATOR_ABI_VERSION,
         descriptor_size := of_nat sizeof_descriptor, opcode := op, execution_mode := mode \<rparr>"

section \<open>Layout\<close>

lemma length_eq_4: "length xs = 4 \<Longrightarrow> \<exists>a b c d. xs = [a, b, c, d]"
  by (auto simp: eval_nat_numeral length_Suc_conv)

lemma length_eq_8: "length xs = 8 \<Longrightarrow> \<exists>a b c d e f g h. xs = [a, b, c, d, e, f, g, h]"
  by (auto simp: eval_nat_numeral length_Suc_conv)

lemma sint_s32_word [simp]: "int32_range x \<Longrightarrow> sint (s32_word x) = x"
  by (simp add: s32_word_def int32_range_def int_word_sint)

lemma join_lo_hi [simp]: "join_words (lo_word w) (hi_word w) = w"
  unfolding join_words_def lo_word_def hi_word_def
  by (rule bit_word_eqI) (auto simp: bit_simps)

lemma length_tensor_words: "tensor_wf t \<Longrightarrow> length (tensor_words t) = 9"
  by (simp add: tensor_words_def tensor_wf_def)

lemma tensor_of_tensor_words: "tensor_wf t \<Longrightarrow> tensor_of_words (tensor_words t) = t"
  by (cases t) (auto simp: tensor_words_def tensor_of_words_def tensor_wf_def dest!: length_eq_4)

lemma length_descriptor_words: "descriptor_wf d \<Longrightarrow> length (descriptor_words pad d) = 74"
  by (auto simp: descriptor_words_def descriptor_wf_def length_tensor_words dest!: length_eq_4)

lemma descriptor_words_pad: "descriptor_wf d \<Longrightarrow> descriptor_words pad d ! 55 = pad"
  by (auto simp: descriptor_words_def descriptor_wf_def length_tensor_words nth_append
      dest!: length_eq_4)

lemma tensors_of_descriptor_words:
  assumes "descriptor_wf d" "i < 4"
  shows "take 9 (drop (9 + 9 * i) (descriptor_words pad d)) = tensor_words (tensors d ! i)"
proof -
  obtain a b c e where t: "tensors d = [a, b, c, e]"
    using assms(1) length_eq_4 [of "tensors d"] by (auto simp: descriptor_wf_def)
  then have "tensor_wf a" "tensor_wf b" "tensor_wf c" "tensor_wf e"
    using assms(1) by (auto simp: descriptor_wf_def)
  moreover have "i = 0 \<or> i = 1 \<or> i = 2 \<or> i = 3" using assms(2) by auto
  ultimately show ?thesis
    by (auto simp: descriptor_words_def t length_tensor_words drop_Cons' take_Cons')
qed

lemma descriptor_of_descriptor_words:
  assumes "descriptor_wf d"
  shows "descriptor_of_words (descriptor_words pad d) = d"
proof -
  have ts: "map (\<lambda>i. tensor_of_words (take 9 (drop (9 + 9 * i) (descriptor_words pad d)))) [0..<4]
    = tensors d"
    using assms
    by (intro nth_equalityI)
      (auto simp: tensors_of_descriptor_words tensor_of_tensor_words descriptor_wf_def list_all_length)
  obtain a b c e where t: "tensors d = [a, b, c, e]"
    using assms length_eq_4 [of "tensors d"] by (auto simp: descriptor_wf_def)
  then have l: "length (tensor_words a) = 9" "length (tensor_words b) = 9"
    "length (tensor_words c) = 9" "length (tensor_words e) = 9"
    using assms by (auto simp: descriptor_wf_def length_tensor_words)
  have "length (concat (map tensor_words (tensors d))) = 36" by (simp add: t l)
  moreover have "length (reserved d) = 8" using assms by (simp add: descriptor_wf_def)
  ultimately show ?thesis
    unfolding descriptor_of_words_def ts
    using assms
    by (cases d) (simp add: descriptor_words_def nth_append descriptor_wf_def)
qed

lemma descriptor_wf_of_words: "length ws = 74 \<Longrightarrow> descriptor_wf (descriptor_of_words ws)"
  by (auto simp: descriptor_wf_def descriptor_of_words_def tensor_wf_def tensor_of_words_def
      list_all_iff)

lemma load_descriptor_wf: "load_descriptor m a = Some d \<Longrightarrow> descriptor_wf d"
  by (auto simp: load_descriptor_def load_words_length intro: descriptor_wf_of_words)

lemma load_descriptor_in_range:
  "a + sizeof_descriptor \<le> length m \<Longrightarrow> \<exists>d. load_descriptor m a = Some d"
  using load_words_in_range [of a 74 m] by (auto simp: load_descriptor_def sizeof_descriptor_def)

lemma store_descriptor_facts:
  assumes "a + sizeof_descriptor \<le> length m" "descriptor_wf d"
  shows "\<exists>m'. store_descriptor m a d = Some m' \<and> load_descriptor m' a = Some d \<and>
    same_outside a sizeof_descriptor m m' \<and> load32 m' (a + 220) = load32 m (a + 220)"
proof -
  have r: "a + 4 * 74 \<le> length m" using assms(1) by (simp add: sizeof_descriptor_def)
  obtain pad where pad: "load32 m (a + 220) = Some pad"
    using load32_in_range [of "a + 220" m] r by auto
  let ?ws = "descriptor_words pad d"
  have len: "length ?ws = 74" using assms(2) by (rule length_descriptor_words)
  obtain m' where m': "store_words m a ?ws = Some m'"
    using store_words_in_range [of a ?ws m] len r by auto
  then have "store_descriptor m a d = Some m'" by (simp add: store_descriptor_def pad)
  moreover have "load_descriptor m' a = Some d"
    using load_words_store_words [OF m'] len descriptor_of_descriptor_words [OF assms(2)]
    by (simp add: load_descriptor_def)
  moreover have "same_outside a sizeof_descriptor m m'"
    using store_words_same_outside [OF m'] len r by (simp add: sizeof_descriptor_def)
  moreover have "load32 m' (a + 220) = load32 m (a + 220)"
    using load_words_nth [OF load_words_store_words [OF m'], of 55] len pad
      descriptor_words_pad [OF assms(2)] by simp
  ultimately show ?thesis by blast
qed

section \<open>The staging allocator\<close>

text \<open>
  What a client of an allocator relies on: an allocation never moves the allocator's top
  backwards or beyond its limit, and a block it hands out lies between the old top and the new
  one. Blocks handed out by a sequence of requests are then ordered and pairwise disjoint.
\<close>

primrec alloc_run ::
  "('s \<Rightarrow> 'r \<Rightarrow> (nat \<times> nat) option \<times> 's) \<Rightarrow> 's \<Rightarrow> 'r list \<Rightarrow> (nat \<times> nat) list \<times> 's" where
  "alloc_run alloc s [] = ([], s)"
| "alloc_run alloc s (r # rs) =
     (let (x, s1) = alloc s r; (bs, s2) = alloc_run alloc s1 rs
      in ((case x of None \<Rightarrow> bs | Some b \<Rightarrow> b # bs), s2))"

definition block_before :: "nat \<times> nat \<Rightarrow> nat \<times> nat \<Rightarrow> bool" where
  "block_before x y \<longleftrightarrow> fst x + snd x \<le> fst y"

locale region_allocator =
  fixes inv :: "'s \<Rightarrow> bool"
    and alloc :: "'s \<Rightarrow> 'r \<Rightarrow> (nat \<times> nat) option \<times> 's"
    and top :: "'s \<Rightarrow> nat"
    and limit :: "'s \<Rightarrow> nat"
  assumes inv_alloc: "inv s \<Longrightarrow> alloc s r = (x, s') \<Longrightarrow> inv s'"
    and limit_alloc: "inv s \<Longrightarrow> alloc s r = (x, s') \<Longrightarrow> limit s' = limit s"
    and top_mono: "inv s \<Longrightarrow> alloc s r = (x, s') \<Longrightarrow> top s \<le> top s'"
    and top_limit: "inv s \<Longrightarrow> top s \<le> limit s"
    and block_fresh: "inv s \<Longrightarrow> alloc s r = (Some (b, n), s') \<Longrightarrow> top s \<le> b \<and> b + n \<le> top s'"
begin

lemma run_inv:
  "inv s \<Longrightarrow> alloc_run alloc s rs = (bs, s') \<Longrightarrow> inv s' \<and> top s \<le> top s' \<and> limit s' = limit s"
proof (induction rs arbitrary: s bs)
  case Nil
  then show ?case by simp
next
  case (Cons r rs)
  obtain x s1 where a: "alloc s r = (x, s1)" by force
  obtain cs where c: "alloc_run alloc s1 rs = (cs, s')"
    using Cons.prems(2) a by (auto split: prod.splits)
  show ?case
    using Cons.IH [OF _ c] inv_alloc [OF Cons.prems(1) a] top_mono [OF Cons.prems(1) a]
      limit_alloc [OF Cons.prems(1) a] by auto
qed

lemma run_blocks:
  "inv s \<Longrightarrow> alloc_run alloc s rs = (bs, s') \<Longrightarrow>
    sorted_wrt block_before bs \<and> (\<forall>(b, n) \<in> set bs. top s \<le> b \<and> b + n \<le> top s')"
proof (induction rs arbitrary: s bs)
  case Nil
  then show ?case by simp
next
  case (Cons r rs)
  obtain x s1 where a: "alloc s r = (x, s1)" by force
  obtain cs where c: "alloc_run alloc s1 rs = (cs, s')"
    using Cons.prems(2) a by (auto split: prod.splits)
  have i1: "inv s1" and t1: "top s \<le> top s1"
    using inv_alloc top_mono Cons.prems(1) a by blast+
  have IH: "sorted_wrt block_before cs" "\<forall>(b, n) \<in> set cs. top s1 \<le> b \<and> b + n \<le> top s'"
    using Cons.IH [OF i1 c] by auto
  have t2: "top s1 \<le> top s'" using run_inv [OF i1 c] by simp
  show ?case
  proof (cases x)
    case None
    then have "bs = cs" using Cons.prems(2) a c by simp
    then show ?thesis using IH t1 by force
  next
    case (Some y)
    obtain b n where y: "y = (b, n)" by force
    have bs: "bs = (b, n) # cs" using Cons.prems(2) a c Some y by simp
    have "top s \<le> b" "b + n \<le> top s1"
      using block_fresh [OF Cons.prems(1)] a Some y by auto
    moreover have "block_before (b, n) z" if "z \<in> set cs" for z
      using IH(2) that \<open>b + n \<le> top s1\<close> by (auto simp: block_before_def)
    ultimately show ?thesis using IH t1 t2 bs by auto
  qed
qed

lemma run_within:
  assumes "inv s" "alloc_run alloc s rs = (bs, s')" "(b, n) \<in> set bs"
  shows "top s \<le> b \<and> b + n \<le> limit s"
  using run_blocks [OF assms(1,2)] run_inv [OF assms(1,2)] top_limit [of s'] assms(3) by auto

end

text \<open>
  The staging allocator hands out \<open>base + aligned\<close>, with \<open>0\<close> for a refused request; a usable
  allocator has a non-null window that does not wrap around the address space.
\<close>

definition staging_ok :: "OperatorStagingAllocator \<Rightarrow> bool" where
  "staging_ok al \<longleftrightarrow> base al \<noteq> 0 \<and> unat (base al) + unat (asize al) < 2 ^ 32 \<and> cursor al \<le> asize al"

definition staging_alloc ::
  "OperatorStagingAllocator \<Rightarrow> u32 \<times> u32 \<Rightarrow> (nat \<times> nat) option \<times> OperatorStagingAllocator" where
  "staging_alloc al r =
     (let (p, al') = AllocateStaging (Some al) (fst r) (snd r)
      in (if p = 0 then None else Some (unat p, unat (fst r)), the al'))"

definition staging_top :: "OperatorStagingAllocator \<Rightarrow> nat" where
  "staging_top al = unat (base al) + unat (cursor al)"

definition staging_limit :: "OperatorStagingAllocator \<Rightarrow> nat" where
  "staging_limit al = unat (base al) + unat (asize al)"

lemma align_up:
  fixes c :: u32
  assumes "al \<noteq> 0" "al AND (al - 1) = 0" "\<not> (c + al - 1) AND NOT (al - 1) < c"
  shows "unat ((c + al - 1) AND NOT (al - 1)) mod unat al = 0"
    and "unat ((c + al - 1) AND NOT (al - 1)) < unat c + unat al"
proof -
  obtain k where k: "unat al = 2 ^ k" "al - 1 = mask k"
    using power_of_two_test [OF assms(1,2)] by blast
  let ?x = "c + al - 1"
  have e: "unat (?x AND NOT (al - 1)) = unat ?x - unat ?x mod 2 ^ k"
    by (simp add: k and_not_low_mask_unat)
  show "unat (?x AND NOT (al - 1)) mod unat al = 0"
    unfolding e k(1) by (simp add: minus_mod_eq_mult_div)
  have "unat ?x \<le> unat c + unat (al - 1)"
  proof -
    have "?x = c + (al - 1)" by simp
    then have "unat ?x = (unat c + unat (al - 1)) mod 2 ^ 32" by (simp only: unat_word_ariths) simp
    then show ?thesis by simp
  qed
  moreover have "unat (al - 1) < unat al" using assms(1) by (simp add: unat_minus_one unat_gt_0)
  ultimately show "unat (?x AND NOT (al - 1)) < unat c + unat al" using e by linarith
qed

lemma AllocateStaging_success:
  assumes "AllocateStaging (Some al) n a = (p, Some al')" "p \<noteq> 0" "staging_ok al"
  obtains off where "p = base al + off" "al' = al\<lparr> cursor := off + n \<rparr>" "n \<noteq> 0"
    "unat off mod unat a = 0" "unat off < unat (cursor al) + unat a"
    "unat (cursor al) \<le> unat off" "unat off + unat n \<le> unat (asize al)"
    "unat p = unat (base al) + unat off"
proof -
  let ?off = "(cursor al + a - 1) AND NOT (a - 1)"
  have g: "n \<noteq> 0" "a \<noteq> 0" "a AND (a - 1) = 0" "\<not> ?off < cursor al" "\<not> asize al < n"
    "\<not> asize al - n < ?off" and p: "p = base al + ?off" and al': "al' = al\<lparr> cursor := ?off + n \<rparr>"
    using assms(1,2) by (auto simp: AllocateStaging_def Let_def split: if_splits)
  have c: "unat (cursor al) \<le> unat ?off" using g(4) by (simp add: word_less_nat_alt)
  have "unat (asize al - n) = unat (asize al) - unat n" using g(5) by (simp add: unat_sub_le)
  then have u: "unat ?off + unat n \<le> unat (asize al)"
    using g(5,6) by (auto simp: word_less_nat_alt)
  have "unat p = unat (base al) + unat ?off"
    unfolding p using u assms(3) by (intro unat_add_nowrap) (auto simp: staging_ok_def)
  then show thesis using that [OF p al' g(1)] align_up [OF g(2,3,4)] c u by blast
qed

lemma AllocateStaging_refused:
  "AllocateStaging (Some al) n a = (0, al') \<Longrightarrow> staging_ok al \<Longrightarrow> al' = Some al"
proof (rule ccontr)
  assume a: "AllocateStaging (Some al) n a = (0, al')" "staging_ok al" "al' \<noteq> Some al"
  let ?off = "(cursor al + a - 1) AND NOT (a - 1)"
  have g: "base al + ?off = 0" "\<not> asize al < n" "\<not> asize al - n < ?off"
    using a by (auto simp: AllocateStaging_def Let_def split: if_splits)
  have "unat (asize al - n) = unat (asize al) - unat n" using g(2) by (simp add: unat_sub_le)
  then have "unat ?off \<le> unat (asize al)" using g(3) by (auto simp: word_less_nat_alt)
  then have "unat (base al + ?off) = unat (base al) + unat ?off"
    using a(2) by (intro unat_add_nowrap) (auto simp: staging_ok_def)
  moreover have "0 < unat (base al)" using a(2) by (simp add: staging_ok_def unat_gt_0)
  ultimately show False using g(1) by simp
qed

lemma AllocateStaging_not_null: "\<exists>p al'. AllocateStaging (Some al) n a = (p, Some al')"
  by (simp add: AllocateStaging_def Let_def)

lemma staging_alloc_cases:
  assumes "staging_ok al" "staging_alloc al r = (x, al')"
  obtains "x = None" "al' = al"
  | off where "x = Some (unat (base al) + unat off, unat (fst r))"
      "al' = al\<lparr> cursor := off + fst r \<rparr>" "unat (cursor al) \<le> unat off"
      "unat off + unat (fst r) \<le> unat (asize al)" "unat off mod unat (snd r) = 0"
proof -
  obtain p al1 where p: "AllocateStaging (Some al) (fst r) (snd r) = (p, Some al1)"
    using AllocateStaging_not_null by blast
  show thesis
  proof (cases "p = 0")
    case True
    then have "Some al1 = Some al" using AllocateStaging_refused p assms(1) by blast
    then show ?thesis using that(1) assms(2) p True by (simp add: staging_alloc_def)
  next
    case False
    show ?thesis
      by (rule AllocateStaging_success [OF p False assms(1)])
        (use assms(2) p False in \<open>auto simp: staging_alloc_def intro!: that(2)\<close>)
  qed
qed

lemma unat_cursor_advance:
  "unat (off :: u32) + unat n \<le> unat (sz :: u32) \<Longrightarrow> unat (off + n) = unat off + unat n"
  using u32_lt [of sz] by (intro unat_add_nowrap) simp

interpretation staging: region_allocator staging_ok staging_alloc staging_top staging_limit
proof
  fix s s' :: OperatorStagingAllocator and r x b n
  assume ok: "staging_ok s"
  show "staging_top s \<le> staging_limit s"
    using ok by (simp add: staging_ok_def staging_top_def staging_limit_def word_le_nat_alt)
  assume a: "staging_alloc s r = (x, s')"
  show "staging_ok s'" "staging_limit s' = staging_limit s" "staging_top s \<le> staging_top s'"
    by (rule staging_alloc_cases [OF ok a];
        use ok in \<open>auto simp: staging_ok_def staging_limit_def staging_top_def word_le_nat_alt
          unat_cursor_advance\<close>)+
next
  fix s s' :: OperatorStagingAllocator and r b n
  assume ok: "staging_ok s" and a: "staging_alloc s r = (Some (b, n), s')"
  show "staging_top s \<le> b \<and> b + n \<le> staging_top s'"
    by (rule staging_alloc_cases [OF ok a])
      (auto simp: staging_top_def unat_cursor_advance)
qed

lemma staging_ok_init:
  "extmem_base + CORAL_OPERATOR_STAGING_OFFSET \<noteq> 0 \<Longrightarrow>
   unat (extmem_base + CORAL_OPERATOR_STAGING_OFFSET) + 0x300000 < 2 ^ 32 \<Longrightarrow>
   staging_ok (InitializeStagingAllocator extmem_base)"
  by (simp add: staging_ok_def InitializeStagingAllocator_def CORAL_OPERATOR_STAGING_SIZE_def)

text \<open>Rounding up to a power of two, in the naturals and as the wrapping code computes it.\<close>

definition round_up :: "nat \<Rightarrow> nat \<Rightarrow> nat" where
  "round_up a n = (n + a - 1) div a * a"

lemma round_up_ge: "0 < a \<Longrightarrow> n \<le> round_up a n"
proof -
  assume "0 < a"
  then have "(n + a - 1) mod a < a" by simp
  moreover have "(n + a - 1) div a * a + (n + a - 1) mod a = n + a - 1" by (rule div_mult_mod_eq)
  ultimately show ?thesis unfolding round_up_def using \<open>0 < a\<close> by linarith
qed

lemma aligned_offset:
  fixes c :: u32
  assumes "k < 32"
  defines "off \<equiv> (c + 2 ^ k - 1) AND NOT (2 ^ k - 1)"
  shows "round_up (2 ^ k) (unat c) < 2 ^ 32 \<Longrightarrow> unat off = round_up (2 ^ k) (unat c)"
    and "\<not> round_up (2 ^ k) (unat c) < 2 ^ 32 \<Longrightarrow> off < c"
proof -
  have a: "unat (2 ^ k :: u32) = 2 ^ k"
    using assms(1) by (intro unat_pow2) simp
  have m: "(2 ^ k - 1 :: u32) = mask k" by (simp add: mask_eq_exp_minus_1)
  have am: "unat (2 ^ k - 1 :: u32) = 2 ^ k - 1"
    using a by (subst unat_sub_le) (simp_all add: word_le_nat_alt)
  let ?x = "c + 2 ^ k - 1" and ?s = "unat c + 2 ^ k - 1"
  have "?x = c + (2 ^ k - 1)" by simp
  then have "unat ?x = (unat c + unat (2 ^ k - 1 :: u32)) mod 2 ^ 32"
    by (simp only: unat_word_ariths) simp
  then have x: "unat ?x = ?s mod 2 ^ 32" unfolding am by simp
  have off: "unat off = unat ?x div 2 ^ k * 2 ^ k"
    unfolding off_def m by (simp add: and_not_low_mask_unat minus_mod_eq_div_mult)
  have big: "2 ^ 32 \<le> round_up (2 ^ k) (unat c) \<longleftrightarrow> 2 ^ 32 \<le> ?s"
  proof
    assume "2 ^ 32 \<le> ?s"
    then have "2 ^ 32 div 2 ^ k \<le> ?s div 2 ^ k" by (rule div_le_mono)
    then have "(2::nat) ^ 32 div 2 ^ k * 2 ^ k \<le> round_up (2 ^ k) (unat c)"
      unfolding round_up_def by (rule mult_le_mono1)
    moreover have "(2::nat) ^ 32 div 2 ^ k * 2 ^ k = 2 ^ 32"
      using assms(1) le_imp_power_dvd [of k 32 2] by (intro dvd_div_mult_self) simp
    ultimately show "2 ^ 32 \<le> round_up (2 ^ k) (unat c)" by simp
  next
    assume "2 ^ 32 \<le> round_up (2 ^ k) (unat c)"
    then show "2 ^ 32 \<le> ?s" unfolding round_up_def
      using div_times_less_eq_dividend [of ?s "2 ^ k"] by linarith
  qed
  show "unat off = round_up (2 ^ k) (unat c)" if "round_up (2 ^ k) (unat c) < 2 ^ 32"
    using big that x off by (simp add: round_up_def)
  show "off < c" if "\<not> round_up (2 ^ k) (unat c) < 2 ^ 32"
  proof -
    have s: "2 ^ 32 \<le> ?s" "?s < 2 ^ 32 + 2 ^ k" using big that u32_lt [of c] by auto
    have "?s mod 2 ^ 32 = (?s - 2 ^ 32) mod 2 ^ 32" using s(1) by (rule le_mod_geq)
    then have "?s mod 2 ^ 32 \<le> ?s - 2 ^ 32" by (metis mod_less_eq_dividend)
    then have "?s mod 2 ^ 32 < 2 ^ k" using s by linarith
    then have "unat off = 0" unfolding off x by simp
    moreover have "0 < unat c"
    proof (rule ccontr)
      assume "\<not> 0 < unat c"
      then have "?s < 2 ^ k" by simp
      moreover have "(2::nat) ^ k \<le> 2 ^ 32" using assms(1) by (intro power_increasing) simp_all
      ultimately show False using s(1) by linarith
    qed
    ultimately show ?thesis by (simp add: word_less_nat_alt)
  qed
qed

section \<open>Properties\<close>

text \<open>
  C18: whatever sequence of sizes and alignments the firmware requests, the staging blocks it is
  given are handed out in increasing order without overlap and lie inside the staging window of
  external memory.
\<close>

theorem staging_blocks_disjoint:
  assumes "unat extmem_base + 0x800000 < 2 ^ 32"
    and "alloc_run staging_alloc (InitializeStagingAllocator extmem_base) rs = (bs, al)"
  shows "sorted_wrt block_before bs \<and>
    (\<forall>(b, n) \<in> set bs. unat extmem_base + 0x500000 \<le> b \<and> b + n \<le> unat extmem_base + 0x800000)"
proof -
  let ?al = "InitializeStagingAllocator extmem_base"
  have b: "unat (extmem_base + CORAL_OPERATOR_STAGING_OFFSET) = unat extmem_base + 0x500000"
    using assms(1) by (subst unat_add_nowrap) (simp_all add: CORAL_OPERATOR_STAGING_OFFSET_def)
  then have "extmem_base + CORAL_OPERATOR_STAGING_OFFSET \<noteq> 0" by auto
  then have ok: "staging_ok ?al" using assms(1) b by (intro staging_ok_init) simp_all
  have "staging_top ?al = unat extmem_base + 0x500000" "staging_limit ?al = unat extmem_base + 0x800000"
    using b by (simp_all add: staging_top_def staging_limit_def InitializeStagingAllocator_def
        CORAL_OPERATOR_STAGING_SIZE_def)
  then show ?thesis
    using staging.run_blocks [OF ok assms(2)] staging.run_within [OF ok assms(2)] by auto
qed

theorem staging_blocks_disjoint_witness:
  "alloc_run staging_alloc (InitializeStagingAllocator 0x20000000) [(100, 16), (7, 3), (9, 64), (0x300000, 16)] =
     ([(0x20500000, 100), (0x20500080, 9)], \<lparr> base = 0x20500000, asize = 0x300000, cursor = 137 \<rparr>) \<and>
   sorted_wrt block_before [(0x20500000, 100), (0x20500080, 9)]"
proof
  show e: "alloc_run staging_alloc (InitializeStagingAllocator 0x20000000) [(100, 16), (7, 3), (9, 64), (0x300000, 16)] =
     ([(0x20500000, 100), (0x20500080, 9)], \<lparr> base = 0x20500000, asize = 0x300000, cursor = 137 \<rparr>)"
    by (simp add: staging_alloc_def AllocateStaging_def InitializeStagingAllocator_def abi_defs)
  show "sorted_wrt block_before [(0x20500000, 100), (0x20500080, 9)]"
    by (rule staging_blocks_disjoint [OF _ e, THEN conjunct1]) simp
qed

text \<open>
  for every size and every power-of-two alignment an allocation takes the least aligned
  offset at or after the cursor if the block still fits the window, and is refused with the
  allocator unchanged otherwise; this holds for every cursor, including those where the
  rounding up wraps around 32 bits.
\<close>

theorem AllocateStaging_rounds_up:
  assumes "staging_ok al" "0 < n" "k < 32"
  shows "AllocateStaging (Some al) n (2 ^ k) =
    (let off = round_up (2 ^ k) (unat (cursor al)) in
     if off + unat n \<le> unat (asize al)
     then (base al + of_nat off, Some (al\<lparr> cursor := of_nat off + n \<rparr>))
     else (0, Some al))"
proof -
  let ?off = "(cursor al + 2 ^ k - 1) AND NOT (2 ^ k - 1)"
  let ?up = "round_up (2 ^ k) (unat (cursor al))"
  have "unat (2 ^ k :: u32) = 2 ^ k" using assms(3) by (intro unat_pow2) simp
  then have nz: "(2 ^ k :: u32) \<noteq> 0" using assms(3) by auto
  have pow: "(2 ^ k :: u32) AND (2 ^ k - 1) = 0"
    by (rule bit_word_eqI) (auto simp: bit_simps mask_eq_exp_minus_1 [symmetric])
  have lt: "unat (asize al) < 2 ^ 32" using u32_lt by simp
  have sub: "unat (asize al - n) = unat (asize al) - unat n" if "\<not> asize al < n"
    using that by (simp add: unat_sub_le)
  show ?thesis
  proof (cases "?up < 2 ^ 32")
    case True
    then have u: "unat ?off = ?up" by (rule aligned_offset(1) [OF assms(3)])
    then have w: "?off = of_nat ?up" using word_of_nat_unat [of ?off] by simp
    have "\<not> ?off < cursor al" using u round_up_ge [of "2 ^ k" "unat (cursor al)"]
      by (simp add: word_less_nat_alt)
    moreover have "asize al < n \<or> asize al - n < ?off \<longleftrightarrow> \<not> ?up + unat n \<le> unat (asize al)"
      using sub u by (cases "asize al < n") (auto simp: word_less_nat_alt)
    ultimately show ?thesis
      using assms(2) nz pow w by (auto simp: AllocateStaging_def Let_def)
  next
    case False
    then have "?off < cursor al" by (rule aligned_offset(2) [OF assms(3)])
    moreover have "\<not> ?up + unat n \<le> unat (asize al)" using False lt by linarith
    ultimately show ?thesis using assms(2) nz pow by (auto simp: AllocateStaging_def Let_def)
  qed
qed

theorem AllocateStaging_rounds_up_witness:
  "AllocateStaging (Some \<lparr> base = 0x20500000, asize = 0x300000, cursor = 137 \<rparr>) 100 (2 ^ 4) =
     (0x20500090, Some \<lparr> base = 0x20500000, asize = 0x300000, cursor = 244 \<rparr>)"
  using AllocateStaging_rounds_up [of "\<lparr> base = 0x20500000, asize = 0x300000, cursor = 137 \<rparr>" 100 4]
  by (simp add: staging_ok_def round_up_def)

end
