(* ===== verification/Hybrid_Arith.thy ===== *)
theory Hybrid_Arith
  imports Prelude
begin

text \<open>
  The fixed-point arithmetic of the hybrid kernels
  (\<open>gem5_bridge/gem5_hybrid_kernels.cc\<close>, lines 12 to 42), with its mathematical meaning:
  rounding of \<open>a * b / 2^31\<close>, rounding division by a power of two, and the quantized multiplier
  built from them. An \<open>int32_t\<close> or \<open>int64_t\<close> is an \<open>int\<close>; undefined behaviour (signed
  overflow, shifts by 32 or more) is \<open>None\<close>.
\<close>

abbreviation (input) INT32_MIN :: int where "INT32_MIN \<equiv> - 2147483648"
abbreviation (input) INT32_MAX :: int where "INT32_MAX \<equiv> 2147483647"
abbreviation (input) INT8_MIN :: int where "INT8_MIN \<equiv> - 128"
abbreviation (input) INT8_MAX :: int where "INT8_MAX \<equiv> 127"

text \<open>C++ integer division truncates towards zero.\<close>

definition cdiv :: "int \<Rightarrow> int \<Rightarrow> int" where
  "cdiv a b = sgn a * sgn b * (\<bar>a\<bar> div \<bar>b\<bar>)"

definition SaturatingRoundingDoublingHighMul :: "int \<Rightarrow> int \<Rightarrow> int option" where
  "SaturatingRoundingDoublingHighMul a b =
     (if a = INT32_MIN \<and> b = INT32_MIN then Some INT32_MAX
      else do {
        product \<leftarrow> s64 (a * b);
        let nudge = (if 0 \<le> product then 2 ^ 30 else 1 - 2 ^ 30);
        s \<leftarrow> s64 (product + nudge);
        s32 (cdiv s (2 ^ 31)) })"

definition RoundingDivideByPowerOfTwo :: "int \<Rightarrow> int \<Rightarrow> int option" where
  "RoundingDivideByPowerOfTwo v exponent =
     (if exponent \<le> 0 then Some v
      else if 32 \<le> exponent then None
      else
        let mask = push_bit (nat exponent) 1 - 1 :: u32;
            remainder = word_of_int v AND mask;
            threshold = drop_bit 1 mask + (if v < 0 then 1 else 0)
        in s32 (drop_bit (nat exponent) v + (if threshold < remainder then 1 else 0)))"

definition MultiplyByQuantizedMultiplier :: "int \<Rightarrow> int \<Rightarrow> int \<Rightarrow> int option" where
  "MultiplyByQuantizedMultiplier v multiplier shift =
     do {
       neg \<leftarrow> s32 (- shift);
       let left_shift = max shift 0;
       let right_shift = max neg 0;
       factor \<leftarrow> (if left_shift < 63 then Some (2 ^ nat left_shift) else None);
       shifted \<leftarrow> s64 (v * factor);
       let bounded = max INT32_MIN (min INT32_MAX shifted);
       high \<leftarrow> SaturatingRoundingDoublingHighMul bounded multiplier;
       RoundingDivideByPowerOfTwo high right_shift }"

section \<open>Mathematical meaning\<close>

definition sat32 :: "int \<Rightarrow> int" where
  "sat32 x = max INT32_MIN (min INT32_MAX x)"

definition high_mul :: "int \<Rightarrow> int \<Rightarrow> int" where
  "high_mul a b = sat32 ((a * b + 2 ^ 30) div 2 ^ 31)"

definition round_shift :: "int \<Rightarrow> nat \<Rightarrow> int" where
  "round_shift v e = (if e = 0 then v else sgn v * ((\<bar>v\<bar> + 2 ^ (e - 1)) div 2 ^ e))"

definition requantize :: "int \<Rightarrow> int \<Rightarrow> int \<Rightarrow> int" where
  "requantize v multiplier shift =
     round_shift (high_mul (sat32 (v * 2 ^ nat shift)) multiplier) (nat (- shift))"

lemma sat32_range [simp]: "int32_range (sat32 x)"
  by (simp add: sat32_def int32_range_def)

lemma sat32_id: "int32_range x \<Longrightarrow> sat32 x = x"
  by (simp add: sat32_def int32_range_def)

lemma high_mul_range [simp]: "int32_range (high_mul a b)"
  by (simp add: high_mul_def)

lemma int32_mult_bound:
  assumes "int32_range a" "int32_range b"
  shows "- (2 ^ 62) \<le> a * b" "a * b \<le> 2 ^ 62"
proof -
  have "\<bar>a\<bar> \<le> 2 ^ 31" "\<bar>b\<bar> \<le> 2 ^ 31" using assms by (auto simp: int32_range_def)
  then have "\<bar>a\<bar> * \<bar>b\<bar> \<le> 2 ^ 31 * 2 ^ 31" by (intro mult_mono) auto
  then have "\<bar>a * b\<bar> \<le> 2 ^ 62" by (simp add: abs_mult)
  then show "- (2 ^ 62) \<le> a * b" "a * b \<le> 2 ^ 62" by linarith+
qed

text \<open>Only the product of the two minimal values reaches \<open>2^62\<close>.\<close>

lemma int32_mult_upper:
  assumes "int32_range a" "int32_range b" "\<not> (a = INT32_MIN \<and> b = INT32_MIN)"
  shows "a * b \<le> 2 ^ 62 - 2 ^ 31"
proof (cases "a = INT32_MIN")
  case True
  then have "- b \<le> 2147483647" using assms by (auto simp: int32_range_def)
  then have "2147483648 * - b \<le> 2147483648 * 2147483647" by (intro mult_left_mono) auto
  then show ?thesis using True by simp
next
  case False
  then have "\<bar>a\<bar> \<le> 2147483647" "\<bar>b\<bar> \<le> 2147483648" using assms by (auto simp: int32_range_def)
  then have "\<bar>a\<bar> * \<bar>b\<bar> \<le> 2147483647 * 2147483648" by (intro mult_mono) auto
  then have "\<bar>a * b\<bar> \<le> 2147483647 * 2147483648" by (simp add: abs_mult)
  then show ?thesis by simp
qed

lemma cdiv_nudged:
  "cdiv (p + (if 0 \<le> p then 2 ^ 30 else 1 - 2 ^ 30)) (2 ^ 31) = (p + 2 ^ 30) div 2 ^ 31"
proof (cases "0 \<le> p")
  case True
  then show ?thesis by (simp add: cdiv_def)
next
  case False
  let ?n = "2 ^ 30 - 1 - p"
  have n: "0 \<le> ?n" using False by simp
  have "cdiv (p + (1 - 2 ^ 30)) (2 ^ 31) = - (?n div 2 ^ 31)"
    using False by (auto simp: cdiv_def sgn_if)
  also have "\<dots> = (p + 2 ^ 30) div 2 ^ 31"
  proof -
    define q r where "q = ?n div 2 ^ 31" and "r = ?n mod 2 ^ 31"
    have n': "?n = q * 2 ^ 31 + r" and r: "0 \<le> r" "r < 2 ^ 31"
      unfolding q_def r_def by (simp_all add: div_mult_mod_eq)
    have "p + 2 ^ 30 = (2 ^ 31 - 1 - r) + (- q) * 2 ^ 31" using n' by simp
    then have "(p + 2 ^ 30) div 2 ^ 31 = ((2 ^ 31 - 1 - r) + (- q) * 2 ^ 31) div 2 ^ 31" by simp
    also have "\<dots> = - q + (2 ^ 31 - 1 - r) div 2 ^ 31" by (rule div_mult_self1) simp
    also have "(2 ^ 31 - 1 - r) div 2 ^ 31 = 0" using r by (intro div_pos_pos_trivial) auto
    finally show ?thesis by (simp add: q_def)
  qed
  finally show ?thesis using False by simp
qed

lemma SaturatingRoundingDoublingHighMul_meaning:
  assumes "int32_range a" "int32_range b"
  shows "SaturatingRoundingDoublingHighMul a b = Some (high_mul a b)"
proof (cases "a = INT32_MIN \<and> b = INT32_MIN")
  case True
  then show ?thesis
    by (simp add: SaturatingRoundingDoublingHighMul_def high_mul_def sat32_def)
next
  case False
  let ?p = "a * b"
  have lo: "- (2 ^ 62) \<le> ?p" using assms by (rule int32_mult_bound)
  have hi: "?p \<le> 2 ^ 62 - 2 ^ 31" using assms False by (rule int32_mult_upper)
  let ?q = "(?p + 2 ^ 30) div 2 ^ 31"
  have "- (2 ^ 62) div 2 ^ 31 \<le> ?q" using lo by (intro zdiv_mono1) auto
  moreover have "?q \<le> (2 ^ 62 - 2 ^ 31 + 2 ^ 30) div 2 ^ 31" using hi by (intro zdiv_mono1) auto
  ultimately have r: "int32_range ?q" by (simp add: int32_range_def)
  have "int64_range ?p" "int64_range (?p + (if 0 \<le> ?p then 2 ^ 30 else 1 - 2 ^ 30))"
    using lo hi by (auto simp: int64_range_def)
  then show ?thesis
    using False r cdiv_nudged [of ?p]
    by (auto simp: SaturatingRoundingDoublingHighMul_def high_mul_def sat32_id Let_def
        split: if_splits)
qed

lemma rounding_remainder:
  fixes v :: int
  assumes "0 < e" "e \<le> 31"
  shows "uint (word_of_int v AND (push_bit e 1 - 1) :: u32) = v mod 2 ^ e"
proof -
  have "(push_bit e 1 - 1 :: u32) = mask e" by (simp add: mask_eq_exp_minus_1 push_bit_eq_mult)
  then have "word_of_int v AND (push_bit e 1 - 1) = (take_bit e (word_of_int v) :: u32)"
    by (simp only: take_bit_eq_mask)
  then have "uint (word_of_int v AND (push_bit e 1 - 1) :: u32) = take_bit e (take_bit 32 v)"
    by (simp add: unsigned_take_bit_eq unsigned_of_int)
  also have "\<dots> = take_bit e v" using assms by (simp add: min_def)
  finally show ?thesis by (simp add: take_bit_eq_mod)
qed

lemma rounding_threshold:
  assumes "0 < e" "e \<le> 31"
  shows "uint (drop_bit 1 (push_bit e 1 - 1 :: u32) + (if b then 1 else 0)) =
    2 ^ (e - 1) - 1 + (if b then 1 else 0)"
proof -
  have d: "uint (drop_bit 1 (push_bit e 1 - 1 :: u32)) = 2 ^ (e - 1) - 1"
  proof -
    have u: "uint (push_bit e 1 - 1 :: u32) = 2 ^ e - 1"
      using rounding_remainder [OF assms, of "- 1"] by (simp add: zmod_minus1)
    have "uint (drop_bit 1 (push_bit e 1 - 1 :: u32)) = drop_bit 1 (uint (push_bit e 1 - 1 :: u32))"
      by (simp only: drop_bit_eq_div uint_div) simp
    also have "\<dots> = (2 ^ e - 1) div 2" by (simp only: u drop_bit_eq_div) simp
    also have "\<dots> = 2 ^ (e - 1) - 1"
      using assms(1) by (cases e) auto
    finally show ?thesis .
  qed
  have "(2::int) ^ (e - 1) \<le> 2 ^ 30" using assms by (intro power_increasing) auto
  then show ?thesis using d by (auto simp: uint_word_ariths)
qed

lemma floor_round_nonneg:
  fixes v :: int
  assumes "0 < e" "0 \<le> v"
  shows "v div 2 ^ e + (if 2 ^ (e - 1) - 1 < v mod 2 ^ e then 1 else 0) = (v + 2 ^ (e - 1)) div 2 ^ e"
proof -
  define h :: int where "h = 2 ^ (e - 1)"
  define q r where "q = v div (2 * h)" and "r = v mod (2 * h)"
  have p: "(2::int) ^ e = 2 * h" using assms(1) unfolding h_def by (cases e) auto
  have h: "0 < h" by (simp add: h_def)
  have v: "v = q * (2 * h) + r" and r: "0 \<le> r" "r < 2 * h"
    unfolding q_def r_def using h by (simp_all add: div_mult_mod_eq)
  have "(v + h) div (2 * h) = q + (r + h) div (2 * h)"
    using h by (simp add: v add.assoc)
  moreover have "(r + h) div (2 * h) = (if h - 1 < r then 1 else 0)"
    using r h by (auto intro!: div_pos_pos_trivial simp: div_pos_geq)
  ultimately show ?thesis unfolding h_def [symmetric] p q_def [symmetric] r_def [symmetric] by simp
qed

lemma floor_round_neg:
  fixes v :: int
  assumes "0 < e"
  shows "v div 2 ^ e + (if 2 ^ (e - 1) < v mod 2 ^ e then 1 else 0) = - ((- v + 2 ^ (e - 1)) div 2 ^ e)"
proof -
  define h :: int where "h = 2 ^ (e - 1)"
  define q r where "q = v div (2 * h)" and "r = v mod (2 * h)"
  have p: "(2::int) ^ e = 2 * h" using assms(1) unfolding h_def by (cases e) auto
  have h: "0 < h" by (simp add: h_def)
  have v: "v = q * (2 * h) + r" and r: "0 \<le> r" "r < 2 * h"
    unfolding q_def r_def using h by (simp_all add: div_mult_mod_eq)
  have "(- v + h) div (2 * h) = ((h - r) + (- q) * (2 * h)) div (2 * h)"
    by (simp add: v algebra_simps)
  also have "\<dots> = - q + (h - r) div (2 * h)" using h by (intro div_mult_self1) simp
  also have "(h - r) div (2 * h) = (if h < r then - 1 else 0)"
  proof (cases "h < r")
    case True
    have "(h - r) div (2 * h) = (3 * h - r + (- 1) * (2 * h)) div (2 * h)" by simp
    also have "\<dots> = - 1 + (3 * h - r) div (2 * h)" using h by (intro div_mult_self1) simp
    also have "(3 * h - r) div (2 * h) = 0" using True r h by (intro div_pos_pos_trivial) auto
    finally show ?thesis using True by simp
  next
    case False
    then show ?thesis using r h by (auto intro!: div_pos_pos_trivial)
  qed
  finally show ?thesis unfolding h_def [symmetric] p q_def [symmetric] r_def [symmetric] by simp
qed

lemma round_shift_range:
  assumes "int32_range v"
  shows "int32_range (round_shift v e)"
proof (cases "e = 0")
  case False
  have "(\<bar>v\<bar> + 2 ^ (e - 1)) div 2 ^ e \<le> \<bar>v\<bar>"
  proof (cases "v = 0")
    case True
    have "(2::int) ^ (e - 1) < 2 ^ e" using False by simp
    then show ?thesis using True by simp
  next
    case v: False
    have e: "(2::int) ^ e = 2 * 2 ^ (e - 1)" using False by (cases e) auto
    have "2 ^ (e - 1) * 1 \<le> 2 ^ (e - 1) * \<bar>v\<bar>" using v by (intro mult_left_mono) auto
    moreover have "1 * \<bar>v\<bar> \<le> 2 ^ (e - 1) * \<bar>v\<bar>" by (intro mult_right_mono) auto
    ultimately have "\<bar>v\<bar> + 2 ^ (e - 1) \<le> 2 ^ (e - 1) * \<bar>v\<bar> + 2 ^ (e - 1) * \<bar>v\<bar>" by linarith
    also have "\<dots> = \<bar>v\<bar> * 2 ^ e" unfolding e by (simp only: algebra_simps mult_2)
    finally have "\<bar>v\<bar> + 2 ^ (e - 1) \<le> \<bar>v\<bar> * 2 ^ e" .
    then have "(\<bar>v\<bar> + 2 ^ (e - 1)) div 2 ^ e \<le> (\<bar>v\<bar> * 2 ^ e) div 2 ^ e" by (rule zdiv_mono1) simp
    then show ?thesis by simp
  qed
  moreover have "0 \<le> (\<bar>v\<bar> + 2 ^ (e - 1)) div 2 ^ e" by (simp add: pos_imp_zdiv_nonneg_iff)
  ultimately have "\<bar>round_shift v e\<bar> \<le> \<bar>v\<bar>" "0 \<le> v \<longrightarrow> 0 \<le> round_shift v e"
    "v < 0 \<longrightarrow> round_shift v e \<le> 0"
    using False by (auto simp: round_shift_def sgn_if)
  then show ?thesis using assms by (cases "0 \<le> v") (auto simp: int32_range_def)
qed (use assms in \<open>simp add: round_shift_def\<close>)

lemma RoundingDivideByPowerOfTwo_meaning:
  assumes "int32_range v" "e \<le> 31"
  shows "RoundingDivideByPowerOfTwo v (int e) = Some (round_shift v e)"
proof (cases "e = 0")
  case True
  then show ?thesis by (simp add: RoundingDivideByPowerOfTwo_def round_shift_def)
next
  case False
  then have e: "0 < e" by simp
  let ?m = "push_bit e 1 - 1 :: u32"
  have "drop_bit 1 ?m + (if v < 0 then 1 else 0) < word_of_int v AND ?m \<longleftrightarrow>
    2 ^ (e - 1) - 1 + (if v < 0 then 1 else 0) < v mod 2 ^ e"
    by (simp only: word_less_def rounding_threshold [OF e assms(2)] rounding_remainder [OF e assms(2)])
  then have "drop_bit e v + (if drop_bit 1 ?m + (if v < 0 then 1 else 0) < word_of_int v AND ?m then 1 else 0)
    = round_shift v e"
    using e floor_round_nonneg [OF e, of v] floor_round_neg [OF e, of v]
    by (auto simp: round_shift_def drop_bit_eq_div sgn_if)
  then show ?thesis
    using False assms round_shift_range [OF assms(1), of e]
    by (simp add: RoundingDivideByPowerOfTwo_def Let_def)
qed

lemma MultiplyByQuantizedMultiplier_meaning:
  assumes "int32_range v" "int32_range m" "- 31 \<le> s" "s \<le> 30"
  shows "MultiplyByQuantizedMultiplier v m s = Some (requantize v m s)"
proof -
  have n: "int32_range (- s)" "max s 0 < 63" using assms by (auto simp: int32_range_def)
  have p: "(2::int) ^ nat (max s 0) \<le> 2 ^ 30" using assms by (intro power_increasing) auto
  have "\<bar>v\<bar> \<le> 2 ^ 31" using assms(1) by (auto simp: int32_range_def)
  then have "\<bar>v\<bar> * 2 ^ nat (max s 0) \<le> 2 ^ 31 * 2 ^ 30" using p by (intro mult_mono) auto
  then have "\<bar>v * 2 ^ nat (max s 0)\<bar> \<le> 2 ^ 61" by (simp add: abs_mult)
  then have r: "int64_range (v * 2 ^ nat (max s 0))" by (auto simp: int64_range_def)
  have z: "nat (max s 0) = nat s" by simp
  have "RoundingDivideByPowerOfTwo (high_mul b m) (int (nat (- s))) =
      Some (round_shift (high_mul b m) (nat (- s)))" for b
    using assms by (intro RoundingDivideByPowerOfTwo_meaning) auto
  moreover have "int (nat (- s)) = max (- s) 0" by simp
  ultimately show ?thesis
    using n r assms(2) SaturatingRoundingDoublingHighMul_meaning [OF sat32_range assms(2)]
    by (simp add: MultiplyByQuantizedMultiplier_def requantize_def sat32_def [symmetric] z Let_def)
qed

lemma requantize_range: "int32_range (requantize v m s)"
  by (simp add: requantize_def round_shift_range)

section \<open>Accuracy\<close>

lemma round_to_nearest:
  fixes x :: int
  assumes "0 < h"
  shows "\<bar>(x + h) div (2 * h) * (2 * h) - x\<bar> \<le> h"
proof -
  define q r where "q = (x + h) div (2 * h)" and "r = (x + h) mod (2 * h)"
  have "x + h = q * (2 * h) + r" "0 \<le> r" "r < 2 * h"
    unfolding q_def r_def using assms by (simp_all add: div_mult_mod_eq)
  then show ?thesis unfolding q_def [symmetric] by linarith
qed

lemma high_mul_accuracy:
  assumes "int32_range a" "int32_range b" "\<not> (a = INT32_MIN \<and> b = INT32_MIN)"
  shows "\<bar>high_mul a b * 2 ^ 31 - a * b\<bar> \<le> 2 ^ 30"
proof -
  have "- (2 ^ 62) \<le> a * b" using assms(1,2) by (rule int32_mult_bound)
  moreover have "a * b \<le> 2 ^ 62 - 2 ^ 31" using assms by (rule int32_mult_upper)
  ultimately have "- (2 ^ 62) div 2 ^ 31 \<le> (a * b + 2 ^ 30) div 2 ^ 31"
    "(a * b + 2 ^ 30) div 2 ^ 31 \<le> (2 ^ 62 - 2 ^ 31 + 2 ^ 30) div 2 ^ 31"
    by (intro zdiv_mono1; simp)+
  then have "high_mul a b = (a * b + 2 ^ 30) div 2 ^ 31"
    unfolding high_mul_def by (intro sat32_id) (simp add: int32_range_def)
  then show ?thesis using round_to_nearest [of "2 ^ 30" "a * b"] by simp
qed

lemma round_shift_accuracy: "\<bar>round_shift v e * 2 ^ e - v\<bar> * 2 \<le> 2 ^ e"
proof (cases "e = 0")
  case False
  define h :: int where "h = 2 ^ (e - 1)"
  have p: "(2::int) ^ e = 2 * h" using False unfolding h_def by (cases e) auto
  have h: "0 < h" by (simp add: h_def)
  define q where "q = (\<bar>v\<bar> + h) div (2 * h)"
  have a: "\<bar>q * (2 * h) - \<bar>v\<bar>\<bar> \<le> h" unfolding q_def using round_to_nearest [OF h] by simp
  have r: "round_shift v e = sgn v * q"
    using False unfolding round_shift_def h_def [symmetric] p q_def by simp
  consider "0 < v" | "v = 0" | "v < 0" by linarith
  then have "\<bar>round_shift v e * (2 * h) - v\<bar> \<le> h"
    using a h r by cases auto
  then show ?thesis unfolding p by simp
qed (simp add: round_shift_def)

text \<open>
  C17: for every 32-bit value and multiplier and every shift that the kernels admit, the
  quantized multiplication is defined (no overflow, no oversized shift) and its 32-bit result
  is the real product \<open>value * 2^shift * multiplier / 2^31\<close> rounded to within half a unit of each
  of its two roundings, as long as the left-shifted value itself fits 32 bits.
\<close>

theorem MultiplyByQuantizedMultiplier_accuracy:
  assumes "int32_range v" "int32_range m" "- 31 \<le> s" "s \<le> 30"
    and "int32_range (v * 2 ^ nat s)" "\<not> (v * 2 ^ nat s = INT32_MIN \<and> m = INT32_MIN)"
  shows "\<exists>r. MultiplyByQuantizedMultiplier v m s = Some r \<and> int32_range r \<and>
    \<bar>r * 2 ^ (31 + nat (- s)) - v * 2 ^ nat s * m\<bar> \<le> 2 ^ (30 + nat (- s)) + 2 ^ 30"
proof -
  let ?x = "v * 2 ^ nat s" and ?e = "nat (- s)"
  let ?h = "high_mul ?x m"
  let ?r = "requantize v m s"
  have r: "?r = round_shift ?h ?e" using assms(5) by (simp add: requantize_def sat32_id)
  have "\<bar>?r * 2 ^ ?e - ?h\<bar> * 2 \<le> 2 ^ ?e" unfolding r by (rule round_shift_accuracy)
  then have "\<bar>?r * 2 ^ ?e - ?h\<bar> * 2 ^ 31 \<le> 2 ^ ?e * 2 ^ 30" by simp
  then have "\<bar>(?r * 2 ^ ?e - ?h) * 2 ^ 31\<bar> \<le> 2 ^ (30 + ?e)"
    by (simp only: abs_mult power_add) simp
  moreover have "\<bar>?h * 2 ^ 31 - ?x * m\<bar> \<le> 2 ^ 30" using assms(2,5,6) by (intro high_mul_accuracy)
  moreover have "?r * 2 ^ (31 + ?e) - ?x * m = (?r * 2 ^ ?e - ?h) * 2 ^ 31 + (?h * 2 ^ 31 - ?x * m)"
    by (simp add: algebra_simps power_add)
  ultimately have "\<bar>?r * 2 ^ (31 + ?e) - ?x * m\<bar> \<le> 2 ^ (30 + ?e) + 2 ^ 30" by linarith
  then show ?thesis
    using MultiplyByQuantizedMultiplier_meaning [OF assms(1-4)] requantize_range [of v m s] by blast
qed

theorem MultiplyByQuantizedMultiplier_accuracy_witness:
  "\<exists>r. MultiplyByQuantizedMultiplier (- 1000) 1395864371 (- 5) = Some r \<and> int32_range r \<and>
    \<bar>r * 2 ^ (31 + nat 5) + 1000 * 1395864371\<bar> \<le> 2 ^ (30 + nat 5) + 2 ^ 30"
  using MultiplyByQuantizedMultiplier_accuracy [of "- 1000" 1395864371 "- 5"]
  by (simp add: int32_range_def)

end
