(* ===== verification/Hybrid_Kernels.thy ===== *)
theory Hybrid_Kernels
  imports Coral_Operator Hybrid_Arith
begin

text \<open>
  The integer kernels of the hybrid operator backend (\<open>gem5_bridge/gem5_hybrid_kernels.cc\<close>):
  tensor helpers, convolution, depthwise convolution, matrix product, fully connected layer and
  element-wise addition. A kernel takes the descriptor, the base address and the bytes of
  external memory, and the time the host clock measured; it returns the C++ result, the updated
  descriptor and the updated memory. \<open>None\<close> is undefined behaviour: an access outside external
  memory or outside a struct's array, a signed overflow, a division by zero, an oversized shift.
\<close>

section \<open>Helpers\<close>

type_synonym kernel_result = "(bool \<times> coral_operator_descriptor \<times> bytes) option"

text \<open>The values of a counter \<open>for (uint32_t i = 0; i < n; ++i)\<close>.\<close>

definition u32_range :: "u32 \<Rightarrow> u32 list" where
  "u32_range n = map of_nat [0..<unat n]"

primrec ElementCount_loop :: "u32 list \<Rightarrow> u64 \<Rightarrow> u64" where
  "ElementCount_loop [] count = count"
| "ElementCount_loop (dim # dims) count =
     (if dim = 0 \<or> (- 1) div ucast dim < count then 0
      else ElementCount_loop dims (count * ucast dim))"

definition ElementCount :: "coral_operator_tensor \<Rightarrow> u64" where
  "ElementCount t =
     (if rank t = 0 \<or> CORAL_OPERATOR_MAX_DIMS < rank t then 0
      else ElementCount_loop (take (unat (rank t)) (dimensions t)) 1)"

text \<open>The offset of a tensor's data in external memory: \<open>tensor.address - base\<close> wraps.\<close>

definition TensorData :: "u32 \<Rightarrow> coral_operator_tensor \<Rightarrow> nat" where
  "TensorData extmem_base t = unat (address t - extmem_base)"

text \<open>\<open>extmem + address - base\<close>: a pointer below the start of external memory is not readable.\<close>

definition quant_ptr :: "u32 \<Rightarrow> u32 \<Rightarrow> int" where
  "quant_ptr extmem_base a = uint a - uint extmem_base"

definition load_s8 :: "bytes \<Rightarrow> nat \<Rightarrow> int option" where
  "load_s8 m a = map_option sint (load8 m a)"

definition load_s32 :: "bytes \<Rightarrow> int \<Rightarrow> int option" where
  "load_s32 m a = (if a < 0 then None else map_option sint (load32 m (nat a)))"

definition TensorBytesMatch :: "coral_operator_tensor \<Rightarrow> u32 \<Rightarrow> bool" where
  "TensorBytesMatch t element_size \<longleftrightarrow>
     ElementCount t \<noteq> 0 \<and> ElementCount t \<le> ucast ((- 1 :: u32) div element_size) \<and>
     ucast (tsize t) = ElementCount t * ucast element_size"

text \<open>The dimension arrays have four entries; comparing further ones is undefined.\<close>

primrec SameShape_loop :: "nat list \<Rightarrow> u32 list \<Rightarrow> u32 list \<Rightarrow> bool option" where
  "SameShape_loop [] ls rs = Some True"
| "SameShape_loop (i # is) ls rs =
     (if length ls \<le> i \<or> length rs \<le> i then None
      else if ls ! i \<noteq> rs ! i then Some False else SameShape_loop is ls rs)"

definition SameShape :: "coral_operator_tensor \<Rightarrow> coral_operator_tensor \<Rightarrow> bool option" where
  "SameShape lhs rhs =
     (if rank lhs \<noteq> rank rhs then Some False
      else SameShape_loop [0..<unat (rank lhs)] (dimensions lhs) (dimensions rhs))"

definition activation_invalid :: "coral_operator_descriptor \<Rightarrow> bool" where
  "activation_invalid d \<longleftrightarrow> activation_min d < INT8_MIN \<or> INT8_MAX < activation_max d \<or>
     activation_max d < activation_min d"

definition CommonConvValid :: "coral_operator_descriptor \<Rightarrow> bool \<Rightarrow> bool option" where
  "CommonConvValid d depthwise =
     (if tensor_count d \<noteq> 4 \<or> quantization_count d = 0 \<or> stride_height d = 0 \<or> stride_width d = 0
      then Some False
      else
        let input = tensors d ! 0; filter = tensors d ! 1; bias = tensors d ! 2; output = tensors d ! 3 in
        if element_type input \<noteq> CORAL_OPERATOR_ELEMENT_INT8 \<or>
           element_type filter \<noteq> CORAL_OPERATOR_ELEMENT_INT8 \<or>
           element_type bias \<noteq> CORAL_OPERATOR_ELEMENT_INT32 \<or>
           element_type output \<noteq> CORAL_OPERATOR_ELEMENT_INT8 \<or>
           rank input \<noteq> 4 \<or> rank filter \<noteq> 4 \<or> rank bias \<noteq> 1 \<or> rank output \<noteq> 4 \<or>
           ucast (tsize input) \<noteq> ElementCount input \<or>
           ucast (tsize filter) \<noteq> ElementCount filter \<or>
           ucast (tsize bias) \<noteq> ElementCount bias * 4 \<or>
           ucast (tsize output) \<noteq> ElementCount output \<or> dimensions input ! 0 = 0 \<or>
           dimensions output ! 0 \<noteq> dimensions input ! 0 \<or>
           quantization_count d \<noteq> dimensions output ! 3
        then Some False
        else if activation_invalid d then Some False
        else if depthwise then
          (if dimensions filter ! 0 = 1 \<and> dimensions filter ! 3 = dimensions output ! 3
           then (if dimensions input ! 3 = 0 then None
                 else Some (dimensions output ! 3 mod dimensions input ! 3 = 0))
           else Some False)
        else Some (dimensions filter ! 0 = dimensions output ! 3 \<and>
                   dimensions filter ! 3 = dimensions input ! 3))"

text \<open>
  \<open>(lhs[i] - lhs_zero_point) * (rhs[j] - rhs_zero_point)\<close> in \<open>int32_t\<close> arithmetic.
\<close>

definition zp_product :: "bytes \<Rightarrow> nat \<Rightarrow> int \<Rightarrow> nat \<Rightarrow> int \<Rightarrow> int option" where
  "zp_product m i zi j zj =
     do { a \<leftarrow> load_s8 m i; x \<leftarrow> s32 (a - zi); b \<leftarrow> load_s8 m j; y \<leftarrow> s32 (b - zj); s32 (x * y) }"

text \<open>\<open>std::max(activation_min, std::min(activation_max, x))\<close>, stored as a byte.\<close>

definition clamp_byte :: "coral_operator_descriptor \<Rightarrow> int \<Rightarrow> u8" where
  "clamp_byte d x = word_of_int (max (activation_min d) (min (activation_max d) x))"

section \<open>Convolution\<close>

text \<open>The loop over the shifts that returns false on the first one out of range.\<close>

primrec shifts_valid :: "bytes \<Rightarrow> int \<Rightarrow> u32 list \<Rightarrow> bool option" where
  "shifts_valid m shifts [] = Some True"
| "shifts_valid m shifts (i # is) =
     do { s \<leftarrow> load_s32 m (shifts + 4 * uint i);
          if s < - 31 \<or> 30 < s then Some False else shifts_valid m shifts is }"

definition input_coord :: "u32 \<Rightarrow> u32 \<Rightarrow> u32 \<Rightarrow> u32 \<Rightarrow> int" where
  "input_coord out stride tap padding = sint (out * stride + tap - padding)"

definition conv_requantize ::
  "coral_operator_descriptor \<Rightarrow> u32 \<Rightarrow> bytes \<Rightarrow> u32 \<Rightarrow> int \<Rightarrow> u8 option" where
  "conv_requantize d extmem_base m out_c accumulator =
     do {
       let bounded_accumulator = max INT32_MIN (min INT32_MAX accumulator);
       multiplier \<leftarrow> load_s32 m (quant_ptr extmem_base (multiplier_address d) + 4 * uint out_c);
       shift \<leftarrow> load_s32 m (quant_ptr extmem_base (shift_address d) + 4 * uint out_c);
       scaled \<leftarrow> MultiplyByQuantizedMultiplier bounded_accumulator multiplier shift;
       scaled \<leftarrow> s32 (scaled + output_zero_point d);
       Some (clamp_byte d scaled) }"

definition conv_accumulate ::
  "coral_operator_descriptor \<Rightarrow> u32 \<Rightarrow> bytes \<Rightarrow> u32 \<Rightarrow> u32 \<Rightarrow> u32 \<Rightarrow> u32 \<Rightarrow> int option" where
  "conv_accumulate d extmem_base m batch out_y out_x out_c =
     (let input = tensors d ! 0; filter = tensors d ! 1; bias = tensors d ! 2;
          input_h = dimensions input ! 1; input_w = dimensions input ! 2;
          input_c = dimensions input ! 3;
          filter_h = dimensions filter ! 1; filter_w = dimensions filter ! 2
      in do {
        accumulator \<leftarrow> load_s32 m (int (TensorData extmem_base bias) + 4 * uint out_c);
        loop (\<lambda>filter_y accumulator.
          let in_y = input_coord out_y (stride_height d) filter_y (padding_height d) in
          if in_y < 0 \<or> sint input_h \<le> in_y then Some accumulator
          else loop (\<lambda>filter_x accumulator.
            let in_x = input_coord out_x (stride_width d) filter_x (padding_width d) in
            if in_x < 0 \<or> sint input_w \<le> in_x then Some accumulator
            else loop (\<lambda>in_c accumulator.
              let input_index =
                    ((batch * input_h + word_of_int in_y) * input_w + word_of_int in_x) * input_c + in_c;
                  filter_index =
                    ((out_c * filter_h + filter_y) * filter_w + filter_x) * input_c + in_c
              in do {
                p \<leftarrow> zp_product m (TensorData extmem_base input + unat input_index) (zero_point input)
                  (TensorData extmem_base filter + unat filter_index) (zero_point filter);
                s64 (accumulator + p) })
              (u32_range input_c) accumulator)
            (u32_range filter_w) accumulator)
          (u32_range filter_h) accumulator })"

definition RunGem5HybridConv2D ::
  "coral_operator_descriptor \<Rightarrow> bytes \<Rightarrow> u32 \<Rightarrow> u64 \<Rightarrow> kernel_result" where
  "RunGem5HybridConv2D d m extmem_base elapsed =
     do {
       valid \<leftarrow> CommonConvValid d False;
       if \<not> valid then Some (False, d, m)
       else
         let input = tensors d ! 0; filter = tensors d ! 1; bias = tensors d ! 2; output = tensors d ! 3;
             batches = dimensions input ! 0;
             output_h = dimensions output ! 1; output_w = dimensions output ! 2;
             output_c = dimensions output ! 3
         in do {
           shifts_ok \<leftarrow> shifts_valid m (quant_ptr extmem_base (shift_address d)) (u32_range output_c);
           if \<not> shifts_ok then Some (False, d, m)
           else do {
             m' \<leftarrow> loop (\<lambda>batch. loop (\<lambda>out_y. loop (\<lambda>out_x. loop (\<lambda>out_c m.
                 let output_index =
                   ((batch * output_h + out_y) * output_w + out_x) * output_c + out_c
                 in do {
                   accumulator \<leftarrow> conv_accumulate d extmem_base m batch out_y out_x out_c;
                   b \<leftarrow> conv_requantize d extmem_base m out_c accumulator;
                   store8 m (TensorData extmem_base output + unat output_index) b })
               (u32_range output_c)) (u32_range output_w)) (u32_range output_h)) (u32_range batches) m;
             Some (True, d\<lparr>
               operation_count := ucast batches * ucast output_h * ucast output_w * ucast output_c *
                 ucast (dimensions filter ! 1) * ucast (dimensions filter ! 2) *
                 ucast (dimensions input ! 3),
               bytes_read := ucast (tsize input + tsize filter + tsize bias) +
                 2 * ucast (quantization_count d) * 4,
               bytes_written := ucast (tsize output),
               host_elapsed_ns := elapsed \<rparr>, m') } } }"

definition depthwise_accumulate ::
  "coral_operator_descriptor \<Rightarrow> u32 \<Rightarrow> bytes \<Rightarrow> u32 \<Rightarrow> u32 \<Rightarrow> u32 \<Rightarrow> u32 \<Rightarrow> int option" where
  "depthwise_accumulate d extmem_base m batch out_y out_x out_c =
     (let input = tensors d ! 0; filter = tensors d ! 1; bias = tensors d ! 2; output = tensors d ! 3;
          input_h = dimensions input ! 1; input_w = dimensions input ! 2;
          input_c = dimensions input ! 3; output_c = dimensions output ! 3;
          filter_h = dimensions filter ! 1; filter_w = dimensions filter ! 2;
          depth_multiplier = output_c div input_c
      in if input_c = 0 \<or> depth_multiplier = 0 then None
      else do {
        let in_c = out_c div depth_multiplier;
        accumulator \<leftarrow> load_s32 m (int (TensorData extmem_base bias) + 4 * uint out_c);
        loop (\<lambda>filter_y accumulator.
          let in_y = input_coord out_y (stride_height d) filter_y (padding_height d) in
          if in_y < 0 \<or> sint input_h \<le> in_y then Some accumulator
          else loop (\<lambda>filter_x accumulator.
            let in_x = input_coord out_x (stride_width d) filter_x (padding_width d) in
            if in_x < 0 \<or> sint input_w \<le> in_x then Some accumulator
            else
              let input_index =
                    ((batch * input_h + word_of_int in_y) * input_w + word_of_int in_x) * input_c + in_c;
                  filter_index = (filter_y * filter_w + filter_x) * output_c + out_c
              in do {
                p \<leftarrow> zp_product m (TensorData extmem_base input + unat input_index) (zero_point input)
                  (TensorData extmem_base filter + unat filter_index) (zero_point filter);
                s64 (accumulator + p) })
            (u32_range filter_w) accumulator)
          (u32_range filter_h) accumulator })"

definition RunGem5HybridDepthwiseConv2D ::
  "coral_operator_descriptor \<Rightarrow> bytes \<Rightarrow> u32 \<Rightarrow> u64 \<Rightarrow> kernel_result" where
  "RunGem5HybridDepthwiseConv2D d m extmem_base elapsed =
     do {
       valid \<leftarrow> CommonConvValid d True;
       if \<not> valid then Some (False, d, m)
       else
         let input = tensors d ! 0; filter = tensors d ! 1; bias = tensors d ! 2; output = tensors d ! 3;
             batches = dimensions input ! 0;
             output_h = dimensions output ! 1; output_w = dimensions output ! 2;
             output_c = dimensions output ! 3
         in do {
           shifts_ok \<leftarrow> shifts_valid m (quant_ptr extmem_base (shift_address d)) (u32_range output_c);
           if \<not> shifts_ok then Some (False, d, m)
           else do {
             m' \<leftarrow> loop (\<lambda>batch. loop (\<lambda>out_y. loop (\<lambda>out_x. loop (\<lambda>out_c m.
                 let output_index =
                   ((batch * output_h + out_y) * output_w + out_x) * output_c + out_c
                 in do {
                   accumulator \<leftarrow> depthwise_accumulate d extmem_base m batch out_y out_x out_c;
                   b \<leftarrow> conv_requantize d extmem_base m out_c accumulator;
                   store8 m (TensorData extmem_base output + unat output_index) b })
               (u32_range output_c)) (u32_range output_w)) (u32_range output_h)) (u32_range batches) m;
             Some (True, d\<lparr>
               operation_count := ucast batches * ucast output_h * ucast output_w * ucast output_c *
                 ucast (dimensions filter ! 1) * ucast (dimensions filter ! 2),
               bytes_read := ucast (tsize input + tsize filter + tsize bias) +
                 2 * ucast (quantization_count d) * 4,
               bytes_written := ucast (tsize output),
               host_elapsed_ns := elapsed \<rparr>, m') } } }"

section \<open>Matrix product, fully connected layer, addition\<close>

definition RunGem5HybridMatMulInt8 ::
  "coral_operator_descriptor \<Rightarrow> bytes \<Rightarrow> u32 \<Rightarrow> u64 \<Rightarrow> kernel_result" where
  "RunGem5HybridMatMulInt8 d m extmem_base elapsed =
     (let lhs = tensors d ! 0; rhs = tensors d ! 1; output = tensors d ! 2 in
      if tensor_count d \<noteq> 3 \<or>
         element_type lhs \<noteq> CORAL_OPERATOR_ELEMENT_INT8 \<or>
         element_type rhs \<noteq> CORAL_OPERATOR_ELEMENT_INT8 \<or>
         element_type output \<noteq> CORAL_OPERATOR_ELEMENT_INT8 \<or>
         rank lhs \<noteq> 2 \<or> rank rhs \<noteq> 2 \<or> rank output \<noteq> 2 \<or>
         \<not> TensorBytesMatch lhs 1 \<or> \<not> TensorBytesMatch rhs 1 \<or> \<not> TensorBytesMatch output 1
      then Some (False, d, m)
      else
        let rows = dimensions lhs ! 0; k = dimensions lhs ! 1; n = dimensions rhs ! 1 in
        if dimensions rhs ! 0 \<noteq> k \<or> dimensions output ! 0 \<noteq> rows \<or> dimensions output ! 1 \<noteq> n \<or>
           activation_invalid d
        then Some (False, d, m)
        else do {
          m' \<leftarrow> loop (\<lambda>row. loop (\<lambda>col m. do {
              accumulator \<leftarrow> loop (\<lambda>inner accumulator. do {
                  p \<leftarrow> zp_product m (TensorData extmem_base lhs + unat (row * k + inner)) (zero_point lhs)
                    (TensorData extmem_base rhs + unat (inner * n + col)) (zero_point rhs);
                  s32 (accumulator + p) }) (u32_range k) 0;
              accumulator \<leftarrow> s32 (accumulator + output_zero_point d);
              store8 m (TensorData extmem_base output + unat (row * n + col)) (clamp_byte d accumulator) })
            (u32_range n)) (u32_range rows) m;
          Some (True, d\<lparr>
            operation_count := ucast rows * ucast n * ucast k,
            bytes_read := ucast (tsize lhs + tsize rhs),
            bytes_written := ucast (tsize output),
            host_elapsed_ns := elapsed \<rparr>, m') })"

definition RunGem5HybridFullyConnectedInt8 ::
  "coral_operator_descriptor \<Rightarrow> bytes \<Rightarrow> u32 \<Rightarrow> u64 \<Rightarrow> kernel_result" where
  "RunGem5HybridFullyConnectedInt8 d m extmem_base elapsed =
     (if tensor_count d < 3 \<or> 4 < tensor_count d then Some (False, d, m)
      else
        let input = tensors d ! 0; weights = tensors d ! 1; bias = tensors d ! 2;
            output = tensors d ! unat (tensor_count d - 1);
            has_bias = (tensor_count d = 4)
        in
        if element_type input \<noteq> CORAL_OPERATOR_ELEMENT_INT8 \<or>
           element_type weights \<noteq> CORAL_OPERATOR_ELEMENT_INT8 \<or>
           element_type output \<noteq> CORAL_OPERATOR_ELEMENT_INT8 \<or>
           rank input \<noteq> 2 \<or> rank weights \<noteq> 2 \<or> rank output \<noteq> 2 \<or>
           \<not> TensorBytesMatch input 1 \<or> \<not> TensorBytesMatch weights 1 \<or> \<not> TensorBytesMatch output 1
        then Some (False, d, m)
        else if has_bias \<and>
           (element_type bias \<noteq> CORAL_OPERATOR_ELEMENT_INT32 \<or> rank bias \<noteq> 1 \<or>
            \<not> TensorBytesMatch bias 4)
        then Some (False, d, m)
        else
          let batches = dimensions input ! 0; input_depth = dimensions input ! 1;
              output_depth = dimensions weights ! 0 in
          if dimensions weights ! 1 \<noteq> input_depth \<or> dimensions output ! 0 \<noteq> batches \<or>
             dimensions output ! 1 \<noteq> output_depth \<or> activation_invalid d \<or>
             (has_bias \<and> dimensions bias ! 0 \<noteq> output_depth)
          then Some (False, d, m)
          else do {
            m' \<leftarrow> loop (\<lambda>batch. loop (\<lambda>out m. do {
                accumulator \<leftarrow> (if has_bias then load_s32 m (int (TensorData extmem_base bias) + 4 * uint out)
                                else Some 0);
                accumulator \<leftarrow> loop (\<lambda>inn accumulator. do {
                    p \<leftarrow> zp_product m
                      (TensorData extmem_base input + unat (batch * input_depth + inn)) (zero_point input)
                      (TensorData extmem_base weights + unat (out * input_depth + inn)) (zero_point weights);
                    s32 (accumulator + p) }) (u32_range input_depth) accumulator;
                accumulator \<leftarrow> s32 (accumulator + output_zero_point d);
                store8 m (TensorData extmem_base output + unat (batch * output_depth + out))
                  (clamp_byte d accumulator) })
              (u32_range output_depth)) (u32_range batches) m;
            Some (True, d\<lparr>
              operation_count := ucast batches * ucast output_depth * ucast input_depth,
              bytes_read := ucast (tsize input + tsize weights + (if has_bias then tsize bias else 0)),
              bytes_written := ucast (tsize output),
              host_elapsed_ns := elapsed \<rparr>, m') })"

definition RunGem5HybridAddInt8 ::
  "coral_operator_descriptor \<Rightarrow> bytes \<Rightarrow> u32 \<Rightarrow> u64 \<Rightarrow> kernel_result" where
  "RunGem5HybridAddInt8 d m extmem_base elapsed =
     (let lhs = tensors d ! 0; rhs = tensors d ! 1; output = tensors d ! 2 in
      if tensor_count d \<noteq> 3 \<or>
         element_type lhs \<noteq> CORAL_OPERATOR_ELEMENT_INT8 \<or>
         element_type rhs \<noteq> CORAL_OPERATOR_ELEMENT_INT8 \<or>
         element_type output \<noteq> CORAL_OPERATOR_ELEMENT_INT8
      then Some (False, d, m)
      else do {
        same_rhs \<leftarrow> SameShape lhs rhs;
        same_out \<leftarrow> (if same_rhs then SameShape lhs output else Some False);
        if \<not> same_rhs \<or> \<not> same_out \<or>
           \<not> TensorBytesMatch lhs 1 \<or> \<not> TensorBytesMatch rhs 1 \<or> \<not> TensorBytesMatch output 1 \<or>
           activation_invalid d
        then Some (False, d, m)
        else do {
          let count = ElementCount output;
          m' \<leftarrow> loop (\<lambda>i m. do {
              a \<leftarrow> load_s8 m (TensorData extmem_base lhs + i);
              x \<leftarrow> s32 (a - zero_point lhs);
              b \<leftarrow> load_s8 m (TensorData extmem_base rhs + i);
              y \<leftarrow> s32 (b - zero_point rhs);
              xy \<leftarrow> s32 (x + y);
              v \<leftarrow> s32 (xy + output_zero_point d);
              store8 m (TensorData extmem_base output + i) (clamp_byte d v) }) [0..<unat count] m;
          Some (True, d\<lparr>
            operation_count := count,
            bytes_read := ucast (tsize lhs + tsize rhs),
            bytes_written := ucast (tsize output),
            host_elapsed_ns := elapsed \<rparr>, m') } })"

end
