(* ===== verification/Hybrid_Kernel_Lemmas.thy ===== *)
theory Hybrid_Kernel_Lemmas
  imports Hybrid_Kernels
begin

text \<open>
  Facts the proofs about the hybrid kernels share: what \<open>ElementCount\<close> computes, the counters
  of the kernels' loops, row-major indices in 32-bit arithmetic, reads of tensors that a
  kernel does not write, and loops that only write the output tensor.
\<close>

section \<open>Element counts\<close>

lemma ElementCount_loop_nonzero:
  "ElementCount_loop dims count \<noteq> 0 \<Longrightarrow>
    unat (ElementCount_loop dims count) = unat count * prod_list (map unat dims) \<and> 0 \<notin> set dims"
proof (induction dims arbitrary: count)
  case Nil
  then show ?case by simp
next
  case (Cons dim dims)
  from Cons.prems have nz: "dim \<noteq> 0" and le: "count \<le> (- 1) div ucast dim"
    and rest: "ElementCount_loop dims (count * ucast dim) \<noteq> 0"
    by (auto split: if_splits)
  have m1: "unat (- 1 :: u64) = 2 ^ 64 - 1" by (simp add: unsigned_minus_1_eq_mask mask_eq_exp_minus_1)
  have "unat count \<le> (2 ^ 64 - 1) div unat dim"
    using le by (simp add: word_le_nat_alt unat_div_distrib m1)
  then have "unat count * unat dim \<le> (2 ^ 64 - 1) div unat dim * unat dim" by (rule mult_le_mono1)
  also have "\<dots> \<le> 2 ^ 64 - 1" by (rule div_times_less_eq_dividend)
  finally have "unat (count * ucast dim) = unat count * unat dim"
    by (subst unat_mult_nowrap) simp_all
  moreover have "\<not> (- 1) div ucast dim < count" using le by simp
  ultimately show ?case using Cons.IH [OF rest] nz by (simp add: mult.assoc)
qed

lemma ElementCount_nonzero:
  assumes "ElementCount t \<noteq> 0"
  shows "unat (ElementCount t) = prod_list (map unat (take (unat (rank t)) (dimensions t)))"
    and "\<And>x. x \<in> set (take (unat (rank t)) (dimensions t)) \<Longrightarrow> x \<noteq> 0"
  using ElementCount_loop_nonzero [of "take (unat (rank t)) (dimensions t)" 1] assms
  by (auto simp: ElementCount_def split: if_splits)

lemma TensorBytesMatch_bytes:
  assumes "TensorBytesMatch t 1"
  shows "unat (tsize t) = prod_list (map unat (take (unat (rank t)) (dimensions t)))"
proof -
  have "ElementCount t \<noteq> 0" "ucast (tsize t) = ElementCount t"
    using assms by (simp_all add: TensorBytesMatch_def)
  then show ?thesis using ElementCount_nonzero(1) [of t] unat_ucast_u32_u64 [of "tsize t"] by simp
qed

lemma TensorBytesMatch_words:
  assumes "TensorBytesMatch t 4"
  shows "unat (tsize t) = 4 * prod_list (map unat (take (unat (rank t)) (dimensions t)))"
proof -
  have nz: "ElementCount t \<noteq> 0" and eq: "ucast (tsize t) = ElementCount t * 4"
    and le: "ElementCount t \<le> 0x3fffffff"
    using assms by (simp_all add: TensorBytesMatch_def)
  have "unat (ElementCount t) \<le> unat (0x3fffffff :: u64)" using le by (simp only: word_le_nat_alt)
  then have "unat (ElementCount t * 4) = unat (ElementCount t) * 4"
    by (subst unat_mult_nowrap) simp_all
  then show ?thesis
    using eq ElementCount_nonzero(1) [OF nz] unat_ucast_u32_u64 [of "tsize t"] by simp
qed

section \<open>Loop counters\<close>

lemma set_u32_range [simp]: "set (u32_range n) = {i. i < n}"
proof (rule set_eqI)
  fix w :: u32
  have "w < n \<Longrightarrow> w = of_nat (unat w) \<and> unat w < unat n"
    by (simp add: word_less_nat_alt)
  moreover have "i < unat n \<Longrightarrow> (of_nat i :: u32) < n" for i
    using u32_lt [of n] by (simp add: word_less_nat_alt unat_of_nat_nowrap)
  ultimately show "w \<in> set (u32_range n) \<longleftrightarrow> w \<in> {i. i < n}"
    by (force simp: u32_range_def)
qed

lemma distinct_u32_range [simp]: "distinct (u32_range n)"
  unfolding u32_range_def distinct_map
proof (intro conjI inj_onI)
  fix x y assume "x \<in> set [0..<unat n]" "y \<in> set [0..<unat n]" "(of_nat x :: u32) = of_nat y"
  then have "unat (of_nat x :: u32) = unat (of_nat y :: u32)" "x < 2 ^ 32" "y < 2 ^ 32"
    using u32_lt [of n] by auto
  then show "x = y" by (simp add: unat_of_nat_nowrap)
qed simp

lemma length_u32_range [simp]: "length (u32_range n) = unat n"
  by (simp add: u32_range_def)

lemma sum_u32_range:
  fixes t :: "u32 \<Rightarrow> int"
  shows "(\<Sum>i\<leftarrow>u32_range n. t i) = (\<Sum>i < unat n. t (of_nat i))"
  by (simp add: u32_range_def comp_def interv_sum_list_conv_sum_set_nat atLeast0LessThan)

section \<open>Row-major indices\<close>

lemma radix_lt:
  fixes a b A B :: nat
  assumes "a < A" "b < B"
  shows "a * B + b < A * B"
proof -
  have "a * B + b < (a + 1) * B" using assms(2) by simp
  also have "\<dots> \<le> A * B" using assms(1) by (intro mult_le_mono1) simp
  finally show ?thesis .
qed

lemma radix_inj:
  fixes a a' b b' B :: nat
  assumes "b < B" "b' < B" "a * B + b = a' * B + b'"
  shows "a = a' \<and> b = b'"
proof -
  have "(a * B + b) div B = a" "(a * B + b) mod B = b" "(a' * B + b') div B = a'" "(a' * B + b') mod B = b'"
    using assms(1,2) by auto
  then show ?thesis using assms(3) by metis
qed

lemma radix_word:
  fixes a b B :: u32
  assumes "unat a < A" "b < B" "A * unat B < 2 ^ 32"
  shows "unat (a * B + b) = unat a * unat B + unat b"
proof -
  have l: "unat a * unat B + unat b < A * unat B"
    using assms by (intro radix_lt) (simp_all add: word_less_nat_alt)
  then have "unat (a * B) = unat a * unat B" using assms(3) by (intro unat_mult_nowrap) simp
  then show ?thesis using l assms(3) by (subst unat_add_nowrap) simp_all
qed

lemma radix2_word:
  fixes a b A B :: u32
  assumes "a < A" "b < B" "unat A * unat B < 2 ^ 32"
  shows "unat (a * B + b) = unat a * unat B + unat b" "unat (a * B + b) < unat A * unat B"
proof -
  show e: "unat (a * B + b) = unat a * unat B + unat b"
    using assms by (intro radix_word [where A = "unat A"]) (simp_all add: word_less_nat_alt)
  show "unat (a * B + b) < unat A * unat B"
    unfolding e using assms by (intro radix_lt) (simp_all add: word_less_nat_alt)
qed

lemma mult_pos_lt: "a * b < c \<Longrightarrow> 0 < b \<Longrightarrow> a < (c :: nat)"
  using mult_le_mono2 [of 1 b a] by linarith

text \<open>A four-dimensional index, as the convolutions compute it.\<close>

definition index4 :: "nat \<Rightarrow> nat \<Rightarrow> nat \<Rightarrow> nat \<Rightarrow> nat \<Rightarrow> nat \<Rightarrow> nat \<Rightarrow> nat" where
  "index4 H W C b y x c = ((b * H + y) * W + x) * C + c"

lemma index4_lt:
  "b < N \<Longrightarrow> y < H \<Longrightarrow> x < W \<Longrightarrow> c < C \<Longrightarrow> index4 H W C b y x c < N * H * W * C"
  unfolding index4_def by (intro radix_lt)

lemma index4_inj:
  assumes "y < H" "x < W" "c < C" "y' < H" "x' < W" "c' < C"
    and "index4 H W C b y x c = index4 H W C b' y' x' c'"
  shows "b = b' \<and> y = y' \<and> x = x' \<and> c = c'"
proof -
  have 1: "(b * H + y) * W + x = (b' * H + y') * W + x' \<and> c = c'"
    using assms unfolding index4_def by (intro radix_inj [of c C c'])
  then have 2: "b * H + y = b' * H + y' \<and> x = x'" using assms by (intro radix_inj [of x W x']) simp_all
  then have "b = b' \<and> y = y'" using assms by (intro radix_inj [of y H y']) simp_all
  then show ?thesis using 1 2 by simp
qed

lemma index4_word:
  fixes b y x c H W C N :: u32
  assumes "b < N" "y < H" "x < W" "c < C" "unat N * unat H * unat W * unat C < 2 ^ 32"
  shows "unat (((b * H + y) * W + x) * C + c) =
    index4 (unat H) (unat W) (unat C) (unat b) (unat y) (unat x) (unat c)"
proof -
  have pos: "0 < unat W" "0 < unat C" using assms by (auto simp: word_less_nat_alt)
  have w: "unat N * unat H * unat W < 2 ^ 32" using assms(5) pos(2) by (rule mult_pos_lt)
  have h: "unat N * unat H < 2 ^ 32" using w pos(1) by (rule mult_pos_lt)
  have 1: "unat (b * H + y) = unat b * unat H + unat y" "unat (b * H + y) < unat N * unat H"
    using radix2_word [OF assms(1,2) h] by auto
  have 2: "unat ((b * H + y) * W + x) = unat (b * H + y) * unat W + unat x"
    using 1(2) assms(3) w by (rule radix_word)
  have "unat ((b * H + y) * W + x) < unat N * unat H * unat W"
    unfolding 2 using 1(2) assms(3) by (intro radix_lt) (simp_all add: word_less_nat_alt)
  then have "unat (((b * H + y) * W + x) * C + c) = unat ((b * H + y) * W + x) * unat C + unat c"
    using assms(4,5) by (rule radix_word)
  then show ?thesis by (simp add: index4_def 1 2)
qed

section \<open>Reading tensors\<close>

definition apart :: "nat \<Rightarrow> nat \<Rightarrow> nat \<Rightarrow> nat \<Rightarrow> bool" where
  "apart a n b k \<longleftrightarrow> a + n \<le> b \<or> b + k \<le> a"

text \<open>The element of an \<open>int8_t\<close> array, and of an \<open>int32_t\<close> array, at a place in memory.\<close>

definition s8_at :: "bytes \<Rightarrow> nat \<Rightarrow> int" where
  "s8_at m a = sint (m ! a)"

definition s32_at :: "bytes \<Rightarrow> nat \<Rightarrow> int" where
  "s32_at m a = sint (le_word (take 4 (drop a m)) :: u32)"

lemma s8_at_bounds: "- 128 \<le> s8_at m a" "s8_at m a \<le> 127"
  using sint8_bounds [of "m ! a"] by (simp_all add: s8_at_def)

lemma s32_at_range [simp]: "int32_range (s32_at m a)"
  by (simp add: s32_at_def)

lemma load_s8_at:
  "same_outside p k m m' \<Longrightarrow> apart a n p k \<Longrightarrow> i < n \<Longrightarrow> a + n \<le> length m \<Longrightarrow>
    load_s8 m' (a + i) = Some (s8_at m (a + i))"
  by (auto simp: load_s8_def load8_def s8_at_def same_outside_def apart_def)

lemma load_s32_at:
  assumes "same_outside p k m m'" "apart a (4 * n) p k" "i < n" "a + 4 * n \<le> length m"
  shows "load_s32 m' (int a + 4 * int i) = Some (s32_at m (a + 4 * i))"
proof -
  have n: "nat (int a + 4 * int i) = a + 4 * i" by linarith
  have "load32 m' (a + 4 * i) = load32 m (a + 4 * i)"
    using assms by (intro same_outside_load32 [where a = p and n = k]) (auto simp: apart_def)
  moreover have "load32 m (a + 4 * i) = Some (le_word (take 4 (drop (a + 4 * i) m)))"
    using assms(3,4) by (simp add: load32_def load_bytes_def)
  ultimately show ?thesis
    using n by (simp add: load_s32_def s32_at_def)
qed

text \<open>Zero points of 8-bit tensors are 8-bit values; products then fit 32 bits easily.\<close>

definition int8_range :: "int \<Rightarrow> bool" where
  "int8_range x \<longleftrightarrow> - 128 \<le> x \<and> x \<le> 127"

lemma zp_product_bound:
  assumes "int8_range zi" "int8_range zj"
  shows "\<bar>(s8_at m i - zi) * (s8_at m j - zj)\<bar> \<le> 65025"
proof -
  have "\<bar>s8_at m i - zi\<bar> \<le> 255" "\<bar>s8_at m j - zj\<bar> \<le> 255"
    using assms s8_at_bounds [of m i] s8_at_bounds [of m j] by (auto simp: int8_range_def)
  then have "\<bar>s8_at m i - zi\<bar> * \<bar>s8_at m j - zj\<bar> \<le> 255 * 255" by (intro mult_mono) auto
  then show ?thesis by (simp add: abs_mult)
qed

lemma zp_product_value:
  assumes "load_s8 m' i = Some (s8_at m i)" "load_s8 m' j = Some (s8_at m j)"
    and "int8_range zi" "int8_range zj"
  shows "zp_product m' i zi j zj = Some ((s8_at m i - zi) * (s8_at m j - zj))"
proof -
  have "int32_range (s8_at m i - zi)" "int32_range (s8_at m j - zj)"
    using assms(3,4) s8_at_bounds [of m i] s8_at_bounds [of m j]
    by (auto simp: int8_range_def int32_range_def)
  moreover have "int32_range ((s8_at m i - zi) * (s8_at m j - zj))"
    using zp_product_bound [OF assms(3,4), of m i j] by (auto simp: int32_range_def)
  ultimately show ?thesis using assms(1,2) by (simp add: zp_product_def)
qed

lemma clamp_byte_value:
  assumes "\<not> activation_invalid d"
  shows "sint (clamp_byte d x) = max (activation_min d) (min (activation_max d) x)"
  unfolding clamp_byte_def
  using assms by (intro sint_word_of_int8) (auto simp: activation_invalid_def)

section \<open>Loops that write only the output tensor\<close>

lemma same_outside_trans:
  "same_outside a n m1 m2 \<Longrightarrow> same_outside a n m2 m3 \<Longrightarrow> same_outside a n m1 m3"
  by (auto simp: same_outside_def)

lemma store8_same_outside:
  "store8 m (a + k) b = Some m' \<Longrightarrow> k < n \<Longrightarrow> same_outside a n m m'"
  by (auto simp: store8_def same_outside_def split: if_splits)

lemma loop_same_outside [loop_intros]:
  assumes "loop f xs m = Some m'"
    and "\<And>i m m'. i \<in> set xs \<Longrightarrow> f i m = Some m' \<Longrightarrow> same_outside a n m m'"
  shows "same_outside a n m m'"
proof (rule loop_invariant [OF assms(1), of "same_outside a n m"])
  show "same_outside a n m m" by simp
  fix i s s' assume "i \<in> set xs" "same_outside a n m s" "f i s = Some s'"
  then show "same_outside a n m s'" using assms(2) same_outside_trans by blast
qed

text \<open>Nested store loops over a row-major output, two and four deep.\<close>

lemma loop2_store8:
  fixes R C :: u32
  assumes g: "\<And>r c m'. r < R \<Longrightarrow> c < C \<Longrightarrow> same_outside a n m m' \<Longrightarrow> g r c m' = Some (v r c)"
    and n: "n = unat R * unat C" and lt: "n < 2 ^ 32" and room: "a + n \<le> length m"
  shows "\<exists>m'. loop (\<lambda>r. loop (\<lambda>c m. do { b \<leftarrow> g r c m; store8 m (a + unat (r * C + c)) b })
      (u32_range C)) (u32_range R) m = Some m' \<and> same_outside a n m m' \<and>
    (\<forall>r < R. \<forall>c < C. m' ! (a + (unat r * unat C + unat c)) = v r c)"
proof -
  let ?ix = "List.product (u32_range R) (u32_range C)"
  let ?k = "\<lambda>p :: u32 \<times> u32. unat (fst p * C + snd p)"
  have k: "?k p = unat (fst p) * unat C + unat (snd p)" "?k p < n" if "p \<in> set ?ix" for p
    using radix2_word [of "fst p" R "snd p" C] that lt n by (auto simp: mem_Times_iff)
  have inj: "inj_on ?k (set ?ix)"
  proof (rule inj_onI)
    fix p q assume a: "p \<in> set ?ix" "q \<in> set ?ix" "?k p = ?k q"
    then have "unat (fst p) = unat (fst q) \<and> unat (snd p) = unat (snd q)"
      using k(1) by (intro radix_inj [of _ "unat C"]) (auto simp: mem_Times_iff word_less_nat_alt)
    then show "p = q" by (simp add: prod_eq_iff word_unat_eq_iff)
  qed
  have "\<exists>m'. loop (\<lambda>p m. do { b \<leftarrow> g (fst p) (snd p) m; store8 m (a + ?k p) b }) ?ix m = Some m' \<and>
      same_outside a n m m' \<and> (\<forall>p \<in> set ?ix. m' ! (a + ?k p) = v (fst p) (snd p)) \<and>
      (\<forall>j < n. j \<notin> ?k ` set ?ix \<longrightarrow> m' ! (a + j) = m ! (a + j))"
    using g k(2) inj room
    by (intro loop_store8) (auto simp: distinct_product mem_Times_iff)
  then obtain m' where m': "loop (\<lambda>p m. do { b \<leftarrow> g (fst p) (snd p) m; store8 m (a + ?k p) b }) ?ix m = Some m'"
    "same_outside a n m m'" and v: "\<forall>p \<in> set ?ix. m' ! (a + ?k p) = v (fst p) (snd p)" by blast
  have "m' ! (a + (unat r * unat C + unat c)) = v r c" if "r < R" "c < C" for r c
    using v k(1) [of "(r, c)"] that by fastforce
  then show ?thesis using m' by (auto simp: loop_nested)
qed

lemma loop4_store8:
  fixes N H W C :: u32
  assumes g: "\<And>b y x c m'. b < N \<Longrightarrow> y < H \<Longrightarrow> x < W \<Longrightarrow> c < C \<Longrightarrow> same_outside a n m m' \<Longrightarrow>
      g b y x c m' = Some (v b y x c)"
    and n: "n = unat N * unat H * unat W * unat C" and lt: "n < 2 ^ 32" and room: "a + n \<le> length m"
  shows "\<exists>m'. loop (\<lambda>b. loop (\<lambda>y. loop (\<lambda>x. loop (\<lambda>c m. do { r \<leftarrow> g b y x c m;
        store8 m (a + unat (((b * H + y) * W + x) * C + c)) r })
      (u32_range C)) (u32_range W)) (u32_range H)) (u32_range N) m = Some m' \<and> same_outside a n m m' \<and>
    (\<forall>b < N. \<forall>y < H. \<forall>x < W. \<forall>c < C.
      m' ! (a + index4 (unat H) (unat W) (unat C) (unat b) (unat y) (unat x) (unat c)) = v b y x c)"
proof -
  let ?ix = "List.product (List.product (List.product (u32_range N) (u32_range H)) (u32_range W)) (u32_range C)"
  let ?b = "\<lambda>p. fst (fst (fst p))" and ?y = "\<lambda>p. snd (fst (fst p))" and ?x = "\<lambda>p. snd (fst p)"
    and ?c = "\<lambda>p :: ((u32 \<times> u32) \<times> u32) \<times> u32. snd p"
  let ?k = "\<lambda>p. unat (((?b p * H + ?y p) * W + ?x p) * C + ?c p)"
  let ?i = "\<lambda>p. index4 (unat H) (unat W) (unat C) (unat (?b p)) (unat (?y p)) (unat (?x p)) (unat (?c p))"
  have k: "?k p = ?i p" if "p \<in> set ?ix" for p
    using that lt n by (intro index4_word) (auto simp: mem_Times_iff)
  have kn: "?k p < n" if "p \<in> set ?ix" for p
    unfolding k [OF that] n using that by (intro index4_lt) (auto simp: mem_Times_iff word_less_nat_alt)
  have inj: "inj_on ?k (set ?ix)"
  proof (rule inj_onI)
    fix p q assume a: "p \<in> set ?ix" "q \<in> set ?ix" "?k p = ?k q"
    then have "?i p = ?i q" using k by metis
    then have "unat (?b p) = unat (?b q) \<and> unat (?y p) = unat (?y q) \<and> unat (?x p) = unat (?x q) \<and>
      unat (?c p) = unat (?c q)"
      using a by (intro index4_inj) (auto simp: mem_Times_iff word_less_nat_alt)
    then show "p = q" by (simp add: prod_eq_iff word_unat_eq_iff)
  qed
  have "\<exists>m'. loop (\<lambda>p m. do { r \<leftarrow> g (?b p) (?y p) (?x p) (?c p) m; store8 m (a + ?k p) r }) ?ix m = Some m' \<and>
      same_outside a n m m' \<and> (\<forall>p \<in> set ?ix. m' ! (a + ?k p) = v (?b p) (?y p) (?x p) (?c p)) \<and>
      (\<forall>j < n. j \<notin> ?k ` set ?ix \<longrightarrow> m' ! (a + j) = m ! (a + j))"
    using g kn inj room
    by (intro loop_store8) (auto simp: distinct_product mem_Times_iff)
  then obtain m' where m': "loop (\<lambda>p m. do { r \<leftarrow> g (?b p) (?y p) (?x p) (?c p) m; store8 m (a + ?k p) r }) ?ix m = Some m'"
    "same_outside a n m m'" and v: "\<forall>p \<in> set ?ix. m' ! (a + ?k p) = v (?b p) (?y p) (?x p) (?c p)" by blast
  have "m' ! (a + index4 (unat H) (unat W) (unat C) (unat b) (unat y) (unat x) (unat c)) = v b y x c"
    if "b < N" "y < H" "x < W" "c < C" for b y x c
    using v k [of "(((b, y), x), c)"] that by fastforce
  then show ?thesis using m' by (auto simp: loop_nested)
qed

section \<open>Work counters\<close>

lemma ucast_u64_of_nat: "(ucast (w :: u32) :: u64) = of_nat (unat w)"
  by simp

lemma unat_sum3: "unat (a + b + c :: u32) = (unat a + unat b + unat c) mod 2 ^ 32"
  by (simp add: unat_word_ariths mod_add_left_eq)

lemma two_arrays: "2 * x * 4 = (8 * x :: u64)"
  by simp

lemmas counter_simps = ucast_u64_of_nat unat_sum3 two_arrays of_nat_mult of_nat_add of_nat_numeral

lemma ucast_sum2: "(ucast (a + b :: u32) :: u64) = of_nat ((unat a + unat b) mod 4294967296)"
  by (simp only: ucast_u64_of_nat unat_word_ariths) simp

lemma ucast_sum3: "(ucast (a + b + c :: u32) :: u64) = of_nat ((unat a + unat b + unat c) mod 4294967296)"
  by (simp only: ucast_u64_of_nat unat_sum3) simp

lemma unat_of_nat_below: "x < unat (w :: u32) \<Longrightarrow> unat (of_nat x :: u32) = x"
  using u32_lt [of w] by (intro unat_of_nat_nowrap) simp

section \<open>Accessors and example data\<close>

text \<open>The \<open>k\<close>-th dimension of the \<open>i\<close>-th tensor.\<close>

definition dim :: "coral_operator_descriptor \<Rightarrow> nat \<Rightarrow> nat \<Rightarrow> nat" where
  "dim d i k = unat (dimensions (tensors d ! i) ! k)"

definition t_off :: "u32 \<Rightarrow> coral_operator_descriptor \<Rightarrow> nat \<Rightarrow> nat" where
  "t_off extmem_base d i = TensorData extmem_base (tensors d ! i)"

definition t_size :: "coral_operator_descriptor \<Rightarrow> nat \<Rightarrow> nat" where
  "t_size d i = unat (tsize (tensors d ! i))"

lemmas conv_accessors = dim_def t_off_def t_size_def

lemma all_less_4: "(\<forall>i < (4::nat). P i) \<longleftrightarrow> P 0 \<and> P 1 \<and> P 2 \<and> P 3"
  by (auto simp: eval_nat_numeral less_Suc_eq)

lemma all_less_3: "(\<forall>i < (3::nat). P i) \<longleftrightarrow> P 0 \<and> P 1 \<and> P 2"
  by (auto simp: eval_nat_numeral less_Suc_eq)


lemma sum_less_2: "(\<Sum>i < (2::nat). f i) = f 0 + f 1"
  by (simp add: eval_nat_numeral)

text \<open>Descriptors for worked examples: external memory starts at \<open>0x20000000\<close>.\<close>

definition example_tensor :: "u32 \<Rightarrow> u32 \<Rightarrow> u32 \<Rightarrow> u32 list \<Rightarrow> u32 \<Rightarrow> coral_operator_tensor" where
  "example_tensor a n r ds et =
     \<lparr> address = a, tsize = n, rank = r, dimensions = ds, element_type = et, zero_point = 0 \<rparr>"

definition example_descriptor :: "u32 \<Rightarrow> coral_operator_tensor list \<Rightarrow> coral_operator_descriptor" where
  "example_descriptor op ts = \<lparr> magic = CORAL_OPERATOR_ABI_MAGIC, version = 4, descriptor_size = 296, opcode = op,
     op_state = 1, op_error = 0, flags = 0, execution_mode = 1, tensor_count = of_nat (length ts),
     tensors = take 4 (ts @ replicate 4 (example_tensor 0 0 0 [0, 0, 0, 0] 0)),
     stride_height = 1, stride_width = 1, padding_height = 0, padding_width = 0,
     multiplier_address = 0x2000000c, shift_address = 0x20000010,
     output_zero_point = 1, activation_min = - 128, activation_max = 127, quantization_count = 1,
     operation_count = 0, host_elapsed_ns = 0, modeled_cycles = 0, bytes_read = 0, bytes_written = 0,
     reserved = replicate 8 0 \<rparr>"

end
