(* ===== verification/Hybrid_Conv.thy ===== *)
theory Hybrid_Conv
  imports Hybrid_Kernel_Lemmas
begin

text \<open>
  Correctness of the two convolution kernels against the mathematical definition of a strided,
  padded convolution over 8-bit tensors with zero points, followed by the per-channel
  requantization, the output zero point and the activation clamp.
\<close>

section \<open>Reference definitions\<close>

text \<open>The input coordinate a filter tap reads, over the integers.\<close>

definition tap_coord :: "nat \<Rightarrow> nat \<Rightarrow> nat \<Rightarrow> nat \<Rightarrow> int" where
  "tap_coord out stride tap padding = int out * int stride + int tap - int padding"

definition in_window :: "coral_operator_descriptor \<Rightarrow> int \<Rightarrow> int \<Rightarrow> bool" where
  "in_window d iy ix \<longleftrightarrow> 0 \<le> iy \<and> iy < int (dim d 0 1) \<and> 0 \<le> ix \<and> ix < int (dim d 0 2)"

text \<open>The sum over all filter taps that fall inside the input, of a given tap's value.\<close>

definition window_sum ::
  "coral_operator_descriptor \<Rightarrow> nat \<Rightarrow> nat \<Rightarrow> (nat \<Rightarrow> nat \<Rightarrow> nat \<Rightarrow> nat \<Rightarrow> int) \<Rightarrow> int" where
  "window_sum d oy ox tap =
     (\<Sum>fy < dim d 1 1. \<Sum>fx < dim d 1 2.
        let iy = tap_coord oy (unat (stride_height d)) fy (unat (padding_height d));
            ix = tap_coord ox (unat (stride_width d)) fx (unat (padding_width d))
        in if in_window d iy ix then tap fy fx (nat iy) (nat ix) else 0)"

text \<open>The zero-point corrected input and filter values.\<close>

definition in_value :: "coral_operator_descriptor \<Rightarrow> u32 \<Rightarrow> bytes \<Rightarrow> nat \<Rightarrow> nat \<Rightarrow> nat \<Rightarrow> nat \<Rightarrow> int" where
  "in_value d extmem_base m b y x c =
     s8_at m (t_off extmem_base d 0 + index4 (dim d 0 1) (dim d 0 2) (dim d 0 3) b y x c)
     - zero_point (tensors d ! 0)"

definition filter_value :: "coral_operator_descriptor \<Rightarrow> u32 \<Rightarrow> bytes \<Rightarrow> nat \<Rightarrow> nat \<Rightarrow> nat \<Rightarrow> nat \<Rightarrow> int" where
  "filter_value d extmem_base m o' y x c =
     s8_at m (t_off extmem_base d 1 + index4 (dim d 1 1) (dim d 1 2) (dim d 1 3) o' y x c)
     - zero_point (tensors d ! 1)"

definition conv2d_ref ::
  "coral_operator_descriptor \<Rightarrow> u32 \<Rightarrow> bytes \<Rightarrow> nat \<Rightarrow> nat \<Rightarrow> nat \<Rightarrow> nat \<Rightarrow> int" where
  "conv2d_ref d extmem_base m b oy ox oc =
     s32_at m (t_off extmem_base d 2 + 4 * oc) +
     window_sum d oy ox (\<lambda>fy fx iy ix. \<Sum>ic < dim d 0 3.
       in_value d extmem_base m b iy ix ic * filter_value d extmem_base m oc fy fx ic)"

text \<open>Depthwise: one input channel per output channel, the filter has a single batch.\<close>

definition depthwise_ref ::
  "coral_operator_descriptor \<Rightarrow> u32 \<Rightarrow> bytes \<Rightarrow> nat \<Rightarrow> nat \<Rightarrow> nat \<Rightarrow> nat \<Rightarrow> int" where
  "depthwise_ref d extmem_base m b oy ox oc =
     s32_at m (t_off extmem_base d 2 + 4 * oc) +
     window_sum d oy ox (\<lambda>fy fx iy ix.
       in_value d extmem_base m b iy ix (oc div (dim d 3 3 div dim d 0 3)) *
       filter_value d extmem_base m 0 fy fx oc)"

text \<open>Per-channel multiplier and shift, and the value before the activation clamp.\<close>

definition q_off :: "u32 \<Rightarrow> u32 \<Rightarrow> nat" where
  "q_off extmem_base a = nat (quant_ptr extmem_base a)"

definition multiplier_at :: "coral_operator_descriptor \<Rightarrow> u32 \<Rightarrow> bytes \<Rightarrow> nat \<Rightarrow> int" where
  "multiplier_at d extmem_base m oc = s32_at m (q_off extmem_base (multiplier_address d) + 4 * oc)"

definition shift_at :: "coral_operator_descriptor \<Rightarrow> u32 \<Rightarrow> bytes \<Rightarrow> nat \<Rightarrow> int" where
  "shift_at d extmem_base m oc = s32_at m (q_off extmem_base (shift_address d) + 4 * oc)"

definition scaled_ref :: "coral_operator_descriptor \<Rightarrow> u32 \<Rightarrow> bytes \<Rightarrow> nat \<Rightarrow> int \<Rightarrow> int" where
  "scaled_ref d extmem_base m oc acc =
     requantize (sat32 acc) (multiplier_at d extmem_base m oc) (shift_at d extmem_base m oc) +
     output_zero_point d"

section \<open>When the kernels are used as intended\<close>

text \<open>
  Every tensor and both quantization arrays lie inside external memory and apart from the
  output tensor; external memory is below 2 GiB. The bias has one entry per output channel,
  which the kernels do not check.
\<close>

definition conv_memory_ok :: "coral_operator_descriptor \<Rightarrow> u32 \<Rightarrow> bytes \<Rightarrow> bool" where
  "conv_memory_ok d extmem_base m \<longleftrightarrow>
     descriptor_wf d \<and> length m < 2 ^ 31 \<and>
     (\<forall>i < 4. t_size d i \<noteq> 0 \<and> t_off extmem_base d i + t_size d i \<le> length m) \<and>
     (\<forall>i < 3. apart (t_off extmem_base d i) (t_size d i) (t_off extmem_base d 3) (t_size d 3)) \<and>
     (\<forall>a \<in> {multiplier_address d, shift_address d}.
        extmem_base \<le> a \<and> q_off extmem_base a + 4 * unat (quantization_count d) \<le> length m \<and>
        apart (q_off extmem_base a) (4 * unat (quantization_count d))
          (t_off extmem_base d 3) (t_size d 3)) \<and>
     dim d 2 0 = dim d 3 3"

text \<open>The tap coordinates fit 32-bit integers, and the zero points are 8-bit values.\<close>

definition conv_geometry_ok :: "coral_operator_descriptor \<Rightarrow> bool" where
  "conv_geometry_ok d \<longleftrightarrow>
     dim d 3 1 * unat (stride_height d) + dim d 1 1 \<le> 2 ^ 31 \<and> unat (padding_height d) \<le> 2 ^ 31 \<and>
     dim d 3 2 * unat (stride_width d) + dim d 1 2 \<le> 2 ^ 31 \<and> unat (padding_width d) \<le> 2 ^ 31 \<and>
     int8_range (zero_point (tensors d ! 0)) \<and> int8_range (zero_point (tensors d ! 1))"

text \<open>Every shift is admitted and adding the output zero point does not overflow.\<close>

definition conv_scaling_ok ::
  "coral_operator_descriptor \<Rightarrow> u32 \<Rightarrow> bytes \<Rightarrow> (nat \<Rightarrow> nat \<Rightarrow> nat \<Rightarrow> nat \<Rightarrow> int) \<Rightarrow> bool" where
  "conv_scaling_ok d extmem_base m ref \<longleftrightarrow>
     (\<forall>oc < dim d 3 3. - 31 \<le> shift_at d extmem_base m oc \<and> shift_at d extmem_base m oc \<le> 30) \<and>
     (\<forall>b < dim d 0 0. \<forall>oy < dim d 3 1. \<forall>ox < dim d 3 2. \<forall>oc < dim d 3 3.
        int32_range (scaled_ref d extmem_base m oc (ref b oy ox oc)))"

section \<open>The accumulation loops\<close>

lemma window_loop:
  fixes t :: "u32 \<Rightarrow> u32 \<Rightarrow> int"
  assumes body: "\<And>fy fx a. fy < fh \<Longrightarrow> fx < fw \<Longrightarrow> \<not> skip_y fy \<Longrightarrow> \<not> skip_x fx \<Longrightarrow> \<bar>a\<bar> + c \<le> B \<Longrightarrow>
      body fy fx a = Some (a + t fy fx)"
    and bound: "\<And>fy fx. fy < fh \<Longrightarrow> fx < fw \<Longrightarrow> \<not> skip_y fy \<Longrightarrow> \<not> skip_x fx \<Longrightarrow> \<bar>t fy fx\<bar> \<le> c"
    and c: "0 \<le> c"
    and room: "\<bar>a\<bar> + c * int (unat fw) * int (unat fh) \<le> B"
  shows "loop (\<lambda>fy a. if skip_y fy then Some a
      else loop (\<lambda>fx a. if skip_x fx then Some a else body fy fx a) (u32_range fw) a) (u32_range fh) a
    = Some (a + (\<Sum>fy < unat fh. \<Sum>fx < unat fw.
        if skip_y (of_nat fy) \<or> skip_x (of_nat fx) then 0 else t (of_nat fy) (of_nat fx)))"
proof -
  let ?t = "\<lambda>fy fx. if skip_y fy \<or> skip_x fx then 0 else t fy fx"
  let ?row = "\<lambda>fy. \<Sum>fx\<leftarrow>u32_range fw. ?t fy fx"
  have tb: "\<bar>?t fy fx\<bar> \<le> c" if "fy < fh" "fx < fw" for fy fx
    using bound [OF that] c by auto
  have row: "loop (\<lambda>fx a. if skip_x fx then Some a else body fy fx a) (u32_range fw) a = Some (a + ?row fy)"
    if "fy < fh" "\<not> skip_y fy" "\<bar>a\<bar> + c * int (unat fw) \<le> B" for fy a
    using that bound body c by (intro loop_sum [where c = c and B = B]) auto
  have "loop (\<lambda>fy a. if skip_y fy then Some a
      else loop (\<lambda>fx a. if skip_x fx then Some a else body fy fx a) (u32_range fw) a) (u32_range fh) a
    = Some (a + (\<Sum>fy\<leftarrow>u32_range fh. ?row fy))"
  proof (rule loop_sum [where c = "c * int (unat fw)" and B = B])
    fix fy a assume "fy \<in> set (u32_range fh)" "\<bar>a\<bar> + c * int (unat fw) \<le> B"
    then show "(if skip_y fy then Some a
      else loop (\<lambda>fx a. if skip_x fx then Some a else body fy fx a) (u32_range fw) a) = Some (a + ?row fy)"
      using row by auto
  next
    fix fy assume "fy \<in> set (u32_range fh)"
    then show "\<bar>?row fy\<bar> \<le> c * int (unat fw)"
      using abs_sum_list_le [of "u32_range fw" "?t fy" c] tb by auto
  qed (use room c in auto)
  then show ?thesis by (simp add: sum_u32_range)
qed

lemma input_coord_exact:
  assumes "out < OUT" "unat OUT * unat stride + unat T \<le> 2 ^ 31" "tap < T" "unat padding \<le> 2 ^ 31"
  shows "input_coord out stride tap padding =
    tap_coord (unat out) (unat stride) (unat tap) (unat padding)"
proof -
  let ?x = "tap_coord (unat out) (unat stride) (unat tap) (unat padding)"
  have w: "out * stride + tap - padding = word_of_int ?x"
    by (simp add: tap_coord_def)
  define n p where "n = unat out * unat stride + unat tap" and "p = unat padding"
  have "unat out * unat stride \<le> unat OUT * unat stride"
    using assms(1) by (intro mult_le_mono1) (simp add: word_less_nat_alt)
  moreover have "unat tap < unat T" using assms(3) by (simp add: word_less_nat_alt)
  ultimately have n: "n < 2 ^ 31" "p \<le> 2 ^ 31" unfolding n_def p_def using assms(2,4) by linarith+
  have "?x = int n - int p" by (simp add: tap_coord_def n_def p_def)
  then have "- (2 ^ 31) \<le> ?x" "?x < 2 ^ 31" using n by auto
  then show ?thesis unfolding input_coord_def w by (simp add: int_word_sint)
qed

lemma sint_small: "unat (w :: u32) < 2 ^ 31 \<Longrightarrow> sint w = int (unat w)"
proof -
  assume a: "unat w < 2 ^ 31"
  have "int (unat w) < int (2 ^ 31)" using a by (simp only: of_nat_less_iff)
  then have "sint (word_of_int (int (unat w)) :: u32) = int (unat w)"
    by (simp only: int_word_sint) simp
  then show ?thesis by simp
qed

section \<open>What validation gives\<close>

lemma tensor_size4:
  assumes "tensor_wf t" "rank t = 4" "ucast (tsize t) = ElementCount t" "tsize t \<noteq> 0"
  shows "unat (tsize t) = unat (dimensions t ! 0) * unat (dimensions t ! 1) *
      unat (dimensions t ! 2) * unat (dimensions t ! 3)"
    and "\<And>k. k < 4 \<Longrightarrow> dimensions t ! k \<noteq> 0"
proof -
  obtain a b c e where dims: "dimensions t = [a, b, c, e]"
    using assms(1) length_eq_4 [of "dimensions t"] by (auto simp: tensor_wf_def)
  have u: "unat (ElementCount t) = unat (tsize t)"
    using assms(3) unat_ucast_u32_u64 [of "tsize t"] by simp
  moreover have "unat (tsize t) \<noteq> 0" using assms(4) by (simp add: unat_eq_zero)
  ultimately have nz: "ElementCount t \<noteq> 0" by auto
  show "unat (tsize t) = unat (dimensions t ! 0) * unat (dimensions t ! 1) *
      unat (dimensions t ! 2) * unat (dimensions t ! 3)"
    using ElementCount_nonzero(1) [OF nz] u assms(2) by (simp add: dims)
  show "dimensions t ! k \<noteq> 0" if "k < 4" for k
    using ElementCount_nonzero(2) [OF nz, of "dimensions t ! k"] assms(2) that
      nth_mem [of k "dimensions t"] dims by simp
qed

lemma bias_size:
  assumes "tensor_wf t" "rank t = 1" "ucast (tsize t) = ElementCount t * 4" "tsize t \<noteq> 0"
  shows "unat (tsize t) = 4 * unat (dimensions t ! 0)"
proof -
  obtain a b c e where dims: "dimensions t = [a, b, c, e]"
    using assms(1) length_eq_4 [of "dimensions t"] by (auto simp: tensor_wf_def)
  have "unat (tsize t) \<noteq> 0" using assms(4) by (simp add: unat_eq_zero)
  then have nz: "ElementCount t \<noteq> 0" using assms(3) unat_ucast_u32_u64 [of "tsize t"] by auto
  have u: "unat (ElementCount t) = unat a"
    using ElementCount_nonzero(1) [OF nz] assms(2) by (simp add: dims)
  have "unat (ElementCount t * 4) = unat (ElementCount t) * 4"
    using u32_lt [of a] by (subst unat_mult_nowrap) (simp_all add: u)
  then show ?thesis using assms(3) u unat_ucast_u32_u64 [of "tsize t"] by (simp add: dims)
qed

lemma conv_valid_facts:
  assumes "CommonConvValid d dw = Some True" "descriptor_wf d" "\<forall>i < 4. t_size d i \<noteq> 0"
  shows conv_input_size: "t_size d 0 = dim d 0 0 * dim d 0 1 * dim d 0 2 * dim d 0 3"
    and conv_filter_size: "t_size d 1 = dim d 1 0 * dim d 1 1 * dim d 1 2 * dim d 1 3"
    and conv_bias_size: "t_size d 2 = 4 * dim d 2 0"
    and conv_output_size: "t_size d 3 = dim d 0 0 * dim d 3 1 * dim d 3 2 * dim d 3 3"
    and conv_quant: "unat (quantization_count d) = dim d 3 3"
    and conv_clamp: "\<not> activation_invalid d"
    and conv_batches: "dim d 3 0 = dim d 0 0"
    and conv_dims_pos: "\<And>i k. i \<in> {0, 1, 3} \<Longrightarrow> k < 4 \<Longrightarrow> 0 < dim d i k"
    and conv_channels: "if dw then dim d 1 0 = 1 \<and> dim d 1 3 = dim d 3 3 \<and> dim d 3 3 mod dim d 0 3 = 0
      else dim d 1 0 = dim d 3 3 \<and> dim d 1 3 = dim d 0 3"
proof -
  let ?t = "\<lambda>i. tensors d ! i"
  have wf: "tensor_wf (?t 0)" "tensor_wf (?t 1)" "tensor_wf (?t 2)" "tensor_wf (?t 3)"
    using assms(2) by (auto simp: descriptor_wf_def list_all_length)
  have nz': "tsize (?t i) \<noteq> 0" if "i < 4" for i
    using assms(3) that by (auto simp: t_size_def unat_eq_zero)
  have nz: "tsize (?t 0) \<noteq> 0" "tsize (?t 1) \<noteq> 0" "tsize (?t 2) \<noteq> 0" "tsize (?t 3) \<noteq> 0"
    using nz' by simp_all
  have v: "rank (?t 0) = 4" "rank (?t 1) = 4" "rank (?t 2) = 1" "rank (?t 3) = 4"
    "ucast (tsize (?t 0)) = ElementCount (?t 0)" "ucast (tsize (?t 1)) = ElementCount (?t 1)"
    "ucast (tsize (?t 2)) = ElementCount (?t 2) * 4" "ucast (tsize (?t 3)) = ElementCount (?t 3)"
    "dimensions (?t 3) ! 0 = dimensions (?t 0) ! 0" "quantization_count d = dimensions (?t 3) ! 3"
    "\<not> activation_invalid d"
    using assms(1) by (auto simp: CommonConvValid_def Let_def split: if_splits)
  show "t_size d 0 = dim d 0 0 * dim d 0 1 * dim d 0 2 * dim d 0 3"
    "t_size d 1 = dim d 1 0 * dim d 1 1 * dim d 1 2 * dim d 1 3"
    "t_size d 2 = 4 * dim d 2 0" "t_size d 3 = dim d 0 0 * dim d 3 1 * dim d 3 2 * dim d 3 3"
    using tensor_size4(1) [OF wf(1) v(1,5) nz(1)] tensor_size4(1) [OF wf(2) v(2,6) nz(2)]
      bias_size [OF wf(3) v(3,7) nz(3)] tensor_size4(1) [OF wf(4) v(4,8) nz(4)] v(9)
    by (simp_all add: conv_accessors)
  show "unat (quantization_count d) = dim d 3 3" "\<not> activation_invalid d" "dim d 3 0 = dim d 0 0"
    using v by (simp_all add: conv_accessors)
  show "0 < dim d i k" if "i \<in> {0, 1, 3}" "k < 4" for i k
    using tensor_size4(2) [OF wf(1) v(1,5) nz(1)] tensor_size4(2) [OF wf(2) v(2,6) nz(2)]
      tensor_size4(2) [OF wf(4) v(4,8) nz(4)] that by (auto simp: conv_accessors unat_gt_0)
  show "if dw then dim d 1 0 = 1 \<and> dim d 1 3 = dim d 3 3 \<and> dim d 3 3 mod dim d 0 3 = 0
      else dim d 1 0 = dim d 3 3 \<and> dim d 1 3 = dim d 0 3"
    using assms(1)
    by (auto simp: CommonConvValid_def Let_def conv_accessors unat_mod_distrib [symmetric] split: if_splits)
qed

section \<open>Reading one tap\<close>

lemma unat_word_of_int_small: "0 \<le> x \<Longrightarrow> x < 2 ^ 31 \<Longrightarrow> unat (word_of_int x :: u32) = nat x"
  by (simp add: unat_eq_nat_uint uint_word_of_int)

lemma conv_memory_facts:
  assumes "conv_memory_ok d extmem_base m"
  shows "descriptor_wf d" "\<forall>i < 4. t_size d i \<noteq> 0" "length m < 2 ^ 31"
    and "\<And>i. i < 4 \<Longrightarrow> t_off extmem_base d i + t_size d i \<le> length m"
    and "\<And>i. i < 3 \<Longrightarrow> apart (t_off extmem_base d i) (t_size d i) (t_off extmem_base d 3) (t_size d 3)"
    and "dim d 2 0 = dim d 3 3"
  using assms by (auto simp: conv_memory_ok_def)

lemma tap_product:
  fixes b wy wx ic o' fy fx fc :: u32
  assumes valid: "CommonConvValid d dw = Some True" and mem: "conv_memory_ok d extmem_base m"
    and geo: "conv_geometry_ok d"
    and so: "same_outside (t_off extmem_base d 3) (t_size d 3) m m'"
    and i: "b < dimensions (tensors d ! 0) ! 0" "wy < dimensions (tensors d ! 0) ! 1"
      "wx < dimensions (tensors d ! 0) ! 2" "ic < dimensions (tensors d ! 0) ! 3"
    and f: "o' < dimensions (tensors d ! 1) ! 0" "fy < dimensions (tensors d ! 1) ! 1"
      "fx < dimensions (tensors d ! 1) ! 2" "fc < dimensions (tensors d ! 1) ! 3"
  shows "zp_product m'
      (TensorData extmem_base (tensors d ! 0) + unat (((b * (dimensions (tensors d ! 0) ! 1) + wy) *
        (dimensions (tensors d ! 0) ! 2) + wx) * (dimensions (tensors d ! 0) ! 3) + ic))
      (zero_point (tensors d ! 0))
      (TensorData extmem_base (tensors d ! 1) + unat (((o' * (dimensions (tensors d ! 1) ! 1) + fy) *
        (dimensions (tensors d ! 1) ! 2) + fx) * (dimensions (tensors d ! 1) ! 3) + fc))
      (zero_point (tensors d ! 1)) =
    Some (in_value d extmem_base m (unat b) (unat wy) (unat wx) (unat ic) *
          filter_value d extmem_base m (unat o') (unat fy) (unat fx) (unat fc))"
proof -
  note mf = conv_memory_facts [OF mem]
  note sz = conv_input_size [OF valid mf(1,2)] conv_filter_size [OF valid mf(1,2)]
  have lt: "t_size d 0 < 2 ^ 32" "t_size d 1 < 2 ^ 32"
    using mf(3) mf(4) [of 0] mf(4) [of 1] by simp_all
  have ii: "unat (((b * (dimensions (tensors d ! 0) ! 1) + wy) *
        (dimensions (tensors d ! 0) ! 2) + wx) * (dimensions (tensors d ! 0) ! 3) + ic) =
      index4 (dim d 0 1) (dim d 0 2) (dim d 0 3) (unat b) (unat wy) (unat wx) (unat ic)"
    unfolding dim_def using i lt(1) sz(1) by (intro index4_word) (simp_all add: dim_def)
  have fi: "unat (((o' * (dimensions (tensors d ! 1) ! 1) + fy) *
        (dimensions (tensors d ! 1) ! 2) + fx) * (dimensions (tensors d ! 1) ! 3) + fc) =
      index4 (dim d 1 1) (dim d 1 2) (dim d 1 3) (unat o') (unat fy) (unat fx) (unat fc)"
    unfolding dim_def using f lt(2) sz(2) by (intro index4_word) (simp_all add: dim_def)
  have il: "index4 (dim d 0 1) (dim d 0 2) (dim d 0 3) (unat b) (unat wy) (unat wx) (unat ic) < t_size d 0"
    unfolding sz using i by (intro index4_lt) (simp_all add: dim_def word_less_nat_alt)
  have fl: "index4 (dim d 1 1) (dim d 1 2) (dim d 1 3) (unat o') (unat fy) (unat fx) (unat fc) < t_size d 1"
    unfolding sz using f by (intro index4_lt) (simp_all add: dim_def word_less_nat_alt)
  show ?thesis
    unfolding ii fi in_value_def filter_value_def t_off_def
    using geo load_s8_at [OF so mf(5) [of 0] il mf(4) [of 0]] load_s8_at [OF so mf(5) [of 1] fl mf(4) [of 1]]
    by (intro zp_product_value) (simp_all add: conv_geometry_ok_def t_off_def)
qed

lemma tap_bound:
  assumes "conv_geometry_ok d"
  shows "\<bar>in_value d extmem_base m b y x c * filter_value d extmem_base m o' fy fx fc\<bar> \<le> 65025"
  unfolding in_value_def filter_value_def
  using assms by (intro zp_product_bound) (simp_all add: conv_geometry_ok_def)

text \<open>The skip tests of the code are exactly the tests of the reference definition.\<close>

lemma skip_tests:
  fixes oy fy :: u32
  assumes "CommonConvValid d dw = Some True" "conv_memory_ok d extmem_base m" "conv_geometry_ok d"
    and "oy < dimensions (tensors d ! 3) ! 1" "fy < dimensions (tensors d ! 1) ! 1"
    and "ox < dimensions (tensors d ! 3) ! 2" "fx < dimensions (tensors d ! 1) ! 2"
  defines "iy \<equiv> input_coord oy (stride_height d) fy (padding_height d)"
    and "ix \<equiv> input_coord ox (stride_width d) fx (padding_width d)"
  shows "iy = tap_coord (unat oy) (unat (stride_height d)) (unat fy) (unat (padding_height d))"
    and "ix = tap_coord (unat ox) (unat (stride_width d)) (unat fx) (unat (padding_width d))"
    and "sint (dimensions (tensors d ! 0) ! 1) = int (dim d 0 1)"
    and "sint (dimensions (tensors d ! 0) ! 2) = int (dim d 0 2)"
    and "dim d 0 1 < 2 ^ 31" "dim d 0 2 < 2 ^ 31"
proof -
  note mf = conv_memory_facts [OF assms(2)]
  note pos = conv_dims_pos [OF assms(1) mf(1,2), of 0]
  have lt: "dim d 0 0 * dim d 0 1 * dim d 0 2 * dim d 0 3 < 2 ^ 31"
    unfolding conv_input_size [OF assms(1) mf(1,2), symmetric] using mf(3) mf(4) [of 0] by linarith
  then have w: "dim d 0 0 * dim d 0 1 * dim d 0 2 < 2 ^ 31" by (rule mult_pos_lt) (simp add: pos)
  then have h: "dim d 0 0 * dim d 0 1 < 2 ^ 31" by (rule mult_pos_lt) (simp add: pos)
  show dh: "dim d 0 1 < 2 ^ 31"
    by (rule mult_pos_lt [of _ "dim d 0 0"]) (use h pos in \<open>simp_all add: mult.commute\<close>)
  show dw: "dim d 0 2 < 2 ^ 31"
    by (rule mult_pos_lt [of _ "dim d 0 0 * dim d 0 1"]) (use w pos in \<open>simp_all add: mult.commute\<close>)
  show "sint (dimensions (tensors d ! 0) ! 1) = int (dim d 0 1)"
    "sint (dimensions (tensors d ! 0) ! 2) = int (dim d 0 2)"
    unfolding dim_def using dh dw by (intro sint_small; simp add: dim_def)+
  show "iy = tap_coord (unat oy) (unat (stride_height d)) (unat fy) (unat (padding_height d))"
    unfolding iy_def using assms(3-7)
    by (intro input_coord_exact [of _ "dimensions (tensors d ! 3) ! 1" _ "dimensions (tensors d ! 1) ! 1"])
      (simp_all add: conv_geometry_ok_def dim_def)
  show "ix = tap_coord (unat ox) (unat (stride_width d)) (unat fx) (unat (padding_width d))"
    unfolding ix_def using assms(3-7)
    by (intro input_coord_exact [of _ "dimensions (tensors d ! 3) ! 2" _ "dimensions (tensors d ! 1) ! 2"])
      (simp_all add: conv_geometry_ok_def dim_def)
qed

section \<open>The accumulators\<close>

lemma window_value:
  fixes oy ox :: u32
  assumes valid: "CommonConvValid d dw = Some True" and mem: "conv_memory_ok d extmem_base m"
    and geo: "conv_geometry_ok d"
    and out: "oy < dimensions (tensors d ! 3) ! 1" "ox < dimensions (tensors d ! 3) ! 2"
    and body: "\<And>fy fx iy ix a. fy < dimensions (tensors d ! 1) ! 1 \<Longrightarrow> fx < dimensions (tensors d ! 1) ! 2 \<Longrightarrow>
      iy = input_coord oy (stride_height d) fy (padding_height d) \<Longrightarrow>
      ix = input_coord ox (stride_width d) fx (padding_width d) \<Longrightarrow>
      0 \<le> iy \<Longrightarrow> iy < int (dim d 0 1) \<Longrightarrow> 0 \<le> ix \<Longrightarrow> ix < int (dim d 0 2) \<Longrightarrow> \<bar>a\<bar> + c \<le> B \<Longrightarrow>
      body fy fx a = Some (a + tap (unat fy) (unat fx) (nat iy) (nat ix))"
    and bound: "\<And>fy fx iy ix. \<bar>tap fy fx iy ix\<bar> \<le> c" and c: "0 \<le> c"
    and room: "\<bar>a\<bar> + c * int (dim d 1 2) * int (dim d 1 1) \<le> B"
  shows "loop (\<lambda>fy a.
      if input_coord oy (stride_height d) fy (padding_height d) < 0 \<or>
         sint (dimensions (tensors d ! 0) ! 1) \<le> input_coord oy (stride_height d) fy (padding_height d)
      then Some a
      else loop (\<lambda>fx a.
        if input_coord ox (stride_width d) fx (padding_width d) < 0 \<or>
           sint (dimensions (tensors d ! 0) ! 2) \<le> input_coord ox (stride_width d) fx (padding_width d)
        then Some a else body fy fx a) (u32_range (dimensions (tensors d ! 1) ! 2)) a)
      (u32_range (dimensions (tensors d ! 1) ! 1)) a
    = Some (a + window_sum d (unat oy) (unat ox) tap)"
    (is "?l = _")
proof -
  let ?fh = "dimensions (tensors d ! 1) ! 1" and ?fw = "dimensions (tensors d ! 1) ! 2"
  let ?iy = "\<lambda>fy. input_coord oy (stride_height d) fy (padding_height d)"
  let ?ix = "\<lambda>fx. input_coord ox (stride_width d) fx (padding_width d)"
  note tests = skip_tests [OF valid mem geo out(1) _ out(2)]
  let ?sy = "\<lambda>fy. ?iy fy < 0 \<or> sint (dimensions (tensors d ! 0) ! 1) \<le> ?iy fy"
  let ?sx = "\<lambda>fx. ?ix fx < 0 \<or> sint (dimensions (tensors d ! 0) ! 2) \<le> ?ix fx"
  let ?t = "\<lambda>fy fx. tap (unat fy) (unat fx) (nat (?iy fy)) (nat (?ix fx))"
  have "?l = Some (a + (\<Sum>fy < unat ?fh. \<Sum>fx < unat ?fw.
      if ?sy (of_nat fy) \<or> ?sx (of_nat fx) then 0 else ?t (of_nat fy) (of_nat fx)))"
  proof (rule window_loop [where c = c and B = B])
    show "body fy fx a = Some (a + ?t fy fx)"
      if "fy < ?fh" "fx < ?fw" "\<not> ?sy fy" "\<not> ?sx fx" "\<bar>a\<bar> + c \<le> B" for fy fx a
      using that tests(3,4) [OF that(1,2)] by (intro body) auto
    show "\<bar>a\<bar> + c * int (unat ?fw) * int (unat ?fh) \<le> B" using room by (simp add: dim_def)
  qed (rule bound c)+
  also have "(\<Sum>fy < unat ?fh. \<Sum>fx < unat ?fw.
      if ?sy (of_nat fy) \<or> ?sx (of_nat fx) then 0 else ?t (of_nat fy) (of_nat fx)) =
    window_sum d (unat oy) (unat ox) tap"
    unfolding window_sum_def dim_def
  proof (intro sum.cong refl)
    fix fy fx assume "fy \<in> {..<unat ?fh}" "fx \<in> {..<unat ?fw}"
    then have u: "unat (of_nat fy :: u32) = fy" "unat (of_nat fx :: u32) = fx"
      and lt: "(of_nat fy :: u32) < ?fh" "(of_nat fx :: u32) < ?fw"
      using u32_lt [of ?fh] u32_lt [of ?fw] by (simp_all add: unat_of_nat_nowrap word_less_nat_alt)
    show "(if ?sy (of_nat fy) \<or> ?sx (of_nat fx) then 0 else ?t (of_nat fy) (of_nat fx)) =
      (let iy = tap_coord (unat oy) (unat (stride_height d)) fy (unat (padding_height d));
           ix = tap_coord (unat ox) (unat (stride_width d)) fx (unat (padding_width d))
       in if in_window d iy ix then tap fy fx (nat iy) (nat ix) else 0)"
      using tests(1-4) [OF lt] by (auto simp: Let_def u in_window_def)
  qed
  finally show ?thesis .
qed

lemma s32_at_abs: "\<bar>s32_at m a\<bar> \<le> 2 ^ 31"
  using s32_at_range [of m a] by (auto simp: int32_range_def abs_le_iff)

lemma acc_room: "\<bar>x\<bar> \<le> 2 ^ 31 \<Longrightarrow> y \<le> 65025 * 2 ^ 31 \<Longrightarrow> \<bar>x\<bar> + y \<le> (9223372036854775807 :: int)"
  by simp

lemma conv_taps_room:
  assumes "CommonConvValid d dw = Some True" "conv_memory_ok d extmem_base m"
  shows "65025 * int (dim d 1 3) * int (dim d 1 2) * int (dim d 1 1) \<le> 65025 * 2 ^ 31"
proof -
  note mf = conv_memory_facts [OF assms(2)]
  have "dim d 1 0 * dim d 1 1 * dim d 1 2 * dim d 1 3 \<le> 2 ^ 31"
    unfolding conv_filter_size [OF assms(1) mf(1,2), symmetric] using mf(3) mf(4) [of 1] by linarith
  moreover have "1 * (dim d 1 1 * dim d 1 2 * dim d 1 3) \<le> dim d 1 0 * (dim d 1 1 * dim d 1 2 * dim d 1 3)"
    using conv_dims_pos [OF assms(1) mf(1,2), of 1 0] by (intro mult_le_mono1) simp
  ultimately have "dim d 1 3 * dim d 1 2 * dim d 1 1 \<le> 2 ^ 31" by (simp only: ac_simps)
  then have "int (dim d 1 3 * dim d 1 2 * dim d 1 1) \<le> int (2 ^ 31)" by (simp only: of_nat_le_iff)
  then have "65025 * int (dim d 1 3 * dim d 1 2 * dim d 1 1) \<le> 65025 * int (2 ^ 31)"
    by (rule mult_left_mono) simp
  then show ?thesis by (simp only: of_nat_mult mult.assoc of_nat_power of_nat_numeral)
qed

lemma load_bias:
  assumes "CommonConvValid d dw = Some True" "conv_memory_ok d extmem_base m"
    and "same_outside (t_off extmem_base d 3) (t_size d 3) m m'" "oc < dimensions (tensors d ! 3) ! 3"
  shows "load_s32 m' (int (TensorData extmem_base (tensors d ! 2)) + 4 * uint oc) =
    Some (s32_at m (t_off extmem_base d 2 + 4 * unat oc))"
proof -
  note mf = conv_memory_facts [OF assms(2)]
  have sz: "t_size d 2 = 4 * dim d 3 3" using conv_bias_size [OF assms(1) mf(1,2)] mf(6) by simp
  have "unat oc < dim d 3 3" using assms(4) by (simp add: dim_def word_less_nat_alt)
  then show ?thesis
    using load_s32_at [OF assms(3), of "t_off extmem_base d 2" "dim d 3 3" "unat oc"] mf(4) [of 2]
      mf(5) [of 2] sz by (simp add: t_off_def)
qed

lemma conv_accumulate_value:
  assumes valid: "CommonConvValid d False = Some True" and mem: "conv_memory_ok d extmem_base m"
    and geo: "conv_geometry_ok d"
    and so: "same_outside (t_off extmem_base d 3) (t_size d 3) m m'"
    and b: "batch < dimensions (tensors d ! 0) ! 0"
    and out: "oy < dimensions (tensors d ! 3) ! 1" "ox < dimensions (tensors d ! 3) ! 2"
      "oc < dimensions (tensors d ! 3) ! 3"
  shows "conv_accumulate d extmem_base m' batch oy ox oc =
    Some (conv2d_ref d extmem_base m (unat batch) (unat oy) (unat ox) (unat oc))"
proof -
  note mf = conv_memory_facts [OF mem]
  have ch: "dimensions (tensors d ! 1) ! 0 = dimensions (tensors d ! 3) ! 3"
    "dimensions (tensors d ! 1) ! 3 = dimensions (tensors d ! 0) ! 3"
    using conv_channels [OF valid mf(1,2)] by (simp_all add: dim_def word_unat_eq_iff)
  let ?C = "dimensions (tensors d ! 0) ! 3"
  let ?bias = "s32_at m (t_off extmem_base d 2 + 4 * unat oc)"
  define B :: int where "B = 9223372036854775807"
  let ?v = "\<lambda>fy fx iy ix ic. in_value d extmem_base m (unat batch) iy ix ic *
    filter_value d extmem_base m (unat oc) fy fx ic"
  define body where "body = (\<lambda>fy fx a. loop (\<lambda>ic a. do {
      p \<leftarrow> zp_product m' (TensorData extmem_base (tensors d ! 0) +
          unat (((batch * (dimensions (tensors d ! 0) ! 1) +
            word_of_int (input_coord oy (stride_height d) fy (padding_height d))) *
            (dimensions (tensors d ! 0) ! 2) +
            word_of_int (input_coord ox (stride_width d) fx (padding_width d))) * ?C + ic))
          (zero_point (tensors d ! 0))
          (TensorData extmem_base (tensors d ! 1) +
          unat (((oc * (dimensions (tensors d ! 1) ! 1) + fy) * (dimensions (tensors d ! 1) ! 2) + fx) * ?C + ic))
          (zero_point (tensors d ! 1));
      s64 (a + p) }) (u32_range ?C) a)"
  have bodyv: "body fy fx a = Some (a + (\<Sum>ic < dim d 0 3. ?v (unat fy) (unat fx) (nat iy) (nat ix) ic))"
    if f: "fy < dimensions (tensors d ! 1) ! 1" "fx < dimensions (tensors d ! 1) ! 2"
      and i: "iy = input_coord oy (stride_height d) fy (padding_height d)"
        "ix = input_coord ox (stride_width d) fx (padding_width d)"
        "0 \<le> iy" "iy < int (dim d 0 1)" "0 \<le> ix" "ix < int (dim d 0 2)"
      and a: "\<bar>a\<bar> + 65025 * int (dim d 0 3) \<le> B" for fy fx iy ix a
  proof -
    have lt: "dim d 0 1 < 2 ^ 31" "dim d 0 2 < 2 ^ 31"
      using skip_tests(5,6) [OF valid mem geo out(1) f(1) out(2) f(2)] by auto
    have u: "unat (word_of_int iy :: u32) = nat iy" "unat (word_of_int ix :: u32) = nat ix"
      using i lt by (auto intro!: unat_word_of_int_small)
    have w: "word_of_int iy < dimensions (tensors d ! 0) ! 1" "word_of_int ix < dimensions (tensors d ! 0) ! 2"
      using i(4,6) i(3,5) by (simp_all add: word_less_nat_alt u dim_def nat_less_iff)
    let ?w = "\<lambda>ic. ?v (unat fy) (unat fx) (nat iy) (nat ix) (unat ic)"
    have "body fy fx a = Some (a + (\<Sum>ic\<leftarrow>u32_range ?C. ?w ic))"
      unfolding body_def i(1,2) [symmetric]
    proof (rule loop_sum [where c = 65025 and B = B])
      fix ic a assume ic: "ic \<in> set (u32_range ?C)" and a: "\<bar>a\<bar> + 65025 \<le> B"
      have "\<bar>?w ic\<bar> \<le> 65025" by (rule tap_bound [OF geo])
      then have r: "int64_range (a + ?w ic)" using a by (auto simp: int64_range_def B_def)
      show "do { p \<leftarrow> zp_product m' (TensorData extmem_base (tensors d ! 0) +
          unat (((batch * (dimensions (tensors d ! 0) ! 1) + word_of_int iy) *
            (dimensions (tensors d ! 0) ! 2) + word_of_int ix) * ?C + ic)) (zero_point (tensors d ! 0))
          (TensorData extmem_base (tensors d ! 1) +
          unat (((oc * (dimensions (tensors d ! 1) ! 1) + fy) * (dimensions (tensors d ! 1) ! 2) + fx) * ?C + ic))
          (zero_point (tensors d ! 1)); s64 (a + p) } = Some (a + ?w ic)"
        using tap_product [OF valid mem geo so b w, of ic oc fy fx ic] ic f out(3) r
        by (simp add: ch u del: One_nat_def)
    next
      show "\<bar>?w ic\<bar> \<le> 65025" for ic by (rule tap_bound [OF geo])
    qed (use a in \<open>simp_all add: dim_def\<close>)
    moreover have "(\<Sum>ic\<leftarrow>u32_range ?C. ?w ic) = (\<Sum>ic < dim d 0 3. ?v (unat fy) (unat fx) (nat iy) (nat ix) ic)"
      unfolding sum_u32_range dim_def
      by (intro sum.cong refl) (use u32_lt [of ?C] in \<open>simp add: unat_of_nat_nowrap\<close>)
    ultimately show ?thesis by simp
  qed
  have bound: "\<bar>\<Sum>ic < dim d 0 3. ?v fy fx iy ix ic\<bar> \<le> 65025 * int (dim d 0 3)" for fy fx iy ix
  proof -
    have "\<bar>\<Sum>ic < dim d 0 3. ?v fy fx iy ix ic\<bar> \<le> (\<Sum>ic < dim d 0 3. \<bar>?v fy fx iy ix ic\<bar>)"
      by (rule sum_abs)
    also have "\<dots> \<le> of_nat (card {..<dim d 0 3}) * 65025"
      by (rule sum_bounded_above) (rule tap_bound [OF geo])
    finally show ?thesis by simp
  qed
  have c3: "dim d 0 3 = dim d 1 3" using conv_channels [OF valid mf(1,2)] by simp
  have room: "\<bar>?bias\<bar> + 65025 * int (dim d 0 3) * int (dim d 1 2) * int (dim d 1 1) \<le> B"
    unfolding B_def c3 by (rule acc_room [OF s32_at_abs conv_taps_room [OF valid mem]])
  have "0 \<le> 65025 * int (dim d 0 3)" by simp
  note w = window_value [where body = body and tap = "\<lambda>fy fx iy ix. \<Sum>ic < dim d 0 3. ?v fy fx iy ix ic",
      OF valid mem geo out(1,2) bodyv bound this room]
  show ?thesis
    unfolding conv_accumulate_def Let_def load_bias [OF valid mem so out(3)] Option.bind_lunit conv2d_ref_def
    by (rule w [unfolded body_def])
qed

lemma depthwise_channel:
  assumes "CommonConvValid d True = Some True" "descriptor_wf d" "\<forall>i < 4. t_size d i \<noteq> 0"
    and "oc < dimensions (tensors d ! 3) ! 3"
  defines "dm \<equiv> (dimensions (tensors d ! 3) ! 3) div (dimensions (tensors d ! 0) ! 3)"
  shows "dimensions (tensors d ! 0) ! 3 \<noteq> 0" "dm \<noteq> 0" "oc div dm < dimensions (tensors d ! 0) ! 3"
    and "unat (oc div dm) = unat oc div (dim d 3 3 div dim d 0 3)"
proof -
  have c: "0 < dim d 0 3" "0 < dim d 3 3" using conv_dims_pos [OF assms(1-3)] by auto
  then show nz: "dimensions (tensors d ! 0) ! 3 \<noteq> 0" by (auto simp: dim_def)
  have dvd: "dim d 3 3 mod dim d 0 3 = 0" using conv_channels [OF assms(1-3)] by simp
  then have e: "dim d 3 3 = dim d 0 3 * (dim d 3 3 div dim d 0 3)" by auto
  have u: "unat dm = dim d 3 3 div dim d 0 3" by (simp add: dm_def dim_def unat_div_distrib)
  have p: "0 < unat dm" using e c(2) unfolding u by (metis mult_0_right neq0_conv)
  then show "dm \<noteq> 0" by auto
  show d: "unat (oc div dm) = unat oc div (dim d 3 3 div dim d 0 3)"
    by (simp add: unat_div_distrib u)
  have "unat oc < dim d 0 3 * unat dm" using assms(4) e u by (simp add: dim_def word_less_nat_alt)
  then have "unat oc div unat dm < dim d 0 3" by (simp add: less_mult_imp_div_less)
  then show "oc div dm < dimensions (tensors d ! 0) ! 3"
    using d u by (simp add: word_less_nat_alt dim_def)
qed

lemma depthwise_accumulate_value:
  assumes valid: "CommonConvValid d True = Some True" and mem: "conv_memory_ok d extmem_base m"
    and geo: "conv_geometry_ok d"
    and so: "same_outside (t_off extmem_base d 3) (t_size d 3) m m'"
    and b: "batch < dimensions (tensors d ! 0) ! 0"
    and out: "oy < dimensions (tensors d ! 3) ! 1" "ox < dimensions (tensors d ! 3) ! 2"
      "oc < dimensions (tensors d ! 3) ! 3"
  shows "depthwise_accumulate d extmem_base m' batch oy ox oc =
    Some (depthwise_ref d extmem_base m (unat batch) (unat oy) (unat ox) (unat oc))"
proof -
  note mf = conv_memory_facts [OF mem]
  have ch: "dimensions (tensors d ! 1) ! 0 = 1"
    "dimensions (tensors d ! 1) ! 3 = dimensions (tensors d ! 3) ! 3"
    using conv_channels [OF valid mf(1,2)] by (simp_all add: dim_def word_unat_eq_iff)
  note dc = depthwise_channel [OF valid mf(1,2) out(3)]
  let ?ic = "oc div (dimensions (tensors d ! 3) ! 3 div dimensions (tensors d ! 0) ! 3)"
  let ?bias = "s32_at m (t_off extmem_base d 2 + 4 * unat oc)"
  define B :: int where "B = 9223372036854775807"
  let ?v = "\<lambda>fy fx iy ix. in_value d extmem_base m (unat batch) iy ix (unat ?ic) *
    filter_value d extmem_base m 0 fy fx (unat oc)"
  define body where "body = (\<lambda>fy fx a. do {
      p \<leftarrow> zp_product m' (TensorData extmem_base (tensors d ! 0) +
          unat (((batch * (dimensions (tensors d ! 0) ! 1) +
            word_of_int (input_coord oy (stride_height d) fy (padding_height d))) *
            (dimensions (tensors d ! 0) ! 2) +
            word_of_int (input_coord ox (stride_width d) fx (padding_width d))) *
            (dimensions (tensors d ! 0) ! 3) + ?ic))
          (zero_point (tensors d ! 0))
          (TensorData extmem_base (tensors d ! 1) +
          unat ((fy * (dimensions (tensors d ! 1) ! 2) + fx) * (dimensions (tensors d ! 3) ! 3) + oc))
          (zero_point (tensors d ! 1));
      s64 (a + p) })"
  have bodyv: "body fy fx a = Some (a + ?v (unat fy) (unat fx) (nat iy) (nat ix))"
    if f: "fy < dimensions (tensors d ! 1) ! 1" "fx < dimensions (tensors d ! 1) ! 2"
      and i: "iy = input_coord oy (stride_height d) fy (padding_height d)"
        "ix = input_coord ox (stride_width d) fx (padding_width d)"
        "0 \<le> iy" "iy < int (dim d 0 1)" "0 \<le> ix" "ix < int (dim d 0 2)"
      and a: "\<bar>a\<bar> + 65025 \<le> B" for fy fx iy ix a
  proof -
    have lt: "dim d 0 1 < 2 ^ 31" "dim d 0 2 < 2 ^ 31"
      using skip_tests(5,6) [OF valid mem geo out(1) f(1) out(2) f(2)] by auto
    have u: "unat (word_of_int iy :: u32) = nat iy" "unat (word_of_int ix :: u32) = nat ix"
      using i lt by (auto intro!: unat_word_of_int_small)
    have w: "word_of_int iy < dimensions (tensors d ! 0) ! 1" "word_of_int ix < dimensions (tensors d ! 0) ! 2"
      using i(4,6) i(3,5) by (simp_all add: word_less_nat_alt u dim_def nat_less_iff)
    have "\<bar>?v (unat fy) (unat fx) (nat iy) (nat ix)\<bar> \<le> 65025" by (rule tap_bound [OF geo])
    then have r: "int64_range (a + ?v (unat fy) (unat fx) (nat iy) (nat ix))"
      using a by (auto simp: int64_range_def B_def)
    show ?thesis
      unfolding body_def i(1,2) [symmetric]
      using tap_product [OF valid mem geo so b w dc(3), of 0 fy fx oc] f out(3) r
      by (simp add: ch u del: One_nat_def)
  qed
  have bound: "\<bar>?v fy fx iy ix\<bar> \<le> 65025" for fy fx iy ix by (rule tap_bound [OF geo])
  have "\<bar>?bias\<bar> \<le> 2 ^ 31" by (rule s32_at_abs)
  moreover have "65025 * int (dim d 1 2) * int (dim d 1 1) \<le> 65025 * 2 ^ 31"
  proof -
    have "1 * (65025 * int (dim d 1 2) * int (dim d 1 1)) \<le> int (dim d 1 3) * (65025 * int (dim d 1 2) * int (dim d 1 1))"
      using conv_dims_pos [OF valid mf(1,2), of 1 3] by (intro mult_right_mono) auto
    then show ?thesis using conv_taps_room [OF valid mem] by (simp only: ac_simps)
  qed
  ultimately have room: "\<bar>?bias\<bar> + 65025 * int (dim d 1 2) * int (dim d 1 1) \<le> B"
    unfolding B_def by (rule acc_room)
  have "0 \<le> (65025 :: int)" by simp
  note w = window_value [where body = body and tap = ?v,
      OF valid mem geo out(1,2) bodyv bound this room]
  have nz: "(dimensions (tensors d ! 0) ! 3 = 0 \<or>
      dimensions (tensors d ! 3) ! 3 div dimensions (tensors d ! 0) ! 3 = 0) = False"
    using dc by simp
  show ?thesis
    unfolding depthwise_accumulate_def Let_def nz if_False load_bias [OF valid mem so out(3)]
      Option.bind_lunit depthwise_ref_def
    by (rule w [unfolded body_def dc(4)])
qed

section \<open>A worked example\<close>

text \<open>
  A 2 x 2 input and filter, one channel, in 22 bytes of external memory at \<open>0x20000000\<close>: input
  \<open>1 2 3 4\<close>, filter \<open>1 1 1 -1\<close>, bias 10, multiplier \<open>2^30\<close> (one half), shift 0, output zero point
  1, output at offset 20. The sum is 12 and the output 7.
\<close>

definition conv_example :: coral_operator_descriptor where
  "conv_example = example_descriptor 2
     [example_tensor 0x20000000 4 4 [1, 2, 2, 1] 1, example_tensor 0x20000004 4 4 [1, 2, 2, 1] 1,
      example_tensor 0x20000008 4 1 [1, 0, 0, 0] 2, example_tensor 0x20000014 1 4 [1, 1, 1, 1] 1]"

definition conv_example_memory :: bytes where
  "conv_example_memory = [1, 2, 3, 4, 1, 1, 1, 0xff, 10, 0, 0, 0, 0, 0, 0, 0x40, 0, 0, 0, 0, 0, 0xaa]"

lemmas example_defs = conv_example_def example_descriptor_def example_tensor_def

lemma conv_example_fields:
  "\<forall>k < 4. dim conv_example 0 k = [1, 2, 2, 1] ! k" "\<forall>k < 4. dim conv_example 1 k = [1, 2, 2, 1] ! k"
  "dim conv_example 2 0 = 1" "\<forall>k < 4. dim conv_example 3 k = 1"
  "\<forall>i < 4. t_off 0x20000000 conv_example i = [0, 4, 8, 20] ! i"
  "\<forall>i < 4. t_size conv_example i = [4, 4, 4, 1] ! i"
  "q_off 0x20000000 0x2000000c = 12" "q_off 0x20000000 0x20000010 = 16"
  "zero_point (tensors conv_example ! 0) = 0" "zero_point (tensors conv_example ! 1) = 0"
  "stride_height conv_example = 1" "stride_width conv_example = 1" "padding_height conv_example = 0"
  "padding_width conv_example = 0" "output_zero_point conv_example = 1" "quantization_count conv_example = 1"
  "multiplier_address conv_example = 0x2000000c" "shift_address conv_example = 0x20000010"
  by (simp_all add: all_less_4 conv_accessors example_defs TensorData_def q_off_def quant_ptr_def)

lemmas conv_example_values = conv_example_fields [unfolded all_less_4, simplified]

lemma conv_example_wf: "descriptor_wf conv_example"
  by (simp add: example_defs descriptor_wf_def tensor_wf_def int32_range_def)

lemma conv_example_memory_ok: "conv_memory_ok conv_example 0x20000000 conv_example_memory"
  using conv_example_wf by (simp add: conv_memory_ok_def all_less_4 all_less_3 conv_example_values apart_def conv_example_memory_def)
lemma conv_example_geometry: "conv_geometry_ok conv_example"
  by (simp add: conv_geometry_ok_def conv_example_values int8_range_def)
lemma conv_example_shift: "shift_at conv_example 0x20000000 conv_example_memory 0 = 0"
  by (simp add: shift_at_def s32_at_def conv_example_values conv_example_memory_def)
lemma conv_example_multiplier: "multiplier_at conv_example 0x20000000 conv_example_memory 0 = 2 ^ 30"
  by (simp add: multiplier_at_def s32_at_def conv_example_values conv_example_memory_def)
lemma conv_example_sum: "conv2d_ref conv_example 0x20000000 conv_example_memory 0 0 0 0 = 12"
  by (simp add: conv2d_ref_def window_sum_def in_value_def filter_value_def in_window_def tap_coord_def
     s32_at_def s8_at_def index4_def conv_example_values conv_example_memory_def sum_less_2)
lemma conv_example_scaled: "scaled_ref conv_example 0x20000000 conv_example_memory 0 12 = 7"
  by (simp add: scaled_ref_def conv_example_shift conv_example_multiplier requantize_def high_mul_def sat32_def round_shift_def conv_example_values)
lemma conv_example_scaling: "conv_scaling_ok conv_example 0x20000000 conv_example_memory (conv2d_ref conv_example 0x20000000 conv_example_memory)"
  by (simp add: conv_scaling_ok_def conv_example_values conv_example_shift conv_example_sum conv_example_scaled int32_range_def)

section \<open>Requantization and the kernels\<close>

lemma load_quant:
  assumes "CommonConvValid d dw = Some True" "conv_memory_ok d extmem_base m"
    and "same_outside (t_off extmem_base d 3) (t_size d 3) m m'"
    and "a \<in> {multiplier_address d, shift_address d}" "oc < dimensions (tensors d ! 3) ! 3"
  shows "load_s32 m' (quant_ptr extmem_base a + 4 * uint oc) =
    Some (s32_at m (q_off extmem_base a + 4 * unat oc))"
proof -
  note mf = conv_memory_facts [OF assms(2)]
  have a: "extmem_base \<le> a" "q_off extmem_base a + 4 * unat (quantization_count d) \<le> length m"
    "apart (q_off extmem_base a) (4 * unat (quantization_count d)) (t_off extmem_base d 3) (t_size d 3)"
    using assms(2,4) by (auto simp: conv_memory_ok_def)
  have "unat oc < unat (quantization_count d)"
    using assms(5) conv_quant [OF assms(1) mf(1,2)] by (simp add: dim_def word_less_nat_alt)
  moreover have "int (q_off extmem_base a) = quant_ptr extmem_base a"
    using a(1) by (simp add: q_off_def quant_ptr_def word_le_def)
  ultimately show ?thesis
    using load_s32_at [OF assms(3) a(3) _ a(2), of "unat oc"] by simp
qed

lemma conv_requantize_value:
  assumes valid: "CommonConvValid d dw = Some True" and mem: "conv_memory_ok d extmem_base m"
    and so: "same_outside (t_off extmem_base d 3) (t_size d 3) m m'"
    and oc: "oc < dimensions (tensors d ! 3) ! 3"
    and s: "- 31 \<le> shift_at d extmem_base m (unat oc)" "shift_at d extmem_base m (unat oc) \<le> 30"
    and r: "int32_range (scaled_ref d extmem_base m (unat oc) acc)"
  shows "conv_requantize d extmem_base m' oc acc =
    Some (clamp_byte d (scaled_ref d extmem_base m (unat oc) acc))"
proof -
  have "MultiplyByQuantizedMultiplier (sat32 acc) (multiplier_at d extmem_base m (unat oc))
      (shift_at d extmem_base m (unat oc)) =
    Some (requantize (sat32 acc) (multiplier_at d extmem_base m (unat oc)) (shift_at d extmem_base m (unat oc)))"
    using s by (intro MultiplyByQuantizedMultiplier_meaning) (simp_all add: multiplier_at_def)
  then show ?thesis
    using load_quant [OF valid mem so _ oc] r
    by (simp add: conv_requantize_def sat32_def [symmetric] multiplier_at_def [symmetric]
        shift_at_def [symmetric] scaled_ref_def)
qed

lemma shifts_valid_value:
  assumes "CommonConvValid d dw = Some True" "conv_memory_ok d extmem_base m"
    and "\<And>i. i \<in> set is \<Longrightarrow> i < dimensions (tensors d ! 3) ! 3"
  shows "shifts_valid m (quant_ptr extmem_base (shift_address d)) is =
    Some (\<forall>i \<in> set is. - 31 \<le> shift_at d extmem_base m (unat i) \<and> shift_at d extmem_base m (unat i) \<le> 30)"
  using assms(3)
proof (induction "is")
  case Nil
  then show ?case by simp
next
  case (Cons i "is")
  have "load_s32 m (quant_ptr extmem_base (shift_address d) + 4 * uint i) = Some (shift_at d extmem_base m (unat i))"
    using load_quant [OF assms(1,2), of m "shift_address d" i] Cons.prems by (simp add: shift_at_def)
  then show ?case using Cons by auto
qed

text \<open>The output loops, common to both convolutions.\<close>

lemma conv_output_loops:
  assumes valid: "CommonConvValid d dw = Some True" and mem: "conv_memory_ok d extmem_base m"
    and scal: "conv_scaling_ok d extmem_base m ref"
    and acc: "\<And>m' b oy ox oc. same_outside (t_off extmem_base d 3) (t_size d 3) m m' \<Longrightarrow>
      b < dimensions (tensors d ! 0) ! 0 \<Longrightarrow> oy < dimensions (tensors d ! 3) ! 1 \<Longrightarrow>
      ox < dimensions (tensors d ! 3) ! 2 \<Longrightarrow> oc < dimensions (tensors d ! 3) ! 3 \<Longrightarrow>
      accumulate m' b oy ox oc = Some (ref (unat b) (unat oy) (unat ox) (unat oc))"
  shows "\<exists>m'. loop (\<lambda>b. loop (\<lambda>oy. loop (\<lambda>ox. loop (\<lambda>oc m. do {
        accumulator \<leftarrow> accumulate m b oy ox oc;
        r \<leftarrow> conv_requantize d extmem_base m oc accumulator;
        store8 m (TensorData extmem_base (tensors d ! 3) +
          unat (((b * (dimensions (tensors d ! 3) ! 1) + oy) * (dimensions (tensors d ! 3) ! 2) + ox) *
            (dimensions (tensors d ! 3) ! 3) + oc)) r })
      (u32_range (dimensions (tensors d ! 3) ! 3))) (u32_range (dimensions (tensors d ! 3) ! 2)))
      (u32_range (dimensions (tensors d ! 3) ! 1))) (u32_range (dimensions (tensors d ! 0) ! 0)) m = Some m' \<and>
    same_outside (t_off extmem_base d 3) (t_size d 3) m m' \<and>
    (\<forall>b < dim d 0 0. \<forall>oy < dim d 3 1. \<forall>ox < dim d 3 2. \<forall>oc < dim d 3 3.
      s8_at m' (t_off extmem_base d 3 + index4 (dim d 3 1) (dim d 3 2) (dim d 3 3) b oy ox oc) =
      max (activation_min d) (min (activation_max d) (scaled_ref d extmem_base m oc (ref b oy ox oc))))"
proof -
  note mf = conv_memory_facts [OF mem]
  let ?N = "dimensions (tensors d ! 0) ! 0" and ?H = "dimensions (tensors d ! 3) ! 1"
    and ?W = "dimensions (tensors d ! 3) ! 2" and ?C = "dimensions (tensors d ! 3) ! 3"
  let ?v = "\<lambda>b oy ox oc. clamp_byte d (scaled_ref d extmem_base m (unat oc) (ref (unat b) (unat oy) (unat ox) (unat oc)))"
  have sz: "t_size d 3 = unat ?N * unat ?H * unat ?W * unat ?C"
    using conv_output_size [OF valid mf(1,2)] by (simp add: dim_def)
  have fits: "t_off extmem_base d 3 + t_size d 3 \<le> length m" "t_size d 3 < 2 ^ 32"
    using mf(4) [of 3] mf(3) by simp_all
  have step: "do { accumulator \<leftarrow> accumulate m' b oy ox oc; conv_requantize d extmem_base m' oc accumulator }
      = Some (?v b oy ox oc)"
    if "b < ?N" "oy < ?H" "ox < ?W" "oc < ?C" "same_outside (t_off extmem_base d 3) (t_size d 3) m m'"
    for b oy ox oc m'
  proof -
    have "unat b < dim d 0 0" "unat oy < dim d 3 1" "unat ox < dim d 3 2" "unat oc < dim d 3 3"
      using that by (simp_all add: dim_def word_less_nat_alt)
    then show ?thesis
      using acc [OF that(5,1-4)] conv_requantize_value [OF valid mem that(5,4)] scal
      by (simp add: conv_scaling_ok_def)
  qed
  obtain m' where m': "loop (\<lambda>b. loop (\<lambda>oy. loop (\<lambda>ox. loop (\<lambda>oc m. do {
        r \<leftarrow> do { accumulator \<leftarrow> accumulate m b oy ox oc; conv_requantize d extmem_base m oc accumulator };
        store8 m (t_off extmem_base d 3 + unat (((b * ?H + oy) * ?W + ox) * ?C + oc)) r })
      (u32_range ?C)) (u32_range ?W)) (u32_range ?H)) (u32_range ?N) m = Some m'"
    and so: "same_outside (t_off extmem_base d 3) (t_size d 3) m m'"
    and v: "\<forall>b < ?N. \<forall>oy < ?H. \<forall>ox < ?W. \<forall>oc < ?C.
      m' ! (t_off extmem_base d 3 + index4 (unat ?H) (unat ?W) (unat ?C) (unat b) (unat oy) (unat ox) (unat oc))
      = ?v b oy ox oc"
    using loop4_store8 [of ?N ?H ?W ?C "t_off extmem_base d 3" "t_size d 3" m
        "\<lambda>b oy ox oc m. do { accumulator \<leftarrow> accumulate m b oy ox oc; conv_requantize d extmem_base m oc accumulator }"
        ?v, OF step sz fits(2,1)] by blast
  have "s8_at m' (t_off extmem_base d 3 + index4 (dim d 3 1) (dim d 3 2) (dim d 3 3) b oy ox oc) =
      max (activation_min d) (min (activation_max d) (scaled_ref d extmem_base m oc (ref b oy ox oc)))"
    if "b < dim d 0 0" "oy < dim d 3 1" "ox < dim d 3 2" "oc < dim d 3 3" for b oy ox oc
  proof -
    have lt: "(of_nat b :: u32) < ?N" "(of_nat oy :: u32) < ?H" "(of_nat ox :: u32) < ?W" "(of_nat oc :: u32) < ?C"
      and u: "unat (of_nat b :: u32) = b" "unat (of_nat oy :: u32) = oy" "unat (of_nat ox :: u32) = ox"
        "unat (of_nat oc :: u32) = oc"
      using that u32_lt [of ?N] u32_lt [of ?H] u32_lt [of ?W] u32_lt [of ?C]
      by (simp_all add: dim_def word_less_nat_alt unat_of_nat_nowrap)
    then show ?thesis
      using v [rule_format, OF lt] clamp_byte_value [OF conv_clamp [OF valid mf(1,2)]]
      by (simp add: s8_at_def dim_def)
  qed
  then show ?thesis using m' so by (auto simp: t_off_def Option.bind_assoc)
qed

lemma shifts_pass:
  assumes "CommonConvValid d dw = Some True" "conv_memory_ok d extmem_base m"
    and "conv_scaling_ok d extmem_base m ref"
  shows "shifts_valid m (quant_ptr extmem_base (shift_address d)) (u32_range (dimensions (tensors d ! 3) ! 3)) =
    Some True"
  using shifts_valid_value [OF assms(1,2), of "u32_range (dimensions (tensors d ! 3) ! 3)"] assms(3)
  by (simp add: conv_scaling_ok_def dim_def word_less_nat_alt)

text \<open>
  C5: the convolution kernel computes the convolution. For a descriptor that passes the kernel's
  validation, whose tensors lie in external memory apart from the output, whose tap coordinates
  fit 32 bits and whose scaled results do not overflow with the zero point, the kernel returns
  true, every output element is the clamped requantization of the exact convolution sum, no byte
  outside the output tensor changes, and the counters in the descriptor are the work done.
\<close>

theorem RunGem5HybridConv2D_correct:
  assumes "CommonConvValid d False = Some True" "conv_memory_ok d extmem_base m" "conv_geometry_ok d"
    and "conv_scaling_ok d extmem_base m (conv2d_ref d extmem_base m)"
  shows "\<exists>m'. RunGem5HybridConv2D d m extmem_base elapsed = Some (True, d\<lparr>
        operation_count := of_nat (dim d 0 0 * dim d 3 1 * dim d 3 2 * dim d 3 3 * dim d 1 1 * dim d 1 2 * dim d 0 3),
        bytes_read := of_nat ((t_size d 0 + t_size d 1 + t_size d 2) mod 2 ^ 32 + 8 * dim d 3 3),
        bytes_written := of_nat (t_size d 3), host_elapsed_ns := elapsed \<rparr>, m') \<and>
    same_outside (t_off extmem_base d 3) (t_size d 3) m m' \<and>
    (\<forall>b < dim d 0 0. \<forall>oy < dim d 3 1. \<forall>ox < dim d 3 2. \<forall>oc < dim d 3 3.
      s8_at m' (t_off extmem_base d 3 + index4 (dim d 3 1) (dim d 3 2) (dim d 3 3) b oy ox oc) =
      max (activation_min d) (min (activation_max d)
        (scaled_ref d extmem_base m oc (conv2d_ref d extmem_base m b oy ox oc))))"
proof -
  note mf = conv_memory_facts [OF assms(2)]
  show ?thesis
    apply (rule exE [OF conv_output_loops [OF assms(1,2,4), of "conv_accumulate d extmem_base"]])
     apply (erule (4) conv_accumulate_value [OF assms(1-3)])
    apply (elim conjE)
    subgoal premises p for m'
      by (intro exI [of _ m'] conjI p(2,3))
        (simp only: RunGem5HybridConv2D_def Let_def assms(1) shifts_pass [OF assms(1,2,4)] p(1)
          Option.bind_lunit if_False not_True_eq_False counter_simps
          dim_def [symmetric] t_size_def [symmetric] conv_quant [OF assms(1) mf(1,2)])
    done
qed

theorem RunGem5HybridConv2D_correct_witness:
  "\<exists>d' m'. RunGem5HybridConv2D conv_example conv_example_memory 0x20000000 5 = Some (True, d', m') \<and>
    operation_count d' = 4 \<and> same_outside 20 1 conv_example_memory m' \<and> s8_at m' 20 = 7"
proof -
  have "CommonConvValid conv_example False = Some True" by code_simp
  note c = RunGem5HybridConv2D_correct [OF this conv_example_memory_ok conv_example_geometry
      conv_example_scaling, of 5]
  show ?thesis
    using c by (auto simp: conv_example_values conv_example_sum conv_example_scaled index4_def)
      (auto simp: example_defs)
qed

text \<open>
  C13: the same for the depthwise convolution, where output channel \<open>c\<close> reads the single input
  channel \<open>c div (output channels div input channels)\<close> and the counters are for that work.
\<close>

theorem RunGem5HybridDepthwiseConv2D_correct:
  assumes "CommonConvValid d True = Some True" "conv_memory_ok d extmem_base m" "conv_geometry_ok d"
    and "conv_scaling_ok d extmem_base m (depthwise_ref d extmem_base m)"
  shows "\<exists>m'. RunGem5HybridDepthwiseConv2D d m extmem_base elapsed = Some (True, d\<lparr>
        operation_count := of_nat (dim d 0 0 * dim d 3 1 * dim d 3 2 * dim d 3 3 * dim d 1 1 * dim d 1 2),
        bytes_read := of_nat ((t_size d 0 + t_size d 1 + t_size d 2) mod 2 ^ 32 + 8 * dim d 3 3),
        bytes_written := of_nat (t_size d 3), host_elapsed_ns := elapsed \<rparr>, m') \<and>
    same_outside (t_off extmem_base d 3) (t_size d 3) m m' \<and>
    (\<forall>b < dim d 0 0. \<forall>oy < dim d 3 1. \<forall>ox < dim d 3 2. \<forall>oc < dim d 3 3.
      s8_at m' (t_off extmem_base d 3 + index4 (dim d 3 1) (dim d 3 2) (dim d 3 3) b oy ox oc) =
      max (activation_min d) (min (activation_max d)
        (scaled_ref d extmem_base m oc (depthwise_ref d extmem_base m b oy ox oc))))"
proof -
  note mf = conv_memory_facts [OF assms(2)]
  show ?thesis
    apply (rule exE [OF conv_output_loops [OF assms(1,2,4), of "depthwise_accumulate d extmem_base"]])
     apply (erule (4) depthwise_accumulate_value [OF assms(1-3)])
    apply (elim conjE)
    subgoal premises p for m'
      by (intro exI [of _ m'] conjI p(2,3))
        (simp only: RunGem5HybridDepthwiseConv2D_def Let_def assms(1) shifts_pass [OF assms(1,2,4)] p(1)
          Option.bind_lunit if_False not_True_eq_False counter_simps
          dim_def [symmetric] t_size_def [symmetric] conv_quant [OF assms(1) mf(1,2)])
    done
qed

theorem RunGem5HybridDepthwiseConv2D_correct_witness:
  "\<exists>d' m'. RunGem5HybridDepthwiseConv2D conv_example conv_example_memory 0x20000000 5 = Some (True, d', m') \<and>
    operation_count d' = 4 \<and> same_outside 20 1 conv_example_memory m' \<and> s8_at m' 20 = 7"
proof -
  have v: "CommonConvValid conv_example True = Some True" by code_simp
  have r: "depthwise_ref conv_example 0x20000000 conv_example_memory 0 0 0 0 = 12"
    by (simp add: depthwise_ref_def window_sum_def in_value_def filter_value_def in_window_def
        tap_coord_def s32_at_def s8_at_def index4_def conv_example_values conv_example_memory_def sum_less_2)
  have s: "conv_scaling_ok conv_example 0x20000000 conv_example_memory
      (depthwise_ref conv_example 0x20000000 conv_example_memory)"
    by (simp add: conv_scaling_ok_def conv_example_values conv_example_shift r conv_example_scaled int32_range_def)
  note c = RunGem5HybridDepthwiseConv2D_correct [OF v conv_example_memory_ok conv_example_geometry s, of 5]
  show ?thesis
    using c by (auto simp: conv_example_values r conv_example_scaled index4_def)
      (auto simp: example_defs)
qed

text \<open>
  the shift check guards the kernel: if any per-channel shift lies outside -31..30 the
  convolution kernel returns false and changes neither the descriptor nor memory.
\<close>

theorem RunGem5HybridConv2D_bad_shift:
  assumes "CommonConvValid d False = Some True" "conv_memory_ok d extmem_base m"
    and "\<exists>oc < dim d 3 3. shift_at d extmem_base m oc < - 31 \<or> 30 < shift_at d extmem_base m oc"
  shows "RunGem5HybridConv2D d m extmem_base elapsed = Some (False, d, m)"
proof -
  let ?C = "dimensions (tensors d ! 3) ! 3"
  obtain oc where oc: "oc < dim d 3 3" "shift_at d extmem_base m oc < - 31 \<or> 30 < shift_at d extmem_base m oc"
    using assms(3) by blast
  then have "(of_nat oc :: u32) < ?C" "unat (of_nat oc :: u32) = oc"
    using u32_lt [of ?C] by (simp_all add: dim_def word_less_nat_alt unat_of_nat_nowrap)
  then have "\<not> (\<forall>i \<in> set (u32_range ?C). - 31 \<le> shift_at d extmem_base m (unat i) \<and>
      shift_at d extmem_base m (unat i) \<le> 30)"
    using oc(2) by fastforce
  then have "shifts_valid m (quant_ptr extmem_base (shift_address d)) (u32_range ?C) = Some False"
    using shifts_valid_value [OF assms(1,2), of "u32_range ?C"] by simp
  then show ?thesis by (simp add: RunGem5HybridConv2D_def Let_def assms(1))
qed

theorem RunGem5HybridConv2D_bad_shift_witness:
  "RunGem5HybridConv2D conv_example (conv_example_memory[16 := 31]) 0x20000000 5 =
    Some (False, conv_example, conv_example_memory[16 := 31])"
proof -
  have v: "CommonConvValid conv_example False = Some True" by code_simp
  have m: "conv_memory_ok conv_example 0x20000000 (conv_example_memory[16 := 31])"
    using conv_example_memory_ok by (simp add: conv_memory_ok_def)
  have "shift_at conv_example 0x20000000 (conv_example_memory[16 := 31]) 0 = 31"
    by (simp add: shift_at_def s32_at_def conv_example_values conv_example_memory_def)
  then show ?thesis
    by (intro RunGem5HybridConv2D_bad_shift [OF v m]) (simp add: conv_example_values)
qed

end
