(* ===== verification/Hybrid_Dense.thy ===== *)
theory Hybrid_Dense
  imports Hybrid_Kernel_Lemmas
begin

text \<open>
  Correctness of the matrix product, the fully connected layer and the element-wise addition:
  each returns false without effect exactly when its checks fail, and otherwise computes the
  mathematical result, provided its 32-bit accumulator cannot overflow.
\<close>

section \<open>Shared conditions\<close>

text \<open>
  Tensors \<open>0 .. n\<close> lie in external memory and the inputs are apart from the output, tensor \<open>n\<close>.
\<close>

definition dense_memory_ok :: "coral_operator_descriptor \<Rightarrow> u32 \<Rightarrow> bytes \<Rightarrow> nat \<Rightarrow> bool" where
  "dense_memory_ok d extmem_base m n \<longleftrightarrow>
     descriptor_wf d \<and> int8_range (zero_point (tensors d ! 0)) \<and> int8_range (zero_point (tensors d ! 1)) \<and>
     (\<forall>i \<le> n. t_off extmem_base d i + t_size d i \<le> length m) \<and>
     (\<forall>i < n. apart (t_off extmem_base d i) (t_size d i) (t_off extmem_base d n) (t_size d n))"

lemma dim_eq_iff:
  "dim d i k = dim d j l \<longleftrightarrow> dimensions (tensors d ! i) ! k = dimensions (tensors d ! j) ! l"
  by (simp add: dim_def word_unat_eq_iff)

lemma tensor_size2:
  assumes "descriptor_wf d" "i < 4" "rank (tensors d ! i) = 2" "TensorBytesMatch (tensors d ! i) 1"
  shows "t_size d i = dim d i 0 * dim d i 1"
proof -
  have "tensor_wf (tensors d ! i)" using assms(1,2) by (auto simp: descriptor_wf_def list_all_length)
  then obtain a b c e where "dimensions (tensors d ! i) = [a, b, c, e]"
    using length_eq_4 [of "dimensions (tensors d ! i)"] by (auto simp: tensor_wf_def)
  then show ?thesis
    using TensorBytesMatch_bytes [OF assms(4)] assms(3) by (simp add: conv_accessors)
qed

lemma bias_size1:
  assumes "descriptor_wf d" "i < 4" "rank (tensors d ! i) = 1" "TensorBytesMatch (tensors d ! i) 4"
  shows "t_size d i = 4 * dim d i 0"
proof -
  have "tensor_wf (tensors d ! i)" using assms(1,2) by (auto simp: descriptor_wf_def list_all_length)
  then obtain a b c e where "dimensions (tensors d ! i) = [a, b, c, e]"
    using length_eq_4 [of "dimensions (tensors d ! i)"] by (auto simp: tensor_wf_def)
  then show ?thesis
    using TensorBytesMatch_words [OF assms(4)] assms(3) by (simp add: conv_accessors)
qed

text \<open>A 32-bit accumulation of 8-bit products.\<close>

lemma dot_loop:
  assumes "\<And>i. i < K \<Longrightarrow> zp_product m (A i) zi (B i) zj = Some (t i)"
    and "\<And>i. \<bar>t i\<bar> \<le> 65025"
    and "\<bar>a\<bar> + 65025 * int (unat K) \<le> 2147483647"
  shows "loop (\<lambda>i acc. do { p \<leftarrow> zp_product m (A i) zi (B i) zj; s32 (acc + p) }) (u32_range K) a =
    Some (a + (\<Sum>i < unat K. t (of_nat i)))"
proof -
  have "loop (\<lambda>i acc. do { p \<leftarrow> zp_product m (A i) zi (B i) zj; s32 (acc + p) }) (u32_range K) a =
      Some (a + (\<Sum>i\<leftarrow>u32_range K. t i))"
  proof (rule loop_sum [where c = 65025 and B = 2147483647])
    fix i acc assume i: "i \<in> set (u32_range K)" and acc: "\<bar>acc\<bar> + 65025 \<le> (2147483647 :: int)"
    have "int32_range (acc + t i)" using acc assms(2) [of i] by (auto simp: int32_range_def)
    then show "do { p \<leftarrow> zp_product m (A i) zi (B i) zj; s32 (acc + p) } = Some (acc + t i)"
      using assms(1) i by simp
  qed (use assms(2,3) in simp_all)
  then show ?thesis by (simp add: sum_u32_range)
qed

lemma dot_bound:
  assumes "\<And>i. \<bar>t i\<bar> \<le> (65025 :: int)"
  shows "\<bar>\<Sum>i < (n::nat). t i\<bar> \<le> 65025 * int n"
proof -
  have "\<bar>\<Sum>i < n. t i\<bar> \<le> (\<Sum>i < n. \<bar>t i\<bar>)" by (rule sum_abs)
  also have "\<dots> \<le> of_nat (card {..<n}) * 65025" by (rule sum_bounded_above) (rule assms)
  finally show ?thesis by simp
qed

text \<open>The output loops of the matrix product and the fully connected layer.\<close>

lemma dense_output_loops:
  fixes R C :: u32
  assumes acc: "\<And>r c m'. r < R \<Longrightarrow> c < C \<Longrightarrow> same_outside off n m m' \<Longrightarrow>
      acc r c m' = Some (v (unat r) (unat c))"
    and range: "\<And>r c. r < unat R \<Longrightarrow> c < unat C \<Longrightarrow> int32_range (v r c + output_zero_point d)"
    and n: "n = unat R * unat C" "n < 2 ^ 32" "off + n \<le> length m" and act: "\<not> activation_invalid d"
  shows "\<exists>m'. loop (\<lambda>r. loop (\<lambda>c m. do { a \<leftarrow> acc r c m; a \<leftarrow> s32 (a + output_zero_point d);
        store8 m (off + unat (r * C + c)) (clamp_byte d a) }) (u32_range C)) (u32_range R) m = Some m' \<and>
    same_outside off n m m' \<and>
    (\<forall>r < unat R. \<forall>c < unat C. s8_at m' (off + (r * unat C + c)) =
      max (activation_min d) (min (activation_max d) (v r c + output_zero_point d)))"
proof -
  let ?g = "\<lambda>r c m. do { a \<leftarrow> acc r c m; a \<leftarrow> s32 (a + output_zero_point d); Some (clamp_byte d a) }"
  have step: "?g r c m' = Some (clamp_byte d (v (unat r) (unat c) + output_zero_point d))"
    if "r < R" "c < C" "same_outside off n m m'" for r c m'
    using acc [OF that] range [of "unat r" "unat c"] that by (simp add: word_less_nat_alt)
  obtain m' where m': "loop (\<lambda>r. loop (\<lambda>c m. do { b \<leftarrow> ?g r c m; store8 m (off + unat (r * C + c)) b })
      (u32_range C)) (u32_range R) m = Some m'" and so: "same_outside off n m m'"
    and w: "\<forall>r < R. \<forall>c < C. m' ! (off + (unat r * unat C + unat c)) =
      clamp_byte d (v (unat r) (unat c) + output_zero_point d)"
    using loop2_store8 [of R C off n m ?g, OF step n] by blast
  have "s8_at m' (off + (r * unat C + c)) =
      max (activation_min d) (min (activation_max d) (v r c + output_zero_point d))"
    if "r < unat R" "c < unat C" for r c
  proof -
    have u: "unat (of_nat r :: u32) = r" "unat (of_nat c :: u32) = c"
      using that by (simp_all add: unat_of_nat_below [of _ R] unat_of_nat_below [of _ C])
    then have lt: "(of_nat r :: u32) < R" "(of_nat c :: u32) < C" using that by (simp_all add: word_less_nat_alt)
    show ?thesis
      using w [rule_format, OF lt] clamp_byte_value [OF act] u by (simp add: s8_at_def)
  qed
  then show ?thesis using m' so by (auto simp: Option.bind_assoc)
qed

section \<open>Worked examples\<close>

text \<open>
  Two pairs of numbers, \<open>2 3\<close> and \<open>4 5\<close>, in external memory at \<open>0x20000000\<close>: their inner product
  23 and their sums 6 and 8, each plus the output zero point 1.
\<close>

definition dense_example :: "u32 list \<Rightarrow> u32 list \<Rightarrow> u32 \<Rightarrow> u32 list \<Rightarrow> coral_operator_descriptor" where
  "dense_example lhs rhs n out = example_descriptor 0
     [example_tensor 0x20000000 2 2 lhs 1, example_tensor 0x20000002 2 2 rhs 1,
      example_tensor 0x20000004 n 2 out 1]"

abbreviation (input) matmul_example :: coral_operator_descriptor where
  "matmul_example \<equiv> dense_example [1, 2, 0, 0] [2, 1, 0, 0] 1 [1, 1, 0, 0]"

abbreviation (input) fc_example :: coral_operator_descriptor where
  "fc_example \<equiv> dense_example [1, 2, 0, 0] [1, 2, 0, 0] 1 [1, 1, 0, 0]"

abbreviation (input) add_example :: coral_operator_descriptor where
  "add_example \<equiv> dense_example [1, 2, 0, 0] [1, 2, 0, 0] 2 [1, 2, 0, 0]"

definition dense_example_memory :: bytes where
  "dense_example_memory = [2, 3, 4, 5, 0xaa, 0xbb]"

lemmas dense_example_defs = dense_example_def example_descriptor_def example_tensor_def
  conv_accessors TensorData_def

lemma all_le_2: "(\<forall>i \<le> (2::nat). P i) \<longleftrightarrow> P 0 \<and> P 1 \<and> P 2"
  by (auto simp: eval_nat_numeral le_Suc_eq)

lemma all_less_2: "(\<forall>i < (2::nat). P i) \<longleftrightarrow> P 0 \<and> P 1"
  by (auto simp: eval_nat_numeral less_Suc_eq)

lemma dense_example_memory_ok:
  assumes "length l = 4" "length r = 4" "length out = 4" "n \<le> 2"
  shows "dense_memory_ok (dense_example l r n out) 0x20000000 dense_example_memory 2"
  using assms
  by (simp add: dense_memory_ok_def dense_example_defs descriptor_wf_def tensor_wf_def int32_range_def
      int8_range_def all_le_2 all_less_2 apart_def dense_example_memory_def word_le_nat_alt)

section \<open>Matrix product\<close>

definition matmul_args :: "coral_operator_descriptor \<Rightarrow> bool" where
  "matmul_args d \<longleftrightarrow> tensor_count d = 3 \<and>
     (\<forall>i < 3. element_type (tensors d ! i) = CORAL_OPERATOR_ELEMENT_INT8 \<and> rank (tensors d ! i) = 2 \<and>
       TensorBytesMatch (tensors d ! i) 1) \<and>
     dim d 1 0 = dim d 0 1 \<and> dim d 2 0 = dim d 0 0 \<and> dim d 2 1 = dim d 1 1 \<and> \<not> activation_invalid d"

definition matmul_ref :: "coral_operator_descriptor \<Rightarrow> u32 \<Rightarrow> bytes \<Rightarrow> nat \<Rightarrow> nat \<Rightarrow> int" where
  "matmul_ref d extmem_base m r c =
     (\<Sum>k < dim d 0 1.
        (s8_at m (t_off extmem_base d 0 + (r * dim d 0 1 + k)) - zero_point (tensors d ! 0)) *
        (s8_at m (t_off extmem_base d 1 + (k * dim d 1 1 + c)) - zero_point (tensors d ! 1)))"

lemma matmul_term:
  assumes args: "matmul_args d" and mem: "dense_memory_ok d extmem_base m 2"
    and so: "same_outside (t_off extmem_base d 2) (t_size d 2) m m'"
    and r: "r < dimensions (tensors d ! 0) ! 0" and c: "c < dimensions (tensors d ! 1) ! 1"
    and k: "k < dimensions (tensors d ! 0) ! 1"
  shows "zp_product m' (TensorData extmem_base (tensors d ! 0) + unat (r * (dimensions (tensors d ! 0) ! 1) + k))
      (zero_point (tensors d ! 0))
      (TensorData extmem_base (tensors d ! 1) + unat (k * (dimensions (tensors d ! 1) ! 1) + c))
      (zero_point (tensors d ! 1)) =
    Some ((s8_at m (t_off extmem_base d 0 + (unat r * dim d 0 1 + unat k)) - zero_point (tensors d ! 0)) *
        (s8_at m (t_off extmem_base d 1 + (unat k * dim d 1 1 + unat c)) - zero_point (tensors d ! 1)))"
proof -
  have a: "\<And>i. i < 3 \<Longrightarrow> rank (tensors d ! i) = 2 \<and> TensorBytesMatch (tensors d ! i) 1"
    "dimensions (tensors d ! 1) ! 0 = dimensions (tensors d ! 0) ! 1"
    using args by (auto simp: matmul_args_def dim_def word_unat_eq_iff)
  have wf: "descriptor_wf d" and z: "int8_range (zero_point (tensors d ! 0))" "int8_range (zero_point (tensors d ! 1))"
    and fit: "\<And>i. i \<le> 2 \<Longrightarrow> t_off extmem_base d i + t_size d i \<le> length m"
    and ap: "\<And>i. i < 2 \<Longrightarrow> apart (t_off extmem_base d i) (t_size d i) (t_off extmem_base d 2) (t_size d 2)"
    using mem by (auto simp: dense_memory_ok_def)
  have sz: "t_size d 0 = dim d 0 0 * dim d 0 1" "t_size d 1 = dim d 1 0 * dim d 1 1"
    using tensor_size2 [OF wf, of 0] tensor_size2 [OF wf, of 1] a(1) by simp_all
  have lt: "t_size d 0 < 2 ^ 32" "t_size d 1 < 2 ^ 32"
    using u32_lt by (simp_all add: t_size_def)
  have i0: "unat (r * (dimensions (tensors d ! 0) ! 1) + k) = unat r * dim d 0 1 + unat k"
    "unat r * dim d 0 1 + unat k < t_size d 0"
    using radix2_word [OF r k] lt(1) sz(1) by (simp_all add: dim_def)
  have i1: "unat (k * (dimensions (tensors d ! 1) ! 1) + c) = unat k * dim d 1 1 + unat c"
    "unat k * dim d 1 1 + unat c < t_size d 1"
    using radix2_word [of k "dimensions (tensors d ! 1) ! 0" c "dimensions (tensors d ! 1) ! 1"] c k a(2)
      lt(2) sz(2) by (simp_all add: dim_def)
  show ?thesis
    unfolding i0 i1 t_off_def
    using load_s8_at [OF so ap [of 0] i0(2) fit [of 0]] load_s8_at [OF so ap [of 1] i1(2) fit [of 1]] z
    by (intro zp_product_value) (simp_all add: t_off_def)
qed

text \<open>
  C15: the matrix product kernel computes the matrix product. When its checks pass, its tensors
  lie in external memory apart from the output and the 32-bit accumulator has room for the inner
  dimension, every output element is the clamped inner product plus the output zero point,
  nothing outside the output changes and the counters are the work done; when its checks fail
  it returns false without any effect.
\<close>

theorem RunGem5HybridMatMulInt8_correct:
  assumes "dense_memory_ok d extmem_base m 2"
    and "65025 * int (dim d 0 1) + \<bar>output_zero_point d\<bar> \<le> 2147483647"
  shows "if matmul_args d then
      \<exists>m'. RunGem5HybridMatMulInt8 d m extmem_base elapsed = Some (True, d\<lparr>
          operation_count := of_nat (dim d 0 0 * dim d 1 1 * dim d 0 1),
          bytes_read := of_nat ((t_size d 0 + t_size d 1) mod 2 ^ 32),
          bytes_written := of_nat (t_size d 2), host_elapsed_ns := elapsed \<rparr>, m') \<and>
        same_outside (t_off extmem_base d 2) (t_size d 2) m m' \<and>
        (\<forall>r < dim d 0 0. \<forall>c < dim d 1 1. s8_at m' (t_off extmem_base d 2 + (r * dim d 1 1 + c)) =
          max (activation_min d) (min (activation_max d) (matmul_ref d extmem_base m r c + output_zero_point d)))
    else RunGem5HybridMatMulInt8 d m extmem_base elapsed = Some (False, d, m)"
proof (cases "matmul_args d")
  case False
  then show ?thesis
    by (auto simp: RunGem5HybridMatMulInt8_def matmul_args_def Let_def all_less_3 dim_eq_iff)
next
  case args: True
  let ?R = "dimensions (tensors d ! 0) ! 0" and ?K = "dimensions (tensors d ! 0) ! 1"
    and ?C = "dimensions (tensors d ! 1) ! 1"
  let ?off = "t_off extmem_base d 2" and ?n = "t_size d 2"
  have a: "\<And>i. i < 3 \<Longrightarrow> rank (tensors d ! i) = 2 \<and> TensorBytesMatch (tensors d ! i) 1"
    "dim d 2 0 = dim d 0 0" "dim d 2 1 = dim d 1 1" "\<not> activation_invalid d"
    using args by (auto simp: matmul_args_def)
  have wf: "descriptor_wf d" and fit: "?off + ?n \<le> length m"
    using assms(1) by (auto simp: dense_memory_ok_def)
  have sz: "?n = unat ?R * unat ?C"
    using tensor_size2 [OF wf, of 2] a by (simp add: dim_def)
  have lt: "?n < 2 ^ 32" using u32_lt by (simp add: t_size_def)
  let ?acc = "\<lambda>r c m. loop (\<lambda>k acc. do { p \<leftarrow> zp_product m
          (TensorData extmem_base (tensors d ! 0) + unat (r * ?K + k)) (zero_point (tensors d ! 0))
          (TensorData extmem_base (tensors d ! 1) + unat (k * ?C + c)) (zero_point (tensors d ! 1));
          s32 (acc + p) }) (u32_range ?K) 0"
  let ?t = "\<lambda>r c k. (s8_at m (t_off extmem_base d 0 + (r * dim d 0 1 + k)) - zero_point (tensors d ! 0)) *
        (s8_at m (t_off extmem_base d 1 + (k * dim d 1 1 + c)) - zero_point (tensors d ! 1))"
  have tb: "\<bar>?t r c k\<bar> \<le> 65025" for r c k
    using assms(1) by (intro zp_product_bound) (simp_all add: dense_memory_ok_def)
  have step: "?acc r c m' = Some (matmul_ref d extmem_base m (unat r) (unat c))"
    if r: "r < ?R" and c: "c < ?C" and so: "same_outside ?off ?n m m'" for r c m'
  proof -
    have "65025 * int (unat ?K) + \<bar>output_zero_point d\<bar> \<le> 2147483647" using assms(2) by (simp add: dim_def)
    then have room: "\<bar>0\<bar> + 65025 * int (unat ?K) \<le> 2147483647" by linarith
    have s: "(\<Sum>k < unat ?K. ?t (unat r) (unat c) (unat (of_nat k :: u32))) = matmul_ref d extmem_base m (unat r) (unat c)"
      unfolding matmul_ref_def dim_def
      by (intro sum.cong refl) (simp add: unat_of_nat_below [of _ ?K] del: One_nat_def)
    show ?thesis
      using dot_loop [where t = "\<lambda>k :: u32. ?t (unat r) (unat c) (unat k)",
          OF matmul_term [OF args assms(1) so r c] tb room] s by simp
  qed
  have range: "int32_range (matmul_ref d extmem_base m r c + output_zero_point d)" for r c
  proof -
    have "\<bar>matmul_ref d extmem_base m r c\<bar> \<le> 65025 * int (dim d 0 1)"
      unfolding matmul_ref_def using tb by (intro dot_bound)
    then show ?thesis using assms(2) by (auto simp: int32_range_def)
  qed
  obtain m' where m': "loop (\<lambda>r. loop (\<lambda>c m. do { a \<leftarrow> ?acc r c m; a \<leftarrow> s32 (a + output_zero_point d);
        store8 m (?off + unat (r * ?C + c)) (clamp_byte d a) }) (u32_range ?C)) (u32_range ?R) m = Some m'"
    and so: "same_outside ?off ?n m m'"
    and v: "\<forall>r < unat ?R. \<forall>c < unat ?C. s8_at m' (?off + (r * unat ?C + c)) =
      max (activation_min d) (min (activation_max d) (matmul_ref d extmem_base m r c + output_zero_point d))"
    using dense_output_loops [of ?R ?C ?off ?n m ?acc, OF step range sz lt fit a(4)] by blast
  have "RunGem5HybridMatMulInt8 d m extmem_base elapsed = Some (True, d\<lparr>
          operation_count := of_nat (dim d 0 0 * dim d 1 1 * dim d 0 1),
          bytes_read := of_nat ((t_size d 0 + t_size d 1) mod 2 ^ 32),
          bytes_written := of_nat (t_size d 2), host_elapsed_ns := elapsed \<rparr>, m')"
    using args m'
    by (simp add: RunGem5HybridMatMulInt8_def matmul_args_def Let_def all_less_3 dim_def t_size_def t_off_def
        word_unat_eq_iff ucast_sum2)
  then show ?thesis using args so v by (auto simp: dim_def)
qed

theorem RunGem5HybridMatMulInt8_correct_witness:
  "\<exists>d' m'. RunGem5HybridMatMulInt8 matmul_example dense_example_memory 0x20000000 5 = Some (True, d', m') \<and>
    same_outside 4 1 dense_example_memory m' \<and> s8_at m' 4 = 24"
proof -
  have a: "matmul_args matmul_example" by code_simp
  have r: "matmul_ref matmul_example 0x20000000 dense_example_memory 0 0 = 23"
    by (simp add: matmul_ref_def dense_example_defs dense_example_memory_def sum_less_2 s8_at_def)
  have m: "dense_memory_ok matmul_example 0x20000000 dense_example_memory 2"
    by (rule dense_example_memory_ok) simp_all
  have k: "65025 * int (dim matmul_example 0 1) + \<bar>output_zero_point matmul_example\<bar> \<le> 2147483647"
    by (simp add: dense_example_defs)
  show ?thesis
    using RunGem5HybridMatMulInt8_correct [OF m k, of 5] a r by (auto simp: dense_example_defs)
qed

section \<open>Fully connected layer\<close>

text \<open>The output is the last tensor: the third, or the fourth when there is a bias.\<close>

definition fc_out :: "coral_operator_descriptor \<Rightarrow> nat" where
  "fc_out d = (if tensor_count d = 4 then 3 else 2)"

definition fc_args :: "coral_operator_descriptor \<Rightarrow> bool" where
  "fc_args d \<longleftrightarrow> (tensor_count d = 3 \<or> tensor_count d = 4) \<and>
     (\<forall>i \<in> {0, 1, fc_out d}. element_type (tensors d ! i) = CORAL_OPERATOR_ELEMENT_INT8 \<and>
       rank (tensors d ! i) = 2 \<and> TensorBytesMatch (tensors d ! i) 1) \<and>
     (tensor_count d = 4 \<longrightarrow> element_type (tensors d ! 2) = CORAL_OPERATOR_ELEMENT_INT32 \<and>
       rank (tensors d ! 2) = 1 \<and> TensorBytesMatch (tensors d ! 2) 4 \<and> dim d 2 0 = dim d 1 0) \<and>
     dim d 1 1 = dim d 0 1 \<and> dim d (fc_out d) 0 = dim d 0 0 \<and> dim d (fc_out d) 1 = dim d 1 0 \<and>
     \<not> activation_invalid d"

definition fc_bias :: "coral_operator_descriptor \<Rightarrow> u32 \<Rightarrow> bytes \<Rightarrow> nat \<Rightarrow> int" where
  "fc_bias d extmem_base m c = (if tensor_count d = 4 then s32_at m (t_off extmem_base d 2 + 4 * c) else 0)"

definition fc_ref :: "coral_operator_descriptor \<Rightarrow> u32 \<Rightarrow> bytes \<Rightarrow> nat \<Rightarrow> nat \<Rightarrow> int" where
  "fc_ref d extmem_base m b c = fc_bias d extmem_base m c +
     (\<Sum>k < dim d 0 1.
        (s8_at m (t_off extmem_base d 0 + (b * dim d 0 1 + k)) - zero_point (tensors d ! 0)) *
        (s8_at m (t_off extmem_base d 1 + (c * dim d 0 1 + k)) - zero_point (tensors d ! 1)))"

lemma u32_3_or_4: "\<not> (w < 3 \<or> 4 < w) \<longleftrightarrow> w = 3 \<or> w = (4 :: u32)"
proof
  assume "\<not> (w < 3 \<or> 4 < w)"
  then have "unat w = 3 \<or> unat w = 4" by (auto simp: word_less_nat_alt)
  then show "w = 3 \<or> w = 4" by (auto simp: word_unat_eq_iff)
qed auto

lemma fc_term:
  assumes args: "fc_args d" and mem: "dense_memory_ok d extmem_base m (fc_out d)"
    and so: "same_outside (t_off extmem_base d (fc_out d)) (t_size d (fc_out d)) m m'"
    and b: "b < dimensions (tensors d ! 0) ! 0" and c: "c < dimensions (tensors d ! 1) ! 0"
    and k: "k < dimensions (tensors d ! 0) ! 1"
  shows "zp_product m' (TensorData extmem_base (tensors d ! 0) + unat (b * (dimensions (tensors d ! 0) ! 1) + k))
      (zero_point (tensors d ! 0))
      (TensorData extmem_base (tensors d ! 1) + unat (c * (dimensions (tensors d ! 0) ! 1) + k))
      (zero_point (tensors d ! 1)) =
    Some ((s8_at m (t_off extmem_base d 0 + (unat b * dim d 0 1 + unat k)) - zero_point (tensors d ! 0)) *
        (s8_at m (t_off extmem_base d 1 + (unat c * dim d 0 1 + unat k)) - zero_point (tensors d ! 1)))"
proof -
  have a: "\<And>i. i < 2 \<Longrightarrow> rank (tensors d ! i) = 2 \<and> TensorBytesMatch (tensors d ! i) 1"
    "dimensions (tensors d ! 1) ! 1 = dimensions (tensors d ! 0) ! 1"
    using args by (auto simp: fc_args_def dim_def word_unat_eq_iff numeral_2_eq_2 less_Suc_eq)
  have out: "2 \<le> fc_out d" by (simp add: fc_out_def)
  have wf: "descriptor_wf d" and z: "int8_range (zero_point (tensors d ! 0))" "int8_range (zero_point (tensors d ! 1))"
    and fit: "\<And>i. i < 2 \<Longrightarrow> t_off extmem_base d i + t_size d i \<le> length m"
    and ap: "\<And>i. i < 2 \<Longrightarrow> apart (t_off extmem_base d i) (t_size d i)
      (t_off extmem_base d (fc_out d)) (t_size d (fc_out d))"
    using mem out by (auto simp: dense_memory_ok_def)
  have sz: "t_size d 0 = dim d 0 0 * dim d 0 1" "t_size d 1 = dim d 1 0 * dim d 1 1"
    using tensor_size2 [OF wf, of 0] tensor_size2 [OF wf, of 1] a(1) by simp_all
  have lt: "t_size d 0 < 2 ^ 32" "t_size d 1 < 2 ^ 32"
    using u32_lt by (simp_all add: t_size_def)
  have i0: "unat (b * (dimensions (tensors d ! 0) ! 1) + k) = unat b * dim d 0 1 + unat k"
    "unat b * dim d 0 1 + unat k < t_size d 0"
    using radix2_word [OF b k] lt(1) sz(1) by (simp_all add: dim_def)
  have i1: "unat (c * (dimensions (tensors d ! 0) ! 1) + k) = unat c * dim d 0 1 + unat k"
    "unat c * dim d 0 1 + unat k < t_size d 1"
    using radix2_word [OF c k] lt(2) sz(2) a(2) by (simp_all add: dim_def)
  show ?thesis
    unfolding i0 i1 t_off_def
    using load_s8_at [OF so ap [of 0] i0(2) fit [of 0]] load_s8_at [OF so ap [of 1] i1(2) fit [of 1]] z
    by (intro zp_product_value) (simp_all add: t_off_def)
qed

lemma fc_load_bias:
  assumes args: "fc_args d" and mem: "dense_memory_ok d extmem_base m (fc_out d)"
    and so: "same_outside (t_off extmem_base d (fc_out d)) (t_size d (fc_out d)) m m'"
    and c: "c < dimensions (tensors d ! 1) ! 0"
  shows "(if tensor_count d = 4 then load_s32 m' (int (TensorData extmem_base (tensors d ! 2)) + 4 * uint c)
      else Some 0) = Some (fc_bias d extmem_base m (unat c))"
proof (cases "tensor_count d = 4")
  case True
  have sz: "t_size d 2 = 4 * dim d 1 0"
    using args mem True bias_size1 [of d 2] by (simp add: fc_args_def dense_memory_ok_def)
  have "unat c < dim d 1 0" using c by (simp add: dim_def word_less_nat_alt)
  moreover have "apart (t_off extmem_base d 2) (4 * dim d 1 0) (t_off extmem_base d (fc_out d)) (t_size d (fc_out d))"
    "t_off extmem_base d 2 + 4 * dim d 1 0 \<le> length m"
    using mem True sz [symmetric] by (simp_all add: dense_memory_ok_def fc_out_def)
  ultimately show ?thesis
    using load_s32_at [OF so, of "t_off extmem_base d 2" "dim d 1 0" "unat c"] True
    by (simp add: fc_bias_def t_off_def)
qed (simp add: fc_bias_def)

text \<open>
  C16: the fully connected kernel computes bias plus the product with the transposed weights.
  When its checks pass, its tensors lie in external memory apart from the output and the 32-bit
  accumulator has room, every output element is the clamped sum plus the output zero point and
  nothing outside the output changes; when its checks fail it returns false without any effect.
\<close>

theorem RunGem5HybridFullyConnectedInt8_correct:
  assumes "dense_memory_ok d extmem_base m (fc_out d)"
    and "\<forall>c < dim d 1 0. \<bar>fc_bias d extmem_base m c\<bar> + 65025 * int (dim d 0 1) + \<bar>output_zero_point d\<bar> \<le> 2147483647"
  shows "if fc_args d then
      \<exists>m'. RunGem5HybridFullyConnectedInt8 d m extmem_base elapsed = Some (True, d\<lparr>
          operation_count := of_nat (dim d 0 0 * dim d 1 0 * dim d 0 1),
          bytes_read := of_nat ((t_size d 0 + t_size d 1 + (if tensor_count d = 4 then t_size d 2 else 0)) mod 2 ^ 32),
          bytes_written := of_nat (t_size d (fc_out d)), host_elapsed_ns := elapsed \<rparr>, m') \<and>
        same_outside (t_off extmem_base d (fc_out d)) (t_size d (fc_out d)) m m' \<and>
        (\<forall>b < dim d 0 0. \<forall>c < dim d 1 0. s8_at m' (t_off extmem_base d (fc_out d) + (b * dim d 1 0 + c)) =
          max (activation_min d) (min (activation_max d) (fc_ref d extmem_base m b c + output_zero_point d)))
    else RunGem5HybridFullyConnectedInt8 d m extmem_base elapsed = Some (False, d, m)"
proof (cases "fc_args d")
  case False
  consider "tensor_count d = 3" | "tensor_count d = 4" | "tensor_count d < 3 \<or> 4 < tensor_count d"
    using u32_3_or_4 [of "tensor_count d"] by blast
  then have "RunGem5HybridFullyConnectedInt8 d m extmem_base elapsed = Some (False, d, m)"
    using False
    by cases (auto simp: RunGem5HybridFullyConnectedInt8_def fc_args_def Let_def fc_out_def dim_eq_iff)
  then show ?thesis using False by simp
next
  case args: True
  let ?R = "dimensions (tensors d ! 0) ! 0" and ?K = "dimensions (tensors d ! 0) ! 1"
    and ?C = "dimensions (tensors d ! 1) ! 0"
  let ?off = "t_off extmem_base d (fc_out d)" and ?n = "t_size d (fc_out d)"
  have a: "rank (tensors d ! fc_out d) = 2" "TensorBytesMatch (tensors d ! fc_out d) 1"
    "dim d (fc_out d) 0 = dim d 0 0" "dim d (fc_out d) 1 = dim d 1 0" "\<not> activation_invalid d"
    using args by (auto simp: fc_args_def)
  have wf: "descriptor_wf d" and fit: "?off + ?n \<le> length m"
    using assms(1) by (auto simp: dense_memory_ok_def)
  have sz: "?n = unat ?R * unat ?C"
    using tensor_size2 [OF wf, of "fc_out d"] a by (simp add: dim_def fc_out_def)
  have lt: "?n < 2 ^ 32" using u32_lt by (simp add: t_size_def)
  let ?acc = "\<lambda>b c m. do {
      a \<leftarrow> (if tensor_count d = 4 then load_s32 m (int (TensorData extmem_base (tensors d ! 2)) + 4 * uint c)
            else Some 0);
      loop (\<lambda>k acc. do { p \<leftarrow> zp_product m
          (TensorData extmem_base (tensors d ! 0) + unat (b * ?K + k)) (zero_point (tensors d ! 0))
          (TensorData extmem_base (tensors d ! 1) + unat (c * ?K + k)) (zero_point (tensors d ! 1));
          s32 (acc + p) }) (u32_range ?K) a }"
  let ?t = "\<lambda>b c k. (s8_at m (t_off extmem_base d 0 + (b * dim d 0 1 + k)) - zero_point (tensors d ! 0)) *
        (s8_at m (t_off extmem_base d 1 + (c * dim d 0 1 + k)) - zero_point (tensors d ! 1))"
  have tb: "\<bar>?t b c k\<bar> \<le> 65025" for b c k
    using assms(1) by (intro zp_product_bound) (simp_all add: dense_memory_ok_def)
  have step: "?acc b c m' = Some (fc_ref d extmem_base m (unat b) (unat c))"
    if b: "b < ?R" and c: "c < ?C" and so: "same_outside ?off ?n m m'" for b c m'
  proof -
    have "unat c < dim d 1 0" using c by (simp add: dim_def word_less_nat_alt)
    then have "\<bar>fc_bias d extmem_base m (unat c)\<bar> + 65025 * int (dim d 0 1) + \<bar>output_zero_point d\<bar> \<le> 2147483647"
      using assms(2) by simp
    then have room: "\<bar>fc_bias d extmem_base m (unat c)\<bar> + 65025 * int (unat ?K) \<le> 2147483647"
      unfolding dim_def by linarith
    have s: "(\<Sum>k < unat ?K. ?t (unat b) (unat c) (unat (of_nat k :: u32))) =
        fc_ref d extmem_base m (unat b) (unat c) - fc_bias d extmem_base m (unat c)"
      unfolding fc_ref_def dim_def add_diff_cancel_left'
      by (intro sum.cong refl) (simp add: unat_of_nat_below [of _ ?K] del: One_nat_def)
    show ?thesis
      unfolding fc_load_bias [OF args assms(1) so c] Option.bind_lunit
      using dot_loop [where t = "\<lambda>k :: u32. ?t (unat b) (unat c) (unat k)",
          OF fc_term [OF args assms(1) so b c] tb room] s by simp
  qed
  have range: "int32_range (fc_ref d extmem_base m b c + output_zero_point d)" if "c < unat ?C" for b c
  proof -
    have "\<bar>\<Sum>k < dim d 0 1. ?t b c k\<bar> \<le> 65025 * int (dim d 0 1)" using tb by (intro dot_bound)
    moreover have "\<bar>fc_bias d extmem_base m c\<bar> + 65025 * int (dim d 0 1) + \<bar>output_zero_point d\<bar> \<le> 2147483647"
      using assms(2) that by (simp add: dim_def)
    ultimately show ?thesis unfolding int32_range_def fc_ref_def by linarith
  qed
  obtain m' where m': "loop (\<lambda>b. loop (\<lambda>c m. do { a \<leftarrow> ?acc b c m; a \<leftarrow> s32 (a + output_zero_point d);
        store8 m (?off + unat (b * ?C + c)) (clamp_byte d a) }) (u32_range ?C)) (u32_range ?R) m = Some m'"
    and so: "same_outside ?off ?n m m'"
    and v: "\<forall>b < unat ?R. \<forall>c < unat ?C. s8_at m' (?off + (b * unat ?C + c)) =
      max (activation_min d) (min (activation_max d) (fc_ref d extmem_base m b c + output_zero_point d))"
    using dense_output_loops [of ?R ?C ?off ?n m ?acc, OF step range sz lt fit a(5)] by blast
  have "RunGem5HybridFullyConnectedInt8 d m extmem_base elapsed = Some (True, d\<lparr>
          operation_count := of_nat (dim d 0 0 * dim d 1 0 * dim d 0 1),
          bytes_read := of_nat ((t_size d 0 + t_size d 1 + (if tensor_count d = 4 then t_size d 2 else 0)) mod 2 ^ 32),
          bytes_written := of_nat (t_size d (fc_out d)), host_elapsed_ns := elapsed \<rparr>, m')"
  proof (cases "tensor_count d = 4")
    case True
    then show ?thesis
      using args [unfolded fc_args_def dim_eq_iff] m'
      by (simp add: RunGem5HybridFullyConnectedInt8_def Let_def fc_out_def conv_accessors ucast_sum3)
  next
    case False
    then have "tensor_count d = 3" using args by (simp add: fc_args_def)
    then show ?thesis
      using args [unfolded fc_args_def dim_eq_iff] m'
      by (simp add: RunGem5HybridFullyConnectedInt8_def Let_def fc_out_def conv_accessors ucast_sum2)
  qed
  then show ?thesis using args so v by (auto simp: dim_def)
qed

theorem RunGem5HybridFullyConnectedInt8_correct_witness:
  "\<exists>d' m'. RunGem5HybridFullyConnectedInt8 fc_example dense_example_memory 0x20000000 5 = Some (True, d', m') \<and>
    same_outside 4 1 dense_example_memory m' \<and> s8_at m' 4 = 24"
proof -
  have a: "fc_args fc_example" by code_simp
  have o': "fc_out fc_example = 2" by code_simp
  have r: "fc_ref fc_example 0x20000000 dense_example_memory 0 0 = 23"
    by (simp add: fc_ref_def fc_bias_def dense_example_defs dense_example_memory_def sum_less_2 s8_at_def)
  have m: "dense_memory_ok fc_example 0x20000000 dense_example_memory (fc_out fc_example)"
    unfolding o' by (rule dense_example_memory_ok) simp_all
  have k: "\<forall>c < dim fc_example 1 0. \<bar>fc_bias fc_example 0x20000000 dense_example_memory c\<bar> +
      65025 * int (dim fc_example 0 1) + \<bar>output_zero_point fc_example\<bar> \<le> 2147483647"
    by (simp add: fc_bias_def dense_example_defs)
  show ?thesis
    using RunGem5HybridFullyConnectedInt8_correct [OF m k, of 5] a r o' by (auto simp: dense_example_defs)
qed

section \<open>Addition\<close>

lemma SameShape_loop_value:
  "\<forall>i \<in> set is. i < length ls \<and> i < length rs \<Longrightarrow>
    SameShape_loop is ls rs = Some (\<forall>i \<in> set is. ls ! i = rs ! i)"
  by (induction "is") auto

lemma SameShape_value:
  assumes "tensor_wf l" "tensor_wf r" "rank l \<le> 4"
  shows "SameShape l r = Some (rank l = rank r \<and>
    take (unat (rank l)) (dimensions l) = take (unat (rank r)) (dimensions r))"
proof -
  have n: "unat (rank l) \<le> 4" using assms(3) by (simp add: word_le_nat_alt)
  have len: "length (dimensions l) = 4" "length (dimensions r) = 4" using assms by (auto simp: tensor_wf_def)
  have "SameShape_loop [0..<unat (rank l)] (dimensions l) (dimensions r) =
      Some (\<forall>i \<in> set [0..<unat (rank l)]. dimensions l ! i = dimensions r ! i)"
    using n len by (intro SameShape_loop_value) auto
  moreover have "(\<forall>i \<in> set [0..<unat (rank l)]. dimensions l ! i = dimensions r ! i) \<longleftrightarrow>
      take (unat (rank l)) (dimensions l) = take (unat (rank l)) (dimensions r)"
    using n len by (auto simp: list_eq_iff_nth_eq)
  ultimately show ?thesis by (auto simp: SameShape_def)
qed

definition add_args :: "coral_operator_descriptor \<Rightarrow> bool" where
  "add_args d \<longleftrightarrow> tensor_count d = 3 \<and>
     (\<forall>i < 3. element_type (tensors d ! i) = CORAL_OPERATOR_ELEMENT_INT8 \<and>
       rank (tensors d ! i) = rank (tensors d ! 0) \<and>
       take (unat (rank (tensors d ! i))) (dimensions (tensors d ! i)) =
         take (unat (rank (tensors d ! 0))) (dimensions (tensors d ! 0)) \<and>
       TensorBytesMatch (tensors d ! i) 1) \<and> \<not> activation_invalid d"

definition add_ref :: "coral_operator_descriptor \<Rightarrow> u32 \<Rightarrow> bytes \<Rightarrow> nat \<Rightarrow> int" where
  "add_ref d extmem_base m i =
     (s8_at m (t_off extmem_base d 0 + i) - zero_point (tensors d ! 0)) +
     (s8_at m (t_off extmem_base d 1 + i) - zero_point (tensors d ! 1)) + output_zero_point d"

lemma add_rejects:
  assumes "descriptor_wf d" "rank (tensors d ! 0) \<le> 4" "\<not> add_args d"
  shows "RunGem5HybridAddInt8 d m extmem_base elapsed = Some (False, d, m)"
proof -
  have wf: "tensor_wf (tensors d ! 0)" "tensor_wf (tensors d ! 1)" "tensor_wf (tensors d ! 2)"
    using assms(1) by (auto simp: descriptor_wf_def list_all_length)
  show ?thesis
    using assms(3) SameShape_value [OF wf(1,2) assms(2)] SameShape_value [OF wf(1,3) assms(2)]
    by (auto simp: RunGem5HybridAddInt8_def add_args_def Let_def all_less_3)
qed

text \<open>
  the addition kernel adds. When its checks pass, its tensors lie in external memory with
  the inputs apart from the output and the zero points are 8-bit values, every output element is
  the clamped sum of the two zero-point corrected inputs and the output zero point, and nothing
  outside the output changes; when its checks fail it returns false without any effect.
\<close>

theorem RunGem5HybridAddInt8_correct:
  assumes "dense_memory_ok d extmem_base m 2" "rank (tensors d ! 0) \<le> 4"
    and "\<bar>output_zero_point d\<bar> \<le> 2147483137"
  shows "if add_args d then
      \<exists>m'. RunGem5HybridAddInt8 d m extmem_base elapsed = Some (True, d\<lparr>
          operation_count := of_nat (t_size d 2),
          bytes_read := of_nat ((t_size d 0 + t_size d 1) mod 2 ^ 32),
          bytes_written := of_nat (t_size d 2), host_elapsed_ns := elapsed \<rparr>, m') \<and>
        same_outside (t_off extmem_base d 2) (t_size d 2) m m' \<and>
        (\<forall>i < t_size d 2. s8_at m' (t_off extmem_base d 2 + i) =
          max (activation_min d) (min (activation_max d) (add_ref d extmem_base m i)))
    else RunGem5HybridAddInt8 d m extmem_base elapsed = Some (False, d, m)"
proof (cases "add_args d")
  case False
  then show ?thesis using add_rejects [OF _ assms(2)] assms(1) by (simp add: dense_memory_ok_def)
next
  case args: True
  let ?off = "t_off extmem_base d 2" and ?n = "t_size d 2"
  have wf: "descriptor_wf d" and z: "int8_range (zero_point (tensors d ! 0))" "int8_range (zero_point (tensors d ! 1))"
    and fit: "\<And>i. i \<le> 2 \<Longrightarrow> t_off extmem_base d i + t_size d i \<le> length m"
    and ap: "\<And>i. i < 2 \<Longrightarrow> apart (t_off extmem_base d i) (t_size d i) ?off ?n"
    using assms(1) by (auto simp: dense_memory_ok_def)
  have twf: "tensor_wf (tensors d ! 0)" "tensor_wf (tensors d ! 1)" "tensor_wf (tensors d ! 2)"
    using wf by (auto simp: descriptor_wf_def list_all_length)
  have match: "\<And>i. i < 3 \<Longrightarrow> TensorBytesMatch (tensors d ! i) 1" and act: "\<not> activation_invalid d"
    using args by (auto simp: add_args_def)
  have size_eq: "t_size d i = prod_list (map unat (take (unat (rank (tensors d ! 0))) (dimensions (tensors d ! 0))))"
    if "i < 3" for i
  proof -
    have "take (unat (rank (tensors d ! i))) (dimensions (tensors d ! i)) =
        take (unat (rank (tensors d ! 0))) (dimensions (tensors d ! 0))"
      using args that unfolding add_args_def by blast
    then show ?thesis unfolding t_size_def TensorBytesMatch_bytes [OF match [OF that]] by (simp only:)
  qed
  have sz: "t_size d 0 = ?n" "t_size d 1 = ?n"
    using size_eq [of 0] size_eq [of 1] size_eq [of 2] by simp_all
  have same: "SameShape (tensors d ! 0) (tensors d ! 1) = Some True" "SameShape (tensors d ! 0) (tensors d ! 2) = Some True"
  proof -
    have "rank (tensors d ! 0) = rank (tensors d ! i) \<and> take (unat (rank (tensors d ! 0))) (dimensions (tensors d ! 0)) =
        take (unat (rank (tensors d ! i))) (dimensions (tensors d ! i))" if "i < 3" for i
      using args that unfolding add_args_def by metis
    note shape = eqTrueI [OF this]
    have lt: "1 < (3 :: nat)" "2 < (3 :: nat)" by simp_all
    show "SameShape (tensors d ! 0) (tensors d ! 1) = Some True"
      unfolding SameShape_value [OF twf(1,2) assms(2)] shape [OF lt(1)] by (rule refl)
    show "SameShape (tensors d ! 0) (tensors d ! 2) = Some True"
      unfolding SameShape_value [OF twf(1,3) assms(2)] shape [OF lt(2)] by (rule refl)
  qed
  have cnt: "ElementCount (tensors d ! 2) = ucast (tsize (tensors d ! 2))"
    using match [of 2] by (simp add: TensorBytesMatch_def)
  let ?g = "\<lambda>i m. do { a \<leftarrow> load_s8 m (TensorData extmem_base (tensors d ! 0) + i);
      x \<leftarrow> s32 (a - zero_point (tensors d ! 0));
      b \<leftarrow> load_s8 m (TensorData extmem_base (tensors d ! 1) + i);
      y \<leftarrow> s32 (b - zero_point (tensors d ! 1));
      xy \<leftarrow> s32 (x + y); v \<leftarrow> s32 (xy + output_zero_point d); Some (clamp_byte d v) }"
  have step: "?g i m' = Some (clamp_byte d (add_ref d extmem_base m i))"
    if i: "i \<in> set [0..<?n]" and so: "same_outside ?off ?n m m'" for i m'
  proof -
    have l: "load_s8 m' (TensorData extmem_base (tensors d ! 0) + i) = Some (s8_at m (t_off extmem_base d 0 + i))"
      "load_s8 m' (TensorData extmem_base (tensors d ! 1) + i) = Some (s8_at m (t_off extmem_base d 1 + i))"
      using load_s8_at [OF so ap [of 0] _ fit [of 0], of i] load_s8_at [OF so ap [of 1] _ fit [of 1], of i] i sz
      by (simp_all add: t_off_def)
    have b: "- 128 \<le> s8_at m a \<and> s8_at m a \<le> 127" for a using s8_at_bounds [of m a] by simp
    have "int32_range (s8_at m (t_off extmem_base d 0 + i) - zero_point (tensors d ! 0))"
      "int32_range (s8_at m (t_off extmem_base d 1 + i) - zero_point (tensors d ! 1))"
      "int32_range ((s8_at m (t_off extmem_base d 0 + i) - zero_point (tensors d ! 0)) +
        (s8_at m (t_off extmem_base d 1 + i) - zero_point (tensors d ! 1)))"
      "int32_range (add_ref d extmem_base m i)"
      using b [of "t_off extmem_base d 0 + i"] b [of "t_off extmem_base d 1 + i"] z assms(3)
      unfolding int32_range_def int8_range_def add_ref_def by linarith+
    then show ?thesis by (simp add: l add_ref_def del: One_nat_def)
  qed
  have "\<exists>m'. loop (\<lambda>i m. do { b \<leftarrow> ?g i m; store8 m (?off + i) b }) [0..<?n] m = Some m' \<and>
      same_outside ?off ?n m m' \<and>
      (\<forall>i \<in> set [0..<?n]. m' ! (?off + i) = clamp_byte d (add_ref d extmem_base m i)) \<and>
      (\<forall>j < ?n. j \<notin> id ` set [0..<?n] \<longrightarrow> m' ! (?off + j) = m ! (?off + j))"
    using step fit [of 2] loop_store8 [of "[0..<?n]" ?off ?n m ?g _ id] by (simp add: inj_on_def)
  then obtain m' where m': "loop (\<lambda>i m. do { b \<leftarrow> ?g i m; store8 m (?off + i) b }) [0..<?n] m = Some m'"
    and so: "same_outside ?off ?n m m'" and v: "\<forall>i < ?n. m' ! (?off + i) = clamp_byte d (add_ref d extmem_base m i)"
    by auto
  have "RunGem5HybridAddInt8 d m extmem_base elapsed = Some (True, d\<lparr>
          operation_count := of_nat (t_size d 2), bytes_read := of_nat ((t_size d 0 + t_size d 1) mod 2 ^ 32),
          bytes_written := of_nat (t_size d 2), host_elapsed_ns := elapsed \<rparr>, m')"
    using args m' same cnt
    by (simp add: RunGem5HybridAddInt8_def add_args_def Let_def all_less_3 t_size_def t_off_def ucast_sum2
        Option.bind_assoc)
  moreover have "\<forall>i < ?n. s8_at m' (?off + i) =
      max (activation_min d) (min (activation_max d) (add_ref d extmem_base m i))"
    using v clamp_byte_value [OF act] by (simp add: s8_at_def)
  ultimately show ?thesis using args so by auto
qed

theorem RunGem5HybridAddInt8_correct_witness:
  "\<exists>d' m'. RunGem5HybridAddInt8 add_example dense_example_memory 0x20000000 5 = Some (True, d', m') \<and>
    same_outside 4 2 dense_example_memory m' \<and> s8_at m' 4 = 7 \<and> s8_at m' 5 = 9"
proof -
  have a: "add_args add_example" by code_simp
  have r: "add_ref add_example 0x20000000 dense_example_memory 0 = 7"
    "add_ref add_example 0x20000000 dense_example_memory 1 = 9"
    by (simp_all add: add_ref_def dense_example_defs dense_example_memory_def s8_at_def)
  have m: "dense_memory_ok add_example 0x20000000 dense_example_memory 2"
    by (rule dense_example_memory_ok) simp_all
  have k: "rank (tensors add_example ! 0) \<le> 4" "\<bar>output_zero_point add_example\<bar> \<le> 2147483137"
    by (simp_all add: dense_example_defs)
  show ?thesis
    using RunGem5HybridAddInt8_correct [OF m k, of 5] a r by (auto simp: dense_example_defs all_less_2)
qed

end
