(* ===== verification/Hybrid_Float_Kernels.thy ===== *)
theory Hybrid_Float_Kernels
  imports Hybrid_Kernel_Lemmas
begin

text \<open>
  The softmax and layer normalization kernels (\<open>gem5_bridge/gem5_hybrid_kernels.cc\<close>). A \<open>float\<close>
  is its 32-bit pattern; the machine's float operations and the C++ library's \<open>exp\<close>, \<open>sqrt\<close>,
  \<open>isfinite\<close> and \<open>lround\<close> are the fields of a record that the kernels take as a parameter. What
  is shown here holds for every choice of them: which bytes the kernels write, that they return,
  and which expression each output element is.
\<close>

record float_ops =
  f_add :: "u32 \<Rightarrow> u32 \<Rightarrow> u32"
  f_sub :: "u32 \<Rightarrow> u32 \<Rightarrow> u32"
  f_mul :: "u32 \<Rightarrow> u32 \<Rightarrow> u32"
  f_div :: "u32 \<Rightarrow> u32 \<Rightarrow> u32"
  f_less :: "u32 \<Rightarrow> u32 \<Rightarrow> bool"
  f_le :: "u32 \<Rightarrow> u32 \<Rightarrow> bool"
  f_eq :: "u32 \<Rightarrow> u32 \<Rightarrow> bool"
  f_isfinite :: "u32 \<Rightarrow> bool"
  f_exp :: "u32 \<Rightarrow> u32"
  f_sqrt :: "u32 \<Rightarrow> u32"
  f_of_int :: "int \<Rightarrow> u32"
  f_lround :: "u32 \<Rightarrow> int"

text \<open>The float constants of the source as bit patterns: 0, 1, 255 and \<open>1.0e-5f\<close>.\<close>

abbreviation (input) F_0 :: u32 where "F_0 \<equiv> 0"
abbreviation (input) F_1 :: u32 where "F_1 \<equiv> 0x3f800000"
abbreviation (input) F_255 :: u32 where "F_255 \<equiv> 0x437f0000"
abbreviation (input) F_1e_5 :: u32 where "F_1e_5 \<equiv> 0x3727c5ac"

text \<open>\<open>std::max(a, b)\<close> is \<open>b\<close> if \<open>a < b\<close> and \<open>a\<close> otherwise.\<close>

definition f_max :: "float_ops \<Rightarrow> u32 \<Rightarrow> u32 \<Rightarrow> u32" where
  "f_max F a b = (if f_less F a b then b else a)"

definition FloatBits :: "float_ops \<Rightarrow> u32 \<Rightarrow> bool \<times> u32" where
  "FloatBits F bits = (f_isfinite F bits, bits)"

section \<open>Softmax\<close>

definition softmax_float_row :: "float_ops \<Rightarrow> nat \<Rightarrow> nat \<Rightarrow> nat \<Rightarrow> bytes \<Rightarrow> (bool \<times> bytes) option" where
  "softmax_float_row F row_input row_output depth m =
     do {
       first \<leftarrow> load32 m row_input;
       max_value \<leftarrow> loop (\<lambda>i max_value. do {
           x \<leftarrow> load32 m (row_input + 4 * i); Some (f_max F max_value x) }) [1..<depth] first;
       (m1, sum) \<leftarrow> loop (\<lambda>i (m, sum). do {
           x \<leftarrow> load32 m (row_input + 4 * i);
           m' \<leftarrow> store32 m (row_output + 4 * i) (f_exp F (f_sub F x max_value));
           y \<leftarrow> load32 m' (row_output + 4 * i);
           Some (m', f_add F sum y) }) [0..<depth] (m, F_0);
       if f_eq F sum F_0 \<or> \<not> f_isfinite F sum then Some (False, m1)
       else do {
         m2 \<leftarrow> loop (\<lambda>i m. do {
             y \<leftarrow> load32 m (row_output + 4 * i);
             store32 m (row_output + 4 * i) (f_div F y sum) }) [0..<depth] m1;
         Some (True, m2) } }"

definition softmax_int8_row :: "float_ops \<Rightarrow> nat \<Rightarrow> nat \<Rightarrow> nat \<Rightarrow> bytes \<Rightarrow> (bool \<times> bytes) option" where
  "softmax_int8_row F row_input row_output depth m =
     do {
       first \<leftarrow> load_s8 m row_input;
       max_value \<leftarrow> loop (\<lambda>i max_value. do {
           x \<leftarrow> load_s8 m (row_input + i); Some (f_max F max_value (f_of_int F x)) })
         [1..<depth] (f_of_int F first);
       sum \<leftarrow> loop (\<lambda>i sum. do {
           x \<leftarrow> load_s8 m (row_input + i);
           Some (f_add F sum (f_exp F (f_sub F (f_of_int F x) max_value))) }) [0..<depth] F_0;
       if f_eq F sum F_0 \<or> \<not> f_isfinite F sum then Some (False, m)
       else do {
         m1 \<leftarrow> loop (\<lambda>i m. do {
             x \<leftarrow> load_s8 m (row_input + i);
             let probability = f_div F (f_exp F (f_sub F (f_of_int F x) max_value)) sum;
             quantized \<leftarrow> s32 (to_int32 (word_of_int (f_lround F (f_mul F probability F_255))) - 128);
             store8 m (row_output + i) (word_of_int (max INT8_MIN (min INT8_MAX quantized))) }) [0..<depth] m;
         Some (True, m1) } }"

definition RunGem5HybridSoftmax ::
  "float_ops \<Rightarrow> coral_operator_descriptor \<Rightarrow> bytes \<Rightarrow> u32 \<Rightarrow> u64 \<Rightarrow> kernel_result" where
  "RunGem5HybridSoftmax F d m extmem_base elapsed =
     (let input = tensors d ! 0; output = tensors d ! 1 in
      if tensor_count d \<noteq> 2 \<or> rank input = 0 then Some (False, d, m)
      else do {
        same \<leftarrow> SameShape input output;
        if \<not> same then Some (False, d, m)
        else if CORAL_OPERATOR_MAX_DIMS < rank input then None
        else
          let depth = dimensions input ! unat (rank input - 1); total = ElementCount input in
          if depth = 0 \<or> total = 0 \<or> total mod ucast depth \<noteq> 0 then Some (False, d, m)
          else
            let rows = unat (total div ucast depth); n = unat depth;
                is_float = (element_type input = CORAL_OPERATOR_ELEMENT_FLOAT32 \<and>
                  element_type output = CORAL_OPERATOR_ELEMENT_FLOAT32 \<and>
                  TensorBytesMatch input 4 \<and> TensorBytesMatch output 4);
                is_int8 = (element_type input = CORAL_OPERATOR_ELEMENT_INT8 \<and>
                  element_type output = CORAL_OPERATOR_ELEMENT_INT8 \<and>
                  TensorBytesMatch input 1 \<and> TensorBytesMatch output 1)
            in if \<not> is_float \<and> \<not> is_int8 then Some (False, d, m)
            else do {
              (ok, m') \<leftarrow> (if is_float
                then loop_ok (\<lambda>row. softmax_float_row F (TensorData extmem_base input + 4 * (row * n))
                  (TensorData extmem_base output + 4 * (row * n)) n) [0..<rows] m
                else loop_ok (\<lambda>row. softmax_int8_row F (TensorData extmem_base input + row * n)
                  (TensorData extmem_base output + row * n) n) [0..<rows] m);
              if \<not> ok then Some (False, d, m')
              else Some (True, d\<lparr>
                operation_count := total, bytes_read := ucast (tsize input),
                bytes_written := ucast (tsize output), host_elapsed_ns := elapsed \<rparr>, m') } })"

section \<open>Layer normalization\<close>

definition layer_norm_row :: "float_ops \<Rightarrow> u32 \<Rightarrow> nat \<Rightarrow> nat \<Rightarrow> nat \<Rightarrow> nat \<Rightarrow> u32 \<Rightarrow> bytes \<Rightarrow> bytes option" where
  "layer_norm_row F epsilon row_input scale_data bias_data row_output depth m =
     do {
       let n = unat depth;
       total \<leftarrow> loop (\<lambda>i mean. do { x \<leftarrow> load32 m (row_input + 4 * i); Some (f_add F mean x) }) [0..<n] F_0;
       let mean = f_div F total (f_of_int F (uint depth));
       square \<leftarrow> loop (\<lambda>i variance. do {
           x \<leftarrow> load32 m (row_input + 4 * i);
           let centered = f_sub F x mean;
           Some (f_add F variance (f_mul F centered centered)) }) [0..<n] F_0;
       let variance = f_div F square (f_of_int F (uint depth));
       let inv_stddev = f_div F F_1 (f_sqrt F (f_add F variance epsilon));
       loop (\<lambda>i m. do {
           x \<leftarrow> load32 m (row_input + 4 * i);
           scale \<leftarrow> load32 m (scale_data + 4 * i);
           bias \<leftarrow> load32 m (bias_data + 4 * i);
           store32 m (row_output + 4 * i)
             (f_add F (f_mul F (f_mul F (f_sub F x mean) inv_stddev) scale) bias) }) [0..<n] m }"

definition RunGem5HybridLayerNorm ::
  "float_ops \<Rightarrow> coral_operator_descriptor \<Rightarrow> bytes \<Rightarrow> u32 \<Rightarrow> u64 \<Rightarrow> kernel_result" where
  "RunGem5HybridLayerNorm F d m extmem_base elapsed =
     (let input = tensors d ! 0; scale = tensors d ! 1; bias = tensors d ! 2; output = tensors d ! 3 in
      if tensor_count d \<noteq> 4 \<or>
         element_type input \<noteq> CORAL_OPERATOR_ELEMENT_FLOAT32 \<or>
         element_type scale \<noteq> CORAL_OPERATOR_ELEMENT_FLOAT32 \<or>
         element_type bias \<noteq> CORAL_OPERATOR_ELEMENT_FLOAT32 \<or>
         element_type output \<noteq> CORAL_OPERATOR_ELEMENT_FLOAT32 \<or> rank input = 0
      then Some (False, d, m)
      else do {
        same \<leftarrow> SameShape input output;
        if \<not> same \<or> rank scale \<noteq> 1 \<or> rank bias \<noteq> 1 \<or>
           \<not> TensorBytesMatch input 4 \<or> \<not> TensorBytesMatch scale 4 \<or>
           \<not> TensorBytesMatch bias 4 \<or> \<not> TensorBytesMatch output 4
        then Some (False, d, m)
        else if CORAL_OPERATOR_MAX_DIMS < rank input then None
        else
          let depth = dimensions input ! unat (rank input - 1); total = ElementCount input in
          if depth = 0 \<or> total = 0 \<or> total mod ucast depth \<noteq> 0 \<or>
             dimensions scale ! 0 \<noteq> depth \<or> dimensions bias ! 0 \<noteq> depth
          then Some (False, d, m)
          else
            let r0 = reserved d ! 0;
                epsilon = (if r0 \<noteq> 0 then snd (FloatBits F r0) else F_1e_5) in
            if r0 \<noteq> 0 \<and> (\<not> fst (FloatBits F r0) \<or> f_le F epsilon F_0) then Some (False, d, m)
            else
              let rows = unat (total div ucast depth); n = unat depth in
              do {
                m' \<leftarrow> loop (\<lambda>row. layer_norm_row F epsilon
                    (TensorData extmem_base input + 4 * (row * n))
                    (TensorData extmem_base scale) (TensorData extmem_base bias)
                    (TensorData extmem_base output + 4 * (row * n)) depth) [0..<rows] m;
                Some (True, d\<lparr>
                  operation_count := total * 5,
                  bytes_read := ucast (tsize input + tsize scale + tsize bias),
                  bytes_written := ucast (tsize output), host_elapsed_ns := elapsed \<rparr>, m') } })"

end
