(* ===== verification/Hybrid_Frame.thy ===== *)
theory Hybrid_Frame
  imports Hybrid_Conv Hybrid_Dense Hybrid_Float_Kernels
begin

text \<open>
  What every kernel leaves alone, on every path and with no assumption about aliasing or
  arithmetic: bytes outside the output tensor, and all of the descriptor but the four counters;
  a kernel that returns false leaves the descriptor as it was.
\<close>

definition counters_only :: "coral_operator_descriptor \<Rightarrow> coral_operator_descriptor \<Rightarrow> bool" where
  "counters_only d d' \<longleftrightarrow> d' = d\<lparr> operation_count := operation_count d', bytes_read := bytes_read d',
     bytes_written := bytes_written d', host_elapsed_ns := host_elapsed_ns d' \<rparr>"

definition kernel_frame ::
  "nat \<Rightarrow> coral_operator_descriptor \<Rightarrow> bytes \<Rightarrow> u32 \<Rightarrow> bool \<times> coral_operator_descriptor \<times> bytes \<Rightarrow> bool" where
  "kernel_frame n d m extmem_base res \<longleftrightarrow>
     (case res of (r, d', m') \<Rightarrow>
        same_outside (t_off extmem_base d n) (t_size d n) m m' \<and> counters_only d d' \<and> (\<not> r \<longrightarrow> d' = d))"

lemma kernel_frame_refl [simp]: "kernel_frame n d m extmem_base (False, d, m)"
  by (simp add: kernel_frame_def counters_only_def)

lemma kernel_frame_true:
  "same_outside (t_off extmem_base d n) (t_size d n) m m' \<Longrightarrow>
   kernel_frame n d m extmem_base (True, d\<lparr> operation_count := a, bytes_read := b, bytes_written := c,
     host_elapsed_ns := e \<rparr>, m')"
  by (simp add: kernel_frame_def counters_only_def)

section \<open>Integer kernels\<close>

lemma bind_store8_same_outside:
  "Option.bind g (\<lambda>r. store8 m (a + k) (h r)) = Some m' \<Longrightarrow> k < n \<Longrightarrow> same_outside a n m m'"
  by (auto split: bind_splits dest: store8_same_outside)

lemma loop2_frame:
  assumes "loop (\<lambda>r. loop (\<lambda>c m. f r c m) cs) rs m = Some m'"
    and "\<And>r c m m'. r \<in> set rs \<Longrightarrow> c \<in> set cs \<Longrightarrow> f r c m = Some m' \<Longrightarrow> same_outside a n m m'"
  shows "same_outside a n m m'"
  by (rule loop_same_outside [OF assms(1)]) (rule loop_same_outside, assumption, rule assms(2))

lemma loop4_frame:
  assumes "loop (\<lambda>b. loop (\<lambda>y. loop (\<lambda>x. loop (\<lambda>c m. f b y x c m) cs) xs) ys) bs m = Some m'"
    and "\<And>b y x c m m'. b \<in> set bs \<Longrightarrow> y \<in> set ys \<Longrightarrow> x \<in> set xs \<Longrightarrow> c \<in> set cs \<Longrightarrow>
      f b y x c m = Some m' \<Longrightarrow> same_outside a n m m'"
  shows "same_outside a n m m'"
  by (rule loop2_frame [OF assms(1)]) (rule loop2_frame, assumption, rule assms(2))

lemma conv_index_lt:
  assumes "CommonConvValid d dw = Some True" "descriptor_wf d" "\<forall>i < 4. t_size d i \<noteq> 0"
    and "b < dimensions (tensors d ! 0) ! 0" "y < dimensions (tensors d ! 3) ! 1"
      "x < dimensions (tensors d ! 3) ! 2" "c < dimensions (tensors d ! 3) ! 3"
  shows "unat (((b * (dimensions (tensors d ! 3) ! 1) + y) * (dimensions (tensors d ! 3) ! 2) + x) *
    (dimensions (tensors d ! 3) ! 3) + c) < t_size d 3"
proof -
  have sz: "t_size d 3 = dim d 0 0 * dim d 3 1 * dim d 3 2 * dim d 3 3"
    using assms(1-3) by (rule conv_output_size)
  have lt: "t_size d 3 < 2 ^ 32" using u32_lt by (simp add: t_size_def)
  have "unat (((b * (dimensions (tensors d ! 3) ! 1) + y) * (dimensions (tensors d ! 3) ! 2) + x) *
    (dimensions (tensors d ! 3) ! 3) + c) =
    index4 (dim d 3 1) (dim d 3 2) (dim d 3 3) (unat b) (unat y) (unat x) (unat c)"
    unfolding dim_def using assms(4-7) lt sz by (intro index4_word) (simp_all add: dim_def)
  also have "\<dots> < t_size d 3"
    unfolding sz using assms(4-7) by (intro index4_lt) (simp_all add: dim_def word_less_nat_alt)
  finally show ?thesis .
qed

text \<open>Either convolution: two checks, then the four loops around one store.\<close>

lemma guarded_frame:
  assumes "do { valid \<leftarrow> V; if \<not> valid then Some (False, d, m)
       else do { ok \<leftarrow> S; if \<not> ok then Some (False, d, m)
         else do { m' \<leftarrow> L; Some (True, d\<lparr> operation_count := c1, bytes_read := c2, bytes_written := c3,
           host_elapsed_ns := c4 \<rparr>, m') } } } = Some res"
    and "\<And>m'. V = Some True \<Longrightarrow> L = Some m' \<Longrightarrow> same_outside (t_off extmem_base d n) (t_size d n) m m'"
  shows "kernel_frame n d m extmem_base res"
  using assms by (auto split: bind_splits if_splits intro: kernel_frame_true)

lemma conv_loops_frame:
  assumes "loop (\<lambda>batch. loop (\<lambda>out_y. loop (\<lambda>out_x. loop (\<lambda>out_c m. do {
        accumulator \<leftarrow> acc m batch out_y out_x out_c;
        b \<leftarrow> conv_requantize d extmem_base m out_c accumulator;
        store8 m (TensorData extmem_base (tensors d ! 3) +
          unat (((batch * (dimensions (tensors d ! 3) ! 1) + out_y) *
            (dimensions (tensors d ! 3) ! 2) + out_x) * (dimensions (tensors d ! 3) ! 3) + out_c)) b })
      (u32_range (dimensions (tensors d ! 3) ! 3))) (u32_range (dimensions (tensors d ! 3) ! 2)))
      (u32_range (dimensions (tensors d ! 3) ! 1))) (u32_range (dimensions (tensors d ! 0) ! 0)) m = Some m'"
    and "CommonConvValid d dw = Some True" "descriptor_wf d" "\<forall>i < 4. t_size d i \<noteq> 0"
  shows "same_outside (t_off extmem_base d 3) (t_size d 3) m m'"
  unfolding t_off_def
proof (rule loop4_frame [OF assms(1)])
  fix b y x c and m m' :: bytes
  assume "b \<in> set (u32_range (dimensions (tensors d ! 0) ! 0))" "y \<in> set (u32_range (dimensions (tensors d ! 3) ! 1))"
    "x \<in> set (u32_range (dimensions (tensors d ! 3) ! 2))" "c \<in> set (u32_range (dimensions (tensors d ! 3) ! 3))"
  then have k: "unat (((b * (dimensions (tensors d ! 3) ! 1) + y) * (dimensions (tensors d ! 3) ! 2) + x) *
      (dimensions (tensors d ! 3) ! 3) + c) < t_size d 3"
    by (intro conv_index_lt [OF assms(2-4)]) simp_all
  assume "do { accumulator \<leftarrow> acc m b y x c; r \<leftarrow> conv_requantize d extmem_base m c accumulator;
      store8 m (TensorData extmem_base (tensors d ! 3) + unat (((b * (dimensions (tensors d ! 3) ! 1) + y) *
        (dimensions (tensors d ! 3) ! 2) + x) * (dimensions (tensors d ! 3) ! 3) + c)) r } = Some m'"
  then show "same_outside (TensorData extmem_base (tensors d ! 3)) (t_size d 3) m m'"
    using k by (auto split: bind_splits intro: store8_same_outside)
qed

lemma RunGem5HybridConv2D_frame:
  assumes "RunGem5HybridConv2D d m extmem_base elapsed = Some res"
    and "descriptor_wf d" "\<forall>i < 4. t_size d i \<noteq> 0"
  shows "kernel_frame 3 d m extmem_base res"
  by (rule guarded_frame [OF assms(1) [unfolded RunGem5HybridConv2D_def Let_def]])
    (rule conv_loops_frame [OF _ _ assms(2,3)])

lemma RunGem5HybridDepthwiseConv2D_frame:
  assumes "RunGem5HybridDepthwiseConv2D d m extmem_base elapsed = Some res"
    and "descriptor_wf d" "\<forall>i < 4. t_size d i \<noteq> 0"
  shows "kernel_frame 3 d m extmem_base res"
  by (rule guarded_frame [OF assms(1) [unfolded RunGem5HybridDepthwiseConv2D_def Let_def]])
    (rule conv_loops_frame [OF _ _ assms(2,3)])

text \<open>The dense kernels: checks, then loops around one store.\<close>

lemma checked_frame:
  assumes "(if A then Some (False, d, m) else if B then Some (False, d, m) else do { m' \<leftarrow> L;
      Some (True, d\<lparr> operation_count := c1, bytes_read := c2, bytes_written := c3,
        host_elapsed_ns := c4 \<rparr>, m') }) = Some res"
    and "\<And>m'. \<not> A \<Longrightarrow> \<not> B \<Longrightarrow> L = Some m' \<Longrightarrow> same_outside (t_off extmem_base d n) (t_size d n) m m'"
  shows "kernel_frame n d m extmem_base res"
  using assms by (auto split: bind_splits if_splits intro: kernel_frame_true)

lemma dense_loops_frame:
  assumes "loop (\<lambda>r. loop (\<lambda>c m. f r c m) (u32_range C)) (u32_range R) m = Some m'"
    and "descriptor_wf d" "n < 4" "rank (tensors d ! n) = 2" "TensorBytesMatch (tensors d ! n) 1"
    and "dimensions (tensors d ! n) ! 0 = R" "dimensions (tensors d ! n) ! 1 = C"
    and "\<And>r c m m'. f r c m = Some m' \<Longrightarrow>
      \<exists>b. store8 m (TensorData extmem_base (tensors d ! n) + unat (r * C + c)) b = Some m'"
  shows "same_outside (t_off extmem_base d n) (t_size d n) m m'"
  unfolding t_off_def
proof (rule loop2_frame [OF assms(1)])
  fix r c and m m' :: bytes
  assume "r \<in> set (u32_range R)" "c \<in> set (u32_range C)"
  then have rc: "r < R" "c < C" by simp_all
  have sz: "t_size d n = unat R * unat C"
    using tensor_size2 [OF assms(2-5)] assms(6,7) by (simp add: dim_def)
  moreover have "t_size d n < 2 ^ 32" using u32_lt by (simp add: t_size_def)
  ultimately have k: "unat (r * C + c) < t_size d n" using radix2_word(2) [OF rc] by simp
  assume "f r c m = Some m'"
  then show "same_outside (TensorData extmem_base (tensors d ! n)) (t_size d n) m m'"
    using assms(8) k by (blast intro: store8_same_outside)
qed

lemma RunGem5HybridMatMulInt8_frame:
  assumes "RunGem5HybridMatMulInt8 d m extmem_base elapsed = Some res" "descriptor_wf d"
  shows "kernel_frame 2 d m extmem_base res"
  by (rule checked_frame [OF assms(1) [unfolded RunGem5HybridMatMulInt8_def Let_def]],
      rule dense_loops_frame [OF _ assms(2)], assumption) (auto split: bind_split_asm)

lemma RunGem5HybridFullyConnectedInt8_frame:
  assumes "RunGem5HybridFullyConnectedInt8 d m extmem_base elapsed = Some res" "descriptor_wf d"
  shows "kernel_frame (unat (tensor_count d - 1)) d m extmem_base res"
proof (cases "tensor_count d < 3 \<or> 4 < tensor_count d")
  case True
  then show ?thesis using assms(1) by (auto simp: RunGem5HybridFullyConnectedInt8_def)
next
  case False
  then have n: "unat (tensor_count d - 1) < 4" using u32_3_or_4 [of "tensor_count d"] by auto
  note run = assms(1) [unfolded RunGem5HybridFullyConnectedInt8_def Let_def if_not_P [OF False]]
  show ?thesis
  proof (cases "element_type (tensors d ! 0) \<noteq> CORAL_OPERATOR_ELEMENT_INT8 \<or>
           element_type (tensors d ! 1) \<noteq> CORAL_OPERATOR_ELEMENT_INT8 \<or>
           element_type (tensors d ! unat (tensor_count d - 1)) \<noteq> CORAL_OPERATOR_ELEMENT_INT8 \<or>
           rank (tensors d ! 0) \<noteq> 2 \<or> rank (tensors d ! 1) \<noteq> 2 \<or> rank (tensors d ! unat (tensor_count d - 1)) \<noteq> 2 \<or>
           \<not> TensorBytesMatch (tensors d ! 0) 1 \<or> \<not> TensorBytesMatch (tensors d ! 1) 1 \<or>
           \<not> TensorBytesMatch (tensors d ! unat (tensor_count d - 1)) 1")
    case True
    then show ?thesis using run unfolding if_P [OF True] by auto
  next
    case checks: False
    show ?thesis
      by (rule checked_frame [OF run [unfolded if_not_P [OF checks]]],
          rule dense_loops_frame [OF _ assms(2) n], assumption)
        (use checks in \<open>auto split: bind_split_asm\<close>)
  qed
qed

lemma RunGem5HybridAddInt8_frame:
  assumes "RunGem5HybridAddInt8 d m extmem_base elapsed = Some res"
  shows "kernel_frame 2 d m extmem_base res"
proof -
  have loops: "same_outside (t_off extmem_base d 2) (t_size d 2) m m'"
    if "TensorBytesMatch (tensors d ! 2) 1"
      and "loop (\<lambda>i m. do { a \<leftarrow> load_s8 m (TensorData extmem_base (tensors d ! 0) + i);
          x \<leftarrow> s32 (a - zero_point (tensors d ! 0)); b \<leftarrow> load_s8 m (TensorData extmem_base (tensors d ! 1) + i);
          y \<leftarrow> s32 (b - zero_point (tensors d ! 1)); xy \<leftarrow> s32 (x + y); v \<leftarrow> s32 (xy + output_zero_point d);
          store8 m (TensorData extmem_base (tensors d ! 2) + i) (clamp_byte d v) })
        [0..<unat (ElementCount (tensors d ! 2))] m = Some m'" for m'
  proof (rule loop_same_outside [OF that(2)])
    have sz: "unat (ElementCount (tensors d ! 2)) = t_size d 2"
      using that(1) unat_ucast_u32_u64 [of "tsize (tensors d ! 2)"] by (simp add: TensorBytesMatch_def t_size_def)
    fix i and m m' :: bytes
    assume "i \<in> set [0..<unat (ElementCount (tensors d ! 2))]"
    then have k: "i < t_size d 2" by (simp add: sz)
    assume "do { a \<leftarrow> load_s8 m (TensorData extmem_base (tensors d ! 0) + i);
          x \<leftarrow> s32 (a - zero_point (tensors d ! 0)); b \<leftarrow> load_s8 m (TensorData extmem_base (tensors d ! 1) + i);
          y \<leftarrow> s32 (b - zero_point (tensors d ! 1)); xy \<leftarrow> s32 (x + y); v \<leftarrow> s32 (xy + output_zero_point d);
          store8 m (TensorData extmem_base (tensors d ! 2) + i) (clamp_byte d v) } = Some m'"
    then show "same_outside (t_off extmem_base d 2) (t_size d 2) m m'"
      unfolding t_off_def using k by (auto split: bind_splits intro: store8_same_outside)
  qed
  show ?thesis
    using assms [unfolded RunGem5HybridAddInt8_def Let_def] loops
    by (auto split: if_splits bind_split_asm intro: kernel_frame_true)
qed

section \<open>Float kernels\<close>

lemma store32_same_outside:
  assumes "store32 m (a + k) w = Some m'" "k + 4 \<le> n"
  shows "same_outside a n m m'"
proof -
  have fit: "a + k + 4 \<le> length m" and m': "m' = take (a + k) m @ le_bytes 4 w @ drop (a + k + 4) m"
    using assms(1) by (auto simp: store32_def store_bytes_def split: if_splits)
  show ?thesis
    unfolding same_outside_def m'
    using nth_splice [of "a + k" "le_bytes 4 w" m] fit assms(2) by auto
qed

text \<open>The rows of a tensor of \<open>total\<close> elements, \<open>depth\<close> of them in a row.\<close>

lemma row_element:
  fixes total :: u64 and depth :: u32
  assumes "depth \<noteq> 0" "total mod ucast depth = 0" "row < unat (total div ucast depth)" "i < unat depth"
  shows "row * unat depth + i < unat total"
proof -
  have "unat total mod unat depth = 0"
    using assms(2) by (metis unat_mod_distrib unat_ucast_u32_u64 unsigned_0)
  moreover have "unat (total div ucast depth) = unat total div unat depth"
    by (simp add: unat_div_distrib)
  ultimately have "unat (total div ucast depth) * unat depth = unat total" by auto
  then show ?thesis using radix_lt [OF assms(3,4)] by simp
qed

lemma SameShape_elements:
  assumes "SameShape l r = Some True" "tensor_wf l" "tensor_wf r" "rank l \<le> 4"
  shows "ElementCount r = ElementCount l"
proof -
  have "rank l = rank r" "take (unat (rank l)) (dimensions l) = take (unat (rank r)) (dimensions r)"
    using assms(1) unfolding SameShape_value [OF assms(2,3,4)] option.inject eq_True by blast+
  then show ?thesis unfolding ElementCount_def by (simp only:)
qed

lemma softmax_float_row_frame:
  assumes "softmax_float_row F i (a + k) depth m = Some (ok, m')" "k + 4 * depth \<le> n"
  shows "same_outside a n m m'"
proof -
  from assms(1) obtain mv m1 s where
    l1: "loop (\<lambda>j (m, sum). do { x \<leftarrow> load32 m (i + 4 * j);
           m' \<leftarrow> store32 m (a + k + 4 * j) (f_exp F (f_sub F x mv));
           y \<leftarrow> load32 m' (a + k + 4 * j); Some (m', f_add F sum y) }) [0..<depth] (m, F_0) = Some (m1, s)"
    and l2: "m' = m1 \<or> loop (\<lambda>j m. do { y \<leftarrow> load32 m (a + k + 4 * j);
             store32 m (a + k + 4 * j) (f_div F y s) }) [0..<depth] m1 = Some m'"
    unfolding softmax_float_row_def by (auto split: bind_split_asm if_splits)
  have st: "same_outside a n m0 m0'" if "store32 m0 (a + k + 4 * j) w = Some m0'" "j < depth" for m0 m0' j w
    using store32_same_outside [of m0 a "k + 4 * j" w m0' n] that assms(2) by (simp add: add.assoc)
  have 1: "same_outside a n m m1"
  proof -
    have "(\<lambda>(m2, s). same_outside a n m m2) (m1, s)"
    proof (rule loop_invariant [OF l1])
      fix j s1 s2
      assume j: "j \<in> set [0..<depth]" and p: "(\<lambda>(m2, s). same_outside a n m m2) s1"
        and f: "(case s1 of (m, acc) \<Rightarrow> do { x \<leftarrow> load32 m (i + 4 * j);
           m' \<leftarrow> store32 m (a + k + 4 * j) (f_exp F (f_sub F x mv));
           y \<leftarrow> load32 m' (a + k + 4 * j); Some (m', f_add F acc y) }) = Some s2"
      obtain w m2 where "store32 (fst s1) (a + k + 4 * j) w = Some m2" "fst s2 = m2"
        using f by (auto split: prod.splits bind_split_asm)
      then show "(\<lambda>(m2, s). same_outside a n m m2) s2"
        using st [of "fst s1" j w m2] j p same_outside_trans by (auto split: prod.splits)
    qed simp
    then show ?thesis by simp
  qed
  from l2 show ?thesis
  proof
    assume "loop (\<lambda>j m. do { y \<leftarrow> load32 m (a + k + 4 * j);
             store32 m (a + k + 4 * j) (f_div F y s) }) [0..<depth] m1 = Some m'"
    then have "same_outside a n m1 m'"
      by (rule loop_same_outside) (auto split: bind_split_asm intro: st)
    then show ?thesis using 1 same_outside_trans by blast
  qed (use 1 in simp)
qed

lemma softmax_int8_row_frame:
  assumes "softmax_int8_row F i (a + k) depth m = Some (ok, m')" "k + depth \<le> n"
  shows "same_outside a n m m'"
proof -
  from assms(1) consider "m' = m" | mv s where
    "loop (\<lambda>j m. do { x \<leftarrow> load_s8 m (i + j);
             let probability = f_div F (f_exp F (f_sub F (f_of_int F x) mv)) s;
             quantized \<leftarrow> s32 (to_int32 (word_of_int (f_lround F (f_mul F probability F_255))) - 128);
             store8 m (a + k + j) (word_of_int (max INT8_MIN (min INT8_MAX quantized))) }) [0..<depth] m = Some m'"
    unfolding softmax_int8_row_def by (auto split: bind_split_asm if_splits)
  then show ?thesis
  proof cases
    case 2
    then show ?thesis
    proof (rule loop_same_outside)
      fix j and m m' :: bytes
      assume j: "j \<in> set [0..<depth]" and "do { x \<leftarrow> load_s8 m (i + j);
             let probability = f_div F (f_exp F (f_sub F (f_of_int F x) mv)) s;
             quantized \<leftarrow> s32 (to_int32 (word_of_int (f_lround F (f_mul F probability F_255))) - 128);
             store8 m (a + k + j) (word_of_int (max INT8_MIN (min INT8_MAX quantized))) } = Some m'"
      then obtain w where "store8 m (a + (k + j)) w = Some m'"
        by (auto simp: add.assoc split: bind_split_asm)
      then show "same_outside a n m m'" by (rule store8_same_outside) (use j assms(2) in simp)
    qed
  qed simp
qed

lemma layer_norm_row_frame:
  assumes "layer_norm_row F eps i sc bi (a + k) depth m = Some m'" "k + 4 * unat depth \<le> n"
  shows "same_outside a n m m'"
proof -
  from assms(1) obtain mean inv where
    "loop (\<lambda>j m. do { x \<leftarrow> load32 m (i + 4 * j); scale \<leftarrow> load32 m (sc + 4 * j); bias \<leftarrow> load32 m (bi + 4 * j);
        store32 m (a + k + 4 * j) (f_add F (f_mul F (f_mul F (f_sub F x mean) inv) scale) bias) })
      [0..<unat depth] m = Some m'"
    unfolding layer_norm_row_def Let_def by (auto split: bind_split_asm)
  then show ?thesis
  proof (rule loop_same_outside)
    fix j and m m' :: bytes
    assume j: "j \<in> set [0..<unat depth]"
      and "do { x \<leftarrow> load32 m (i + 4 * j); scale \<leftarrow> load32 m (sc + 4 * j); bias \<leftarrow> load32 m (bi + 4 * j);
        store32 m (a + k + 4 * j) (f_add F (f_mul F (f_mul F (f_sub F x mean) inv) scale) bias) } = Some m'"
    then obtain w where "store32 m (a + (k + 4 * j)) w = Some m'"
      by (auto simp: add.assoc split: bind_split_asm)
    then show "same_outside a n m m'" by (rule store32_same_outside) (use j assms(2) in simp)
  qed
qed

text \<open>The bytes of row \<open>row\<close> lie inside a tensor whose size matches its shape.\<close>

lemma row_bytes:
  fixes depth :: u32 and total :: u64
  assumes "depth \<noteq> 0" "total mod ucast depth = 0" "row < unat (total div ucast depth)"
    and "unat n = c * unat total"
  shows "c * (row * unat depth) + c * unat depth \<le> unat (n :: u32)"
proof -
  have "0 < unat depth" using assms(1) by (simp add: unat_gt_0)
  then have "row * unat depth + (unat depth - 1) < unat total"
    using assms(1-3) by (intro row_element) simp_all
  then have "row * unat depth + unat depth \<le> unat total" using \<open>0 < unat depth\<close> by linarith
  then have "c * (row * unat depth + unat depth) \<le> c * unat total" by (rule mult_le_mono2)
  then show ?thesis using assms(4) by (simp add: algebra_simps)
qed

lemma TensorBytesMatch_count:
  assumes "TensorBytesMatch t 1" shows "unat (tsize t) = 1 * unat (ElementCount t)"
  using assms unat_ucast_u32_u64 [of "tsize t"] by (simp add: TensorBytesMatch_def)

lemma TensorBytesMatch_count4:
  assumes "TensorBytesMatch t 4" shows "unat (tsize t) = 4 * unat (ElementCount t)"
  using TensorBytesMatch_words [OF assms] ElementCount_nonzero(1) [of t] assms
  by (simp add: TensorBytesMatch_def)

lemma loop_ok_same_outside:
  assumes "loop_ok f xs m = Some (b, m')"
    and "\<And>i m b m'. i \<in> set xs \<Longrightarrow> f i m = Some (b, m') \<Longrightarrow> same_outside a n m m'"
  shows "same_outside a n m m'"
  by (rule loop_ok_invariant [OF assms(1), of "same_outside a n m"])
    (use assms(2) same_outside_trans in \<open>blast | simp\<close>)+

lemma softmax_rows_frame:
  fixes depth :: u32
  assumes "(if is_float
      then loop_ok (\<lambda>row. softmax_float_row F (TensorData extmem_base (tensors d ! 0) + 4 * (row * unat depth))
        (TensorData extmem_base (tensors d ! 1) + 4 * (row * unat depth)) (unat depth))
        [0..<unat (ElementCount (tensors d ! 0) div ucast depth)] m
      else loop_ok (\<lambda>row. softmax_int8_row F (TensorData extmem_base (tensors d ! 0) + row * unat depth)
        (TensorData extmem_base (tensors d ! 1) + row * unat depth) (unat depth))
        [0..<unat (ElementCount (tensors d ! 0) div ucast depth)] m) = Some (ok, m')"
    and "depth \<noteq> 0" "ElementCount (tensors d ! 0) mod ucast depth = 0"
    and "ElementCount (tensors d ! 1) = ElementCount (tensors d ! 0)"
    and "if is_float then TensorBytesMatch (tensors d ! 1) 4 else TensorBytesMatch (tensors d ! 1) 1"
  shows "same_outside (t_off extmem_base d 1) (t_size d 1) m m'"
proof (cases is_float)
  case True
  have sz: "unat (tsize (tensors d ! 1)) = 4 * unat (ElementCount (tensors d ! 0))"
    using TensorBytesMatch_count4 [of "tensors d ! 1"] assms(4,5) True by simp
  have "loop_ok (\<lambda>row. softmax_float_row F (TensorData extmem_base (tensors d ! 0) + 4 * (row * unat depth))
        (TensorData extmem_base (tensors d ! 1) + 4 * (row * unat depth)) (unat depth))
        [0..<unat (ElementCount (tensors d ! 0) div ucast depth)] m = Some (ok, m')"
    using assms(1) True by simp
  then show ?thesis
    unfolding t_off_def t_size_def
    by (rule loop_ok_same_outside)
      (erule softmax_float_row_frame, rule row_bytes [OF assms(2,3) _ sz], simp)
next
  case False
  have sz: "unat (tsize (tensors d ! 1)) = 1 * unat (ElementCount (tensors d ! 0))"
    using TensorBytesMatch_count [of "tensors d ! 1"] assms(4,5) False by simp
  have "loop_ok (\<lambda>row. softmax_int8_row F (TensorData extmem_base (tensors d ! 0) + row * unat depth)
        (TensorData extmem_base (tensors d ! 1) + row * unat depth) (unat depth))
        [0..<unat (ElementCount (tensors d ! 0) div ucast depth)] m = Some (ok, m')"
    using assms(1) False by simp
  then show ?thesis
    unfolding t_off_def t_size_def
    by (rule loop_ok_same_outside)
      (erule softmax_int8_row_frame, use row_bytes [OF assms(2,3) _ sz] in simp)
qed

lemma shaped_frame:
  assumes "(if A then Some (False, d, m) else do { same \<leftarrow> S;
      if \<not> same then Some (False, d, m) else if B then None else if C then Some (False, d, m)
      else if E then Some (False, d, m) else do { (ok, m') \<leftarrow> rows;
        if \<not> ok then Some (False, d, m') else Some (True, d\<lparr> operation_count := c1, bytes_read := c2,
          bytes_written := c3, host_elapsed_ns := c4 \<rparr>, m') } }) = Some res"
    and "\<And>ok m'. \<not> A \<Longrightarrow> S = Some True \<Longrightarrow> \<not> B \<Longrightarrow> \<not> C \<Longrightarrow> \<not> E \<Longrightarrow> rows = Some (ok, m') \<Longrightarrow>
      same_outside (t_off extmem_base d n) (t_size d n) m m'"
  shows "kernel_frame n d m extmem_base res"
  using assms
  by (auto split: bind_split_asm if_splits) (simp_all add: kernel_frame_def counters_only_def)

lemma RunGem5HybridSoftmax_frame:
  assumes run: "RunGem5HybridSoftmax F d m extmem_base elapsed = Some res" and wf: "descriptor_wf d"
  shows "kernel_frame 1 d m extmem_base res"
proof (rule shaped_frame [OF run [unfolded RunGem5HybridSoftmax_def Let_def]])
  have t: "tensor_wf (tensors d ! 0)" "tensor_wf (tensors d ! 1)"
    using wf by (auto simp: descriptor_wf_def list_all_length)
  let ?depth = "dimensions (tensors d ! 0) ! unat (rank (tensors d ! 0) - 1)"
  let ?fl = "element_type (tensors d ! 0) = CORAL_OPERATOR_ELEMENT_FLOAT32 \<and>
      element_type (tensors d ! 1) = CORAL_OPERATOR_ELEMENT_FLOAT32 \<and>
      TensorBytesMatch (tensors d ! 0) 4 \<and> TensorBytesMatch (tensors d ! 1) 4"
  fix ok m'
  assume same: "SameShape (tensors d ! 0) (tensors d ! 1) = Some True" and r: "\<not> 4 < rank (tensors d ! 0)"
    and c: "\<not> (?depth = 0 \<or> ElementCount (tensors d ! 0) = 0 \<or> ElementCount (tensors d ! 0) mod ucast ?depth \<noteq> 0)"
    and e: "\<not> (\<not> ?fl \<and> \<not> (element_type (tensors d ! 0) = CORAL_OPERATOR_ELEMENT_INT8 \<and>
      element_type (tensors d ! 1) = CORAL_OPERATOR_ELEMENT_INT8 \<and>
      TensorBytesMatch (tensors d ! 0) 1 \<and> TensorBytesMatch (tensors d ! 1) 1))"
    and rows: "(if ?fl
      then loop_ok (\<lambda>row. softmax_float_row F (TensorData extmem_base (tensors d ! 0) + 4 * (row * unat ?depth))
        (TensorData extmem_base (tensors d ! 1) + 4 * (row * unat ?depth)) (unat ?depth))
        [0..<unat (ElementCount (tensors d ! 0) div ucast ?depth)] m
      else loop_ok (\<lambda>row. softmax_int8_row F (TensorData extmem_base (tensors d ! 0) + row * unat ?depth)
        (TensorData extmem_base (tensors d ! 1) + row * unat ?depth) (unat ?depth))
        [0..<unat (ElementCount (tensors d ! 0) div ucast ?depth)] m) = Some (ok, m')"
  have "ElementCount (tensors d ! 1) = ElementCount (tensors d ! 0)"
    using SameShape_elements [OF same t] r by simp
  moreover have "?depth \<noteq> 0" "ElementCount (tensors d ! 0) mod ucast ?depth = 0" using c by auto
  moreover have "if ?fl then TensorBytesMatch (tensors d ! 1) 4 else TensorBytesMatch (tensors d ! 1) 1"
    using e by auto
  ultimately show "same_outside (t_off extmem_base d 1) (t_size d 1) m m'"
    by (intro softmax_rows_frame [OF rows])
qed

lemma normalized_frame:
  assumes "(if A then Some (False, d, m) else do { same \<leftarrow> S;
      if \<not> same \<or> A' then Some (False, d, m) else if B then None else if C then Some (False, d, m)
      else if E then Some (False, d, m) else do { m' \<leftarrow> rows;
        Some (True, d\<lparr> operation_count := c1, bytes_read := c2,
          bytes_written := c3, host_elapsed_ns := c4 \<rparr>, m') } }) = Some res"
    and "\<And>m'. S = Some True \<Longrightarrow> \<not> A' \<Longrightarrow> \<not> B \<Longrightarrow> \<not> C \<Longrightarrow> rows = Some m' \<Longrightarrow>
      same_outside (t_off extmem_base d n) (t_size d n) m m'"
  shows "kernel_frame n d m extmem_base res"
  using assms
  by (auto split: bind_split_asm if_splits intro: kernel_frame_true)

lemma RunGem5HybridLayerNorm_frame:
  assumes run: "RunGem5HybridLayerNorm F d m extmem_base elapsed = Some res" and wf: "descriptor_wf d"
  shows "kernel_frame 3 d m extmem_base res"
proof (rule normalized_frame [OF run [unfolded RunGem5HybridLayerNorm_def Let_def]])
  have t: "tensor_wf (tensors d ! 0)" "tensor_wf (tensors d ! 3)"
    using wf by (auto simp: descriptor_wf_def list_all_length)
  let ?depth = "dimensions (tensors d ! 0) ! unat (rank (tensors d ! 0) - 1)"
  let ?eps = "if reserved d ! 0 \<noteq> 0 then snd (FloatBits F (reserved d ! 0)) else F_1e_5"
  fix m'
  assume same: "SameShape (tensors d ! 0) (tensors d ! 3) = Some True"
    and a: "\<not> (rank (tensors d ! 1) \<noteq> 1 \<or> rank (tensors d ! 2) \<noteq> 1 \<or>
      \<not> TensorBytesMatch (tensors d ! 0) 4 \<or> \<not> TensorBytesMatch (tensors d ! 1) 4 \<or>
      \<not> TensorBytesMatch (tensors d ! 2) 4 \<or> \<not> TensorBytesMatch (tensors d ! 3) 4)"
    and r: "\<not> 4 < rank (tensors d ! 0)"
    and c: "\<not> (?depth = 0 \<or> ElementCount (tensors d ! 0) = 0 \<or> ElementCount (tensors d ! 0) mod ucast ?depth \<noteq> 0 \<or>
      dimensions (tensors d ! 1) ! 0 \<noteq> ?depth \<or> dimensions (tensors d ! 2) ! 0 \<noteq> ?depth)"
    and rows: "loop (\<lambda>row. layer_norm_row F ?eps (TensorData extmem_base (tensors d ! 0) + 4 * (row * unat ?depth))
        (TensorData extmem_base (tensors d ! 1)) (TensorData extmem_base (tensors d ! 2))
        (TensorData extmem_base (tensors d ! 3) + 4 * (row * unat ?depth)) ?depth)
      [0..<unat (ElementCount (tensors d ! 0) div ucast ?depth)] m = Some m'"
  have "ElementCount (tensors d ! 3) = ElementCount (tensors d ! 0)"
    using SameShape_elements [OF same t] r by simp
  then have sz: "unat (tsize (tensors d ! 3)) = 4 * unat (ElementCount (tensors d ! 0))"
    using TensorBytesMatch_count4 [of "tensors d ! 3"] a by simp
  have dep: "?depth \<noteq> 0" "ElementCount (tensors d ! 0) mod ucast ?depth = 0" using c by auto
  from rows show "same_outside (t_off extmem_base d 3) (t_size d 3) m m'"
    unfolding t_off_def t_size_def
    by (rule loop_same_outside)
      (erule layer_norm_row_frame, rule row_bytes [OF dep _ sz], simp)
qed

end
