(* ===== verification/Hybrid_Operator.thy ===== *)
theory Hybrid_Operator
  imports Hybrid_Frame
begin

text \<open>
  Validation and dispatch of hybrid operators (\<open>gem5_bridge/gem5_hybrid_operator.cc\<close>): the checks
  on a descriptor, the switch over the opcodes and the outcome written back to the descriptor.
\<close>

section \<open>Definitions\<close>

definition RangeValid :: "u32 \<Rightarrow> u32 \<Rightarrow> u32 \<Rightarrow> nat \<Rightarrow> bool" where
  "RangeValid addr n extmem_base capacity \<longleftrightarrow>
     n \<noteq> 0 \<and> unat n \<le> capacity \<and> extmem_base \<le> addr \<and> unat (addr - extmem_base) \<le> capacity - unat n"

definition tensor_invalid :: "u32 \<Rightarrow> nat \<Rightarrow> coral_operator_tensor \<Rightarrow> bool" where
  "tensor_invalid extmem_base extmem_size t \<longleftrightarrow>
     \<not> (element_type t = CORAL_OPERATOR_ELEMENT_INT8 \<or> element_type t = CORAL_OPERATOR_ELEMENT_INT32 \<or>
        element_type t = CORAL_OPERATOR_ELEMENT_FLOAT32) \<or>
     rank t = 0 \<or> CORAL_OPERATOR_MAX_DIMS < rank t \<or>
     \<not> RangeValid (address t) (tsize t) extmem_base extmem_size"

text \<open>The result and the value written through the \<open>error\<close> pointer.\<close>

definition ValidateGem5HybridDescriptor ::
  "coral_operator_descriptor \<Rightarrow> u32 \<Rightarrow> nat \<Rightarrow> u32 option \<Rightarrow> bool \<times> u32 option" where
  "ValidateGem5HybridDescriptor d extmem_base extmem_size error =
     (case error of
        None \<Rightarrow> (False, None)
      | Some _ \<Rightarrow>
          if magic d \<noteq> CORAL_OPERATOR_ABI_MAGIC \<or> version d \<noteq> CORAL_OPERATOR_ABI_VERSION \<or>
             descriptor_size d \<noteq> of_nat sizeof_descriptor \<or>
             execution_mode d \<noteq> CORAL_OPERATOR_MODE_HYBRID \<or>
             op_state d \<noteq> CORAL_OPERATOR_STATE_SUBMITTED \<or>
             CORAL_OPERATOR_MAX_TENSORS < tensor_count d
          then (False, Some CORAL_OPERATOR_ERROR_BAD_DESCRIPTOR)
          else if list_ex (tensor_invalid extmem_base extmem_size) (take (unat (tensor_count d)) (tensors d))
          then (False, Some CORAL_OPERATOR_ERROR_ADDRESS)
          else if (multiplier_address d = 0) \<noteq> (shift_address d = 0)
          then (False, Some CORAL_OPERATOR_ERROR_BAD_DESCRIPTOR)
          else if quantization_count d \<noteq> 0 \<and>
            (let quantization_bytes = ucast (quantization_count d) * 4 :: u64 in
             0xffffffff < quantization_bytes \<or>
             \<not> RangeValid (multiplier_address d) (ucast quantization_bytes) extmem_base extmem_size \<or>
             \<not> RangeValid (shift_address d) (ucast quantization_bytes) extmem_base extmem_size)
          then (False, Some CORAL_OPERATOR_ERROR_ADDRESS)
          else (True, Some CORAL_OPERATOR_ERROR_NONE))"

record Gem5HybridOperatorResult =
  result_opcode :: u32

text \<open>The switch over the opcode.\<close>

definition run_opcode ::
  "float_ops \<Rightarrow> coral_operator_descriptor \<Rightarrow> bytes \<Rightarrow> u32 \<Rightarrow> u64 \<Rightarrow> kernel_result" where
  "run_opcode F d m extmem_base elapsed =
     (if opcode d = CORAL_OPERATOR_OP_PARTIAL_MOBILENET
      then Some (False, d\<lparr> op_error := CORAL_OPERATOR_ERROR_UNSUPPORTED \<rparr>, m)
      else if opcode d = CORAL_OPERATOR_OP_CONV_2D_INT8 then RunGem5HybridConv2D d m extmem_base elapsed
      else if opcode d = CORAL_OPERATOR_OP_DEPTHWISE_CONV_2D_INT8
      then RunGem5HybridDepthwiseConv2D d m extmem_base elapsed
      else if opcode d = CORAL_OPERATOR_OP_MATMUL_INT8 then RunGem5HybridMatMulInt8 d m extmem_base elapsed
      else if opcode d = CORAL_OPERATOR_OP_FULLY_CONNECTED_INT8
      then RunGem5HybridFullyConnectedInt8 d m extmem_base elapsed
      else if opcode d = CORAL_OPERATOR_OP_ADD_INT8 then RunGem5HybridAddInt8 d m extmem_base elapsed
      else if opcode d = CORAL_OPERATOR_OP_SOFTMAX then RunGem5HybridSoftmax F d m extmem_base elapsed
      else if opcode d = CORAL_OPERATOR_OP_LAYER_NORM then RunGem5HybridLayerNorm F d m extmem_base elapsed
      else Some (False, d\<lparr> op_error := CORAL_OPERATOR_ERROR_UNSUPPORTED \<rparr>, m))"

definition dispatch_operator ::
  "float_ops \<Rightarrow> u64 \<Rightarrow> coral_operator_descriptor \<Rightarrow> bytes \<Rightarrow> u32 \<Rightarrow> nat \<Rightarrow> kernel_result" where
  "dispatch_operator F elapsed d m extmem_base extmem_size =
     (let (valid, error) =
        ValidateGem5HybridDescriptor d extmem_base extmem_size (Some CORAL_OPERATOR_ERROR_NONE) in
      if \<not> valid
      then Some (False, d\<lparr> op_state := CORAL_OPERATOR_STATE_ERROR, op_error := the error \<rparr>, m)
      else do {
        let d = d\<lparr> op_state := CORAL_OPERATOR_STATE_RUNNING, op_error := CORAL_OPERATOR_ERROR_NONE,
          host_elapsed_ns := 0, modeled_cycles := 0, bytes_read := 0, bytes_written := 0 \<rparr>;
        (success, d, m') \<leftarrow> run_opcode F d m extmem_base elapsed;
        let d = (if \<not> success \<and> op_error d = CORAL_OPERATOR_ERROR_NONE
          then d\<lparr> op_error := CORAL_OPERATOR_ERROR_EXECUTION \<rparr> else d);
        let d = (if success \<and> modeled_cycles d = 0
          then d\<lparr> modeled_cycles := operation_count d \<rparr> else d);
        Some (success, d\<lparr> op_state := (if success then CORAL_OPERATOR_STATE_COMPLETE
          else CORAL_OPERATOR_STATE_ERROR) \<rparr>, m') })"

definition DispatchGem5HybridOperator ::
  "float_ops \<Rightarrow> u64 \<Rightarrow> coral_operator_descriptor option \<Rightarrow> bytes option \<Rightarrow> u32 \<Rightarrow> nat \<Rightarrow>
    Gem5HybridOperatorResult option \<Rightarrow>
    (bool \<times> coral_operator_descriptor option \<times> bytes option \<times> Gem5HybridOperatorResult option) option" where
  "DispatchGem5HybridOperator F elapsed descriptor extmem extmem_base extmem_size result =
     (case (descriptor, extmem, result) of
        (Some d, Some m, Some _) \<Rightarrow>
          do { (success, d', m') \<leftarrow> dispatch_operator F elapsed d m extmem_base extmem_size;
               Some (success, Some d', Some m', Some \<lparr> result_opcode = opcode d \<rparr>) }
      | _ \<Rightarrow> Some (False, descriptor, extmem, result))"

section \<open>Validation\<close>

text \<open>A range that passes lies in external memory, over the naturals and without wrap-around.\<close>

lemma RangeValid_iff:
  "RangeValid a n extmem_base capacity \<longleftrightarrow>
    n \<noteq> 0 \<and> unat extmem_base \<le> unat a \<and> unat a + unat n \<le> unat extmem_base + capacity"
proof (cases "extmem_base \<le> a")
  case True
  then have "unat (a - extmem_base) = unat a - unat extmem_base" "unat extmem_base \<le> unat a"
    by (simp_all add: unat_sub_le word_le_nat_alt)
  then show ?thesis using True by (auto simp: RangeValid_def)
next
  case False
  then show ?thesis by (auto simp: RangeValid_def word_le_nat_alt)
qed

lemma quant_bytes:
  fixes q :: u32
  shows "0xffffffff < (ucast q * 4 :: u64) \<longleftrightarrow> 2 ^ 32 \<le> 4 * unat q"
    and "4 * unat q < 2 ^ 32 \<Longrightarrow> unat (ucast (ucast q * 4 :: u64) :: u32) = 4 * unat q"
proof -
  have m: "unat (ucast q * 4 :: u64) = 4 * unat q"
    using u32_lt [of q] by (subst unat_mult_nowrap) simp_all
  show "0xffffffff < (ucast q * 4 :: u64) \<longleftrightarrow> 2 ^ 32 \<le> 4 * unat q"
    by (auto simp: word_less_nat_alt m)
  show "unat (ucast (ucast q * 4 :: u64) :: u32) = 4 * unat q" if "4 * unat q < 2 ^ 32"
    using that m by (simp add: unsigned_ucast_eq take_bit_nat_eq_self_iff)
qed

text \<open>What validation promises, over the naturals.\<close>

definition in_extmem :: "u32 \<Rightarrow> nat \<Rightarrow> u32 \<Rightarrow> nat \<Rightarrow> bool" where
  "in_extmem extmem_base extmem_size a n \<longleftrightarrow>
     0 < n \<and> unat extmem_base \<le> unat a \<and> unat a + n \<le> unat extmem_base + extmem_size"

definition descriptor_valid :: "coral_operator_descriptor \<Rightarrow> u32 \<Rightarrow> nat \<Rightarrow> bool" where
  "descriptor_valid d extmem_base extmem_size \<longleftrightarrow>
     magic d = CORAL_OPERATOR_ABI_MAGIC \<and> version d = CORAL_OPERATOR_ABI_VERSION \<and>
     descriptor_size d = 296 \<and> execution_mode d = CORAL_OPERATOR_MODE_HYBRID \<and>
     op_state d = CORAL_OPERATOR_STATE_SUBMITTED \<and> unat (tensor_count d) \<le> 4 \<and>
     (\<forall>i < unat (tensor_count d). element_type (tensors d ! i) \<in> {1, 2, 3} \<and>
        1 \<le> unat (rank (tensors d ! i)) \<and> unat (rank (tensors d ! i)) \<le> 4 \<and>
        in_extmem extmem_base extmem_size (address (tensors d ! i)) (t_size d i)) \<and>
     (multiplier_address d = 0 \<longleftrightarrow> shift_address d = 0) \<and>
     (quantization_count d \<noteq> 0 \<longrightarrow> 4 * unat (quantization_count d) < 2 ^ 32 \<and>
        in_extmem extmem_base extmem_size (multiplier_address d) (4 * unat (quantization_count d)) \<and>
        in_extmem extmem_base extmem_size (shift_address d) (4 * unat (quantization_count d)))"

lemma tensor_invalid_iff:
  "\<not> tensor_invalid extmem_base extmem_size t \<longleftrightarrow> element_type t \<in> {1, 2, 3} \<and>
    1 \<le> unat (rank t) \<and> unat (rank t) \<le> 4 \<and> in_extmem extmem_base extmem_size (address t) (unat (tsize t))"
proof -
  have "rank t = 0 \<longleftrightarrow> \<not> 1 \<le> unat (rank t)" by (auto simp: word_unat_eq_iff)
  moreover have "tsize t = 0 \<longleftrightarrow> \<not> 0 < unat (tsize t)" by (simp add: word_unat_eq_iff)
  ultimately show ?thesis
    unfolding tensor_invalid_def RangeValid_iff in_extmem_def word_less_nat_alt by auto
qed

lemma Validate_true_iff:
  assumes "length (tensors d) = 4"
  shows "ValidateGem5HybridDescriptor d extmem_base extmem_size (Some e) = (True, Some CORAL_OPERATOR_ERROR_NONE) \<longleftrightarrow>
    descriptor_valid d extmem_base extmem_size"
proof -
  have q: "quantization_count d \<noteq> 0 \<and>
      (let quantization_bytes = ucast (quantization_count d) * 4 :: u64 in
       0xffffffff < quantization_bytes \<or>
       \<not> RangeValid (multiplier_address d) (ucast quantization_bytes) extmem_base extmem_size \<or>
       \<not> RangeValid (shift_address d) (ucast quantization_bytes) extmem_base extmem_size) \<longleftrightarrow>
    \<not> (quantization_count d \<noteq> 0 \<longrightarrow> 4 * unat (quantization_count d) < 2 ^ 32 \<and>
        in_extmem extmem_base extmem_size (multiplier_address d) (4 * unat (quantization_count d)) \<and>
        in_extmem extmem_base extmem_size (shift_address d) (4 * unat (quantization_count d)))"
  proof (cases "quantization_count d = 0 \<or> 2 ^ 32 \<le> 4 * unat (quantization_count d)")
    case True
    then show ?thesis unfolding Let_def quant_bytes(1) by auto
  next
    case False
    then have u: "unat (ucast (ucast (quantization_count d) * 4 :: u64) :: u32) = 4 * unat (quantization_count d)"
      by (intro quant_bytes(2)) simp
    moreover have "0 < 4 * unat (quantization_count d)" using False by (simp add: unat_gt_0)
    moreover have "(ucast (ucast (quantization_count d) * 4 :: u64) :: u32) \<noteq> 0"
      using calculation by (metis unsigned_0 less_irrefl)
    ultimately show ?thesis
      using False unfolding Let_def quant_bytes(1) RangeValid_iff in_extmem_def by auto
  qed
  have t: "list_ex (tensor_invalid extmem_base extmem_size) (take (unat (tensor_count d)) (tensors d)) \<longleftrightarrow>
      \<not> (\<forall>i < unat (tensor_count d). \<not> tensor_invalid extmem_base extmem_size (tensors d ! i))"
    if "unat (tensor_count d) \<le> 4"
    using assms that by (auto simp: list_ex_length)
  have c: "CORAL_OPERATOR_MAX_TENSORS < tensor_count d \<longleftrightarrow> \<not> unat (tensor_count d) \<le> 4"
    by (auto simp: word_less_nat_alt)
  show ?thesis
    unfolding ValidateGem5HybridDescriptor_def descriptor_valid_def option.case q c
    using t by (auto simp: tensor_invalid_iff t_size_def sizeof_descriptor_def)
qed

lemma Validate_error_codes:
  "snd (ValidateGem5HybridDescriptor d extmem_base extmem_size (Some e)) \<in>
    {Some CORAL_OPERATOR_ERROR_NONE, Some CORAL_OPERATOR_ERROR_BAD_DESCRIPTOR, Some CORAL_OPERATOR_ERROR_ADDRESS}"
  by (simp add: ValidateGem5HybridDescriptor_def Let_def)

lemma Validate_error_iff:
  "snd (ValidateGem5HybridDescriptor d extmem_base extmem_size (Some e)) = Some CORAL_OPERATOR_ERROR_NONE \<longleftrightarrow>
    fst (ValidateGem5HybridDescriptor d extmem_base extmem_size (Some e))"
  by (simp add: ValidateGem5HybridDescriptor_def Let_def)

text \<open>
  C14: validation accepts exactly the descriptors whose header is right, whose tensors have a known
  element type and one to four dimensions and lie inside external memory, and whose quantization
  arrays are both present or both absent and lie inside external memory; all ranges are compared
  over the naturals, so no 32-bit wrap-around lets a range through. It reports error 0 exactly when
  it accepts.
\<close>

theorem ValidateGem5HybridDescriptor_exact:
  assumes "descriptor_wf d"
  shows "fst (ValidateGem5HybridDescriptor d extmem_base extmem_size (Some e)) =
      descriptor_valid d extmem_base extmem_size \<and>
    (snd (ValidateGem5HybridDescriptor d extmem_base extmem_size (Some e)) = Some CORAL_OPERATOR_ERROR_NONE \<longleftrightarrow>
      descriptor_valid d extmem_base extmem_size)"
proof -
  have "length (tensors d) = 4" using assms by (simp add: descriptor_wf_def)
  note iff = Validate_true_iff [OF this, of extmem_base extmem_size e]
  let ?v = "ValidateGem5HybridDescriptor d extmem_base extmem_size (Some e)"
  have "fst ?v \<longleftrightarrow> ?v = (True, Some CORAL_OPERATOR_ERROR_NONE)"
    using Validate_error_iff [of d extmem_base extmem_size e] by (cases ?v) auto
  then show ?thesis using iff Validate_error_iff [of d extmem_base extmem_size e] by simp
qed

text \<open>A range that would wrap around 32 bits, and one that ends exactly at the end of memory.\<close>

theorem ValidateGem5HybridDescriptor_exact_witness:
  "fst (ValidateGem5HybridDescriptor (conv_example\<lparr> quantization_count := 1 \<rparr>) 0x20000000 22 (Some 0)) \<and>
   \<not> fst (ValidateGem5HybridDescriptor (conv_example\<lparr> quantization_count := 0x3fffffff \<rparr>) 0x20000000 22 (Some 0))"
proof -
  have wf: "descriptor_wf (conv_example\<lparr> quantization_count := q \<rparr>)" for q
    using conv_example_wf by (simp add: descriptor_wf_def)
  have "descriptor_valid (conv_example\<lparr> quantization_count := 1 \<rparr>) 0x20000000 22"
    by (simp add: descriptor_valid_def example_defs all_less_4 in_extmem_def t_size_def)
  moreover have "\<not> descriptor_valid (conv_example\<lparr> quantization_count := 0x3fffffff \<rparr>) 0x20000000 22"
    by (simp add: descriptor_valid_def example_defs all_less_4 in_extmem_def t_size_def)
  ultimately show ?thesis
    using ValidateGem5HybridDescriptor_exact [OF wf, of 1 "0x20000000" 22 0]
      ValidateGem5HybridDescriptor_exact [OF wf, of "0x3fffffff" "0x20000000" 22 0] by simp
qed

section \<open>Dispatch\<close>

lemma CommonConvValid_count: "CommonConvValid d dw = Some True \<Longrightarrow> tensor_count d = 4"
  by (simp add: CommonConvValid_def split: if_splits)

lemma conv_rejected:
  assumes "tensor_count d \<noteq> 4"
  shows "RunGem5HybridConv2D d m extmem_base elapsed = Some (False, d, m)"
    "RunGem5HybridDepthwiseConv2D d m extmem_base elapsed = Some (False, d, m)"
  using assms by (simp_all add: RunGem5HybridConv2D_def RunGem5HybridDepthwiseConv2D_def CommonConvValid_def)

lemma run_opcode_frame:
  assumes run: "run_opcode F d m extmem_base elapsed = Some (r, d', m')" and wf: "descriptor_wf d"
    and nz: "\<forall>i < unat (tensor_count d). t_size d i \<noteq> 0"
  shows "kernel_frame (unat (tensor_count d - 1)) d m extmem_base (r, d', m') \<or>
    (\<not> r \<and> m' = m \<and> d' = d\<lparr> op_error := CORAL_OPERATOR_ERROR_UNSUPPORTED \<rparr>)"
proof -
  let ?n = "unat (tensor_count d - 1)"
  have ref: "kernel_frame ?n d m extmem_base res" if "res = (False, d, m)" for res
    using that by simp
  have conv: "kernel_frame ?n d m extmem_base res"
    if "RunGem5HybridConv2D d m extmem_base elapsed = Some res" for res
    using RunGem5HybridConv2D_frame [OF that wf] conv_rejected(1) [of d m extmem_base elapsed] that nz
    by (cases "tensor_count d = 4") auto
  have dw: "kernel_frame ?n d m extmem_base res"
    if "RunGem5HybridDepthwiseConv2D d m extmem_base elapsed = Some res" for res
    using RunGem5HybridDepthwiseConv2D_frame [OF that wf] conv_rejected(2) [of d m extmem_base elapsed] that nz
    by (cases "tensor_count d = 4") auto
  have mm: "kernel_frame ?n d m extmem_base res"
    if "RunGem5HybridMatMulInt8 d m extmem_base elapsed = Some res" for res
    using RunGem5HybridMatMulInt8_frame [OF that wf] that
    by (cases "tensor_count d = 3") (auto simp: RunGem5HybridMatMulInt8_def Let_def)
  have ad: "kernel_frame ?n d m extmem_base res"
    if "RunGem5HybridAddInt8 d m extmem_base elapsed = Some res" for res
    using RunGem5HybridAddInt8_frame [OF that] that
    by (cases "tensor_count d = 3") (auto simp: RunGem5HybridAddInt8_def Let_def)
  have sm: "kernel_frame ?n d m extmem_base res"
    if "RunGem5HybridSoftmax F d m extmem_base elapsed = Some res" for res
    using RunGem5HybridSoftmax_frame [OF that wf] that
    by (cases "tensor_count d = 2") (auto simp: RunGem5HybridSoftmax_def Let_def)
  have ln: "kernel_frame ?n d m extmem_base res"
    if "RunGem5HybridLayerNorm F d m extmem_base elapsed = Some res" for res
    using RunGem5HybridLayerNorm_frame [OF that wf] that
    by (cases "tensor_count d = 4") (auto simp: RunGem5HybridLayerNorm_def Let_def)
  note fc = RunGem5HybridFullyConnectedInt8_frame [OF _ wf]
  show ?thesis
    using run conv dw mm fc ad sm ln unfolding run_opcode_def by (auto split: if_splits)
qed

text \<open>The fields of a descriptor that dispatch never changes.\<close>

definition same_request :: "coral_operator_descriptor \<Rightarrow> coral_operator_descriptor \<Rightarrow> bool" where
  "same_request d d' \<longleftrightarrow> d' = d\<lparr> op_state := op_state d', op_error := op_error d',
     operation_count := operation_count d', host_elapsed_ns := host_elapsed_ns d',
     modeled_cycles := modeled_cycles d', bytes_read := bytes_read d', bytes_written := bytes_written d' \<rparr>"

lemma dispatch_outcome:
  assumes "descriptor_wf d" "dispatch_operator F elapsed d m extmem_base (length m) = Some (r, d', m')"
  shows "(if r then op_state d' = CORAL_OPERATOR_STATE_COMPLETE \<and> op_error d' = CORAL_OPERATOR_ERROR_NONE \<and>
        descriptor_valid d extmem_base (length m) \<and> modeled_cycles d' = operation_count d'
      else op_state d' = CORAL_OPERATOR_STATE_ERROR \<and> op_error d' \<noteq> CORAL_OPERATOR_ERROR_NONE) \<and>
    same_request d d' \<and>
    (if descriptor_valid d extmem_base (length m)
     then same_outside (t_off extmem_base d (unat (tensor_count d - 1))) (t_size d (unat (tensor_count d - 1))) m m'
     else m' = m)"
proof (cases "descriptor_valid d extmem_base (length m)")
  case False
  obtain v e where ve: "ValidateGem5HybridDescriptor d extmem_base (length m) (Some 0) = (v, e)" by force
  have "\<not> v" "e \<noteq> Some 0" "e \<in> {Some 0, Some 1, Some 4}"
    using ve False Validate_true_iff [of d extmem_base "length m" 0] assms(1)
      Validate_error_iff [of d extmem_base "length m" 0] Validate_error_codes [of d extmem_base "length m" 0]
    by (auto simp: descriptor_wf_def)
  then show ?thesis using assms(2) ve False by (auto simp: dispatch_operator_def same_request_def)
next
  case True
  have v: "ValidateGem5HybridDescriptor d extmem_base (length m) (Some 0) = (True, Some 0)"
    using Validate_true_iff [of d extmem_base "length m" 0] True assms(1) by (simp add: descriptor_wf_def)
  let ?d = "d\<lparr> op_state := CORAL_OPERATOR_STATE_RUNNING, op_error := CORAL_OPERATOR_ERROR_NONE,
          host_elapsed_ns := 0, modeled_cycles := 0, bytes_read := 0, bytes_written := 0 \<rparr>"
  obtain s d1 m1 where run: "run_opcode F ?d m extmem_base elapsed = Some (s, d1, m1)"
    using assms(2) v by (auto simp: dispatch_operator_def split: bind_split_asm)
  have wf: "descriptor_wf ?d" using assms(1) by (simp add: descriptor_wf_def)
  have nz: "\<forall>i < unat (tensor_count ?d). t_size ?d i \<noteq> 0"
    using True by (auto simp: descriptor_valid_def in_extmem_def t_size_def)
  have off: "t_off extmem_base ?d i = t_off extmem_base d i" "t_size ?d i = t_size d i" for i
    by (simp_all add: t_off_def t_size_def)
  have res: "r = s" "m' = m1" "d' = (let d2 = (if \<not> s \<and> op_error d1 = 0 then d1\<lparr> op_error := 3 \<rparr> else d1);
      d3 = (if s \<and> modeled_cycles d2 = 0 then d2\<lparr> modeled_cycles := operation_count d2 \<rparr> else d2)
      in d3\<lparr> op_state := (if s then 3 else 4) \<rparr>)"
    using assms(2) v run by (auto simp: dispatch_operator_def Let_def)
  from run_opcode_frame [OF run wf nz] show ?thesis
  proof
    assume k: "kernel_frame (unat (tensor_count ?d - 1)) ?d m extmem_base (s, d1, m1)"
    then have c: "counters_only ?d d1" and f: "\<not> s \<longrightarrow> d1 = ?d" by (auto simp: kernel_frame_def)
    obtain a b c4 e where d1: "d1 = ?d\<lparr> operation_count := a, bytes_read := b, bytes_written := c4, host_elapsed_ns := e \<rparr>"
      using c unfolding counters_only_def by blast
    show ?thesis
      using k True unfolding res Let_def d1 by (auto simp: kernel_frame_def off same_request_def)
  next
    assume k: "\<not> s \<and> m1 = m \<and> d1 = ?d\<lparr> op_error := CORAL_OPERATOR_ERROR_UNSUPPORTED \<rparr>"
    then show ?thesis using True unfolding res Let_def by (auto simp: same_request_def)
  qed
qed

text \<open>
  C12: whatever the operator, dispatch ends in a definite outcome. It returns true exactly with
  state complete and error none, and false exactly with state error and a non-zero error code; a
  descriptor that does not validate leaves memory as it was; the request fields of the descriptor
  never change; no byte outside the output tensor, the last of the descriptor's tensors, changes;
  and a successful run reports the operation count as its modelled cycles.
\<close>

theorem dispatch_operator_outcome:
  assumes "descriptor_wf d" "dispatch_operator F elapsed d m extmem_base (length m) = Some (r, d', m')"
  shows "(if r then op_state d' = CORAL_OPERATOR_STATE_COMPLETE \<and> op_error d' = CORAL_OPERATOR_ERROR_NONE \<and>
        descriptor_valid d extmem_base (length m) \<and> modeled_cycles d' = operation_count d'
      else op_state d' = CORAL_OPERATOR_STATE_ERROR \<and> op_error d' \<noteq> CORAL_OPERATOR_ERROR_NONE) \<and>
    same_request d d' \<and>
    (if descriptor_valid d extmem_base (length m)
     then same_outside (t_off extmem_base d (unat (tensor_count d - 1))) (t_size d (unat (tensor_count d - 1))) m m'
     else m' = m)"
  using assms by (rule dispatch_outcome)

text \<open>The element-wise addition of two pairs, dispatched.\<close>

definition dispatch_example :: coral_operator_descriptor where
  "dispatch_example = add_example\<lparr> opcode := CORAL_OPERATOR_OP_ADD_INT8, quantization_count := 0 \<rparr>"

lemma dispatch_example_valid: "descriptor_valid dispatch_example 0x20000000 6"
  by (simp add: descriptor_valid_def dispatch_example_def dense_example_defs all_less_3 in_extmem_def)

lemma dispatch_example_runs:
  "\<exists>d'. dispatch_operator F 5 dispatch_example dense_example_memory 0x20000000 6 =
    Some (True, d', [2, 3, 4, 5, 7, 9])"
proof -
  have v: "ValidateGem5HybridDescriptor dispatch_example 0x20000000 6 (Some 0) = (True, Some 0)"
    using dispatch_example_valid
    by (subst Validate_true_iff) (simp_all add: dispatch_example_def dense_example_defs)
  have r: "map_option (\<lambda>(r, d, m). (r, m)) (RunGem5HybridAddInt8
      (dispatch_example\<lparr> op_state := 2, op_error := 0, host_elapsed_ns := 0, modeled_cycles := 0, bytes_read := 0,
       bytes_written := 0 \<rparr>) dense_example_memory 0x20000000 5) = Some (True, [2, 3, 4, 5, 7, 9])"
    by code_simp
  have "opcode dispatch_example = 6" by (simp add: dispatch_example_def)
  then show ?thesis using v r by (auto simp: dispatch_operator_def run_opcode_def Let_def)
qed

theorem dispatch_operator_outcome_witness:
  "\<forall>F. \<exists>d'. dispatch_operator F 5 dispatch_example dense_example_memory 0x20000000 6 =
      Some (True, d', [2, 3, 4, 5, 7, 9]) \<and> op_state d' = CORAL_OPERATOR_STATE_COMPLETE \<and>
    op_error d' = CORAL_OPERATOR_ERROR_NONE \<and> same_request dispatch_example d'"
proof
  fix F
  have wf: "descriptor_wf dispatch_example"
    by (simp add: dispatch_example_def dense_example_defs descriptor_wf_def tensor_wf_def int32_range_def)
  obtain d' where d': "dispatch_operator F 5 dispatch_example dense_example_memory 0x20000000
      (length dense_example_memory) = Some (True, d', [2, 3, 4, 5, 7, 9])"
    using dispatch_example_runs [of F] by (auto simp: dense_example_memory_def eval_nat_numeral)
  then show "\<exists>d'. dispatch_operator F 5 dispatch_example dense_example_memory 0x20000000 6 =
      Some (True, d', [2, 3, 4, 5, 7, 9]) \<and> op_state d' = CORAL_OPERATOR_STATE_COMPLETE \<and>
    op_error d' = CORAL_OPERATOR_ERROR_NONE \<and> same_request dispatch_example d'"
    using dispatch_operator_outcome [OF wf d'] d' by (auto simp: dense_example_memory_def eval_nat_numeral)
qed

section \<open>Descriptors that pass validation and still leave memory\<close>

text \<open>
  A 1x1 convolution with two output channels and a bias of one entry, the bias at the end of memory.
  Neither validation nor \<open>CommonConvValid\<close> compares the length of the bias with the output channels.
\<close>

definition short_bias :: coral_operator_descriptor where
  "short_bias = (example_descriptor 2
     [example_tensor 0x20000000 1 4 [1, 1, 1, 1] 1, example_tensor 0x20000001 2 4 [2, 1, 1, 1] 1,
      example_tensor 0x20000018 4 1 [1, 0, 0, 0] 2, example_tensor 0x20000004 2 4 [1, 1, 1, 2] 1])
     \<lparr> quantization_count := 2, multiplier_address := 0x20000008, shift_address := 0x20000010 \<rparr>"

definition short_bias_memory :: bytes where
  "short_bias_memory = [3, 1, 1, 0, 0, 0, 0, 0, 0, 0, 0, 0x40, 0, 0, 0, 0x40] @ replicate 12 0"

text \<open>
  A descriptor that validation and \<open>CommonConvValid\<close> both accept makes the convolution kernel read the second
  entry of its bias past the end of external memory; with four more bytes of memory it runs.
\<close>

theorem short_bias_out_of_bounds:
  "descriptor_valid short_bias 0x20000000 (length short_bias_memory) \<and>
   CommonConvValid short_bias False = Some True \<and>
   load32 short_bias_memory (t_off 0x20000000 short_bias 2 + 4) = None \<and>
   RunGem5HybridConv2D short_bias short_bias_memory 0x20000000 5 = None \<and>
   map_option fst (RunGem5HybridConv2D short_bias (short_bias_memory @ [0, 0, 0, 0]) 0x20000000 5) = Some True"
proof (intro conjI)
  show "descriptor_valid short_bias 0x20000000 (length short_bias_memory)"
    by (simp add: descriptor_valid_def short_bias_def short_bias_memory_def example_defs conv_accessors all_less_4
        in_extmem_def)
  show "CommonConvValid short_bias False = Some True" by code_simp
  show "load32 short_bias_memory (t_off 0x20000000 short_bias 2 + 4) = None" by code_simp
  show "RunGem5HybridConv2D short_bias short_bias_memory 0x20000000 5 = None" by code_simp
  show "map_option fst (RunGem5HybridConv2D short_bias (short_bias_memory @ [0, 0, 0, 0]) 0x20000000 5) = Some True" by code_simp
qed

text \<open>
  A 1x1 convolution whose bias and multiplier are the largest 32-bit integers: the requantized value
  is close to the bound and the output zero point 127 takes it past.
\<close>

definition large_bias :: coral_operator_descriptor where
  "large_bias = (example_descriptor 2
     [example_tensor 0x20000000 1 4 [1, 1, 1, 1] 1, example_tensor 0x20000001 1 4 [1, 1, 1, 1] 1,
      example_tensor 0x20000004 4 1 [1, 0, 0, 0] 2, example_tensor 0x20000002 1 4 [1, 1, 1, 1] 1])
     \<lparr> multiplier_address := 0x20000008, shift_address := 0x2000000c, output_zero_point := 127 \<rparr>"

definition large_bias_memory :: bytes where
  "large_bias_memory = [0, 0, 0, 0, 0xff, 0xff, 0xff, 0x7f, 0xff, 0xff, 0xff, 0x7f, 0, 0, 0, 0]"

text \<open>
  for a descriptor that validation and \<open>CommonConvValid\<close> both accept, adding the output zero
  point to the requantized sum overflows a signed 32-bit integer; with zero point 0 the same
  descriptor runs and saturates at 127.
\<close>

theorem zero_point_addition_overflows:
  "descriptor_valid large_bias 0x20000000 (length large_bias_memory) \<and>
   CommonConvValid large_bias False = Some True \<and>
   RunGem5HybridConv2D large_bias large_bias_memory 0x20000000 5 = None \<and>
   map_option (\<lambda>(r, d, m). (r, m)) (RunGem5HybridConv2D (large_bias\<lparr> output_zero_point := 0 \<rparr>)
     large_bias_memory 0x20000000 5) = Some (True, large_bias_memory[2 := 127])"
proof (intro conjI)
  show "descriptor_valid large_bias 0x20000000 (length large_bias_memory)"
    by (simp add: descriptor_valid_def large_bias_def large_bias_memory_def example_defs conv_accessors all_less_4
        in_extmem_def)
  show "CommonConvValid large_bias False = Some True" by code_simp
  show "RunGem5HybridConv2D large_bias large_bias_memory 0x20000000 5 = None" by code_simp
  show "map_option (\<lambda>(r, d, m). (r, m)) (RunGem5HybridConv2D (large_bias\<lparr> output_zero_point := 0 \<rparr>)
     large_bias_memory 0x20000000 5) = Some (True, large_bias_memory[2 := 127])" by code_simp
qed

end
