(* ===== verification/Bridge_Config.thy ===== *)
theory Bridge_Config
  imports C_Strings Axi_Dma Hybrid_Operator
begin

text \<open>
  The helpers of the bridge (\<open>gem5_bridge/coralnpu_gem5_abi.cc\<close>): address translation, the classes of
  register accesses, the environment variables that configure the latency model and the operators
  that stay on the RTL.

  The build option \<open>CORAL_GEM5_RVV_HIGHMEM\<close> is the argument \<open>highmem\<close>; the environment is a function
  from names to texts.
\<close>

abbreviation (input) kAxiSlvErr :: u8 where "kAxiSlvErr \<equiv> 2"
abbreviation (input) kFirmwareProgressAddr :: u32 where "kFirmwareProgressAddr \<equiv> 0x30000020"
abbreviation (input) kExtmemBase :: u32 where "kExtmemBase \<equiv> 0x20000000"
abbreviation (input) kExtmemSize :: nat where "kExtmemSize \<equiv> 8388608"
abbreviation (input) kShellCsrBase :: u32 where "kShellCsrBase \<equiv> 0x00030000"
abbreviation (input) kCsrSize :: u32 where "kCsrSize \<equiv> 0x00001000"
abbreviation (input) kRtlCsrBase :: u32 where "kRtlCsrBase \<equiv> 0x00200000"

definition TranslateSlaveAddress :: "bool \<Rightarrow> u32 \<Rightarrow> u32" where
  "TranslateSlaveAddress highmem a =
     (if highmem \<and> kShellCsrBase \<le> a \<and> a < kShellCsrBase + kCsrSize
      then kRtlCsrBase + (a - kShellCsrBase) else a)"

definition IsCustomWordAccess :: "AxiAddr \<Rightarrow> bool" where
  "IsCustomWordAccess a \<longleftrightarrow> addr_bits_len a = 0 \<and> addr_bits_size a = 2 \<and> addr_bits_burst a = 1 \<and>
     addr_bits_addr a AND 3 = 0"

definition IsHybridWordAccess :: "AxiAddr \<Rightarrow> bool" where
  "IsHybridWordAccess a \<longleftrightarrow> addr_bits_len a = 0 \<and> addr_bits_size a = 2 \<and> addr_bits_burst a = 1 \<and>
     addr_bits_addr a AND 3 = 0 \<and> CORAL_OPERATOR_MMIO_BASE \<le> addr_bits_addr a \<and>
     addr_bits_addr a < CORAL_OPERATOR_MMIO_BASE + 0x100"

definition AccessWidthBucket :: "u32 \<Rightarrow> nat" where
  "AccessWidthBucket n =
     (if n = 1 then 0 else if n = 2 then 1 else if n = 4 then 2 else if n = 8 then 3 else if n = 16 then 4 else 5)"

definition ReadEnvU64 :: "(string \<Rightarrow> string option) \<Rightarrow> string \<Rightarrow> u64 \<Rightarrow> u64" where
  "ReadEnvU64 env name default_value =
     (case env name of
        None \<Rightarrow> default_value
      | Some text \<Rightarrow>
          if text = [] then default_value
          else let (value, end_text, _) = strtoull text in
            if end_text \<noteq> text \<and> end_text = [] \<and> value \<noteq> 0 then value else default_value)"

text \<open>Division by zero is undefined.\<close>

definition DivCeil :: "u64 \<Rightarrow> u64 \<Rightarrow> u64 option" where
  "DivCeil value divisor =
     (if value = 0 then Some 0 else if divisor = 0 then None else Some (1 + (value - 1) div divisor))"

fun IsHexMaskText :: "string \<Rightarrow> bool" where
  "IsHexMaskText (a # b # _) \<longleftrightarrow> a = CHR ''0'' \<and> (b = CHR ''x'' \<or> b = CHR ''X'')"
| "IsHexMaskText _ \<longleftrightarrow> False"

definition OperatorMaskBit :: "u32 \<Rightarrow> u32" where
  "OperatorMaskBit op = (if op < 32 then push_bit (unat op) 1 else 0)"

definition OperatorName :: "u32 \<Rightarrow> string" where
  "OperatorName op =
     (if op = CORAL_OPERATOR_OP_PARTIAL_MOBILENET then ''partial_mobilenet''
      else if op = CORAL_OPERATOR_OP_CONV_2D_INT8 then ''conv2d_int8''
      else if op = CORAL_OPERATOR_OP_DEPTHWISE_CONV_2D_INT8 then ''depthwise_conv2d_int8''
      else if op = CORAL_OPERATOR_OP_MATMUL_INT8 then ''matmul_int8''
      else if op = CORAL_OPERATOR_OP_FULLY_CONNECTED_INT8 then ''fully_connected_int8''
      else if op = CORAL_OPERATOR_OP_ADD_INT8 then ''add_int8''
      else if op = CORAL_OPERATOR_OP_SOFTMAX then ''softmax''
      else if op = CORAL_OPERATOR_OP_LAYER_NORM then ''layer_norm''
      else ''unknown'')"

text \<open>The two loops of \<open>TokenEquals\<close> strip blanks from both ends.\<close>

definition TokenEquals :: "string \<Rightarrow> string \<Rightarrow> bool" where
  "TokenEquals token name \<longleftrightarrow> trim token = name"

definition token_mask :: "string \<Rightarrow> u32" where
  "token_mask t =
     (if TokenEquals t ''conv'' then OperatorMaskBit CORAL_OPERATOR_OP_CONV_2D_INT8
      else if TokenEquals t ''depthwise'' then OperatorMaskBit CORAL_OPERATOR_OP_DEPTHWISE_CONV_2D_INT8
      else if TokenEquals t ''matmul'' then OperatorMaskBit CORAL_OPERATOR_OP_MATMUL_INT8
      else if TokenEquals t ''fc'' \<or> TokenEquals t ''fully_connected''
      then OperatorMaskBit CORAL_OPERATOR_OP_FULLY_CONNECTED_INT8
      else if TokenEquals t ''add'' then OperatorMaskBit CORAL_OPERATOR_OP_ADD_INT8
      else if TokenEquals t ''softmax'' then OperatorMaskBit CORAL_OPERATOR_OP_SOFTMAX
      else if TokenEquals t ''layernorm'' \<or> TokenEquals t ''layer_norm''
      then OperatorMaskBit CORAL_OPERATOR_OP_LAYER_NORM
      else 0)"

text \<open>The scan over the text: the token read so far, the rest of the text, the mask.\<close>

fun mask_loop :: "string \<Rightarrow> string \<Rightarrow> u32 \<Rightarrow> u32" where
  "mask_loop token [] bits = bits OR token_mask token"
| "mask_loop token (c # text) bits =
     (if c \<noteq> CHR '','' then mask_loop (token @ [c]) text bits
      else mask_loop [] text (bits OR token_mask token))"

definition ParseSampledRtlMask :: "(string \<Rightarrow> string option) \<Rightarrow> u32" where
  "ParseSampledRtlMask env =
     (case env ''CORAL_SAMPLED_RTL_OPS'' of
        None \<Rightarrow> 0
      | Some text \<Rightarrow>
          if text = [] \<or> text = ''none'' then 0
          else if text = ''all'' then
            OperatorMaskBit CORAL_OPERATOR_OP_CONV_2D_INT8 OR
            OperatorMaskBit CORAL_OPERATOR_OP_DEPTHWISE_CONV_2D_INT8 OR
            OperatorMaskBit CORAL_OPERATOR_OP_MATMUL_INT8 OR
            OperatorMaskBit CORAL_OPERATOR_OP_FULLY_CONNECTED_INT8 OR
            OperatorMaskBit CORAL_OPERATOR_OP_ADD_INT8 OR
            OperatorMaskBit CORAL_OPERATOR_OP_SOFTMAX OR
            OperatorMaskBit CORAL_OPERATOR_OP_LAYER_NORM
          else if IsHexMaskText text then ucast (fst (strtoull text))
          else mask_loop [] text 0)"

section \<open>Lemmas\<close>

lemma DivCeil_ceiling:
  assumes "divisor \<noteq> 0"
  shows "\<exists>q. DivCeil value divisor = Some q \<and>
    unat q = (unat value + unat divisor - 1) div unat divisor"
proof (cases "value = 0")
  case True
  have "unat divisor - Suc 0 < unat divisor" using assms by (simp add: unat_gt_0)
  then show ?thesis using True by (simp add: DivCeil_def)
next
  case False
  let ?v = "unat value" and ?d = "unat divisor"
  have pos: "0 < ?v" "0 < ?d" using False assms by (simp_all add: unat_gt_0)
  have m: "unat (value - 1) = ?v - 1" using False by (rule unat_minus_one)
  have q: "unat ((value - 1) div divisor) = (?v - 1) div ?d" by (simp add: unat_div m)
  have "(?v - 1) div ?d \<le> ?v - 1" by (rule div_le_dividend)
  then have "1 + (?v - 1) div ?d \<le> ?v" using pos by linarith
  then have "1 + (?v - 1) div ?d < 2 ^ LENGTH(64)" by (rule le_less_trans) (rule unat_lt_pow2)
  then have "unat (1 + (value - 1) div divisor) = 1 + (?v - 1) div ?d"
    by (subst unat_add_nowrap) (simp_all add: q)
  moreover have "(?v + ?d - 1) div ?d = 1 + (?v - 1) div ?d"
  proof -
    have "?v + ?d - 1 = (?v - 1) + ?d" using pos by simp
    moreover have "((?v - 1) + ?d) div ?d = (?v - 1) div ?d + 1" using pos(2) by (intro div_add_self2) simp
    ultimately show ?thesis by (simp only: add.commute)
  qed
  ultimately show ?thesis using False assms by (simp add: DivCeil_def)
qed

lemma ReadEnvU64_nonzero: "default_value \<noteq> 0 \<Longrightarrow> ReadEnvU64 env name default_value \<noteq> 0"
  by (auto simp: ReadEnvU64_def split: option.splits prod.splits)

lemma mask_loop_split:
  "CHR '','' \<notin> set token \<Longrightarrow>
    mask_loop token str bits = fold (\<lambda>t m. m OR token_mask t) (split_on CHR '','' (token @ str)) bits"
proof (induction token str bits rule: mask_loop.induct)
  case (1 token bits)
  then show ?case using split_on_append [of "CHR '',''" token "[]"] by simp
next
  case (2 token c str bits)
  show ?case
  proof (cases "c = CHR '',''")
    case True
    then show ?thesis using 2 split_on_append [of "CHR '',''" token "c # str"] by simp
  next
    case False
    then show ?thesis using 2 by simp
  qed
qed

text \<open>The operator a token names.\<close>

definition token_opcode :: "string \<Rightarrow> nat option" where
  "token_opcode t = map_of [(''conv'', 2), (''depthwise'', 3), (''matmul'', 4), (''fc'', 5),
     (''fully_connected'', 5), (''add'', 6), (''softmax'', 7), (''layernorm'', 8), (''layer_norm'', 8)] t"

lemma bit_OperatorMaskBit: "op < 32 \<Longrightarrow> bit (OperatorMaskBit op) k \<longleftrightarrow> k = unat op"
  by (auto simp: OperatorMaskBit_def bit_push_bit_iff bit_1_iff word_less_nat_alt simp del: push_bit_of_1)

lemma bit_token_mask: "bit (token_mask t) k \<longleftrightarrow> token_opcode (trim t) = Some k"
  by (auto simp: token_mask_def TokenEquals_def token_opcode_def bit_OperatorMaskBit)

lemma bit_fold_masks:
  "bit (fold (\<lambda>t m. m OR token_mask t) ts m) k \<longleftrightarrow> bit m k \<or> (\<exists>t \<in> set ts. bit (token_mask t) k)"
  by (induction ts arbitrary: m) (auto simp: bit_or_iff)

text \<open>
  the operators kept on the RTL. For a comma-separated text the mask has bit \<open>k\<close> set exactly if
  some token, with the blanks around it removed, names operator \<open>k\<close>; unknown names and empty tokens
  are ignored. The word \<open>all\<close> is the mask of the seven operator names.
\<close>

theorem ParseSampledRtlMask_tokens:
  "(\<forall>str. env ''CORAL_SAMPLED_RTL_OPS'' = Some str \<and> str \<noteq> [] \<and> str \<noteq> ''none'' \<and> str \<noteq> ''all'' \<and>
      \<not> IsHexMaskText str \<longrightarrow>
      (\<forall>k. bit (ParseSampledRtlMask env) k \<longleftrightarrow>
        (\<exists>t \<in> set (split_on CHR '','' str). token_opcode (trim t) = Some k))) \<and>
   ParseSampledRtlMask (\<lambda>_. Some ''all'') =
     ParseSampledRtlMask (\<lambda>_. Some ''conv,depthwise,matmul,fc,add,softmax,layernorm'')"
proof (intro conjI allI impI)
  fix str k
  assume "env ''CORAL_SAMPLED_RTL_OPS'' = Some str \<and> str \<noteq> [] \<and> str \<noteq> ''none'' \<and> str \<noteq> ''all'' \<and>
      \<not> IsHexMaskText str"
  then have "ParseSampledRtlMask env = mask_loop [] str 0" by (simp add: ParseSampledRtlMask_def)
  then show "bit (ParseSampledRtlMask env) k \<longleftrightarrow>
      (\<exists>t \<in> set (split_on CHR '','' str). token_opcode (trim t) = Some k)"
    by (simp add: mask_loop_split bit_fold_masks bit_token_mask)
next
  show "ParseSampledRtlMask (\<lambda>_. Some ''all'') =
     ParseSampledRtlMask (\<lambda>_. Some ''conv,depthwise,matmul,fc,add,softmax,layernorm'')"
    by (simp add: ParseSampledRtlMask_def token_mask_def TokenEquals_def trim_def c_isspace_def ac_simps)
qed

theorem ParseSampledRtlMask_tokens_witness:
  "bit (ParseSampledRtlMask [''CORAL_SAMPLED_RTL_OPS'' \<mapsto> ''add, fc ,bogus'']) 5"
  using ParseSampledRtlMask_tokens [of "[''CORAL_SAMPLED_RTL_OPS'' \<mapsto> ''add, fc ,bogus'']"]
  by (simp add: token_opcode_def trim_def c_isspace_def)

end
