(* ===== verification/Gem5_Bridge.thy ===== *)
theory Gem5_Bridge
  imports Axi_Drivers Custom_Mac Bridge_Config
begin

text \<open>
  The bridge between gem5 and the Verilated NPU (\<open>gem5_bridge/coralnpu_gem5_abi.cc\<close> and the wrapper
  \<open>gem5_core_mini_axi_wrapper.h\<close>): the handle, the two deferred AXI callbacks (operator registers,
  custom unit, local external memory, DMA to the host), and the C interface.

  The Verilated core and the AXI slave drivers are not part of the sources: they are the record
  \<open>core_model\<close>, an argument. Its clock is one period of the core: from the pins the drivers hold it
  gives the core after the period and the pins sampled by the read and the write driver, in the
  order the wrapper constructs them. Messages on standard error are not modelled.
\<close>

section \<open>State\<close>

record HybridOperatorStats =
  hs_count :: u64
  hs_host_ns :: u64
  hs_operations :: u64
  hs_modeled_cycles :: u64
  hs_bytes :: u64

record OperatorPhaseStats =
  ps_count :: u64
  ps_rtl_cycles :: u64
  ps_wall_ms :: u64
  ps_extmem_accesses :: u64
  ps_extmem_bytes :: u64
  ps_active :: bool
  ps_begin_cycles :: u64
  ps_begin_accesses :: u64
  ps_begin_bytes :: u64
  ps_begin_wall_time :: u64

text \<open>The fields of \<open>coral_gem5_handle\<close> apart from the wrapper. Times are nanoseconds.\<close>

record bridge =
  custom_unit :: custom_mac
  firmware_progress :: u32
  operator_mode :: u32
  sampled_rtl_mask :: u32
  hybrid_status :: u32
  local_extmem_enabled :: bool
  local_extmem :: bytes
  local_extmem_reads :: u64
  local_extmem_writes :: u64
  local_extmem_bytes :: u64
  local_extmem_widths :: "u64 list"
  rtl_cycles :: u64
  hybrid_ops_per_cycle :: u64
  hybrid_bytes_per_cycle :: u64
  hybrid_fixed_cycles :: u64
  progress_cycles :: u64
  progress_accesses :: u64
  progress_bytes :: u64
  progress_wall_time :: u64
  hybrid_operator_stats :: "HybridOperatorStats list"
  operator_phase_stats :: "OperatorPhaseStats list"
  pending_dma :: coral_gem5_dma_request
  dma_pending :: bool
  dma_beat_size :: u32
  dma_beat_count :: u32

text \<open>What the bridge takes from the host: the build option, the floating-point unit, the clock.\<close>

record host_env =
  env_highmem :: bool
  env_floats :: float_ops
  env_now :: u64
  env_elapsed :: u64

definition zero_hybrid_stats :: HybridOperatorStats where
  "zero_hybrid_stats = \<lparr> hs_count = 0, hs_host_ns = 0, hs_operations = 0, hs_modeled_cycles = 0, hs_bytes = 0 \<rparr>"

definition zero_phase_stats :: OperatorPhaseStats where
  "zero_phase_stats = \<lparr> ps_count = 0, ps_rtl_cycles = 0, ps_wall_ms = 0, ps_extmem_accesses = 0, ps_extmem_bytes = 0,
     ps_active = False, ps_begin_cycles = 0, ps_begin_accesses = 0, ps_begin_bytes = 0, ps_begin_wall_time = 0 \<rparr>"

definition init_bridge :: "(string \<Rightarrow> string option) \<Rightarrow> u64 \<Rightarrow> bridge" where
  "init_bridge env now = \<lparr> custom_unit = mac_Reset \<lparr> mac_model = mac_reset, active_cycles = 0 \<rparr>,
     firmware_progress = 0, operator_mode = 0, sampled_rtl_mask = ParseSampledRtlMask env, hybrid_status = 0,
     local_extmem_enabled = False, local_extmem = replicate kExtmemSize 0, local_extmem_reads = 0,
     local_extmem_writes = 0, local_extmem_bytes = 0, local_extmem_widths = replicate 6 0, rtl_cycles = 0,
     hybrid_ops_per_cycle = ReadEnvU64 env ''CORAL_HYBRID_OPS_PER_CYCLE'' 1,
     hybrid_bytes_per_cycle = ReadEnvU64 env ''CORAL_HYBRID_BYTES_PER_CYCLE'' 16,
     hybrid_fixed_cycles = ReadEnvU64 env ''CORAL_HYBRID_FIXED_CYCLES'' 0,
     progress_cycles = 0, progress_accesses = 0, progress_bytes = 0, progress_wall_time = now,
     hybrid_operator_stats = replicate 32 zero_hybrid_stats, operator_phase_stats = replicate 32 zero_phase_stats,
     pending_dma = zero_dma_request, dma_pending = False, dma_beat_size = 0, dma_beat_count = 0 \<rparr>"

section \<open>Operator phases\<close>

definition phase_marker :: "u32 \<Rightarrow> (nat \<times> bool) option" where
  "phase_marker m =
     (if m = 0x4d4e0600 then Some (2, True)
      else if m = 0x4d4e0601 then Some (2, False)
      else if m = 0x4d4e0700 then Some (3, True)
      else if m = 0x4d4e0701 then Some (3, False)
      else None)"

definition TrackOperatorPhase :: "u32 \<Rightarrow> u64 \<Rightarrow> u64 \<Rightarrow> bridge \<Rightarrow> bridge" where
  "TrackOperatorPhase marker now accesses b =
     (case phase_marker marker of
        None \<Rightarrow> b
      | Some (op, begin) \<Rightarrow>
          let stats = operator_phase_stats b ! op in
          if begin then
            b\<lparr> operator_phase_stats := (operator_phase_stats b)[op := stats\<lparr> ps_active := True,
                 ps_begin_cycles := rtl_cycles b, ps_begin_accesses := accesses,
                 ps_begin_bytes := local_extmem_bytes b, ps_begin_wall_time := now \<rparr>] \<rparr>
          else if \<not> ps_active stats \<or> rtl_cycles b < ps_begin_cycles stats \<or> accesses < ps_begin_accesses stats \<or>
                  local_extmem_bytes b < ps_begin_bytes stats
          then b
          else b\<lparr> operator_phase_stats := (operator_phase_stats b)[op := stats\<lparr> ps_active := False,
                 ps_count := ps_count stats + 1,
                 ps_rtl_cycles := ps_rtl_cycles stats + (rtl_cycles b - ps_begin_cycles stats),
                 ps_extmem_accesses := ps_extmem_accesses stats + (accesses - ps_begin_accesses stats),
                 ps_extmem_bytes := ps_extmem_bytes stats + (local_extmem_bytes b - ps_begin_bytes stats),
                 ps_wall_ms := ps_wall_ms stats + (now - ps_begin_wall_time stats) div 1000000 \<rparr>] \<rparr>)"

section \<open>The read callback\<close>

definition capabilities :: "bool \<Rightarrow> u32" where
  "capabilities highmem =
     (if highmem then push_bit 2 1 OR push_bit 3 1 OR push_bit 4 1 OR push_bit 5 1 OR push_bit 6 1 OR
        push_bit 7 1 OR push_bit 8 1 else 0)"

definition hybrid_register :: "bool \<Rightarrow> u32 \<Rightarrow> bridge \<Rightarrow> u32" where
  "hybrid_register highmem a b =
     (if a = CORAL_OPERATOR_MODE_REG then operator_mode b
      else if a = CORAL_OPERATOR_STATUS_REG then hybrid_status b
      else if a = CORAL_OPERATOR_SAMPLED_RTL_MASK_REG then sampled_rtl_mask b
      else if a = CORAL_OPERATOR_CAPABILITIES_REG then capabilities highmem
      else 0)"

text \<open>A single-beat response with a word on the lanes of its address, and an error response.\<close>

definition word_response :: "AxiAddr \<Rightarrow> u32 \<Rightarrow> AxiRData option" where
  "word_response a value =
     do { d \<leftarrow> store_bytes (replicate CORAL_GEM5_AXI_DATA_BYTES 0) (unat (addr_bits_addr a AND 0xf)) (le_bytes 4 value);
          Some (zero_read_response\<lparr> read_data_bits_data := d, read_data_bits_id := addr_bits_id a,
            read_data_bits_last := 1 \<rparr>) }"

definition error_response :: "AxiAddr \<Rightarrow> AxiRData" where
  "error_response a = zero_read_response\<lparr> read_data_bits_id := addr_bits_id a, read_data_bits_resp := kAxiSlvErr,
     read_data_bits_last := 1 \<rparr>"

text \<open>The test of both callbacks for the local external memory.\<close>

definition local_access :: "bridge \<Rightarrow> bool" where
  "local_access b \<longleftrightarrow> local_extmem_enabled b \<and> kExtmemBase \<le> dma_addr (pending_dma b) \<and>
     unat (dma_addr (pending_dma b) - kExtmemBase) \<le> length (local_extmem b) - unat (dma_size (pending_dma b))"

definition count_width :: "bridge \<Rightarrow> bridge" where
  "count_width b =
     (let n = dma_size (pending_dma b); k = AccessWidthBucket n in
      b\<lparr> local_extmem_bytes := local_extmem_bytes b + ucast n,
         local_extmem_widths := (local_extmem_widths b)[k := local_extmem_widths b ! k + 1] \<rparr>)"

definition local_read :: "bridge \<Rightarrow> (bridge \<times> AxiRData list) option" where
  "local_read b =
     do { rs \<leftarrow> read_beats (pending_dma b) (dma_beat_size b) (dma_beat_count b)
            (drop (unat (dma_addr (pending_dma b) - kExtmemBase)) (local_extmem b)) [0..<unat (dma_beat_count b)];
          let b = count_width (b\<lparr> local_extmem_reads := local_extmem_reads b + 1 \<rparr>);
          Some (b\<lparr> pending_dma := zero_dma_request \<rparr>, rs) }"

definition bridge_read :: "host_env \<Rightarrow> AxiAddr \<Rightarrow> bridge \<Rightarrow> (bridge \<times> AxiRData list) option" where
  "bridge_read env a b =
     (if IsHybridWordAccess a
      then do { r \<leftarrow> word_response a (hybrid_register (env_highmem env) (addr_bits_addr a) b); Some (b, [r]) }
      else if mac_Contains (addr_bits_addr a) 4
      then if \<not> IsCustomWordAccess a then Some (b, [error_response a])
        else do { r \<leftarrow> word_response a (if addr_bits_addr a = kFirmwareProgressAddr then firmware_progress b
                    else mac_Read32 (addr_bits_addr a) (custom_unit b));
                  Some (b, [r]) }
      else let (ok, p, s, c) = BuildGem5DmaReadRequest a (Some (pending_dma b)) (Some (dma_beat_size b))
                 (Some (dma_beat_count b));
               b = b\<lparr> pending_dma := the p, dma_beat_size := the s, dma_beat_count := the c \<rparr> in
        if \<not> ok then Some (b, [error_response a])
        else if local_access b then local_read b
        else Some (b\<lparr> dma_pending := True \<rparr>, []))"

section \<open>The write callback\<close>

text \<open>
  The doorbell runs the operator in place: the descriptor lies in the memory the kernels write. The
  model reads the descriptor, runs the operator and writes it back, which is the same as long as no
  tensor and no quantization array of the operator overlaps the descriptor; for the other
  descriptors the doorbell has no value.
\<close>

definition descriptor_apart :: "nat \<Rightarrow> coral_operator_descriptor \<Rightarrow> bool" where
  "descriptor_apart off d \<longleftrightarrow>
     (\<forall>i < unat (tensor_count d). apart (t_off kExtmemBase d i) (t_size d i) off sizeof_descriptor) \<and>
     (\<forall>a \<in> set [multiplier_address d, shift_address d]. quantization_count d \<noteq> 0 \<longrightarrow>
        apart (q_off kExtmemBase a) (4 * unat (quantization_count d)) off sizeof_descriptor)"

definition run_descriptor ::
  "host_env \<Rightarrow> nat \<Rightarrow> coral_operator_descriptor \<Rightarrow> bridge \<Rightarrow> kernel_result" where
  "run_descriptor env off d b =
     (if \<not> env_highmem env
      then Some (False, d\<lparr> op_state := CORAL_OPERATOR_STATE_ERROR, op_error := CORAL_OPERATOR_ERROR_UNSUPPORTED \<rparr>,
        local_extmem b)
      else if \<not> local_extmem_enabled b
      then Some (False, d\<lparr> op_state := CORAL_OPERATOR_STATE_ERROR, op_error := CORAL_OPERATOR_ERROR_ADDRESS \<rparr>,
        local_extmem b)
      else if fst (ValidateGem5HybridDescriptor d kExtmemBase (length (local_extmem b)) (Some 0)) \<and>
          \<not> descriptor_apart off d
      then None
      else dispatch_operator (env_floats env) (env_elapsed env) d (local_extmem b) kExtmemBase
        (length (local_extmem b)))"

text \<open>The latency model of a completed operator and the statistics per opcode.\<close>

definition model_latency :: "coral_operator_descriptor \<Rightarrow> bridge \<Rightarrow> coral_operator_descriptor option" where
  "model_latency d b =
     do { x \<leftarrow> DivCeil (operation_count d) (hybrid_ops_per_cycle b);
          y \<leftarrow> DivCeil (bytes_read d + bytes_written d) (hybrid_bytes_per_cycle b);
          Some (d\<lparr> modeled_cycles := hybrid_fixed_cycles b + x + y \<rparr>) }"

definition count_operator :: "coral_operator_descriptor \<Rightarrow> bridge \<Rightarrow> bridge" where
  "count_operator d b =
     (let k = unat (opcode d); stats = hybrid_operator_stats b ! k in
      if k < length (hybrid_operator_stats b)
      then b\<lparr> hybrid_operator_stats := (hybrid_operator_stats b)[k := stats\<lparr> hs_count := hs_count stats + 1,
          hs_host_ns := hs_host_ns stats + host_elapsed_ns d, hs_operations := hs_operations stats + operation_count d,
          hs_modeled_cycles := hs_modeled_cycles stats + modeled_cycles d,
          hs_bytes := hs_bytes stats + (bytes_read d + bytes_written d) \<rparr>] \<rparr>
      else b)"

definition doorbell :: "host_env \<Rightarrow> nat \<Rightarrow> bridge \<Rightarrow> bridge option" where
  "doorbell env off b =
     do { d \<leftarrow> load_descriptor (local_extmem b) off;
          (ok, d, m) \<leftarrow> run_descriptor env off d b;
          let b = b\<lparr> hybrid_status := op_state d \<rparr>;
          (d, b) \<leftarrow> (if ok then do { d \<leftarrow> model_latency d b; Some (d, count_operator d b) } else Some (d, b));
          m \<leftarrow> store_descriptor m off d;
          Some (b\<lparr> local_extmem := m \<rparr>) }"

text \<open>A single beat that strobes the whole word at the address.\<close>

definition word_beat :: "AxiAddr \<Rightarrow> AxiWData list \<Rightarrow> u32 option" where
  "word_beat a data =
     (case data of
        [d] \<Rightarrow>
          let lane = unat (addr_bits_addr a AND 0xf) in
          if write_data_bits_last d = 0 \<or> drop_bit lane (write_data_bits_strb d) AND 0xf \<noteq> 0xf then None
          else load32 (write_data_bits_data d) lane
      | _ \<Rightarrow> None)"

definition write_response :: "AxiAddr \<Rightarrow> u8 \<Rightarrow> AxiWResp" where
  "write_response a resp = \<lparr> write_resp_bits_id = addr_bits_id a, write_resp_bits_resp = resp \<rparr>"

definition hybrid_write :: "host_env \<Rightarrow> AxiAddr \<Rightarrow> AxiWData list \<Rightarrow> bridge \<Rightarrow> (bridge \<times> AxiWResp list) option" where
  "hybrid_write env a data b =
     (case word_beat a data of
        None \<Rightarrow> Some (b, [write_response a kAxiSlvErr])
      | Some command \<Rightarrow>
          if addr_bits_addr a \<noteq> CORAL_OPERATOR_DOORBELL_REG \<or>
             operator_mode b \<noteq> CORAL_OPERATOR_MODE_HYBRID \<and> operator_mode b \<noteq> CORAL_OPERATOR_MODE_SAMPLED \<or>
             command < kExtmemBase \<or> length (local_extmem b) - sizeof_descriptor < unat (command - kExtmemBase)
          then Some (b, [write_response a kAxiSlvErr])
          else do { b \<leftarrow> doorbell env (unat (command - kExtmemBase)) b; Some (b, [write_response a 0]) })"

definition progress_write :: "host_env \<Rightarrow> u32 \<Rightarrow> bridge \<Rightarrow> bridge" where
  "progress_write env value b =
     (let b = b\<lparr> firmware_progress := value \<rparr>;
          accesses = local_extmem_reads b + local_extmem_writes b;
          b = TrackOperatorPhase value (env_now env) accesses b in
      b\<lparr> progress_cycles := rtl_cycles b, progress_accesses := accesses, progress_bytes := local_extmem_bytes b,
         progress_wall_time := env_now env \<rparr>)"

definition custom_write :: "host_env \<Rightarrow> AxiAddr \<Rightarrow> AxiWData list \<Rightarrow> bridge \<Rightarrow> bridge \<times> AxiWResp list" where
  "custom_write env a data b =
     (if \<not> IsCustomWordAccess a then (b, [write_response a kAxiSlvErr])
      else case word_beat a data of
        None \<Rightarrow> (b, [write_response a kAxiSlvErr])
      | Some value \<Rightarrow>
          (if addr_bits_addr a = kFirmwareProgressAddr then progress_write env value b
           else b\<lparr> custom_unit := mac_Write32 (addr_bits_addr a) value (custom_unit b) \<rparr>, [write_response a 0]))"

definition local_write :: "bridge \<Rightarrow> (bridge \<times> AxiWResp list) option" where
  "local_write b =
     do { let p = pending_dma b;
          bs \<leftarrow> load_bytes (dma_data p) 0 (unat (dma_size p));
          m \<leftarrow> store_bytes (local_extmem b) (unat (dma_addr p - kExtmemBase)) bs;
          let b = count_width (b\<lparr> local_extmem := m, local_extmem_writes := local_extmem_writes b + 1 \<rparr>);
          Some (b\<lparr> pending_dma := zero_dma_request \<rparr>,
            [\<lparr> write_resp_bits_id = ucast (dma_id p), write_resp_bits_resp = 0 \<rparr>]) }"

definition bridge_write ::
  "host_env \<Rightarrow> AxiAddr \<Rightarrow> AxiWData list \<Rightarrow> bridge \<Rightarrow> (bridge \<times> AxiWResp list) option" where
  "bridge_write env a data b =
     (if IsHybridWordAccess a then hybrid_write env a data b
      else if mac_Contains (addr_bits_addr a) 4 then Some (custom_write env a data b)
      else do { (ok, p) \<leftarrow> BuildGem5DmaWriteRequest a data (Some (pending_dma b));
          let b = b\<lparr> pending_dma := the p \<rparr>;
          if \<not> ok then Some (b, [write_response a kAxiSlvErr])
          else if local_access b then local_write b
          else Some (b\<lparr> dma_pending := True \<rparr>, []) })"

section \<open>The wrapper\<close>

text \<open>The pins one clock period samples: read channel, then write channel.\<close>

record read_pins =
  rp_addr_valid :: bool
  rp_data_ready :: bool
  rp_addr :: AxiAddr

record write_pins =
  wp_addr_valid :: bool
  wp_data_valid :: bool
  wp_resp_ready :: bool
  wp_addr :: AxiAddr
  wp_beat :: AxiWData

record 'c core_model =
  core_clock :: "read_driver \<Rightarrow> write_driver \<Rightarrow> 'c \<Rightarrow> 'c \<times> read_pins \<times> write_pins"
  core_reset :: "'c \<Rightarrow> 'c"
  core_fault :: "'c \<Rightarrow> bool"
  core_halted :: "'c \<Rightarrow> bool"
  core_wfi :: "'c \<Rightarrow> bool"
  core_env :: "'c \<Rightarrow> host_env"
  slave_write :: "u32 \<Rightarrow> bytes \<Rightarrow> 'c \<Rightarrow> 'c"
  slave_write_done :: "'c \<Rightarrow> bool"
  slave_read :: "u32 \<Rightarrow> nat \<Rightarrow> 'c \<Rightarrow> 'c"
  slave_read_finished :: "'c \<Rightarrow> bool"
  slave_read_data :: "'c \<Rightarrow> bytes"

record 'c coral_gem5_handle =
  core :: 'c
  master_read :: read_driver
  master_write :: write_driver
  fault_seen :: bool
  hbridge :: bridge

definition wrapper_Reset :: "'c core_model \<Rightarrow> 'c coral_gem5_handle \<Rightarrow> 'c coral_gem5_handle" where
  "wrapper_Reset C h = h\<lparr> core := core_reset C (core h), fault_seen := False \<rparr>"

definition wrapper_Step :: "'c core_model \<Rightarrow> 'c coral_gem5_handle \<Rightarrow> 'c coral_gem5_handle option" where
  "wrapper_Step C h =
     (let (c, rp, wp) = core_clock C (master_read h) (master_write h) (core h); env = core_env C c in
      do { (rd, b) \<leftarrow> read_OnFallingEdge (bridge_read env) (rp_addr_valid rp) (rp_data_ready rp) (rp_addr rp)
             (master_read h) (hbridge h);
           (wr, b) \<leftarrow> write_OnFallingEdge (bridge_write env) (wp_addr_valid wp) (wp_data_valid wp) (wp_resp_ready wp)
             (wp_addr wp) (wp_beat wp) (master_write h) b;
           Some (h\<lparr> core := c, master_read := rd, master_write := wr, hbridge := b,
             fault_seen := fault_seen h \<or> core_fault C c \<rparr>) })"

text \<open>Clocking until a slave transaction is finished: a core that never finishes it gives \<open>None\<close>.\<close>

partial_function (option) await ::
  "'c core_model \<Rightarrow> ('c \<Rightarrow> bool) \<Rightarrow> 'c coral_gem5_handle \<Rightarrow> 'c coral_gem5_handle option" where
  "await C finished h =
     (if finished (core h) then Some h else Option.bind (wrapper_Step C h) (await C finished))"

definition page_room :: "u32 \<Rightarrow> nat" where
  "page_room a = 4096 - unat a mod 4096"

function wrapper_Write :: "'c core_model \<Rightarrow> u32 \<Rightarrow> bytes \<Rightarrow> 'c coral_gem5_handle \<Rightarrow> 'c coral_gem5_handle option" where
  "wrapper_Write C a remaining h =
     (if remaining = [] then Some h
      else let n = min (length remaining) (page_room a) in
        do { h \<leftarrow> await C (slave_write_done C) (h\<lparr> core := slave_write C a (take n remaining) (core h) \<rparr>);
             wrapper_Write C (a + of_nat n) (drop n remaining) h })"
  by pat_completeness auto

lemma page_room_pos [simp]: "0 < page_room a"
  by (simp add: page_room_def)

termination wrapper_Write
  by (relation "measure (\<lambda>(C, a, bs, h). length bs)") (auto simp: min_def)

declare wrapper_Write.simps [simp del]

partial_function (option) wrapper_Read_loop ::
  "'c core_model \<Rightarrow> u32 \<Rightarrow> nat \<Rightarrow> bytes \<Rightarrow> 'c coral_gem5_handle \<Rightarrow> (bytes \<times> 'c coral_gem5_handle) option" where
  "wrapper_Read_loop C a len result h =
     (if len \<le> length result then Some (result, h)
      else Option.bind (await C (slave_read_finished C)
             (h\<lparr> core := slave_read C a (min (len - length result) (page_room a)) (core h) \<rparr>))
           (\<lambda>h. wrapper_Read_loop C (a + of_nat (min (len - length result) (page_room a))) len
             (result @ slave_read_data C (core h)) h))"

definition wrapper_Read :: "'c core_model \<Rightarrow> u32 \<Rightarrow> nat \<Rightarrow> 'c coral_gem5_handle \<Rightarrow> (bytes \<times> 'c coral_gem5_handle) option" where
  "wrapper_Read C a len h = wrapper_Read_loop C a len [] h"

section \<open>The C interface\<close>

text \<open>A handle pointer is an option; so is a data pointer, with the buffer it points to.\<close>

definition coral_gem5_abi_version :: u32 where
  "coral_gem5_abi_version = 6"

definition coral_gem5_create ::
  "'c core_model \<Rightarrow> 'c \<Rightarrow> (string \<Rightarrow> string option) \<Rightarrow> u64 \<Rightarrow> 'c coral_gem5_handle" where
  "coral_gem5_create C c env now = wrapper_Reset C \<lparr> core = c, master_read = init_read_driver,
     master_write = init_write_driver, fault_seen = False, hbridge = init_bridge env now \<rparr>"

definition coral_gem5_reset ::
  "'c core_model \<Rightarrow> 'c coral_gem5_handle option \<Rightarrow> int \<times> 'c coral_gem5_handle option" where
  "coral_gem5_reset C handle =
     (case handle of
        None \<Rightarrow> (- 1, None)
      | Some h \<Rightarrow>
          let h = wrapper_Reset C h; b = hbridge h in
          (0, Some (h\<lparr> hbridge := b\<lparr> custom_unit := mac_Reset (custom_unit b), firmware_progress := 0,
            hybrid_status := 0, rtl_cycles := 0, progress_cycles := 0, progress_accesses := 0, progress_bytes := 0,
            progress_wall_time := env_now (core_env C (core h)) \<rparr> \<rparr>)))"

definition coral_gem5_mmio_read ::
  "'c core_model \<Rightarrow> 'c coral_gem5_handle option \<Rightarrow> u32 \<Rightarrow> bool \<Rightarrow> nat \<Rightarrow>
    (int \<times> bytes \<times> 'c coral_gem5_handle option) option" where
  "coral_gem5_mmio_read C handle a data_null n =
     (case handle of
        None \<Rightarrow> Some (- 1, [], None)
      | Some h \<Rightarrow>
          if data_null \<or> n = 0 then Some (- 1, [], handle)
          else do { (bs, h) \<leftarrow> wrapper_Read C (TranslateSlaveAddress (env_highmem (core_env C (core h))) a) (n mod 2 ^ 32) h;
                    Some (if length bs \<noteq> n then (- 1, [], Some h) else (0, bs, Some h)) })"

definition coral_gem5_mmio_write ::
  "'c core_model \<Rightarrow> 'c coral_gem5_handle option \<Rightarrow> u32 \<Rightarrow> bytes option \<Rightarrow>
    (int \<times> 'c coral_gem5_handle option) option" where
  "coral_gem5_mmio_write C handle a data =
     (case (handle, data) of
        (Some h, Some bs) \<Rightarrow>
          if bs = [] then Some (- 1, handle)
          else do { h \<leftarrow> wrapper_Write C (TranslateSlaveAddress (env_highmem (core_env C (core h))) a)
                      (take (length bs mod 2 ^ 32) bs) h;
                    Some (0, Some h) }
      | _ \<Rightarrow> Some (- 1, handle))"

text \<open>The cycles of a step: the return code of an early return, or none at the end of the loop.\<close>

primrec step_loop :: "'c core_model \<Rightarrow> nat \<Rightarrow> 'c coral_gem5_handle \<Rightarrow> (int option \<times> 'c coral_gem5_handle) option" where
  "step_loop C 0 h = Some (None, h)"
| "step_loop C (Suc n) h =
     (if fault_seen h then Some (Some 4, h)
      else if core_halted C (core h) then Some (Some 1, h)
      else do { h \<leftarrow> wrapper_Step C (h\<lparr> hbridge := (hbridge h)\<lparr> rtl_cycles := rtl_cycles (hbridge h) + 1 \<rparr> \<rparr>);
           let h = h\<lparr> hbridge := (hbridge h)\<lparr> custom_unit := mac_StepIfActive (custom_unit (hbridge h)) \<rparr> \<rparr>;
           if dma_pending (hbridge h) then Some (Some 2, h)
           else if fault_seen h then Some (Some 4, h)
           else if core_halted C (core h) then Some (Some 1, h)
           else step_loop C n h })"

definition coral_gem5_step ::
  "'c core_model \<Rightarrow> 'c coral_gem5_handle option \<Rightarrow> u32 \<Rightarrow> (int \<times> 'c coral_gem5_handle option) option" where
  "coral_gem5_step C handle cycles =
     (case handle of
        None \<Rightarrow> Some (- 1, None)
      | Some h \<Rightarrow>
          if cycles = 0 then Some (- 1, handle)
          else if dma_pending (hbridge h) then Some (2, handle)
          else do { (code, h) \<leftarrow> step_loop C (unat cycles) h;
                    Some (case code of Some r \<Rightarrow> (r, Some h)
                      | None \<Rightarrow> (if core_wfi C (core h) then 3 else 0, Some h)) })"

definition coral_gem5_cycle_count :: "'c coral_gem5_handle option \<Rightarrow> u64" where
  "coral_gem5_cycle_count handle = (case handle of None \<Rightarrow> 0 | Some h \<Rightarrow> rtl_cycles (hbridge h))"

definition coral_gem5_dma_request_get ::
  "'c coral_gem5_handle option \<Rightarrow> coral_gem5_dma_request option \<Rightarrow> int \<times> coral_gem5_dma_request option" where
  "coral_gem5_dma_request_get handle request =
     (case (handle, request) of
        (Some h, Some _) \<Rightarrow>
          if \<not> dma_pending (hbridge h) then (0, request) else (1, Some (pending_dma (hbridge h)))
      | _ \<Rightarrow> (- 1, request))"

definition queue_reads :: "AxiRData list \<Rightarrow> 'c coral_gem5_handle \<Rightarrow> 'c coral_gem5_handle" where
  "queue_reads rs h = h\<lparr> master_read := foldl (\<lambda>d r. read_QueueResponse r d) (master_read h) rs \<rparr>"

definition queue_write :: "AxiWResp \<Rightarrow> 'c coral_gem5_handle \<Rightarrow> 'c coral_gem5_handle" where
  "queue_write r h = h\<lparr> master_write := write_QueueResponse r (master_write h) \<rparr>"

definition finish_dma :: "'c coral_gem5_handle \<Rightarrow> 'c coral_gem5_handle" where
  "finish_dma h = h\<lparr> hbridge := (hbridge h)\<lparr> dma_pending := False, pending_dma := zero_dma_request \<rparr> \<rparr>"

definition coral_gem5_dma_complete ::
  "'c coral_gem5_handle option \<Rightarrow> bytes option \<Rightarrow> bool \<Rightarrow> (int \<times> 'c coral_gem5_handle option) option" where
  "coral_gem5_dma_complete handle data error =
     (case handle of
        None \<Rightarrow> Some (- 1, None)
      | Some h \<Rightarrow>
          let b = hbridge h; p = pending_dma b; resp = (if error then 2 else 0) in
          if \<not> dma_pending b then Some (- 1, handle)
          else if dma_type p = CORAL_GEM5_DMA_READ then
            if error then
              Some (0, Some (finish_dma (queue_reads [zero_read_response\<lparr> read_data_bits_id := ucast (dma_id p),
                read_data_bits_resp := resp, read_data_bits_last := 1 \<rparr>] h)))
            else (case data of
                None \<Rightarrow> Some (- 1, handle)
              | Some bs \<Rightarrow>
                  if length bs \<noteq> unat (dma_size p) then Some (- 1, handle)
                  else do { rs \<leftarrow> read_beats p (dma_beat_size b) (dma_beat_count b) bs [0..<unat (dma_beat_count b)];
                            Some (0, Some (finish_dma (queue_reads rs h))) })
          else if dma_type p = CORAL_GEM5_DMA_WRITE then
            Some (0, Some (finish_dma (queue_write
              \<lparr> write_resp_bits_id = ucast (dma_id p), write_resp_bits_resp = resp \<rparr> h)))
          else Some (- 1, handle))"

definition coral_gem5_extmem_enable ::
  "'c coral_gem5_handle option \<Rightarrow> int \<Rightarrow> int \<times> 'c coral_gem5_handle option" where
  "coral_gem5_extmem_enable handle enable =
     (case handle of
        None \<Rightarrow> (- 1, None)
      | Some h \<Rightarrow>
          let b = hbridge h in
          if dma_pending b then (- 1, handle)
          else if enable = 0 then (0, Some (h\<lparr> hbridge := b\<lparr> local_extmem_enabled := False \<rparr> \<rparr>))
          else (0, Some (h\<lparr> hbridge := b\<lparr> local_extmem_enabled := True,
                 local_extmem := replicate (length (local_extmem b)) 0, local_extmem_reads := 0,
                 local_extmem_writes := 0, local_extmem_bytes := 0,
                 local_extmem_widths := replicate (length (local_extmem_widths b)) 0 \<rparr> \<rparr>)))"

definition extmem_reject :: "'c coral_gem5_handle \<Rightarrow> u32 \<Rightarrow> nat \<Rightarrow> bool" where
  "extmem_reject h a n \<longleftrightarrow> \<not> local_extmem_enabled (hbridge h) \<or> kExtmemSize < n \<or> a < kExtmemBase \<or>
     kExtmemSize - n < unat (a - kExtmemBase)"

definition coral_gem5_extmem_read ::
  "'c coral_gem5_handle option \<Rightarrow> u32 \<Rightarrow> bool \<Rightarrow> nat \<Rightarrow> (int \<times> bytes) option" where
  "coral_gem5_extmem_read handle a data_null n =
     (case handle of
        None \<Rightarrow> Some (- 1, [])
      | Some h \<Rightarrow>
          if data_null \<or> extmem_reject h a n then Some (- 1, [])
          else do { bs \<leftarrow> load_bytes (local_extmem (hbridge h)) (unat (a - kExtmemBase)) n; Some (0, bs) })"

definition coral_gem5_extmem_write ::
  "'c coral_gem5_handle option \<Rightarrow> u32 \<Rightarrow> bytes option \<Rightarrow> (int \<times> 'c coral_gem5_handle option) option" where
  "coral_gem5_extmem_write handle a data =
     (case (handle, data) of
        (Some h, Some bs) \<Rightarrow>
          if extmem_reject h a (length bs) then Some (- 1, handle)
          else do { m \<leftarrow> store_bytes (local_extmem (hbridge h)) (unat (a - kExtmemBase)) bs;
                    Some (0, Some (h\<lparr> hbridge := (hbridge h)\<lparr> local_extmem := m \<rparr> \<rparr>)) }
      | _ \<Rightarrow> Some (- 1, handle))"

definition coral_gem5_operator_mode ::
  "'c coral_gem5_handle option \<Rightarrow> u32 \<Rightarrow> int \<times> 'c coral_gem5_handle option" where
  "coral_gem5_operator_mode handle mode =
     (case handle of
        None \<Rightarrow> (- 1, None)
      | Some h \<Rightarrow>
          if CORAL_OPERATOR_MODE_SAMPLED < mode then (- 1, handle)
          else (0, Some (h\<lparr> hbridge := (hbridge h)\<lparr> operator_mode := mode \<rparr> \<rparr>)))"

end
