(* ===== verification/Bridge_Invariant.thy ===== *)
theory Bridge_Invariant
  imports Gem5_Bridge
begin

text \<open>
  The bridge state is well formed: the external memory and the tables keep their sizes, the latency
  divisors are not zero and the custom unit keeps its invariant. Every callback preserves it and, the
  doorbell apart, always has a result: no access leaves the external memory, a bus word or a table.
\<close>

definition bridge_wf :: "bridge \<Rightarrow> bool" where
  "bridge_wf b \<longleftrightarrow> length (local_extmem b) = kExtmemSize \<and> length (local_extmem_widths b) = 6 \<and>
     length (hybrid_operator_stats b) = 32 \<and> length (operator_phase_stats b) = 32 \<and>
     hybrid_ops_per_cycle b \<noteq> 0 \<and> hybrid_bytes_per_cycle b \<noteq> 0 \<and> mac_inv (custom_unit b) \<and>
     length (dma_data (pending_dma b)) = 4096"

lemma init_bridge_wf: "bridge_wf (init_bridge env now)"
  by (simp add: bridge_wf_def init_bridge_def ReadEnvU64_nonzero mac_inv_Reset zero_dma_request_def)

lemma zero_dma_data [simp]: "length (dma_data zero_dma_request) = 4096"
  by (simp add: zero_dma_request_def)

section \<open>The read callback\<close>

lemma word_lane:
  fixes w :: u32
  assumes "w AND 3 = 0"
  shows "unat (w AND 0xf) + 4 \<le> 16"
proof -
  have "w AND 3 = w AND mask 2" "w AND 0xf = w AND mask 4" by (simp_all add: mask_eq_exp_minus_1)
  then have "unat w mod 4 = 0" "unat (w AND 0xf) = unat w mod 16"
    using assms and_low_mask_unat [of w 2] and_low_mask_unat [of w 4] by simp_all
  then show ?thesis by presburger
qed

lemma word_response_total:
  assumes "addr_bits_addr a AND 3 = 0"
  shows "\<exists>r. word_response a value = Some r"
  using word_lane [OF assms] by (simp add: word_response_def store_bytes_def)

lemma count_width_fields [simp]:
  "local_extmem (count_width b) = local_extmem b" "pending_dma (count_width b) = pending_dma b"
  "local_extmem_enabled (count_width b) = local_extmem_enabled b" "dma_pending (count_width b) = dma_pending b"
  "length (local_extmem_widths (count_width b)) = length (local_extmem_widths b)"
  "hybrid_operator_stats (count_width b) = hybrid_operator_stats b"
  "operator_phase_stats (count_width b) = operator_phase_stats b"
  "hybrid_ops_per_cycle (count_width b) = hybrid_ops_per_cycle b"
  "hybrid_bytes_per_cycle (count_width b) = hybrid_bytes_per_cycle b" "custom_unit (count_width b) = custom_unit b"
  "rtl_cycles (count_width b) = rtl_cycles b"
  by (simp_all add: count_width_def Let_def)

text \<open>The request a read burst leaves pending.\<close>

definition read_request :: "AxiAddr \<Rightarrow> coral_gem5_dma_request" where
  "read_request a = zero_dma_request\<lparr> dma_type := CORAL_GEM5_DMA_READ, dma_addr := addr_bits_addr a,
     dma_size := bytes_per_beat a * burst_beats a, dma_id := ucast (addr_bits_id a) \<rparr>"

definition with_read :: "AxiAddr \<Rightarrow> bridge \<Rightarrow> bridge" where
  "with_read a b = b\<lparr> pending_dma := read_request a, dma_beat_size := bytes_per_beat a,
     dma_beat_count := burst_beats a \<rparr>"

lemma bridge_read_dma:
  assumes "\<not> IsHybridWordAccess a" "\<not> mac_Contains (addr_bits_addr a) 4"
  shows "bridge_read env a b =
    (if \<not> axi_burst_ok a then Some (b, [error_response a])
     else if local_access (with_read a b) then local_read (with_read a b)
     else Some ((with_read a b)\<lparr> dma_pending := True \<rparr>, []))"
  using assms
  by (simp add: bridge_read_def BuildGem5DmaReadRequest_value with_read_def read_request_def Let_def)

lemma burst_size_word:
  assumes "axi_burst_ok a"
  shows "unat (bytes_per_beat a * burst_beats a) = b_size a * b_len a" "b_size a * b_len a \<le> 4096"
  using assms unat_burst_size [of a] burst_size_le [of a] by (auto simp: axi_burst_ok_def)

lemma local_read_value:
  assumes "axi_burst_ok a" "local_access (with_read a b)" "length (local_extmem b) = kExtmemSize"
  shows "\<exists>beats. local_read (with_read a b) = Some ((count_width ((with_read a b)\<lparr>
        local_extmem_reads := local_extmem_reads b + 1 \<rparr>))\<lparr> pending_dma := zero_dma_request \<rparr>, beats) \<and>
    beats_carry a (drop (unat (addr_bits_addr a - kExtmemBase)) (local_extmem b)) beats"
proof -
  let ?off = "unat (addr_bits_addr a - kExtmemBase)"
  have "?off \<le> kExtmemSize - b_size a * b_len a"
    using assms(2,3) burst_size_word(1) [OF assms(1)] by (simp add: local_access_def with_read_def read_request_def)
  then have "b_size a * b_len a \<le> length (drop ?off (local_extmem b))"
    using assms(3) burst_size_word(2) [OF assms(1)] by simp
  then show ?thesis
    using read_beats_correct [OF assms(1), of "read_request a" "drop ?off (local_extmem b)"]
    by (auto simp: local_read_def with_read_def read_request_def Let_def)
qed

lemma bridge_read_total:
  assumes "bridge_wf b"
  shows "\<exists>b' rs. bridge_read env a b = Some (b', rs) \<and> bridge_wf b'"
proof -
  have wf: "length (local_extmem b) = kExtmemSize" using assms by (simp add: bridge_wf_def)
  consider (hybrid) "IsHybridWordAccess a" | (custom) "\<not> IsHybridWordAccess a" "mac_Contains (addr_bits_addr a) 4"
    | (dma) "\<not> IsHybridWordAccess a" "\<not> mac_Contains (addr_bits_addr a) 4" by blast
  then show ?thesis
  proof cases
    case hybrid
    then obtain r where "word_response a (hybrid_register (env_highmem env) (addr_bits_addr a) b) = Some r"
      using word_response_total by (auto simp: IsHybridWordAccess_def)
    then show ?thesis using hybrid assms by (simp add: bridge_read_def)
  next
    case custom
    show ?thesis
    proof (cases "IsCustomWordAccess a")
      case True
      then obtain r where "word_response a (if addr_bits_addr a = kFirmwareProgressAddr then firmware_progress b
          else mac_Read32 (addr_bits_addr a) (custom_unit b)) = Some r"
        using word_response_total by (metis IsCustomWordAccess_def)
      then show ?thesis using custom True assms by (simp add: bridge_read_def)
    next
      case False
      then show ?thesis using custom assms by (simp add: bridge_read_def)
    qed
  next
    case dma
    show ?thesis
      unfolding bridge_read_dma [OF dma]
      using assms local_read_value [of a b] wf
      by (auto simp: bridge_wf_def with_read_def read_request_def)
  qed
qed

text \<open>A read burst is answered by the callback or left pending for the host.\<close>

lemma word_response_id: "word_response a v = Some r \<Longrightarrow> read_data_bits_id r = addr_bits_id a"
  by (auto simp: word_response_def split: bind_splits)

lemma bridge_read_answers:
  assumes "bridge_wf b" "bridge_read env a b = Some (b', rs)"
  shows "(\<forall>r \<in> set rs. read_data_bits_id r = addr_bits_id a) \<and>
    (if rs = [] then dma_pending b' \<and> dma_type (pending_dma b') = CORAL_GEM5_DMA_READ \<and>
       dma_addr (pending_dma b') = addr_bits_addr a \<and> dma_size (pending_dma b') = bytes_per_beat a * burst_beats a
     else dma_pending b' = dma_pending b)"
proof (cases "IsHybridWordAccess a \<or> mac_Contains (addr_bits_addr a) 4")
  case True
  then show ?thesis using assms(2)
    by (auto simp: bridge_read_def error_response_def dest!: word_response_id split: if_splits bind_split_asm)
next
  case False
  then have dma: "\<not> IsHybridWordAccess a" "\<not> mac_Contains (addr_bits_addr a) 4" by simp_all
  show ?thesis
  proof (cases "axi_burst_ok a \<and> local_access (with_read a b)")
    case True
    have wf: "length (local_extmem b) = kExtmemSize" using assms(1) by (simp add: bridge_wf_def)
    obtain beats where lr: "local_read (with_read a b) = Some ((count_width ((with_read a b)\<lparr>
        local_extmem_reads := local_extmem_reads b + 1 \<rparr>))\<lparr> pending_dma := zero_dma_request \<rparr>, beats)"
      and bc: "beats_carry a (drop (unat (addr_bits_addr a - kExtmemBase)) (local_extmem b)) beats"
      using local_read_value [of a b] True wf by blast
    have "beats \<noteq> []" "\<forall>r \<in> set beats. read_data_bits_id r = addr_bits_id a"
      using bc b_len_pos [of a] by (auto simp: beats_carry_def in_set_conv_nth simp del: b_len_pos)
    then show ?thesis
      using lr assms(2) True unfolding bridge_read_dma [OF dma] by (auto simp: with_read_def)
  next
    case no: False
    then show ?thesis
      using assms(2) unfolding bridge_read_dma [OF dma]
      by (auto simp: error_response_def with_read_def read_request_def split: if_splits)
  qed
qed

section \<open>The doorbell\<close>

lemma run_opcode_empty:
  assumes "run_opcode F d m extmem_base elapsed = Some (r, d', m')" "tensor_count d = 0"
  shows "m' = m"
  using assms
  by (auto simp: run_opcode_def conv_rejected RunGem5HybridMatMulInt8_def RunGem5HybridFullyConnectedInt8_def
      RunGem5HybridAddInt8_def RunGem5HybridSoftmax_def RunGem5HybridLayerNorm_def Let_def split: if_splits)

lemma dispatch_empty:
  assumes "dispatch_operator F elapsed d m extmem_base n = Some (r, d', m')" "tensor_count d = 0"
  shows "m' = m"
  using assms
  by (auto simp: dispatch_operator_def Let_def split: if_splits prod.splits bind_split_asm dest!: run_opcode_empty)

lemma run_descriptor_facts:
  assumes "descriptor_wf d" "run_descriptor env off d b = Some (ok, d', m')"
  shows "(if ok then op_state d' = CORAL_OPERATOR_STATE_COMPLETE \<and> op_error d' = CORAL_OPERATOR_ERROR_NONE
      else op_state d' = CORAL_OPERATOR_STATE_ERROR \<and> op_error d' \<noteq> CORAL_OPERATOR_ERROR_NONE) \<and>
    same_request d d' \<and> length m' = length (local_extmem b) \<and>
    (\<exists>i < 4. same_outside (t_off kExtmemBase d i) (t_size d i) (local_extmem b) m' \<and>
      (m' \<noteq> local_extmem b \<longrightarrow> apart (t_off kExtmemBase d i) (t_size d i) off sizeof_descriptor))"
proof (cases "env_highmem env \<and> local_extmem_enabled b")
  case False
  then have "m' = local_extmem b" using assms(2) by (auto simp: run_descriptor_def split: if_splits)
  then show ?thesis using False assms(2)
    by (auto simp: run_descriptor_def same_request_def split: if_splits intro: exI [of _ 0])
next
  case True
  let ?m = "local_extmem b" and ?n = "unat (tensor_count d - 1)"
  have run: "dispatch_operator (env_floats env) (env_elapsed env) d ?m kExtmemBase (length ?m) = Some (ok, d', m')"
    and ap: "fst (ValidateGem5HybridDescriptor d kExtmemBase (length ?m) (Some 0)) \<Longrightarrow> descriptor_apart off d"
    using assms(2) True by (auto simp: run_descriptor_def split: if_splits)
  note out = dispatch_outcome [OF assms(1) run]
  have valid: "fst (ValidateGem5HybridDescriptor d kExtmemBase (length ?m) (Some 0)) \<longleftrightarrow>
      descriptor_valid d kExtmemBase (length ?m)"
    using Validate_true_iff [of d kExtmemBase "length ?m" 0] Validate_error_iff [of d kExtmemBase "length ?m" 0] assms(1)
    by (cases "ValidateGem5HybridDescriptor d kExtmemBase (length ?m) (Some 0)") (auto simp: descriptor_wf_def)
  show ?thesis
  proof (cases "descriptor_valid d kExtmemBase (length ?m) \<and> tensor_count d \<noteq> 0")
    case v: True
    have n: "?n = unat (tensor_count d) - 1" using v by (intro unat_minus_one) simp
    have "0 < unat (tensor_count d)" using v by (simp add: unat_gt_0)
    moreover have "unat (tensor_count d) \<le> 4" using v by (simp add: descriptor_valid_def)
    ultimately have "?n < unat (tensor_count d)" "?n < 4" using n by simp_all
    then show ?thesis using out v ap valid
      by (auto simp: descriptor_apart_def dest: same_outside_length intro!: exI [of _ ?n])
  next
    case nv: False
    have "m' = ?m"
    proof (cases "descriptor_valid d kExtmemBase (length ?m)")
      case True
      then have "tensor_count d = 0" using nv by simp
      then show ?thesis using dispatch_empty [OF run] by simp
    next
      case False
      then show ?thesis using out by simp
    qed
    then show ?thesis using out by (auto intro: exI [of _ 0])
  qed
qed

lemma same_request_wf: "same_request d d' \<Longrightarrow> descriptor_wf d \<Longrightarrow> descriptor_wf d'"
proof -
  assume s: "same_request d d'" and wf: "descriptor_wf d"
  have "descriptor_wf (d\<lparr> op_state := x1, op_error := x2, operation_count := x3, host_elapsed_ns := x4,
     modeled_cycles := x5, bytes_read := x6, bytes_written := x7 \<rparr>)" for x1 x2 x3 x4 x5 x6 x7
    using wf by (simp add: descriptor_wf_def)
  then show ?thesis using s unfolding same_request_def by metis
qed

lemma same_request_cycles: "same_request d d' \<Longrightarrow> same_request d (d'\<lparr> modeled_cycles := x \<rparr>)"
proof -
  assume s: "same_request d d'"
  obtain x1 x2 x3 x4 x5 x6 x7 where "d' = d\<lparr> op_state := x1, op_error := x2, operation_count := x3,
     host_elapsed_ns := x4, modeled_cycles := x5, bytes_read := x6, bytes_written := x7 \<rparr>"
    using s unfolding same_request_def by blast
  then show ?thesis by (simp add: same_request_def)
qed

lemma same_request_opcode: "same_request d d' \<Longrightarrow> opcode d' = opcode d"
proof -
  assume s: "same_request d d'"
  obtain x1 x2 x3 x4 x5 x6 x7 where "d' = d\<lparr> op_state := x1, op_error := x2, operation_count := x3,
     host_elapsed_ns := x4, modeled_cycles := x5, bytes_read := x6, bytes_written := x7 \<rparr>"
    using s unfolding same_request_def by blast
  then show ?thesis by simp
qed

lemma model_latency_value:
  assumes "bridge_wf b"
  shows "\<exists>x y. model_latency d b = Some (d\<lparr> modeled_cycles := hybrid_fixed_cycles b + x + y \<rparr>) \<and>
    unat x = (unat (operation_count d) + unat (hybrid_ops_per_cycle b) - 1) div unat (hybrid_ops_per_cycle b) \<and>
    unat y = (unat (bytes_read d + bytes_written d) + unat (hybrid_bytes_per_cycle b) - 1) div
      unat (hybrid_bytes_per_cycle b)"
proof -
  obtain x y where "DivCeil (operation_count d) (hybrid_ops_per_cycle b) = Some x"
    "DivCeil (bytes_read d + bytes_written d) (hybrid_bytes_per_cycle b) = Some y"
    "unat x = (unat (operation_count d) + unat (hybrid_ops_per_cycle b) - 1) div unat (hybrid_ops_per_cycle b)"
    "unat y = (unat (bytes_read d + bytes_written d) + unat (hybrid_bytes_per_cycle b) - 1) div
      unat (hybrid_bytes_per_cycle b)"
    using assms DivCeil_ceiling [of "hybrid_ops_per_cycle b" "operation_count d"]
      DivCeil_ceiling [of "hybrid_bytes_per_cycle b" "bytes_read d + bytes_written d"]
    by (auto simp: bridge_wf_def)
  then show ?thesis by (intro exI [of _ x] exI [of _ y]) (simp add: model_latency_def)
qed

lemma count_operator_wf: "bridge_wf b \<Longrightarrow> bridge_wf (count_operator d b)"
  by (simp add: bridge_wf_def count_operator_def Let_def)

lemma count_operator_fields [simp]:
  "local_extmem (count_operator d b) = local_extmem b" "hybrid_status (count_operator d b) = hybrid_status b"
  by (simp_all add: count_operator_def Let_def)

lemma doorbell_facts:
  assumes wf: "bridge_wf b" and room: "off + sizeof_descriptor \<le> kExtmemSize"
    and d: "load_descriptor (local_extmem b) off = Some d" and run: "run_descriptor env off d b = Some (ok, d1, m1)"
  shows "\<exists>b' d' x y. doorbell env off b = Some b' \<and> bridge_wf b' \<and> hybrid_status b' = op_state d1 \<and>
    load_descriptor (local_extmem b') off = Some d' \<and>
    d' = (if ok then d1\<lparr> modeled_cycles := hybrid_fixed_cycles b + x + y \<rparr> else d1) \<and>
    unat x = (unat (operation_count d1) + unat (hybrid_ops_per_cycle b) - 1) div unat (hybrid_ops_per_cycle b) \<and>
    unat y = (unat (bytes_read d1 + bytes_written d1) + unat (hybrid_bytes_per_cycle b) - 1) div
      unat (hybrid_bytes_per_cycle b) \<and>
    same_outside off sizeof_descriptor m1 (local_extmem b') \<and> store_descriptor m1 off d' = Some (local_extmem b') \<and>
    hybrid_operator_stats b' = hybrid_operator_stats (if ok then count_operator d' b else b)"
proof -
  have dwf: "descriptor_wf d" using d by (rule load_descriptor_wf)
  note f = run_descriptor_facts [OF dwf run]
  let ?b = "b\<lparr> hybrid_status := op_state d1 \<rparr>"
  have wf1: "bridge_wf ?b" using wf by (simp add: bridge_wf_def)
  obtain x y where xy: "model_latency d1 ?b = Some (d1\<lparr> modeled_cycles := hybrid_fixed_cycles b + x + y \<rparr>)"
    "unat x = (unat (operation_count d1) + unat (hybrid_ops_per_cycle b) - 1) div unat (hybrid_ops_per_cycle b)"
    "unat y = (unat (bytes_read d1 + bytes_written d1) + unat (hybrid_bytes_per_cycle b) - 1) div
      unat (hybrid_bytes_per_cycle b)"
    using model_latency_value [OF wf1, of d1] by auto
  let ?d = "if ok then d1\<lparr> modeled_cycles := hybrid_fixed_cycles b + x + y \<rparr> else d1"
  have "same_request d ?d" using f same_request_cycles by simp
  then have dwf': "descriptor_wf ?d" using dwf same_request_wf by blast
  have len: "length m1 = kExtmemSize" using f wf by (simp add: bridge_wf_def)
  obtain m' where m': "store_descriptor m1 off ?d = Some m'" "load_descriptor m' off = Some ?d"
    "same_outside off sizeof_descriptor m1 m'"
    using store_descriptor_facts [OF _ dwf', of off m1] room len by auto
  let ?b' = "(if ok then count_operator ?d ?b else ?b)\<lparr> local_extmem := m' \<rparr>"
  have "doorbell env off b = Some ?b'"
    using d run xy(1) m'(1) by (auto simp: doorbell_def)
  moreover have "bridge_wf ?b'"
    using wf1 count_operator_wf [OF wf1, of ?d] same_outside_length [OF m'(3)] len by (auto simp: bridge_wf_def)
  moreover have "hybrid_operator_stats ?b' = hybrid_operator_stats (if ok then count_operator ?d b else b)"
    by (simp add: count_operator_def Let_def)
  ultimately show ?thesis using m' xy by (intro exI [of _ ?b'] exI [of _ ?d] exI [of _ x] exI [of _ y]) auto
qed

text \<open>
  C20: ringing the doorbell of a well-formed bridge. If the operator has a result, the status register
  reads complete or error, the descriptor in memory holds that state and the request it had, and the rest
  of memory is what the operator left: it differs from the memory before in one tensor of the operator
  only, and the descriptor that is written back does not lie over that tensor. A completed operator
  reports \<open>fixed + ceil(operations / ops per cycle) + ceil(bytes / bytes per cycle)\<close> modelled cycles and
  is counted once in the row of its opcode, with its host time, operations, cycles and bytes; a failed
  one leaves the statistics as they are.
\<close>

theorem doorbell_outcome:
  assumes "bridge_wf b" "off + sizeof_descriptor \<le> kExtmemSize"
    and "load_descriptor (local_extmem b) off = Some d" "run_descriptor env off d b = Some (ok, d1, m1)"
  shows "\<exists>b' d' i. doorbell env off b = Some b' \<and> bridge_wf b' \<and>
    load_descriptor (local_extmem b') off = Some d' \<and> same_request d d' \<and> hybrid_status b' = op_state d' \<and>
    op_state d' = (if ok then CORAL_OPERATOR_STATE_COMPLETE else CORAL_OPERATOR_STATE_ERROR) \<and>
    op_error d' = op_error d1 \<and> (op_error d' = CORAL_OPERATOR_ERROR_NONE \<longleftrightarrow> ok) \<and>
    (ok \<longrightarrow> (\<exists>x y. modeled_cycles d' = hybrid_fixed_cycles b + x + y \<and>
      unat x = (unat (operation_count d1) + unat (hybrid_ops_per_cycle b) - 1) div unat (hybrid_ops_per_cycle b) \<and>
      unat y = (unat (bytes_read d1 + bytes_written d1) + unat (hybrid_bytes_per_cycle b) - 1) div
        unat (hybrid_bytes_per_cycle b))) \<and>
    hybrid_operator_stats b' = (if \<not> ok then hybrid_operator_stats b
      else let k = unat (opcode d); row = hybrid_operator_stats b ! k in
        (hybrid_operator_stats b)[k := row\<lparr> hs_count := hs_count row + 1, hs_host_ns := hs_host_ns row + host_elapsed_ns d1,
          hs_operations := hs_operations row + operation_count d1, hs_modeled_cycles := hs_modeled_cycles row + modeled_cycles d',
          hs_bytes := hs_bytes row + (bytes_read d1 + bytes_written d1) \<rparr>]) \<and>
    (\<forall>k < kExtmemSize. k < off \<or> off + sizeof_descriptor \<le> k \<longrightarrow> local_extmem b' ! k = m1 ! k) \<and>
    i < 4 \<and> same_outside (t_off kExtmemBase d i) (t_size d i) (local_extmem b) m1 \<and>
    (m1 \<noteq> local_extmem b \<longrightarrow> apart (t_off kExtmemBase d i) (t_size d i) off sizeof_descriptor)"
proof -
  have dwf: "descriptor_wf d" using assms(3) by (rule load_descriptor_wf)
  obtain i where f: "if ok then op_state d1 = CORAL_OPERATOR_STATE_COMPLETE \<and> op_error d1 = CORAL_OPERATOR_ERROR_NONE
      else op_state d1 = CORAL_OPERATOR_STATE_ERROR \<and> op_error d1 \<noteq> CORAL_OPERATOR_ERROR_NONE"
    "same_request d d1" "length m1 = length (local_extmem b)" "i < 4"
    "same_outside (t_off kExtmemBase d i) (t_size d i) (local_extmem b) m1"
    "m1 \<noteq> local_extmem b \<longrightarrow> apart (t_off kExtmemBase d i) (t_size d i) off sizeof_descriptor"
    using run_descriptor_facts [OF dwf assms(4)] by blast
  obtain b' d' x y where b': "doorbell env off b = Some b'" "bridge_wf b'" "hybrid_status b' = op_state d1"
    "load_descriptor (local_extmem b') off = Some d'"
    and d': "d' = (if ok then d1\<lparr> modeled_cycles := hybrid_fixed_cycles b + x + y \<rparr> else d1)"
    and xy: "unat x = (unat (operation_count d1) + unat (hybrid_ops_per_cycle b) - 1) div unat (hybrid_ops_per_cycle b)"
    "unat y = (unat (bytes_read d1 + bytes_written d1) + unat (hybrid_bytes_per_cycle b) - 1) div
      unat (hybrid_bytes_per_cycle b)"
    and out: "same_outside off sizeof_descriptor m1 (local_extmem b')"
    and stats: "hybrid_operator_stats b' = hybrid_operator_stats (if ok then count_operator d' b else b)"
    using doorbell_facts [OF assms] by blast
  have wf: "length (local_extmem b) = kExtmemSize" "length (hybrid_operator_stats b) = 32" using assms(1) by (simp_all add: bridge_wf_def)
  have "\<forall>k < kExtmemSize. k < off \<or> off + sizeof_descriptor \<le> k \<longrightarrow> local_extmem b' ! k = m1 ! k"
    using out f(3) wf(1) by (auto simp: same_outside_def)
  moreover have "same_request d d'" using f(2) same_request_cycles by (simp add: d')
  moreover have "opcode d1 = opcode d" by (rule same_request_opcode [OF f(2)])
  moreover have "op_state d' = op_state d1" "op_error d' = op_error d1" by (simp_all add: d')
  ultimately show ?thesis using b' xy f(1,4-6) stats wf(2)
    by (intro exI [of _ b'] exI [of _ d'] exI [of _ i]) (auto simp: d' count_operator_def Let_def list_update_beyond split: if_splits)
qed

text \<open>
  A doorbell on a descriptor for the element-wise addition of two pairs: the bridge completes it, the sums
  are in memory and the operator is counted.
\<close>

lemma same_outside_take:
  assumes "same_outside a n (xs @ ys) m" "length xs \<le> a"
  shows "take (length xs) m = xs"
  using assms by (intro nth_equalityI) (auto simp: same_outside_def nth_append)

lemma add_dispatched:
  assumes "length m = kExtmemSize" "take 4 m = [2, 3, 4, 5]"
  shows "\<exists>d1 m1. dispatch_operator F 0 dispatch_example m kExtmemBase (length m) = Some (True, d1, m1) \<and>
    s8_at m1 4 = 7 \<and> s8_at m1 5 = 9"
proof -
  let ?d = "dispatch_example\<lparr> op_state := 2, op_error := 0, host_elapsed_ns := 0, modeled_cycles := 0, bytes_read := 0,
       bytes_written := 0 \<rparr>"
  have len: "length m = 8388608" using assms(1) by simp
  have m: "m ! 0 = 2" "m ! 1 = 3" "m ! 2 = 4" "m ! 3 = 5"
    using assms(2) nth_take [of 0 4 m] nth_take [of 1 4 m] nth_take [of 2 4 m] nth_take [of 3 4 m] by simp_all
  have "descriptor_valid dispatch_example kExtmemBase (length m)"
    by (simp add: descriptor_valid_def dispatch_example_def dense_example_defs all_less_3 in_extmem_def len)
  then have v: "ValidateGem5HybridDescriptor dispatch_example kExtmemBase (length m) (Some 0) = (True, Some 0)"
    by (subst Validate_true_iff) (simp_all add: dispatch_example_def dense_example_defs)
  have ok: "dense_memory_ok ?d kExtmemBase m 2" "rank (tensors ?d ! 0) \<le> 4" "\<bar>output_zero_point ?d\<bar> \<le> 2147483137"
    by (simp_all add: dispatch_example_def dense_memory_ok_def dense_example_defs descriptor_wf_def tensor_wf_def int32_range_def
        int8_range_def all_le_2 all_less_2 apart_def len word_le_nat_alt)
  have a: "add_args ?d" by code_simp
  have r: "add_ref ?d kExtmemBase m 0 = 7" "add_ref ?d kExtmemBase m 1 = 9"
    by (simp_all add: add_ref_def dispatch_example_def dense_example_defs s8_at_def m m(2) [unfolded One_nat_def])
  obtain d2 m1 where "RunGem5HybridAddInt8 ?d m kExtmemBase 0 = Some (True, d2, m1)" "s8_at m1 4 = 7" "s8_at m1 5 = 9"
    using RunGem5HybridAddInt8_correct [OF ok, of 0] a r by (auto simp: dispatch_example_def dense_example_defs all_less_2)
  moreover have "opcode dispatch_example = 6" by (simp add: dispatch_example_def)
  ultimately show ?thesis using v by (auto simp: dispatch_operator_def run_opcode_def Let_def)
qed

theorem doorbell_outcome_witness:
  "\<forall>F. \<exists>m b'. store_descriptor ([2, 3, 4, 5] @ replicate (kExtmemSize - 4) 0) 0x400300 dispatch_example = Some m \<and>
    doorbell \<lparr> env_highmem = True, env_floats = F, env_now = 0, env_elapsed = 0 \<rparr> 0x400300
      ((init_bridge (\<lambda>_. None) 0)\<lparr> local_extmem_enabled := True, local_extmem := m \<rparr>) = Some b' \<and>
    hybrid_status b' = CORAL_OPERATOR_STATE_COMPLETE \<and> s8_at (local_extmem b') 4 = 7 \<and> s8_at (local_extmem b') 5 = 9 \<and>
    hs_count (hybrid_operator_stats b' ! 6) = 1"
proof
  fix F
  let ?env = "\<lparr> env_highmem = True, env_floats = F, env_now = 0, env_elapsed = 0 \<rparr>"
  have wf: "descriptor_wf dispatch_example"
    by (simp add: dispatch_example_def dense_example_defs descriptor_wf_def tensor_wf_def int32_range_def)
  have room: "0x400300 + sizeof_descriptor \<le> kExtmemSize" by (simp add: sizeof_descriptor_def)
  obtain m where m: "store_descriptor ([2, 3, 4, 5] @ replicate (kExtmemSize - 4) 0) 0x400300 dispatch_example = Some m"
    "load_descriptor m 0x400300 = Some dispatch_example"
    "same_outside 0x400300 sizeof_descriptor ([2, 3, 4, 5] @ replicate (kExtmemSize - 4) 0) m"
    using store_descriptor_facts [OF _ wf, of "0x400300" "[2, 3, 4, 5] @ replicate (kExtmemSize - 4) 0"] room by auto
  let ?b = "(init_bridge (\<lambda>_. None) 0)\<lparr> local_extmem_enabled := True, local_extmem := m \<rparr>"
  have len: "length m = kExtmemSize" using same_outside_length [OF m(3)] by simp
  then have bwf: "bridge_wf ?b" using init_bridge_wf [of "\<lambda>_. None" 0] by (simp add: bridge_wf_def)
  have "take (length [2, 3, 4, 5 :: u8]) m = [2, 3, 4, 5]" by (rule same_outside_take [OF m(3)]) simp
  then have "take 4 m = [2, 3, 4, 5]" by (simp add: numeral_eq_Suc)
  then obtain d1 m1 where run: "dispatch_operator F 0 dispatch_example m kExtmemBase (length m) = Some (True, d1, m1)"
    and s8: "s8_at m1 4 = 7" "s8_at m1 5 = 9" using add_dispatched [OF len] by blast
  have "descriptor_apart 0x400300 dispatch_example"
    by (simp add: descriptor_apart_def dispatch_example_def dense_example_defs apart_def sizeof_descriptor_def all_less_3)
  then have rd: "run_descriptor ?env 0x400300 dispatch_example ?b = Some (True, d1, m1)" using run by (simp add: run_descriptor_def)
  have ld: "load_descriptor (local_extmem ?b) 0x400300 = Some dispatch_example" using m(2) by simp
  have "\<exists>b'. doorbell ?env 0x400300 ?b = Some b' \<and> hybrid_status b' = CORAL_OPERATOR_STATE_COMPLETE \<and>
     (\<forall>k < kExtmemSize. k < 0x400300 \<or> 0x400300 + sizeof_descriptor \<le> k \<longrightarrow> local_extmem b' ! k = m1 ! k) \<and>
     hs_count (hybrid_operator_stats b' ! 6) = 1"
    using doorbell_outcome [OF bwf room ld rd] by (auto simp: dispatch_example_def init_bridge_def zero_hybrid_stats_def Let_def)
  then show "\<exists>m b'. store_descriptor ([2, 3, 4, 5] @ replicate (kExtmemSize - 4) 0) 0x400300 dispatch_example = Some m \<and>
    doorbell ?env 0x400300 ((init_bridge (\<lambda>_. None) 0)\<lparr> local_extmem_enabled := True, local_extmem := m \<rparr>) = Some b' \<and>
    hybrid_status b' = CORAL_OPERATOR_STATE_COMPLETE \<and> s8_at (local_extmem b') 4 = 7 \<and> s8_at (local_extmem b') 5 = 9 \<and>
    hs_count (hybrid_operator_stats b' ! 6) = 1"
    using m(1) s8 by (auto simp: s8_at_def)
qed

section \<open>The write callback\<close>

lemma TrackOperatorPhase_wf: "bridge_wf b \<Longrightarrow> bridge_wf (TrackOperatorPhase v now n b)"
  by (auto simp: TrackOperatorPhase_def Let_def bridge_wf_def split: option.splits prod.splits)

lemma custom_write_wf:
  assumes "bridge_wf b" "mac_Contains (addr_bits_addr a) 4"
  shows "bridge_wf (fst (custom_write env a data b))"
proof -
  have "bridge_wf (progress_write env v b)" for v
    using TrackOperatorPhase_wf [of "b\<lparr> firmware_progress := v \<rparr>"] assms(1)
    by (simp add: progress_write_def Let_def bridge_wf_def)
  moreover have "bridge_wf (b\<lparr> custom_unit := mac_Write32 (addr_bits_addr a) v (custom_unit b) \<rparr>)" for v
    using assms mac_Write32_inv by (simp add: bridge_wf_def)
  ultimately show ?thesis using assms(1) by (auto simp: custom_write_def split: option.splits)
qed

lemma local_write_value:
  assumes "bridge_wf b" "local_access b" "unat (dma_size (pending_dma b)) \<le> 4096"
  shows "\<exists>m. store_bytes (local_extmem b) (unat (dma_addr (pending_dma b) - kExtmemBase))
      (take (unat (dma_size (pending_dma b))) (dma_data (pending_dma b))) = Some m \<and>
    local_write b = Some ((count_width (b\<lparr> local_extmem := m, local_extmem_writes := local_extmem_writes b + 1 \<rparr>))
      \<lparr> pending_dma := zero_dma_request \<rparr>,
      [\<lparr> write_resp_bits_id = ucast (dma_id (pending_dma b)), write_resp_bits_resp = 0 \<rparr>]) \<and> length m = kExtmemSize"
proof -
  let ?p = "pending_dma b" and ?off = "unat (dma_addr (pending_dma b) - kExtmemBase)"
  let ?bs = "take (unat (dma_size ?p)) (dma_data ?p)"
  have len: "length ?bs = unat (dma_size ?p)" "length (local_extmem b) = kExtmemSize"
    using assms(1,3) by (simp_all add: bridge_wf_def)
  then have "?off + length ?bs \<le> length (local_extmem b)" using assms(2,3) by (auto simp: local_access_def)
  then obtain m where m: "store_bytes (local_extmem b) ?off ?bs = Some m" "length m = length (local_extmem b)"
    using ram.wr_in_range [of ?off ?bs "local_extmem b"] by blast
  moreover have "load_bytes (dma_data ?p) 0 (unat (dma_size ?p)) = Some ?bs"
    using assms(1,3) by (simp add: load_bytes_def bridge_wf_def)
  ultimately show ?thesis using len(2) by (simp add: local_write_def Let_def)
qed

text \<open>The DMA branch of the write callback.\<close>

lemma bridge_write_dma:
  assumes "bridge_wf b" "\<forall>d \<in> set data. length (write_data_bits_data d) = 16"
    and "\<not> IsHybridWordAccess a" "\<not> mac_Contains (addr_bits_addr a) 4"
  shows "\<exists>r. length (dma_data r) = 4096 \<and>
    (write_burst_ok a data \<longrightarrow> dma_type r = CORAL_GEM5_DMA_WRITE \<and> dma_addr r = addr_bits_addr a \<and>
      unat (dma_size r) = b_size a * b_len a \<and> b_size a * b_len a \<le> 4096 \<and> dma_id r = ucast (addr_bits_id a) \<and>
      (\<forall>k < b_size a * b_len a. dma_data r ! k = burst_byte a data k)) \<and>
    bridge_write env a data b =
      (if \<not> write_burst_ok a data then Some (b\<lparr> pending_dma := r \<rparr>, [write_response a kAxiSlvErr])
       else if local_access (b\<lparr> pending_dma := r \<rparr>) then local_write (b\<lparr> pending_dma := r \<rparr>)
       else Some (b\<lparr> pending_dma := r, dma_pending := True \<rparr>, []))"
proof -
  obtain r where r: "BuildGem5DmaWriteRequest a data (Some (pending_dma b)) = Some (write_burst_ok a data, Some r)"
    "write_burst_ok a data \<longrightarrow> dma_type r = CORAL_GEM5_DMA_WRITE \<and> dma_addr r = addr_bits_addr a \<and>
      unat (dma_size r) = b_size a * b_len a \<and> dma_id r = ucast (addr_bits_id a) \<and>
      length (dma_data r) = 4096 \<and> (\<forall>k < b_size a * b_len a. dma_data r ! k = burst_byte a data k)"
    using write_request_facts [OF assms(2), of a "pending_dma b"] by blast
  have len: "length (dma_data r) = 4096"
    using BuildGem5DmaWriteRequest_length [OF r(1)] assms(1) by (simp add: bridge_wf_def)
  have "write_burst_ok a data \<Longrightarrow> b_size a * b_len a \<le> 4096"
    using burst_size_word(2) [of a] by (simp add: write_burst_ok_def)
  then show ?thesis using r len assms(3,4) by (intro exI [of _ r]) (simp add: bridge_write_def Let_def)
qed

lemma bridge_write_dma_size:
  assumes "bridge_wf b" "\<forall>d \<in> set data. length (write_data_bits_data d) = 16"
    and "\<not> IsHybridWordAccess a" "\<not> mac_Contains (addr_bits_addr a) 4"
  obtains r where "length (dma_data r) = 4096" "write_burst_ok a data \<longrightarrow> unat (dma_size r) \<le> 4096"
    "bridge_write env a data b =
      (if \<not> write_burst_ok a data then Some (b\<lparr> pending_dma := r \<rparr>, [write_response a kAxiSlvErr])
       else if local_access (b\<lparr> pending_dma := r \<rparr>) then local_write (b\<lparr> pending_dma := r \<rparr>)
       else Some (b\<lparr> pending_dma := r, dma_pending := True \<rparr>, []))"
proof -
  from bridge_write_dma [OF assms, of env] obtain r where r: "length (dma_data r) = 4096"
    "write_burst_ok a data \<longrightarrow> dma_type r = CORAL_GEM5_DMA_WRITE \<and> dma_addr r = addr_bits_addr a \<and>
      unat (dma_size r) = b_size a * b_len a \<and> b_size a * b_len a \<le> 4096 \<and> dma_id r = ucast (addr_bits_id a) \<and>
      (\<forall>k < b_size a * b_len a. dma_data r ! k = burst_byte a data k)"
    "bridge_write env a data b =
      (if \<not> write_burst_ok a data then Some (b\<lparr> pending_dma := r \<rparr>, [write_response a kAxiSlvErr])
       else if local_access (b\<lparr> pending_dma := r \<rparr>) then local_write (b\<lparr> pending_dma := r \<rparr>)
       else Some (b\<lparr> pending_dma := r, dma_pending := True \<rparr>, []))"
    by blast
  show thesis by (rule that [OF r(1) _ r(3)]) (use r(2) in simp)
qed

lemma bridge_write_wf:
  assumes "bridge_wf b" "\<forall>d \<in> set data. length (write_data_bits_data d) = 16"
    and "bridge_write env a data b = Some (b', rs)"
  shows "bridge_wf b' \<and> length rs \<le> 1"
proof -
  consider (hybrid) "IsHybridWordAccess a" | (custom) "\<not> IsHybridWordAccess a" "mac_Contains (addr_bits_addr a) 4"
    | (dma) "\<not> IsHybridWordAccess a" "\<not> mac_Contains (addr_bits_addr a) 4" by blast
  then show ?thesis
  proof cases
    case hybrid
    show ?thesis
    proof (cases "b' = b")
      case True
      then show ?thesis using assms hybrid
        by (auto simp: bridge_write_def hybrid_write_def split: option.splits if_splits bind_split_asm)
    next
      case False
      then obtain off where off: "doorbell env off b = Some b'" "rs = [write_response a 0]" "off \<le> kExtmemSize - sizeof_descriptor"
        using assms hybrid
        by (auto simp: bridge_write_def hybrid_write_def bridge_wf_def not_less split: option.splits if_splits bind_split_asm)
      then obtain d ok d1 m1 where "load_descriptor (local_extmem b) off = Some d"
        "run_descriptor env off d b = Some (ok, d1, m1)"
        by (auto simp: doorbell_def split: bind_split_asm)
      moreover have "off + sizeof_descriptor \<le> kExtmemSize" using off(3) by (simp add: sizeof_descriptor_def)
      ultimately show ?thesis using doorbell_facts [OF assms(1)] off(1,2) by fastforce
    qed
  next
    case custom
    then have "b' = fst (custom_write env a data b)" "rs = snd (custom_write env a data b)"
      using assms(3) by (simp_all add: bridge_write_def)
    then show ?thesis using custom_write_wf [OF assms(1) custom(2)] by (auto simp: custom_write_def split: option.splits)
  next
    case dma
    obtain r where r: "length (dma_data r) = 4096" "write_burst_ok a data \<longrightarrow> unat (dma_size r) \<le> 4096"
      "bridge_write env a data b =
      (if \<not> write_burst_ok a data then Some (b\<lparr> pending_dma := r \<rparr>, [write_response a kAxiSlvErr])
       else if local_access (b\<lparr> pending_dma := r \<rparr>) then local_write (b\<lparr> pending_dma := r \<rparr>)
       else Some (b\<lparr> pending_dma := r, dma_pending := True \<rparr>, []))"
      by (rule bridge_write_dma_size [OF assms(1,2) dma])
    have wf: "bridge_wf (b\<lparr> pending_dma := r \<rparr>)" using assms(1) r(1) by (simp add: bridge_wf_def)
    show ?thesis
    proof (cases "write_burst_ok a data \<and> local_access (b\<lparr> pending_dma := r \<rparr>)")
      case True
      then show ?thesis using local_write_value [OF wf] r(2,3) assms(3) wf by (fastforce simp: bridge_wf_def)
    next
      case False
      then show ?thesis using r(3) assms(3) wf by (auto simp: bridge_wf_def split: if_splits)
    qed
  qed
qed

text \<open>A write burst is answered once by the callback or left pending for the host.\<close>

lemma doorbell_pending: "doorbell env off b = Some b' \<Longrightarrow> dma_pending b' = dma_pending b"
  by (auto simp: doorbell_def count_operator_def Let_def split: bind_split_asm if_splits prod.splits)

lemma custom_write_pending: "dma_pending (fst (custom_write env a data b)) = dma_pending b"
  by (auto simp: custom_write_def progress_write_def TrackOperatorPhase_def Let_def split: option.splits prod.splits)

lemma bridge_write_answers:
  assumes "bridge_wf b" "\<forall>d \<in> set data. length (write_data_bits_data d) = 16"
    and "bridge_write env a data b = Some (b', rs)"
  shows "(\<exists>resp. rs = [write_response a resp]) \<and> dma_pending b' = dma_pending b \<or>
    rs = [] \<and> dma_pending b' \<and> dma_type (pending_dma b') = CORAL_GEM5_DMA_WRITE \<and>
      dma_addr (pending_dma b') = addr_bits_addr a \<and> unat (dma_size (pending_dma b')) = b_size a * b_len a"
proof -
  consider (hybrid) "IsHybridWordAccess a" | (custom) "\<not> IsHybridWordAccess a" "mac_Contains (addr_bits_addr a) 4"
    | (dma) "\<not> IsHybridWordAccess a" "\<not> mac_Contains (addr_bits_addr a) 4" by blast
  then show ?thesis
  proof cases
    case hybrid
    then show ?thesis using assms(3)
      by (auto simp: bridge_write_def hybrid_write_def split: option.splits if_splits bind_split_asm dest!: doorbell_pending)
  next
    case custom
    then have "b' = fst (custom_write env a data b)" "rs = snd (custom_write env a data b)"
      using assms(3) by (simp_all add: bridge_write_def)
    then show ?thesis using custom_write_pending by (auto simp: custom_write_def split: option.splits)
  next
    case dma
    from bridge_write_dma [OF assms(1,2) dma, of env] obtain r where r: "length (dma_data r) = 4096"
      "write_burst_ok a data \<longrightarrow> dma_type r = CORAL_GEM5_DMA_WRITE \<and> dma_addr r = addr_bits_addr a \<and>
        unat (dma_size r) = b_size a * b_len a \<and> b_size a * b_len a \<le> 4096 \<and> dma_id r = ucast (addr_bits_id a)"
      "bridge_write env a data b =
        (if \<not> write_burst_ok a data then Some (b\<lparr> pending_dma := r \<rparr>, [write_response a kAxiSlvErr])
         else if local_access (b\<lparr> pending_dma := r \<rparr>) then local_write (b\<lparr> pending_dma := r \<rparr>)
         else Some (b\<lparr> pending_dma := r, dma_pending := True \<rparr>, []))"
      by blast
    show ?thesis
    proof (cases "write_burst_ok a data \<and> local_access (b\<lparr> pending_dma := r \<rparr>)")
      case True
      have "bridge_wf (b\<lparr> pending_dma := r \<rparr>)" using assms(1) r(1) by (simp add: bridge_wf_def)
      moreover have "(ucast (ucast (addr_bits_id a) :: u32) :: u8) = addr_bits_id a" by (rule bit_word_eqI) (simp add: bit_simps)
      ultimately show ?thesis using local_write_value [of "b\<lparr> pending_dma := r \<rparr>"] True r assms(3)
        by (auto simp: write_response_def)
    next
      case False
      then show ?thesis using r(2,3) assms(3) by (auto split: if_splits)
    qed
  qed
qed

text \<open>
  C19: the bridge keeps its invariant and answers. From a well-formed bridge the read callback always
  has a result, and the write callback has one for every burst that is not an operator register access;
  both leave a well-formed bridge. Every burst is either answered at once or left pending for the host:
  a read gets responses with its identifier, or none and a pending read request with its address and
  size; a write gets exactly one response with its identifier, or none and a pending write request with
  its address and size. No access leaves the external memory, a bus word, the request buffer or a
  statistics table, and the latency model never divides by zero.
\<close>

theorem bridge_callbacks_invariant:
  assumes "bridge_wf b" "\<forall>d \<in> set data. length (write_data_bits_data d) = 16"
  shows "(\<exists>b' rs. bridge_read env a b = Some (b', rs) \<and> bridge_wf b' \<and> (\<forall>r \<in> set rs. read_data_bits_id r = addr_bits_id a) \<and>
      (if rs = [] then dma_pending b' \<and> dma_type (pending_dma b') = CORAL_GEM5_DMA_READ \<and>
         dma_addr (pending_dma b') = addr_bits_addr a \<and> dma_size (pending_dma b') = bytes_per_beat a * burst_beats a
       else dma_pending b' = dma_pending b)) \<and>
    (\<forall>b' rs. bridge_write env a data b = Some (b', rs) \<longrightarrow> bridge_wf b' \<and>
      ((\<exists>resp. rs = [write_response a resp]) \<and> dma_pending b' = dma_pending b \<or>
       rs = [] \<and> dma_pending b' \<and> dma_type (pending_dma b') = CORAL_GEM5_DMA_WRITE \<and>
         dma_addr (pending_dma b') = addr_bits_addr a \<and> unat (dma_size (pending_dma b')) = b_size a * b_len a)) \<and>
    (\<not> IsHybridWordAccess a \<longrightarrow> bridge_write env a data b \<noteq> None)"
    (is "?rd \<and> (\<forall>b' rs. _ \<longrightarrow> bridge_wf b' \<and> ?wr b' rs) \<and> _")
proof (intro conjI allI impI)
  obtain b' rs where "bridge_read env a b = Some (b', rs)" "bridge_wf b'" using bridge_read_total [OF assms(1)] by blast
  then show ?rd using bridge_read_answers [OF assms(1)] by blast
  show "bridge_wf b'" "?wr b' rs" if "bridge_write env a data b = Some (b', rs)" for b' rs
    using bridge_write_wf [OF assms that] bridge_write_answers [OF assms that] by blast+
  assume h: "\<not> IsHybridWordAccess a"
  show "bridge_write env a data b \<noteq> None"
  proof (cases "mac_Contains (addr_bits_addr a) 4")
    case True
    then show ?thesis using h by (simp add: bridge_write_def)
  next
    case False
    obtain r where r: "length (dma_data r) = 4096" "write_burst_ok a data \<longrightarrow> unat (dma_size r) \<le> 4096"
      "bridge_write env a data b =
      (if \<not> write_burst_ok a data then Some (b\<lparr> pending_dma := r \<rparr>, [write_response a kAxiSlvErr])
       else if local_access (b\<lparr> pending_dma := r \<rparr>) then local_write (b\<lparr> pending_dma := r \<rparr>)
       else Some (b\<lparr> pending_dma := r, dma_pending := True \<rparr>, []))"
      by (rule bridge_write_dma_size [OF assms h False])
    have "bridge_wf (b\<lparr> pending_dma := r \<rparr>)" using assms(1) r(1) by (simp add: bridge_wf_def)
    from local_write_value [OF this] show ?thesis using r(2,3) by fastforce
  qed
qed

theorem bridge_callbacks_invariant_witness:
  "\<forall>env. bridge_wf (init_bridge (\<lambda>_. None) 0) \<and>
    bridge_write env write_example_addr write_example_data (init_bridge (\<lambda>_. None) 0) \<noteq> None"
  using bridge_callbacks_invariant [OF init_bridge_wf [of "\<lambda>_. None" 0], of write_example_data _ write_example_addr]
    init_bridge_wf [of "\<lambda>_. None" 0]
  by (auto simp: write_example_data_def IsHybridWordAccess_def write_example_addr_def)

end
