(* ===== verification/Bridge_Memory.thy ===== *)
theory Bridge_Memory
  imports Bridge_Invariant
begin

text \<open>
  What the bridge does for its clients: bursts to the local external memory are coherent whatever
  their shape, and the C interface to that memory is a bounded byte store.
\<close>

section \<open>Bursts to the local external memory\<close>

definition extmem_burst :: "AxiAddr \<Rightarrow> bool" where
  "extmem_burst a \<longleftrightarrow> kExtmemBase \<le> addr_bits_addr a \<and> b_addr a + b_size a * b_len a \<le> 0x20800000"

lemma extmem_burst_facts:
  assumes "extmem_burst a"
  shows "\<not> IsHybridWordAccess a" "\<not> mac_Contains (addr_bits_addr a) 4"
    "unat (addr_bits_addr a - kExtmemBase) = b_addr a - 0x20000000" "0x20000000 \<le> b_addr a"
    "unat (addr_bits_addr a - kExtmemBase) + b_size a * b_len a \<le> kExtmemSize"
proof -
  have le: "kExtmemBase \<le> addr_bits_addr a" and up: "b_addr a + b_size a * b_len a \<le> 0x20800000"
    using assms by (simp_all add: extmem_burst_def)
  show ge: "0x20000000 \<le> b_addr a" using le by (simp add: word_le_nat_alt b_addr_def)
  show off: "unat (addr_bits_addr a - kExtmemBase) = b_addr a - 0x20000000"
    using le by (simp add: unat_sub_le b_addr_def)
  show "unat (addr_bits_addr a - kExtmemBase) + b_size a * b_len a \<le> kExtmemSize" using off ge up by simp
  have "b_addr a < 0x30000000" using up by simp
  then show "\<not> IsHybridWordAccess a" "\<not> mac_Contains (addr_bits_addr a) 4"
    by (auto simp: IsHybridWordAccess_def mac_Contains_def CORAL_OPERATOR_MMIO_BASE_def word_le_nat_alt b_addr_def)
qed

lemma write_burst_local:
  assumes wf: "bridge_wf b" and en: "local_extmem_enabled b" and data: "\<forall>d \<in> set data. length (write_data_bits_data d) = 16"
    and ok: "write_burst_ok a data" and ext: "extmem_burst a"
  shows "\<exists>b'. bridge_write env a data b = Some (b', [write_response a 0]) \<and> bridge_wf b' \<and> local_extmem_enabled b' \<and>
    dma_pending b' = dma_pending b \<and>
    (\<forall>i < kExtmemSize. local_extmem b' ! i =
      (let k = i + 0x20000000 - b_addr a in
       if b_addr a \<le> i + 0x20000000 \<and> k < b_size a * b_len a then burst_byte a data k else local_extmem b ! i))"
proof -
  note e = extmem_burst_facts [OF ext]
  let ?n = "b_size a * b_len a" and ?off = "unat (addr_bits_addr a - kExtmemBase)"
  obtain r where r: "length (dma_data r) = 4096" "dma_addr r = addr_bits_addr a" "unat (dma_size r) = ?n" "?n \<le> 4096"
    "dma_id r = ucast (addr_bits_id a)" "\<forall>k < ?n. dma_data r ! k = burst_byte a data k"
    "bridge_write env a data b =
       (if local_access (b\<lparr> pending_dma := r \<rparr>) then local_write (b\<lparr> pending_dma := r \<rparr>)
       else Some (b\<lparr> pending_dma := r, dma_pending := True \<rparr>, []))"
    using bridge_write_dma [OF wf data e(1,2), of env] ok by (auto simp del: One_nat_def)
  let ?b = "b\<lparr> pending_dma := r \<rparr>"
  have wf': "bridge_wf ?b" using wf r(1) by (simp add: bridge_wf_def)
  have len: "length (local_extmem b) = kExtmemSize" using wf by (simp add: bridge_wf_def)
  have acc: "local_access ?b"
    using en ext e(5) by (simp add: local_access_def r(2,3) len extmem_burst_def)
  obtain m where m: "store_bytes (local_extmem b) ?off (take ?n (dma_data r)) = Some m"
    "local_write ?b = Some ((count_width (?b\<lparr> local_extmem := m, local_extmem_writes := local_extmem_writes b + 1 \<rparr>))
      \<lparr> pending_dma := zero_dma_request \<rparr>, [\<lparr> write_resp_bits_id = ucast (dma_id r), write_resp_bits_resp = 0 \<rparr>])"
    "length m = kExtmemSize"
    using local_write_value [OF wf' acc] r(2-4) by auto
  have id: "(ucast (ucast (addr_bits_id a) :: u32) :: u8) = addr_bits_id a"
    by (rule bit_word_eqI) (simp add: bit_simps)
  let ?b' = "(count_width (?b\<lparr> local_extmem := m, local_extmem_writes := local_extmem_writes b + 1 \<rparr>))
      \<lparr> pending_dma := zero_dma_request \<rparr>"
  have "bridge_write env a data b = Some (?b', [write_response a 0])"
    using r(7) acc m(2) by (simp add: r(5) id write_response_def)
  moreover have "bridge_wf ?b'" using wf' m(3) by (simp add: bridge_wf_def)
  moreover have "m ! i = (let k = i + 0x20000000 - b_addr a in
       if b_addr a \<le> i + 0x20000000 \<and> k < ?n then burst_byte a data k else local_extmem b ! i)" if i: "i < kExtmemSize" for i
  proof -
    have l: "length (take ?n (dma_data r)) = ?n" using r(1,4) by simp
    then have "m = take ?off (local_extmem b) @ take ?n (dma_data r) @ drop (?off + ?n) (local_extmem b)"
      using m(1) by (simp add: store_bytes_def split: if_splits)
    then have "m ! i = (if ?off \<le> i \<and> i < ?off + ?n then take ?n (dma_data r) ! (i - ?off) else local_extmem b ! i)"
      using nth_splice [of ?off "take ?n (dma_data r)" "local_extmem b" i] l e(5) len i by simp
    moreover have "i - ?off = i + 0x20000000 - b_addr a" "?off \<le> i \<longleftrightarrow> b_addr a \<le> i + 0x20000000"
      using e(3,4) by linarith+
    moreover have "take ?n (dma_data r) ! k = burst_byte a data k" if "k < ?n" for k using that r(6) by simp
    ultimately show ?thesis by (auto simp: Let_def)
  qed
  ultimately show ?thesis using en by (intro exI [of _ ?b']) simp
qed

lemma read_burst_local:
  assumes wf: "bridge_wf b" and en: "local_extmem_enabled b" and ok: "axi_burst_ok a" and ext: "extmem_burst a"
  shows "\<exists>b' beats. bridge_read env a b = Some (b', beats) \<and> bridge_wf b' \<and> local_extmem b' = local_extmem b \<and>
    dma_pending b' = dma_pending b \<and>
    beats_carry a (drop (b_addr a - 0x20000000) (local_extmem b)) beats"
proof -
  note e = extmem_burst_facts [OF ext]
  have len: "length (local_extmem b) = kExtmemSize" using wf by (simp add: bridge_wf_def)
  have acc: "local_access (with_read a b)"
    using en ext e(5) burst_size_word(1) [OF ok]
    by (simp add: local_access_def with_read_def read_request_def len extmem_burst_def)
  obtain beats where beats: "local_read (with_read a b) = Some ((count_width ((with_read a b)\<lparr>
        local_extmem_reads := local_extmem_reads b + 1 \<rparr>))\<lparr> pending_dma := zero_dma_request \<rparr>, beats)"
    "beats_carry a (drop (b_addr a - 0x20000000) (local_extmem b)) beats"
    using local_read_value [OF ok acc len] e(3) by auto
  have "bridge_read env a b = local_read (with_read a b)" using bridge_read_dma [OF e(1,2)] ok acc by simp
  moreover have "bridge_wf ((count_width ((with_read a b)\<lparr> local_extmem_reads := local_extmem_reads b + 1 \<rparr>))
      \<lparr> pending_dma := zero_dma_request \<rparr>)"
    using wf by (simp add: bridge_wf_def with_read_def)
  ultimately show ?thesis using beats by (simp add: with_read_def)
qed

text \<open>
  C21: bursts to the local external memory are coherent. After a write burst, a read burst of any
  shape inside the memory returns on byte lane \<open>A mod 16\<close> of its beats, for every address \<open>A\<close> it
  covers, the byte the write burst carried for \<open>A\<close> if it covered \<open>A\<close>, and the byte that was there
  before otherwise. Both are answered at once, without a DMA to the host.
\<close>

theorem local_extmem_coherent:
  assumes "bridge_wf b" "local_extmem_enabled b" "\<forall>d \<in> set data. length (write_data_bits_data d) = 16"
    and "write_burst_ok w data" "extmem_burst w" "axi_burst_ok r" "extmem_burst r"
  shows "\<exists>b1 b2 beats. bridge_write env w data b = Some (b1, [write_response w 0]) \<and>
    bridge_read env r b1 = Some (b2, beats) \<and> dma_pending b2 = dma_pending b \<and> length beats = b_len r \<and>
    (\<forall>k < b_size r * b_len r.
      read_data_bits_data (beats ! (k div b_size r)) ! ((b_addr r + k) mod 16) =
      (if b_addr w \<le> b_addr r + k \<and> b_addr r + k < b_addr w + b_size w * b_len w
       then burst_byte w data (b_addr r + k - b_addr w) else local_extmem b ! (b_addr r + k - 0x20000000)))"
proof -
  obtain b1 where b1: "bridge_write env w data b = Some (b1, [write_response w 0])" "bridge_wf b1"
    "local_extmem_enabled b1" "dma_pending b1 = dma_pending b"
    "\<forall>i < kExtmemSize. local_extmem b1 ! i = (let k = i + 0x20000000 - b_addr w in
       if b_addr w \<le> i + 0x20000000 \<and> k < b_size w * b_len w then burst_byte w data k else local_extmem b ! i)"
    using write_burst_local [OF assms(1-5), of env] by blast
  obtain b2 beats where b2: "bridge_read env r b1 = Some (b2, beats)" "dma_pending b2 = dma_pending b1"
    "beats_carry r (drop (b_addr r - 0x20000000) (local_extmem b1)) beats"
    using read_burst_local [OF b1(2,3) assms(6,7), of env] by blast
  note e = extmem_burst_facts [OF assms(7)]
  have "read_data_bits_data (beats ! (k div b_size r)) ! ((b_addr r + k) mod 16) =
      (if b_addr w \<le> b_addr r + k \<and> b_addr r + k < b_addr w + b_size w * b_len w
       then burst_byte w data (b_addr r + k - b_addr w) else local_extmem b ! (b_addr r + k - 0x20000000))"
    if k: "k < b_size r * b_len r" for k
  proof -
    let ?i = "b_addr r - 0x20000000 + k"
    have i: "?i < kExtmemSize" using e(3,5) k by simp
    have "read_data_bits_data (beats ! (k div b_size r)) ! ((b_addr r + k) mod 16) =
        drop (b_addr r - 0x20000000) (local_extmem b1) ! k"
      using b2(3) k by (simp add: beats_carry_def)
    also have "\<dots> = local_extmem b1 ! ?i"
      using b1(2) i by (intro nth_drop) (simp add: bridge_wf_def)
    finally have v: "read_data_bits_data (beats ! (k div b_size r)) ! ((b_addr r + k) mod 16) = local_extmem b1 ! ?i" .
    have eq: "?i + 0x20000000 = b_addr r + k" "?i = b_addr r + k - 0x20000000" using e(4) by simp_all
    show ?thesis
      unfolding v b1(5) [rule_format, OF i] Let_def eq(1) by (auto simp: eq(2))
  qed
  then show ?thesis using b1(1,4) b2 by (intro exI [of _ b1] exI [of _ b2] exI [of _ beats]) (simp add: beats_carry_def)
qed

text \<open>Eight bytes written at offset \<open>0x18\<close> and a sixteen-byte read at offset \<open>0x10\<close>.\<close>

definition read_example_addr :: AxiAddr where
  "read_example_addr = write_example_addr\<lparr> addr_bits_addr := 0x20000010, addr_bits_len := 0, addr_bits_size := 4 \<rparr>"

theorem local_extmem_coherent_witness:
  "\<forall>env. \<exists>b1 b2 beat. bridge_write env write_example_addr write_example_data
      ((init_bridge (\<lambda>_. None) 0)\<lparr> local_extmem_enabled := True \<rparr>) = Some (b1, [write_response write_example_addr 0]) \<and>
    bridge_read env read_example_addr b1 = Some (b2, [beat]) \<and>
    read_data_bits_data beat ! 7 = 0 \<and> read_data_bits_data beat ! 11 = 11 \<and> read_data_bits_data beat ! 12 = 28"
proof
  fix env
  let ?b = "(init_bridge (\<lambda>_. None) 0)\<lparr> local_extmem_enabled := True \<rparr>"
  have wf: "bridge_wf ?b" using init_bridge_wf [of "\<lambda>_. None" 0] by (simp add: bridge_wf_def)
  have en: "local_extmem_enabled ?b" by simp
  have data: "\<forall>d \<in> set write_example_data. length (write_data_bits_data d) = 16"
    by (simp add: write_example_data_def)
  have w: "extmem_burst write_example_addr"
    by (simp add: extmem_burst_def burst_accessors write_example_addr_def)
  have r: "axi_burst_ok read_example_addr" "extmem_burst read_example_addr"
    by (simp_all add: axi_burst_ok_def extmem_burst_def burst_accessors read_example_addr_def write_example_addr_def)
  have v: "burst_byte write_example_addr write_example_data 3 = 11" "burst_byte write_example_addr write_example_data 4 = 28"
    "b_addr write_example_addr = 0x20000018" "b_size write_example_addr = 4" "b_len write_example_addr = 2"
    "b_addr read_example_addr = 0x20000010" "b_size read_example_addr = 16" "b_len read_example_addr = 1"
    by (simp_all add: burst_byte_def burst_accessors write_example_addr_def write_example_data_def read_example_addr_def)
  obtain b1 b2 beats where b: "bridge_write env write_example_addr write_example_data ?b =
        Some (b1, [write_response write_example_addr 0])"
      "bridge_read env read_example_addr b1 = Some (b2, beats)" "length beats = b_len read_example_addr"
    and c: "\<forall>k < b_size read_example_addr * b_len read_example_addr.
      read_data_bits_data (beats ! (k div b_size read_example_addr)) ! ((b_addr read_example_addr + k) mod 16) =
      (if b_addr write_example_addr \<le> b_addr read_example_addr + k \<and>
          b_addr read_example_addr + k < b_addr write_example_addr + b_size write_example_addr * b_len write_example_addr
       then burst_byte write_example_addr write_example_data (b_addr read_example_addr + k - b_addr write_example_addr)
       else local_extmem ?b ! (b_addr read_example_addr + k - 0x20000000))"
    using local_extmem_coherent [OF wf en data write_example_ok w r, of env] by blast
  obtain beat where beat: "beats = [beat]" using b(3) v(8) by (auto simp: length_Suc_conv)
  have "read_data_bits_data beat ! 7 = 0" "read_data_bits_data beat ! 11 = 11" "read_data_bits_data beat ! 12 = 28"
    using c [rule_format, of 7] c [rule_format, of 11] c [rule_format, of 12]
    by (simp_all add: v beat init_bridge_def)
  then show "\<exists>b1 b2 beat. bridge_write env write_example_addr write_example_data ?b =
        Some (b1, [write_response write_example_addr 0]) \<and> bridge_read env read_example_addr b1 = Some (b2, [beat]) \<and>
      read_data_bits_data beat ! 7 = 0 \<and> read_data_bits_data beat ! 11 = 11 \<and> read_data_bits_data beat ! 12 = 28"
    using b beat by blast
qed

section \<open>The C interface to the external memory\<close>

text \<open>
  C38: the C interface to the local external memory is a bounded byte store. On a well-formed bridge
  with the memory enabled, a write succeeds exactly if the whole range lies in the 8 MiB window
  (nothing wraps around 32 bits); a read of any range in the window then returns, byte for byte, what
  was written where the ranges overlap and the old contents elsewhere. Outside the window, or with
  the memory disabled, both return -1 and change nothing.
\<close>

theorem extmem_api_store:
  assumes "bridge_wf (hbridge h)"
  shows "(if local_extmem_enabled (hbridge h) \<and> 0x20000000 \<le> unat a \<and> unat a + length bs \<le> 0x20800000
     then \<exists>h'. coral_gem5_extmem_write (Some h) a (Some bs) = Some (0, Some h') \<and> bridge_wf (hbridge h') \<and>
       (\<forall>c n. 0x20000000 \<le> unat c \<and> unat c + n \<le> 0x20800000 \<longrightarrow>
         (\<exists>cs. coral_gem5_extmem_read (Some h') c False n = Some (0, cs) \<and> length cs = n \<and>
           (\<forall>i < n. cs ! i = (if unat a \<le> unat c + i \<and> unat c + i < unat a + length bs
             then bs ! (unat c + i - unat a) else local_extmem (hbridge h) ! (unat c + i - 0x20000000)))))
     else coral_gem5_extmem_write (Some h) a (Some bs) = Some (- 1, Some h) \<and>
       coral_gem5_extmem_read (Some h) a False (length bs) = Some (- 1, []))"
proof -
  let ?m = "local_extmem (hbridge h)"
  have len: "length ?m = kExtmemSize" using assms by (simp add: bridge_wf_def)
  have rej: "extmem_reject g c n \<longleftrightarrow> \<not> (local_extmem_enabled (hbridge g) \<and> 0x20000000 \<le> unat c \<and> unat c + n \<le> 0x20800000)"
    for g :: "'a coral_gem5_handle" and c n
  proof (cases "kExtmemBase \<le> c")
    case True
    then have "unat (c - kExtmemBase) = unat c - 0x20000000" "0x20000000 \<le> unat c"
      by (simp_all add: unat_sub_le word_le_nat_alt)
    then show ?thesis using True by (auto simp: extmem_reject_def not_le)
  next
    case False
    then show ?thesis by (auto simp: extmem_reject_def word_le_nat_alt word_less_nat_alt)
  qed
  have off: "unat (c - kExtmemBase) = unat c - 0x20000000" if "0x20000000 \<le> unat c" for c
    using that by (simp add: unat_sub_le word_le_nat_alt)
  show ?thesis
  proof (cases "local_extmem_enabled (hbridge h) \<and> 0x20000000 \<le> unat a \<and> unat a + length bs \<le> 0x20800000")
    case False
    then show ?thesis using rej [of h a "length bs"] by (auto simp: coral_gem5_extmem_write_def coral_gem5_extmem_read_def)
  next
    case True
    let ?o = "unat a - 0x20000000"
    let ?m' = "take ?o ?m @ bs @ drop (?o + length bs) ?m"
    let ?h = "h\<lparr> hbridge := (hbridge h)\<lparr> local_extmem := ?m' \<rparr> \<rparr>"
    have fit: "?o + length bs \<le> length ?m" using True len by linarith
    then have w: "coral_gem5_extmem_write (Some h) a (Some bs) = Some (0, Some ?h)"
      using True rej off [of a] by (simp add: coral_gem5_extmem_write_def store_bytes_def)
    have l': "length ?m' = kExtmemSize" using fit len by simp
    have "\<exists>cs. coral_gem5_extmem_read (Some ?h) c False n = Some (0, cs) \<and> length cs = n \<and>
        (\<forall>i < n. cs ! i = (if unat a \<le> unat c + i \<and> unat c + i < unat a + length bs
          then bs ! (unat c + i - unat a) else ?m ! (unat c + i - 0x20000000)))"
      if c: "0x20000000 \<le> unat c" "unat c + n \<le> 0x20800000" for c n
    proof -
      let ?p = "unat c - 0x20000000"
      have p: "?p + n \<le> length ?m'" unfolding l' using c by simp
      have "coral_gem5_extmem_read (Some ?h) c False n = Some (0, take n (drop ?p ?m'))"
        using True rej [of ?h c n] c off [of c] p
        by (simp add: coral_gem5_extmem_read_def load_bytes_def del: drop_append take_append length_append)
      moreover have "take n (drop ?p ?m') ! i = (if unat a \<le> unat c + i \<and> unat c + i < unat a + length bs
          then bs ! (unat c + i - unat a) else ?m ! (unat c + i - 0x20000000))" if i: "i < n" for i
      proof -
        have e: "?p + i = unat c + i - 0x20000000" "?p + i < length ?m"
          "?o \<le> ?p + i \<longleftrightarrow> unat a \<le> unat c + i" "?p + i < ?o + length bs \<longleftrightarrow> unat c + i < unat a + length bs"
          "?p + i - ?o = unat c + i - unat a"
          using c i True len by linarith+
        have "take n (drop ?p ?m') ! i = ?m' ! (?p + i)" using i p by (rule nth_take_drop)
        also have "\<dots> = (if ?o \<le> ?p + i \<and> ?p + i < ?o + length bs then bs ! (?p + i - ?o) else ?m ! (?p + i))"
          by (rule nth_splice [OF fit e(2)])
        finally show ?thesis unfolding e(3-5) by (simp only: e(1))
      qed
      moreover have "length (take n (drop ?p ?m')) = n"
        using p by (simp only: length_take length_drop) (rule min_absorb2, linarith)
      ultimately show ?thesis by blast
    qed
    moreover have "bridge_wf (hbridge ?h)" using assms l' by (simp add: bridge_wf_def)
    ultimately show ?thesis using True w by auto
  qed
qed

theorem extmem_api_store_witness:
  "\<exists>h :: unit coral_gem5_handle. local_extmem_enabled (hbridge h) \<and> bridge_wf (hbridge h) \<and>
    (\<exists>h' cs. coral_gem5_extmem_write (Some h) 0x207ffffe (Some [1, 2]) = Some (0, Some h') \<and>
      coral_gem5_extmem_read (Some h') 0x207ffffd False 3 = Some (0, cs) \<and> cs ! 0 = 0 \<and> cs ! 1 = 1 \<and> cs ! 2 = 2) \<and>
    coral_gem5_extmem_write (Some h) 0x207fffff (Some [1, 2]) = Some (- 1, Some h)"
proof -
  let ?h = "\<lparr> core = (), master_read = init_read_driver, master_write = init_write_driver, fault_seen = False,
     hbridge = (init_bridge (\<lambda>_. None) 0)\<lparr> local_extmem_enabled := True \<rparr> \<rparr>"
  have wf: "bridge_wf (hbridge ?h)" using init_bridge_wf [of "\<lambda>_. None" 0] by (simp add: bridge_wf_def)
  have m: "local_extmem (hbridge ?h) ! 0x7ffffd = 0" by (simp add: init_bridge_def)
  obtain h' where h': "coral_gem5_extmem_write (Some ?h) 0x207ffffe (Some [1, 2]) = Some (0, Some h')"
    "\<forall>c n. 0x20000000 \<le> unat c \<and> unat c + n \<le> 0x20800000 \<longrightarrow>
         (\<exists>cs. coral_gem5_extmem_read (Some h') c False n = Some (0, cs) \<and> length cs = n \<and>
           (\<forall>i < n. cs ! i = (if unat (0x207ffffe :: u32) \<le> unat c + i \<and> unat c + i < unat (0x207ffffe :: u32) + length [1 :: u8, 2]
             then [1, 2] ! (unat c + i - unat (0x207ffffe :: u32)) else local_extmem (hbridge ?h) ! (unat c + i - 0x20000000))))"
    using extmem_api_store [OF wf, of "0x207ffffe" "[1, 2]"] by auto
  obtain cs where cs: "coral_gem5_extmem_read (Some h') 0x207ffffd False 3 = Some (0, cs)"
    "\<forall>i < 3. cs ! i = (if unat (0x207ffffe :: u32) \<le> unat (0x207ffffd :: u32) + i \<and>
        unat (0x207ffffd :: u32) + i < unat (0x207ffffe :: u32) + length [1 :: u8, 2]
             then [1, 2] ! (unat (0x207ffffd :: u32) + i - unat (0x207ffffe :: u32))
             else local_extmem (hbridge ?h) ! (unat (0x207ffffd :: u32) + i - 0x20000000))"
    using h'(2) [rule_format, of "0x207ffffd" 3] by auto
  have "cs ! 0 = 0" "cs ! 1 = 1" "cs ! 2 = 2"
    using cs(2) [rule_format, of 0] cs(2) [rule_format, of 1] cs(2) [rule_format, of 2] m by simp_all
  moreover have "coral_gem5_extmem_write (Some ?h) 0x207fffff (Some [1, 2]) = Some (- 1, Some ?h)"
    using extmem_api_store [OF wf, of "0x207fffff" "[1, 2]"] by simp
  ultimately show ?thesis using wf h'(1) cs(1) by (intro exI [of _ ?h]) auto
qed

end
