(* ===== verification/Bridge_Dma.thy ===== *)
theory Bridge_Dma
  imports Bridge_Memory
begin

text \<open>
  Deferred DMA and cycle accounting of the bridge: a request to the host is answered with the bytes
  of the host, a step counts the clock periods it runs, and two ways in which a request is lost.
\<close>

section \<open>Deferred DMA\<close>

text \<open>A handle whose read callback has just left a request for the burst \<open>a\<close> to the host.\<close>

definition awaits_read :: "AxiAddr \<Rightarrow> 'c coral_gem5_handle \<Rightarrow> bool" where
  "awaits_read a h \<longleftrightarrow> axi_burst_ok a \<and> dma_pending (hbridge h) \<and> pending_dma (hbridge h) = read_request a \<and>
     dma_beat_size (hbridge h) = bytes_per_beat a \<and> dma_beat_count (hbridge h) = burst_beats a"

lemma read_leaves_request:
  assumes "\<not> IsHybridWordAccess a" "\<not> mac_Contains (addr_bits_addr a) 4" "axi_burst_ok a" "\<not> local_access (with_read a b)"
  shows "\<exists>b'. bridge_read env a b = Some (b', []) \<and> (\<forall>h. hbridge h = b' \<longrightarrow> awaits_read a h)"
  using assms by (auto simp: bridge_read_dma awaits_read_def with_read_def)

text \<open>
  C22: completing a deferred read. When the host answers the request of a read burst with as many
  bytes as it asked for, the beats queued for the core carry those bytes on the lanes of their
  addresses, with the identifier of the burst, an okay response and the last flag on the last beat; a
  failed access queues one error beat. Either way the request is gone. An answer of the wrong length
  is refused and changes nothing.
\<close>

theorem dma_read_answered:
  assumes "awaits_read a h"
  shows "(\<forall>bs. length bs = b_size a * b_len a \<longrightarrow>
      (\<exists>h' beats. coral_gem5_dma_complete (Some h) (Some bs) False = Some (0, Some h') \<and>
        r_responses (master_read h') = r_responses (master_read h) @ beats \<and> beats_carry a bs beats \<and>
        \<not> dma_pending (hbridge h') \<and> local_extmem (hbridge h') = local_extmem (hbridge h))) \<and>
    (\<forall>bs. length bs \<noteq> b_size a * b_len a \<longrightarrow>
      coral_gem5_dma_complete (Some h) (Some bs) False = Some (- 1, Some h)) \<and>
    (\<forall>data. \<exists>h'. coral_gem5_dma_complete (Some h) data True = Some (0, Some h') \<and>
      r_responses (master_read h') = r_responses (master_read h) @ [error_response a] \<and> \<not> dma_pending (hbridge h'))"
proof -
  have ok: "axi_burst_ok a" and st: "dma_pending (hbridge h)" "pending_dma (hbridge h) = read_request a"
    "dma_beat_size (hbridge h) = bytes_per_beat a" "dma_beat_count (hbridge h) = burst_beats a"
    using assms by (simp_all add: awaits_read_def)
  have req: "dma_type (read_request a) = CORAL_GEM5_DMA_READ" "unat (dma_size (read_request a)) = b_size a * b_len a"
    "dma_id (read_request a) = ucast (addr_bits_id a)" "dma_addr (read_request a) = addr_bits_addr a"
    using burst_size_word(1) [OF ok] by (simp_all add: read_request_def zero_dma_request_def)
  have id: "(ucast (ucast (addr_bits_id a) :: u32) :: u8) = addr_bits_id a"
    by (rule bit_word_eqI) (simp add: bit_simps)
  have good: "\<exists>h' beats. coral_gem5_dma_complete (Some h) (Some bs) False = Some (0, Some h') \<and>
        r_responses (master_read h') = r_responses (master_read h) @ beats \<and> beats_carry a bs beats \<and>
        \<not> dma_pending (hbridge h') \<and> local_extmem (hbridge h') = local_extmem (hbridge h)"
    if len: "length bs = b_size a * b_len a" for bs
  proof -
    obtain beats where "read_beats (read_request a) (bytes_per_beat a) (burst_beats a) bs [0..<unat (burst_beats a)] =
        Some beats" "beats_carry a bs beats"
      using read_beats_correct [OF ok req(4,3), of bs] len by auto
    then show ?thesis using st req len
      by (simp add: coral_gem5_dma_complete_def Let_def finish_dma_def queue_reads_def)
  qed
  have bad: "coral_gem5_dma_complete (Some h) (Some bs) False = Some (- 1, Some h)" if "length bs \<noteq> b_size a * b_len a" for bs
    using that st req by (simp add: coral_gem5_dma_complete_def Let_def)
  have err: "\<exists>h'. coral_gem5_dma_complete (Some h) data True = Some (0, Some h') \<and>
      r_responses (master_read h') = r_responses (master_read h) @ [error_response a] \<and> \<not> dma_pending (hbridge h')" for data
    using st req id
    by (simp add: coral_gem5_dma_complete_def Let_def finish_dma_def queue_reads_def error_response_def read_QueueResponse_def)
  show ?thesis using good bad err by blast
qed

theorem dma_read_answered_witness:
  "\<exists>(h :: unit coral_gem5_handle) h' beat. awaits_read read_example_addr h \<and>
    coral_gem5_dma_complete (Some h) (Some (map of_nat [0..<16])) False = Some (0, Some h') \<and>
    r_responses (master_read h') = [beat] \<and> read_data_bits_data beat ! 5 = 5"
proof -
  let ?b = "(with_read read_example_addr (init_bridge (\<lambda>_. None) 0))\<lparr> dma_pending := True \<rparr>"
  let ?h = "\<lparr> core = (), master_read = init_read_driver, master_write = init_write_driver, fault_seen = False,
     hbridge = ?b \<rparr>"
  have a: "awaits_read read_example_addr ?h"
    by (simp add: awaits_read_def with_read_def axi_burst_ok_def burst_accessors read_example_addr_def write_example_addr_def)
  have v: "b_addr read_example_addr = 0x20000010" "b_size read_example_addr = 16" "b_len read_example_addr = 1"
    by (simp_all add: burst_accessors read_example_addr_def write_example_addr_def)
  obtain h' beats where h': "coral_gem5_dma_complete (Some ?h) (Some (map of_nat [0..<16])) False = Some (0, Some h')"
    "r_responses (master_read h') = r_responses (master_read ?h) @ beats"
    "beats_carry read_example_addr (map of_nat [0..<16]) beats"
    using dma_read_answered [OF a] v by (metis (no_types, lifting) diff_zero length_map length_upt mult.right_neutral)
  obtain beat where beat: "beats = [beat]" using h'(3) v(3) by (auto simp: beats_carry_def length_Suc_conv)
  have "read_data_bits_data beat ! 5 = 5"
    using h'(3) by (auto simp: beats_carry_def v beat dest: spec [of _ 5])
  then show ?thesis using a h'(1,2) beat by (intro exI [of _ ?h] exI [of _ h'] exI [of _ beat]) (simp add: init_read_driver_def)
qed

section \<open>Cycle accounting\<close>

lemma bridge_read_cycles: "bridge_read env a b = Some (b', rs) \<Longrightarrow> rtl_cycles b' = rtl_cycles b"
  by (auto simp: bridge_read_def local_read_def Let_def split: if_splits bind_split_asm prod.splits)

lemma doorbell_cycles: "doorbell env off b = Some b' \<Longrightarrow> rtl_cycles b' = rtl_cycles b"
  by (auto simp: doorbell_def count_operator_def Let_def split: if_splits bind_split_asm prod.splits)

lemma TrackOperatorPhase_cycles: "rtl_cycles (TrackOperatorPhase v now n b) = rtl_cycles b"
  by (auto simp: TrackOperatorPhase_def Let_def split: option.splits prod.splits)

lemma bridge_write_cycles: "bridge_write env a data b = Some (b', rs) \<Longrightarrow> rtl_cycles b' = rtl_cycles b"
  by (auto simp: bridge_write_def hybrid_write_def custom_write_def progress_write_def local_write_def Let_def
      TrackOperatorPhase_cycles split: if_splits bind_split_asm prod.splits option.splits dest: doorbell_cycles)

lemma read_edge_host:
  assumes "read_OnFallingEdge callback v r pins d b = Some (d', b')"
    and "\<And>b b' rs. callback pins b = Some (b', rs) \<Longrightarrow> f b' = f b"
  shows "f b' = f b"
  using assms by (auto simp: read_OnFallingEdge_def Let_def split: bind_split_asm if_splits)

lemma write_edge_host:
  assumes "write_OnFallingEdge callback av dv rr pins beat d b = Some (d', b')"
    and "\<And>a data b b' rs. callback a data b = Some (b', rs) \<Longrightarrow> f b' = f b"
  shows "f b' = f b"
  using assms by (auto simp: write_edge_unfold split: bind_split_asm if_splits)

lemma wrapper_Step_cycles:
  assumes "wrapper_Step C h = Some h'"
  shows "rtl_cycles (hbridge h') = rtl_cycles (hbridge h)"
proof -
  obtain c rp wp where "core_clock C (master_read h) (master_write h) (core h) = (c, rp, wp)" by (metis prod_cases3)
  then obtain rd b wr b' where "read_OnFallingEdge (bridge_read (core_env C c)) (rp_addr_valid rp) (rp_data_ready rp)
        (rp_addr rp) (master_read h) (hbridge h) = Some (rd, b)"
    "write_OnFallingEdge (bridge_write (core_env C c)) (wp_addr_valid wp) (wp_data_valid wp) (wp_resp_ready wp)
        (wp_addr wp) (wp_beat wp) (master_write h) b = Some (wr, b')" "hbridge h' = b'"
    using assms by (auto simp: wrapper_Step_def Let_def split: bind_split_asm)
  then show ?thesis
    using read_edge_host [where f = rtl_cycles] write_edge_host [where f = rtl_cycles] bridge_read_cycles
      bridge_write_cycles by metis
qed

text \<open>
  A clock period: the counter is incremented, the wrapper clocked and the custom unit stepped if it is
  active. \<open>clock_periods k\<close> is what \<open>k\<close> periods do.
\<close>

definition clock_period :: "'c core_model \<Rightarrow> 'c coral_gem5_handle \<Rightarrow> 'c coral_gem5_handle option" where
  "clock_period C h =
     map_option (\<lambda>h. h\<lparr> hbridge := (hbridge h)\<lparr> custom_unit := mac_StepIfActive (custom_unit (hbridge h)) \<rparr> \<rparr>)
       (wrapper_Step C (h\<lparr> hbridge := (hbridge h)\<lparr> rtl_cycles := rtl_cycles (hbridge h) + 1 \<rparr> \<rparr>))"

primrec clock_periods :: "'c core_model \<Rightarrow> nat \<Rightarrow> 'c coral_gem5_handle \<Rightarrow> 'c coral_gem5_handle option" where
  "clock_periods C 0 h = Some h"
| "clock_periods C (Suc n) h = do { h \<leftarrow> clock_period C h; clock_periods C n h }"

definition keeps_running :: "'c core_model \<Rightarrow> 'c coral_gem5_handle \<Rightarrow> bool" where
  "keeps_running C h \<longleftrightarrow> \<not> dma_pending (hbridge h) \<and> \<not> fault_seen h \<and> \<not> core_halted C (core h)"

lemma clock_periods_cycles:
  "clock_periods C k h = Some h' \<Longrightarrow> rtl_cycles (hbridge h') = rtl_cycles (hbridge h) + of_nat k"
proof (induction k arbitrary: h)
  case (Suc k)
  then obtain h1 where "clock_period C h = Some h1" "clock_periods C k h1 = Some h'" by (auto split: bind_split_asm)
  moreover from this(1) have "rtl_cycles (hbridge h1) = rtl_cycles (hbridge h) + 1"
    by (auto simp: clock_period_def dest!: wrapper_Step_cycles)
  ultimately show ?case using Suc.IH [of h1] by (simp add: algebra_simps)
qed simp

lemma step_loop_periods:
  assumes "step_loop C n h = Some (code, h')" "\<not> dma_pending (hbridge h)"
  shows "\<exists>k \<le> n. clock_periods C k h = Some h' \<and> (\<forall>j < k. \<exists>hj. clock_periods C j h = Some hj \<and> keeps_running C hj) \<and>
    (code = None \<longrightarrow> k = n \<and> (0 < n \<longrightarrow> keeps_running C h')) \<and>
    (code \<noteq> None \<longrightarrow> (code = Some 2 \<and> dma_pending (hbridge h')) \<or> (code = Some 4 \<and> fault_seen h') \<or>
      (code = Some 1 \<and> core_halted C (core h')))"
  using assms
proof (induction n arbitrary: h)
  case (Suc n)
  show ?case
  proof (cases "fault_seen h \<or> core_halted C (core h)")
    case True
    then show ?thesis using Suc.prems by (intro exI [of _ 0]) (auto split: if_splits)
  next
    case False
    then have r0: "keeps_running C h" using Suc.prems(2) by (simp add: keeps_running_def)
    obtain h1 where h1: "clock_period C h = Some h1"
      using Suc.prems(1) False by (auto simp: clock_period_def split: bind_split_asm)
    have run: "(if dma_pending (hbridge h1) then Some (Some 2, h1) else if fault_seen h1 then Some (Some 4, h1)
        else if core_halted C (core h1) then Some (Some 1, h1) else step_loop C n h1) = Some (code, h')"
      using Suc.prems(1) False h1 by (auto simp: clock_period_def Let_def split: bind_split_asm)
    show ?thesis
    proof (cases "keeps_running C h1")
      case False
      then show ?thesis using run h1 r0 by (intro exI [of _ 1]) (auto simp: keeps_running_def split: if_splits)
    next
      case ok: True
      then have l: "step_loop C n h1 = Some (code, h')" "\<not> dma_pending (hbridge h1)" using run by (auto simp: keeps_running_def)
      from Suc.IH [OF this] obtain k where k: "k \<le> n" "clock_periods C k h1 = Some h'"
        "\<forall>j < k. \<exists>hj. clock_periods C j h1 = Some hj \<and> keeps_running C hj"
        "code = None \<longrightarrow> k = n \<and> (0 < n \<longrightarrow> keeps_running C h')"
        "code \<noteq> None \<longrightarrow> (code = Some 2 \<and> dma_pending (hbridge h')) \<or> (code = Some 4 \<and> fault_seen h') \<or>
          (code = Some 1 \<and> core_halted C (core h'))" by blast
      have z: "n = 0 \<Longrightarrow> h' = h1" using l(1) by simp
      have "\<exists>hj. clock_periods C j h = Some hj \<and> keeps_running C hj" if "j < Suc k" for j
        using that k(3) h1 r0 by (cases j) auto
      then show ?thesis using k(1,2,4,5) h1 ok z by (intro exI [of _ "Suc k"]) (cases "n = 0", auto)
    qed
  qed
qed simp

lemma step_accounting:
  assumes "coral_gem5_step C (Some h) n = Some (code, Some h')" "n \<noteq> 0"
  shows "\<exists>k \<le> unat n. clock_periods C k h = Some h' \<and> (\<forall>j < k. \<exists>hj. clock_periods C j h = Some hj \<and> keeps_running C hj) \<and>
    coral_gem5_cycle_count (Some h') = coral_gem5_cycle_count (Some h) + of_nat k \<and>
    code \<in> {0, 1, 2, 3, 4} \<and> (code = 2 \<longrightarrow> dma_pending (hbridge h')) \<and> (code = 4 \<longrightarrow> fault_seen h') \<and>
    (code = 1 \<longrightarrow> core_halted C (core h')) \<and> (code = 3 \<longrightarrow> core_wfi C (core h')) \<and>
    (code \<in> {0, 3} \<longrightarrow> k = unat n \<and> \<not> dma_pending (hbridge h') \<and> \<not> fault_seen h' \<and> \<not> core_halted C (core h')) \<and>
    (dma_pending (hbridge h) \<longrightarrow> code = 2 \<and> h' = h \<and> k = 0)"
proof (cases "dma_pending (hbridge h)")
  case True
  then show ?thesis using assms by (intro exI [of _ 0]) (simp add: coral_gem5_step_def coral_gem5_cycle_count_def)
next
  case False
  then obtain r h1 where r: "step_loop C (unat n) h = Some (r, h1)"
    "(code, Some h') = (case r of Some r \<Rightarrow> (r, Some h1) | None \<Rightarrow> (if core_wfi C (core h1) then 3 else 0, Some h1))"
    using assms by (auto simp: coral_gem5_step_def split: bind_split_asm)
  have n: "0 < unat n" using assms(2) by (simp add: unat_gt_0)
  have h': "h' = h1" using r(2) by (auto split: option.splits)
  obtain k where k: "k \<le> unat n" "clock_periods C k h = Some h1" "\<forall>j < k. \<exists>hj. clock_periods C j h = Some hj \<and> keeps_running C hj"
    "r = None \<longrightarrow> k = unat n \<and> keeps_running C h1"
    "r \<noteq> None \<longrightarrow> (r = Some 2 \<and> dma_pending (hbridge h1)) \<or> (r = Some 4 \<and> fault_seen h1) \<or>
          (r = Some 1 \<and> core_halted C (core h1))"
    using step_loop_periods [OF r(1) False] n by blast
  show ?thesis using False k r(2) h' clock_periods_cycles [OF k(2)]
    by (intro exI [of _ k]) (auto simp: coral_gem5_cycle_count_def keeps_running_def split: option.splits if_splits)
qed

text \<open>
  C23: the cycle accounting of a step. The handle after the step is the one after \<open>k\<close> clock periods, at most
  the number asked for, and the cycle counter has advanced by exactly \<open>k\<close>; before each of them no DMA was
  pending, no fault seen and the core not halted. The return code tells why the step stopped: 2 exactly
  with a DMA pending, 4 with a fault, 1 halted; 0 and 3 mean that all cycles were run with none of these.
  While a DMA is pending a step runs nothing.
\<close>

theorem coral_gem5_step_accounting:
  assumes "coral_gem5_step C (Some h) n = Some (code, Some h')" "n \<noteq> 0"
  shows "\<exists>k \<le> unat n. clock_periods C k h = Some h' \<and> (\<forall>j < k. \<exists>hj. clock_periods C j h = Some hj \<and> keeps_running C hj) \<and>
    coral_gem5_cycle_count (Some h') = coral_gem5_cycle_count (Some h) + of_nat k \<and>
    code \<in> {0, 1, 2, 3, 4} \<and> (code = 2 \<longrightarrow> dma_pending (hbridge h')) \<and> (code = 4 \<longrightarrow> fault_seen h') \<and>
    (code = 1 \<longrightarrow> core_halted C (core h')) \<and> (code = 3 \<longrightarrow> core_wfi C (core h')) \<and>
    (code \<in> {0, 3} \<longrightarrow> k = unat n \<and> \<not> dma_pending (hbridge h') \<and> \<not> fault_seen h' \<and> \<not> core_halted C (core h')) \<and>
    (dma_pending (hbridge h) \<longrightarrow> code = 2 \<and> h' = h \<and> k = 0)"
  using assms by (rule step_accounting)

text \<open>A core that never drives its buses and halts after a while: the state counts down.\<close>

definition quiet_core :: "nat core_model" where
  "quiet_core = \<lparr> core_clock = (\<lambda>_ _ c. (c - 1, \<lparr> rp_addr_valid = False, rp_data_ready = False, rp_addr = zero_addr \<rparr>,
       \<lparr> wp_addr_valid = False, wp_data_valid = False, wp_resp_ready = False, wp_addr = zero_addr,
         wp_beat = single_beat \<rparr>)),
     core_reset = id, core_fault = (\<lambda>_. False), core_halted = (\<lambda>c. c = 0), core_wfi = (\<lambda>_. False),
     core_env = (\<lambda>_. undefined\<lparr> env_highmem := True \<rparr>), slave_write = (\<lambda>_ _ c. c), slave_write_done = (\<lambda>_. True),
     slave_read = (\<lambda>_ _ c. c), slave_read_finished = (\<lambda>_. True), slave_read_data = (\<lambda>_. []) \<rparr>"

lemma quiet_step:
  assumes "master_read h = init_read_driver" "\<not> w_response_handshake_pending (master_write h)" "w_responses (master_write h) = []"
    "\<not> w_addr_captured (master_write h)" "\<not> w_request_pending (master_write h)"
  shows "\<exists>h'. wrapper_Step quiet_core h = Some h' \<and> core h' = core h - 1 \<and> hbridge h' = hbridge h \<and>
    fault_seen h' = fault_seen h \<and> master_read h' = init_read_driver \<and>
    \<not> w_response_handshake_pending (master_write h') \<and> w_responses (master_write h') = [] \<and>
    \<not> w_addr_captured (master_write h') \<and> \<not> w_request_pending (master_write h')"
  using assms
  by (simp add: wrapper_Step_def quiet_core_def read_OnFallingEdge_def read_retire_def read_drive_def Let_def
      init_read_driver_def write_OnFallingEdge_def write_retire_def write_drive_def write_capture_addr_def
      write_capture_data_def write_set_ready_def)

definition quiet_handle :: "nat coral_gem5_handle" where
  "quiet_handle = \<lparr> core = 1, master_read = init_read_driver, master_write = init_write_driver, fault_seen = False,
     hbridge = init_bridge (\<lambda>_. None) 0 \<rparr>"

lemma quiet_run:
  "\<exists>h'. coral_gem5_step quiet_core (Some quiet_handle) 5 = Some (1, Some h') \<and> rtl_cycles (hbridge h') = 1"
proof -
  let ?h = quiet_handle
  define g where "g = ?h\<lparr> hbridge := (hbridge ?h)\<lparr> rtl_cycles := 1 \<rparr> \<rparr>"
  obtain h1 where h1: "wrapper_Step quiet_core g = Some h1" "core h1 = 0" "hbridge h1 = hbridge g" "\<not> fault_seen h1"
    using quiet_step [of g] by (auto simp: g_def quiet_handle_def init_write_driver_def)
  let ?h1 = "h1\<lparr> hbridge := (hbridge h1)\<lparr> custom_unit := mac_StepIfActive (custom_unit (hbridge h1)) \<rparr> \<rparr>"
  have five: "unat (5 :: u32) = Suc 4" by simp
  have f: "core_halted quiet_core c \<longleftrightarrow> c = 0" "core ?h = 1" "\<not> fault_seen ?h" "\<not> dma_pending (hbridge ?h)" for c
    by (simp_all add: quiet_core_def quiet_handle_def init_bridge_def)
  have z: "rtl_cycles (hbridge ?h) = 0" by (simp add: quiet_handle_def init_bridge_def)
  have "step_loop quiet_core (Suc n) ?h = Some (Some 1, ?h1)" for n
    using h1 z f by (simp add: Let_def g_def)
  from this [of 4] have "step_loop quiet_core (unat (5 :: u32)) ?h = Some (Some 1, ?h1)" by (simp only: five)
  then have "coral_gem5_step quiet_core (Some ?h) 5 = Some (1, Some ?h1)"
    using f(4) by (simp add: coral_gem5_step_def)
  moreover have "rtl_cycles (hbridge ?h1) = 1" using h1(3) by (simp add: g_def)
  ultimately show ?thesis by blast
qed

theorem coral_gem5_step_accounting_witness:
  "\<exists>h'. coral_gem5_step quiet_core (Some quiet_handle) 5 = Some (1, Some h') \<and>
    (\<exists>k \<le> 5. coral_gem5_cycle_count (Some h') = coral_gem5_cycle_count (Some quiet_handle) + of_nat k) \<and>
    core_halted quiet_core (core h')"
proof -
  obtain h' where run: "coral_gem5_step quiet_core (Some quiet_handle) 5 = Some (1, Some h')" using quiet_run by blast
  have "unat (5 :: u32) = 5" by simp
  then show ?thesis using coral_gem5_step_accounting [OF run] run by auto
qed

section \<open>Requests that are lost\<close>

text \<open>
  a write burst replaces an outstanding read request. When a read burst has left a request to
  the host and a write burst to host memory follows before it is answered (both channels may submit
  in one clock period), the only pending request is the write; completing it queues no read response,
  so the read driver's request stays outstanding with nothing left to answer it.
\<close>

theorem write_replaces_pending_read:
  assumes "bridge_wf (hbridge h)" "awaits_read r h" "\<forall>d \<in> set data. length (write_data_bits_data d) = 16"
    and "write_burst_ok w data" "\<not> IsHybridWordAccess w" "\<not> mac_Contains (addr_bits_addr w) 4"
    and "\<not> local_extmem_enabled (hbridge h)"
  shows "\<exists>b' h'. bridge_write env w data (hbridge h) = Some (b', []) \<and> dma_pending b' \<and>
    dma_type (pending_dma b') = CORAL_GEM5_DMA_WRITE \<and> dma_addr (pending_dma b') = addr_bits_addr w \<and>
    coral_gem5_dma_complete (Some (h\<lparr> hbridge := b' \<rparr>)) None False = Some (0, Some h') \<and>
    \<not> dma_pending (hbridge h') \<and> master_read h' = master_read h"
proof -
  obtain q where q: "dma_type q = CORAL_GEM5_DMA_WRITE" "dma_addr q = addr_bits_addr w"
    "bridge_write env w data (hbridge h) =
       (if local_access ((hbridge h)\<lparr> pending_dma := q \<rparr>) then local_write ((hbridge h)\<lparr> pending_dma := q \<rparr>)
       else Some ((hbridge h)\<lparr> pending_dma := q, dma_pending := True \<rparr>, []))"
    using bridge_write_dma [OF assms(1,3,5,6), of env] assms(4) by auto
  let ?b = "(hbridge h)\<lparr> pending_dma := q, dma_pending := True \<rparr>"
  have "bridge_write env w data (hbridge h) = Some (?b, [])" using q(3) assms(7) by (simp add: local_access_def)
  then show ?thesis using q(1,2)
    by (intro exI [of _ ?b])
      (simp add: coral_gem5_dma_complete_def Let_def finish_dma_def queue_write_def)
qed

theorem write_replaces_pending_read_witness:
  "\<exists>(h :: unit coral_gem5_handle) b' h'. awaits_read read_example_addr h \<and>
    (\<forall>env. bridge_write env write_example_addr write_example_data (hbridge h) = Some (b', [])) \<and>
    coral_gem5_dma_complete (Some (h\<lparr> hbridge := b' \<rparr>)) None False = Some (0, Some h') \<and>
    r_responses (master_read h') = []"
proof -
  let ?b = "(with_read read_example_addr (init_bridge (\<lambda>_. None) 0))\<lparr> dma_pending := True \<rparr>"
  let ?h = "\<lparr> core = (), master_read = init_read_driver, master_write = init_write_driver, fault_seen = False,
     hbridge = ?b \<rparr>"
  have wf: "bridge_wf (hbridge ?h)"
    using init_bridge_wf [of "\<lambda>_. None" 0] by (simp add: bridge_wf_def with_read_def read_request_def)
  have a: "awaits_read read_example_addr ?h"
    by (simp add: awaits_read_def with_read_def axi_burst_ok_def burst_accessors read_example_addr_def write_example_addr_def)
  have data: "\<forall>d \<in> set write_example_data. length (write_data_bits_data d) = 16" by (simp add: write_example_data_def)
  have w: "\<not> IsHybridWordAccess write_example_addr" "\<not> mac_Contains (addr_bits_addr write_example_addr) 4"
    by (simp_all add: IsHybridWordAccess_def mac_Contains_def write_example_addr_def)
  have en: "\<not> local_extmem_enabled (hbridge ?h)" by (simp add: with_read_def init_bridge_def)
  note t = write_replaces_pending_read [OF wf a data write_example_ok w en]
  obtain b' h' where b': "bridge_write undefined write_example_addr write_example_data (hbridge ?h) = Some (b', [])"
    "coral_gem5_dma_complete (Some (?h\<lparr> hbridge := b' \<rparr>)) None False = Some (0, Some h')" "master_read h' = master_read ?h"
    using t [of undefined] by blast
  have "bridge_write env write_example_addr write_example_data (hbridge ?h) =
      bridge_write undefined write_example_addr write_example_data (hbridge ?h)" for env
    using w by (simp add: bridge_write_def)
  then show ?thesis using a b'
    by (intro exI [of _ ?h] exI [of _ b'] exI [of _ h']) (simp add: init_read_driver_def)
qed

text \<open>
  a reset keeps a pending DMA request. The core is reset, the request of the core before the
  reset is still pending, and every following step returns 2 without running a cycle until the host
  completes a request the core no longer waits for.
\<close>

theorem reset_keeps_pending_dma:
  "\<exists>h'. coral_gem5_reset C (Some h) = (0, Some h') \<and> pending_dma (hbridge h') = pending_dma (hbridge h) \<and>
    rtl_cycles (hbridge h') = 0 \<and>
    (if dma_pending (hbridge h) then coral_gem5_step C (Some h') 1 = Some (2, Some h')
     else \<not> dma_pending (hbridge h'))"
  by (simp add: coral_gem5_reset_def wrapper_Reset_def coral_gem5_step_def Let_def)

end
