(* ===== verification/Bridge_Handle.thy ===== *)
theory Bridge_Handle
  imports Bridge_Dma
begin

text \<open>
  The handle of the bridge as a whole: its shape is kept by a clock period, by the transactions that
  wait for the core and by every function of the C interface.
\<close>

text \<open>The width of the write data bus is part of the type of the core's pins.\<close>

definition core_typed :: "'c core_model \<Rightarrow> bool" where
  "core_typed C \<longleftrightarrow> (\<forall>r w c. length (write_data_bits_data (wp_beat (snd (snd (core_clock C r w c))))) = 16)"

definition beats_wf :: "AxiWData list \<Rightarrow> bool" where
  "beats_wf ds \<longleftrightarrow> (\<forall>d \<in> set ds. length (write_data_bits_data d) = 16)"

definition handle_wf :: "'c coral_gem5_handle \<Rightarrow> bool" where
  "handle_wf h \<longleftrightarrow> bridge_wf (hbridge h) \<and> beats_wf (w_request_data (master_write h))"

section \<open>A clock period\<close>

lemma read_edge_wf:
  assumes "read_OnFallingEdge (bridge_read env) v r pins d b = Some (d', b')" "bridge_wf b"
  shows "bridge_wf b'"
proof -
  have "bridge_wf b1" if "bridge_read env pins b = Some (b1, rs)" for b1 rs
    using bridge_read_total [OF assms(2), of env pins] that by auto
  then show ?thesis
    using assms by (auto simp: read_OnFallingEdge_def Let_def split: bind_split_asm if_splits)
qed

lemma write_queue_data [simp]:
  "w_request_data (foldl (\<lambda>d r. write_QueueResponse r d) d rs) = w_request_data d"
  by (induction rs arbitrary: d) (simp_all add: write_QueueResponse_def)

lemma write_edge_wf:
  assumes "write_OnFallingEdge (bridge_write env) av dv rr pins beat d b = Some (d', b')" "bridge_wf b"
    and "beats_wf (w_request_data d)" "length (write_data_bits_data beat) = 16"
  shows "bridge_wf b' \<and> beats_wf (w_request_data d')"
proof -
  obtain d1 where d1: "write_retire d = Some d1"
    using assms(1) by (auto simp: write_OnFallingEdge_def Let_def split: bind_split_asm)
  let ?d2 = "write_capture_addr (av \<and> w_addr_ready d) pins (write_drive rr d1)"
  let ?d3 = "write_capture_data (dv \<and> w_data_ready d) beat ?d2"
  have w1: "beats_wf (w_request_data d1)"
    using d1 assms(3) by (auto simp: write_retire_def beats_wf_def split: if_splits list.splits)
  then have w3: "beats_wf (w_request_data ?d3)"
    using assms(4) by (auto simp: write_capture_data_def write_capture_addr_def write_drive_def beats_wf_def)
  have cb: "bridge_wf b1" if "bridge_write env a (w_request_data ?d3) b = Some (b1, rs)" for a b1 rs
    using bridge_write_wf [OF assms(2) w3 [unfolded beats_wf_def] that] by simp
  show ?thesis
    using assms(1,2) d1 w3
    by (auto simp: write_OnFallingEdge_def Let_def write_set_ready_def split: bind_split_asm if_splits dest: cb)
qed

lemma wrapper_Step_wf:
  assumes "wrapper_Step C h = Some h'" "handle_wf h" "core_typed C"
  shows "handle_wf h'"
proof -
  obtain c rp wp where c: "core_clock C (master_read h) (master_write h) (core h) = (c, rp, wp)" by (metis prod_cases3)
  have beat: "length (write_data_bits_data (wp_beat wp)) = 16"
    using assms(3) c unfolding core_typed_def by (metis snd_conv)
  obtain rd b wr b' where r: "read_OnFallingEdge (bridge_read (core_env C c)) (rp_addr_valid rp) (rp_data_ready rp)
        (rp_addr rp) (master_read h) (hbridge h) = Some (rd, b)"
    and w: "write_OnFallingEdge (bridge_write (core_env C c)) (wp_addr_valid wp) (wp_data_valid wp) (wp_resp_ready wp)
        (wp_addr wp) (wp_beat wp) (master_write h) b = Some (wr, b')"
    and h': "hbridge h' = b'" "master_write h' = wr"
    using assms(1) c by (auto simp: wrapper_Step_def Let_def split: bind_split_asm)
  have "bridge_wf b" using read_edge_wf [OF r] assms(2) by (simp add: handle_wf_def)
  then show ?thesis
    using write_edge_wf [OF w _ _ beat] assms(2) h' by (simp add: handle_wf_def)
qed

section \<open>Transactions\<close>

lemma await_wf:
  assumes "await C f h = Some h'" "handle_wf h" "core_typed C"
  shows "handle_wf h'"
proof -
  have "handle_wf h \<longrightarrow> core_typed C \<longrightarrow> handle_wf h'"
    using assms(1)
  proof (rule await.raw_induct [rotated])
    fix await :: "'a core_model \<Rightarrow> ('a \<Rightarrow> bool) \<Rightarrow> 'a coral_gem5_handle \<Rightarrow> 'a coral_gem5_handle option" and C f h h'
    assume IH: "\<And>C f h h'. await C f h = Some h' \<Longrightarrow> handle_wf h \<longrightarrow> core_typed C \<longrightarrow> handle_wf h'"
      and s: "(if f (core h) then Some h else Option.bind (wrapper_Step C h) (await C f)) = Some h'"
    show "handle_wf h \<longrightarrow> core_typed C \<longrightarrow> handle_wf h'"
      using s IH wrapper_Step_wf by (fastforce split: if_splits bind_split_asm)
  qed
  then show ?thesis using assms by blast
qed

lemma handle_wf_core [simp]: "handle_wf (h\<lparr> core := c \<rparr>) = handle_wf h"
  by (simp add: handle_wf_def)

lemma wrapper_Write_wf:
  "wrapper_Write C a bs h = Some h' \<Longrightarrow> handle_wf h \<Longrightarrow> core_typed C \<Longrightarrow> handle_wf h'"
proof (induction C a bs h rule: wrapper_Write.induct)
  case (1 C a bs h)
  show ?case
  proof (cases "bs = []")
    case True
    then show ?thesis using 1 by (simp add: wrapper_Write.simps)
  next
    case False
    let ?n = "min (length bs) (page_room a)"
    obtain h1 where h1: "await C (slave_write_done C) (h\<lparr> core := slave_write C a (take ?n bs) (core h) \<rparr>) = Some h1"
      and w: "wrapper_Write C (a + of_nat ?n) (drop ?n bs) h1 = Some h'"
      using 1(2) False by (subst (asm) wrapper_Write.simps) (auto simp: Let_def split: bind_split_asm)
    have "handle_wf h1" using await_wf [OF h1] 1(3,4) by simp
    then show ?thesis using 1(1) [OF False refl h1 w _ 1(4)] by blast
  qed
qed

lemma wrapper_Read_wf:
  assumes "wrapper_Read C a n h = Some (bs, h')" "handle_wf h" "core_typed C"
  shows "handle_wf h'"
proof -
  have "handle_wf h \<longrightarrow> core_typed C \<longrightarrow> handle_wf (snd (bs, h'))"
    using assms(1) unfolding wrapper_Read_def
  proof (rule wrapper_Read_loop.raw_induct [rotated])
    fix rl :: "'a core_model \<Rightarrow> u32 \<Rightarrow> nat \<Rightarrow> bytes \<Rightarrow> 'a coral_gem5_handle \<Rightarrow> (bytes \<times> 'a coral_gem5_handle) option"
      and C a len r h y
    assume IH: "\<And>C a len r h y. rl C a len r h = Some y \<Longrightarrow> handle_wf h \<longrightarrow> core_typed C \<longrightarrow> handle_wf (snd y)"
      and s: "(if len \<le> length r then Some (r, h)
        else Option.bind (await C (slave_read_finished C)
               (h\<lparr> core := slave_read C a (min (len - length r) (page_room a)) (core h) \<rparr>))
             (\<lambda>h. rl C (a + of_nat (min (len - length r) (page_room a))) len (r @ slave_read_data C (core h)) h)) = Some y"
    show "handle_wf h \<longrightarrow> core_typed C \<longrightarrow> handle_wf (snd y)"
    proof (cases "len \<le> length r")
      case True
      then show ?thesis using s by auto
    next
      case False
      let ?n = "min (len - length r) (page_room a)"
      obtain h1 where h1: "await C (slave_read_finished C) (h\<lparr> core := slave_read C a ?n (core h) \<rparr>) = Some h1"
        and r1: "rl C (a + of_nat ?n) len (r @ slave_read_data C (core h1)) h1 = Some y"
        using s False by (cases "await C (slave_read_finished C) (h\<lparr> core := slave_read C a ?n (core h) \<rparr>)") simp_all
      show ?thesis using IH [OF r1] await_wf [OF h1] by simp
    qed
  qed
  then show ?thesis using assms by simp
qed

section \<open>The C interface\<close>

lemma create_wf: "handle_wf (coral_gem5_create C c env now)"
  using init_bridge_wf
  by (simp add: handle_wf_def coral_gem5_create_def wrapper_Reset_def init_write_driver_def beats_wf_def)

lemma reset_wf: "coral_gem5_reset C (Some h) = (r, Some h') \<Longrightarrow> handle_wf h \<Longrightarrow> handle_wf h'"
  by (auto simp: coral_gem5_reset_def wrapper_Reset_def handle_wf_def Let_def bridge_wf_def mac_inv_Reset)

lemma mmio_read_wf:
  "coral_gem5_mmio_read C (Some h) a nl n = Some (r, bs, Some h') \<Longrightarrow> handle_wf h \<Longrightarrow> core_typed C \<Longrightarrow> handle_wf h'"
  by (auto simp: coral_gem5_mmio_read_def dest: wrapper_Read_wf split: if_splits bind_split_asm)

lemma mmio_write_wf:
  "coral_gem5_mmio_write C (Some h) a data = Some (r, Some h') \<Longrightarrow> handle_wf h \<Longrightarrow> core_typed C \<Longrightarrow> handle_wf h'"
  by (auto simp: coral_gem5_mmio_write_def dest: wrapper_Write_wf split: option.splits if_splits bind_split_asm)

lemma step_loop_wf:
  "step_loop C n h = Some (r, h') \<Longrightarrow> handle_wf h \<Longrightarrow> core_typed C \<Longrightarrow> handle_wf h'"
proof (induction n arbitrary: h)
  case 0
  then show ?case by simp
next
  case (Suc n)
  let ?h = "h\<lparr> hbridge := (hbridge h)\<lparr> rtl_cycles := rtl_cycles (hbridge h) + 1 \<rparr> \<rparr>"
  show ?case
  proof (cases "fault_seen h \<or> core_halted C (core h)")
    case True
    then show ?thesis using Suc.prems by (auto split: if_splits)
  next
    case False
    obtain g where g: "wrapper_Step C ?h = Some g" using Suc.prems(1) False by (auto split: bind_split_asm)
    let ?g = "g\<lparr> hbridge := (hbridge g)\<lparr> custom_unit := mac_StepIfActive (custom_unit (hbridge g)) \<rparr> \<rparr>"
    have "handle_wf ?h" using Suc.prems(2) by (simp add: handle_wf_def bridge_wf_def)
    then have "handle_wf g" using wrapper_Step_wf [OF g] Suc.prems(3) by simp
    then have wf: "handle_wf ?g" using mac_StepIfActive_inv by (simp add: handle_wf_def bridge_wf_def)
    have "(r, h') = (Some 2, ?g) \<or> (r, h') = (Some 4, ?g) \<or> (r, h') = (Some 1, ?g) \<or> step_loop C n ?g = Some (r, h')"
      using Suc.prems(1) False g by (simp add: Let_def split: if_splits)
    then show ?thesis using wf Suc.IH [OF _ wf Suc.prems(3)] by blast
  qed
qed

lemma step_wf:
  "coral_gem5_step C (Some h) n = Some (r, Some h') \<Longrightarrow> handle_wf h \<Longrightarrow> core_typed C \<Longrightarrow> handle_wf h'"
  by (auto simp: coral_gem5_step_def dest: step_loop_wf split: if_splits bind_split_asm option.splits)

lemma dma_complete_wf:
  "coral_gem5_dma_complete (Some h) data e = Some (r, Some h') \<Longrightarrow> handle_wf h \<Longrightarrow> handle_wf h'"
  by (auto simp: coral_gem5_dma_complete_def Let_def handle_wf_def finish_dma_def queue_reads_def queue_write_def
      bridge_wf_def write_QueueResponse_def split: if_splits option.splits bind_split_asm)

lemma extmem_write_wf:
  "coral_gem5_extmem_write (Some h) a data = Some (r, Some h') \<Longrightarrow> handle_wf h \<Longrightarrow> handle_wf h'"
  by (auto simp: coral_gem5_extmem_write_def handle_wf_def bridge_wf_def dest: ram.wr_size
      split: if_splits option.splits bind_split_asm)

lemmas handle_api_wf = mmio_read_wf mmio_write_wf step_wf dma_complete_wf extmem_write_wf

end
