(* ===== verification/Verilated_Backend.thy ===== *)
theory Verilated_Backend
  imports Bridge_Handle Coral_Backend
begin

text \<open>
  The backend that runs the RTL model through the bridge (\<open>dev/npu/coral_verilated_backend.cc\<close>). The
  library it loads is the bridge modelled in \<open>Gem5_Bridge\<close>; the core stays a parameter. The file
  system is an argument too: the contents of the firmware file, or none when it cannot be opened.
\<close>

section \<open>State\<close>

record 'c verilated =
  vb_rtlTickPeriod :: u64
  vb_rtlCyclesPerEvent :: u32
  vb_modelHandle :: "'c coral_gem5_handle"
  vb_localExtmemEnabled :: bool
  vb_running :: bool
  vb_pendingEventTick :: u64
  vb_resetControl :: u32
  vb_firmwareEntry :: u32
  vb_dmaRequestPending :: bool
  vb_wfiObserved :: bool
  vb_rtlEventCount :: u64
  vb_rtlDmaRequestCount :: u64
  vb_pendingDmaRequest :: CoralDmaRequest

definition kResetControlOffset :: u64 where [abi_defs]: "kResetControlOffset = 0x30000"
definition kCoralExtmemBase :: u32 where [abi_defs]: "kCoralExtmemBase = 0x20000000"
definition MaxTick :: u64 where [abi_defs]: "MaxTick = 0xffffffffffffffff"

definition zero_coral_request :: CoralDmaRequest where
  "zero_coral_request = \<lparr> cd_type = Read, cd_addr = 0, cd_size = 0, cd_data = replicate CORAL_GEM5_DMA_DATA_BYTES 0 \<rparr>"

section \<open>Loading the firmware\<close>

text \<open>The fields of the ELF header and of a program header that the loader reads, by their offsets.\<close>

definition load16 :: "bytes \<Rightarrow> nat \<Rightarrow> u16 option" where
  "load16 m a = map_option le_word (load_bytes m a 2)"

definition sizeof_Ehdr :: nat where [abi_defs]: "sizeof_Ehdr = 52"
definition sizeof_Phdr :: nat where [abi_defs]: "sizeof_Phdr = 32"
definition PT_LOAD :: u32 where [abi_defs]: "PT_LOAD = 1"

definition elf_ident_ok :: "bytes \<Rightarrow> bool" where
  "elf_ident_ok img \<longleftrightarrow> take 4 img = [0x7f, 0x45, 0x4c, 0x46] \<and> img ! 4 = 1 \<and> img ! 5 = 1"

record segment =
  p_type :: u32
  p_offset :: u32
  p_paddr :: u32
  p_filesz :: u32

definition load_phdr :: "bytes \<Rightarrow> nat \<Rightarrow> segment option" where
  "load_phdr img a =
     do { ty \<leftarrow> load32 img a; off \<leftarrow> load32 img (a + 4); pa \<leftarrow> load32 img (a + 12); fs \<leftarrow> load32 img (a + 16);
          Some \<lparr> p_type = ty, p_offset = off, p_paddr = pa, p_filesz = fs \<rparr> }"

definition load_segment ::
  "'c core_model \<Rightarrow> bytes \<Rightarrow> u32 \<Rightarrow> nat \<Rightarrow> 'c coral_gem5_handle \<Rightarrow> 'c coral_gem5_handle option" where
  "load_segment C img phoff i h =
     do { seg \<leftarrow> load_phdr img (unat phoff + i * sizeof_Phdr);
          if p_type seg \<noteq> PT_LOAD \<or> p_filesz seg = 0 then Some h
          else if length img < unat (p_offset seg) + unat (p_filesz seg) then None
          else do { bs \<leftarrow> load_bytes img (unat (p_offset seg)) (unat (p_filesz seg));
            if kCoralExtmemBase \<le> p_paddr seg then
              do { (r, h) \<leftarrow> coral_gem5_extmem_write (Some h) (p_paddr seg) (Some bs);
                   if r \<noteq> 0 then None else h }
            else
              do { (r, h) \<leftarrow> coral_gem5_mmio_write C (Some h) (p_paddr seg) (Some bs);
                   if r \<noteq> 0 then None
                   else do { (r, loaded, h) \<leftarrow> coral_gem5_mmio_read C h (p_paddr seg) False (unat (p_filesz seg));
                     if r \<noteq> 0 \<or> loaded \<noteq> bs then None else h } } } }"

definition loadFirmware ::
  "'c core_model \<Rightarrow> bytes option \<Rightarrow> 'c coral_gem5_handle \<Rightarrow> (u32 \<times> 'c coral_gem5_handle) option" where
  "loadFirmware C file h =
     do { img \<leftarrow> file;
          if length img < sizeof_Ehdr \<or> \<not> elf_ident_ok img then None
          else do { phentsize \<leftarrow> load16 img 42; phoff \<leftarrow> load32 img 28; phnum \<leftarrow> load16 img 44;
            if unat phentsize \<noteq> sizeof_Phdr \<or> length img < unat phoff + unat phnum * sizeof_Phdr then None
            else do { h \<leftarrow> loop (load_segment C img phoff) [0..<unat phnum] h;
                      entry \<leftarrow> load32 img 24;
                      Some (entry, h) } } }"

section \<open>Construction\<close>

text \<open>A mode the bridge does not know falls back to the hybrid mode, for the sampled mode only.\<close>

definition operator_mode_value :: "string \<Rightarrow> u32" where
  "operator_mode_value mode = (if mode = ''hybrid'' then 1 else if mode = ''sampled'' then 2 else 0)"

definition configure_mode :: "string \<Rightarrow> 'c coral_gem5_handle \<Rightarrow> 'c coral_gem5_handle option" where
  "configure_mode mode h =
     (case coral_gem5_operator_mode (Some h) (operator_mode_value mode) of
        (r, h') \<Rightarrow>
          if r = 0 then h'
          else if mode \<noteq> ''sampled'' then None
          else case coral_gem5_operator_mode h' 1 of (r, h') \<Rightarrow> if r \<noteq> 0 then None else h')"

definition CoralVerilatedBackend ::
  "'c core_model \<Rightarrow> 'c \<Rightarrow> (string \<Rightarrow> string option) \<Rightarrow> u64 \<Rightarrow> string \<Rightarrow> bytes option \<Rightarrow> u64 \<Rightarrow> u32 \<Rightarrow> bool \<Rightarrow> string \<Rightarrow>
    'c verilated option" where
  "CoralVerilatedBackend C c env now wrapper_path firmware tick cycles enable mode =
     (if wrapper_path = [] \<or> tick = 0 \<or> cycles = 0 \<or> mode \<notin> {''rtl'', ''hybrid'', ''sampled''} then None
      else if coral_gem5_abi_version \<noteq> 6 then None
      else case coral_gem5_reset C (Some (coral_gem5_create C c env now)) of
        (r, h) \<Rightarrow>
          if r \<noteq> 0 then None
          else case coral_gem5_extmem_enable h (if enable then 1 else 0) of
            (r, h) \<Rightarrow>
              if r \<noteq> 0 then None
              else do { h \<leftarrow> h; h \<leftarrow> configure_mode mode h; (entry, h) \<leftarrow> loadFirmware C firmware h;
                Some \<lparr> vb_rtlTickPeriod = tick, vb_rtlCyclesPerEvent = cycles, vb_modelHandle = h,
                  vb_localExtmemEnabled = enable, vb_running = False, vb_pendingEventTick = 0,
                  vb_resetControl = kResetBit OR kClockGateBit, vb_firmwareEntry = entry,
                  vb_dmaRequestPending = False, vb_wfiObserved = False, vb_rtlEventCount = 0,
                  vb_rtlDmaRequestCount = 0, vb_pendingDmaRequest = zero_coral_request \<rparr> })"

section \<open>Register accesses\<close>

definition verilated_read ::
  "'c core_model \<Rightarrow> u64 \<Rightarrow> u64 \<Rightarrow> nat \<Rightarrow> u64 \<Rightarrow> 'c verilated \<Rightarrow> (bytes option \<times> 'c verilated) option" where
  "verilated_read C now a n pio_addr v =
     (let offset = a - pio_addr in
      if 0xffffffff < offset then Some (None, v)
      else do { (r, bs, h) \<leftarrow> coral_gem5_mmio_read C (Some (vb_modelHandle v)) (ucast offset) False n;
                h \<leftarrow> h;
                let v = v\<lparr> vb_modelHandle := h \<rparr>;
                Some (if r \<noteq> 0 then (None, v) else (Some bs, v)) })"

definition write_control :: "u64 \<Rightarrow> u32 \<Rightarrow> 'c verilated \<Rightarrow> 'c verilated" where
  "write_control now value v =
     (let wasRunning = vb_running v;
          control = value AND (kResetBit OR kClockGateBit);
          running = (control AND (kResetBit OR kClockGateBit) = 0);
          v = v\<lparr> vb_resetControl := control, vb_running := running \<rparr>;
          v = (if running \<and> \<not> wasRunning then v\<lparr> vb_rtlEventCount := 0, vb_rtlDmaRequestCount := 0 \<rparr> else v) in
      v\<lparr> vb_pendingEventTick := (if running then now + vb_rtlTickPeriod v else 0) \<rparr>)"

definition verilated_write ::
  "'c core_model \<Rightarrow> u64 \<Rightarrow> u64 \<Rightarrow> bytes \<Rightarrow> u64 \<Rightarrow> 'c verilated \<Rightarrow> (bool \<times> 'c verilated) option" where
  "verilated_write C now a bs pio_addr v =
     (let offset = a - pio_addr in
      if 0xffffffff < offset then Some (False, v)
      else do { (r, h) \<leftarrow> coral_gem5_mmio_write C (Some (vb_modelHandle v)) (ucast offset) (Some bs);
                h \<leftarrow> h;
                let v = v\<lparr> vb_modelHandle := h \<rparr>;
                Some (if r \<noteq> 0 then (False, v)
                  else (True, if offset = kResetControlOffset \<and> length bs = 4 then write_control now (le_word bs) v else v)) })"

section \<open>Events\<close>

definition accept_dma :: "coral_gem5_dma_request \<Rightarrow> 'c verilated \<Rightarrow> 'c verilated option" where
  "accept_dma r v =
     (if dma_size r = 0 \<or> CORAL_GEM5_DMA_DATA_BYTES < unat (dma_size r) then None
      else if dma_type r \<noteq> CORAL_GEM5_DMA_READ \<and> dma_type r \<noteq> CORAL_GEM5_DMA_WRITE then None
      else Some (v\<lparr> vb_pendingDmaRequest := \<lparr> cd_type = (if dma_type r = CORAL_GEM5_DMA_READ then Read else Write),
             cd_addr = ucast (dma_addr r), cd_size = dma_size r, cd_data = dma_data r \<rparr>,
           vb_dmaRequestPending := True, vb_pendingEventTick := 0,
           vb_rtlDmaRequestCount := vb_rtlDmaRequestCount v + 1 \<rparr>))"

definition step_outcome :: "u64 \<Rightarrow> u64 \<Rightarrow> int \<Rightarrow> 'c verilated \<Rightarrow> 'c verilated option" where
  "step_outcome now delay result v =
     (if result = 3 then Some (v\<lparr> vb_wfiObserved := True, vb_pendingEventTick := now + delay \<rparr>)
      else if result = 2 then
        (let v = v\<lparr> vb_wfiObserved := False \<rparr> in
         case coral_gem5_dma_request_get (Some (vb_modelHandle v)) (Some zero_dma_request) of
           (got, request) \<Rightarrow> if got \<noteq> 1 then None else Option.bind request (\<lambda>r. accept_dma r v))
      else if 0 < result then Some (v\<lparr> vb_wfiObserved := False, vb_running := False, vb_pendingEventTick := 0 \<rparr>)
      else Some (v\<lparr> vb_wfiObserved := False, vb_pendingEventTick := now + delay \<rparr>))"

definition verilated_processEvent :: "'c core_model \<Rightarrow> u64 \<Rightarrow> 'c verilated \<Rightarrow> 'c verilated option" where
  "verilated_processEvent C now v =
     (if \<not> vb_running v then Some (v\<lparr> vb_pendingEventTick := 0 \<rparr>)
      else
        do { let v = v\<lparr> vb_rtlEventCount := vb_rtlEventCount v + 1 \<rparr>;
             let cyclesBefore = coral_gem5_cycle_count (Some (vb_modelHandle v));
             (result, h) \<leftarrow> coral_gem5_step C (Some (vb_modelHandle v)) (vb_rtlCyclesPerEvent v);
             h \<leftarrow> h;
             let v = v\<lparr> vb_modelHandle := h \<rparr>;
             let cyclesAfter = coral_gem5_cycle_count (Some h);
             if cyclesAfter < cyclesBefore then None
             else do {
               let executed = cyclesAfter - cyclesBefore;
               if executed \<noteq> 0 \<and> MaxTick div executed < vb_rtlTickPeriod v then None
               else if result < 0 \<or> result = 4 then None
               else step_outcome now (if executed = 0 then vb_rtlTickPeriod v else executed * vb_rtlTickPeriod v) result v } })"

section \<open>DMA and external memory\<close>

definition verilated_dmaRequest :: "'c verilated \<Rightarrow> CoralDmaRequest option" where
  "verilated_dmaRequest v = (if vb_dmaRequestPending v then Some (vb_pendingDmaRequest v) else None)"

definition verilated_completeDma :: "u64 \<Rightarrow> bytes option \<Rightarrow> nat \<Rightarrow> bool \<Rightarrow> 'c verilated \<Rightarrow> 'c verilated option" where
  "verilated_completeDma now data n error v =
     (if \<not> vb_dmaRequestPending v then None
      else
        do { let response = (if cd_type (vb_pendingDmaRequest v) = Read then map_option (take n) data else None);
             (r, h) \<leftarrow> coral_gem5_dma_complete (Some (vb_modelHandle v)) response error;
             h \<leftarrow> h;
             if r \<noteq> 0 then None
             else Some (v\<lparr> vb_modelHandle := h, vb_dmaRequestPending := False, vb_pendingDmaRequest := zero_coral_request,
               vb_pendingEventTick := (if vb_running v then now + vb_rtlTickPeriod v else 0) \<rparr>) })"

definition verilated_readLocalExtmem :: "u64 \<Rightarrow> nat \<Rightarrow> 'c verilated \<Rightarrow> bytes option" where
  "verilated_readLocalExtmem a n v =
     (if \<not> vb_localExtmemEnabled v \<or> 0xffffffff < a then None
      else do { (r, bs) \<leftarrow> coral_gem5_extmem_read (Some (vb_modelHandle v)) (ucast a) False n;
                if r \<noteq> 0 then None else Some bs })"

definition verilated_writeLocalExtmem :: "u64 \<Rightarrow> bytes \<Rightarrow> 'c verilated \<Rightarrow> 'c verilated option" where
  "verilated_writeLocalExtmem a bs v =
     (if \<not> vb_localExtmemEnabled v \<or> 0xffffffff < a then None
      else do { (r, h) \<leftarrow> coral_gem5_extmem_write (Some (vb_modelHandle v)) (ucast a) (Some bs);
                h \<leftarrow> h;
                if r \<noteq> 0 then None else Some (v\<lparr> vb_modelHandle := h \<rparr>) })"

definition verilated_translate :: "u64 \<Rightarrow> u64" where
  "verilated_translate vaddr = vaddr"

definition verilated_hasPendingEvent :: "'c verilated \<Rightarrow> bool" where
  "verilated_hasPendingEvent v \<longleftrightarrow> vb_pendingEventTick v \<noteq> 0"

definition verilated_backend :: "'c core_model \<Rightarrow> 'c verilated coral_backend" where
  "verilated_backend C = \<lparr> be_read = verilated_read C, be_write = verilated_write C, be_translate = verilated_translate,
     be_hasPendingEvent = verilated_hasPendingEvent, be_nextEventTick = vb_pendingEventTick,
     be_processEvent = verilated_processEvent C, be_hasDmaRequest = vb_dmaRequestPending,
     be_dmaRequest = verilated_dmaRequest, be_completeDma = verilated_completeDma,
     be_hasLocalExtmem = vb_localExtmemEnabled, be_readLocalExtmem = verilated_readLocalExtmem,
     be_writeLocalExtmem = verilated_writeLocalExtmem \<rparr>"

lemma verilated_backend_simps [simp]:
  "be_read (verilated_backend C) = verilated_read C" "be_write (verilated_backend C) = verilated_write C"
  "be_translate (verilated_backend C) = verilated_translate"
  "be_hasPendingEvent (verilated_backend C) = verilated_hasPendingEvent"
  "be_nextEventTick (verilated_backend C) = vb_pendingEventTick"
  "be_processEvent (verilated_backend C) = verilated_processEvent C"
  "be_hasDmaRequest (verilated_backend C) = vb_dmaRequestPending"
  "be_dmaRequest (verilated_backend C) = verilated_dmaRequest"
  "be_completeDma (verilated_backend C) = verilated_completeDma"
  "be_hasLocalExtmem (verilated_backend C) = vb_localExtmemEnabled"
  "be_readLocalExtmem (verilated_backend C) = verilated_readLocalExtmem"
  "be_writeLocalExtmem (verilated_backend C) = verilated_writeLocalExtmem"
  by (simp_all add: verilated_backend_def)

section \<open>Invariant and contract\<close>

definition verilated_wf :: "'c core_model \<Rightarrow> 'c verilated \<Rightarrow> bool" where
  "verilated_wf C v \<longleftrightarrow> core_typed C \<and> handle_wf (vb_modelHandle v) \<and>
     (vb_dmaRequestPending v \<longrightarrow> dma_request_ok (vb_pendingDmaRequest v))"

text \<open>A fact about the request, the local memory and the rest of the backend state.\<close>

definition same_dma :: "'c verilated \<Rightarrow> 'c verilated \<Rightarrow> bool" where
  "same_dma v v' \<longleftrightarrow> vb_dmaRequestPending v' = vb_dmaRequestPending v \<and>
     vb_pendingDmaRequest v' = vb_pendingDmaRequest v \<and> vb_localExtmemEnabled v' = vb_localExtmemEnabled v"

lemma write_control_fields [simp]:
  "vb_modelHandle (write_control now x v) = vb_modelHandle v"
  "vb_dmaRequestPending (write_control now x v) = vb_dmaRequestPending v"
  "vb_pendingDmaRequest (write_control now x v) = vb_pendingDmaRequest v"
  "vb_localExtmemEnabled (write_control now x v) = vb_localExtmemEnabled v"
  by (simp_all add: write_control_def Let_def)

lemma verilated_read_keeps:
  assumes "verilated_wf C v" "verilated_read C now a n pio v = Some (r, v')"
  shows "verilated_wf C v' \<and> same_dma v v'"
  using assms mmio_read_wf
  by (auto simp: verilated_read_def verilated_wf_def same_dma_def Let_def split: if_splits bind_split_asm)

lemma verilated_write_keeps:
  assumes "verilated_wf C v" "verilated_write C now a bs pio v = Some (r, v')"
  shows "verilated_wf C v' \<and> same_dma v v'"
  using assms mmio_write_wf
  by (auto simp: verilated_write_def verilated_wf_def same_dma_def Let_def split: if_splits bind_split_asm)

lemma accept_dma_ok:
  assumes "accept_dma r v = Some v'" "length (dma_data r) = CORAL_GEM5_DMA_DATA_BYTES"
  shows "vb_dmaRequestPending v' \<and> dma_request_ok (vb_pendingDmaRequest v') \<and> vb_modelHandle v' = vb_modelHandle v \<and>
    vb_localExtmemEnabled v' = vb_localExtmemEnabled v"
  using assms by (auto simp: accept_dma_def dma_request_ok_def word_gt_0 split: if_splits)

lemma step_outcome_keeps:
  assumes "step_outcome now delay result v = Some v'" "verilated_wf C v"
  shows "verilated_wf C v' \<and> (vb_dmaRequestPending v \<longrightarrow> vb_dmaRequestPending v') \<and>
    vb_localExtmemEnabled v' = vb_localExtmemEnabled v"
proof -
  have "length (dma_data (pending_dma (hbridge (vb_modelHandle v)))) = CORAL_GEM5_DMA_DATA_BYTES"
    using assms(2) by (simp add: verilated_wf_def handle_wf_def bridge_wf_def)
  then show ?thesis
    using assms
    by (auto simp: step_outcome_def coral_gem5_dma_request_get_def verilated_wf_def Let_def dest: accept_dma_ok
      split: if_splits)
qed

lemma verilated_process_keeps:
  assumes "verilated_wf C v" "verilated_processEvent C now v = Some v'"
  shows "verilated_wf C v' \<and> (vb_dmaRequestPending v \<longrightarrow> vb_dmaRequestPending v') \<and>
    vb_localExtmemEnabled v' = vb_localExtmemEnabled v"
proof (cases "vb_running v")
  case False
  then show ?thesis using assms by (auto simp: verilated_processEvent_def verilated_wf_def)
next
  case True
  then obtain r h delay where h: "coral_gem5_step C (Some (vb_modelHandle v)) (vb_rtlCyclesPerEvent v) = Some (r, Some h)"
    and out: "step_outcome now delay r (v\<lparr> vb_rtlEventCount := vb_rtlEventCount v + 1, vb_modelHandle := h \<rparr>) = Some v'"
    using assms(2) by (auto simp: verilated_processEvent_def Let_def split: bind_split_asm if_splits)
  have "verilated_wf C (v\<lparr> vb_rtlEventCount := vb_rtlEventCount v + 1, vb_modelHandle := h \<rparr>)"
    using assms(1) step_wf [OF h] by (simp add: verilated_wf_def)
  then show ?thesis using step_outcome_keeps [OF out] by simp
qed

lemma verilated_complete_removes:
  assumes "verilated_wf C v" "verilated_completeDma now data n e v = Some v'"
  shows "verilated_wf C v' \<and> \<not> vb_dmaRequestPending v' \<and> vb_localExtmemEnabled v' = vb_localExtmemEnabled v"
  using assms dma_complete_wf
  by (fastforce simp: verilated_completeDma_def verilated_wf_def Let_def split: if_splits bind_split_asm)

lemma verilated_local_write_keeps:
  assumes "verilated_wf C v" "verilated_writeLocalExtmem a bs v = Some v'"
  shows "verilated_wf C v' \<and> same_dma v v' \<and> vb_pendingEventTick v' = vb_pendingEventTick v"
  using assms extmem_write_wf
  by (fastforce simp: verilated_writeLocalExtmem_def verilated_wf_def same_dma_def split: if_splits bind_split_asm)

interpretation rtl: coral_backend_laws "verilated_backend C" "verilated_wf C" for C
proof
  fix b b' :: "'a verilated" and now a n pio resp bs ok data error
  show "be_hasPendingEvent (verilated_backend C) b \<longleftrightarrow> be_nextEventTick (verilated_backend C) b \<noteq> 0"
    by (simp add: verilated_hasPendingEvent_def)
  show "be_translate (verilated_backend C) a = a" by (simp add: verilated_translate_def)
  show "be_readLocalExtmem (verilated_backend C) a n b = Some bs \<Longrightarrow> length bs = n"
    by (auto simp: verilated_readLocalExtmem_def coral_gem5_extmem_read_def dest: ram.rd_length
      split: if_splits bind_split_asm)
  assume wf: "verilated_wf C b"
  show "be_hasDmaRequest (verilated_backend C) b \<Longrightarrow> \<exists>r. be_dmaRequest (verilated_backend C) b = Some r \<and> dma_request_ok r"
    using wf by (simp add: verilated_dmaRequest_def verilated_wf_def)
  show "be_read (verilated_backend C) now a n pio b = Some (resp, b') \<Longrightarrow> verilated_wf C b' \<and>
      be_hasDmaRequest (verilated_backend C) b' = be_hasDmaRequest (verilated_backend C) b \<and>
      be_dmaRequest (verilated_backend C) b' = be_dmaRequest (verilated_backend C) b \<and>
      be_hasLocalExtmem (verilated_backend C) b' = be_hasLocalExtmem (verilated_backend C) b"
    using verilated_read_keeps [OF wf] by (auto simp: same_dma_def verilated_dmaRequest_def)
  show "be_write (verilated_backend C) now a bs pio b = Some (ok, b') \<Longrightarrow> verilated_wf C b' \<and>
      be_hasDmaRequest (verilated_backend C) b' = be_hasDmaRequest (verilated_backend C) b \<and>
      be_dmaRequest (verilated_backend C) b' = be_dmaRequest (verilated_backend C) b \<and>
      be_hasLocalExtmem (verilated_backend C) b' = be_hasLocalExtmem (verilated_backend C) b"
    using verilated_write_keeps [OF wf] by (auto simp: same_dma_def verilated_dmaRequest_def)
  show "be_processEvent (verilated_backend C) now b = Some b' \<Longrightarrow> verilated_wf C b' \<and>
      (be_hasDmaRequest (verilated_backend C) b \<longrightarrow> be_hasDmaRequest (verilated_backend C) b') \<and>
      be_hasLocalExtmem (verilated_backend C) b' = be_hasLocalExtmem (verilated_backend C) b"
    using verilated_process_keeps [OF wf] by simp
  show "be_completeDma (verilated_backend C) now data n error b = Some b' \<Longrightarrow> verilated_wf C b' \<and>
      \<not> be_hasDmaRequest (verilated_backend C) b' \<and>
      be_hasLocalExtmem (verilated_backend C) b' = be_hasLocalExtmem (verilated_backend C) b"
    using verilated_complete_removes [OF wf] by simp
  show "be_writeLocalExtmem (verilated_backend C) a bs b = Some b' \<Longrightarrow> verilated_wf C b' \<and>
      be_hasDmaRequest (verilated_backend C) b' = be_hasDmaRequest (verilated_backend C) b \<and>
      be_dmaRequest (verilated_backend C) b' = be_dmaRequest (verilated_backend C) b \<and>
      be_hasLocalExtmem (verilated_backend C) b' = be_hasLocalExtmem (verilated_backend C) b \<and>
      be_nextEventTick (verilated_backend C) b' = be_nextEventTick (verilated_backend C) b"
    using verilated_local_write_keeps [OF wf] by (auto simp: same_dma_def verilated_dmaRequest_def)
qed

section \<open>The firmware loader\<close>

lemma extmem_write_facts:
  assumes "coral_gem5_extmem_write (Some h) a (Some bs) = Some (0, Some h')"
  shows "\<not> extmem_reject h a (length bs)"
    "store_bytes (local_extmem (hbridge h)) (unat (a - kExtmemBase)) bs = Some (local_extmem (hbridge h'))"
    "local_extmem_enabled (hbridge h') = local_extmem_enabled (hbridge h)"
  using assms by (auto simp: coral_gem5_extmem_write_def split: if_splits bind_split_asm)

text \<open>The segments of a file that are loaded, and where they go in external memory.\<close>

definition is_load :: "segment \<Rightarrow> bool" where
  "is_load seg \<longleftrightarrow> p_type seg = PT_LOAD \<and> p_filesz seg \<noteq> 0"

definition file_segments :: "bytes \<Rightarrow> u32 \<Rightarrow> nat \<Rightarrow> segment list" where
  "file_segments img phoff n =
     filter is_load (map (\<lambda>i. the (load_phdr img (unat phoff + i * sizeof_Phdr))) [0..<n])"

definition seg_bytes :: "bytes \<Rightarrow> segment \<Rightarrow> bytes" where
  "seg_bytes img seg = take (unat (p_filesz seg)) (drop (unat (p_offset seg)) img)"

definition seg_apart :: "segment \<Rightarrow> segment \<Rightarrow> bool" where
  "seg_apart s t \<longleftrightarrow> unat (p_paddr s) + unat (p_filesz s) \<le> unat (p_paddr t) \<or>
     unat (p_paddr t) + unat (p_filesz t) \<le> unat (p_paddr s)"

definition seg_in_extmem :: "bytes \<Rightarrow> 'c coral_gem5_handle \<Rightarrow> segment \<Rightarrow> bool" where
  "seg_in_extmem img h seg \<longleftrightarrow> coral_gem5_extmem_read (Some h) (p_paddr seg) False (unat (p_filesz seg)) =
     Some (0, seg_bytes img seg)"

lemma file_segments_Suc:
  "file_segments img phoff (Suc n) = file_segments img phoff n @
     (let seg = the (load_phdr img (unat phoff + n * sizeof_Phdr)) in if is_load seg then [seg] else [])"
  by (simp add: file_segments_def Let_def)

text \<open>Loading one segment of external memory, and what it does to the segments that are there already.\<close>

lemma load_segment_extmem:
  assumes "load_segment C img phoff i h = Some h'"
    and "load_phdr img (unat phoff + i * sizeof_Phdr) = Some seg" "is_load seg" "kCoralExtmemBase \<le> p_paddr seg"
  shows "coral_gem5_extmem_write (Some h) (p_paddr seg) (Some (seg_bytes img seg)) = Some (0, Some h')"
    and "length (seg_bytes img seg) = unat (p_filesz seg)"
  using assms by (auto simp: load_segment_def is_load_def seg_bytes_def load_bytes_def split: if_splits bind_split_asm)

lemma extmem_write_segment:
  assumes "coral_gem5_extmem_write (Some h) (p_paddr seg) (Some (seg_bytes img seg)) = Some (0, Some h')"
    and "length (seg_bytes img seg) = unat (p_filesz seg)"
  shows "seg_in_extmem img h' seg"
    and "seg_in_extmem img h t \<Longrightarrow> seg_apart seg t \<Longrightarrow> seg_in_extmem img h' t"
proof -
  note f = extmem_write_facts [OF assms(1)]
  have rej: "extmem_reject h' a n = extmem_reject h a n" for a n by (simp add: extmem_reject_def f(3))
  show "seg_in_extmem img h' seg"
    using f(1) ram.rd_wr_same [OF f(2)] assms(2) by (simp add: seg_in_extmem_def coral_gem5_extmem_read_def rej)
  assume t: "seg_in_extmem img h t" and ap: "seg_apart seg t"
  have rt: "\<not> extmem_reject h (p_paddr t) (unat (p_filesz t))"
    using t by (auto simp: seg_in_extmem_def coral_gem5_extmem_read_def split: if_splits)
  have sub: "unat (a - kExtmemBase) = unat a - 0x20000000 \<and> 0x20000000 \<le> unat a" if "\<not> extmem_reject h a n" for a n
    using that by (simp add: extmem_reject_def word_less_nat_alt unat_sub_le word_le_nat_alt)
  have "unat (p_paddr t - kExtmemBase) + unat (p_filesz t) \<le> unat (p_paddr seg - kExtmemBase) \<or>
      unat (p_paddr seg - kExtmemBase) + length (seg_bytes img seg) \<le> unat (p_paddr t - kExtmemBase)"
    using ap sub [OF f(1)] sub [OF rt] assms(2) by (auto simp: seg_apart_def)
  from ram.rd_wr_disjoint [OF f(2) this] show "seg_in_extmem img h' t"
    using t rt by (simp add: seg_in_extmem_def coral_gem5_extmem_read_def rej)
qed

lemma load_segments_placed:
  assumes "loop (load_segment C img phoff) [0..<n] h = Some h'"
    and "\<forall>seg \<in> set (file_segments img phoff n). kCoralExtmemBase \<le> p_paddr seg"
    and "sorted_wrt seg_apart (file_segments img phoff n)"
  shows "\<forall>seg \<in> set (file_segments img phoff n). seg_in_extmem img h' seg"
  using assms
proof (induction n arbitrary: h')
  case 0
  then show ?case by (simp add: file_segments_def)
next
  case (Suc n)
  obtain h1 where h1: "loop (load_segment C img phoff) [0..<n] h = Some h1"
    and s: "load_segment C img phoff n h1 = Some h'"
    using Suc.prems(1) by (auto simp: loop_append split: bind_split_asm)
  obtain seg where seg: "load_phdr img (unat phoff + n * sizeof_Phdr) = Some seg"
    using s by (auto simp: load_segment_def split: bind_split_asm)
  have IH: "\<forall>t \<in> set (file_segments img phoff n). seg_in_extmem img h1 t"
    using Suc.IH [OF h1] Suc.prems(2,3) by (simp add: file_segments_Suc sorted_wrt_append)
  show ?case
  proof (cases "is_load seg")
    case False
    then have "h' = h1" using s seg by (simp add: load_segment_def is_load_def)
    then show ?thesis using IH False seg by (simp add: file_segments_Suc)
  next
    case True
    have ext: "kCoralExtmemBase \<le> p_paddr seg" using Suc.prems(2) True seg by (simp add: file_segments_Suc)
    have ap: "\<forall>t \<in> set (file_segments img phoff n). seg_apart seg t"
      using Suc.prems(3) True seg by (auto simp: file_segments_Suc sorted_wrt_append seg_apart_def)
    note w = load_segment_extmem [OF s seg True ext]
    show ?thesis
      using extmem_write_segment [OF w] IH ap True seg by (auto simp: file_segments_Suc)
  qed
qed

text \<open>
  C27: Loading an external-memory firmware. When the loader accepts a file whose load segments all go
  to external memory and do not overlap, the entry point is that of the ELF header and every segment
  reads back from external memory exactly as it is in the file.
\<close>

theorem loadFirmware_places_segments:
  assumes "loadFirmware C (Some img) h = Some (entry, h')"
    and "load32 img 28 = Some phoff" "load16 img 44 = Some phnum"
    and "\<forall>seg \<in> set (file_segments img phoff (unat phnum)). kCoralExtmemBase \<le> p_paddr seg"
    and "sorted_wrt seg_apart (file_segments img phoff (unat phnum))"
  shows "load32 img 24 = Some entry \<and>
    (\<forall>seg \<in> set (file_segments img phoff (unat phnum)).
      coral_gem5_extmem_read (Some h') (p_paddr seg) False (unat (p_filesz seg)) =
        Some (0, take (unat (p_filesz seg)) (drop (unat (p_offset seg)) img)))"
proof -
  have l: "loop (load_segment C img phoff) [0..<unat phnum] h = Some h'" and e: "load32 img 24 = Some entry"
    using assms(1-3) by (auto simp: loadFirmware_def split: if_splits bind_split_asm)
  show ?thesis
    using load_segments_placed [OF l assms(4,5)] e by (simp add: seg_in_extmem_def seg_bytes_def)
qed


definition elf_example :: bytes where
  "elf_example = [0x7f, 0x45, 0x4c, 0x46, 1, 1] @ replicate 18 0 @ le_bytes 4 (0x20000010 :: u32) @ le_bytes 4 (52 :: u32) @
     replicate 10 0 @ le_bytes 2 (32 :: u16) @ le_bytes 2 (1 :: u16) @ replicate 6 0 @
     le_bytes 4 (1 :: u32) @ le_bytes 4 (84 :: u32) @ le_bytes 4 (0 :: u32) @ le_bytes 4 (0x20000000 :: u32) @
     le_bytes 4 (2 :: u32) @ replicate 12 0 @ [0xaa, 0xbb]"

definition seg_example :: segment where
  "seg_example = \<lparr> p_type = 1, p_offset = 84, p_paddr = 0x20000000, p_filesz = 2 \<rparr>"

lemma elf_example_fields:
  "length elf_example = 86" "elf_ident_ok elf_example" "load16 elf_example 42 = Some 32"
  "load32 elf_example 28 = Some 52" "load16 elf_example 44 = Some 1" "load32 elf_example 24 = Some 0x20000010"
  "load_phdr elf_example 52 = Some seg_example"
  by code_simp+

lemma elf_example_segments: "file_segments elf_example 52 1 = [seg_example]"
  using elf_example_fields(7) by (simp add: file_segments_def is_load_def seg_example_def abi_defs)

definition extmem_example :: "nat coral_gem5_handle" where
  "extmem_example = \<lparr> core = 0, master_read = init_read_driver, master_write = init_write_driver, fault_seen = False,
     hbridge = (init_bridge (\<lambda>_. None) 0)\<lparr> local_extmem_enabled := True \<rparr> \<rparr>"

lemma elf_example_loads:
  assumes "local_extmem_enabled (hbridge h)" "length (local_extmem (hbridge h)) = kExtmemSize"
  shows "\<exists>h'. loadFirmware C (Some elf_example) h = Some (0x20000010, h')"
proof -
  have seg: "load_bytes elf_example 84 2 = Some [0xaa, 0xbb]" by code_simp
  have "\<exists>h'. coral_gem5_extmem_write (Some h) 0x20000000 (Some [0xaa, 0xbb]) = Some (0, Some h')"
    using assms by (simp add: coral_gem5_extmem_write_def extmem_reject_def store_bytes_def)
  then obtain h' where "load_segment C elf_example 52 0 h = Some h'"
    using elf_example_fields seg by (auto simp: load_segment_def seg_example_def abi_defs)
  then show ?thesis using elf_example_fields by (simp add: loadFirmware_def abi_defs)
qed

theorem loadFirmware_places_segments_witness:
  "\<exists>h'. loadFirmware quiet_core (Some elf_example) extmem_example = Some (0x20000010, h') \<and>
    coral_gem5_extmem_read (Some h') 0x20000000 False 2 = Some (0, [0xaa, 0xbb])"
proof -
  obtain h' where run: "loadFirmware quiet_core (Some elf_example) extmem_example = Some (0x20000010, h')"
    using elf_example_loads [of extmem_example quiet_core] by (auto simp: extmem_example_def init_bridge_def)
  have one: "unat (1 :: u16) = 1" by simp
  have "take 2 (drop 84 elf_example) = [0xaa, 0xbb]" by code_simp
  then show ?thesis
    using run loadFirmware_places_segments [OF run elf_example_fields(4,5), unfolded one elf_example_segments]
    by (simp add: seg_example_def abi_defs)
qed

section \<open>One event\<close>

lemma processEvent_unfold:
  assumes "vb_running v" "coral_gem5_step C (Some (vb_modelHandle v)) (vb_rtlCyclesPerEvent v) = Some (r, Some h)"
    and "x = rtl_cycles (hbridge h) - rtl_cycles (hbridge (vb_modelHandle v))"
  shows "verilated_processEvent C now v =
    (if rtl_cycles (hbridge h) < rtl_cycles (hbridge (vb_modelHandle v)) then None
     else if x \<noteq> 0 \<and> MaxTick div x < vb_rtlTickPeriod v then None
     else if r < 0 \<or> r = 4 then None
     else step_outcome now (if x = 0 then vb_rtlTickPeriod v else x * vb_rtlTickPeriod v) r
       (v\<lparr> vb_rtlEventCount := vb_rtlEventCount v + 1, vb_modelHandle := h \<rparr>))"
  using assms(1,2) by (simp add: verilated_processEvent_def coral_gem5_cycle_count_def Let_def assms(3))

text \<open>
  C26: One event of the RTL backend. An event of a running backend that does not stop the simulation
  runs some number of clock periods, at most those of a batch, and is in one of three cases: the
  batch ran to its end and the next event is exactly that many tick periods later, with no overflow;
  the core asked for a DMA, the request is presented as the bridge has it and no event is pending;
  or the core halted and the backend stopped.
\<close>

theorem verilated_event_outcome:
  assumes run: "verilated_processEvent C now v = Some v'" "vb_running v" "vb_rtlCyclesPerEvent v \<noteq> 0"
  shows "\<exists>k \<le> unat (vb_rtlCyclesPerEvent v). rtl_cycles (hbridge (vb_modelHandle v')) =
      rtl_cycles (hbridge (vb_modelHandle v)) + of_nat k \<and>
    (k = unat (vb_rtlCyclesPerEvent v) \<and> vb_running v' \<and> vb_dmaRequestPending v' = vb_dmaRequestPending v \<and>
        unat (of_nat k * vb_rtlTickPeriod v) = k * unat (vb_rtlTickPeriod v) \<and>
        vb_pendingEventTick v' = now + of_nat k * vb_rtlTickPeriod v \<or>
     (\<exists>r. pending_dma (hbridge (vb_modelHandle v')) = r \<and> dma_pending (hbridge (vb_modelHandle v')) \<and>
        vb_running v' \<and> vb_dmaRequestPending v' \<and> vb_pendingEventTick v' = 0 \<and> 0 < dma_size r \<and> unat (dma_size r) \<le> 4096 \<and>
        vb_pendingDmaRequest v' = \<lparr> cd_type = (if dma_type r = CORAL_GEM5_DMA_READ then Read else Write),
          cd_addr = ucast (dma_addr r), cd_size = dma_size r, cd_data = dma_data r \<rparr>) \<or>
     core_halted C (core (vb_modelHandle v')) \<and> \<not> vb_running v' \<and> vb_pendingEventTick v' = 0)"
proof -
  let ?h = "vb_modelHandle v"
  obtain r h where st: "coral_gem5_step C (Some ?h) (vb_rtlCyclesPerEvent v) = Some (r, Some h)"
    using run(1,2) by (auto simp: verilated_processEvent_def Let_def split: bind_split_asm if_splits)
  let ?v = "v\<lparr> vb_rtlEventCount := vb_rtlEventCount v + 1, vb_modelHandle := h \<rparr>"
  let ?c0 = "rtl_cycles (hbridge ?h)" and ?c1 = "rtl_cycles (hbridge h)"
  let ?x = "?c1 - ?c0"
  have cond: "\<not> (?x \<noteq> 0 \<and> MaxTick div ?x < vb_rtlTickPeriod v)" "r \<noteq> 4"
    and out: "step_outcome now (if ?x = 0 then vb_rtlTickPeriod v else ?x * vb_rtlTickPeriod v) r ?v = Some v'"
    using run(1) unfolding processEvent_unfold [OF run(2) st refl] by (simp_all only: split: if_splits) simp_all
  obtain k where k: "k \<le> unat (vb_rtlCyclesPerEvent v)" "?c1 = ?c0 + of_nat k" "r \<in> {0, 1, 2, 3, 4}"
    "r = 2 \<longrightarrow> dma_pending (hbridge h)" "r = 1 \<longrightarrow> core_halted C (core h)"
    "r \<in> {0, 3} \<longrightarrow> k = unat (vb_rtlCyclesPerEvent v)"
    using step_accounting [OF st run(3)] unfolding coral_gem5_cycle_count_def option.case by blast
  have x: "?x = of_nat k" using k(2) by simp
  have kx: "unat (of_nat k :: u64) = k"
    using k(1) unat_lt_pow2 [of "vb_rtlCyclesPerEvent v"] by (intro unat_of_nat_nowrap) simp
  have prod: "unat (of_nat k * vb_rtlTickPeriod v) = k * unat (vb_rtlTickPeriod v)"
  proof (cases "k = 0")
    case False
    then have "(of_nat k :: u64) \<noteq> 0" using kx by (metis unat_0)
    then have "unat (vb_rtlTickPeriod v) \<le> (2 ^ 64 - 1) div k"
      using cond(1) x kx by (simp add: word_less_nat_alt unat_div MaxTick_def not_less)
    then have "k * unat (vb_rtlTickPeriod v) \<le> 2 ^ 64 - 1"
      using False by (metis less_eq_div_iff_mult_less_eq mult.commute neq0_conv)
    then show ?thesis using kx unat_mult_nowrap [of "of_nat k :: u64" "vb_rtlTickPeriod v"] by simp
  qed simp
  have h': "vb_modelHandle v' = h"
    using out by (auto simp: step_outcome_def coral_gem5_dma_request_get_def accept_dma_def Let_def split: if_splits)
  consider "r = 2" | "r = 1" | "r \<in> {0, 3}" using k(3) cond(2) by blast
  then show ?thesis
  proof cases
    case 1
    have "accept_dma (pending_dma (hbridge h)) (?v\<lparr> vb_wfiObserved := False \<rparr>) = Some v'"
      using 1 out k(4) by (simp add: step_outcome_def coral_gem5_dma_request_get_def)
    then have "vb_running v' \<and> vb_dmaRequestPending v' \<and> vb_pendingEventTick v' = 0 \<and>
        0 < dma_size (pending_dma (hbridge h)) \<and> unat (dma_size (pending_dma (hbridge h))) \<le> 4096 \<and>
        vb_pendingDmaRequest v' = \<lparr> cd_type = (if dma_type (pending_dma (hbridge h)) = CORAL_GEM5_DMA_READ then Read else Write),
          cd_addr = ucast (dma_addr (pending_dma (hbridge h))), cd_size = dma_size (pending_dma (hbridge h)),
          cd_data = dma_data (pending_dma (hbridge h)) \<rparr>"
      using run(2) by (auto simp: accept_dma_def word_gt_0 split: if_splits)
    then show ?thesis unfolding h' using k(1,2,4) 1 by blast
  next
    case 2
    then have "v' = ?v\<lparr> vb_wfiObserved := False, vb_running := False, vb_pendingEventTick := 0 \<rparr>"
      using out by (simp add: step_outcome_def)
    then show ?thesis using 2 k(1,2,5) h' by (intro exI [of _ k] conjI disjI2) simp_all
  next
    case 3
    then have full: "k = unat (vb_rtlCyclesPerEvent v)" using k(6) by blast
    then have "?x \<noteq> 0" using x kx run(3) by (metis unat_0 unat_eq_zero)
    then have "vb_running v' \<and> vb_dmaRequestPending v' = vb_dmaRequestPending v \<and>
        vb_pendingEventTick v' = now + of_nat k * vb_rtlTickPeriod v"
      using 3 out x run(2) by (auto simp: step_outcome_def)
    then show ?thesis unfolding h' using full k(1,2) prod by blast
  qed
qed

definition verilated_example :: "nat verilated" where
  "verilated_example = \<lparr> vb_rtlTickPeriod = 1000, vb_rtlCyclesPerEvent = 5, vb_modelHandle = quiet_handle,
     vb_localExtmemEnabled = False, vb_running = True, vb_pendingEventTick = 1000, vb_resetControl = 0,
     vb_firmwareEntry = 0, vb_dmaRequestPending = False, vb_wfiObserved = False, vb_rtlEventCount = 0,
     vb_rtlDmaRequestCount = 0, vb_pendingDmaRequest = zero_coral_request \<rparr>"

theorem verilated_event_outcome_witness:
  "\<exists>v' k. verilated_processEvent quiet_core 1000 verilated_example = Some v' \<and> k \<le> unat (5 :: u32) \<and>
    rtl_cycles (hbridge (vb_modelHandle v')) = rtl_cycles (hbridge quiet_handle) + of_nat k \<and>
    vb_pendingEventTick v' = 0 \<and> \<not> vb_running v'"
proof -
  obtain h' where run: "coral_gem5_step quiet_core (Some quiet_handle) 5 = Some (1, Some h')" "rtl_cycles (hbridge h') = 1"
    using quiet_run by blast
  have z: "rtl_cycles (hbridge quiet_handle) = 0" by (simp add: quiet_handle_def init_bridge_def)
  have "\<exists>v'. verilated_processEvent quiet_core 1000 verilated_example = Some v' \<and> \<not> vb_running v' \<and> vb_pendingEventTick v' = 0"
    using run z
    by (simp add: verilated_processEvent_def verilated_example_def coral_gem5_cycle_count_def step_outcome_def MaxTick_def)
  then obtain v' where v': "verilated_processEvent quiet_core 1000 verilated_example = Some v'" "\<not> vb_running v'"
    "vb_pendingEventTick v' = 0" by blast
  have ex: "vb_running verilated_example" "vb_rtlCyclesPerEvent verilated_example = 5" "vb_modelHandle verilated_example = quiet_handle"
    by (simp_all add: verilated_example_def)
  show ?thesis using verilated_event_outcome [OF v'(1) ex(1)] v' ex by auto
qed

section \<open>Construction\<close>

lemma load_segment_wf:
  assumes "load_segment C img phoff i h = Some h'" "handle_wf h" "core_typed C"
  shows "handle_wf h'"
proof -
  have "handle_wf h2" if "coral_gem5_mmio_write C (Some h) a d = Some (r, g)"
    "coral_gem5_mmio_read C g b e n = Some (0, bs, Some h2)" for a d r g b e n bs h2
  proof (cases g)
    case (Some h1)
    show ?thesis
      using mmio_read_wf [OF that(2) [unfolded Some]] mmio_write_wf [OF that(1) [unfolded Some]] assms(2,3) by blast
  qed (use that(2) in \<open>simp add: coral_gem5_mmio_read_def\<close>)
  then show ?thesis
    using assms extmem_write_wf by (auto simp: load_segment_def split: if_splits bind_split_asm)
qed

lemma configure_mode_wf: "configure_mode mode h = Some h' \<Longrightarrow> handle_wf h \<Longrightarrow> handle_wf h'"
  by (auto simp: configure_mode_def coral_gem5_operator_mode_def handle_wf_def bridge_wf_def split: if_splits)

lemma extmem_enable_wf: "coral_gem5_extmem_enable (Some h) e = (r, Some h') \<Longrightarrow> handle_wf h \<Longrightarrow> handle_wf h'"
  by (auto simp: coral_gem5_extmem_enable_def handle_wf_def bridge_wf_def Let_def split: if_splits)

lemma CoralVerilatedBackend_wf:
  assumes "CoralVerilatedBackend C c env now path file tick cycles enable mode = Some v" "core_typed C"
  shows "verilated_wf C v \<and> \<not> vb_dmaRequestPending v \<and> vb_pendingEventTick v = 0"
proof -
  obtain h0 where h0: "coral_gem5_reset C (Some (coral_gem5_create C c env now)) = (0, Some h0)"
    by (simp add: coral_gem5_reset_def Let_def)
  obtain r g where g: "coral_gem5_extmem_enable (Some h0) (if enable then 1 else 0) = (r, g)" by fastforce
  from assms(1) obtain h1 h2 h3 entry where s: "r = 0" "g = Some h1"
    "configure_mode mode h1 = Some h2" "loadFirmware C file h2 = Some (entry, h3)"
    and v: "vb_modelHandle v = h3" "\<not> vb_dmaRequestPending v" "vb_pendingEventTick v = 0"
    unfolding CoralVerilatedBackend_def h0 g prod.case by (auto split: if_split_asm bind_split_asm)
  have w2: "handle_wf h2"
    by (rule configure_mode_wf [OF s(3) extmem_enable_wf [OF g [unfolded s(1,2)] reset_wf [OF h0 create_wf]]])
  obtain img phoff xs where "loop (load_segment C img phoff) xs h2 = Some h3"
    using s(4) by (auto simp: loadFirmware_def split: bind_split_asm if_split_asm)
  from loop_invariant [where P = handle_wf, OF this w2] have "handle_wf h3"
    using load_segment_wf [OF _ _ assms(2)] by simp
  then show ?thesis using v assms(2) by (simp add: verilated_wf_def)
qed

text \<open>A backend that starts: the example file on the quiet core.\<close>

lemma quiet_core_typed: "core_typed quiet_core"
  by (simp add: core_typed_def quiet_core_def single_beat_def)

lemma quiet_backend_starts:
  "\<exists>v. CoralVerilatedBackend quiet_core 1 (\<lambda>_. None) 0 ''lib'' (Some elf_example) 1000 5 True ''rtl'' = Some v \<and>
    vb_localExtmemEnabled v"
proof -
  obtain h0 where h0: "coral_gem5_reset quiet_core (Some (coral_gem5_create quiet_core 1 (\<lambda>_. None) 0)) = (0, Some h0)"
    by (simp add: coral_gem5_reset_def Let_def)
  have wf: "handle_wf h0" by (rule reset_wf [OF h0 create_wf])
  have np: "\<not> dma_pending (hbridge h0)"
    using h0 by (auto simp: coral_gem5_reset_def Let_def wrapper_Reset_def coral_gem5_create_def init_bridge_def)
  obtain h1 where h1: "coral_gem5_extmem_enable (Some h0) 1 = (0, Some h1)" "local_extmem_enabled (hbridge h1)"
    using np by (simp add: coral_gem5_extmem_enable_def Let_def)
  have wf1: "handle_wf h1" by (rule extmem_enable_wf [OF h1(1) wf])
  obtain h2 where h2: "configure_mode ''rtl'' h1 = Some h2" "local_extmem_enabled (hbridge h2)"
    using h1(2) by (simp add: configure_mode_def operator_mode_value_def coral_gem5_operator_mode_def)
  have "length (local_extmem (hbridge h2)) = kExtmemSize"
    using configure_mode_wf [OF h2(1) wf1] by (simp add: handle_wf_def bridge_wf_def)
  then obtain h3 where "loadFirmware quiet_core (Some elf_example) h2 = Some (0x20000010, h3)"
    using elf_example_loads [OF h2(2)] by blast
  then show ?thesis
    using h0 h1(1) h2(1) by (simp add: CoralVerilatedBackend_def coral_gem5_abi_version_def)
qed

end
