(* ===== verification/NPU_Device.thy ===== *)
theory NPU_Device
  imports Stagea_Backend Verilated_Backend
begin

text \<open>
  The NPU device of gem5 (\<open>dev/npu/npu_device.cc\<close>): the register aperture, the DMA engine with its
  timing and its functional (fast) mode, the write-back cache of the fast mode, draining and
  checkpoints. Every operation takes the table of the backend's virtual functions.

  The memory system behind the DMA port belongs to gem5 and is the record \<open>dma_port\<close>, an argument:
  a functional access either fails or returns. A timing DMA is a transfer in flight, finished by
  \<open>dmaTransferDone\<close>. The event queue holds at most one event of the device, at its tick.
\<close>

section \<open>State\<close>

record 'm dma_port =
  port_read :: "'m \<Rightarrow> u64 \<Rightarrow> nat \<Rightarrow> bytes option"
  port_write :: "'m \<Rightarrow> u64 \<Rightarrow> bytes \<Rightarrow> 'm option"
  port_block :: nat

datatype DrainState = Running | Draining | Drained | Resuming

record dma_transfer =
  tr_type :: CoralDmaType
  tr_addr :: u64
  tr_size :: u32
  tr_buffer :: bytes

record ('b, 'm) npu_device =
  pioAddr :: u64
  pioSize :: u64
  pioDelay :: u64
  dmaExtmemBase :: u64
  dmaSharedBase :: u64
  dmaSharedSize :: u64
  fastDma :: bool
  fastDmaEventBatch :: u32
  fastDmaSyncOffset :: u64
  fastDmaSyncSize :: u64
  backendId :: u32
  firmwareEntry :: u32
  dmaActive :: bool
  dmaRequests :: u32
  dmaCompletions :: u32
  dmaErrors :: u32
  fastDmaCache :: bytes
  fastDmaPageValid :: "bool list"
  fastDmaPageDirty :: "bool list"
  backend :: 'b
  backendEvent :: "u64 option"
  drainState :: DrainState
  dmaTransfer :: "dma_transfer option"
  hostMemory :: 'm

definition kBackendIdOffset :: u64 where [abi_defs]: "kBackendIdOffset = 0x30ffc"
definition kFirmwareEntryOffset :: u64 where [abi_defs]: "kFirmwareEntryOffset = 0x30ff8"
definition kSharedSizeOffset :: u64 where [abi_defs]: "kSharedSizeOffset = 0x30ff4"
definition kSharedBaseOffset :: u64 where [abi_defs]: "kSharedBaseOffset = 0x30ff0"
definition kDmaStateOffset :: u64 where [abi_defs]: "kDmaStateOffset = 0x30fec"
definition kDmaCompletionsOffset :: u64 where [abi_defs]: "kDmaCompletionsOffset = 0x30fe8"
definition kDmaRequestsOffset :: u64 where [abi_defs]: "kDmaRequestsOffset = 0x30fe4"
definition kDmaErrorsOffset :: u64 where [abi_defs]: "kDmaErrorsOffset = 0x30fe0"
definition kStageABackendId :: u32 where [abi_defs]: "kStageABackendId = 0x4e505501"
definition kVerilatedCoralBackendId :: u32 where [abi_defs]: "kVerilatedCoralBackendId = 0x4e505502"
definition kFastDmaPageSize :: nat where [abi_defs]: "kFastDmaPageSize = 4096"

section \<open>Events and draining\<close>

definition syncBackendEvent :: "'b coral_backend \<Rightarrow> ('b, 'm) npu_device \<Rightarrow> ('b, 'm) npu_device" where
  "syncBackendEvent V d =
     (if be_hasPendingEvent V (backend d) then
        let t = be_nextEventTick V (backend d) in
        if backendEvent d = None \<or> backendEvent d \<noteq> Some t then d\<lparr> backendEvent := Some t \<rparr> else d
      else if backendEvent d \<noteq> None then d\<lparr> backendEvent := None \<rparr> else d)"

definition dmaQuiesced :: "'b coral_backend \<Rightarrow> ('b, 'm) npu_device \<Rightarrow> bool" where
  "dmaQuiesced V d \<longleftrightarrow> \<not> dmaActive d \<and> \<not> be_hasDmaRequest V (backend d) \<and> \<not> be_hasPendingEvent V (backend d)"

definition checkDrainDone :: "'b coral_backend \<Rightarrow> ('b, 'm) npu_device \<Rightarrow> ('b, 'm) npu_device" where
  "checkDrainDone V d = (if drainState d = Draining \<and> dmaQuiesced V d then d\<lparr> drainState := Drained \<rparr> else d)"

definition drain :: "'b coral_backend \<Rightarrow> ('b, 'm) npu_device \<Rightarrow> DrainState" where
  "drain V d = (if dmaQuiesced V d then Drained else Draining)"

text \<open>A checkpoint holds the three counters; those it lacks keep their value.\<close>

definition serialize :: "'b coral_backend \<Rightarrow> ('b, 'm) npu_device \<Rightarrow> (string \<rightharpoonup> u32) option" where
  "serialize V d =
     (if \<not> dmaQuiesced V d then None
      else Some [''dmaRequests'' \<mapsto> dmaRequests d, ''dmaCompletions'' \<mapsto> dmaCompletions d, ''dmaErrors'' \<mapsto> dmaErrors d])"

definition unserialize :: "(string \<rightharpoonup> u32) \<Rightarrow> ('b, 'm) npu_device \<Rightarrow> ('b, 'm) npu_device" where
  "unserialize cp d = d\<lparr>
     dmaRequests := (case cp ''dmaRequests'' of None \<Rightarrow> dmaRequests d | Some x \<Rightarrow> x),
     dmaCompletions := (case cp ''dmaCompletions'' of None \<Rightarrow> dmaCompletions d | Some x \<Rightarrow> x),
     dmaErrors := (case cp ''dmaErrors'' of None \<Rightarrow> dmaErrors d | Some x \<Rightarrow> x) \<rparr>"

section \<open>Functional memory accesses\<close>

text \<open>A range is accessed in chunks that do not cross a cache block.\<close>

definition block_chunk :: "'m dma_port \<Rightarrow> u64 \<Rightarrow> nat \<Rightarrow> nat \<Rightarrow> nat" where
  "block_chunk P a completed n =
     min (port_block P - unat (a + of_nat completed) mod port_block P) (n - completed)"

lemma block_chunk_pos: "0 < port_block P \<Longrightarrow> completed < n \<Longrightarrow> 0 < block_chunk P a completed n"
  by (simp add: block_chunk_def)

lemma block_chunk_decreases:
  "port_block P \<noteq> 0 \<Longrightarrow> completed < n \<Longrightarrow> n - (completed + block_chunk P a completed n) < n - completed"
  using block_chunk_pos [of P completed n a] by simp

function functional_read :: "'m dma_port \<Rightarrow> 'm \<Rightarrow> u64 \<Rightarrow> nat \<Rightarrow> nat \<Rightarrow> bytes option" where
  "functional_read P m a n completed =
     (if port_block P = 0 then None
      else if completed < n then
        do { xs \<leftarrow> port_read P m (a + of_nat completed) (block_chunk P a completed n);
             ys \<leftarrow> functional_read P m a n (completed + block_chunk P a completed n);
             Some (xs @ ys) }
      else Some [])"
  by pat_completeness auto

termination functional_read
  by (relation "measure (\<lambda>(P, m, a, n, c). n - c)") (simp_all add: block_chunk_decreases)

function functional_write :: "'m dma_port \<Rightarrow> u64 \<Rightarrow> bytes \<Rightarrow> nat \<Rightarrow> 'm \<Rightarrow> 'm option" where
  "functional_write P a bs completed m =
     (if port_block P = 0 then None
      else if completed < length bs then
        do { m \<leftarrow> port_write P m (a + of_nat completed)
               (take (block_chunk P a completed (length bs)) (drop completed bs));
             functional_write P a bs (completed + block_chunk P a completed (length bs)) m }
      else Some m)"
  by pat_completeness auto

termination functional_write
  by (relation "measure (\<lambda>(P, a, bs, c, m). length bs - c)") (simp_all add: block_chunk_decreases)

declare functional_read.simps [simp del] functional_write.simps [simp del]

section \<open>The cache of the fast mode\<close>

definition page_size :: "('b, 'm) npu_device \<Rightarrow> nat \<Rightarrow> nat" where
  "page_size d page = min kFastDmaPageSize (length (fastDmaCache d) - page * kFastDmaPageSize)"

definition fillPage :: "'m dma_port \<Rightarrow> nat \<Rightarrow> ('b, 'm) npu_device \<Rightarrow> ('b, 'm) npu_device option" where
  "fillPage P page d =
     (if fastDmaPageValid d ! page then Some d
      else do { bs \<leftarrow> functional_read P (hostMemory d) (dmaSharedBase d + of_nat (page * kFastDmaPageSize)) (page_size d page) 0;
                cache \<leftarrow> store_bytes (fastDmaCache d) (page * kFastDmaPageSize) bs;
                Some (d\<lparr> fastDmaCache := cache, fastDmaPageValid := (fastDmaPageValid d)[page := True] \<rparr>) })"

definition fastDmaAccess ::
  "'m dma_port \<Rightarrow> CoralDmaRequest \<Rightarrow> u64 \<Rightarrow> bytes \<Rightarrow> ('b, 'm) npu_device \<Rightarrow> (bytes \<times> ('b, 'm) npu_device) option" where
  "fastDmaAccess P r hostAddr data d =
     (let offset = unat (hostAddr - dmaSharedBase d); page = offset div kFastDmaPageSize; n = unat (cd_size r) in
      if length (fastDmaPageValid d) \<le> page \<or> kFastDmaPageSize - offset mod kFastDmaPageSize < n then None
      else do { d \<leftarrow> fillPage P page d;
        if cd_type r = Read then
          do { bs \<leftarrow> load_bytes (fastDmaCache d) offset n; Some (bs @ drop n data, d) }
        else
          do { bs \<leftarrow> load_bytes data 0 n;
               cache \<leftarrow> store_bytes (fastDmaCache d) offset bs;
               Some (data, d\<lparr> fastDmaCache := cache, fastDmaPageDirty := (fastDmaPageDirty d)[page := True] \<rparr>) } })"

definition flushPage :: "'m dma_port \<Rightarrow> nat \<Rightarrow> ('b, 'm) npu_device \<Rightarrow> ('b, 'm) npu_device option" where
  "flushPage P page d =
     (if \<not> fastDmaPageDirty d ! page then Some d
      else do { bs \<leftarrow> load_bytes (fastDmaCache d) (page * kFastDmaPageSize) (page_size d page);
                m \<leftarrow> functional_write P (dmaSharedBase d + of_nat (page * kFastDmaPageSize)) bs 0 (hostMemory d);
                Some (d\<lparr> hostMemory := m, fastDmaPageDirty := (fastDmaPageDirty d)[page := False] \<rparr>) })"

definition flushFastDmaCache :: "'m dma_port \<Rightarrow> ('b, 'm) npu_device \<Rightarrow> ('b, 'm) npu_device option" where
  "flushFastDmaCache P d = loop (flushPage P) [0..<length (fastDmaPageDirty d)] d"

definition invalidateFastDmaCache :: "('b, 'm) npu_device \<Rightarrow> ('b, 'm) npu_device" where
  "invalidateFastDmaCache d = d\<lparr>
     fastDmaPageValid := replicate (length (fastDmaPageValid d)) False,
     fastDmaPageDirty := replicate (length (fastDmaPageDirty d)) False \<rparr>"

definition syncHostToLocalExtmem ::
  "'b coral_backend \<Rightarrow> 'm dma_port \<Rightarrow> ('b, 'm) npu_device \<Rightarrow> ('b, 'm) npu_device option" where
  "syncHostToLocalExtmem V P d =
     (if \<not> be_hasLocalExtmem V (backend d) then Some d
      else do { bs \<leftarrow> functional_read P (hostMemory d) (dmaSharedBase d + fastDmaSyncOffset d) (unat (fastDmaSyncSize d)) 0;
                b \<leftarrow> be_writeLocalExtmem V (dmaExtmemBase d + fastDmaSyncOffset d) bs (backend d);
                Some (d\<lparr> backend := b, dmaRequests := dmaRequests d + 1, dmaCompletions := dmaCompletions d + 1 \<rparr>) })"

definition syncLocalExtmemToHost ::
  "'b coral_backend \<Rightarrow> 'm dma_port \<Rightarrow> ('b, 'm) npu_device \<Rightarrow> ('b, 'm) npu_device option" where
  "syncLocalExtmemToHost V P d =
     do { bs \<leftarrow> be_readLocalExtmem V (dmaExtmemBase d + fastDmaSyncOffset d) (unat (fastDmaSyncSize d)) (backend d);
          m \<leftarrow> functional_write P (dmaSharedBase d + fastDmaSyncOffset d) bs 0 (hostMemory d);
          Some (d\<lparr> hostMemory := m, dmaRequests := dmaRequests d + 1, dmaCompletions := dmaCompletions d + 1 \<rparr>) }"

section \<open>DMA requests of the backend\<close>

definition completeBackendDma ::
  "'b coral_backend \<Rightarrow> u64 \<Rightarrow> bytes \<Rightarrow> ('b, 'm) npu_device \<Rightarrow> ('b, 'm) npu_device option" where
  "completeBackendDma V now data d =
     (if \<not> dmaActive d then None
      else do { r \<leftarrow> be_dmaRequest V (backend d);
                b \<leftarrow> be_completeDma V now (Some data) (unat (cd_size r)) False (backend d);
                if be_hasDmaRequest V b then None
                else Some (checkDrainDone V (syncBackendEvent V
                  (d\<lparr> dmaActive := False, backend := b, dmaCompletions := dmaCompletions d + 1 \<rparr>))) })"

definition completeBackendDmaError ::
  "'b coral_backend \<Rightarrow> u64 \<Rightarrow> ('b, 'm) npu_device \<Rightarrow> ('b, 'm) npu_device option" where
  "completeBackendDmaError V now d =
     (if dmaActive d \<or> \<not> be_hasDmaRequest V (backend d) then None
      else do { b \<leftarrow> be_completeDma V now None 0 True (backend d);
                if be_hasDmaRequest V b then None
                else Some (checkDrainDone V (syncBackendEvent V (d\<lparr> backend := b, dmaErrors := dmaErrors d + 1 \<rparr>))) })"

text \<open>The window of the addresses a backend may ask for.\<close>

definition outside_window :: "('b, 'm) npu_device \<Rightarrow> CoralDmaRequest \<Rightarrow> bool" where
  "outside_window d r \<longleftrightarrow> cd_addr r < dmaExtmemBase d \<or> dmaSharedSize d \<le> cd_addr r - dmaExtmemBase d \<or>
     dmaSharedSize d - (cd_addr r - dmaExtmemBase d) < ucast (cd_size r)"

definition startBackendDma ::
  "'b coral_backend \<Rightarrow> 'm dma_port \<Rightarrow> u64 \<Rightarrow> ('b, 'm) npu_device \<Rightarrow> ('b, 'm) npu_device option" where
  "startBackendDma V P now d =
     (if dmaActive d \<or> \<not> be_hasDmaRequest V (backend d) then Some d
      else do { r \<leftarrow> be_dmaRequest V (backend d);
        if outside_window d r then completeBackendDmaError V now d
        else do {
          let hostAddr = dmaSharedBase d + (cd_addr r - dmaExtmemBase d);
          let d = d\<lparr> dmaActive := True, dmaRequests := dmaRequests d + 1 \<rparr>;
          if fastDma d then
            do { (data, d) \<leftarrow> fastDmaAccess P r hostAddr (cd_data r) d; completeBackendDma V now data d }
          else Some (d\<lparr> dmaTransfer := Some \<lparr> tr_type = cd_type r, tr_addr = hostAddr, tr_size = cd_size r,
                 tr_buffer = cd_data r \<rparr> \<rparr>) } })"

text \<open>The end of a timing transfer, with the callback.\<close>

definition dmaTransferDone ::
  "'b coral_backend \<Rightarrow> 'm dma_port \<Rightarrow> u64 \<Rightarrow> ('b, 'm) npu_device \<Rightarrow> ('b, 'm) npu_device option" where
  "dmaTransferDone V P now d =
     do { t \<leftarrow> dmaTransfer d;
          let d = d\<lparr> dmaTransfer := None \<rparr>;
          let n = unat (tr_size t);
          let a = be_translate V (tr_addr t);
          if tr_type t = Read then
            do { bs \<leftarrow> port_read P (hostMemory d) a n; completeBackendDma V now (bs @ drop n (tr_buffer t)) d }
          else
            do { bs \<leftarrow> load_bytes (tr_buffer t) 0 n; m \<leftarrow> port_write P (hostMemory d) a bs;
                 completeBackendDma V now (tr_buffer t) (d\<lparr> hostMemory := m \<rparr>) } }"

section \<open>The event\<close>

primrec eventBatches ::
  "'b coral_backend \<Rightarrow> 'm dma_port \<Rightarrow> u64 \<Rightarrow> nat \<Rightarrow> ('b, 'm) npu_device \<Rightarrow> ('b, 'm) npu_device option" where
  "eventBatches V P now 0 d = Some d"
| "eventBatches V P now (Suc n) d =
     do { b \<leftarrow> be_processEvent V now (backend d);
          d \<leftarrow> startBackendDma V P now (d\<lparr> backend := b \<rparr>);
          if \<not> fastDma d \<or> dmaActive d \<or> \<not> be_hasPendingEvent V (backend d) then Some d
          else eventBatches V P now n (d\<lparr> backendEvent := None \<rparr>) }"

definition processBackendEvent ::
  "'b coral_backend \<Rightarrow> 'm dma_port \<Rightarrow> u64 \<Rightarrow> ('b, 'm) npu_device \<Rightarrow> ('b, 'm) npu_device option" where
  "processBackendEvent V P now d =
     do { d \<leftarrow> eventBatches V P now (if fastDma d then unat (fastDmaEventBatch d) else 1) (d\<lparr> backendEvent := None \<rparr>);
          d \<leftarrow> (if fastDma d \<and> \<not> be_hasPendingEvent V (backend d) \<and> \<not> be_hasDmaRequest V (backend d)
                then if be_hasLocalExtmem V (backend d) then syncLocalExtmemToHost V P d else flushFastDmaCache P d
                else Some d);
          Some (checkDrainDone V (syncBackendEvent V d)) }"

section \<open>The aperture\<close>

definition shell_register :: "'b coral_backend \<Rightarrow> ('b, 'm) npu_device \<Rightarrow> u64 \<Rightarrow> u32 option" where
  "shell_register V d offset =
     (if offset = kDmaRequestsOffset then Some (dmaRequests d)
      else if offset = kDmaCompletionsOffset then Some (dmaCompletions d)
      else if offset = kDmaStateOffset then
        Some ((if be_hasDmaRequest V (backend d) then 0x1 else 0x0) OR (if dmaActive d then 0x2 else 0x0))
      else if offset = kDmaErrorsOffset then Some (dmaErrors d)
      else if offset = kSharedBaseOffset then Some (ucast (dmaSharedBase d))
      else if offset = kSharedSizeOffset then Some (ucast (dmaSharedSize d))
      else if offset = kFirmwareEntryOffset then Some (firmwareEntry d)
      else if offset = kBackendIdOffset then Some (backendId d)
      else None)"

text \<open>The response of a read is its payload, or none for a bad address.\<close>

definition npu_read ::
  "'b coral_backend \<Rightarrow> u64 \<Rightarrow> u64 \<Rightarrow> nat \<Rightarrow> ('b, 'm) npu_device \<Rightarrow> (bytes option \<times> ('b, 'm) npu_device) option" where
  "npu_read V now a n d =
     (case (if n = 4 then shell_register V d (a - pioAddr d) else None) of
        Some w \<Rightarrow> Some (Some (le_bytes 4 w), syncBackendEvent V d)
      | None \<Rightarrow> do { (r, b) \<leftarrow> be_read V now a n (pioAddr d) (backend d);
                    Some (r, syncBackendEvent V (d\<lparr> backend := b \<rparr>)) })"

definition npu_write ::
  "'b coral_backend \<Rightarrow> 'm dma_port \<Rightarrow> u64 \<Rightarrow> u64 \<Rightarrow> bytes \<Rightarrow> ('b, 'm) npu_device \<Rightarrow> (bool \<times> ('b, 'm) npu_device) option" where
  "npu_write V P now a bs d =
     (let control = (a - pioAddr d = kResetControlOffset \<and> length bs = 4); word = (le_word bs :: u32) in
      do { d \<leftarrow> (if fastDma d \<and> be_hasLocalExtmem V (backend d) \<and> control \<and> word AND 0x3 = 0
                 then syncHostToLocalExtmem V P d else Some d);
           (ok, b) \<leftarrow> be_write V now a bs (pioAddr d) (backend d);
           let d = d\<lparr> backend := b \<rparr>;
           let d = (if fastDma d \<and> control \<and> word AND 0x1 \<noteq> 0 then invalidateFastDmaCache d else d);
           Some (ok, syncBackendEvent V d) })"

definition getAddrRanges :: "('b, 'm) npu_device \<Rightarrow> (u64 \<times> u64) list" where
  "getAddrRanges d = [(pioAddr d, pioSize d)]"

section \<open>Construction\<close>

record npu_params =
  np_pioAddr :: u64
  np_pioSize :: u64
  np_pioDelay :: u64
  np_dmaExtmemBase :: u64
  np_dmaSharedBase :: u64
  np_dmaSharedSize :: u64
  np_fastDma :: bool
  np_fastDmaEventBatch :: u32
  np_fastDmaSyncOffset :: u64
  np_fastDmaSyncSize :: u64
  np_backendType :: string

definition params_ok :: "npu_params \<Rightarrow> bool" where
  "params_ok p \<longleftrightarrow> np_dmaSharedSize p \<noteq> 0 \<and> \<not> (np_fastDma p \<and> np_fastDmaEventBatch p = 0) \<and>
     \<not> (np_backendType p = ''verilated-coral'' \<and> np_fastDma p \<and>
        (np_dmaSharedSize p < np_fastDmaSyncOffset p \<or>
         np_dmaSharedSize p - np_fastDmaSyncOffset p < np_fastDmaSyncSize p)) \<and>
     np_dmaSharedBase p \<le> 0xffffffff"

definition NPUDevice :: "'b coral_backend \<Rightarrow> npu_params \<Rightarrow> u32 \<Rightarrow> u32 \<Rightarrow> 'b \<Rightarrow> 'm \<Rightarrow> ('b, 'm) npu_device" where
  "NPUDevice V p ident entry b m =
     (let pages = (if np_fastDma p then unat (np_dmaSharedSize p + of_nat kFastDmaPageSize - 1) div kFastDmaPageSize else 0) in
      syncBackendEvent V \<lparr> pioAddr = np_pioAddr p, pioSize = np_pioSize p, pioDelay = np_pioDelay p,
        dmaExtmemBase = np_dmaExtmemBase p, dmaSharedBase = np_dmaSharedBase p, dmaSharedSize = np_dmaSharedSize p,
        fastDma = np_fastDma p, fastDmaEventBatch = np_fastDmaEventBatch p, fastDmaSyncOffset = np_fastDmaSyncOffset p,
        fastDmaSyncSize = np_fastDmaSyncSize p, backendId = ident, firmwareEntry = entry, dmaActive = False,
        dmaRequests = 0, dmaCompletions = 0, dmaErrors = 0,
        fastDmaCache = replicate (if np_fastDma p then unat (np_dmaSharedSize p) else 0) 0,
        fastDmaPageValid = replicate pages False, fastDmaPageDirty = replicate pages False, backend = b,
        backendEvent = None, drainState = Running, dmaTransfer = None, hostMemory = m \<rparr>)"

definition NPUDevice_stagea ::
  "npu_params \<Rightarrow> u64 \<Rightarrow> u64 \<Rightarrow> u64 \<Rightarrow> bool \<Rightarrow> 'm \<Rightarrow> (stagea, 'm) npu_device option" where
  "NPUDevice_stagea p itcm dtcm latency autoHalt m =
     (if \<not> params_ok p \<or> np_backendType p \<noteq> ''stage-a'' then None
      else do { b \<leftarrow> CoralStageABackend (np_pioAddr p) (np_pioSize p) itcm dtcm latency autoHalt;
                Some (NPUDevice stagea_backend p kStageABackendId 0 b m) })"

definition NPUDevice_verilated ::
  "'c core_model \<Rightarrow> 'c \<Rightarrow> (string \<Rightarrow> string option) \<Rightarrow> u64 \<Rightarrow> npu_params \<Rightarrow> string \<Rightarrow> bytes option \<Rightarrow> u64 \<Rightarrow> u32 \<Rightarrow> string \<Rightarrow> 'm \<Rightarrow>
    ('c verilated, 'm) npu_device option" where
  "NPUDevice_verilated C c env now p wrapper firmware tick cycles mode m =
     (if \<not> params_ok p \<or> np_backendType p \<noteq> ''verilated-coral'' then None
      else do { b \<leftarrow> CoralVerilatedBackend C c env now wrapper firmware tick cycles (np_fastDma p) mode;
                Some (NPUDevice (verilated_backend C) p kVerilatedCoralBackendId (vb_firmwareEntry b) b m) })"

end
