(* ===== verification/NPU_Invariant.thy ===== *)
theory NPU_Invariant
  imports NPU_Device
begin

text \<open>
  The DMA protocol of the NPU device as a state machine over register accesses, events, finished
  transfers and draining: its invariant for every backend that keeps the contract, the accounting of
  requests, and where the device may write.
\<close>

section \<open>Steps\<close>

text \<open>A timing transfer is one access of the port, made when it finishes. Restoring a checkpoint is not a step.\<close>

inductive npu_step :: "'b coral_backend \<Rightarrow> 'm dma_port \<Rightarrow> ('b, 'm) npu_device \<Rightarrow> ('b, 'm) npu_device \<Rightarrow> bool" for V P where
  step_read: "npu_read V now a n d = Some (r, d') \<Longrightarrow> npu_step V P d d'"
| step_write: "npu_write V P now a bs d = Some (ok, d') \<Longrightarrow> npu_step V P d d'"
| step_event: "backendEvent d = Some now \<Longrightarrow> processBackendEvent V P now d = Some d' \<Longrightarrow> npu_step V P d d'"
| step_transfer: "dmaTransferDone V P now d = Some d' \<Longrightarrow> npu_step V P d d'"
| step_drain: "npu_step V P d (d\<lparr> drainState := drain V d \<rparr>)"
| step_resume: "npu_step V P d (d\<lparr> drainState := Running \<rparr>)"

text \<open>The rest of the system may change the host memory at any time.\<close>

definition system_step ::
  "'b coral_backend \<Rightarrow> 'm dma_port \<Rightarrow> ('b, 'm) npu_device \<Rightarrow> ('b, 'm) npu_device \<Rightarrow> bool" where
  "system_step V P d d' \<longleftrightarrow> npu_step V P d d' \<or> (\<exists>m. d' = d\<lparr> hostMemory := m \<rparr>)"

section \<open>Invariant\<close>

definition event_of :: "'b coral_backend \<Rightarrow> 'b \<Rightarrow> u64 option" where
  "event_of V b = (if be_hasPendingEvent V b then Some (be_nextEventTick V b) else None)"

definition transfer_in_window :: "('b, 'm) npu_device \<Rightarrow> dma_transfer \<Rightarrow> bool" where
  "transfer_in_window d t \<longleftrightarrow>
     unat (tr_addr t - dmaSharedBase d) + unat (tr_size t) \<le> unat (dmaSharedSize d)"

text \<open>Between the operations; inside them a request of the backend may still wait to be started.\<close>

definition dma_ok :: "'b coral_backend \<Rightarrow> ('b \<Rightarrow> bool) \<Rightarrow> ('b, 'm) npu_device \<Rightarrow> bool" where
  "dma_ok V winv d \<longleftrightarrow> winv (backend d) \<and> (dmaActive d \<longrightarrow> be_hasDmaRequest V (backend d)) \<and>
     (dmaTransfer d = None) = (\<not> dmaActive d) \<and> (fastDma d \<longrightarrow> \<not> dmaActive d) \<and>
     dmaRequests d = dmaCompletions d + of_bool (dmaActive d) \<and>
     (\<forall>t. dmaTransfer d = Some t \<longrightarrow> transfer_in_window d t)"

definition npu_inv :: "'b coral_backend \<Rightarrow> ('b \<Rightarrow> bool) \<Rightarrow> ('b, 'm) npu_device \<Rightarrow> bool" where
  "npu_inv V winv d \<longleftrightarrow> dma_ok V winv d \<and> be_hasDmaRequest V (backend d) = dmaActive d \<and>
     backendEvent d = event_of V (backend d)"

section \<open>Fields the helpers keep\<close>

lemma sync_fields [simp]:
  "backend (syncBackendEvent V d) = backend d" "dmaActive (syncBackendEvent V d) = dmaActive d"
  "dmaTransfer (syncBackendEvent V d) = dmaTransfer d" "fastDma (syncBackendEvent V d) = fastDma d"
  "dmaRequests (syncBackendEvent V d) = dmaRequests d" "dmaCompletions (syncBackendEvent V d) = dmaCompletions d"
  "dmaSharedBase (syncBackendEvent V d) = dmaSharedBase d" "dmaSharedSize (syncBackendEvent V d) = dmaSharedSize d"
  "hostMemory (syncBackendEvent V d) = hostMemory d" "dmaErrors (syncBackendEvent V d) = dmaErrors d"
  "backendEvent (syncBackendEvent V d) = event_of V (backend d)"
  "fastDmaCache (syncBackendEvent V d) = fastDmaCache d" "fastDmaPageValid (syncBackendEvent V d) = fastDmaPageValid d"
  "fastDmaPageDirty (syncBackendEvent V d) = fastDmaPageDirty d" "drainState (syncBackendEvent V d) = drainState d"
  "fastDmaSyncOffset (syncBackendEvent V d) = fastDmaSyncOffset d" "fastDmaSyncSize (syncBackendEvent V d) = fastDmaSyncSize d"
  by (simp_all add: syncBackendEvent_def event_of_def Let_def)

lemma check_drain_fields [simp]:
  "backend (checkDrainDone V d) = backend d" "dmaActive (checkDrainDone V d) = dmaActive d"
  "dmaTransfer (checkDrainDone V d) = dmaTransfer d" "fastDma (checkDrainDone V d) = fastDma d"
  "dmaRequests (checkDrainDone V d) = dmaRequests d" "dmaCompletions (checkDrainDone V d) = dmaCompletions d"
  "dmaSharedBase (checkDrainDone V d) = dmaSharedBase d" "dmaSharedSize (checkDrainDone V d) = dmaSharedSize d"
  "hostMemory (checkDrainDone V d) = hostMemory d" "dmaErrors (checkDrainDone V d) = dmaErrors d"
  "backendEvent (checkDrainDone V d) = backendEvent d" "fastDmaCache (checkDrainDone V d) = fastDmaCache d"
  "fastDmaPageValid (checkDrainDone V d) = fastDmaPageValid d" "fastDmaPageDirty (checkDrainDone V d) = fastDmaPageDirty d"
  "fastDmaSyncOffset (checkDrainDone V d) = fastDmaSyncOffset d" "fastDmaSyncSize (checkDrainDone V d) = fastDmaSyncSize d"
  by (simp_all add: checkDrainDone_def)

text \<open>The fields the cache operations do not touch.\<close>

definition same_protocol :: "('b, 'm) npu_device \<Rightarrow> ('b, 'm) npu_device \<Rightarrow> bool" where
  "same_protocol d d' \<longleftrightarrow> backend d' = backend d \<and> dmaActive d' = dmaActive d \<and> dmaTransfer d' = dmaTransfer d \<and>
     fastDma d' = fastDma d \<and> dmaRequests d' = dmaRequests d \<and> dmaCompletions d' = dmaCompletions d \<and>
     dmaSharedBase d' = dmaSharedBase d \<and> dmaSharedSize d' = dmaSharedSize d \<and> backendEvent d' = backendEvent d"

lemma dma_ok_updates [simp]:
  "dma_ok V winv (d\<lparr> backendEvent := e \<rparr>) = dma_ok V winv d" "dma_ok V winv (d\<lparr> drainState := s \<rparr>) = dma_ok V winv d"
  "dma_ok V winv (d\<lparr> hostMemory := m \<rparr>) = dma_ok V winv d" "dma_ok V winv (syncBackendEvent V d) = dma_ok V winv d"
  "dma_ok V winv (checkDrainDone V d) = dma_ok V winv d" "dma_ok V winv (invalidateFastDmaCache d) = dma_ok V winv d"
  by (simp_all add: dma_ok_def transfer_in_window_def invalidateFastDmaCache_def)

lemma invalidate_fields [simp]:
  "backend (invalidateFastDmaCache d) = backend d" "dmaActive (invalidateFastDmaCache d) = dmaActive d"
  by (simp_all add: invalidateFastDmaCache_def)

lemma same_protocol_dma_ok: "same_protocol d d' \<Longrightarrow> dma_ok V winv d' = dma_ok V winv d"
  by (simp add: same_protocol_def dma_ok_def transfer_in_window_def)

lemma fillPage_protocol: "fillPage P page d = Some d' \<Longrightarrow> same_protocol d d'"
  by (auto simp: fillPage_def same_protocol_def split: if_splits bind_split_asm)

lemma fastDmaAccess_protocol: "fastDmaAccess P r a data d = Some (data', d') \<Longrightarrow> same_protocol d d'"
  by (auto simp: fastDmaAccess_def Let_def same_protocol_def split: if_splits bind_split_asm
      dest!: fillPage_protocol [unfolded same_protocol_def])

lemma flushPage_protocol: "flushPage P page d = Some d' \<Longrightarrow> same_protocol d d'"
  by (auto simp: flushPage_def same_protocol_def split: if_splits bind_split_asm)

lemma flush_protocol: "flushFastDmaCache P d = Some d' \<Longrightarrow> same_protocol d d'"
  unfolding flushFastDmaCache_def
  by (erule loop_invariant [where P = "same_protocol d"])
    (auto simp: same_protocol_def dest!: flushPage_protocol [unfolded same_protocol_def])

section \<open>Preservation\<close>

lemma not_outside_window:
  assumes "\<not> outside_window d r"
  shows "unat (cd_addr r - dmaExtmemBase d) + unat (cd_size r) \<le> unat (dmaSharedSize d)"
proof -
  have lt: "cd_addr r - dmaExtmemBase d < dmaSharedSize d" and le: "ucast (cd_size r) \<le> dmaSharedSize d - (cd_addr r - dmaExtmemBase d)"
    using assms by (simp_all add: outside_window_def not_le not_less)
  have "unat (ucast (cd_size r) :: u64) = unat (cd_size r)"
    by (simp add: unsigned_ucast_eq)
  then show ?thesis
    using lt le by (simp add: word_le_nat_alt word_less_nat_alt unat_sub)
qed

lemma complete_fastDma:
  "completeBackendDma V now data d = Some d' \<Longrightarrow> fastDma d' = fastDma d"
  "completeBackendDmaError V now d = Some d' \<Longrightarrow> fastDma d' = fastDma d"
  by (auto simp: completeBackendDma_def completeBackendDmaError_def split: if_splits bind_split_asm)

context coral_backend_laws begin

lemma complete_inv:
  assumes "completeBackendDma V now data d = Some d'" "wf (backend d)" "dmaTransfer d = None"
    and "dmaRequests d = dmaCompletions d + 1"
  shows "npu_inv V wf d' \<and> \<not> dmaActive d'"
  using assms complete_removes
  by (fastforce simp: completeBackendDma_def npu_inv_def dma_ok_def split: if_splits bind_split_asm)

lemma complete_error_inv:
  assumes "completeBackendDmaError V now d = Some d'" "dma_ok V wf d"
  shows "npu_inv V wf d' \<and> \<not> dmaActive d'"
  using assms complete_removes
  by (fastforce simp: completeBackendDmaError_def npu_inv_def dma_ok_def split: if_splits bind_split_asm)

text \<open>Starting a request leaves none waiting; the event is resynchronized by the caller.\<close>

lemma start_inv:
  assumes "startBackendDma V P now d = Some d'" "dma_ok V wf d"
  shows "dma_ok V wf d' \<and> be_hasDmaRequest V (backend d') = dmaActive d' \<and> fastDma d' = fastDma d"
proof (cases "dmaActive d \<or> \<not> be_hasDmaRequest V (backend d)")
  case True
  then show ?thesis using assms by (auto simp: startBackendDma_def dma_ok_def)
next
  case False
  then obtain r where r: "be_dmaRequest V (backend d) = Some r"
    using request_shape assms(2) by (auto simp: dma_ok_def)
  show ?thesis
  proof (cases "outside_window d r")
    case True
    then have "completeBackendDmaError V now d = Some d'" using assms(1) False r by (simp add: startBackendDma_def)
    then show ?thesis using complete_error_inv [OF _ assms(2)] complete_fastDma(2) unfolding npu_inv_def by blast
  next
    case win: False
    let ?d = "d\<lparr> dmaActive := True, dmaRequests := dmaRequests d + 1 \<rparr>"
    let ?a = "dmaSharedBase d + (cd_addr r - dmaExtmemBase d)"
    show ?thesis
    proof (cases "fastDma d")
      case True
      then obtain data d1 where d1: "fastDmaAccess P r ?a (cd_data r) ?d = Some (data, d1)"
        and c: "completeBackendDma V now data d1 = Some d'"
        using assms(1) False r win by (auto simp: startBackendDma_def Let_def split: bind_split_asm)
      have s: "same_protocol ?d d1" by (rule fastDmaAccess_protocol [OF d1])
      have "npu_inv V wf d' \<and> \<not> dmaActive d'"
        by (rule complete_inv [OF c]) (use s assms(2) False in \<open>auto simp: same_protocol_def dma_ok_def\<close>)
      moreover have "fastDma d' = fastDma d" using complete_fastDma(1) [OF c] s by (simp add: same_protocol_def)
      ultimately show ?thesis unfolding npu_inv_def by blast
    next
      case slow: False
      then have "d' = ?d\<lparr> dmaTransfer := Some \<lparr> tr_type = cd_type r, tr_addr = ?a, tr_size = cd_size r, tr_buffer = cd_data r \<rparr> \<rparr>"
        using assms(1) False r win by (simp add: startBackendDma_def)
      then show ?thesis using assms(2) False slow not_outside_window [OF win]
        by (simp add: dma_ok_def transfer_in_window_def)
    qed
  qed
qed

lemma batches_inv:
  assumes "eventBatches V P now n d = Some d'" "dma_ok V wf d" "be_hasDmaRequest V (backend d) = dmaActive d"
  shows "dma_ok V wf d' \<and> be_hasDmaRequest V (backend d') = dmaActive d'"
  using assms
proof (induction n arbitrary: d)
  case 0
  then show ?case by simp
next
  case (Suc n)
  obtain b d1 where b: "be_processEvent V now (backend d) = Some b"
    and d1: "startBackendDma V P now (d\<lparr> backend := b \<rparr>) = Some d1"
    and rest: "(if \<not> fastDma d1 \<or> dmaActive d1 \<or> \<not> be_hasPendingEvent V (backend d1) then Some d1
          else eventBatches V P now n (d1\<lparr> backendEvent := None \<rparr>)) = Some d'"
    using Suc.prems(1) by (auto split: bind_split_asm)
  have "dma_ok V wf (d\<lparr> backend := b \<rparr>)"
    using Suc.prems(2) process_keeps [OF _ b] by (auto simp: dma_ok_def transfer_in_window_def)
  then have i: "dma_ok V wf d1" "be_hasDmaRequest V (backend d1) = dmaActive d1" using start_inv [OF d1] by simp_all
  then have "dma_ok V wf (d1\<lparr> backendEvent := None \<rparr>)" by (simp add: dma_ok_def transfer_in_window_def)
  then show ?case using rest i Suc.IH [of "d1\<lparr> backendEvent := None \<rparr>"] by (auto split: if_splits)
qed

lemma sync_inv:
  assumes "dma_ok V wf d" "be_hasDmaRequest V (backend d) = dmaActive d"
  shows "npu_inv V wf (syncBackendEvent V d)" "npu_inv V wf (checkDrainDone V (syncBackendEvent V d))"
  using assms by (simp_all add: npu_inv_def)

lemma process_inv:
  assumes "processBackendEvent V P now d = Some d'" "npu_inv V wf d"
  shows "npu_inv V wf d'"
proof -
  obtain d1 d2 where d1: "eventBatches V P now (if fastDma d then unat (fastDmaEventBatch d) else 1) (d\<lparr> backendEvent := None \<rparr>) = Some d1"
    and d2: "(if fastDma d1 \<and> \<not> be_hasPendingEvent V (backend d1) \<and> \<not> be_hasDmaRequest V (backend d1)
                then if be_hasLocalExtmem V (backend d1) then syncLocalExtmemToHost V P d1 else flushFastDmaCache P d1
                else Some d1) = Some d2"
    and d': "d' = checkDrainDone V (syncBackendEvent V d2)"
    using assms(1) by (auto simp: processBackendEvent_def split: bind_split_asm)
  have "dma_ok V wf d1 \<and> be_hasDmaRequest V (backend d1) = dmaActive d1"
    by (rule batches_inv [OF d1]) (use assms(2) in \<open>auto simp: npu_inv_def dma_ok_def transfer_in_window_def\<close>)
  moreover have "dma_ok V wf d2 \<and> backend d2 = backend d1 \<and> dmaActive d2 = dmaActive d1" if "dma_ok V wf d1"
    using d2 that flush_protocol [of P d1 d2] same_protocol_dma_ok [of d1 d2]
    by (auto simp: syncLocalExtmemToHost_def dma_ok_def transfer_in_window_def same_protocol_def
      split: if_splits bind_split_asm)
  ultimately show ?thesis using sync_inv(2) d' by metis
qed

lemma write_inv:
  assumes "npu_write V P now a bs d = Some (ok, d')" "npu_inv V wf d"
  shows "npu_inv V wf d'"
proof -
  let ?c = "a - pioAddr d = kResetControlOffset \<and> length bs = 4"
  obtain d1 b where d1: "(if fastDma d \<and> be_hasLocalExtmem V (backend d) \<and> ?c \<and> (le_word bs :: u32) AND 0x3 = 0
      then syncHostToLocalExtmem V P d else Some d) = Some d1"
    and b: "be_write V now a bs (pioAddr d1) (backend d1) = Some (ok, b)"
    and d': "d' = syncBackendEvent V (if fastDma d1 \<and> ?c \<and> (le_word bs :: u32) AND 0x1 \<noteq> 0
      then invalidateFastDmaCache (d1\<lparr> backend := b \<rparr>) else d1\<lparr> backend := b \<rparr>)"
    using assms(1) by (auto simp: npu_write_def Let_def split: bind_split_asm)
  have i0: "dma_ok V wf d \<and> be_hasDmaRequest V (backend d) = dmaActive d"
    using assms(2) by (auto simp: npu_inv_def dma_ok_def)
  have "dma_ok V wf d1 \<and> be_hasDmaRequest V (backend d1) = dmaActive d1" if "syncHostToLocalExtmem V P d = Some d1"
    using that i0 local_write_keeps
    by (fastforce simp: syncHostToLocalExtmem_def dma_ok_def transfer_in_window_def split: if_splits bind_split_asm)
  then have i: "dma_ok V wf d1 \<and> be_hasDmaRequest V (backend d1) = dmaActive d1"
    using d1 i0 by (auto split: if_splits)
  then have "dma_ok V wf (d1\<lparr> backend := b \<rparr>) \<and> be_hasDmaRequest V b = dmaActive d1"
    using write_keeps [OF _ b] by (auto simp: dma_ok_def transfer_in_window_def)
  then show ?thesis using d' by (simp add: sync_inv(1))
qed

lemma read_inv:
  assumes "npu_read V now a n d = Some (r, d')" "npu_inv V wf d"
  shows "npu_inv V wf d'"
proof -
  have i: "dma_ok V wf d" "be_hasDmaRequest V (backend d) = dmaActive d"
    using assms(2) by (auto simp: npu_inv_def dma_ok_def)
  show ?thesis
  proof (cases "if n = 4 then shell_register V d (a - pioAddr d) else None")
    case (Some w)
    then show ?thesis using assms(1) sync_inv(1) [OF i] by (simp add: npu_read_def)
  next
    case None
    then obtain b where b: "be_read V now a n (pioAddr d) (backend d) = Some (r, b)"
      and d': "d' = syncBackendEvent V (d\<lparr> backend := b \<rparr>)"
      using assms(1) by (auto simp: npu_read_def split: bind_split_asm)
    have "dma_ok V wf (d\<lparr> backend := b \<rparr>) \<and> be_hasDmaRequest V b = dmaActive d"
      using i read_keeps [OF _ b] by (auto simp: dma_ok_def transfer_in_window_def)
    then show ?thesis using d' sync_inv(1) [of "d\<lparr> backend := b \<rparr>"] by simp
  qed
qed

lemma transfer_inv:
  assumes "dmaTransferDone V P now d = Some d'" "npu_inv V wf d"
  shows "npu_inv V wf d'"
proof -
  obtain t where t: "dmaTransfer d = Some t" using assms(1) by (auto simp: dmaTransferDone_def split: bind_split_asm)
  have pre: "wf (backend d)" "dmaRequests d = dmaCompletions d + 1"
    using assms(2) t by (auto simp: npu_inv_def dma_ok_def)
  obtain data m where "completeBackendDma V now data (d\<lparr> dmaTransfer := None, hostMemory := m \<rparr>) = Some d'"
    using assms(1) t by (cases d) (auto simp: dmaTransferDone_def Let_def split: bind_split_asm if_splits)
  then show ?thesis using complete_inv [of now data "d\<lparr> dmaTransfer := None, hostMemory := m \<rparr>" d'] pre by simp
qed

lemma step_inv:
  assumes "npu_step V P d d'" "npu_inv V wf d"
  shows "npu_inv V wf d'"
  using assms(1)
proof cases
  case step_read
  then show ?thesis by (rule read_inv [OF _ assms(2)])
next
  case step_write
  then show ?thesis by (rule write_inv [OF _ assms(2)])
next
  case step_event
  show ?thesis by (rule process_inv [OF step_event(2) assms(2)])
next
  case step_transfer
  then show ?thesis by (rule transfer_inv [OF _ assms(2)])
next
  case step_drain
  then show ?thesis using assms(2) by (simp add: npu_inv_def)
next
  case step_resume
  then show ?thesis using assms(2) by (simp add: npu_inv_def)
qed

lemma reachable_inv:
  assumes "rtranclp (system_step V P) d d'" "npu_inv V wf d"
  shows "npu_inv V wf d'"
  using assms
proof (induction)
  case (step d1 d2)
  have "npu_inv V wf d1" by (rule step.IH [OF step.prems])
  then show ?case using step.hyps(2) step_inv [of P d1 d2] by (auto simp: system_step_def npu_inv_def)
qed

text \<open>The checks of the completion hold in every state of the invariant.\<close>

lemma completion_accepted:
  assumes "npu_inv V wf d" "dmaTransfer d = Some t"
  shows "\<exists>r. be_dmaRequest V (backend d) = Some r \<and> dma_request_ok r \<and>
    (\<forall>now data m. completeBackendDma V now data (d\<lparr> dmaTransfer := None, hostMemory := m \<rparr>) = None \<longleftrightarrow>
      be_completeDma V now (Some data) (unat (cd_size r)) False (backend d) = None)"
proof -
  have a: "wf (backend d)" "be_hasDmaRequest V (backend d)" "dmaActive d"
    using assms by (auto simp: npu_inv_def dma_ok_def)
  obtain r where r: "be_dmaRequest V (backend d) = Some r" "dma_request_ok r" using request_shape [OF a(1,2)] by blast
  have "completeBackendDma V now data (d\<lparr> dmaTransfer := None, hostMemory := m \<rparr>) = None \<longleftrightarrow>
      be_completeDma V now (Some data) (unat (cd_size r)) False (backend d) = None" for now data m
    using a r complete_removes [OF a(1)] by (auto simp: completeBackendDma_def split: bind_splits)
  then show ?thesis using r by blast
qed

end

end
