(* ===== verification/NPU_Memory.thy ===== *)
theory NPU_Memory
  imports NPU_Invariant
begin

text \<open>
  The NPU device and the memory of the host: the chunked functional accesses are plain range
  accesses, the cache of the fast mode is a write-back cache of the shared window, and no step of the
  device writes outside the window.
\<close>

section \<open>Functional accesses\<close>

text \<open>
  What a functional access of the memory system does, over the byte at each address: a read that
  succeeds returns the bytes, a write that succeeds replaces them and nothing else.
\<close>

definition functional_memory :: "'m dma_port \<Rightarrow> ('m \<Rightarrow> u64 \<Rightarrow> u8) \<Rightarrow> bool" where
  "functional_memory P byte \<longleftrightarrow>
     (\<forall>m a n bs. port_read P m a n = Some bs \<longrightarrow> length bs = n \<and> (\<forall>i < n. bs ! i = byte m (a + of_nat i))) \<and>
     (\<forall>m a bs m'. port_write P m a bs = Some m' \<longrightarrow> length bs < 2 ^ 64 \<longrightarrow>
        (\<forall>x. byte m' x = (if unat (x - a) < length bs then bs ! unat (x - a) else byte m x)))"

lemma functional_memory_read:
  assumes "functional_memory P byte" "port_read P m a n = Some bs"
  shows "length bs = n" "i < n \<Longrightarrow> bs ! i = byte m (a + of_nat i)"
  using assms unfolding functional_memory_def by blast+

lemma functional_memory_write:
  assumes "functional_memory P byte" "port_write P m a bs = Some m'" "length bs < 2 ^ 64"
  shows "byte m' x = (if unat (x - a) < length bs then bs ! unat (x - a) else byte m x)"
  using assms unfolding functional_memory_def by blast

lemma block_chunk_le: "completed < n \<Longrightarrow> completed + block_chunk P a completed n \<le> n"
  by (simp add: block_chunk_def)

lemma functional_read_bytes:
  "functional_read P m a n c = Some bs \<Longrightarrow> functional_memory P byte \<Longrightarrow> c \<le> n \<Longrightarrow>
    length bs = n - c \<and> (\<forall>i < n - c. bs ! i = byte m (a + of_nat (c + i)))"
proof (induction P m a n c arbitrary: bs rule: functional_read.induct)
  case (1 P m a n c)
  show ?case
  proof (cases "c < n")
    case False
    have "bs = []" using 1(2) False by (subst (asm) functional_read.simps) (simp split: if_splits)
    then show ?thesis using 1(4) False by simp
  next
    case True
    then have z: "port_block P \<noteq> 0" using 1(2) by (subst (asm) functional_read.simps) (simp split: if_splits)
    let ?k = "block_chunk P a c n"
    obtain xs ys where xs: "port_read P m (a + of_nat c) ?k = Some xs"
      and ys: "functional_read P m a n (c + ?k) = Some ys" and bs: "bs = xs @ ys"
      using 1(2) True z by (subst (asm) functional_read.simps) (auto split: bind_split_asm)
    have k: "c + ?k \<le> n" by (rule block_chunk_le [OF True])
    note X = functional_memory_read [OF 1(3) xs]
    have Y: "length ys = n - (c + ?k) \<and> (\<forall>i < n - (c + ?k). ys ! i = byte m (a + of_nat (c + ?k + i)))"
      by (rule 1(1) [OF z True xs ys 1(3) k])
    have "bs ! i = byte m (a + of_nat (c + i))" if "i < n - c" for i
    proof (cases "i < ?k")
      case True
      then show ?thesis using X by (simp add: bs nth_append add.assoc)
    next
      case False
      then have "i - ?k < n - (c + ?k)" "c + ?k + (i - ?k) = c + i" using that by linarith+
      then show ?thesis using False X Y bs by (metis nth_append)
    qed
    then show ?thesis using X(1) Y k by (simp add: bs)
  qed
qed

lemma unat_shift:
  fixes x a :: u64
  assumes "c < 2 ^ 64" "k \<le> 2 ^ 64 - c"
  shows "unat (x - (a + of_nat c)) < k \<longleftrightarrow> c \<le> unat (x - a) \<and> unat (x - a) < c + k"
    and "c \<le> unat (x - a) \<Longrightarrow> unat (x - (a + of_nat c)) = unat (x - a) - c"
proof -
  have c: "unat (of_nat c :: u64) = c" using assms(1) by (intro unat_of_nat_nowrap) simp
  have e: "x - (a + of_nat c) = x - a - of_nat c" by simp
  show ge: "c \<le> unat (x - a) \<Longrightarrow> unat (x - (a + of_nat c)) = unat (x - a) - c"
    unfolding e using c by (subst unat_sub_le) (simp_all add: word_le_nat_alt)
  show "unat (x - (a + of_nat c)) < k \<longleftrightarrow> c \<le> unat (x - a) \<and> unat (x - a) < c + k"
  proof (cases "c \<le> unat (x - a)")
    case True
    then show ?thesis using ge by auto
  next
    case False
    have "unat (x - a - of_nat c) = 2 ^ 64 + unat (x - a) - c"
      using False c unat_sub_if' [of "x - a" "of_nat c"] unat_lt_pow2 [of "x - a"] by (simp add: word_le_nat_alt)
    then show ?thesis using False assms unfolding e by auto
  qed
qed

lemma functional_write_bytes:
  "functional_write P a bs c m = Some m' \<Longrightarrow> functional_memory P byte \<Longrightarrow> c \<le> length bs \<Longrightarrow> length bs < 2 ^ 64 \<Longrightarrow>
    byte m' x = (if c \<le> unat (x - a) \<and> unat (x - a) < length bs then bs ! unat (x - a) else byte m x)"
proof (induction P a bs c m rule: functional_write.induct)
  case (1 P a bs c m)
  show ?case
  proof (cases "c < length bs")
    case False
    then have "m' = m" using 1(2) by (subst (asm) functional_write.simps) (simp split: if_splits)
    then show ?thesis using False by auto
  next
    case True
    then have z: "port_block P \<noteq> 0" using 1(2) by (subst (asm) functional_write.simps) (simp split: if_splits)
    let ?k = "block_chunk P a c (length bs)"
    let ?ch = "take ?k (drop c bs)"
    obtain m1 where m1: "port_write P m (a + of_nat c) ?ch = Some m1"
      and r: "functional_write P a bs (c + ?k) m1 = Some m'"
      using 1(2) True z by (subst (asm) functional_write.simps) (auto split: bind_split_asm)
    have k: "c + ?k \<le> length bs" by (rule block_chunk_le [OF True])
    then have len: "length ?ch = ?k" by simp
    have lt: "length ?ch < 2 ^ 64" unfolding len using k 1(5) by linarith
    have IH: "byte m' x = (if c + ?k \<le> unat (x - a) \<and> unat (x - a) < length bs then bs ! unat (x - a) else byte m1 x)"
      by (rule 1(1) [OF z True m1 r 1(3) k 1(5)])
    have W: "byte m1 x = (if unat (x - (a + of_nat c)) < ?k then ?ch ! unat (x - (a + of_nat c)) else byte m x)"
      by (rule functional_memory_write [OF 1(3) m1 lt, unfolded len])
    have sh: "unat (x - (a + of_nat c)) < ?k \<longleftrightarrow> c \<le> unat (x - a) \<and> unat (x - a) < c + ?k"
      "c \<le> unat (x - a) \<Longrightarrow> unat (x - (a + of_nat c)) = unat (x - a) - c"
      using unat_shift [of c ?k x a] k 1(5) by auto
    show ?thesis
    proof (cases "c \<le> unat (x - a) \<and> unat (x - a) < c + ?k")
      case True
      then have "byte m1 x = bs ! unat (x - a)" using W sh k by simp
      then show ?thesis using IH True k by auto
    next
      case False
      then show ?thesis using IH W sh k by auto
    qed
  qed
qed

section \<open>The cache of the fast mode\<close>

text \<open>
  The contents of the shared window as the NPU sees it: the cache where a page is valid, the host
  memory elsewhere. A cache is coherent when it has the shape of the window, dirty pages are valid,
  and a valid page that is not dirty holds what is in memory.
\<close>

definition dma_view :: "('m \<Rightarrow> u64 \<Rightarrow> u8) \<Rightarrow> ('b, 'm) npu_device \<Rightarrow> nat \<Rightarrow> u8" where
  "dma_view byte d x = (if fastDmaPageValid d ! (x div 4096) then fastDmaCache d ! x
     else byte (hostMemory d) (dmaSharedBase d + of_nat x))"

definition cache_shape :: "('b, 'm) npu_device \<Rightarrow> bool" where
  "cache_shape d \<longleftrightarrow> length (fastDmaCache d) = unat (dmaSharedSize d) \<and>
     unat (dmaSharedSize d) \<le> 4096 * length (fastDmaPageValid d) \<and>
     length (fastDmaPageDirty d) = length (fastDmaPageValid d)"

definition cache_coherent :: "('m \<Rightarrow> u64 \<Rightarrow> u8) \<Rightarrow> ('b, 'm) npu_device \<Rightarrow> bool" where
  "cache_coherent byte d \<longleftrightarrow> cache_shape d \<and>
     (\<forall>p < length (fastDmaPageDirty d). fastDmaPageDirty d ! p \<longrightarrow> fastDmaPageValid d ! p) \<and>
     (\<forall>x < unat (dmaSharedSize d). fastDmaPageValid d ! (x div 4096) \<longrightarrow> \<not> fastDmaPageDirty d ! (x div 4096) \<longrightarrow>
        fastDmaCache d ! x = byte (hostMemory d) (dmaSharedBase d + of_nat x))"

lemma shared_page:
  assumes "cache_shape d" "x < unat (dmaSharedSize d)"
  shows "x div 4096 < length (fastDmaPageValid d)" "x div 4096 < length (fastDmaPageDirty d)"
  using assms by (auto simp: cache_shape_def less_mult_imp_div_less mult.commute)

lemma page_size_bound:
  assumes "cache_shape d" "page * 4096 \<le> x" "x < unat (dmaSharedSize d)" "x div 4096 = page"
  shows "x - page * 4096 < page_size d page"
  using assms by (auto simp: page_size_def kFastDmaPageSize_def cache_shape_def)

lemma store_bytes_nth:
  assumes "store_bytes m a bs = Some m'" "x < length m"
  shows "m' ! x = (if a \<le> x \<and> x < a + length bs then bs ! (x - a) else m ! x)" "length m' = length m"
proof -
  have le: "a + length bs \<le> length m" and m': "m' = take a m @ bs @ drop (a + length bs) m"
    using assms(1) by (auto simp: store_bytes_def split: if_splits)
  show "length m' = length m" using le by (simp add: m')
  show "m' ! x = (if a \<le> x \<and> x < a + length bs then bs ! (x - a) else m ! x)"
    using le assms(2) by (auto simp: m' nth_append)
qed

text \<open>Filling a page changes neither the view nor the coherence.\<close>

lemma fillPage_coherent:
  assumes "fillPage P page d = Some d'" "cache_coherent byte d" "functional_memory P byte"
    and "page < length (fastDmaPageValid d)"
  shows "cache_coherent byte d' \<and> fastDmaPageValid d' ! page \<and> dmaSharedSize d' = dmaSharedSize d \<and>
    dmaSharedBase d' = dmaSharedBase d \<and> hostMemory d' = hostMemory d \<and> fastDmaPageDirty d' = fastDmaPageDirty d \<and>
    length (fastDmaPageValid d') = length (fastDmaPageValid d) \<and>
    (\<forall>x < unat (dmaSharedSize d). dma_view byte d' x = dma_view byte d x)"
proof (cases "fastDmaPageValid d ! page")
  case True
  then show ?thesis using assms by (simp add: fillPage_def)
next
  case False
  let ?o = "page * 4096"
  obtain bs cache where bs: "functional_read P (hostMemory d) (dmaSharedBase d + of_nat ?o) (page_size d page) 0 = Some bs"
    and st: "store_bytes (fastDmaCache d) ?o bs = Some cache"
    and d': "d' = d\<lparr> fastDmaCache := cache, fastDmaPageValid := (fastDmaPageValid d)[page := True] \<rparr>"
    using assms(1) False by (auto simp: fillPage_def kFastDmaPageSize_def split: bind_split_asm)
  have sh: "cache_shape d" using assms(2) by (simp add: cache_coherent_def)
  have B: "length bs = page_size d page" "\<And>i. i < page_size d page \<Longrightarrow> bs ! i = byte (hostMemory d) (dmaSharedBase d + of_nat (?o + i))"
    using functional_read_bytes [OF bs assms(3)] by (simp_all add: add.assoc)
  have nd: "\<not> fastDmaPageDirty d ! page" if "page < length (fastDmaPageDirty d)"
    using that False assms(2) by (auto simp: cache_coherent_def)
  have C: "cache ! x = (if x div 4096 = page then byte (hostMemory d) (dmaSharedBase d + of_nat x) else fastDmaCache d ! x)"
    if x: "x < unat (dmaSharedSize d)" for x
  proof (cases "x div 4096 = page")
    case True
    then have ge: "?o \<le> x" by (metis mult.commute times_div_less_eq_dividend)
    have lt: "x - ?o < page_size d page" by (rule page_size_bound [OF sh ge x True])
    show ?thesis using store_bytes_nth(1) [OF st, of x] sh x ge lt B True by (auto simp: cache_shape_def)
  next
    case False
    have "\<not> (?o \<le> x \<and> x < ?o + length bs)"
    proof
      assume "?o \<le> x \<and> x < ?o + length bs"
      moreover have "length bs \<le> 4096" by (simp add: B(1) page_size_def kFastDmaPageSize_def)
      ultimately have "x div 4096 = page" by (intro div_nat_eqI) auto
      then show False using False by simp
    qed
    then show ?thesis using store_bytes_nth(1) [OF st, of x] sh x False by (auto simp: cache_shape_def)
  qed
  have len: "length cache = length (fastDmaCache d)" by (rule ram.wr_size [OF st])
  have "dma_view byte d' x = dma_view byte d x" if x: "x < unat (dmaSharedSize d)" for x
    using C [OF x] shared_page(1) [OF sh x] False by (auto simp: dma_view_def d' nth_list_update)
  moreover have "cache_coherent byte d'"
    using assms(2,4) sh C shared_page [OF sh] len unfolding cache_coherent_def d'
    by (auto simp: cache_shape_def nth_list_update)
  ultimately show ?thesis using assms(4) by (simp add: d')
qed

text \<open>One access, over the view.\<close>

lemma access_unfold:
  assumes "fastDmaAccess P r a data d = Some (data', d')" "o' = unat (a - dmaSharedBase d)" "n = unat (cd_size r)"
  obtains d1 where "fillPage P (o' div 4096) d = Some d1" "o' div 4096 < length (fastDmaPageValid d)" "n \<le> 4096 - o' mod 4096"
    "if cd_type r = Read then \<exists>bs. load_bytes (fastDmaCache d1) o' n = Some bs \<and> data' = bs @ drop n data \<and> d' = d1
     else \<exists>cache. store_bytes (fastDmaCache d1) o' (take n data) = Some cache \<and> n \<le> length data \<and> data' = data \<and>
       d' = d1\<lparr> fastDmaCache := cache, fastDmaPageDirty := (fastDmaPageDirty d1)[o' div 4096 := True] \<rparr>"
  using assms
  by (auto simp: fastDmaAccess_def Let_def kFastDmaPageSize_def load_bytes_def [of data] not_le not_less
    split: if_splits bind_split_asm)

lemma fastDmaAccess_view:
  assumes acc: "fastDmaAccess P r a data d = Some (data', d')"
    and coh: "cache_coherent byte d" and mem: "functional_memory P byte"
    and o': "o' = unat (a - dmaSharedBase d)" and n: "n = unat (cd_size r)" and win: "o' + n \<le> unat (dmaSharedSize d)"
  shows "cache_coherent byte d' \<and> dmaSharedSize d' = dmaSharedSize d \<and> dmaSharedBase d' = dmaSharedBase d \<and>
    (cd_type r = Read \<longrightarrow> take n data' = map (dma_view byte d) [o'..<o' + n]) \<and>
    (\<forall>x < unat (dmaSharedSize d). dma_view byte d' x =
      (if cd_type r = Write \<and> o' \<le> x \<and> x < o' + n then data ! (x - o') else dma_view byte d x))"
proof -
  obtain d1 where f: "fillPage P (o' div 4096) d = Some d1" and pg: "o' div 4096 < length (fastDmaPageValid d)"
    and fit: "n \<le> 4096 - o' mod 4096"
    and res: "if cd_type r = Read then \<exists>bs. load_bytes (fastDmaCache d1) o' n = Some bs \<and> data' = bs @ drop n data \<and> d' = d1
     else \<exists>cache. store_bytes (fastDmaCache d1) o' (take n data) = Some cache \<and> n \<le> length data \<and> data' = data \<and>
       d' = d1\<lparr> fastDmaCache := cache, fastDmaPageDirty := (fastDmaPageDirty d1)[o' div 4096 := True] \<rparr>"
    by (rule access_unfold [OF acc o' n])
  note F = fillPage_coherent [OF f coh mem pg]
  have sh: "cache_shape d1" using F by (simp add: cache_coherent_def)
  have inpage: "x div 4096 = o' div 4096" if "o' \<le> x" "x < o' + n" for x
  proof (rule div_nat_eqI)
    show "4096 * (o' div 4096) \<le> x" using that(1) by (metis le_trans times_div_less_eq_dividend)
    have "o' = 4096 * (o' div 4096) + o' mod 4096" by simp
    moreover have "o' mod 4096 < 4096" by simp
    ultimately show "x < 4096 * Suc (o' div 4096)" using that(2) fit by (simp only: mult_Suc_right)
  qed
  show ?thesis
  proof (cases "cd_type r")
    case Read
    then obtain bs where bs: "load_bytes (fastDmaCache d1) o' n = Some bs" "data' = bs @ drop n data" "d' = d1"
      using res by auto
    have len: "length bs = n" by (rule ram.rd_length [OF bs(1)])
    have "bs ! i = dma_view byte d (o' + i)" if i: "i < n" for i
    proof -
      have "bs ! i = fastDmaCache d1 ! (o' + i)"
        using bs(1) i by (auto simp: load_bytes_def split: if_splits)
      also have "\<dots> = dma_view byte d1 (o' + i)" using F inpage [of "o' + i"] i by (simp add: dma_view_def)
      also have "\<dots> = dma_view byte d (o' + i)" using F i win by simp
      finally show ?thesis .
    qed
    then have "bs = map (dma_view byte d) [o'..<o' + n]" using len by (intro nth_equalityI) simp_all
    then show ?thesis using F bs(2,3) len Read by auto
  next
    case Write
    then obtain cache where c: "store_bytes (fastDmaCache d1) o' (take n data) = Some cache" "n \<le> length data"
      "d' = d1\<lparr> fastDmaCache := cache, fastDmaPageDirty := (fastDmaPageDirty d1)[o' div 4096 := True] \<rparr>"
      using res by auto
    have lt: "length (take n data) = n" using c(2) by simp
    have C: "cache ! x = (if o' \<le> x \<and> x < o' + n then data ! (x - o') else fastDmaCache d1 ! x)"
      if "x < unat (dmaSharedSize d1)" for x
      using store_bytes_nth(1) [OF c(1), of x] sh that lt by (auto simp: cache_shape_def)
    have len: "length cache = length (fastDmaCache d1)" by (rule ram.wr_size [OF c(1)])
    have "dma_view byte d' x = (if o' \<le> x \<and> x < o' + n then data ! (x - o') else dma_view byte d x)"
      if x: "x < unat (dmaSharedSize d)" for x
      using C [of x] F x inpage [of x] by (auto simp: dma_view_def c(3))
    moreover have "cache_coherent byte d'"
      unfolding cache_coherent_def
    proof (intro conjI allI impI)
      show "cache_shape d'" using sh len by (simp add: c(3) cache_shape_def)
      show "fastDmaPageValid d' ! p" if "p < length (fastDmaPageDirty d')" "fastDmaPageDirty d' ! p" for p
        using that F pg sh by (auto simp: c(3) nth_list_update cache_coherent_def cache_shape_def split: if_splits)
      show "fastDmaCache d' ! x = byte (hostMemory d') (dmaSharedBase d' + of_nat x)"
        if x: "x < unat (dmaSharedSize d')" "fastDmaPageValid d' ! (x div 4096)" "\<not> fastDmaPageDirty d' ! (x div 4096)" for x
      proof -
        have x1: "x < unat (dmaSharedSize d1)" using x(1) by (simp add: c(3))
        have ne: "x div 4096 \<noteq> o' div 4096" using x(3) shared_page(2) [OF sh x1] by (auto simp: c(3))
        then have "cache ! x = fastDmaCache d1 ! x" using C [OF x1] inpage [of x] by auto
        then show ?thesis using x ne F by (simp add: c(3) cache_coherent_def)
      qed
    qed
    ultimately show ?thesis using F Write by (simp add: c(3))
  qed
qed

section \<open>Writing back\<close>

definition flushed_upto :: "('m \<Rightarrow> u64 \<Rightarrow> u8) \<Rightarrow> ('b, 'm) npu_device \<Rightarrow> nat \<Rightarrow> ('b, 'm) npu_device \<Rightarrow> bool" where
  "flushed_upto byte d k d' \<longleftrightarrow> cache_coherent byte d' \<and> dmaSharedSize d' = dmaSharedSize d \<and>
     dmaSharedBase d' = dmaSharedBase d \<and> length (fastDmaPageDirty d') = length (fastDmaPageDirty d) \<and>
     (\<forall>p < k. p < length (fastDmaPageDirty d) \<longrightarrow> \<not> fastDmaPageDirty d' ! p) \<and>
     (\<forall>x < unat (dmaSharedSize d). dma_view byte d' x = dma_view byte d x)"

lemma page_of_window:
  assumes "cache_shape d" "page * 4096 \<le> x" "x < page * 4096 + page_size d page"
  shows "x < unat (dmaSharedSize d)" "x div 4096 = page"
proof -
  have "page_size d page \<le> 4096" "page_size d page \<le> length (fastDmaCache d) - page * 4096"
    by (simp_all add: page_size_def kFastDmaPageSize_def)
  then show "x < unat (dmaSharedSize d)" using assms by (auto simp: cache_shape_def)
  show "x div 4096 = page" using assms \<open>page_size d page \<le> 4096\<close> by (intro div_nat_eqI) auto
qed

lemma window_address:
  assumes "x < unat (dmaSharedSize d)"
  shows "unat (dmaSharedBase d + of_nat x - dmaSharedBase d) = x"
  using assms unat_lt_pow2 [of "dmaSharedSize d"] by (simp add: unat_of_nat_nowrap)

lemma flushPage_step:
  assumes fl: "flushPage P page d = Some d'" and coh: "cache_coherent byte d" and mem: "functional_memory P byte"
    and pg: "page < length (fastDmaPageDirty d)"
  shows "cache_coherent byte d' \<and> dmaSharedSize d' = dmaSharedSize d \<and> dmaSharedBase d' = dmaSharedBase d \<and>
    fastDmaPageDirty d' = (fastDmaPageDirty d)[page := False] \<and>
    (\<forall>x < unat (dmaSharedSize d). dma_view byte d' x = dma_view byte d x)"
proof (cases "fastDmaPageDirty d ! page")
  case False
  then have "(fastDmaPageDirty d)[page := False] = fastDmaPageDirty d" by (metis list_update_id)
  then show ?thesis using fl False coh by (simp add: flushPage_def)
next
  case True
  let ?o = "page * 4096" and ?n = "page_size d page"
  obtain bs m where bs: "load_bytes (fastDmaCache d) ?o ?n = Some bs"
    and m: "functional_write P (dmaSharedBase d + of_nat ?o) bs 0 (hostMemory d) = Some m"
    and d': "d' = d\<lparr> hostMemory := m, fastDmaPageDirty := (fastDmaPageDirty d)[page := False] \<rparr>"
    using fl True by (auto simp: flushPage_def kFastDmaPageSize_def split: bind_split_asm)
  have sh: "cache_shape d" and val: "fastDmaPageValid d ! page"
    using coh True pg by (auto simp: cache_coherent_def)
  have len: "length bs = ?n" "?n \<le> 4096" by (rule ram.rd_length [OF bs]) (simp add: page_size_def kFastDmaPageSize_def)
  have le: "?o + ?n \<le> length (fastDmaCache d)" using bs by (auto simp: load_bytes_def split: if_splits)
  have M: "byte m (dmaSharedBase d + of_nat x) =
      (if x div 4096 = page then fastDmaCache d ! x else byte (hostMemory d) (dmaSharedBase d + of_nat x))"
    if x: "x < unat (dmaSharedSize d)" for x
  proof -
    let ?a = "dmaSharedBase d + of_nat x"
    have sz: "length (fastDmaCache d) = unat (dmaSharedSize d)" using sh by (simp add: cache_shape_def)
    have ol: "?o < 2 ^ 64" "?n \<le> 2 ^ 64 - ?o" using le sz unat_lt_pow2 [of "dmaSharedSize d"] x by auto
    have u: "unat (?a - dmaSharedBase d) = x" by (rule window_address [OF x])
    have s: "unat (?a - (dmaSharedBase d + of_nat ?o)) < ?n \<longleftrightarrow> ?o \<le> x \<and> x < ?o + ?n"
      "?o \<le> x \<Longrightarrow> unat (?a - (dmaSharedBase d + of_nat ?o)) = x - ?o"
      using unat_shift [OF ol, of ?a "dmaSharedBase d"] unfolding u by blast+
    have w: "byte m ?a = (if unat (?a - (dmaSharedBase d + of_nat ?o)) < ?n
        then bs ! unat (?a - (dmaSharedBase d + of_nat ?o)) else byte (hostMemory d) ?a)"
      using functional_write_bytes [OF m mem, of ?a] len by simp
    show ?thesis
    proof (cases "x div 4096 = page")
      case True
      then have ge: "?o \<le> x" by (metis mult.commute times_div_less_eq_dividend)
      have "x - ?o < ?n" by (rule page_size_bound [OF sh ge x True])
      then show ?thesis using w s ge True bs by (auto simp: load_bytes_def split: if_splits)
    next
      case False
      then show ?thesis using w s page_of_window(2) [OF sh, of page x] by auto
    qed
  qed
  have "dma_view byte d' x = dma_view byte d x" if "x < unat (dmaSharedSize d)" for x
    using M [OF that] val by (auto simp: dma_view_def d')
  moreover have "cache_coherent byte d'"
    using coh M shared_page(2) [OF sh] pg unfolding cache_coherent_def d'
    by (auto simp: cache_shape_def nth_list_update split: if_splits)
  ultimately show ?thesis by (simp add: d')
qed

lemma flush_view:
  assumes fl: "flushFastDmaCache P d = Some d'" and coh: "cache_coherent byte d" and mem: "functional_memory P byte"
  shows "cache_coherent byte d' \<and> (\<forall>x < unat (dmaSharedSize d). dma_view byte d' x = dma_view byte d x \<and>
    byte (hostMemory d') (dmaSharedBase d + of_nat x) = dma_view byte d x)"
proof -
  have "loop (flushPage P) [0..<k] d = Some d1 \<Longrightarrow> k \<le> length (fastDmaPageDirty d) \<Longrightarrow> flushed_upto byte d k d1" for k d1
  proof (induction k arbitrary: d1)
    case 0
    then show ?case using coh by (simp add: flushed_upto_def)
  next
    case (Suc k)
    obtain d2 where d2: "loop (flushPage P) [0..<k] d = Some d2" and s: "flushPage P k d2 = Some d1"
      using Suc.prems(1) by (auto simp: loop_append split: bind_split_asm)
    have IH: "flushed_upto byte d k d2" using Suc.IH [OF d2] Suc.prems(2) by simp
    have "cache_coherent byte d2" "k < length (fastDmaPageDirty d2)" using IH Suc.prems(2) by (auto simp: flushed_upto_def)
    from flushPage_step [OF s this(1) mem this(2)] IH show ?case
      by (auto simp: flushed_upto_def nth_list_update less_Suc_eq)
  qed
  then have F: "flushed_upto byte d (length (fastDmaPageDirty d)) d'"
    using fl by (simp add: flushFastDmaCache_def)
  have sh: "cache_shape d" using coh by (simp add: cache_coherent_def)
  have "byte (hostMemory d') (dmaSharedBase d + of_nat x) = dma_view byte d x" if x: "x < unat (dmaSharedSize d)" for x
  proof -
    have nd: "\<not> fastDmaPageDirty d' ! (x div 4096)" using F shared_page(2) [OF sh x] by (auto simp: flushed_upto_def)
    have "dma_view byte d' x = byte (hostMemory d') (dmaSharedBase d' + of_nat x)"
      unfolding dma_view_def using F nd x by (auto simp: flushed_upto_def cache_coherent_def)
    then show ?thesis using F x by (simp add: flushed_upto_def)
  qed
  then show ?thesis using F by (simp add: flushed_upto_def)
qed

section \<open>The cache refines the memory\<close>

text \<open>
  A sequence of functional requests as the device serves them, with the answers to the reads; and the
  same on a plain memory of the window.
\<close>

primrec fast_run ::
  "'m dma_port \<Rightarrow> CoralDmaRequest list \<Rightarrow> ('b, 'm) npu_device \<Rightarrow> (bytes list \<times> ('b, 'm) npu_device) option" where
  "fast_run P [] d = Some ([], d)"
| "fast_run P (r # rs) d =
     do { (data, d) \<leftarrow> fastDmaAccess P r (dmaSharedBase d + (cd_addr r - dmaExtmemBase d)) (cd_data r) d;
          (as, d) \<leftarrow> fast_run P rs d;
          Some (if cd_type r = Read then take (unat (cd_size r)) data # as else as, d) }"

definition plain_access :: "u64 \<Rightarrow> CoralDmaRequest \<Rightarrow> (nat \<Rightarrow> u8) \<Rightarrow> nat \<Rightarrow> u8" where
  "plain_access ebase r mem = (let o' = unat (cd_addr r - ebase); n = unat (cd_size r) in
     (\<lambda>x. if cd_type r = Write \<and> o' \<le> x \<and> x < o' + n then cd_data r ! (x - o') else mem x))"

primrec plain_answers :: "u64 \<Rightarrow> CoralDmaRequest list \<Rightarrow> (nat \<Rightarrow> u8) \<Rightarrow> bytes list" where
  "plain_answers ebase [] mem = []"
| "plain_answers ebase (r # rs) mem =
     (let o' = unat (cd_addr r - ebase); n = unat (cd_size r); as = plain_answers ebase rs (plain_access ebase r mem) in
      if cd_type r = Read then map mem [o'..<o' + n] # as else as)"

lemma fastDmaAccess_extmem: "fastDmaAccess P r a data d = Some (data', d') \<Longrightarrow> dmaExtmemBase d' = dmaExtmemBase d"
  by (auto simp: fastDmaAccess_def fillPage_def Let_def split: if_splits bind_split_asm)

lemma plain_access_cong:
  assumes "\<forall>x < N. f x = g x" "x < N"
  shows "plain_access ebase r f x = plain_access ebase r g x"
  using assms by (simp add: plain_access_def Let_def)

lemma fold_plain_cong:
  assumes "\<forall>x < N. f x = g x" "x < N"
  shows "fold (plain_access ebase) rs f x = fold (plain_access ebase) rs g x"
  using assms
proof (induction rs arbitrary: f g)
  case (Cons r rs)
  then show ?case using plain_access_cong [of N f g] by simp
qed simp

lemma plain_answers_cong:
  assumes "\<forall>x < N. f x = g x" "\<forall>r \<in> set rs. unat (cd_addr r - ebase) + unat (cd_size r) \<le> N"
  shows "plain_answers ebase rs f = plain_answers ebase rs g"
  using assms
proof (induction rs arbitrary: f g)
  case (Cons r rs)
  have "plain_answers ebase rs (plain_access ebase r f) = plain_answers ebase rs (plain_access ebase r g)"
    using Cons.IH plain_access_cong [of N f g] Cons.prems by simp
  moreover have "map f [unat (cd_addr r - ebase)..<unat (cd_addr r - ebase) + unat (cd_size r)] =
      map g [unat (cd_addr r - ebase)..<unat (cd_addr r - ebase) + unat (cd_size r)]"
    using Cons.prems by simp
  ultimately show ?case by (simp add: Let_def)
qed simp

lemma fast_run_refines:
  assumes "fast_run P rs d = Some (as, d')" "cache_coherent byte d" "functional_memory P byte"
    and "\<forall>r \<in> set rs. \<not> outside_window d r"
  shows "cache_coherent byte d' \<and> dmaSharedSize d' = dmaSharedSize d \<and> dmaSharedBase d' = dmaSharedBase d \<and>
    as = plain_answers (dmaExtmemBase d) rs (dma_view byte d) \<and>
    (\<forall>x < unat (dmaSharedSize d). dma_view byte d' x = fold (plain_access (dmaExtmemBase d)) rs (dma_view byte d) x)"
  using assms
proof (induction rs arbitrary: d as)
  case Nil
  then show ?case by simp
next
  case (Cons r rs)
  let ?E = "dmaExtmemBase d"
  obtain data d1 as1 where acc: "fastDmaAccess P r (dmaSharedBase d + (cd_addr r - ?E)) (cd_data r) d = Some (data, d1)"
    and run: "fast_run P rs d1 = Some (as1, d')"
    and as: "as = (if cd_type r = Read then take (unat (cd_size r)) data # as1 else as1)"
    using Cons.prems(1) by (auto split: bind_split_asm)
  let ?o = "unat (cd_addr r - ?E)" and ?n = "unat (cd_size r)"
  have win: "?o + ?n \<le> unat (dmaSharedSize d)" using Cons.prems(4) not_outside_window [of d r] by simp
  have o': "?o = unat (dmaSharedBase d + (cd_addr r - ?E) - dmaSharedBase d)" by simp
  note A = fastDmaAccess_view [OF acc Cons.prems(2,3) o' refl win]
  have E: "dmaExtmemBase d1 = ?E" by (rule fastDmaAccess_extmem [OF acc])
  have "\<forall>r \<in> set rs. \<not> outside_window d1 r" using Cons.prems(4) A E by (simp add: outside_window_def)
  note B = Cons.IH [OF run conjunct1 [OF A] Cons.prems(3) this, unfolded E]
  have V: "\<forall>x < unat (dmaSharedSize d). dma_view byte d1 x = plain_access ?E r (dma_view byte d) x"
    using A by (simp add: plain_access_def Let_def)
  have ws: "\<forall>r \<in> set rs. unat (cd_addr r - ?E) + unat (cd_size r) \<le> unat (dmaSharedSize d)"
    using Cons.prems(4) not_outside_window [of d] by simp
  show ?case
    using A B as plain_answers_cong [OF V ws] fold_plain_cong [OF V] by (auto simp: Let_def)
qed

text \<open>
  C8: The cache of the functional DMA mode refines the memory of the shared window. Starting from an
  invalidated cache, for any sequence of requests inside the window: every read returns the bytes a
  plain memory with the preceding writes holds, and after the cache is flushed the host memory of the
  window is that plain memory.
\<close>

theorem dma_cache_refines_memory:
  assumes "functional_memory P byte" "cache_shape d" "True \<notin> set (fastDmaPageValid d)" "True \<notin> set (fastDmaPageDirty d)"
    and "\<forall>r \<in> set rs. \<not> outside_window d r"
    and "fast_run P rs d = Some (as, d1)" "flushFastDmaCache P d1 = Some d2"
  shows "as = plain_answers (dmaExtmemBase d) rs (\<lambda>x. byte (hostMemory d) (dmaSharedBase d + of_nat x)) \<and>
    (\<forall>x < unat (dmaSharedSize d). byte (hostMemory d2) (dmaSharedBase d + of_nat x) =
      fold (plain_access (dmaExtmemBase d)) rs (\<lambda>x. byte (hostMemory d) (dmaSharedBase d + of_nat x)) x)"
proof -
  let ?m = "\<lambda>x. byte (hostMemory d) (dmaSharedBase d + of_nat x)"
  have v: "\<not> fastDmaPageValid d ! p" if "p < length (fastDmaPageValid d)" for p
    using that assms(3) by (metis nth_mem)
  have dirty: "\<not> fastDmaPageDirty d ! p" if "p < length (fastDmaPageDirty d)" for p
    using that assms(4) by (metis nth_mem)
  have coh: "cache_coherent byte d"
    using assms(2) v dirty shared_page [OF assms(2)] by (auto simp: cache_coherent_def)
  have V: "\<forall>x < unat (dmaSharedSize d). dma_view byte d x = ?m x"
    using v shared_page [OF assms(2)] by (auto simp: dma_view_def)
  have ws: "\<forall>r \<in> set rs. unat (cd_addr r - dmaExtmemBase d) + unat (cd_size r) \<le> unat (dmaSharedSize d)"
    using assms(5) not_outside_window [of d] by simp
  note R = fast_run_refines [OF assms(6) coh assms(1,5)]
  note F = flush_view [OF assms(7) conjunct1 [OF R] assms(1)]
  show ?thesis
    using R F plain_answers_cong [OF V ws] fold_plain_cong [OF V] by auto
qed

text \<open>A memory that answers every access.\<close>

definition flat_port :: "(u64 \<Rightarrow> u8) dma_port" where
  "flat_port = \<lparr> port_read = (\<lambda>m a n. Some (map (\<lambda>i. m (a + of_nat i)) [0..<n])),
     port_write = (\<lambda>m a bs. Some (\<lambda>x. if unat (x - a) < length bs then bs ! unat (x - a) else m x)), port_block = 64 \<rparr>"

lemma flat_port_memory: "functional_memory flat_port (\<lambda>m. m)"
  by (simp add: functional_memory_def flat_port_def)

lemma flat_port_fields [simp]:
  "port_block flat_port = 64" "port_read flat_port m a n = Some (map (\<lambda>i. m (a + of_nat i)) [0..<n])"
  "port_write flat_port m a bs = Some (\<lambda>x. if unat (x - a) < length bs then bs ! unat (x - a) else m x)"
  by (simp_all add: flat_port_def)

definition window_example :: "(unit, u64 \<Rightarrow> u8) npu_device" where
  "window_example = \<lparr> pioAddr = 0, pioSize = 0x31000, pioDelay = 1, dmaExtmemBase = 0x20000000,
     dmaSharedBase = 0x80000000, dmaSharedSize = 8, fastDma = True, fastDmaEventBatch = 1, fastDmaSyncOffset = 0,
     fastDmaSyncSize = 0, backendId = 0, firmwareEntry = 0, dmaActive = False, dmaRequests = 0, dmaCompletions = 0,
     dmaErrors = 0, fastDmaCache = replicate 8 0, fastDmaPageValid = [False], fastDmaPageDirty = [False], backend = (),
     backendEvent = None, drainState = Running, dmaTransfer = None, hostMemory = (\<lambda>_. 5) \<rparr>"

definition write_request_example :: CoralDmaRequest where
  "write_request_example = \<lparr> cd_type = Write, cd_addr = 0x20000002, cd_size = 2, cd_data = [7, 9] \<rparr>"

definition read_request_example :: CoralDmaRequest where
  "read_request_example = \<lparr> cd_type = Read, cd_addr = 0x20000001, cd_size = 3, cd_data = [0, 0, 0] \<rparr>"

lemma flat_read_8: "functional_read flat_port m 0x80000000 8 0 = Some (map (\<lambda>i. m (0x80000000 + of_nat i)) [0..<8])"
  by (subst functional_read.simps, simp add: block_chunk_def, subst functional_read.simps, simp)

lemma flat_write_8:
  "length bs = 8 \<Longrightarrow> functional_write flat_port 0x80000000 bs 0 m =
    Some (\<lambda>x. if unat (x - 0x80000000) < 8 then bs ! unat (x - 0x80000000) else m x)"
  by (subst functional_write.simps, simp add: block_chunk_def, subst functional_write.simps, simp)

theorem dma_cache_refines_memory_witness:
  "\<exists>as d1 d2. fast_run flat_port [write_request_example, read_request_example] window_example = Some (as, d1) \<and>
    flushFastDmaCache flat_port d1 = Some d2 \<and> as = [[5, 7, 9]] \<and> hostMemory d2 0x80000003 = 9 \<and> hostMemory d2 0x80000004 = 5"
proof -
  let ?rs = "[write_request_example, read_request_example]"
  have "\<exists>as d1. fast_run flat_port ?rs window_example = Some (as, d1) \<and> length (fastDmaCache d1) = 8 \<and>
      length (fastDmaPageDirty d1) = 1 \<and> dmaSharedBase d1 = 0x80000000"
    by (simp add: window_example_def write_request_example_def read_request_example_def fastDmaAccess_def fillPage_def
      page_size_def kFastDmaPageSize_def flat_read_8 store_bytes_def load_bytes_def)
  then obtain as d1 where run: "fast_run flat_port ?rs window_example = Some (as, d1)"
    and d1: "length (fastDmaCache d1) = 8" "length (fastDmaPageDirty d1) = 1" "dmaSharedBase d1 = 0x80000000" by blast
  obtain d2 where fl: "flushFastDmaCache flat_port d1 = Some d2"
    using d1 by (cases "fastDmaPageDirty d1 ! 0")
      (auto simp: flushFastDmaCache_def flushPage_def page_size_def kFastDmaPageSize_def load_bytes_def flat_write_8)
  have sh: "cache_shape window_example" "True \<notin> set (fastDmaPageValid window_example)" "True \<notin> set (fastDmaPageDirty window_example)"
    "\<forall>r \<in> set ?rs. \<not> outside_window window_example r"
    by (simp_all add: cache_shape_def window_example_def outside_window_def write_request_example_def read_request_example_def word_le_nat_alt word_less_nat_alt)
  note T = dma_cache_refines_memory [OF flat_port_memory sh run fl]
  have "as = [[5, 7, 9]]" using conjunct1 [OF T]
    by (simp add: window_example_def write_request_example_def read_request_example_def plain_access_def upt_rec)
  moreover have "hostMemory d2 0x80000003 = 9" "hostMemory d2 0x80000004 = 5"
    using spec [OF conjunct2 [OF T], of 3] spec [OF conjunct2 [OF T], of 4]
    by (simp_all add: window_example_def write_request_example_def read_request_example_def plain_access_def)
  ultimately show ?thesis using run fl by blast
qed

end
