(* ===== verification/NPU_Safety.thy ===== *)
theory NPU_Safety
  imports NPU_Memory
begin

text \<open>
  What every step of the NPU device leaves alone: the host memory outside the shared window, for any
  backend that keeps the contract; the accounting of the requests over all runs; and a drain that
  never ends.
\<close>

section \<open>The window\<close>

definition in_shared :: "('b, 'm) npu_device \<Rightarrow> u64 \<Rightarrow> bool" where
  "in_shared d x \<longleftrightarrow> unat (x - dmaSharedBase d) < unat (dmaSharedSize d)"

text \<open>The configuration the constructor checks, and that the size of the cache is that of the window.\<close>

definition window_ok :: "'b coral_backend \<Rightarrow> ('b, 'm) npu_device \<Rightarrow> bool" where
  "window_ok V d \<longleftrightarrow> (fastDma d \<longrightarrow> length (fastDmaCache d) = unat (dmaSharedSize d) \<and>
     (be_hasLocalExtmem V (backend d) \<longrightarrow>
        unat (fastDmaSyncOffset d) + unat (fastDmaSyncSize d) \<le> unat (dmaSharedSize d)))"

definition window_frame ::
  "'b coral_backend \<Rightarrow> ('m \<Rightarrow> u64 \<Rightarrow> u8) \<Rightarrow> ('b, 'm) npu_device \<Rightarrow> ('b, 'm) npu_device \<Rightarrow> bool" where
  "window_frame V byte d d' \<longleftrightarrow> dmaSharedBase d' = dmaSharedBase d \<and> dmaSharedSize d' = dmaSharedSize d \<and>
     fastDma d' = fastDma d \<and> fastDmaSyncOffset d' = fastDmaSyncOffset d \<and> fastDmaSyncSize d' = fastDmaSyncSize d \<and>
     length (fastDmaCache d') = length (fastDmaCache d) \<and>
     be_hasLocalExtmem V (backend d') = be_hasLocalExtmem V (backend d) \<and>
     (\<forall>x. \<not> in_shared d x \<longrightarrow> byte (hostMemory d') x = byte (hostMemory d) x)"

lemma window_frame_refl [simp]: "window_frame V byte d d"
  by (simp add: window_frame_def)

lemma window_frame_trans:
  "window_frame V byte d d1 \<Longrightarrow> window_frame V byte d1 d2 \<Longrightarrow> window_frame V byte d d2"
  by (simp add: window_frame_def in_shared_def)

lemma window_frame_ok: "window_frame V byte d d' \<Longrightarrow> window_ok V d \<Longrightarrow> window_ok V d'"
  by (simp add: window_frame_def window_ok_def)

lemma window_frame_updates [simp]:
  "window_frame V byte d (syncBackendEvent V d') = window_frame V byte d d'"
  "window_frame V byte d (checkDrainDone V d') = window_frame V byte d d'"
  "window_frame V byte d (d'\<lparr> backendEvent := e \<rparr>) = window_frame V byte d d'"
  "window_frame V byte d (d'\<lparr> dmaTransfer := t \<rparr>) = window_frame V byte d d'"
  "window_frame V byte d (d'\<lparr> dmaActive := b, dmaRequests := k \<rparr>) = window_frame V byte d d'"
  "window_frame V byte d (d'\<lparr> drainState := s \<rparr>) = window_frame V byte d d'"
  by (simp_all add: window_frame_def)

text \<open>A range write inside the window.\<close>

lemma range_in_window:
  fixes org :: u64
  assumes "unat (a - org) + n \<le> N" "N \<le> 2 ^ 64" "unat (x - a) < n"
  shows "unat (x - org) < N"
proof -
  have e: "x - org = (x - a) + (a - org)" by simp
  have "unat (x - org) = unat (x - a) + unat (a - org)"
    unfolding e by (rule unat_add_nowrap) (use assms in simp)
  then show ?thesis using assms by linarith
qed

lemma port_write_frame:
  assumes "functional_memory P byte" "port_write P m a bs = Some m'"
    and "unat (a - org) + length bs \<le> unat (N :: u64)" "\<not> unat (x - org) < unat N"
  shows "byte m' x = byte m x"
proof -
  have N: "unat N < 2 ^ 64" using unat_lt_pow2 [of N] by simp
  have "\<not> unat (x - a) < length bs" using range_in_window [of a org "length bs" "unat N" x] assms(3,4) N by linarith
  then show ?thesis using functional_memory_write [OF assms(1,2), of x] assms(3) N by simp
qed

lemma functional_write_frame:
  assumes "functional_memory P byte" "functional_write P a bs 0 m = Some m'"
    and "unat (a - org) + length bs \<le> unat (N :: u64)" "\<not> unat (x - org) < unat N"
  shows "byte m' x = byte m x"
proof -
  have N: "unat N < 2 ^ 64" using unat_lt_pow2 [of N] by simp
  have "\<not> unat (x - a) < length bs" using range_in_window [of a org "length bs" "unat N" x] assms(3,4) N by linarith
  then show ?thesis using functional_write_bytes [OF assms(2,1), of x] assms(3) N by simp
qed

section \<open>The frame of every operation\<close>

lemma access_frame:
  assumes "fastDmaAccess P r a data d = Some (data', d')"
  shows "window_frame V byte d d'"
  using assms
  by (auto simp: fastDmaAccess_def fillPage_def Let_def window_frame_def dest!: ram.wr_size
    split: if_splits bind_split_asm)

lemma flushPage_frame:
  assumes fl: "flushPage P page d = Some d'" and mem: "functional_memory P byte" and ok: "window_ok V d" "fastDma d"
  shows "window_frame V byte d d'"
proof (cases "fastDmaPageDirty d ! page")
  case False
  then show ?thesis using fl by (simp add: flushPage_def)
next
  case True
  let ?o = "page * 4096"
  obtain bs m where bs: "load_bytes (fastDmaCache d) ?o (page_size d page) = Some bs"
    and m: "functional_write P (dmaSharedBase d + of_nat ?o) bs 0 (hostMemory d) = Some m"
    and d': "d' = d\<lparr> hostMemory := m, fastDmaPageDirty := (fastDmaPageDirty d)[page := False] \<rparr>"
    using fl True by (auto simp: flushPage_def kFastDmaPageSize_def split: bind_split_asm)
  have le: "?o + length bs \<le> unat (dmaSharedSize d)"
    using bs ok by (auto simp: load_bytes_def window_ok_def split: if_splits)
  have "unat (of_nat ?o :: u64) = ?o"
    by (rule unat_of_nat_nowrap) (use le unat_lt_pow2 [of "dmaSharedSize d"] in linarith)
  then have "unat (dmaSharedBase d + of_nat ?o - dmaSharedBase d) = ?o" by (simp only: add_diff_cancel_left')
  then have "unat (dmaSharedBase d + of_nat ?o - dmaSharedBase d) + length bs \<le> unat (dmaSharedSize d)" using le by simp
  from functional_write_frame [OF mem m this] show ?thesis by (simp add: window_frame_def d' in_shared_def)
qed

lemma flush_frame:
  assumes "flushFastDmaCache P d = Some d'" "functional_memory P byte" "window_ok V d" "fastDma d"
  shows "window_frame V byte d d'"
proof -
  have "window_frame V byte d d' \<and> window_ok V d' \<and> fastDma d'"
    using assms(1) unfolding flushFastDmaCache_def
  proof (rule loop_invariant [where P = "\<lambda>d'. window_frame V byte d d' \<and> window_ok V d' \<and> fastDma d'"])
    fix page d1 d2
    assume i: "window_frame V byte d d1 \<and> window_ok V d1 \<and> fastDma d1" and s: "flushPage P page d1 = Some d2"
    have f: "window_frame V byte d1 d2" using flushPage_frame [OF s assms(2)] i by simp
    then show "window_frame V byte d d2 \<and> window_ok V d2 \<and> fastDma d2"
      using i window_frame_trans window_frame_ok by (metis window_frame_def)
  qed (use assms in simp)
  then show ?thesis by simp
qed

context coral_backend_laws begin

lemma complete_frame:
  assumes "completeBackendDma V now data d = Some d'" "wf (backend d)"
  shows "window_frame V byte d d'"
  using assms complete_removes
  by (fastforce simp: completeBackendDma_def window_frame_def split: if_splits bind_split_asm)

lemma complete_error_frame:
  assumes "completeBackendDmaError V now d = Some d'" "wf (backend d)"
  shows "window_frame V byte d d'"
  using assms complete_removes
  by (fastforce simp: completeBackendDmaError_def window_frame_def split: if_splits bind_split_asm)

lemma start_frame:
  assumes "startBackendDma V P now d = Some d'" "wf (backend d)"
  shows "window_frame V byte d d'"
proof (cases "dmaActive d \<or> \<not> be_hasDmaRequest V (backend d)")
  case True
  then show ?thesis using assms by (simp add: startBackendDma_def)
next
  case False
  then obtain r where r: "be_dmaRequest V (backend d) = Some r" using request_shape assms(2) by blast
  let ?d = "d\<lparr> dmaActive := True, dmaRequests := dmaRequests d + 1 \<rparr>"
  consider (out) "outside_window d r" "completeBackendDmaError V now d = Some d'"
    | (fast) data d1 where "fastDmaAccess P r (dmaSharedBase d + (cd_addr r - dmaExtmemBase d)) (cd_data r) ?d = Some (data, d1)"
        "completeBackendDma V now data d1 = Some d'"
    | (slow) t where "d' = ?d\<lparr> dmaTransfer := t \<rparr>"
    using assms(1) False r by (auto simp: startBackendDma_def Let_def split: if_splits bind_split_asm)
  then show ?thesis
  proof cases
    case out
    then show ?thesis using complete_error_frame assms(2) by blast
  next
    case fast
    have f: "window_frame V byte ?d d1" by (rule access_frame [OF fast(1)])
    have "backend d1 = backend d" using fastDmaAccess_protocol [OF fast(1)] by (simp add: same_protocol_def)
    then have "window_frame V byte d1 d'" using complete_frame [OF fast(2)] assms(2) by simp
    then have "window_frame V byte ?d d'" by (rule window_frame_trans [OF f])
    then show ?thesis by (simp add: window_frame_def in_shared_def)
  next
    case slow
    then show ?thesis by simp
  qed
qed

lemma batches_frame:
  assumes "eventBatches V P now n d = Some d'" "dma_ok V wf d" "be_hasDmaRequest V (backend d) = dmaActive d"
  shows "window_frame V byte d d'"
  using assms
proof (induction n arbitrary: d)
  case 0
  then show ?case by simp
next
  case (Suc n)
  obtain b d1 where b: "be_processEvent V now (backend d) = Some b"
    and d1: "startBackendDma V P now (d\<lparr> backend := b \<rparr>) = Some d1"
    and rest: "(if \<not> fastDma d1 \<or> dmaActive d1 \<or> \<not> be_hasPendingEvent V (backend d1) then Some d1
          else eventBatches V P now n (d1\<lparr> backendEvent := None \<rparr>)) = Some d'"
    using Suc.prems(1) by (auto split: bind_split_asm)
  have w: "wf (backend d)" using Suc.prems(2) by (simp add: dma_ok_def)
  note k = process_keeps [OF w b]
  have ok: "dma_ok V wf (d\<lparr> backend := b \<rparr>)"
    using Suc.prems(2) k by (auto simp: dma_ok_def transfer_in_window_def)
  have "window_frame V byte d (d\<lparr> backend := b \<rparr>)" using k by (simp add: window_frame_def)
  moreover have "window_frame V byte (d\<lparr> backend := b \<rparr>) d1" using start_frame [OF d1] k by simp
  ultimately have f: "window_frame V byte d d1" by (rule window_frame_trans)
  have i: "dma_ok V wf d1" "be_hasDmaRequest V (backend d1) = dmaActive d1" using start_inv [OF d1 ok] by simp_all
  show ?case
  proof (cases "\<not> fastDma d1 \<or> dmaActive d1 \<or> \<not> be_hasPendingEvent V (backend d1)")
    case True
    then show ?thesis using rest f by simp
  next
    case False
    then have "window_frame V byte (d1\<lparr> backendEvent := None \<rparr>) d'" using Suc.IH rest i by simp
    moreover have "window_frame V byte d (d1\<lparr> backendEvent := None \<rparr>)" using f by simp
    ultimately show ?thesis using window_frame_trans by blast
  qed
qed

lemma sync_to_host_frame:
  assumes s: "syncLocalExtmemToHost V P d = Some d'" and mem: "functional_memory P byte"
    and ok: "window_ok V d" "fastDma d" "be_hasLocalExtmem V (backend d)"
  shows "window_frame V byte d d'"
proof -
  let ?a = "dmaSharedBase d + fastDmaSyncOffset d"
  obtain bs m where bs: "be_readLocalExtmem V (dmaExtmemBase d + fastDmaSyncOffset d) (unat (fastDmaSyncSize d)) (backend d) = Some bs"
    and m: "functional_write P ?a bs 0 (hostMemory d) = Some m"
    and d': "d' = d\<lparr> hostMemory := m, dmaRequests := dmaRequests d + 1, dmaCompletions := dmaCompletions d + 1 \<rparr>"
    using s by (auto simp: syncLocalExtmemToHost_def split: bind_split_asm)
  have "unat (?a - dmaSharedBase d) + length bs \<le> unat (dmaSharedSize d)"
    using ok local_read_length [OF bs] by (simp add: window_ok_def)
  from functional_write_frame [OF mem m this] show ?thesis by (simp add: window_frame_def d' in_shared_def)
qed

lemma process_frame:
  assumes p: "processBackendEvent V P now d = Some d'" and inv: "npu_inv V wf d"
    and mem: "functional_memory P byte" and ok: "window_ok V d"
  shows "window_frame V byte d d'"
proof -
  obtain d1 d2 where d1: "eventBatches V P now (if fastDma d then unat (fastDmaEventBatch d) else 1) (d\<lparr> backendEvent := None \<rparr>) = Some d1"
    and d2: "(if fastDma d1 \<and> \<not> be_hasPendingEvent V (backend d1) \<and> \<not> be_hasDmaRequest V (backend d1)
                then if be_hasLocalExtmem V (backend d1) then syncLocalExtmemToHost V P d1 else flushFastDmaCache P d1
                else Some d1) = Some d2"
    and d': "d' = checkDrainDone V (syncBackendEvent V d2)"
    using p by (auto simp: processBackendEvent_def split: bind_split_asm)
  have "window_frame V byte (d\<lparr> backendEvent := None \<rparr>) d1"
    by (rule batches_frame [OF d1]) (use inv in \<open>simp_all add: npu_inv_def\<close>)
  then have f: "window_frame V byte d d1" by (simp add: window_frame_def in_shared_def)
  have ok1: "window_ok V d1" by (rule window_frame_ok [OF f ok])
  have "window_frame V byte d1 d2"
    using d2 sync_to_host_frame [OF _ mem ok1] flush_frame [OF _ mem ok1] by (auto split: if_splits)
  then have "window_frame V byte d d2" by (rule window_frame_trans [OF f])
  then show ?thesis by (simp add: d')
qed

lemma write_frame:
  assumes w: "npu_write V P now a bs d = Some (ok, d')" and inv: "npu_inv V wf d"
  shows "window_frame V byte d d'"
proof -
  let ?c = "a - pioAddr d = kResetControlOffset \<and> length bs = 4"
  obtain d1 b where d1: "(if fastDma d \<and> be_hasLocalExtmem V (backend d) \<and> ?c \<and> (le_word bs :: u32) AND 0x3 = 0
      then syncHostToLocalExtmem V P d else Some d) = Some d1"
    and b: "be_write V now a bs (pioAddr d1) (backend d1) = Some (ok, b)"
    and d': "d' = syncBackendEvent V (if fastDma d1 \<and> ?c \<and> (le_word bs :: u32) AND 0x1 \<noteq> 0
      then invalidateFastDmaCache (d1\<lparr> backend := b \<rparr>) else d1\<lparr> backend := b \<rparr>)"
    using w by (auto simp: npu_write_def Let_def split: bind_split_asm)
  have w0: "wf (backend d)" using inv by (simp add: npu_inv_def dma_ok_def)
  have "window_frame V byte d d1 \<and> wf (backend d1)" if "syncHostToLocalExtmem V P d = Some d1"
    using that w0 local_write_keeps
    by (fastforce simp: syncHostToLocalExtmem_def window_frame_def split: if_splits bind_split_asm)
  then have f: "window_frame V byte d d1 \<and> wf (backend d1)" using d1 w0 by (auto split: if_splits)
  have "be_hasLocalExtmem V b = be_hasLocalExtmem V (backend d1)" using write_keeps [OF _ b] f by blast
  then have "window_frame V byte d1 (d1\<lparr> backend := b \<rparr>)" "window_frame V byte d1 (invalidateFastDmaCache (d1\<lparr> backend := b \<rparr>))"
    by (simp_all add: window_frame_def invalidateFastDmaCache_def)
  then have "window_frame V byte d1 d'" by (simp add: d')
  then show ?thesis using f window_frame_trans by blast
qed

lemma read_frame:
  assumes "npu_read V now a n d = Some (r, d')" "npu_inv V wf d"
  shows "window_frame V byte d d'"
proof (cases "if n = 4 then shell_register V d (a - pioAddr d) else None")
  case (Some w)
  then show ?thesis using assms by (auto simp: npu_read_def)
next
  case None
  then obtain b where b: "be_read V now a n (pioAddr d) (backend d) = Some (r, b)"
    and d': "d' = syncBackendEvent V (d\<lparr> backend := b \<rparr>)"
    using assms(1) by (auto simp: npu_read_def split: bind_split_asm)
  have "be_hasLocalExtmem V b = be_hasLocalExtmem V (backend d)"
    using read_keeps [OF _ b] assms(2) by (simp add: npu_inv_def dma_ok_def)
  then have "window_frame V byte d (d\<lparr> backend := b \<rparr>)" by (simp add: window_frame_def)
  then show ?thesis by (simp add: d')
qed

lemma transfer_frame:
  assumes t: "dmaTransferDone V P now d = Some d'" and inv: "npu_inv V wf d" and mem: "functional_memory P byte"
  shows "window_frame V byte d d'"
proof -
  obtain tr where tr: "dmaTransfer d = Some tr" using t by (auto simp: dmaTransferDone_def split: bind_split_asm)
  have win: "unat (tr_addr tr - dmaSharedBase d) + unat (tr_size tr) \<le> unat (dmaSharedSize d)" and w: "wf (backend d)"
    using inv tr by (auto simp: npu_inv_def dma_ok_def transfer_in_window_def)
  consider (rd) data where "completeBackendDma V now data (d\<lparr> dmaTransfer := None \<rparr>) = Some d'"
    | (wr) bs m data where "length bs = unat (tr_size tr)" "port_write P (hostMemory d) (tr_addr tr) bs = Some m"
        "completeBackendDma V now data (d\<lparr> dmaTransfer := None, hostMemory := m \<rparr>) = Some d'"
    using t tr translate_identity
    by (auto simp: dmaTransferDone_def Let_def dest: ram.rd_length split: if_splits bind_split_asm)
  then show ?thesis
  proof cases
    case rd
    have "window_frame V byte (d\<lparr> dmaTransfer := None \<rparr>) d'" using complete_frame [OF rd] w by simp
    then show ?thesis by (simp add: window_frame_def in_shared_def)
  next
    case wr
    have "window_frame V byte d (d\<lparr> dmaTransfer := None, hostMemory := m \<rparr>)"
      using port_write_frame [OF mem wr(2), of "dmaSharedBase d" "dmaSharedSize d"] win wr(1)
      by (simp add: window_frame_def in_shared_def)
    moreover have "window_frame V byte (d\<lparr> dmaTransfer := None, hostMemory := m \<rparr>) d'" using complete_frame [OF wr(3)] w by simp
    ultimately show ?thesis by (rule window_frame_trans)
  qed
qed

lemma step_frame:
  assumes "npu_step V P d d'" "npu_inv V wf d" "functional_memory P byte" "window_ok V d"
  shows "window_frame V byte d d'"
  using assms(1)
proof cases
  case step_read
  then show ?thesis by (rule read_frame [OF _ assms(2)])
next
  case step_write
  then show ?thesis by (rule write_frame [OF _ assms(2)])
next
  case step_event
  show ?thesis by (rule process_frame [OF step_event(2) assms(2-4)])
next
  case step_transfer
  then show ?thesis by (rule transfer_frame [OF _ assms(2,3)])
qed simp_all

lemma reachable_window_ok:
  assumes "rtranclp (system_step V P) d d'" "npu_inv V wf d" "functional_memory P byte" "window_ok V d"
  shows "npu_inv V wf d' \<and> window_ok V d'"
  using assms
proof (induction)
  case (step d1 d2)
  have i: "npu_inv V wf d1" "window_ok V d1" using step.IH step.prems by simp_all
  show ?case
  proof (cases "npu_step V P d1 d2")
    case True
    then show ?thesis using step_inv [OF True i(1)] window_frame_ok [OF step_frame [OF True i(1) step.prems(2) i(2)] i(2)] by simp
  next
    case False
    then show ?thesis using step.hyps(2) i by (auto simp: system_step_def npu_inv_def window_ok_def)
  qed
qed simp

end

section \<open>The device with the RTL backend\<close>

text \<open>What the constructor establishes.\<close>

lemma NPUDevice_verilated_init:
  assumes "NPUDevice_verilated C c env now p wrapper fw tick cycles mode m = Some d" "core_typed C"
  shows "npu_inv (verilated_backend C) (verilated_wf C) d" "window_ok (verilated_backend C) d"
proof -
  obtain b where ok: "params_ok p" "np_backendType p = ''verilated-coral''"
    and b: "CoralVerilatedBackend C c env now wrapper fw tick cycles (np_fastDma p) mode = Some b"
    and d: "d = NPUDevice (verilated_backend C) p kVerilatedCoralBackendId (vb_firmwareEntry b) b m"
    using assms(1) by (auto simp: NPUDevice_verilated_def split: if_splits bind_split_asm)
  note B = CoralVerilatedBackend_wf [OF b assms(2)]
  show "npu_inv (verilated_backend C) (verilated_wf C) d"
    using B by (simp add: d NPUDevice_def Let_def npu_inv_def dma_ok_def)
  have "unat (np_fastDmaSyncOffset p) + unat (np_fastDmaSyncSize p) \<le> unat (np_dmaSharedSize p)" if "np_fastDma p"
  proof -
    have a: "np_fastDmaSyncOffset p \<le> np_dmaSharedSize p" "np_fastDmaSyncSize p \<le> np_dmaSharedSize p - np_fastDmaSyncOffset p"
      using ok that by (auto simp: params_ok_def not_less)
    then show ?thesis by (simp add: word_le_nat_alt unat_sub_le)
  qed
  then show "window_ok (verilated_backend C) d" by (simp add: window_ok_def d NPUDevice_def Let_def)
qed

text \<open>
  C7: DMA accounting. In every state that a device with the RTL backend reaches, by any sequence of
  register accesses, events, finished transfers, drains and changes of the host memory: a request is
  active exactly while the backend presents one and a transfer is in flight, so the state register
  reads 0 or 3; the requests counted are the completions plus the active one; the fast mode leaves
  none active; the scheduled event is the one the backend asks for; and a transfer in flight lies
  inside the shared window.
\<close>

theorem npu_dma_accounting:
  assumes "NPUDevice_verilated C c env now p wrapper fw tick cycles mode m = Some d0" "core_typed C"
    and "rtranclp (system_step (verilated_backend C) P) d0 d"
  shows "vb_dmaRequestPending (backend d) = dmaActive d \<and> (dmaTransfer d \<noteq> None) = dmaActive d \<and>
    shell_register (verilated_backend C) d kDmaStateOffset = Some (if dmaActive d then 3 else 0) \<and>
    dmaRequests d = dmaCompletions d + of_bool (dmaActive d) \<and> \<not> (fastDma d \<and> dmaActive d) \<and>
    backendEvent d = (if vb_pendingEventTick (backend d) = 0 then None else Some (vb_pendingEventTick (backend d))) \<and>
    (case dmaTransfer d of None \<Rightarrow> True | Some t \<Rightarrow>
      unat (tr_addr t - dmaSharedBase d) + unat (tr_size t) \<le> unat (dmaSharedSize d))"
proof -
  have "npu_inv (verilated_backend C) (verilated_wf C) d"
    by (rule rtl.reachable_inv [OF assms(3) NPUDevice_verilated_init(1) [OF assms(1,2)]])
  then show ?thesis
    by (auto simp: npu_inv_def dma_ok_def event_of_def verilated_hasPendingEvent_def transfer_in_window_def
      shell_register_def abi_defs split: option.splits)
qed

text \<open>
  C6: The device writes host memory only inside the shared window. From every reachable state of a
  device with the RTL backend, no step of the device changes a byte of host memory outside the
  window, in the timing mode, through the cache of the fast mode or by the synchronization of the
  local external memory.
\<close>

theorem npu_writes_only_window:
  assumes "NPUDevice_verilated C c env now p wrapper fw tick cycles mode m = Some d0" "core_typed C"
    and "functional_memory P byte" "rtranclp (system_step (verilated_backend C) P) d0 d"
    and "npu_step (verilated_backend C) P d d'" "\<not> in_shared d x"
  shows "byte (hostMemory d') x = byte (hostMemory d) x"
proof -
  have i: "npu_inv (verilated_backend C) (verilated_wf C) d \<and> window_ok (verilated_backend C) d"
    by (rule rtl.reachable_window_ok [OF assms(4) _ assms(3)]) (rule NPUDevice_verilated_init [OF assms(1,2)])+
  show ?thesis
    using rtl.step_frame [OF assms(5) _ assms(3)] i assms(6) by (auto simp: window_frame_def)
qed

definition params_example :: npu_params where
  "params_example = \<lparr> np_pioAddr = 0x1000, np_pioSize = 0x31000, np_pioDelay = 1, np_dmaExtmemBase = 0x20000000,
     np_dmaSharedBase = 0x80000000, np_dmaSharedSize = 0x2000, np_fastDma = True, np_fastDmaEventBatch = 4,
     np_fastDmaSyncOffset = 0x100, np_fastDmaSyncSize = 0x40, np_backendType = ''verilated-coral'' \<rparr>"

lemma device_example:
  "\<exists>d0. NPUDevice_verilated quiet_core 1 (\<lambda>_. None) 0 params_example ''lib'' (Some elf_example) 1000 5 ''rtl'' (\<lambda>_ :: u64. 0 :: u8) = Some d0 \<and>
    dmaSharedBase d0 = 0x80000000 \<and> dmaSharedSize d0 = 0x2000 \<and> pioAddr d0 = 0x1000"
proof -
  have ok: "params_ok params_example"
    by (simp add: params_ok_def params_example_def)
  obtain v where v: "CoralVerilatedBackend quiet_core 1 (\<lambda>_. None) 0 ''lib'' (Some elf_example) 1000 5 True ''rtl'' = Some v"
    using quiet_backend_starts by blast
  show ?thesis using ok v
    by (simp add: NPUDevice_verilated_def params_example_def NPUDevice_def Let_def syncBackendEvent_def)
qed

text \<open>A read of the state register is a step from the initial state.\<close>

theorem npu_dma_accounting_witness:
  "\<exists>d0 d. NPUDevice_verilated quiet_core 1 (\<lambda>_. None) 0 params_example ''lib'' (Some elf_example) 1000 5 ''rtl'' (\<lambda>_ :: u64. 0 :: u8) = Some d0 \<and>
    system_step (verilated_backend quiet_core) flat_port d0 d \<and> dmaRequests d = dmaCompletions d + of_bool (dmaActive d)"
proof -
  obtain d0 where d0: "NPUDevice_verilated quiet_core 1 (\<lambda>_. None) 0 params_example ''lib'' (Some elf_example) 1000 5 ''rtl''
      (\<lambda>_ :: u64. 0 :: u8) = Some d0" using device_example by blast
  have st: "system_step (verilated_backend quiet_core) flat_port d0 (d0\<lparr> drainState := drain (verilated_backend quiet_core) d0 \<rparr>)"
    using step_drain by (auto simp: system_step_def)
  show ?thesis using npu_dma_accounting [OF d0 quiet_core_typed r_into_rtranclp [of "system_step (verilated_backend quiet_core) flat_port", OF st]] d0 st by blast
qed

theorem npu_writes_only_window_witness:
  "\<exists>d0 d'. NPUDevice_verilated quiet_core 1 (\<lambda>_. None) 0 params_example ''lib'' (Some elf_example) 1000 5 ''rtl'' (\<lambda>_ :: u64. 0 :: u8) = Some d0 \<and>
    npu_step (verilated_backend quiet_core) flat_port d0 d' \<and> \<not> in_shared d0 0x1234 \<and> hostMemory d' 0x1234 = hostMemory d0 0x1234"
proof -
  obtain d0 where d0: "NPUDevice_verilated quiet_core 1 (\<lambda>_. None) 0 params_example ''lib'' (Some elf_example) 1000 5 ''rtl''
      (\<lambda>_ :: u64. 0 :: u8) = Some d0" and b: "dmaSharedBase d0 = 0x80000000" "dmaSharedSize d0 = 0x2000" "pioAddr d0 = 0x1000"
    using device_example by blast
  have "npu_read (verilated_backend quiet_core) 0 (0x1000 + kDmaErrorsOffset) 4 d0 =
      Some (Some (le_bytes 4 (dmaErrors d0)), syncBackendEvent (verilated_backend quiet_core) d0)"
    using b by (simp add: npu_read_def shell_register_def abi_defs)
  then have st: "npu_step (verilated_backend quiet_core) flat_port d0 (syncBackendEvent (verilated_backend quiet_core) d0)"
    by (rule step_read)
  have out: "\<not> in_shared d0 0x1234" using b by (simp add: in_shared_def)
  show ?thesis using npu_writes_only_window [OF d0 quiet_core_typed flat_port_memory rtranclp.rtrancl_refl st out] d0 st out by blast
qed

section \<open>A drain that never ends\<close>

text \<open>
  C28: A register write can strand a drain. While a device with the transaction-level backend drains
  (the simulator waits for it to signal), a write of the reset bit cancels the pending execution
  without checking the drain: the device is quiescent, still draining, and has no event and no
  transfer left that could signal the end.
\<close>

theorem drain_stranded_by_reset:
  assumes "drainState d = Draining" "registers_visible (backend d)" "sa_pioAddr (backend d) = pioAddr d"
    and "\<not> dmaActive d" "dmaTransfer d = None" "\<not> fastDma d"
  shows "\<exists>d'. npu_write stagea_backend P now (pioAddr d + kCsrOffset) (le_bytes 4 (1 :: u32)) d = Some (True, d') \<and>
    drainState d' = Draining \<and> dmaQuiesced stagea_backend d' \<and> backendEvent d' = None \<and> dmaTransfer d' = None"
proof -
  let ?s = "(backend d)\<lparr> sa_resetControl := 1, sa_pendingEventTick := 0, sa_halted := False \<rparr>"
  have "stagea_write now (pioAddr d + kCsrOffset) (le_bytes 4 (1 :: u32)) (pioAddr d) (backend d) = Some (True, ?s)"
    using stagea_csr_write [OF assms(2), of 0 "le_bytes 4 (1 :: u32)" now "pioAddr d"]
    by (simp add: writeCsr_def Let_def stopExecution_def le_word_le_bytes abi_defs)
  then show ?thesis using assms
    by (simp add: npu_write_def default_backend_defs dmaQuiesced_def stagea_hasPendingEvent_def event_of_def)
qed

definition draining_example :: "(stagea, unit) npu_device" where
  "draining_example = (NPUDevice stagea_backend (params_example\<lparr> np_fastDma := False \<rparr>) kStageABackendId 0
     (stagea_example\<lparr> sa_resetControl := 0, sa_pendingEventTick := 1005 \<rparr>) ())\<lparr> drainState := Draining \<rparr>"

theorem drain_stranded_by_reset_witness:
  "drainState draining_example = Draining \<and> \<not> dmaQuiesced stagea_backend draining_example \<and>
   (\<forall>P. \<exists>d'. npu_write stagea_backend P 5 (0x1000 + kCsrOffset) (le_bytes 4 (1 :: u32)) draining_example = Some (True, d') \<and>
     drainState d' = Draining \<and> dmaQuiesced stagea_backend d' \<and> backendEvent d' = None)"
proof -
  have f: "drainState draining_example = Draining" "registers_visible (backend draining_example)"
    "sa_pioAddr (backend draining_example) = pioAddr draining_example" "\<not> dmaActive draining_example"
    "dmaTransfer draining_example = None" "\<not> fastDma draining_example" "pioAddr draining_example = 0x1000"
    "sa_pendingEventTick (backend draining_example) = 1005"
    by (simp_all add: draining_example_def NPUDevice_def Let_def params_example_def stagea_example_def registers_visible_def
      syncBackendEvent_def abi_defs)
  have "\<not> dmaQuiesced stagea_backend draining_example" using f(8) by (simp add: dmaQuiesced_def stagea_hasPendingEvent_def)
  then show ?thesis using drain_stranded_by_reset [OF f(1-6)] f(1,7) by metis
qed

end
