(* ===== verification/Kernel_Driver.thy ===== *)
theory Kernel_Driver
  imports Prelude
begin

text \<open>
  The Linux platform driver (\<open>runtime/kernel/opennpux_coral.c\<close>): starting, resetting, polling and
  mapping the device, and the life of its character device. The hardware behind the register window
  is the record \<open>reg_window\<close>, an argument: a read may change it and either may stop the machine
  (\<open>None\<close>). The kernel calls of the probe are the record \<open>platform\<close> of their results.

  The handlers are functions on the driver state and the hardware, each run without interference;
  concurrent calls are the subject of \<open>Driver_Concurrency\<close>.
\<close>

section \<open>Registers, errors and requests\<close>

record 'h reg_window =
  io_readl :: "u32 \<Rightarrow> 'h \<Rightarrow> (u32 \<times> 'h) option"
  io_writel :: "u32 \<Rightarrow> u32 \<Rightarrow> 'h \<Rightarrow> 'h option"

definition RESET_CONTROL :: u32 where [abi_defs]: "RESET_CONTROL = 0x30000"
definition PC_START :: u32 where [abi_defs]: "PC_START = 0x30004"
definition STATUS :: u32 where [abi_defs]: "STATUS = 0x30008"
definition DMA_ERRORS :: u32 where [abi_defs]: "DMA_ERRORS = 0x30fe0"
definition DMA_REQUESTS :: u32 where [abi_defs]: "DMA_REQUESTS = 0x30fe4"
definition DMA_COMPLETIONS :: u32 where [abi_defs]: "DMA_COMPLETIONS = 0x30fe8"
definition DMA_STATE :: u32 where [abi_defs]: "DMA_STATE = 0x30fec"
definition SHARED_BASE :: u32 where [abi_defs]: "SHARED_BASE = 0x30ff0"
definition SHARED_SIZE :: u32 where [abi_defs]: "SHARED_SIZE = 0x30ff4"
definition FIRMWARE_ENTRY :: u32 where [abi_defs]: "FIRMWARE_ENTRY = 0x30ff8"
definition BACKEND_ID :: u32 where [abi_defs]: "BACKEND_ID = 0x30ffc"

text \<open>The error numbers and the bits of a poll mask, as Linux defines them.\<close>

abbreviation (input) EINTR :: int where "EINTR \<equiv> 4"
abbreviation (input) EIO :: int where "EIO \<equiv> 5"
abbreviation (input) ENOMEM :: int where "ENOMEM \<equiv> 12"
abbreviation (input) EFAULT :: int where "EFAULT \<equiv> 14"
abbreviation (input) EBUSY :: int where "EBUSY \<equiv> 16"
abbreviation (input) ENODEV :: int where "ENODEV \<equiv> 19"
abbreviation (input) EINVAL :: int where "EINVAL \<equiv> 22"
abbreviation (input) ENOTTY :: int where "ENOTTY \<equiv> 25"
abbreviation (input) ERANGE :: int where "ERANGE \<equiv> 34"
abbreviation (input) EPROTO :: int where "EPROTO \<equiv> 71"
abbreviation (input) ENOTSUP :: int where "ENOTSUP \<equiv> 95"
abbreviation (input) ETIMEDOUT :: int where "ETIMEDOUT \<equiv> 110"
abbreviation (input) POLLIN :: int where "POLLIN \<equiv> 0x01"
abbreviation (input) POLLERR :: int where "POLLERR \<equiv> 0x08"
abbreviation (input) POLLRDNORM :: int where "POLLRDNORM \<equiv> 0x40"

record ioc_info =
  ii_base :: u64
  ii_backend_id :: u32
  ii_firmware_entry :: u32
  ii_shared_base :: u32
  ii_shared_size :: u32
  ii_dma_requests :: u32
  ii_dma_completions :: u32
  ii_dma_errors :: u32
  ii_dma_state :: u32
  ii_reset_control :: u32
  ii_status :: u32

record ioc_run =
  ir_entry :: u32
  ir_status :: u32
  ir_polls :: u64

record ioc_caps =
  ic_abi_version :: u32
  ic_features :: u32

record ioc_start =
  is_entry :: u32
  is_flags :: u32

definition OPENNPUX_CORAL_ABI_VERSION :: u32 where [abi_defs]: "OPENNPUX_CORAL_ABI_VERSION = 1"
definition FEATURE_SHARED_MMAP :: u32 where [abi_defs]: "FEATURE_SHARED_MMAP = 1"
definition FEATURE_ASYNC_START :: u32 where [abi_defs]: "FEATURE_ASYNC_START = 2"
definition FEATURE_POLL_COMPLETION :: u32 where [abi_defs]: "FEATURE_POLL_COMPLETION = 4"
definition FEATURE_RESET :: u32 where [abi_defs]: "FEATURE_RESET = 8"

section \<open>State\<close>

text \<open>
  \<open>completion_work\<close> says whether the delayed work is queued and \<open>completion_wq\<close> counts the wake-ups of
  the wait queue. The two atomics only hold 0 and 1.
\<close>

record opennpux_coral_dev =
  regs_start :: u64
  regs_size :: u64
  shared_start :: u64
  shared_size :: u64
  completion_wq :: nat
  completion_work :: bool
  running :: bool
  open_count :: bool

definition coral_readl :: "'h reg_window \<Rightarrow> u32 \<Rightarrow> 'h \<Rightarrow> (u32 \<times> 'h) option" where
  "coral_readl W offset h = io_readl W offset h"

definition coral_writel :: "'h reg_window \<Rightarrow> u32 \<Rightarrow> u32 \<Rightarrow> 'h \<Rightarrow> 'h option" where
  "coral_writel W offset v h = io_writel W offset v h"

section \<open>Handlers\<close>

definition coral_fill_info :: "'h reg_window \<Rightarrow> opennpux_coral_dev \<Rightarrow> 'h \<Rightarrow> (ioc_info \<times> 'h) option" where
  "coral_fill_info W k h =
     do { (backend_id, h) \<leftarrow> coral_readl W BACKEND_ID h;
          (firmware_entry, h) \<leftarrow> coral_readl W FIRMWARE_ENTRY h;
          (shared_base, h) \<leftarrow> coral_readl W SHARED_BASE h;
          (shared_sz, h) \<leftarrow> coral_readl W SHARED_SIZE h;
          (dma_requests, h) \<leftarrow> coral_readl W DMA_REQUESTS h;
          (dma_completions, h) \<leftarrow> coral_readl W DMA_COMPLETIONS h;
          (dma_errors, h) \<leftarrow> coral_readl W DMA_ERRORS h;
          (dma_state, h) \<leftarrow> coral_readl W DMA_STATE h;
          (reset_control, h) \<leftarrow> coral_readl W RESET_CONTROL h;
          (st, h) \<leftarrow> coral_readl W STATUS h;
          Some (\<lparr> ii_base = regs_start k, ii_backend_id = backend_id, ii_firmware_entry = firmware_entry,
            ii_shared_base = shared_base, ii_shared_size = shared_sz, ii_dma_requests = dma_requests,
            ii_dma_completions = dma_completions, ii_dma_errors = dma_errors, ii_dma_state = dma_state,
            ii_reset_control = reset_control, ii_status = st \<rparr>, h) }"

definition wake_up :: "opennpux_coral_dev \<Rightarrow> opennpux_coral_dev" where
  "wake_up k = k\<lparr> completion_wq := completion_wq k + 1 \<rparr>"

text \<open>The worker; the kernel has taken the work off the queue when it runs.\<close>

definition coral_completion_work ::
  "'h reg_window \<Rightarrow> opennpux_coral_dev \<Rightarrow> 'h \<Rightarrow> (opennpux_coral_dev \<times> 'h) option" where
  "coral_completion_work W k h =
     (if \<not> running k then Some (k, h)
      else do { (st, h) \<leftarrow> coral_readl W STATUS h;
                if st AND 0x3 \<noteq> 0 then Some (wake_up (k\<lparr> running := False \<rparr>), h)
                else Some (if running k then k\<lparr> completion_work := True \<rparr> else k, h) })"

definition coral_start ::
  "'h reg_window \<Rightarrow> u32 \<Rightarrow> opennpux_coral_dev \<Rightarrow> 'h \<Rightarrow> (int \<times> opennpux_coral_dev \<times> 'h) option" where
  "coral_start W entry k h =
     (if running k then Some (- EBUSY, k, h)
      else do { let k = k\<lparr> completion_work := False \<rparr>;
                let k = k\<lparr> running := True \<rparr>;
                h \<leftarrow> coral_writel W PC_START entry h;
                h \<leftarrow> coral_writel W RESET_CONTROL 1 h;
                h \<leftarrow> coral_writel W RESET_CONTROL 0 h;
                Some (0, k\<lparr> completion_work := True \<rparr>, h) })"

definition coral_reset ::
  "'h reg_window \<Rightarrow> opennpux_coral_dev \<Rightarrow> 'h \<Rightarrow> (opennpux_coral_dev \<times> 'h) option" where
  "coral_reset W k h =
     do { let k = k\<lparr> running := False \<rparr>;
          let k = k\<lparr> completion_work := False \<rparr>;
          h \<leftarrow> coral_writel W RESET_CONTROL 1 h;
          Some (wake_up k, h) }"

primrec poll_status :: "'h reg_window \<Rightarrow> nat \<Rightarrow> u32 \<Rightarrow> 'h \<Rightarrow> (u32 \<times> 'h) option" where
  "poll_status W 0 st h = Some (st, h)"
| "poll_status W (Suc n) st h =
     do { (st, h) \<leftarrow> coral_readl W STATUS h;
          if st AND 0x3 \<noteq> 0 then Some (st, h) else poll_status W n st h }"

definition run_result :: "u32 \<Rightarrow> int" where
  "run_result st = (if st AND 0x2 \<noteq> 0 then - EIO else if st AND 0x1 = 0 then - ETIMEDOUT else 0)"

definition coral_run ::
  "'h reg_window \<Rightarrow> ioc_run \<Rightarrow> opennpux_coral_dev \<Rightarrow> 'h \<Rightarrow> (int \<times> ioc_run \<times> opennpux_coral_dev \<times> 'h) option" where
  "coral_run W run k h =
     (if running k then Some (- EBUSY, run, k, h)
      else do { let k = k\<lparr> running := True \<rparr>;
                h \<leftarrow> coral_writel W PC_START (ir_entry run) h;
                h \<leftarrow> coral_writel W RESET_CONTROL 1 h;
                h \<leftarrow> coral_writel W RESET_CONTROL 0 h;
                (st, h) \<leftarrow> poll_status W (unat (ir_polls run)) 0 h;
                Some (run_result st, run\<lparr> ir_status := st \<rparr>, k\<lparr> running := False \<rparr>, h) })"

text \<open>
  An ioctl request with its argument in user memory: what \<open>copy_from_user\<close> reads there, if it can, and
  whether \<open>copy_to_user\<close> can write there.
\<close>

datatype ioctl_request =
    GET_INFO bool
  | RUN "ioc_run option" bool
  | GET_CAPS bool
  | START "ioc_start option"
  | RESET
  | Other_request

datatype ioctl_reply = No_reply | Info_reply ioc_info | Run_reply ioc_run | Caps_reply ioc_caps

definition coral_caps :: ioc_caps where
  "coral_caps = \<lparr> ic_abi_version = OPENNPUX_CORAL_ABI_VERSION,
     ic_features = FEATURE_SHARED_MMAP OR FEATURE_ASYNC_START OR FEATURE_POLL_COMPLETION OR FEATURE_RESET \<rparr>"

fun coral_ioctl ::
  "'h reg_window \<Rightarrow> ioctl_request \<Rightarrow> opennpux_coral_dev \<Rightarrow> 'h \<Rightarrow> (int \<times> ioctl_reply \<times> opennpux_coral_dev \<times> 'h) option" where
  "coral_ioctl W (GET_INFO writable) k h =
     do { (info, h) \<leftarrow> coral_fill_info W k h;
          if \<not> writable then Some (- EFAULT, No_reply, k, h) else Some (0, Info_reply info, k, h) }"
| "coral_ioctl W (RUN None writable) k h = Some (- EFAULT, No_reply, k, h)"
| "coral_ioctl W (RUN (Some run) writable) k h =
     do { (ret, run, k, h) \<leftarrow> coral_run W run k h;
          if \<not> writable then Some (- EFAULT, No_reply, k, h) else Some (ret, Run_reply run, k, h) }"
| "coral_ioctl W (GET_CAPS writable) k h =
     (if \<not> writable then Some (- EFAULT, No_reply, k, h) else Some (0, Caps_reply coral_caps, k, h))"
| "coral_ioctl W (START None) k h = Some (- EFAULT, No_reply, k, h)"
| "coral_ioctl W (START (Some start)) k h =
     (if is_flags start \<noteq> 0 then Some (- EINVAL, No_reply, k, h)
      else do { (ret, k, h) \<leftarrow> coral_start W (is_entry start) k h; Some (ret, No_reply, k, h) })"
| "coral_ioctl W RESET k h = do { (k, h) \<leftarrow> coral_reset W k h; Some (0, No_reply, k, h) }"
| "coral_ioctl W Other_request k h = Some (- ENOTTY, No_reply, k, h)"

definition poll_mask :: "u32 \<Rightarrow> int" where
  "poll_mask st = (if st AND 0x2 \<noteq> 0 then POLLERR else if st AND 0x1 \<noteq> 0 then POLLIN + POLLRDNORM else 0)"

definition coral_poll ::
  "'h reg_window \<Rightarrow> opennpux_coral_dev \<Rightarrow> 'h \<Rightarrow> (int \<times> opennpux_coral_dev \<times> 'h) option" where
  "coral_poll W k h =
     do { (st, h) \<leftarrow> coral_readl W STATUS h;
          let k = (if st AND 0x3 \<noteq> 0 then k\<lparr> running := False \<rparr> else k);
          Some (poll_mask st, k, h) }"

lemma status_bits:
  fixes st :: u32
  assumes "st AND 3 = 0"
  shows "st AND 1 = 0" "st AND 2 = 0"
proof -
  have "st AND 1 = (st AND 3) AND 1" "st AND 2 = (st AND 3) AND 2" by (simp_all add: and.assoc)
  then show "st AND 1 = 0" "st AND 2 = 0" using assms by simp_all
qed

definition PAGE_ALIGNED :: "u64 \<Rightarrow> bool" where
  "PAGE_ALIGNED a \<longleftrightarrow> a AND 0xfff = 0"

text \<open>An accepted mapping is the page frame number and the size given to \<open>remap_pfn_range\<close>.\<close>

definition coral_mmap :: "opennpux_coral_dev \<Rightarrow> u64 \<Rightarrow> u64 \<Rightarrow> u64 \<Rightarrow> int + u64 \<times> u64" where
  "coral_mmap k vm_pgoff vm_start vm_end =
     (let offset = push_bit 12 vm_pgoff; n = vm_end - vm_start in
      if \<not> PAGE_ALIGNED (shared_start k) \<or> \<not> PAGE_ALIGNED offset \<or> shared_size k < offset \<or>
         shared_size k - offset < n
      then Inl (- EINVAL)
      else Inr (drop_bit 12 (shared_start k + offset), n))"

definition coral_open :: "opennpux_coral_dev \<Rightarrow> int \<times> opennpux_coral_dev" where
  "coral_open k = (if open_count k then (- EBUSY, k) else (0, k\<lparr> open_count := True \<rparr>))"

definition coral_release :: "'h reg_window \<Rightarrow> opennpux_coral_dev \<Rightarrow> 'h \<Rightarrow> (opennpux_coral_dev \<times> 'h) option" where
  "coral_release W k h =
     do { (k, h) \<leftarrow> (if running k then coral_reset W k h else Some (k, h));
          Some (k\<lparr> open_count := False \<rparr>, h) }"

section \<open>Probe and removal\<close>

text \<open>The results of the kernel calls of the probe, and what the driver has registered.\<close>

record platform =
  pf_kzalloc :: bool
  pf_resource :: "(u64 \<times> u64) option"
  pf_ioremap :: int
  pf_memory_region :: bool
  pf_address_to_resource :: "int + u64 \<times> u64"
  pf_alloc_chrdev :: int
  pf_cdev_add :: int
  pf_device_create :: int

record registrations =
  reg_chrdev :: bool
  reg_cdev :: bool
  reg_class_dev :: bool

definition unregistered :: registrations where
  "unregistered = \<lparr> reg_chrdev = False, reg_cdev = False, reg_class_dev = False \<rparr>"

definition resource_size :: "u64 \<times> u64 \<Rightarrow> u64" where
  "resource_size r = snd r - fst r + 1"

text \<open>The last part of the probe: the character device and its node.\<close>

definition coral_register :: "platform \<Rightarrow> registrations \<Rightarrow> int \<times> registrations" where
  "coral_register pf r =
     (if pf_alloc_chrdev pf \<noteq> 0 then (pf_alloc_chrdev pf, r)
      else let r = r\<lparr> reg_chrdev := True \<rparr> in
        if pf_cdev_add pf \<noteq> 0 then (pf_cdev_add pf, r\<lparr> reg_chrdev := False \<rparr>)
        else let r = r\<lparr> reg_cdev := True \<rparr> in
          if pf_device_create pf \<noteq> 0 then (pf_device_create pf, r\<lparr> reg_cdev := False, reg_chrdev := False \<rparr>)
          else (0, r\<lparr> reg_class_dev := True \<rparr>))"

definition coral_probe ::
  "'h reg_window \<Rightarrow> platform \<Rightarrow> registrations \<Rightarrow> 'h \<Rightarrow>
    (int \<times> opennpux_coral_dev option \<times> registrations \<times> 'h) option" where
  "coral_probe W pf r h =
     (if \<not> pf_kzalloc pf then Some (- ENOMEM, None, r, h)
      else case pf_resource pf of
        None \<Rightarrow> Some (- ENODEV, None, r, h)
      | Some res \<Rightarrow>
          if pf_ioremap pf \<noteq> 0 then Some (pf_ioremap pf, None, r, h)
          else if \<not> pf_memory_region pf then Some (- EINVAL, None, r, h)
          else (case pf_address_to_resource pf of
            Inl ret \<Rightarrow> Some (ret, None, r, h)
          | Inr shared_res \<Rightarrow>
              do { (shared_base, h) \<leftarrow> coral_readl W SHARED_BASE h;
                   (shared_sz, h) \<leftarrow> coral_readl W SHARED_SIZE h;
                   if ucast shared_base \<noteq> fst shared_res \<or> ucast shared_sz \<noteq> resource_size shared_res
                   then Some (- EINVAL, None, r, h)
                   else let k = \<lparr> regs_start = fst res, regs_size = resource_size res,
                                 shared_start = fst shared_res, shared_size = resource_size shared_res,
                                 completion_wq = 0, completion_work = False, running = False, open_count = False \<rparr>;
                            (ret, r) = coral_register pf r in
                     Some (ret, if ret = 0 then Some k else None, r, h) }))"


text \<open>
  The module: the device class and the registration of the driver, with the results of
  \<open>class_create\<close> and \<open>platform_driver_register\<close>.
\<close>

record coral_module =
  mod_class :: bool
  mod_driver :: bool

definition coral_init :: "int \<Rightarrow> int \<Rightarrow> coral_module \<Rightarrow> int \<times> coral_module" where
  "coral_init class_create driver_register m =
     (if class_create \<noteq> 0 then (class_create, m)
      else let m = m\<lparr> mod_class := True \<rparr> in
        if driver_register \<noteq> 0 then (driver_register, m\<lparr> mod_class := False \<rparr>)
        else (0, m\<lparr> mod_driver := True \<rparr>))"

definition coral_exit :: "coral_module \<Rightarrow> coral_module" where
  "coral_exit m = m\<lparr> mod_driver := False, mod_class := False \<rparr>"

section \<open>The contract of the hardware\<close>

text \<open>
  What the driver relies on: in an admissible state the registers it uses answer, and keep the state
  admissible.
\<close>

definition driver_registers :: "u32 set" where
  "driver_registers = {RESET_CONTROL, STATUS, DMA_ERRORS, DMA_REQUESTS, DMA_COMPLETIONS, DMA_STATE, SHARED_BASE,
     SHARED_SIZE, FIRMWARE_ENTRY, BACKEND_ID}"

locale reg_device =
  fixes W :: "'h reg_window" and ok :: "'h \<Rightarrow> bool"
  assumes readl_answers: "ok h \<Longrightarrow> offset \<in> driver_registers \<Longrightarrow> \<exists>v h'. io_readl W offset h = Some (v, h') \<and> ok h'"
    and writel_answers: "ok h \<Longrightarrow> offset = PC_START \<or> offset = RESET_CONTROL \<Longrightarrow>
      \<exists>h'. io_writel W offset v h = Some h' \<and> ok h'"
begin

lemma status_answers: "ok h \<Longrightarrow> \<exists>v h'. coral_readl W STATUS h = Some (v, h') \<and> ok h'"
  using readl_answers by (simp add: coral_readl_def driver_registers_def)

lemma control_answers:
  "ok h \<Longrightarrow> \<exists>h'. coral_writel W PC_START v h = Some h' \<and> ok h'"
  "ok h \<Longrightarrow> \<exists>h'. coral_writel W RESET_CONTROL v h = Some h' \<and> ok h'"
  using writel_answers by (simp_all add: coral_writel_def)

lemma start_sequence_answers:
  assumes "ok h"
  shows "\<exists>h1 h2 h3. coral_writel W PC_START entry h = Some h1 \<and> coral_writel W RESET_CONTROL 1 h1 = Some h2 \<and>
    coral_writel W RESET_CONTROL 0 h2 = Some h3 \<and> ok h3"
  using assms control_answers by meson

lemma poll_status_returns: "ok h \<Longrightarrow> \<exists>v h'. poll_status W n st h = Some (v, h') \<and> ok h'"
proof (induction n arbitrary: st h)
  case (Suc n)
  then obtain v h' where "coral_readl W STATUS h = Some (v, h')" "ok h'" using status_answers by blast
  then show ?case using Suc.IH [of h' v] by auto
qed simp

lemma coral_run_returns:
  assumes "ok h"
  shows "\<exists>r q' k' h'. coral_run W q k h = Some (r, q', k', h') \<and> ok h' \<and>
    (if running k then r = - EBUSY \<and> k' = k \<and> q' = q \<and> h' = h
     else k' = k\<lparr> running := False \<rparr> \<and> r = run_result (ir_status q'))"
proof (cases "running k")
  case False
  obtain h1 h2 h3 where h: "coral_writel W PC_START (ir_entry q) h = Some h1"
    "coral_writel W RESET_CONTROL 1 h1 = Some h2" "coral_writel W RESET_CONTROL 0 h2 = Some h3" "ok h3"
    using start_sequence_answers [OF assms] by blast
  obtain st h4 where "poll_status W (unat (ir_polls q)) 0 h3 = Some (st, h4)" "ok h4"
    using poll_status_returns [OF h(4)] by blast
  then show ?thesis using False h by (simp add: coral_run_def)
qed (use assms in \<open>simp add: coral_run_def\<close>)

lemma coral_start_returns:
  assumes "ok h"
  shows "\<exists>r k' h'. coral_start W entry k h = Some (r, k', h') \<and> ok h' \<and> running k' \<and>
    (if running k then r = - EBUSY \<and> k' = k \<and> h' = h else r = 0 \<and> completion_work k')"
  using start_sequence_answers [OF assms, of entry] assms by (auto simp: coral_start_def)

lemma coral_reset_returns:
  "ok h \<Longrightarrow> \<exists>k' h'. coral_reset W k h = Some (k', h') \<and> ok h' \<and> \<not> running k' \<and> \<not> completion_work k'"
  using control_answers(2) [of h 1] by (auto simp: coral_reset_def wake_up_def)

lemma coral_poll_returns:
  "ok h \<Longrightarrow> \<exists>r k' h'. coral_poll W k h = Some (r, k', h') \<and> ok h' \<and> (r \<noteq> 0 \<longrightarrow> \<not> running k')"
  using status_answers [of h]
  by (auto simp: coral_poll_def poll_mask_def Let_def dest: status_bits)

end

text \<open>
  The end of a run: within \<open>n\<close> reads the status register stops reading zero and reads halted without
  fault. A device with this contract is one that gets there from every admissible state in which the
  driver has programmed it, with time left.
\<close>

primrec halts_within :: "'h reg_window \<Rightarrow> nat \<Rightarrow> 'h \<Rightarrow> bool" where
  "halts_within W 0 h = False"
| "halts_within W (Suc n) h =
     (case io_readl W STATUS h of None \<Rightarrow> False | Some (v, h') \<Rightarrow> v = 1 \<or> v = 0 \<and> halts_within W n h')"

locale halting_device = reg_device +
  fixes fresh :: "'a \<Rightarrow> bool" and bound :: nat
  assumes halts: "ok h \<Longrightarrow> fresh h \<Longrightarrow> io_writel W PC_START entry h = Some h1 \<Longrightarrow>
      io_writel W RESET_CONTROL 1 h1 = Some h2 \<Longrightarrow> io_writel W RESET_CONTROL 0 h2 = Some h3 \<Longrightarrow>
      halts_within W bound h3"
begin

lemma poll_sees_halt: "halts_within W n h \<Longrightarrow> n \<le> m \<Longrightarrow> \<exists>h'. poll_status W m st h = Some (1, h')"
proof (induction n arbitrary: m st h)
  case (Suc n)
  then obtain v h' m' where "io_readl W STATUS h = Some (v, h')" "v = 1 \<or> v = 0 \<and> halts_within W n h'"
    "m = Suc m'" by (cases m) (auto split: option.splits)
  then show ?case using Suc.IH [of h' m'] Suc.prems(2) by (auto simp: coral_readl_def)
qed simp

lemma coral_run_succeeds:
  assumes "ok h" "fresh h" "\<not> running k" "bound \<le> unat (ir_polls q)"
  shows "\<exists>h'. coral_run W q k h = Some (0, q\<lparr> ir_status := 1 \<rparr>, k\<lparr> running := False \<rparr>, h')"
proof -
  obtain h1 h2 h3 where h: "coral_writel W PC_START (ir_entry q) h = Some h1"
    "coral_writel W RESET_CONTROL 1 h1 = Some h2" "coral_writel W RESET_CONTROL 0 h2 = Some h3"
    using start_sequence_answers [OF assms(1)] by blast
  have "halts_within W bound h3" using halts [OF assms(1,2)] h by (simp add: coral_writel_def)
  then obtain h' where "poll_status W (unat (ir_polls q)) 0 h3 = Some (1, h')"
    using poll_sees_halt assms(4) by blast
  then show ?thesis using assms(3) h by (simp add: coral_run_def run_result_def)
qed

end

section \<open>An example\<close>

text \<open>Hardware that answers with fixed window registers and records the writes.\<close>

definition log_window :: "u32 \<Rightarrow> u32 \<Rightarrow> (u32 \<times> u32) list reg_window" where
  "log_window org n = \<lparr>
     io_readl = (\<lambda>offset h. Some (if offset = SHARED_BASE then org else if offset = SHARED_SIZE then n else 0, h)),
     io_writel = (\<lambda>offset v h. Some (h @ [(offset, v)])) \<rparr>"

definition example_platform :: platform where
  "example_platform = \<lparr> pf_kzalloc = True, pf_resource = Some (0x1d000000, 0x1d03ffff), pf_ioremap = 0,
     pf_memory_region = True, pf_address_to_resource = Inr (0x80000000, 0x80003fff), pf_alloc_chrdev = 0,
     pf_cdev_add = 0, pf_device_create = 0 \<rparr>"

definition example_dev :: opennpux_coral_dev where
  "example_dev = \<lparr> regs_start = 0x1d000000, regs_size = 0x40000, shared_start = 0x80000000, shared_size = 0x4000,
     completion_wq = 0, completion_work = False, running = False, open_count = False \<rparr>"

lemma example_probe:
  "coral_probe (log_window 0x80000000 0x4000) example_platform unregistered h =
     Some (0, Some example_dev, \<lparr> reg_chrdev = True, reg_cdev = True, reg_class_dev = True \<rparr>, h)"
  by (simp add: coral_probe_def example_platform_def log_window_def coral_readl_def abi_defs example_dev_def
      coral_register_def unregistered_def resource_size_def)

section \<open>Mapping and registration\<close>

lemma page_offset_unat: "unat (pg :: u64) < 2 ^ 52 \<Longrightarrow> unat (push_bit 12 pg) = unat pg * 4096"
  by (simp add: push_bit_eq_mult unat_word_ariths)

lemma PAGE_ALIGNED_unat: "PAGE_ALIGNED a \<longleftrightarrow> 4096 dvd unat a"
proof -
  have "unat (a AND 0xfff) = unat a mod 4096" using and_low_mask_unat [of a 12] by (simp add: mask_eq_exp_minus_1)
  then show ?thesis by (simp add: PAGE_ALIGNED_def dvd_eq_mod_eq_0 word_unat_eq_iff)
qed

lemma coral_probe_window:
  assumes "coral_probe W pf r h = Some (0, Some k, r', h')"
  shows "unat (shared_start k) < 2 ^ 32" "unat (shared_size k) < 2 ^ 32" "\<not> running k" "\<not> open_count k"
proof -
  have "\<exists>(a :: u32) (b :: u32). shared_start k = ucast a \<and> shared_size k = ucast b \<and> \<not> running k \<and> \<not> open_count k"
    using assms by (auto simp: coral_probe_def Let_def split: if_splits option.splits sum.splits bind_splits prod.splits) metis
  then show "unat (shared_start k) < 2 ^ 32" "unat (shared_size k) < 2 ^ 32" "\<not> running k" "\<not> open_count k"
    using u32_lt by (auto simp: unat_ucast_u32_u64)
qed

text \<open>
  C31: After a successful probe a mapping is accepted exactly when the shared window starts on a page
  and the pages asked for lie inside it, over the naturals; it then maps the pages of the window from
  the requested one on, and every other request is refused with \<open>EINVAL\<close>.
\<close>

theorem coral_mmap_exact:
  assumes probe: "coral_probe W pf r h = Some (0, Some k, r', h')" and pg: "unat pg < 2 ^ 52" and vm: "vs \<le> ve"
  shows "coral_mmap k pg vs ve =
    (if 4096 dvd unat (shared_start k) \<and> unat pg * 4096 + (unat ve - unat vs) \<le> unat (shared_size k)
     then Inr (of_nat (unat (shared_start k) div 4096 + unat pg), ve - vs) else Inl (- EINVAL))"
proof -
  let ?o = "push_bit 12 pg"
  note off = page_offset_unat [OF pg]
  note b = coral_probe_window(1,2) [OF probe]
  have al: "PAGE_ALIGNED ?o" by (simp add: PAGE_ALIGNED_unat off)
  have n: "unat (ve - vs) = unat ve - unat vs" using vm by (rule unat_sub)
  have cond: "(shared_size k < ?o \<or> shared_size k - ?o < ve - vs) \<longleftrightarrow>
      \<not> unat pg * 4096 + (unat ve - unat vs) \<le> unat (shared_size k)"
  proof (cases "?o \<le> shared_size k")
    case True
    then have "unat (shared_size k - ?o) = unat (shared_size k) - unat pg * 4096" by (simp add: unat_sub off)
    then show ?thesis using True off n by (auto simp: word_less_nat_alt word_le_nat_alt)
  next
    case False
    then show ?thesis using off by (auto simp: word_less_nat_alt word_le_nat_alt)
  qed
  have frame: "drop_bit 12 (shared_start k + ?o) = of_nat (unat (shared_start k) div 4096 + unat pg)"
    if "4096 dvd unat (shared_start k)" "unat pg * 4096 + (unat ve - unat vs) \<le> unat (shared_size k)"
  proof -
    have "unat (shared_start k + ?o) = unat (shared_start k) + unat pg * 4096"
      using that b off by (subst unat_add_nowrap) simp_all
    then have "unat (drop_bit 12 (shared_start k + ?o)) = unat (shared_start k) div 4096 + unat pg"
      using that(1) by (simp add: drop_bit_eq_div unat_div)
    then show ?thesis by (metis word_of_nat_unat)
  qed
  show ?thesis using al cond frame by (simp add: coral_mmap_def PAGE_ALIGNED_unat Let_def)
qed

theorem coral_mmap_exact_witness:
  "coral_mmap example_dev 1 0x7000 0xa000 = Inr (0x80001, 0x3000) \<and>
   coral_mmap example_dev 2 0x7000 0xa000 = Inl (- EINVAL)"
proof -
  have "coral_mmap example_dev 1 0x7000 0xa000 = Inr (of_nat (unat (shared_start example_dev) div 4096 + unat (1 :: u64)), 0xa000 - 0x7000)"
    using coral_mmap_exact [OF example_probe [of "[]"], of 1 "0x7000" "0xa000"] by (simp add: example_dev_def)
  moreover have "coral_mmap example_dev 2 0x7000 0xa000 = Inl (- EINVAL)"
    using coral_mmap_exact [OF example_probe [of "[]"], of 2 "0x7000" "0xa000"] by (simp add: example_dev_def)
  ultimately show ?thesis by (simp add: example_dev_def)
qed



end
