(* ===== verification/Driver_Concurrency.thy ===== *)
theory Driver_Concurrency
  imports Kernel_Driver
begin

text \<open>
  The driver under concurrent calls. Every access to shared state (the registers, the two atomics, the
  delayed work, the lock) is one step of a thread or of the completion worker; the relation \<open>kstep\<close>
  interleaves them. The handlers of \<open>Kernel_Driver\<close> are among the runs of one thread without interference.
  Two pairs of accesses are one step each: the cancelled work with the flag set after it, and the reset
  written with the wake-up and the unlock after it. Queries, mappings and the removal of the driver are not
  steps.
\<close>

section \<open>Concurrent calls\<close>

text \<open>
  Where a thread stands in a call, between two accesses to shared state: it has returned with a value,
  or is about to do the named access of \<open>coral_start\<close>, \<open>coral_reset\<close> (the flag says that it is called by
  \<open>coral_release\<close>), \<open>coral_run\<close> or \<open>coral_poll\<close>.
\<close>

datatype thread_pc =
    Ret int
  | StartCancel u32 | StartPc u32 | StartReset | StartRelease | StartSchedule
  | ResetCancel bool | ResetWrite bool
  | RunPc u32 nat | RunReset nat | RunRelease nat | RunPoll nat u32
  | PollSet u32

datatype worker_pc = WIdle | WStatus | WDecide u32

text \<open>
  \<open>sys_file\<close> says that the device file is open: calls are made on an open file, and the kernel calls
  \<open>coral_release\<close> when no call is in flight.
\<close>

record 'h ksys =
  sys_dev :: opennpux_coral_dev
  sys_hw :: 'h
  sys_lock :: "nat option"
  sys_threads :: "nat \<Rightarrow> thread_pc"
  sys_worker :: worker_pc
  sys_file :: bool

definition goto :: "nat \<Rightarrow> thread_pc \<Rightarrow> 'h ksys \<Rightarrow> 'h ksys" where
  "goto t pc s = s\<lparr> sys_threads := (sys_threads s)(t := pc) \<rparr>"

definition set_running :: "bool \<Rightarrow> 'h ksys \<Rightarrow> 'h ksys" where
  "set_running b s = s\<lparr> sys_dev := (sys_dev s)\<lparr> running := b \<rparr> \<rparr>"

definition set_work :: "bool \<Rightarrow> 'h ksys \<Rightarrow> 'h ksys" where
  "set_work b s = s\<lparr> sys_dev := (sys_dev s)\<lparr> completion_work := b \<rparr> \<rparr>"

definition set_open :: "bool \<Rightarrow> 'h ksys \<Rightarrow> 'h ksys" where
  "set_open b s = s\<lparr> sys_dev := (sys_dev s)\<lparr> open_count := b \<rparr> \<rparr>"

definition wake_waiters :: "'h ksys \<Rightarrow> 'h ksys" where
  "wake_waiters s = s\<lparr> sys_dev := wake_up (sys_dev s) \<rparr>"

lemmas sys_defs = goto_def set_running_def set_work_def set_open_def wake_waiters_def wake_up_def

definition idle :: "nat \<Rightarrow> 'h ksys \<Rightarrow> bool" where
  "idle t s \<longleftrightarrow> (\<exists>r. sys_threads s t = Ret r)"

inductive kstep :: "'h reg_window \<Rightarrow> 'h ksys \<Rightarrow> 'h ksys \<Rightarrow> bool" for W where
  open_busy: "idle t s \<Longrightarrow> open_count (sys_dev s) \<Longrightarrow> kstep W s (goto t (Ret (- EBUSY)) s)"
| open_ok: "idle t s \<Longrightarrow> \<not> open_count (sys_dev s) \<Longrightarrow> kstep W s (goto t (Ret 0) (set_open True s)\<lparr> sys_file := True \<rparr>)"
| start_busy: "sys_file s \<Longrightarrow> idle t s \<Longrightarrow> sys_lock s = None \<Longrightarrow> running (sys_dev s) \<Longrightarrow>
    kstep W s (goto t (Ret (- EBUSY)) s)"
| start_check: "sys_file s \<Longrightarrow> idle t s \<Longrightarrow> sys_lock s = None \<Longrightarrow> \<not> running (sys_dev s) \<Longrightarrow>
    kstep W s (goto t (StartCancel e) s\<lparr> sys_lock := Some t \<rparr>)"
| start_cancel: "sys_threads s t = StartCancel e \<Longrightarrow> sys_worker s = WIdle \<Longrightarrow>
    kstep W s (goto t (StartPc e) (set_running True (set_work False s)))"
| start_pc: "sys_threads s t = StartPc e \<Longrightarrow> coral_writel W PC_START e (sys_hw s) = Some h \<Longrightarrow>
    kstep W s (goto t StartReset s\<lparr> sys_hw := h \<rparr>)"
| start_reset: "sys_threads s t = StartReset \<Longrightarrow> coral_writel W RESET_CONTROL 1 (sys_hw s) = Some h \<Longrightarrow>
    kstep W s (goto t StartRelease s\<lparr> sys_hw := h \<rparr>)"
| start_release: "sys_threads s t = StartRelease \<Longrightarrow> coral_writel W RESET_CONTROL 0 (sys_hw s) = Some h \<Longrightarrow>
    kstep W s (goto t StartSchedule s\<lparr> sys_hw := h \<rparr>)"
| start_schedule: "sys_threads s t = StartSchedule \<Longrightarrow>
    kstep W s (goto t (Ret 0) (set_work True s)\<lparr> sys_lock := None \<rparr>)"
| reset_begin: "sys_file s \<Longrightarrow> idle t s \<Longrightarrow> sys_lock s = None \<Longrightarrow>
    kstep W s (goto t (ResetCancel False) (set_running False s)\<lparr> sys_lock := Some t \<rparr>)"
| reset_cancel: "sys_threads s t = ResetCancel c \<Longrightarrow> sys_worker s = WIdle \<Longrightarrow>
    kstep W s (goto t (ResetWrite c) (set_work False s))"
| reset_write: "sys_threads s t = ResetWrite c \<Longrightarrow> coral_writel W RESET_CONTROL 1 (sys_hw s) = Some h \<Longrightarrow>
    kstep W s (goto t (Ret 0) (wake_waiters (if c then set_open False s else s))\<lparr> sys_hw := h, sys_lock := None \<rparr>)"
| run_busy: "sys_file s \<Longrightarrow> idle t s \<Longrightarrow> running (sys_dev s) \<Longrightarrow> kstep W s (goto t (Ret (- EBUSY)) s)"
| run_begin: "sys_file s \<Longrightarrow> idle t s \<Longrightarrow> \<not> running (sys_dev s) \<Longrightarrow>
    kstep W s (goto t (RunPc e n) (set_running True s))"
| run_pc: "sys_threads s t = RunPc e n \<Longrightarrow> coral_writel W PC_START e (sys_hw s) = Some h \<Longrightarrow>
    kstep W s (goto t (RunReset n) s\<lparr> sys_hw := h \<rparr>)"
| run_reset: "sys_threads s t = RunReset n \<Longrightarrow> coral_writel W RESET_CONTROL 1 (sys_hw s) = Some h \<Longrightarrow>
    kstep W s (goto t (RunRelease n) s\<lparr> sys_hw := h \<rparr>)"
| run_release: "sys_threads s t = RunRelease n \<Longrightarrow> coral_writel W RESET_CONTROL 0 (sys_hw s) = Some h \<Longrightarrow>
    kstep W s (goto t (RunPoll n 0) s\<lparr> sys_hw := h \<rparr>)"
| run_poll: "sys_threads s t = RunPoll (Suc n) st \<Longrightarrow> st AND 0x3 = 0 \<Longrightarrow>
    coral_readl W STATUS (sys_hw s) = Some (st', h) \<Longrightarrow> kstep W s (goto t (RunPoll n st') s\<lparr> sys_hw := h \<rparr>)"
| run_end: "sys_threads s t = RunPoll n st \<Longrightarrow> n = 0 \<or> st AND 0x3 \<noteq> 0 \<Longrightarrow>
    kstep W s (goto t (Ret (run_result st)) (set_running False s))"
| poll_read: "sys_file s \<Longrightarrow> idle t s \<Longrightarrow> coral_readl W STATUS (sys_hw s) = Some (st, h) \<Longrightarrow>
    kstep W s (goto t (PollSet st) s\<lparr> sys_hw := h \<rparr>)"
| poll_set: "sys_threads s t = PollSet st \<Longrightarrow>
    kstep W s (goto t (Ret (poll_mask st)) (if st AND 0x3 \<noteq> 0 then set_running False s else s))"
| release_idle: "sys_file s \<Longrightarrow> \<forall>t. idle t s \<Longrightarrow> \<not> running (sys_dev s) \<Longrightarrow>
    kstep W s (goto t (Ret 0) (set_open False s)\<lparr> sys_file := False \<rparr>)"
| release_reset: "sys_file s \<Longrightarrow> \<forall>t. idle t s \<Longrightarrow> running (sys_dev s) \<Longrightarrow>
    kstep W s (goto t (ResetCancel True) (set_running False s)\<lparr> sys_lock := Some t, sys_file := False \<rparr>)"
| work_begin: "completion_work (sys_dev s) \<Longrightarrow> sys_worker s = WIdle \<Longrightarrow>
    kstep W s ((set_work False s)\<lparr> sys_worker := if running (sys_dev s) then WStatus else WIdle \<rparr>)"
| work_read: "sys_worker s = WStatus \<Longrightarrow> coral_readl W STATUS (sys_hw s) = Some (st, h) \<Longrightarrow>
    kstep W s (s\<lparr> sys_worker := WDecide st, sys_hw := h \<rparr>)"
| work_done: "sys_worker s = WDecide st \<Longrightarrow> st AND 0x3 \<noteq> 0 \<Longrightarrow>
    kstep W s ((wake_waiters (set_running False s))\<lparr> sys_worker := WIdle \<rparr>)"
| work_again: "sys_worker s = WDecide st \<Longrightarrow> st AND 0x3 = 0 \<Longrightarrow>
    kstep W s ((if running (sys_dev s) then set_work True s else s)\<lparr> sys_worker := WIdle \<rparr>)"

text \<open>The state after a successful probe.\<close>

definition ksys_init :: "opennpux_coral_dev \<Rightarrow> 'h \<Rightarrow> 'h ksys" where
  "ksys_init k h = \<lparr> sys_dev = k, sys_hw = h, sys_lock = None, sys_threads = (\<lambda>t. Ret 0), sys_worker = WIdle,
     sys_file = False \<rparr>"

section \<open>Invariant of the concurrent driver\<close>

fun holds_lock :: "thread_pc \<Rightarrow> bool" where
  "holds_lock (StartCancel e) = True" | "holds_lock (StartPc e) = True" | "holds_lock StartReset = True"
| "holds_lock StartRelease = True" | "holds_lock StartSchedule = True" | "holds_lock (ResetCancel c) = True"
| "holds_lock (ResetWrite c) = True" | "holds_lock pc = False"

fun in_run :: "thread_pc \<Rightarrow> bool" where
  "in_run (RunPc e n) = True" | "in_run (RunReset n) = True" | "in_run (RunRelease n) = True"
| "in_run (RunPoll n st) = True" | "in_run pc = False"

fun in_start :: "thread_pc \<Rightarrow> bool" where
  "in_start (StartPc e) = True" | "in_start StartReset = True" | "in_start StartRelease = True"
| "in_start StartSchedule = True" | "in_start pc = False"

fun in_reset :: "thread_pc \<Rightarrow> bool" where
  "in_reset (ResetCancel c) = True" | "in_reset (ResetWrite c) = True" | "in_reset pc = False"

fun closing :: "thread_pc \<Rightarrow> bool" where
  "closing (ResetCancel c) = c" | "closing (ResetWrite c) = c" | "closing pc = False"

definition lock_inv :: "'h ksys \<Rightarrow> bool" where
  "lock_inv s \<longleftrightarrow> (\<forall>t. holds_lock (sys_threads s t) \<longleftrightarrow> sys_lock s = Some t)"

definition file_inv :: "'h ksys \<Rightarrow> bool" where
  "file_inv s \<longleftrightarrow> (sys_file s \<longrightarrow> open_count (sys_dev s) \<and> (\<forall>t. \<not> closing (sys_threads s t))) \<and>
     (\<not> sys_file s \<longrightarrow> \<not> running (sys_dev s) \<and> (\<forall>t. idle t s \<or> closing (sys_threads s t)) \<and>
       (open_count (sys_dev s) \<longleftrightarrow> (\<exists>t. closing (sys_threads s t))))"

definition owner_inv :: "'h ksys \<Rightarrow> bool" where
  "owner_inv s \<longleftrightarrow> (running (sys_dev s) \<longrightarrow>
     ((\<exists>t. in_run (sys_threads s t)) \<or>
      (\<forall>t. \<not> in_reset (sys_threads s t)) \<and>
      (completion_work (sys_dev s) \<or> sys_worker s \<noteq> WIdle \<or> (\<exists>t. in_start (sys_threads s t)))))"

lemma idle_no_pc [simp]: "sys_threads s t = Ret r \<Longrightarrow> idle t s"
  by (simp add: idle_def)

lemma idle_facts:
  "idle t s \<Longrightarrow> \<not> holds_lock (sys_threads s t)" "idle t s \<Longrightarrow> \<not> in_run (sys_threads s t)"
  "idle t s \<Longrightarrow> \<not> in_start (sys_threads s t)" "idle t s \<Longrightarrow> \<not> in_reset (sys_threads s t)"
  "idle t s \<Longrightarrow> \<not> closing (sys_threads s t)"
  by (auto simp: idle_def)

lemma sys_sel [simp]:
  "sys_threads (goto t pc s) = (sys_threads s)(t := pc)" "sys_dev (goto t pc s) = sys_dev s"
  "sys_lock (goto t pc s) = sys_lock s" "sys_worker (goto t pc s) = sys_worker s"
  "sys_file (goto t pc s) = sys_file s" "sys_hw (goto t pc s) = sys_hw s"
  "sys_threads (set_running b s) = sys_threads s" "sys_lock (set_running b s) = sys_lock s"
  "sys_worker (set_running b s) = sys_worker s" "sys_file (set_running b s) = sys_file s"
  "sys_hw (set_running b s) = sys_hw s"
  "sys_threads (set_work b s) = sys_threads s" "sys_lock (set_work b s) = sys_lock s"
  "sys_worker (set_work b s) = sys_worker s" "sys_file (set_work b s) = sys_file s" "sys_hw (set_work b s) = sys_hw s"
  "sys_threads (set_open b s) = sys_threads s" "sys_lock (set_open b s) = sys_lock s"
  "sys_worker (set_open b s) = sys_worker s" "sys_file (set_open b s) = sys_file s" "sys_hw (set_open b s) = sys_hw s"
  "sys_threads (wake_waiters s) = sys_threads s" "sys_lock (wake_waiters s) = sys_lock s"
  "sys_worker (wake_waiters s) = sys_worker s" "sys_file (wake_waiters s) = sys_file s"
  "sys_hw (wake_waiters s) = sys_hw s"
  by (simp_all add: sys_defs)

lemma dev_sel [simp]:
  "running (sys_dev (set_running b s)) = b" "running (sys_dev (set_work b s)) = running (sys_dev s)"
  "running (sys_dev (set_open b s)) = running (sys_dev s)" "running (sys_dev (wake_waiters s)) = running (sys_dev s)"
  "completion_work (sys_dev (set_running b s)) = completion_work (sys_dev s)"
  "completion_work (sys_dev (set_work b s)) = b"
  "completion_work (sys_dev (set_open b s)) = completion_work (sys_dev s)"
  "completion_work (sys_dev (wake_waiters s)) = completion_work (sys_dev s)"
  "open_count (sys_dev (set_running b s)) = open_count (sys_dev s)"
  "open_count (sys_dev (set_work b s)) = open_count (sys_dev s)" "open_count (sys_dev (set_open b s)) = b"
  "open_count (sys_dev (wake_waiters s)) = open_count (sys_dev s)"
  by (simp_all add: sys_defs)

lemma idle_sel [simp]:
  "idle u (goto t pc s) \<longleftrightarrow> (if u = t then (\<exists>r. pc = Ret r) else idle u s)"
  "idle u (s\<lparr> sys_lock := l \<rparr>) = idle u s" "idle u (s\<lparr> sys_hw := h \<rparr>) = idle u s"
  "idle u (s\<lparr> sys_file := f \<rparr>) = idle u s" "idle u (s\<lparr> sys_worker := w \<rparr>) = idle u s"
  "idle u (set_running b s) = idle u s" "idle u (set_work b s) = idle u s" "idle u (set_open b s) = idle u s"
  "idle u (wake_waiters s) = idle u s"
  by (simp_all add: idle_def)

text \<open>The lock belongs to the thread inside the locked part of a call.\<close>

lemma lock_inv_same:
  "lock_inv s \<Longrightarrow> sys_lock s' = sys_lock s \<Longrightarrow> sys_threads s' = (sys_threads s)(t := pc) \<Longrightarrow>
   holds_lock pc = holds_lock (sys_threads s t) \<Longrightarrow> lock_inv s'"
  by (simp add: lock_inv_def)

lemma lock_inv_acquire:
  "lock_inv s \<Longrightarrow> sys_lock s = None \<Longrightarrow> sys_lock s' = Some t \<Longrightarrow> sys_threads s' = (sys_threads s)(t := pc) \<Longrightarrow>
   holds_lock pc \<Longrightarrow> lock_inv s'"
  by (auto simp: lock_inv_def)

lemma lock_inv_free:
  "lock_inv s \<Longrightarrow> holds_lock (sys_threads s t) \<Longrightarrow> sys_lock s' = None \<Longrightarrow>
   sys_threads s' = (sys_threads s)(t := pc) \<Longrightarrow> \<not> holds_lock pc \<Longrightarrow> lock_inv s'"
  by (auto simp: lock_inv_def)

lemma lock_inv_other: "lock_inv s \<Longrightarrow> sys_lock s' = sys_lock s \<Longrightarrow> sys_threads s' = sys_threads s \<Longrightarrow> lock_inv s'"
  by (simp add: lock_inv_def)

lemma lock_inv_idle: "lock_inv s \<Longrightarrow> \<forall>t. idle t s \<Longrightarrow> sys_lock s = None"
  using idle_facts(1) by (metis lock_inv_def not_Some_eq)

lemma lock_inv_step: 
  assumes "kstep W s s'" "lock_inv s"
  shows "lock_inv s'"
  using assms
proof (cases rule: kstep.cases)
  case (start_check t e)
  then show ?thesis using assms(2) by (intro lock_inv_acquire [of s s' t]) auto
next
  case (start_schedule t)
  then show ?thesis using assms(2) by (intro lock_inv_free [of s t s']) auto
next
  case (reset_begin t)
  then show ?thesis using assms(2) by (intro lock_inv_acquire [of s s' t]) auto
next
  case (reset_write t c h)
  then show ?thesis using assms(2) by (intro lock_inv_free [of s t s']) auto
next
  case (release_reset t)
  then show ?thesis using assms(2) lock_inv_idle [OF assms(2)] by (intro lock_inv_acquire [of s s' t]) auto
next
  case (release_idle t)
  then show ?thesis using assms(2) idle_facts(1) [of t s] by (intro lock_inv_same [of s s' t "Ret 0"]) auto
qed (auto intro: lock_inv_same [OF assms(2)] lock_inv_other [OF assms(2)] dest: idle_facts(1))

text \<open>The device is open while its file is, and stays so until a closing reset has finished.\<close>

lemma file_inv_thread:
  assumes "file_inv s" "sys_threads s' = (sys_threads s)(t := pc)" "sys_file s' = sys_file s"
    "open_count (sys_dev s') = open_count (sys_dev s)" "running (sys_dev s') \<longrightarrow> running (sys_dev s) \<or> sys_file s"
    "closing pc = closing (sys_threads s t)" "\<not> sys_file s \<longrightarrow> idle t s \<longrightarrow> (\<exists>r. pc = Ret r)"
  shows "file_inv s'"
  using assms by (auto simp: file_inv_def idle_def)

lemma file_inv_worker:
  assumes "file_inv s" "sys_threads s' = sys_threads s" "sys_file s' = sys_file s"
    "open_count (sys_dev s') = open_count (sys_dev s)" "running (sys_dev s') \<longrightarrow> running (sys_dev s)"
  shows "file_inv s'"
  using assms by (auto simp: file_inv_def idle_def)

lemma file_inv_busy:
  assumes "file_inv s" "\<not> closing (sys_threads s t)" "\<not> idle t s"
  shows "sys_file s"
  using assms by (auto simp: file_inv_def)

lemma closing_unique:
  assumes "lock_inv s" "closing (sys_threads s t)" "closing (sys_threads s u)"
  shows "t = u"
proof -
  have "holds_lock pc" if "closing pc" for pc using that by (cases pc) auto
  then show ?thesis using assms by (metis lock_inv_def option.inject)
qed

lemma file_inv_step:
  assumes st: "kstep W s s'" and "lock_inv s" and inv: "file_inv s"
  shows "file_inv s'"
  using st
proof (cases rule: kstep.cases)
  case (open_ok t)
  then have "\<not> sys_file s" using inv by (auto simp: file_inv_def)
  moreover have "\<not> closing (sys_threads s u)" for u using open_ok calculation inv by (auto simp: file_inv_def)
  ultimately show ?thesis using open_ok inv by (auto simp: file_inv_def)
next
  case (reset_write t c h)
  show ?thesis
  proof (cases c)
    case True
    then have c: "closing (sys_threads s t)" using reset_write by simp
    then have "\<not> sys_file s" using inv by (auto simp: file_inv_def)
    moreover have "\<not> closing (sys_threads s u)" if "u \<noteq> t" for u using closing_unique [OF assms(2) c] that by blast
    ultimately show ?thesis using True reset_write inv by (auto simp: file_inv_def)
  next
    case False
    then have "sys_file s" using reset_write by (intro file_inv_busy [OF inv, of t]) (auto simp: idle_def)
    then show ?thesis using False reset_write inv by (auto simp: file_inv_def)
  qed
next
  case (release_idle t)
  then show ?thesis using inv by (auto simp: file_inv_def idle_facts)
next
  case (release_reset t)
  then show ?thesis using inv by (auto simp: file_inv_def idle_facts)
next
  case (start_cancel t e)
  then have "sys_file s" by (intro file_inv_busy [OF inv, of t]) (auto simp: idle_def)
  then show ?thesis using start_cancel inv by (auto simp: file_inv_def)
qed (auto intro: file_inv_thread [OF inv] file_inv_worker [OF inv] simp: idle_facts idle_def split: if_splits)

text \<open>While the device is busy some thread or the worker is going to see the end of its run.\<close>

lemma owner_inv_off: "\<not> running (sys_dev s) \<Longrightarrow> owner_inv s"
  by (simp add: owner_inv_def)

lemma owner_inv_run: "in_run (sys_threads s t) \<Longrightarrow> owner_inv s"
  by (auto simp: owner_inv_def)

lemma same_elsewhere:
  "P pc = P (f t) \<Longrightarrow> (\<exists>u. P ((f(t := pc)) u)) = (\<exists>u. P (f u))"
  "P pc = P (f t) \<Longrightarrow> (\<forall>u. \<not> P ((f(t := pc)) u)) = (\<forall>u. \<not> P (f u))"
  by (metis fun_upd_apply)+

lemma owner_inv_same:
  assumes "owner_inv s" "sys_threads s' = (sys_threads s)(t := pc)" "running (sys_dev s') \<longrightarrow> running (sys_dev s)"
    "completion_work (sys_dev s') = completion_work (sys_dev s)" "sys_worker s' = sys_worker s"
    "in_run pc = in_run (sys_threads s t)" "in_start pc = in_start (sys_threads s t)"
    "in_reset pc = in_reset (sys_threads s t)"
  shows "owner_inv s'"
  using assms(1,3) unfolding owner_inv_def assms(2,4,5)
    same_elsewhere(1) [where P = in_run and f = "sys_threads s", OF assms(6)]
    same_elsewhere(1) [where P = in_start and f = "sys_threads s", OF assms(7)]
    same_elsewhere(2) [where P = in_reset and f = "sys_threads s", OF assms(8)]
  by blast

lemma in_reset_lock:
  assumes "lock_inv s" "holds_lock (sys_threads s t)" "u \<noteq> t"
  shows "\<not> in_reset (sys_threads s u)"
proof
  assume "in_reset (sys_threads s u)"
  then have "holds_lock (sys_threads s u)" by (cases "sys_threads s u") auto
  then show False using assms by (simp add: lock_inv_def)
qed

lemma owner_inv_busy:
  assumes "\<And>u. \<not> in_reset (sys_threads s u)"
    "completion_work (sys_dev s) \<or> sys_worker s \<noteq> WIdle \<or> in_start (sys_threads s t)"
  shows "owner_inv s"
  using assms unfolding owner_inv_def by blast

lemma owner_inv_resetting:
  assumes "owner_inv s" "in_reset (sys_threads s t)" "sys_threads s' = (sys_threads s)(t := pc)"
    "running (sys_dev s') \<longrightarrow> running (sys_dev s)"
  shows "owner_inv s'"
proof (cases "running (sys_dev s')")
  case True
  then obtain u where u: "in_run (sys_threads s u)" using assms unfolding owner_inv_def by blast
  then have "u \<noteq> t" using assms(2) by (cases "sys_threads s t") auto
  then show ?thesis using u assms(3) by (intro owner_inv_run [of _ u]) simp
qed (simp add: owner_inv_off)

lemma owner_inv_step:
  assumes st: "kstep W s s'" and lock: "lock_inv s" and inv: "owner_inv s"
  shows "owner_inv s'"
  using st
proof (cases rule: kstep.cases)
  case (start_cancel t e)
  then show ?thesis using in_reset_lock [OF lock, of t] by (intro owner_inv_busy [of _ t]) simp_all
next
  case (start_schedule t)
  then show ?thesis using in_reset_lock [OF lock, of t] by (intro owner_inv_busy [of _ t]) simp_all
next
  case (reset_cancel t c)
  then show ?thesis by (intro owner_inv_resetting [OF inv, of t]) simp_all
next
  case (reset_write t c h)
  then show ?thesis by (intro owner_inv_resetting [OF inv, of t]) simp_all
next
  case (run_begin t e n)
  then show ?thesis by (intro owner_inv_run [of _ t]) simp
next
  case (run_poll t n st st' h)
  then show ?thesis by (intro owner_inv_run [of _ t]) simp
next
  case (poll_set t st)
  then show ?thesis by (cases "st AND 3 = 0") (simp_all add: owner_inv_off owner_inv_same [OF inv])
next
  case (work_begin)
  then show ?thesis using inv by (simp add: owner_inv_def)
next
  case (work_read st h)
  then show ?thesis using inv by (simp add: owner_inv_def)
next
  case (work_again st)
  then show ?thesis using inv by (cases "running (sys_dev s)") (simp_all add: owner_inv_def)
qed (simp_all add: owner_inv_off owner_inv_same [OF inv] idle_facts)

definition kinv :: "'h ksys \<Rightarrow> bool" where
  "kinv s \<longleftrightarrow> lock_inv s \<and> file_inv s \<and> owner_inv s"

lemma kinv_step: "kstep W s s' \<Longrightarrow> kinv s \<Longrightarrow> kinv s'"
  by (auto simp: kinv_def intro: lock_inv_step file_inv_step owner_inv_step)

lemma kinv_reachable: "(kstep W)\<^sup>*\<^sup>* s s' \<Longrightarrow> kinv s \<Longrightarrow> kinv s'"
  by (induction rule: rtranclp_induct) (auto intro: kinv_step)

lemma kinv_init: "\<not> running k \<Longrightarrow> \<not> open_count k \<Longrightarrow> kinv (ksys_init k h)"
  by (simp add: kinv_def lock_inv_def file_inv_def owner_inv_def ksys_init_def idle_def)

section \<open>Calls without interference\<close>

lemma steps_cons: "kstep W s s1 \<Longrightarrow> (kstep W)\<^sup>*\<^sup>* s1 s2 \<Longrightarrow> (kstep W)\<^sup>*\<^sup>* s s2"
  by (rule converse_rtranclp_into_rtranclp)

lemma steps_end: "kstep W s s1 \<Longrightarrow> s1 = s2 \<Longrightarrow> (kstep W)\<^sup>*\<^sup>* s s2"
  by auto

lemma start_steps:
  assumes f: "sys_file s" and i: "idle t s" and l: "sys_lock s = None" and w: "sys_worker s = WIdle"
    and c: "coral_start W e (sys_dev s) (sys_hw s) = Some (r, k, h)"
  shows "(kstep W)\<^sup>*\<^sup>* s (goto t (Ret r) s\<lparr> sys_dev := k, sys_hw := h \<rparr>)"
proof (cases "running (sys_dev s)")
  case True
  then have "kstep W s (goto t (Ret r) s\<lparr> sys_dev := k, sys_hw := h \<rparr>)"
    using c kstep.start_busy [OF f i l True] by (auto simp: coral_start_def goto_def)
  then show ?thesis by (rule r_into_rtranclp)
next
  case False
  obtain h1 h2 where h1: "coral_writel W PC_START e (sys_hw s) = Some h1"
    and h2: "coral_writel W RESET_CONTROL 1 h1 = Some h2" and h3: "coral_writel W RESET_CONTROL 0 h2 = Some h"
    and k: "k = (sys_dev s)\<lparr> completion_work := True, running := True \<rparr>" "r = 0"
    using c False by (auto simp: coral_start_def split: bind_splits)
  let ?s1 = "goto t (StartCancel e) s\<lparr> sys_lock := Some t \<rparr>"
  let ?s2 = "goto t (StartPc e) (set_running True (set_work False ?s1))"
  let ?s3 = "goto t StartReset ?s2\<lparr> sys_hw := h1 \<rparr>"
  let ?s4 = "goto t StartRelease ?s3\<lparr> sys_hw := h2 \<rparr>"
  let ?s5 = "goto t StartSchedule ?s4\<lparr> sys_hw := h \<rparr>"
  let ?s6 = "goto t (Ret 0) (set_work True ?s5)\<lparr> sys_lock := None \<rparr>"
  have a1: "kstep W s ?s1" using kstep.start_check [OF f i l False] .
  have a2: "kstep W ?s1 ?s2" using w by (intro kstep.start_cancel) simp_all
  have a3: "kstep W ?s2 ?s3" using h1 by (intro kstep.start_pc) simp_all
  have a4: "kstep W ?s3 ?s4" using h2 by (intro kstep.start_reset) simp_all
  have a5: "kstep W ?s4 ?s5" using h3 by (intro kstep.start_release) simp_all
  have a6: "kstep W ?s5 ?s6" by (intro kstep.start_schedule) simp
  have eq: "?s6 = goto t (Ret r) s\<lparr> sys_dev := k, sys_hw := h \<rparr>"
    using l k by (simp add: sys_defs)
  show ?thesis by (rule steps_cons [OF a1 steps_cons [OF a2 steps_cons [OF a3 steps_cons [OF a4 steps_cons [OF a5 steps_end [OF a6 eq]]]]]])
qed

lemma reset_steps:
  assumes f: "sys_file s" and i: "idle t s" and l: "sys_lock s = None" and w: "sys_worker s = WIdle"
    and c: "coral_reset W (sys_dev s) (sys_hw s) = Some (k, h)"
  shows "(kstep W)\<^sup>*\<^sup>* s (goto t (Ret 0) s\<lparr> sys_dev := k, sys_hw := h \<rparr>)"
proof -
  have h: "coral_writel W RESET_CONTROL 1 (sys_hw s) = Some h"
    and k: "k = wake_up ((sys_dev s)\<lparr> running := False, completion_work := False \<rparr>)"
    using c by (auto simp: coral_reset_def split: bind_splits)
  let ?s1 = "goto t (ResetCancel False) (set_running False s)\<lparr> sys_lock := Some t \<rparr>"
  let ?s2 = "goto t (ResetWrite False) (set_work False ?s1)"
  let ?s3 = "goto t (Ret 0) (wake_waiters (if False then set_open False ?s2 else ?s2))\<lparr> sys_hw := h, sys_lock := None \<rparr>"
  have a1: "kstep W s ?s1" using kstep.reset_begin [OF f i l] .
  have a2: "kstep W ?s1 ?s2" using w by (intro kstep.reset_cancel) simp_all
  have a3: "kstep W ?s2 ?s3" using h by (intro kstep.reset_write) simp_all
  have eq: "?s3 = goto t (Ret 0) s\<lparr> sys_dev := k, sys_hw := h \<rparr>" using l k by (simp add: sys_defs)
  show ?thesis by (rule steps_cons [OF a1 steps_cons [OF a2 steps_end [OF a3 eq]]])
qed

lemma poll_status_steps:
  assumes "sys_threads s t = RunPoll n st" "st AND 0x3 = 0" "poll_status W n st (sys_hw s) = Some (st', h)"
  shows "\<exists>m. (kstep W)\<^sup>*\<^sup>* s (goto t (RunPoll m st') s\<lparr> sys_hw := h \<rparr>) \<and> (m = 0 \<or> st' AND 0x3 \<noteq> 0)"
  using assms
proof (induction n arbitrary: s st)
  case 0
  then show ?case by (intro exI [of _ 0]) (auto simp: goto_def fun_upd_idem)
next
  case (Suc n)
  then obtain st1 h1 where r: "coral_readl W STATUS (sys_hw s) = Some (st1, h1)"
    and q: "if st1 AND 0x3 \<noteq> 0 then st' = st1 \<and> h = h1 else poll_status W n st1 h1 = Some (st', h)"
    by (auto split: bind_splits if_splits)
  let ?s1 = "goto t (RunPoll n st1) s\<lparr> sys_hw := h1 \<rparr>"
  have step: "kstep W s ?s1" using Suc.prems r by (intro kstep.run_poll) auto
  show ?case
  proof (cases "st1 AND 0x3 \<noteq> 0")
    case True
    then show ?thesis using q step by (intro exI [of _ n]) auto
  next
    case False
    then obtain m where "(kstep W)\<^sup>*\<^sup>* ?s1 (goto t (RunPoll m st') ?s1\<lparr> sys_hw := h \<rparr>)" "m = 0 \<or> st' AND 0x3 \<noteq> 0"
      using q Suc.IH [of ?s1 st1] by auto
    moreover have "goto t (RunPoll m st') ?s1\<lparr> sys_hw := h \<rparr> = goto t (RunPoll m st') s\<lparr> sys_hw := h \<rparr>"
      by (simp add: goto_def)
    ultimately show ?thesis using steps_cons [OF step] by auto
  qed
qed

lemma run_steps:
  assumes f: "sys_file s" and i: "idle t s"
    and c: "coral_run W q (sys_dev s) (sys_hw s) = Some (r, q', k, h)"
  shows "(kstep W)\<^sup>*\<^sup>* s (goto t (Ret r) s\<lparr> sys_dev := k, sys_hw := h \<rparr>)"
proof (cases "running (sys_dev s)")
  case True
  then have "kstep W s (goto t (Ret r) s\<lparr> sys_dev := k, sys_hw := h \<rparr>)"
    using c kstep.run_busy [OF f i True] by (auto simp: coral_run_def goto_def)
  then show ?thesis by (rule r_into_rtranclp)
next
  case False
  let ?n = "unat (ir_polls q)"
  obtain h1 h2 h3 st where h1: "coral_writel W PC_START (ir_entry q) (sys_hw s) = Some h1"
    and h2: "coral_writel W RESET_CONTROL 1 h1 = Some h2" and h3: "coral_writel W RESET_CONTROL 0 h2 = Some h3"
    and p: "poll_status W ?n 0 h3 = Some (st, h)"
    and k: "k = (sys_dev s)\<lparr> running := False \<rparr>" "r = run_result st"
    using c False by (auto simp: coral_run_def split: bind_splits)
  let ?s1 = "goto t (RunPc (ir_entry q) ?n) (set_running True s)"
  let ?s2 = "goto t (RunReset ?n) ?s1\<lparr> sys_hw := h1 \<rparr>"
  let ?s3 = "goto t (RunRelease ?n) ?s2\<lparr> sys_hw := h2 \<rparr>"
  let ?s4 = "goto t (RunPoll ?n 0) ?s3\<lparr> sys_hw := h3 \<rparr>"
  have s: "kstep W s ?s1" "kstep W ?s1 ?s2" "kstep W ?s2 ?s3" "kstep W ?s3 ?s4"
    using kstep.run_begin [OF f i False] h1 h2 h3
    by (simp, (intro kstep.run_pc kstep.run_reset kstep.run_release; simp)+)
  obtain m where m: "(kstep W)\<^sup>*\<^sup>* ?s4 (goto t (RunPoll m st) ?s4\<lparr> sys_hw := h \<rparr>)" "m = 0 \<or> st AND 0x3 \<noteq> 0"
    using poll_status_steps [of ?s4 t ?n 0 W st h] p by auto
  let ?s5 = "goto t (RunPoll m st) ?s4\<lparr> sys_hw := h \<rparr>"
  have "kstep W ?s5 (goto t (Ret (run_result st)) (set_running False ?s5))"
    using m(2) by (intro kstep.run_end) simp_all
  moreover have "goto t (Ret (run_result st)) (set_running False ?s5) = goto t (Ret r) s\<lparr> sys_dev := k, sys_hw := h \<rparr>"
    using k by (simp add: sys_defs)
  ultimately have "(kstep W)\<^sup>*\<^sup>* ?s4 (goto t (Ret r) s\<lparr> sys_dev := k, sys_hw := h \<rparr>)"
    using m(1) by (metis rtranclp.rtrancl_into_rtrancl)
  then show ?thesis using s by (meson steps_cons)
qed

lemma poll_steps:
  assumes f: "sys_file s" and i: "idle t s" and c: "coral_poll W (sys_dev s) (sys_hw s) = Some (r, k, h)"
  shows "(kstep W)\<^sup>*\<^sup>* s (goto t (Ret r) s\<lparr> sys_dev := k, sys_hw := h \<rparr>)"
proof -
  obtain st where st: "coral_readl W STATUS (sys_hw s) = Some (st, h)" and r: "r = poll_mask st"
    and k: "k = (if st AND 0x3 \<noteq> 0 then (sys_dev s)\<lparr> running := False \<rparr> else sys_dev s)"
    using c by (auto simp: coral_poll_def Let_def split: bind_splits)
  let ?s1 = "goto t (PollSet st) s\<lparr> sys_hw := h \<rparr>"
  let ?s2 = "goto t (Ret (poll_mask st)) (if st AND 0x3 \<noteq> 0 then set_running False ?s1 else ?s1)"
  have a1: "kstep W s ?s1" using kstep.poll_read [OF f i st] .
  have a2: "kstep W ?s1 ?s2" by (intro kstep.poll_set) simp
  have eq: "?s2 = goto t (Ret r) s\<lparr> sys_dev := k, sys_hw := h \<rparr>" using k r by (simp add: sys_defs)
  show ?thesis by (rule steps_cons [OF a1 steps_end [OF a2 eq]])
qed

lemma work_steps:
  assumes p: "completion_work (sys_dev s)" and w: "sys_worker s = WIdle"
    and c: "coral_completion_work W ((sys_dev s)\<lparr> completion_work := False \<rparr>) (sys_hw s) = Some (k, h)"
  shows "(kstep W)\<^sup>*\<^sup>* s (s\<lparr> sys_dev := k, sys_hw := h \<rparr>)"
proof (cases "running (sys_dev s)")
  case False
  then have "kstep W s ((set_work False s)\<lparr> sys_worker := WIdle \<rparr>)" using kstep.work_begin [OF p w] by simp
  moreover have "(set_work False s)\<lparr> sys_worker := WIdle \<rparr> = s\<lparr> sys_dev := k, sys_hw := h \<rparr>"
    using False c w by (simp add: coral_completion_work_def sys_defs)
  ultimately show ?thesis by (rule steps_end)
next
  case True
  let ?k = "(sys_dev s)\<lparr> completion_work := False \<rparr>"
  let ?s1 = "(set_work False s)\<lparr> sys_worker := WStatus \<rparr>"
  have a1: "kstep W s ?s1" using kstep.work_begin [OF p w] True by simp
  obtain st where st: "coral_readl W STATUS (sys_hw s) = Some (st, h)"
    and k: "k = (if st AND 0x3 \<noteq> 0 then wake_up (?k\<lparr> running := False \<rparr>) else ?k\<lparr> completion_work := True \<rparr>)"
    using c True by (auto simp: coral_completion_work_def split: bind_splits if_splits)
  let ?s2 = "?s1\<lparr> sys_worker := WDecide st, sys_hw := h \<rparr>"
  have a2: "kstep W ?s1 ?s2" using st by (intro kstep.work_read) simp_all
  show ?thesis
  proof (cases "st AND 0x3 = 0")
    case False
    have a3: "kstep W ?s2 ((wake_waiters (set_running False ?s2))\<lparr> sys_worker := WIdle \<rparr>)"
      using False by (intro kstep.work_done) simp_all
    have eq: "(wake_waiters (set_running False ?s2))\<lparr> sys_worker := WIdle \<rparr> = s\<lparr> sys_dev := k, sys_hw := h \<rparr>"
      using False k w by (simp add: sys_defs)
    show ?thesis by (rule steps_cons [OF a1 steps_cons [OF a2 steps_end [OF a3 eq]]])
  next
    case b: True
    have a3: "kstep W ?s2 ((if running (sys_dev ?s2) then set_work True ?s2 else ?s2)\<lparr> sys_worker := WIdle \<rparr>)"
      using b by (intro kstep.work_again) simp_all
    have eq: "(if running (sys_dev ?s2) then set_work True ?s2 else ?s2)\<lparr> sys_worker := WIdle \<rparr> = s\<lparr> sys_dev := k, sys_hw := h \<rparr>"
      using b True k w by (simp add: sys_defs)
    show ?thesis by (rule steps_cons [OF a1 steps_cons [OF a2 steps_end [OF a3 eq]]])
  qed
qed

section \<open>Properties\<close>

text \<open>
  C9: In every state the driver can reach after its probe, under any interleaving of calls and of the
  completion worker, the lock is held by exactly the thread that is inside the locked part of a start or
  a reset, so at most one thread is there and the lock is free when none is; a busy device is open and some thread or the queued or running worker is still going to see the end of its run,
  and no call is in progress on a device that can be opened again.
\<close>

theorem driver_concurrent_invariant:
  assumes "coral_probe W pf r h0 = Some (0, Some k, r', h)" and "(kstep W)\<^sup>*\<^sup>* (ksys_init k h) s"
  shows "(\<forall>t. sys_lock s = Some t \<longleftrightarrow> holds_lock (sys_threads s t)) \<and>
    (\<forall>t u. holds_lock (sys_threads s t) \<and> holds_lock (sys_threads s u) \<longrightarrow> t = u) \<and>
    (running (sys_dev s) \<longrightarrow> open_count (sys_dev s) \<and>
      (completion_work (sys_dev s) \<or> sys_worker s \<noteq> WIdle \<or>
       (\<exists>t. in_start (sys_threads s t) \<or> in_run (sys_threads s t)))) \<and>
    (\<not> open_count (sys_dev s) \<longrightarrow> (\<forall>t. idle t s))"
proof -
  have "kinv (ksys_init k h)" using coral_probe_window(3,4) [OF assms(1)] by (rule kinv_init)
  then have "kinv s" by (rule kinv_reachable [OF assms(2)])
  then have l: "lock_inv s" and f: "file_inv s" and o: "owner_inv s" by (simp_all add: kinv_def)
  show ?thesis
  proof (intro conjI allI impI)
    fix t show "sys_lock s = Some t \<longleftrightarrow> holds_lock (sys_threads s t)" using l unfolding lock_inv_def by blast
  next
    fix t u assume "holds_lock (sys_threads s t) \<and> holds_lock (sys_threads s u)"
    then have "sys_lock s = Some t" "sys_lock s = Some u" using l unfolding lock_inv_def by blast+
    then show "t = u" by simp
  next
    assume "running (sys_dev s)"
    then show "open_count (sys_dev s)" using f unfolding file_inv_def by blast
  next
    assume "running (sys_dev s)"
    then show "completion_work (sys_dev s) \<or> sys_worker s \<noteq> WIdle \<or>
       (\<exists>t. in_start (sys_threads s t) \<or> in_run (sys_threads s t))"
      using o unfolding owner_inv_def by blast
  next
    fix t assume "\<not> open_count (sys_dev s)"
    then show "idle t s" using f unfolding file_inv_def by blast
  qed
qed

abbreviation (input) example_regs :: "(u32 \<times> u32) list reg_window" where
  "example_regs \<equiv> log_window 0x80000000 0x4000"

text \<open>The example device after the open and the start of thread 0.\<close>

definition example_started :: "(u32 \<times> u32) list ksys" where
  "example_started = (ksys_init (example_dev\<lparr> open_count := True, running := True, completion_work := True \<rparr>)
     [(PC_START, 0x100), (RESET_CONTROL, 1), (RESET_CONTROL, 0)])\<lparr> sys_file := True \<rparr>"

lemma example_open:
  "kstep example_regs (ksys_init example_dev []) ((ksys_init (example_dev\<lparr> open_count := True \<rparr>) [])\<lparr> sys_file := True \<rparr>)"
proof -
  have "kstep example_regs (ksys_init example_dev [])
      (goto 0 (Ret 0) (set_open True (ksys_init example_dev []))\<lparr> sys_file := True \<rparr>)"
    by (rule kstep.open_ok) (simp_all add: ksys_init_def idle_def example_dev_def)
  then show ?thesis by (simp add: ksys_init_def sys_defs fun_upd_idem)
qed

lemma example_start: "(kstep example_regs)\<^sup>*\<^sup>* (ksys_init example_dev []) example_started"
proof -
  let ?s = "(ksys_init (example_dev\<lparr> open_count := True \<rparr>) [])\<lparr> sys_file := True \<rparr> :: (u32 \<times> u32) list ksys"
  have "coral_start example_regs 0x100 (sys_dev ?s) (sys_hw ?s) =
      Some (0, (sys_dev ?s)\<lparr> running := True, completion_work := True \<rparr>, [(PC_START, 0x100), (RESET_CONTROL, 1), (RESET_CONTROL, 0)])"
    by (simp add: coral_start_def log_window_def coral_writel_def ksys_init_def example_dev_def)
  then have "(kstep example_regs)\<^sup>*\<^sup>* ?s (goto 0 (Ret 0) ?s\<lparr> sys_dev := (sys_dev ?s)\<lparr> running := True, completion_work := True \<rparr>,
      sys_hw := [(PC_START, 0x100), (RESET_CONTROL, 1), (RESET_CONTROL, 0)] \<rparr>)"
    by (intro start_steps) (simp_all add: ksys_init_def idle_def)
  moreover have "goto 0 (Ret 0) ?s\<lparr> sys_dev := (sys_dev ?s)\<lparr> running := True, completion_work := True \<rparr>,
      sys_hw := [(PC_START, 0x100), (RESET_CONTROL, 1), (RESET_CONTROL, 0)] \<rparr> = example_started"
    by (simp add: goto_def ksys_init_def example_started_def fun_upd_idem)
  ultimately have "(kstep example_regs)\<^sup>*\<^sup>* ?s example_started" by simp
  then show ?thesis by (rule steps_cons [OF example_open])
qed

theorem driver_concurrent_invariant_witness:
  "(kstep example_regs)\<^sup>*\<^sup>* (ksys_init example_dev []) example_started \<and> running (sys_dev example_started) \<and>
   (completion_work (sys_dev example_started) \<or> sys_worker example_started \<noteq> WIdle \<or>
     (\<exists>t. in_start (sys_threads example_started t) \<or> in_run (sys_threads example_started t)))"
  using driver_concurrent_invariant [OF example_probe [of "[]"] example_start] example_start
  by (simp add: example_started_def ksys_init_def)

section \<open>A run during a start\<close>

text \<open>
  C30: A run does not take the lock and a start tests the busy flag before it sets it, so the two can
  program the device at once. Thread 0 starts entry 0x100 while thread 1 runs entry 0x200: the program
  counter of thread 1 is the last one written before thread 0 releases the reset, and the call of
  thread 0 returns 0 although its entry never started.
\<close>

theorem start_overtaken_by_run:
  "\<exists>s. (kstep example_regs)\<^sup>*\<^sup>* (ksys_init example_dev []) s \<and> sys_threads s 0 = Ret 0 \<and>
     in_run (sys_threads s 1) \<and>
     sys_hw s = [(PC_START, 0x100), (PC_START, 0x200), (RESET_CONTROL, 1), (RESET_CONTROL, 0)]"
proof -
  let ?s0 = "(ksys_init (example_dev\<lparr> open_count := True \<rparr>) [])\<lparr> sys_file := True \<rparr> :: (u32 \<times> u32) list ksys"
  let ?s1 = "goto 0 (StartCancel 0x100) ?s0\<lparr> sys_lock := Some 0 \<rparr>"
  let ?s2 = "goto 1 (RunPc 0x200 10) (set_running True ?s1)"
  let ?s3 = "goto 0 (StartPc 0x100) (set_running True (set_work False ?s2))"
  let ?s4 = "goto 0 StartReset ?s3\<lparr> sys_hw := [(PC_START, 0x100)] \<rparr>"
  let ?s5 = "goto 1 (RunReset 10) ?s4\<lparr> sys_hw := [(PC_START, 0x100), (PC_START, 0x200)] \<rparr>"
  let ?s6 = "goto 0 StartRelease ?s5\<lparr> sys_hw := [(PC_START, 0x100), (PC_START, 0x200), (RESET_CONTROL, 1)] \<rparr>"
  let ?s7 = "goto 0 StartSchedule ?s6\<lparr> sys_hw := [(PC_START, 0x100), (PC_START, 0x200), (RESET_CONTROL, 1), (RESET_CONTROL, 0)] \<rparr>"
  let ?s8 = "goto 0 (Ret 0) (set_work True ?s7)\<lparr> sys_lock := None \<rparr>"
  note w = log_window_def coral_writel_def ksys_init_def idle_def example_dev_def
  have a1: "kstep example_regs ?s0 ?s1" by (rule kstep.start_check) (simp_all add: w)
  have a2: "kstep example_regs ?s1 ?s2" by (rule kstep.run_begin) (simp_all add: w)
  have a3: "kstep example_regs ?s2 ?s3" by (rule kstep.start_cancel) (simp_all add: w)
  have a4: "kstep example_regs ?s3 ?s4" by (rule kstep.start_pc) (simp_all add: w)
  have a5: "kstep example_regs ?s4 ?s5" by (rule kstep.run_pc) (simp_all add: w)
  have a6: "kstep example_regs ?s5 ?s6" by (rule kstep.start_reset) (simp_all add: w)
  have a7: "kstep example_regs ?s6 ?s7" by (rule kstep.start_release) (simp_all add: w)
  have a8: "kstep example_regs ?s7 ?s8" by (rule kstep.start_schedule) simp
  have "(kstep example_regs)\<^sup>*\<^sup>* (ksys_init example_dev []) ?s8"
    by (rule steps_cons [OF example_open steps_cons [OF a1 steps_cons [OF a2 steps_cons [OF a3 steps_cons [OF a4
        steps_cons [OF a5 steps_cons [OF a6 steps_cons [OF a7 steps_end [OF a8 refl]]]]]]]]])
  then show ?thesis by (rule exI [of _ ?s8, OF conjI]) simp
qed

end
