(* ===== verification/Driver_Device.thy ===== *)
theory Driver_Device
  imports Kernel_Driver NPU_Safety
begin

text \<open>
  The driver on the simulated device: the register window of the NPU device as the hardware of the
  driver. An access takes the latency of the device; the events of the device that become due meanwhile
  are processed first, as the event queue of the simulator does. The hardware state is the current
  tick and the device.
\<close>

section \<open>The window\<close>

partial_function (option) process_due ::
  "'b coral_backend \<Rightarrow> 'm dma_port \<Rightarrow> u64 \<Rightarrow> ('b, 'm) npu_device \<Rightarrow> ('b, 'm) npu_device option" where
  "process_due V P now d =
     (case backendEvent d of
        None \<Rightarrow> Some d
      | Some t \<Rightarrow> if t \<le> now then do { d \<leftarrow> processBackendEvent V P t d; process_due V P now d } else Some d)"

definition device_readl ::
  "'b coral_backend \<Rightarrow> 'm dma_port \<Rightarrow> u32 \<Rightarrow> u64 \<times> ('b, 'm) npu_device \<Rightarrow> (u32 \<times> u64 \<times> ('b, 'm) npu_device) option" where
  "device_readl V P offset = (\<lambda>(now, d).
     do { let now = now + pioDelay d;
          d \<leftarrow> process_due V P now d;
          (r, d) \<leftarrow> npu_read V now (pioAddr d + ucast offset) 4 d;
          bs \<leftarrow> r;
          Some (le_word bs, now, d) })"

definition device_writel ::
  "'b coral_backend \<Rightarrow> 'm dma_port \<Rightarrow> u32 \<Rightarrow> u32 \<Rightarrow> u64 \<times> ('b, 'm) npu_device \<Rightarrow> (u64 \<times> ('b, 'm) npu_device) option" where
  "device_writel V P offset v = (\<lambda>(now, d).
     do { let now = now + pioDelay d;
          d \<leftarrow> process_due V P now d;
          (ok, d) \<leftarrow> npu_write V P now (pioAddr d + ucast offset) (le_bytes 4 v) d;
          if ok then Some (now, d) else None })"

definition npu_window :: "'b coral_backend \<Rightarrow> 'm dma_port \<Rightarrow> (u64 \<times> ('b, 'm) npu_device) reg_window" where
  "npu_window V P = \<lparr> io_readl = device_readl V P, io_writel = device_writel V P \<rparr>"

lemma npu_window_simps [simp]:
  "io_readl (npu_window V P) = device_readl V P" "io_writel (npu_window V P) = device_writel V P"
  by (simp_all add: npu_window_def)

section \<open>The transaction-level device\<close>

text \<open>Its admissible states: timing mode, a backend that halts on its own, the event scheduled as it should be.\<close>

definition stage_ok :: "u64 \<Rightarrow> u64 \<Rightarrow> u64 \<times> (stagea, 'm) npu_device \<Rightarrow> bool" where
  "stage_ok L D h \<longleftrightarrow> (case h of (now, d) \<Rightarrow>
     \<not> fastDma d \<and> pioDelay d = D \<and> stagea_wf (backend d) \<and> registers_visible (backend d) \<and>
     sa_autoHalt (backend d) \<and> \<not> sa_fault (backend d) \<and> sa_executionLatency (backend d) = L \<and>
     backendEvent d = (if sa_pendingEventTick (backend d) = 0 then None else Some (sa_pendingEventTick (backend d))))"

definition stage_status :: "stagea \<Rightarrow> u32" where
  "stage_status s = (if sa_halted s then 1 else 0)"

lemma sync_stage:
  "syncBackendEvent stagea_backend d =
     d\<lparr> backendEvent := if sa_pendingEventTick (backend d) = 0 then None else Some (sa_pendingEventTick (backend d)) \<rparr>"
  by (auto simp: syncBackendEvent_def stagea_hasPendingEvent_def Let_def)

lemma process_stage_event:
  assumes "\<not> fastDma d"
  shows "\<exists>d'. processBackendEvent stagea_backend P t d = Some d' \<and> backend d' = completeExecution (backend d) \<and>
    backendEvent d' = None \<and> fastDma d' = fastDma d \<and> pioDelay d' = pioDelay d \<and> pioAddr d' = pioAddr d"
  using assms
  by (simp add: processBackendEvent_def stagea_processEvent_def startBackendDma_def default_backend_defs
      checkDrainDone_def sync_stage completeExecution_def)

lemma process_due_stage:
  assumes "stage_ok L D (now, d)"
  shows "\<exists>d'. process_due stagea_backend P now' d = Some d' \<and> stage_ok L D (now', d') \<and>
    pioAddr d' = pioAddr d \<and> pioDelay d' = pioDelay d \<and>
    backend d' = (if sa_pendingEventTick (backend d) \<noteq> 0 \<and> sa_pendingEventTick (backend d) \<le> now'
                  then completeExecution (backend d) else backend d)"
proof (cases "sa_pendingEventTick (backend d) \<noteq> 0 \<and> sa_pendingEventTick (backend d) \<le> now'")
  case True
  have f: "\<not> fastDma d" using assms by (simp add: stage_ok_def)
  obtain d' where d': "processBackendEvent stagea_backend P (sa_pendingEventTick (backend d)) d = Some d'"
    "backend d' = completeExecution (backend d)" "backendEvent d' = None" "fastDma d' = fastDma d"
    "pioDelay d' = pioDelay d" "pioAddr d' = pioAddr d"
    using process_stage_event [OF f] by blast
  have "process_due stagea_backend P now' d' = Some d'" using d'(3) by (subst process_due.simps) simp
  then have "process_due stagea_backend P now' d = Some d'"
    using True assms d'(1) by (subst process_due.simps) (simp add: stage_ok_def)
  moreover have "stage_ok L D (now', d')"
    using assms d' by (simp add: stage_ok_def completeExecution_def stagea_wf_def registers_visible_def)
  ultimately show ?thesis using True d' by auto
next
  case False
  have "process_due stagea_backend P now' d = Some d"
    using False assms by (subst process_due.simps) (auto simp: stage_ok_def split: option.splits)
  then show ?thesis using False assms by (auto simp: stage_ok_def)
qed

lemma sync_stage_ok: "stage_ok L D (now, d) \<Longrightarrow> syncBackendEvent stagea_backend d = d"
  by (simp add: sync_stage stage_ok_def)

lemma shell_registers:
  "offset \<in> driver_registers - {RESET_CONTROL, STATUS} \<Longrightarrow> \<exists>w. shell_register V d (ucast offset) = Some w"
  by (auto simp: driver_registers_def shell_register_def abi_defs)

lemma npu_read_shell:
  assumes "stage_ok L D (now, d)" "offset \<in> driver_registers - {RESET_CONTROL, STATUS}"
  shows "\<exists>v :: u32. npu_read stagea_backend t (pioAddr d + ucast offset) 4 d = Some (Some (le_bytes 4 v), d)"
proof -
  obtain w where "shell_register stagea_backend d (ucast offset) = Some w" using shell_registers [OF assms(2)] by blast
  then have "npu_read stagea_backend t (pioAddr d + ucast offset) 4 d = Some (Some (le_bytes 4 w), d)"
    by (simp only: npu_read_def sync_stage_ok [OF assms(1)] add_diff_cancel_left' refl if_True option.case)
  then show ?thesis by blast
qed

lemma npu_read_csr:
  assumes "stage_ok L D (now, d)"
  shows "npu_read stagea_backend t (pioAddr d + ucast RESET_CONTROL) 4 d =
      Some (Some (le_bytes 4 (sa_resetControl (backend d))), d)"
    and "npu_read stagea_backend t (pioAddr d + ucast STATUS) 4 d = Some (Some (le_bytes 4 (stage_status (backend d))), d)"
proof -
  have vis: "registers_visible (backend d)" and f: "\<not> sa_fault (backend d)"
    using assms by (simp_all add: stage_ok_def)
  note r = stagea_csr_read [OF vis, of _ t "pioAddr d"]
  show "npu_read stagea_backend t (pioAddr d + ucast RESET_CONTROL) 4 d =
      Some (Some (le_bytes 4 (sa_resetControl (backend d))), d)"
    using r [of 0] sync_stage_ok [OF assms]
    by (simp add: npu_read_def shell_register_def abi_defs readCsr_def Let_def add.assoc)
  show "npu_read stagea_backend t (pioAddr d + ucast STATUS) 4 d = Some (Some (le_bytes 4 (stage_status (backend d))), d)"
    using r [of 8] sync_stage_ok [OF assms] f
    by (simp add: npu_read_def shell_register_def abi_defs readCsr_def Let_def stage_status_def add.assoc)
qed

lemma device_read_register:
  assumes "stage_ok L D (now, d)" "offset \<in> driver_registers"
  shows "\<exists>v d'. device_readl stagea_backend P offset (now, d) = Some (v, now + D, d') \<and> stage_ok L D (now + D, d') \<and>
    (offset = STATUS \<longrightarrow> v = stage_status (backend d')) \<and>
    backend d' = (if sa_pendingEventTick (backend d) \<noteq> 0 \<and> sa_pendingEventTick (backend d) \<le> now + D
                  then completeExecution (backend d) else backend d)"
proof -
  have D: "pioDelay d = D" using assms(1) by (simp add: stage_ok_def)
  obtain d' where d': "process_due stagea_backend P (now + D) d = Some d'" "stage_ok L D (now + D, d')"
    "backend d' = (if sa_pendingEventTick (backend d) \<noteq> 0 \<and> sa_pendingEventTick (backend d) \<le> now + D
                  then completeExecution (backend d) else backend d)"
    using process_due_stage [OF assms(1)] by blast
  obtain v where "npu_read stagea_backend (now + D) (pioAddr d' + ucast offset) 4 d' = Some (Some (le_bytes 4 v), d')"
    "offset = STATUS \<longrightarrow> v = stage_status (backend d')"
  proof (cases "offset \<in> {RESET_CONTROL, STATUS}")
    case True
    then show ?thesis using npu_read_csr [OF d'(2), of "now + D"] that by (auto simp: abi_defs)
  next
    case False
    then show ?thesis using npu_read_shell [OF d'(2), of offset "now + D"] assms(2) that by auto
  qed
  then show ?thesis using d' D by (simp add: device_readl_def le_word_le_bytes)
qed

definition stage_writel :: "u64 \<Rightarrow> u32 \<Rightarrow> u32 \<Rightarrow> stagea \<Rightarrow> stagea" where
  "stage_writel now offset v s = snd (writeCsr now (le_bytes 4 v) (ucast offset) s)"

lemma writeCsr_config:
  "sa_executionLatency (snd (writeCsr now bs off s)) = sa_executionLatency s"
  "sa_autoHalt (snd (writeCsr now bs off s)) = sa_autoHalt s"
  "registers_visible (snd (writeCsr now bs off s)) = registers_visible s"
  "\<not> sa_fault s \<Longrightarrow> \<not> sa_fault (snd (writeCsr now bs off s))"
  by (simp_all add: writeCsr_def Let_def startExecution_def stopExecution_def registers_visible_def)

lemma npu_write_csr:
  assumes ok: "stage_ok L D (now, d)" and offset: "offset = PC_START \<or> offset = RESET_CONTROL"
  shows "\<exists>d'. npu_write stagea_backend P t (pioAddr d + ucast offset) (le_bytes 4 v) d = Some (True, d') \<and>
    stage_ok L D (t, d') \<and> backend d' = stage_writel t offset v (backend d)"
proof -
  have vis: "registers_visible (backend d)" and f: "\<not> fastDma d" using ok by (simp_all add: stage_ok_def)
  note w = stagea_csr_write [OF vis, of _ "le_bytes 4 v" t "pioAddr d"]
  let ?r = "writeCsr t (le_bytes 4 v) (ucast offset) (backend d)"
  have "stagea_write t (pioAddr d + ucast offset) (le_bytes 4 v) (pioAddr d) (backend d) = Some ?r" "fst ?r"
    using offset w [of 0] w [of 4] by (auto simp: abi_defs add.assoc writeCsr_def Let_def)
  then have "npu_write stagea_backend P t (pioAddr d + ucast offset) (le_bytes 4 v) d =
      Some (True, syncBackendEvent stagea_backend (d\<lparr> backend := snd ?r \<rparr>))"
    using f by (cases ?r) (simp add: npu_write_def Let_def)
  then show ?thesis
    using ok writeCsr_wf [of "backend d" t "le_bytes 4 v" "ucast offset"]
    by (simp add: stage_ok_def sync_stage writeCsr_config stage_writel_def)
qed

lemma device_write_register:
  assumes ok: "stage_ok L D (now, d)" and offset: "offset = PC_START \<or> offset = RESET_CONTROL"
  shows "\<exists>d'. device_writel stagea_backend P offset v (now, d) = Some (now + D, d') \<and> stage_ok L D (now + D, d') \<and>
    backend d' = stage_writel (now + D) offset v
      (if sa_pendingEventTick (backend d) \<noteq> 0 \<and> sa_pendingEventTick (backend d) \<le> now + D
       then completeExecution (backend d) else backend d)"
proof -
  have D: "pioDelay d = D" using ok by (simp add: stage_ok_def)
  obtain d1 where d1: "process_due stagea_backend P (now + D) d = Some d1" "stage_ok L D (now + D, d1)"
    "backend d1 = (if sa_pendingEventTick (backend d) \<noteq> 0 \<and> sa_pendingEventTick (backend d) \<le> now + D
                  then completeExecution (backend d) else backend d)"
    using process_due_stage [OF ok] by blast
  obtain d2 where "npu_write stagea_backend P (now + D) (pioAddr d1 + ucast offset) (le_bytes 4 v) d1 = Some (True, d2)"
    "stage_ok L D (now + D, d2)" "backend d2 = stage_writel (now + D) offset v (backend d1)"
    using npu_write_csr [OF d1(2) offset] by blast
  then show ?thesis using d1 D by (simp add: device_writel_def)
qed

lemma stage_window_answers:
  fixes h :: "u64 \<times> (stagea, 'm) npu_device"
  assumes "stage_ok L D h"
  shows "offset \<in> driver_registers \<Longrightarrow>
      \<exists>v h'. io_readl (npu_window stagea_backend P) offset h = Some (v, h') \<and> stage_ok L D h'"
    and "offset = PC_START \<or> offset = RESET_CONTROL \<Longrightarrow>
      \<exists>h'. io_writel (npu_window stagea_backend P) offset v h = Some h' \<and> stage_ok L D h'"
  using assms device_read_register [of L D "fst h" "snd h" offset P] device_write_register [of L D "fst h" "snd h" offset P v]
  by (cases h; fastforce)+

interpretation stage_regs: reg_device "npu_window stagea_backend P" "stage_ok L D" for P L D
  by unfold_locales (erule stage_window_answers, assumption)+


section \<open>A run ends\<close>

text \<open>The clock leaves room for the accesses and the latency of a run, and the accesses take time.\<close>

definition stage_fresh :: "u64 \<Rightarrow> u64 \<Rightarrow> u64 \<times> (stagea, 'm) npu_device \<Rightarrow> bool" where
  "stage_fresh L D h \<longleftrightarrow> 0 < D \<and> unat (fst h) + 4 * unat D + unat L < 2 ^ 64"

lemma stage_writel_simps:
  "stage_writel now PC_START v s = s\<lparr> sa_pcStart := v \<rparr>"
  "stage_writel now RESET_CONTROL 1 s = stopExecution False (s\<lparr> sa_resetControl := 1 \<rparr>)"
  "sa_resetControl s AND kResetBit \<noteq> 0 \<Longrightarrow>
    stage_writel now RESET_CONTROL 0 s = startExecution now (s\<lparr> sa_resetControl := 0 \<rparr>)"
  by (simp_all add: stage_writel_def writeCsr_def Let_def abi_defs le_word_le_bytes)

text \<open>A pending run halts once the clock has reached its tick, and reads zero until then.\<close>

lemma stage_halts_within:
  assumes ok: "stage_ok L D (now, d)" and D: "0 < D" and idle: "\<not> sa_halted (backend d)"
    and tick: "sa_pendingEventTick (backend d) = t" "t \<noteq> 0" "unat t \<le> unat now + n * unat D" "0 < n"
    and room: "unat now + n * unat D < 2 ^ 64"
  shows "halts_within (npu_window stagea_backend P) n (now, d)"
  using assms
proof (induction n arbitrary: now d)
  case 0
  then show ?case by simp
next
  case (Suc n)
  obtain v d' where r: "device_readl stagea_backend P STATUS (now, d) = Some (v, now + D, d')"
    "stage_ok L D (now + D, d')" "v = stage_status (backend d')"
    "backend d' = (if t \<noteq> 0 \<and> t \<le> now + D then completeExecution (backend d) else backend d)"
    using device_read_register [OF Suc.prems(1), of STATUS P] Suc.prems(4) by (auto simp: driver_registers_def)
  have now: "unat (now + D) = unat now + unat D"
    using Suc.prems(8) by (intro unat_add_nowrap) simp
  show ?case
  proof (cases "t \<le> now + D")
    case True
    then have "v = 1" using r(3,4) Suc.prems(5) by (simp add: stage_status_def completeExecution_def)
    then show ?thesis using r(1) by simp
  next
    case False
    then have b: "backend d' = backend d" using r(4) by simp
    have "0 < n" using False Suc.prems(6) now by (cases n) (auto simp: word_le_nat_alt)
    then have "halts_within (npu_window stagea_backend P) n (now + D, d')"
      using Suc.prems b r(2) now by (intro Suc.IH) (auto simp: algebra_simps)
    moreover have "v = 0" using r(3) b Suc.prems(3) by (simp add: stage_status_def)
    ultimately show ?thesis using r(1) by simp
  qed
qed

lemma stage_start_halts:
  fixes h :: "u64 \<times> (stagea, 'm) npu_device"
  assumes ok: "stage_ok L D h" and fresh: "stage_fresh L D h"
    and w1: "io_writel (npu_window stagea_backend P) PC_START entry h = Some h1"
    and w2: "io_writel (npu_window stagea_backend P) RESET_CONTROL 1 h1 = Some h2"
    and w3: "io_writel (npu_window stagea_backend P) RESET_CONTROL 0 h2 = Some h3"
  shows "halts_within (npu_window stagea_backend P) (unat L div unat D + 1) h3"
proof -
  obtain now d where h: "h = (now, d)" by (cases h)
  obtain d1 where d1: "h1 = (now + D, d1)" "stage_ok L D (now + D, d1)"
    using device_write_register [of L D now d PC_START P entry] ok w1 h by auto
  obtain d2 where d2: "h2 = (now + D + D, d2)" "stage_ok L D (now + D + D, d2)"
    "sa_resetControl (backend d2) = 1" "sa_pendingEventTick (backend d2) = 0" "\<not> sa_halted (backend d2)"
    using device_write_register [OF d1(2), of RESET_CONTROL P 1] w2 d1(1)
    by (auto simp: stage_writel_simps stopExecution_def)
  obtain d3 where d3: "h3 = (now + D + D + D, d3)" "stage_ok L D (now + D + D + D, d3)"
    "backend d3 = startExecution (now + D + D + D) (backend d2\<lparr> sa_resetControl := 0 \<rparr>)"
    using device_write_register [OF d2(2), of RESET_CONTROL P 0] w3 d2
    by (auto simp: stage_writel_simps kResetBit_def)
  have "sa_autoHalt (backend d2)" "sa_executionLatency (backend d2) = L" using d2(2) by (simp_all add: stage_ok_def)
  then have b: "sa_pendingEventTick (backend d3) = now + D + D + D + L" "\<not> sa_halted (backend d3)"
    using d3(3) by (simp_all add: startExecution_def Let_def)
  have D: "0 < D" and room: "unat now + 4 * unat D + unat L < 2 ^ 64" using fresh h by (simp_all add: stage_fresh_def)
  have t1: "unat (now + D) = unat now + unat D" using room by (intro unat_add_nowrap) simp
  have t2: "unat (now + D + D) = unat now + 2 * unat D" using room t1 by (subst unat_add_nowrap) simp_all
  have t: "unat (now + D + D + D) = unat now + 3 * unat D" using room t2 by (subst unat_add_nowrap) simp_all
  have tl: "unat (now + D + D + D + L) = unat now + 3 * unat D + unat L" using room t by (subst unat_add_nowrap) simp_all
  have pos: "0 < unat D" using D by (simp add: word_less_nat_alt)
  then have le: "unat L \<le> (unat L div unat D + 1) * unat D" by (simp add: dividend_less_div_times less_imp_le)
  have ge: "(unat L div unat D + 1) * unat D \<le> unat L + unat D" by simp
  show ?thesis
    unfolding d3(1)
  proof (rule stage_halts_within [OF d3(2) D b(2) b(1)])
    show "now + D + D + D + L \<noteq> 0" using tl pos by (metis add_is_0 less_numeral_extra(3) mult_is_0 unsigned_0 zero_neq_numeral)
    show "unat (now + D + D + D + L) \<le> unat (now + D + D + D) + (unat L div unat D + 1) * unat D"
      using t tl le by linarith
    show "unat (now + D + D + D) + (unat L div unat D + 1) * unat D < 2 ^ 64" using t ge room by linarith
  qed simp
qed

interpretation stage_halting: halting_device "npu_window stagea_backend P" "stage_ok L D" "stage_fresh L D"
    "unat L div unat D + 1" for P L D
  by unfold_locales (rule stage_start_halts)

section \<open>Properties\<close>

lemma NPUDevice_stagea_ok:
  assumes "NPUDevice_stagea p itcm dtcm L True m = Some d" "\<not> np_fastDma p"
    and "itcm \<le> 0x30000" "dtcm \<le> 0x20000"
  shows "stage_ok L (np_pioDelay p) (now, d)"
  using assms
  by (auto simp: stagea_wf_def NPUDevice_stagea_def NPUDevice_def Let_def stage_ok_def sync_stage CoralStageABackend_def
    registers_visible_def abi_defs split: if_splits bind_splits)

text \<open>
  C29: The driver runs a job to its end on the simulated device. On a transaction-level device in timing
  mode, with the register windows apart and accesses that take time, the run request of an idle driver
  that polls more often than the execution latency has access latencies returns 0 with the halted
  status, leaves the driver idle and the device ready for the next run.
\<close>

theorem driver_run_completes:
  assumes "NPUDevice_stagea p itcm dtcm L True m = Some d" "\<not> np_fastDma p" "itcm \<le> 0x30000" "dtcm \<le> 0x20000"
    and "0 < np_pioDelay p" "unat now + 4 * unat (np_pioDelay p) + unat L < 2 ^ 64"
    and "\<not> running k" "unat L div unat (np_pioDelay p) < unat (ir_polls q)"
  shows "\<exists>h. coral_run (npu_window stagea_backend P) q k (now, d) =
      Some (0, q\<lparr> ir_status := 1 \<rparr>, k\<lparr> running := False \<rparr>, h) \<and> stage_ok L (np_pioDelay p) h"
proof -
  have ok: "stage_ok L (np_pioDelay p) (now, d)" using NPUDevice_stagea_ok [OF assms(1-4)] .
  have fresh: "stage_fresh L (np_pioDelay p) (now, d)" using assms(5,6) by (simp add: stage_fresh_def)
  obtain h where h: "coral_run (npu_window stagea_backend P) q k (now, d) =
      Some (0, q\<lparr> ir_status := 1 \<rparr>, k\<lparr> running := False \<rparr>, h)"
    using stage_halting.coral_run_succeeds [OF ok fresh assms(7), of q P] assms(8) by auto
  then show ?thesis using stage_regs.coral_run_returns [OF ok, of P q k] by auto
qed

definition example_npu_params :: npu_params where
  "example_npu_params = \<lparr> np_pioAddr = 0x1d000000, np_pioSize = 0x40000, np_pioDelay = 10, np_dmaExtmemBase = 0x20000000,
     np_dmaSharedBase = 0x80000000, np_dmaSharedSize = 0x4000, np_fastDma = False, np_fastDmaEventBatch = 0,
     np_fastDmaSyncOffset = 0, np_fastDmaSyncSize = 0, np_backendType = ''stage-a'' \<rparr>"

theorem driver_run_completes_witness:
  "\<exists>d. NPUDevice_stagea example_npu_params 8 8 1000 True () = Some d \<and>
    (\<forall>P. \<exists>h. coral_run (npu_window stagea_backend P) \<lparr> ir_entry = 0x100, ir_status = 0, ir_polls = 200 \<rparr> example_dev (5, d) =
      Some (0, \<lparr> ir_entry = 0x100, ir_status = 1, ir_polls = 200 \<rparr>, example_dev\<lparr> running := False \<rparr>, h))"
proof -
  obtain d where d: "NPUDevice_stagea example_npu_params 8 8 1000 True () = Some d"
    by (simp add: NPUDevice_stagea_def params_ok_def example_npu_params_def CoralStageABackend_def abi_defs)
  have "\<exists>h. coral_run (npu_window stagea_backend P) \<lparr> ir_entry = 0x100, ir_status = 0, ir_polls = 200 \<rparr> example_dev (5, d) =
      Some (0, \<lparr> ir_entry = 0x100, ir_status = 1, ir_polls = 200 \<rparr>, example_dev\<lparr> running := False \<rparr>, h)" for P
    using driver_run_completes [OF d, of 5 example_dev "\<lparr> ir_entry = 0x100, ir_status = 0, ir_polls = 200 \<rparr>" P]
    by (simp add: example_npu_params_def example_dev_def) blast
  then show ?thesis using d by blast
qed

end
