(* ===== verification/Command_Firmware.thy ===== *)
theory Command_Firmware
  imports Byte_Memory Custom_Mac
begin

text \<open>
  The firmware images that serve the host runtime: the vector-add command processor
  (\<open>gem5_bridge/gem5_command_smoke.c\<close>) and the DMA smoke test (\<open>gem5_dma_smoke.c\<close>), with the command
  block of \<open>opennpux/coral_command.h\<close>.

  External memory is a byte vector from its base address on; an access outside it is \<open>None\<close>. The
  registers of the custom unit, as the core sees them, are the record \<open>mac_port\<close>, an argument with the
  contract \<open>mac_unit\<close>; the contract is shown for the unit of \<open>Custom_Mac\<close>, clocked once before each access.
\<close>

section \<open>The command block\<close>

record opennpux_coral_command =
  cmd_magic :: u32
  cmd_abi_version :: u32
  cmd_struct_size :: u32
  cmd_opcode :: u32
  cmd_sequence :: u32
  cmd_flags :: u32
  cmd_element_count :: u32
  cmd_reserved0 :: u32
  cmd_input0_offset :: u32
  cmd_input1_offset :: u32
  cmd_output_offset :: u32
  cmd_output_size :: u32
  cmd_status :: u32
  cmd_error_code :: u32
  cmd_completed_elements :: u32
  cmd_accelerator_cycles :: u32

definition command_words :: "opennpux_coral_command \<Rightarrow> u32 list" where
  "command_words c = [cmd_magic c, cmd_abi_version c, cmd_struct_size c, cmd_opcode c, cmd_sequence c, cmd_flags c,
     cmd_element_count c, cmd_reserved0 c, cmd_input0_offset c, cmd_input1_offset c, cmd_output_offset c,
     cmd_output_size c, cmd_status c, cmd_error_code c, cmd_completed_elements c, cmd_accelerator_cycles c]"

definition COMMAND_MAGIC :: u32 where [abi_defs]: "COMMAND_MAGIC = 0x4e505843"
definition COMMAND_ABI_VERSION :: u32 where [abi_defs]: "COMMAND_ABI_VERSION = 1"
definition COMMAND_SIZE :: u32 where [abi_defs]: "COMMAND_SIZE = 64"
definition OPCODE_VECTOR_ADD_U32 :: u32 where [abi_defs]: "OPCODE_VECTOR_ADD_U32 = 1"
definition OPCODE_VECTOR_ADD_CUSTOM_U32 :: u32 where [abi_defs]: "OPCODE_VECTOR_ADD_CUSTOM_U32 = 2"
definition COMMAND_PENDING :: u32 where [abi_defs]: "COMMAND_PENDING = 0"
definition COMMAND_RUNNING :: u32 where [abi_defs]: "COMMAND_RUNNING = 1"
definition COMMAND_COMPLETE :: u32 where [abi_defs]: "COMMAND_COMPLETE = 2"
definition COMMAND_ERROR :: u32 where [abi_defs]: "COMMAND_ERROR = 3"
definition COMMAND_ERROR_NONE :: u32 where [abi_defs]: "COMMAND_ERROR_NONE = 0"
definition COMMAND_ERROR_ABI :: u32 where [abi_defs]: "COMMAND_ERROR_ABI = 1"
definition COMMAND_ERROR_OPCODE :: u32 where [abi_defs]: "COMMAND_ERROR_OPCODE = 2"
definition COMMAND_ERROR_BOUNDS :: u32 where [abi_defs]: "COMMAND_ERROR_BOUNDS = 3"
definition COMMAND_ERROR_ACCELERATOR :: u32 where [abi_defs]: "COMMAND_ERROR_ACCELERATOR = 4"
definition COMMAND_OFFSET :: nat where [abi_defs]: "COMMAND_OFFSET = 0"
definition INPUT0_OFFSET :: u32 where [abi_defs]: "INPUT0_OFFSET = 0x100"
definition INPUT1_OFFSET :: u32 where [abi_defs]: "INPUT1_OFFSET = 0x500"
definition OUTPUT_OFFSET :: u32 where [abi_defs]: "OUTPUT_OFFSET = 0x900"
definition TENSOR_MAX_ELEMENTS :: u32 where [abi_defs]: "TENSOR_MAX_ELEMENTS = 256"
definition CORAL_EXTMEM_SIZE :: u32 where [abi_defs]: "CORAL_EXTMEM_SIZE = 0x1000"

text \<open>The byte offsets of the fields the firmware touches.\<close>

definition f_magic :: nat where [abi_defs]: "f_magic = 0"
definition f_abi_version :: nat where [abi_defs]: "f_abi_version = 4"
definition f_struct_size :: nat where [abi_defs]: "f_struct_size = 8"
definition f_opcode :: nat where [abi_defs]: "f_opcode = 12"
definition f_element_count :: nat where [abi_defs]: "f_element_count = 24"
definition f_input0_offset :: nat where [abi_defs]: "f_input0_offset = 32"
definition f_input1_offset :: nat where [abi_defs]: "f_input1_offset = 36"
definition f_output_offset :: nat where [abi_defs]: "f_output_offset = 40"
definition f_output_size :: nat where [abi_defs]: "f_output_size = 44"
definition f_status :: nat where [abi_defs]: "f_status = 48"
definition f_error_code :: nat where [abi_defs]: "f_error_code = 52"
definition f_completed_elements :: nat where [abi_defs]: "f_completed_elements = 56"
definition f_accelerator_cycles :: nat where [abi_defs]: "f_accelerator_cycles = 60"

section \<open>The custom unit\<close>

record 'a mac_port =
  mp_read :: "u32 \<Rightarrow> 'a \<Rightarrow> u32 \<times> 'a"
  mp_write :: "u32 \<Rightarrow> u32 \<Rightarrow> 'a \<Rightarrow> 'a"

definition CUSTOM_MAC_OPERAND_A :: u32 where [abi_defs]: "CUSTOM_MAC_OPERAND_A = 0x00"
definition CUSTOM_MAC_OPERAND_B :: u32 where [abi_defs]: "CUSTOM_MAC_OPERAND_B = 0x04"
definition CUSTOM_MAC_ACCUMULATOR :: u32 where [abi_defs]: "CUSTOM_MAC_ACCUMULATOR = 0x08"
definition CUSTOM_MAC_COMMAND :: u32 where [abi_defs]: "CUSTOM_MAC_COMMAND = 0x0c"
definition CUSTOM_MAC_RESULT :: u32 where [abi_defs]: "CUSTOM_MAC_RESULT = 0x10"
definition CUSTOM_MAC_STATUS :: u32 where [abi_defs]: "CUSTOM_MAC_STATUS = 0x14"
definition CUSTOM_MAC_CYCLES :: u32 where [abi_defs]: "CUSTOM_MAC_CYCLES = 0x18"
definition CUSTOM_MAC_ID :: u32 where [abi_defs]: "CUSTOM_MAC_ID = 0x1c"
definition CUSTOM_MAC_EXPECTED_ID :: u32 where [abi_defs]: "CUSTOM_MAC_EXPECTED_ID = 0x4e5058a1"

definition custom_reg :: "u32 \<Rightarrow> u32" where
  "custom_reg offset = 0x30000000 + offset"

text \<open>The wait for the done bit.\<close>

partial_function (option) await_done :: "'a mac_port \<Rightarrow> 'a \<Rightarrow> 'a option" where
  "await_done M a =
     (let (st, a) = mp_read M (custom_reg CUSTOM_MAC_STATUS) a in
      if st AND 1 = 0 then await_done M a else Some a)"

definition custom_add :: "'a mac_port \<Rightarrow> u32 \<Rightarrow> u32 \<Rightarrow> 'a \<Rightarrow> (u32 \<times> 'a) option" where
  "custom_add M lhs rhs a =
     do { let a = mp_write M (custom_reg CUSTOM_MAC_OPERAND_A) lhs a;
          let a = mp_write M (custom_reg CUSTOM_MAC_OPERAND_B) 1 a;
          let a = mp_write M (custom_reg CUSTOM_MAC_ACCUMULATOR) rhs a;
          let a = mp_write M (custom_reg CUSTOM_MAC_COMMAND) 1 a;
          a \<leftarrow> await_done M a;
          Some (mp_read M (custom_reg CUSTOM_MAC_RESULT) a) }"

section \<open>The command processor\<close>

definition tensor_in_bounds :: "u32 \<Rightarrow> u32 \<Rightarrow> bool" where
  "tensor_in_bounds offset count \<longleftrightarrow>
     (if offset AND 3 \<noteq> 0 \<or> TENSOR_MAX_ELEMENTS < count then False
      else offset \<le> CORAL_EXTMEM_SIZE \<and> count * 4 \<le> CORAL_EXTMEM_SIZE - offset)"

definition finish_error :: "u32 \<Rightarrow> bytes \<Rightarrow> bytes option" where
  "finish_error e m = do { m \<leftarrow> store32 m f_error_code e; store32 m f_status COMMAND_ERROR }"

text \<open>
  The loop over the elements. The command block is volatile: the count and the opcode are read anew
  in every iteration.
\<close>

definition add_element ::
  "'a mac_port \<Rightarrow> nat \<Rightarrow> nat \<Rightarrow> nat \<Rightarrow> nat \<Rightarrow> bytes \<Rightarrow> 'a \<Rightarrow> (bytes \<times> 'a) option" where
  "add_element M input0 input1 output i m a =
     do { opcode \<leftarrow> load32 m f_opcode;
          x \<leftarrow> load32 m (input0 + 4 * i);
          y \<leftarrow> load32 m (input1 + 4 * i);
          (v, a) \<leftarrow> (if opcode = OPCODE_VECTOR_ADD_CUSTOM_U32 then custom_add M x y a else Some (x + y, a));
          m \<leftarrow> store32 m (output + 4 * i) v;
          m \<leftarrow> store32 m f_completed_elements (of_nat (i + 1));
          Some (m, a) }"

function add_elements ::
  "'a mac_port \<Rightarrow> nat \<Rightarrow> nat \<Rightarrow> nat \<Rightarrow> nat \<Rightarrow> bytes \<Rightarrow> 'a \<Rightarrow> (bytes \<times> 'a) option" where
  "add_elements M input0 input1 output i m a =
     (case load32 m f_element_count of
        None \<Rightarrow> None
      | Some count \<Rightarrow>
          if i < unat count then
            (case add_element M input0 input1 output i m a of
               None \<Rightarrow> None
             | Some (m, a) \<Rightarrow> add_elements M input0 input1 output (i + 1) m a)
          else Some (m, a))"
  by pat_completeness auto

termination add_elements
proof (relation "measure (\<lambda>(M, x, y, z, i, m, a). 2 ^ 32 - i)")
  fix M :: "'a mac_port" and input0 input1 out i :: nat and m m' :: bytes and a a' :: 'a and count
  assume "i < unat (count :: u32)"
  then show "((M, input0, input1, out, i + 1, m', a'), M, input0, input1, out, i, m, a)
      \<in> measure (\<lambda>(M, x, y, z, i, m, a). 2 ^ 32 - i)"
    using u32_lt [of count] by simp
qed simp

declare add_elements.simps [simp del]

definition command_main :: "'a mac_port \<Rightarrow> bytes \<Rightarrow> 'a \<Rightarrow> (int \<times> bytes \<times> 'a) option" where
  "command_main M m a =
     do { magic \<leftarrow> load32 m f_magic;
          abi_version \<leftarrow> load32 m f_abi_version;
          struct_size \<leftarrow> load32 m f_struct_size;
          if magic \<noteq> COMMAND_MAGIC \<or> abi_version \<noteq> COMMAND_ABI_VERSION \<or> struct_size \<noteq> COMMAND_SIZE
          then do { m \<leftarrow> finish_error COMMAND_ERROR_ABI m; Some (1, m, a) }
          else do {
            opcode \<leftarrow> load32 m f_opcode;
            if opcode \<noteq> OPCODE_VECTOR_ADD_U32 \<and> opcode \<noteq> OPCODE_VECTOR_ADD_CUSTOM_U32
            then do { m \<leftarrow> finish_error COMMAND_ERROR_OPCODE m; Some (1, m, a) }
            else do {
              input0 \<leftarrow> load32 m f_input0_offset;
              input1 \<leftarrow> load32 m f_input1_offset;
              output \<leftarrow> load32 m f_output_offset;
              count \<leftarrow> load32 m f_element_count;
              output_size \<leftarrow> load32 m f_output_size;
              if \<not> tensor_in_bounds input0 count \<or> \<not> tensor_in_bounds input1 count \<or>
                 \<not> tensor_in_bounds output count \<or> output_size \<noteq> count * 4
              then do { m \<leftarrow> finish_error COMMAND_ERROR_BOUNDS m; Some (1, m, a) }
              else do {
                m \<leftarrow> store32 m f_status COMMAND_RUNNING;
                m \<leftarrow> store32 m f_error_code COMMAND_ERROR_NONE;
                m \<leftarrow> store32 m f_completed_elements 0;
                m \<leftarrow> store32 m f_accelerator_cycles 0;
                let (before, a) = (if opcode = OPCODE_VECTOR_ADD_CUSTOM_U32
                                   then mp_read M (custom_reg CUSTOM_MAC_CYCLES) a else (0, a));
                let (ident, a) = (if opcode = OPCODE_VECTOR_ADD_CUSTOM_U32
                                   then mp_read M (custom_reg CUSTOM_MAC_ID) a else (0, a));
                if opcode = OPCODE_VECTOR_ADD_CUSTOM_U32 \<and> ident \<noteq> CUSTOM_MAC_EXPECTED_ID
                then do { m \<leftarrow> finish_error COMMAND_ERROR_ACCELERATOR m; Some (1, m, a) }
                else do {
                  (m, a) \<leftarrow> add_elements M (unat input0) (unat input1) (unat output) 0 m a;
                  opcode \<leftarrow> load32 m f_opcode;
                  (m, a) \<leftarrow> (if opcode = OPCODE_VECTOR_ADD_CUSTOM_U32
                             then let (after, a) = mp_read M (custom_reg CUSTOM_MAC_CYCLES) a in
                               do { m \<leftarrow> store32 m f_accelerator_cycles (after - before); Some (m, a) }
                             else Some (m, a));
                  m \<leftarrow> store32 m f_status COMMAND_COMPLETE;
                  Some (0, m, a) } } } } }"

section \<open>The DMA smoke test\<close>

definition CORAL_DMA_MAGIC :: u32 where [abi_defs]: "CORAL_DMA_MAGIC = 0x4e505544"

definition dma_smoke_main :: "bytes \<Rightarrow> (int \<times> bytes) option" where
  "dma_smoke_main m =
     do { x \<leftarrow> load32 m 0;
          y \<leftarrow> load32 m 4;
          m \<leftarrow> store32 m 0 (x + y);
          m \<leftarrow> store32 m 8 CORAL_DMA_MAGIC;
          Some (0, m) }"

section \<open>The contract of the custom unit\<close>

text \<open>
  What the firmware relies on: the identification register, a cycle counter that can be read, and that
  a command started on a ready unit gets done and leaves \<open>a * b + accumulator\<close> in the result register.
\<close>

locale mac_unit =
  fixes M :: "'a mac_port" and ready :: "'a \<Rightarrow> bool"
  assumes ident: "ready a \<Longrightarrow> \<exists>a'. mp_read M (custom_reg CUSTOM_MAC_ID) a = (CUSTOM_MAC_EXPECTED_ID, a') \<and> ready a'"
    and cycles: "ready a \<Longrightarrow> \<exists>c a'. mp_read M (custom_reg CUSTOM_MAC_CYCLES) a = (c, a') \<and> ready a'"
    and computes: "ready a \<Longrightarrow> \<exists>a'. await_done M (mp_write M (custom_reg CUSTOM_MAC_COMMAND) 1
        (mp_write M (custom_reg CUSTOM_MAC_ACCUMULATOR) z (mp_write M (custom_reg CUSTOM_MAC_OPERAND_B) y
          (mp_write M (custom_reg CUSTOM_MAC_OPERAND_A) x a)))) = Some a' \<and>
        fst (mp_read M (custom_reg CUSTOM_MAC_RESULT) a') = x * y + z \<and> ready (snd (mp_read M (custom_reg CUSTOM_MAC_RESULT) a'))"
begin

lemma custom_add_sum:
  assumes "ready a"
  shows "\<exists>a'. custom_add M x y a = Some (x + y, a') \<and> ready a'"
  using computes [OF assms, of y 1 x]
  by (auto simp: custom_add_def prod_eq_iff)

end

text \<open>The unit of \<open>Custom_Mac\<close> behind the bus: clocked once before every access.\<close>

definition clocked_port :: "custom_mac mac_port" where
  "clocked_port = \<lparr> mp_read = (\<lambda>a m. let m = mac_StepIfActive m in (mac_Read32 a m, m)),
     mp_write = (\<lambda>a w m. mac_Write32 a w (mac_StepIfActive m)) \<rparr>"

definition mac_ready :: "custom_mac \<Rightarrow> bool" where
  "mac_ready m \<longleftrightarrow> \<not> busy_q (mac_model m)"

lemma clock_ready: "mac_ready m \<Longrightarrow> mac_model (mac_StepIfActive m) = mac_model m"
  by (simp add: mac_ready_def mac_StepIfActive_def mac_Step_def mac_idle_clock)

lemma clocked_read: "mp_read clocked_port a m = (mac_Read32 a (mac_StepIfActive m), mac_StepIfActive m)"
  by (simp add: clocked_port_def Let_def)

lemma clocked_write: "mp_write clocked_port a w m = mac_Write32 a w (mac_StepIfActive m)"
  by (simp add: clocked_port_def)

text \<open>The registers after the four writes of a command.\<close>

definition loaded :: "u32 \<Rightarrow> u32 \<Rightarrow> u32 \<Rightarrow> 3 word \<Rightarrow> u32 \<Rightarrow> custom_mac \<Rightarrow> bool" where
  "loaded x y z n k m \<longleftrightarrow> operand_a_q (mac_model m) = x \<and> operand_b_q (mac_model m) = y \<and>
     accumulator_q (mac_model m) = z \<and> busy_q (mac_model m) \<and> \<not> done_q (mac_model m) \<and>
     countdown_q (mac_model m) = n \<and> active_cycles m = k"

lemma ready_writes:
  assumes "mac_ready m"
  shows "mac_model (mp_write clocked_port (custom_reg CUSTOM_MAC_OPERAND_A) x m) = mac_model m\<lparr> operand_a_q := x \<rparr>"
    and "mac_model (mp_write clocked_port (custom_reg CUSTOM_MAC_OPERAND_B) x m) = mac_model m\<lparr> operand_b_q := x \<rparr>"
    and "mac_model (mp_write clocked_port (custom_reg CUSTOM_MAC_ACCUMULATOR) x m) = mac_model m\<lparr> accumulator_q := x \<rparr>"
    and "mac_model (mp_write clocked_port (custom_reg CUSTOM_MAC_COMMAND) 1 m) =
      mac_model m\<lparr> countdown_q := 3, busy_q := True, done_q := False \<rparr>"
    and "active_cycles (mp_write clocked_port (custom_reg CUSTOM_MAC_COMMAND) 1 m) = 3"
  using clock_ready [OF assms] assms
  by (simp_all add: clocked_write mac_ready_def mac_Write32_def mac_posedge_def mac_busy_def custom_reg_def abi_defs Let_def)

lemma command_loaded:
  assumes "mac_ready m"
  shows "loaded x y z 3 3 (mp_write clocked_port (custom_reg CUSTOM_MAC_COMMAND) 1
        (mp_write clocked_port (custom_reg CUSTOM_MAC_ACCUMULATOR) z (mp_write clocked_port (custom_reg CUSTOM_MAC_OPERAND_B) y
          (mp_write clocked_port (custom_reg CUSTOM_MAC_OPERAND_A) x m))))"
proof -
  let ?m1 = "mp_write clocked_port (custom_reg CUSTOM_MAC_OPERAND_A) x m"
  let ?m2 = "mp_write clocked_port (custom_reg CUSTOM_MAC_OPERAND_B) y ?m1"
  let ?m3 = "mp_write clocked_port (custom_reg CUSTOM_MAC_ACCUMULATOR) z ?m2"
  have r1: "mac_ready ?m1" using assms ready_writes(1) [OF assms, of x] by (simp add: mac_ready_def)
  have r2: "mac_ready ?m2" using r1 ready_writes(2) [OF r1, of y] by (simp add: mac_ready_def)
  have r3: "mac_ready ?m3" using r2 ready_writes(3) [OF r2, of z] by (simp add: mac_ready_def)
  show ?thesis
    using ready_writes(4,5) [OF r3]
    by (simp add: loaded_def ready_writes(1) [OF assms] ready_writes(2) [OF r1] ready_writes(3) [OF r2])
qed

lemma status_loaded: "loaded x y z n k m \<Longrightarrow> mac_Read32 (custom_reg CUSTOM_MAC_STATUS) m AND 1 = 0"
  by (simp add: loaded_def mac_Read32_def mac_read_def custom_reg_def abi_defs)

lemma await_loaded:
  assumes "loaded x y z 3 3 m"
  shows "\<exists>m'. await_done clocked_port m = Some m' \<and> mac_ready m' \<and> result_q (mac_model m') = x * y + z"
proof -
  define m1 where "m1 = mac_StepIfActive m"
  define m2 where "m2 = mac_StepIfActive m1"
  define m3 where "m3 = mac_StepIfActive m2"
  have l1: "loaded x y z 2 2 m1" using assms
    by (auto simp: m1_def loaded_def mac_StepIfActive_def mac_Step_def mac_posedge_def mac_busy_def Let_def)
  have l2: "loaded x y z 1 1 m2" using l1
    by (auto simp: m2_def loaded_def mac_StepIfActive_def mac_Step_def mac_posedge_def mac_busy_def Let_def)
  have m3: "mac_ready m3" "result_q (mac_model m3) = x * y + z" "done_q (mac_model m3)" using l2
    by (auto simp: m3_def mac_ready_def loaded_def mac_StepIfActive_def mac_Step_def mac_posedge_def mac_busy_def Let_def)
  have "mac_Read32 (custom_reg CUSTOM_MAC_STATUS) m3 AND 1 \<noteq> 0" using m3(1,3)
    by (simp add: mac_ready_def mac_Read32_def mac_read_def custom_reg_def abi_defs)
  then have "await_done clocked_port m2 = Some m3"
    by (subst await_done.simps) (simp add: clocked_read m3_def)
  then have "await_done clocked_port m1 = Some m3"
    using status_loaded [OF l2] by (subst await_done.simps) (simp add: clocked_read m2_def)
  then have "await_done clocked_port m = Some m3"
    using status_loaded [OF l1] by (subst await_done.simps) (simp add: clocked_read m1_def)
  then show ?thesis using m3 by blast
qed

interpretation mac: mac_unit clocked_port mac_ready
proof
  fix a assume a: "mac_ready a"
  note c = clock_ready [OF a]
  show "\<exists>a'. mp_read clocked_port (custom_reg CUSTOM_MAC_ID) a = (CUSTOM_MAC_EXPECTED_ID, a') \<and> mac_ready a'"
    using a c by (simp add: clocked_read mac_ready_def mac_Read32_def mac_read_def custom_reg_def abi_defs)
  show "\<exists>c a'. mp_read clocked_port (custom_reg CUSTOM_MAC_CYCLES) a = (c, a') \<and> mac_ready a'"
    using a c by (simp add: clocked_read mac_ready_def)
next
  fix a x y z assume "mac_ready a"
  from await_loaded [OF command_loaded [OF this, of x y z]] obtain m' where
    m': "await_done clocked_port (mp_write clocked_port (custom_reg CUSTOM_MAC_COMMAND) 1
        (mp_write clocked_port (custom_reg CUSTOM_MAC_ACCUMULATOR) z (mp_write clocked_port (custom_reg CUSTOM_MAC_OPERAND_B) y
          (mp_write clocked_port (custom_reg CUSTOM_MAC_OPERAND_A) x a)))) = Some m'" "mac_ready m'"
      "result_q (mac_model m') = x * y + z" by blast
  note c = clock_ready [OF m'(2)]
  show "\<exists>a'. await_done clocked_port (mp_write clocked_port (custom_reg CUSTOM_MAC_COMMAND) 1
        (mp_write clocked_port (custom_reg CUSTOM_MAC_ACCUMULATOR) z (mp_write clocked_port (custom_reg CUSTOM_MAC_OPERAND_B) y
          (mp_write clocked_port (custom_reg CUSTOM_MAC_OPERAND_A) x a)))) = Some a' \<and>
        fst (mp_read clocked_port (custom_reg CUSTOM_MAC_RESULT) a') = x * y + z \<and>
        mac_ready (snd (mp_read clocked_port (custom_reg CUSTOM_MAC_RESULT) a'))"
    using m' c by (simp add: clocked_read mac_ready_def mac_Read32_def mac_read_def custom_reg_def abi_defs)
qed


end
