(* ===== verification/Host_Runtime.thy ===== *)
theory Host_Runtime
  imports C_Strings Kernel_Driver Command_Firmware
begin

text \<open>
  The host runtime library (\<open>runtime/host/src/coral_runtime.c\<close>): opening the device through the driver or
  through \<open>/dev/mem\<close>, registers, the shared window, running a job, and the vector-add, model-file and
  MobileNet front ends.

  The operating system is the record \<open>host_os\<close>, an argument: its calls return a negated error number or
  a result, and the state of everything behind them is the world. A mapping is named by its file and its
  offset there; an access through it reads or writes bytes at a file offset. A \<open>memset\<close> of a mapped range
  is one store. \<open>exit(1)\<close> and a machine that stops are \<open>None\<close>. Messages are left out.
\<close>

section \<open>Operating system and library state\<close>

record 'w host_os =
  os_page_size :: int
  os_getenv :: "string \<Rightarrow> string option"
  os_open :: "string \<Rightarrow> 'w \<Rightarrow> int \<times> 'w"
  os_close :: "int \<Rightarrow> 'w \<Rightarrow> 'w"
  os_ioctl :: "int \<Rightarrow> ioctl_request \<Rightarrow> 'w \<Rightarrow> (int \<times> ioctl_reply \<times> 'w) option"
  os_poll :: "int \<Rightarrow> int \<Rightarrow> 'w \<Rightarrow> (int \<times> int \<times> 'w) option"
  os_mmap :: "int \<Rightarrow> u64 \<Rightarrow> u64 \<Rightarrow> 'w \<Rightarrow> int \<times> 'w"
  os_munmap :: "int \<Rightarrow> u64 \<Rightarrow> u64 \<Rightarrow> 'w \<Rightarrow> 'w"
  os_load :: "int \<Rightarrow> u64 \<Rightarrow> nat \<Rightarrow> 'w \<Rightarrow> (bytes \<times> 'w) option"
  os_store :: "int \<Rightarrow> u64 \<Rightarrow> bytes \<Rightarrow> 'w \<Rightarrow> 'w option"
  os_clock :: "'w \<Rightarrow> (u64 \<times> u64) option \<times> 'w"
  os_malloc :: "nat \<Rightarrow> 'w \<Rightarrow> bool"
  os_fstat :: "int \<Rightarrow> 'w \<Rightarrow> int \<times> 'w"
  os_read :: "int \<Rightarrow> nat \<Rightarrow> 'w \<Rightarrow> (int + bytes) \<times> 'w"

record 'w host =
  world :: 'w
  errno :: int

datatype opennpux_coral_transport = TRANSPORT_UNKNOWN | TRANSPORT_DEVMEM | TRANSPORT_DRIVER

datatype opennpux_coral_backend = BACKEND_UNKNOWN | BACKEND_STAGE_A | BACKEND_VERILATED

record opennpux_coral_device =
  dv_fd :: int
  dv_page_size :: u64
  dv_mapping :: bool
  dv_page_base :: u64
  dv_base :: u64
  dv_transport :: opennpux_coral_transport
  dv_abi_version :: u32
  dv_features :: u32

record opennpux_coral_info =
  in_base :: u64
  in_backend_id :: u32
  in_backend :: opennpux_coral_backend
  in_firmware_entry :: u32
  in_shared_base :: u32
  in_shared_size :: u32
  in_dma_requests :: u32
  in_dma_completions :: u32
  in_dma_errors :: u32
  in_dma_state :: u32
  in_reset_control :: u32
  in_status :: u32
  in_abi_version :: u32
  in_features :: u32

text \<open>\<open>sw_offset\<close> is the file offset of the first byte of the window.\<close>

record opennpux_coral_shared_window =
  sw_base :: u32
  sw_size :: u32
  sw_map_size :: u64
  sw_map_base :: u64
  sw_mapping :: bool
  sw_offset :: u64

definition no_device :: opennpux_coral_device where
  "no_device = \<lparr> dv_fd = - 1, dv_page_size = 0, dv_mapping = False, dv_page_base = 0, dv_base = 0,
     dv_transport = TRANSPORT_UNKNOWN, dv_abi_version = 0, dv_features = 0 \<rparr>"

definition no_window :: opennpux_coral_shared_window where
  "no_window = \<lparr> sw_base = 0, sw_size = 0, sw_map_size = 0, sw_map_base = 0, sw_mapping = False, sw_offset = 0 \<rparr>"

definition opennpux_coral_backend_name :: "opennpux_coral_backend \<Rightarrow> string" where
  "opennpux_coral_backend_name b =
     (case b of BACKEND_STAGE_A \<Rightarrow> ''stage-a'' | BACKEND_VERILATED \<Rightarrow> ''verilated-coral'' | BACKEND_UNKNOWN \<Rightarrow> ''unknown'')"

definition opennpux_coral_transport_name :: "opennpux_coral_transport \<Rightarrow> string" where
  "opennpux_coral_transport_name t =
     (case t of TRANSPORT_DEVMEM \<Rightarrow> ''devmem'' | TRANSPORT_DRIVER \<Rightarrow> ''driver'' | TRANSPORT_UNKNOWN \<Rightarrow> ''unknown'')"

definition opennpux_coral_decode_backend :: "u32 \<Rightarrow> opennpux_coral_backend" where
  "opennpux_coral_decode_backend ident =
     (if ident = 0x4e505501 then BACKEND_STAGE_A else if ident = 0x4e505502 then BACKEND_VERILATED else BACKEND_UNKNOWN)"

definition opennpux_coral_parse_u64 :: "string \<Rightarrow> u64 option" where
  "opennpux_coral_parse_u64 s =
     (let (parsed, rest, erange) = strtoull s in
      if erange \<or> rest = s \<or> rest \<noteq> [] then None else Some parsed)"

definition opennpux_coral_check_shared_u32_access :: "u32 \<Rightarrow> u64 \<Rightarrow> 'w host \<Rightarrow> int \<times> 'w host" where
  "opennpux_coral_check_shared_u32_access n offset s =
     (if offset AND 0x3 \<noteq> 0 then (- 1, s\<lparr> errno := EINVAL \<rparr>)
      else if 0xffffffff < offset \<or> ucast n < offset + 4 then (- 1, s\<lparr> errno := ERANGE \<rparr>)
      else (0, s))"

section \<open>System calls\<close>

text \<open>A failing call sets \<open>errno\<close> and returns -1.\<close>

definition call_result :: "int \<Rightarrow> 'w \<Rightarrow> 'w host \<Rightarrow> int \<times> 'w host" where
  "call_result r w s = (if r < 0 then (- 1, s\<lparr> world := w, errno := - r \<rparr>) else (r, s\<lparr> world := w \<rparr>))"

definition sys_open :: "'w host_os \<Rightarrow> string \<Rightarrow> 'w host \<Rightarrow> int \<times> 'w host" where
  "sys_open OS path s = (let (r, w) = os_open OS path (world s) in call_result r w s)"

definition sys_close :: "'w host_os \<Rightarrow> int \<Rightarrow> 'w host \<Rightarrow> 'w host" where
  "sys_close OS fd s = s\<lparr> world := os_close OS fd (world s) \<rparr>"

definition sys_ioctl ::
  "'w host_os \<Rightarrow> int \<Rightarrow> ioctl_request \<Rightarrow> 'w host \<Rightarrow> (int \<times> ioctl_reply \<times> 'w host) option" where
  "sys_ioctl OS fd q s =
     do { (r, reply, w) \<leftarrow> os_ioctl OS fd q (world s);
          let (r, s) = call_result r w s;
          Some (r, reply, s) }"

definition sys_poll :: "'w host_os \<Rightarrow> int \<Rightarrow> int \<Rightarrow> 'w host \<Rightarrow> (int \<times> int \<times> 'w host) option" where
  "sys_poll OS fd timeout s =
     do { (r, revents, w) \<leftarrow> os_poll OS fd timeout (world s);
          let (r, s) = call_result r w s;
          Some (r, revents, s) }"

definition sys_mmap :: "'w host_os \<Rightarrow> int \<Rightarrow> u64 \<Rightarrow> u64 \<Rightarrow> 'w host \<Rightarrow> int \<times> 'w host" where
  "sys_mmap OS fd n offset s = (let (r, w) = os_mmap OS fd n offset (world s) in call_result r w s)"

definition sys_munmap :: "'w host_os \<Rightarrow> int \<Rightarrow> u64 \<Rightarrow> u64 \<Rightarrow> 'w host \<Rightarrow> 'w host" where
  "sys_munmap OS fd n offset s = s\<lparr> world := os_munmap OS fd n offset (world s) \<rparr>"

definition mapped_load32 :: "'w host_os \<Rightarrow> int \<Rightarrow> u64 \<Rightarrow> 'w host \<Rightarrow> (u32 \<times> 'w host) option" where
  "mapped_load32 OS fd offset s =
     do { (bs, w) \<leftarrow> os_load OS fd offset 4 (world s); Some (le_word bs, s\<lparr> world := w \<rparr>) }"

definition mapped_store :: "'w host_os \<Rightarrow> int \<Rightarrow> u64 \<Rightarrow> bytes \<Rightarrow> 'w host \<Rightarrow> 'w host option" where
  "mapped_store OS fd offset bs s = do { w \<leftarrow> os_store OS fd offset bs (world s); Some (s\<lparr> world := w \<rparr>) }"

definition mapped_store32 :: "'w host_os \<Rightarrow> int \<Rightarrow> u64 \<Rightarrow> u32 \<Rightarrow> 'w host \<Rightarrow> 'w host option" where
  "mapped_store32 OS fd offset v s = mapped_store OS fd offset (le_bytes 4 v) s"

section \<open>Opening and closing\<close>

definition DEVICE_PATH :: string where [abi_defs]: "DEVICE_PATH = ''/dev/opennpux-coral''"

definition driver_path :: "'w host_os \<Rightarrow> string" where
  "driver_path OS =
     (case os_getenv OS ''OPENNPUX_CORAL_DEVICE'' of
        None \<Rightarrow> DEVICE_PATH | Some p \<Rightarrow> if p = [] then DEVICE_PATH else p)"

text \<open>The branch of an open driver file: its capabilities, if it has any.\<close>

definition open_driver ::
  "'w host_os \<Rightarrow> opennpux_coral_device \<Rightarrow> 'w host \<Rightarrow> (int \<times> opennpux_coral_device \<times> 'w host) option" where
  "open_driver OS dev s =
     do { (r, reply, s) \<leftarrow> sys_ioctl OS (dv_fd dev) (GET_CAPS True) s;
          if r = 0 then
            (case reply of
               Caps_reply caps \<Rightarrow>
                 if ic_abi_version caps \<noteq> OPENNPUX_CORAL_ABI_VERSION
                 then Some (- 1, dev\<lparr> dv_fd := - 1 \<rparr>, (sys_close OS (dv_fd dev) s)\<lparr> errno := EPROTO \<rparr>)
                 else Some (0, dev\<lparr> dv_abi_version := ic_abi_version caps, dv_features := ic_features caps,
                        dv_transport := TRANSPORT_DRIVER \<rparr>, s)
             | _ \<Rightarrow> None)
          else if errno s \<noteq> ENOTTY then Some (- 1, dev\<lparr> dv_fd := - 1 \<rparr>, sys_close OS (dv_fd dev) s)
          else Some (0, dev\<lparr> dv_transport := TRANSPORT_DRIVER \<rparr>, s) }"

definition open_devmem ::
  "'w host_os \<Rightarrow> u64 \<Rightarrow> opennpux_coral_device \<Rightarrow> 'w host \<Rightarrow> int \<times> opennpux_coral_device \<times> 'w host" where
  "open_devmem OS org dev s =
     (let csr_addr = org + ucast RESET_CONTROL;
          page_mask = dv_page_size dev - 1;
          dev = dev\<lparr> dv_page_base := csr_addr AND NOT page_mask \<rparr>;
          (fd, s) = sys_open OS ''/dev/mem'' s;
          dev = dev\<lparr> dv_fd := fd \<rparr> in
      if fd < 0 then (- 1, dev, s)
      else let (r, s) = sys_mmap OS fd (dv_page_size dev) (dv_page_base dev) s in
        if r < 0 then (- 1, dev\<lparr> dv_mapping := False, dv_fd := - 1 \<rparr>, sys_close OS fd s)
        else (0, dev\<lparr> dv_mapping := True, dv_transport := TRANSPORT_DEVMEM \<rparr>, s))"

definition opennpux_coral_open ::
  "'w host_os \<Rightarrow> u64 \<Rightarrow> 'w host \<Rightarrow> (int \<times> opennpux_coral_device \<times> 'w host) option" where
  "opennpux_coral_open OS org s =
     (let dev = no_device\<lparr> dv_base := org \<rparr> in
      if os_page_size OS \<le> 0 then Some (- 1, dev, s)
      else let dev = dev\<lparr> dv_page_size := word_of_int (os_page_size OS) \<rparr>;
               forced = os_getenv OS ''OPENNPUX_CORAL_TRANSPORT'';
               force_devmem = (forced = Some ''devmem'');
               force_driver = (forced = Some ''driver'') in
        if force_devmem then Some (open_devmem OS org dev s)
        else let (fd, s) = sys_open OS (driver_path OS) s;
                 dev = dev\<lparr> dv_fd := fd \<rparr> in
          if 0 \<le> fd then open_driver OS dev s
          else if force_driver then Some (- 1, dev, s)
          else Some (open_devmem OS org dev s))"

definition opennpux_coral_close ::
  "'w host_os \<Rightarrow> opennpux_coral_device \<Rightarrow> 'w host \<Rightarrow> opennpux_coral_device \<times> 'w host" where
  "opennpux_coral_close OS dev s =
     (let s = (if dv_mapping dev then sys_munmap OS (dv_fd dev) (dv_page_size dev) (dv_page_base dev) s else s);
          s = (if 0 \<le> dv_fd dev then sys_close OS (dv_fd dev) s else s) in
      (no_device, s))"

section \<open>Registers\<close>

definition reg_ptr :: "opennpux_coral_device \<Rightarrow> u64 \<Rightarrow> u64 option" where
  "reg_ptr dev offset =
     (let addr = dv_base dev + offset in
      if addr < dv_page_base dev \<or> dv_page_base dev + dv_page_size dev < addr + 4 then None
      else Some addr)"

definition get_info_driver ::
  "'w host_os \<Rightarrow> opennpux_coral_device \<Rightarrow> 'w host \<Rightarrow> (opennpux_coral_info \<times> 'w host) option" where
  "get_info_driver OS dev s =
     do { (r, reply, s) \<leftarrow> sys_ioctl OS (dv_fd dev) (GET_INFO True) s;
          if r \<noteq> 0 then None
          else (case reply of
             Info_reply i \<Rightarrow>
               Some (\<lparr> in_base = ii_base i, in_backend_id = ii_backend_id i,
                 in_backend = opennpux_coral_decode_backend (ii_backend_id i), in_firmware_entry = ii_firmware_entry i,
                 in_shared_base = ii_shared_base i, in_shared_size = ii_shared_size i,
                 in_dma_requests = ii_dma_requests i, in_dma_completions = ii_dma_completions i,
                 in_dma_errors = ii_dma_errors i, in_dma_state = ii_dma_state i,
                 in_reset_control = ii_reset_control i, in_status = ii_status i,
                 in_abi_version = dv_abi_version dev, in_features = dv_features dev \<rparr>, s)
           | _ \<Rightarrow> None) }"

definition info_register :: "u64 \<Rightarrow> opennpux_coral_info \<Rightarrow> u32 option" where
  "info_register offset i =
     (if offset = ucast RESET_CONTROL then Some (in_reset_control i)
      else if offset = ucast STATUS then Some (in_status i)
      else if offset = ucast DMA_ERRORS then Some (in_dma_errors i)
      else if offset = ucast DMA_REQUESTS then Some (in_dma_requests i)
      else if offset = ucast DMA_COMPLETIONS then Some (in_dma_completions i)
      else if offset = ucast DMA_STATE then Some (in_dma_state i)
      else if offset = ucast SHARED_BASE then Some (in_shared_base i)
      else if offset = ucast SHARED_SIZE then Some (in_shared_size i)
      else if offset = ucast FIRMWARE_ENTRY then Some (in_firmware_entry i)
      else if offset = ucast BACKEND_ID then Some (in_backend_id i)
      else None)"

definition opennpux_coral_read_reg ::
  "'w host_os \<Rightarrow> opennpux_coral_device \<Rightarrow> u64 \<Rightarrow> 'w host \<Rightarrow> (u32 \<times> 'w host) option" where
  "opennpux_coral_read_reg OS dev offset s =
     (if dv_transport dev = TRANSPORT_DRIVER then
        do { (i, s) \<leftarrow> get_info_driver OS dev s; v \<leftarrow> info_register offset i; Some (v, s) }
      else do { addr \<leftarrow> reg_ptr dev offset; mapped_load32 OS (dv_fd dev) addr s })"

definition opennpux_coral_write_reg ::
  "'w host_os \<Rightarrow> opennpux_coral_device \<Rightarrow> u64 \<Rightarrow> u32 \<Rightarrow> 'w host \<Rightarrow> 'w host option" where
  "opennpux_coral_write_reg OS dev offset v s =
     (if dv_transport dev = TRANSPORT_DRIVER then None
      else do { addr \<leftarrow> reg_ptr dev offset; mapped_store32 OS (dv_fd dev) addr v s })"

definition opennpux_coral_get_info ::
  "'w host_os \<Rightarrow> opennpux_coral_device \<Rightarrow> 'w host \<Rightarrow> (opennpux_coral_info \<times> 'w host) option" where
  "opennpux_coral_get_info OS dev s =
     (if dv_transport dev = TRANSPORT_DRIVER then get_info_driver OS dev s
      else do { (backend_id, s) \<leftarrow> opennpux_coral_read_reg OS dev (ucast BACKEND_ID) s;
                (firmware_entry, s) \<leftarrow> opennpux_coral_read_reg OS dev (ucast FIRMWARE_ENTRY) s;
                (shared_base, s) \<leftarrow> opennpux_coral_read_reg OS dev (ucast SHARED_BASE) s;
                (shared_sz, s) \<leftarrow> opennpux_coral_read_reg OS dev (ucast SHARED_SIZE) s;
                (dma_requests, s) \<leftarrow> opennpux_coral_read_reg OS dev (ucast DMA_REQUESTS) s;
                (dma_completions, s) \<leftarrow> opennpux_coral_read_reg OS dev (ucast DMA_COMPLETIONS) s;
                (dma_errors, s) \<leftarrow> opennpux_coral_read_reg OS dev (ucast DMA_ERRORS) s;
                (dma_state, s) \<leftarrow> opennpux_coral_read_reg OS dev (ucast DMA_STATE) s;
                (reset_control, s) \<leftarrow> opennpux_coral_read_reg OS dev (ucast RESET_CONTROL) s;
                (st, s) \<leftarrow> opennpux_coral_read_reg OS dev (ucast STATUS) s;
                Some (\<lparr> in_base = dv_base dev, in_backend_id = backend_id,
                  in_backend = opennpux_coral_decode_backend backend_id, in_firmware_entry = firmware_entry,
                  in_shared_base = shared_base, in_shared_size = shared_sz, in_dma_requests = dma_requests,
                  in_dma_completions = dma_completions, in_dma_errors = dma_errors, in_dma_state = dma_state,
                  in_reset_control = reset_control, in_status = st, in_abi_version = 0, in_features = 0 \<rparr>, s) })"

section \<open>The shared window\<close>

definition opennpux_coral_open_shared_window ::
  "'w host_os \<Rightarrow> opennpux_coral_device \<Rightarrow> u64 \<Rightarrow> 'w host \<Rightarrow> (int \<times> opennpux_coral_shared_window \<times> 'w host) option" where
  "opennpux_coral_open_shared_window OS dev min_size s =
     do { (org, s) \<leftarrow> opennpux_coral_read_reg OS dev (ucast SHARED_BASE) s;
          (n, s) \<leftarrow> opennpux_coral_read_reg OS dev (ucast SHARED_SIZE) s;
          let win = no_window\<lparr> sw_base := org, sw_size := n \<rparr>;
          let driver = (dv_transport dev = TRANSPORT_DRIVER);
          if ucast n < min_size then Some (- 1, win, s)
          else if driver \<and> dv_features dev AND FEATURE_SHARED_MMAP = 0 then Some (- 1, win, s\<lparr> errno := ENOTSUP \<rparr>)
          else let page_mask = dv_page_size dev - 1;
                   map_base = (if driver then 0 else ucast org AND NOT page_mask);
                   map_offset = (if driver then 0 else ucast org AND page_mask);
                   win = win\<lparr> sw_map_size := map_offset + ucast n, sw_map_base := map_base \<rparr>;
                   (r, s) = sys_mmap OS (dv_fd dev) (sw_map_size win) map_base s in
            if r < 0 then Some (- 1, win, s)
            else Some (0, win\<lparr> sw_mapping := True, sw_offset := map_base + map_offset \<rparr>, s) }"

definition opennpux_coral_close_shared_window ::
  "'w host_os \<Rightarrow> opennpux_coral_device \<Rightarrow> opennpux_coral_shared_window \<Rightarrow> 'w host \<Rightarrow> 'w host" where
  "opennpux_coral_close_shared_window OS dev win s =
     (if sw_mapping win then sys_munmap OS (dv_fd dev) (sw_map_size win) (sw_map_base win) s else s)"

definition opennpux_coral_clear_shared_window ::
  "'w host_os \<Rightarrow> opennpux_coral_device \<Rightarrow> 'w host \<Rightarrow> (int \<times> 'w host) option" where
  "opennpux_coral_clear_shared_window OS dev s =
     do { (r, win, s) \<leftarrow> opennpux_coral_open_shared_window OS dev 0 s;
          if r \<noteq> 0 then Some (- 1, s)
          else do { s \<leftarrow> mapped_store OS (dv_fd dev) (sw_offset win) (replicate (unat (sw_size win)) 0) s;
                    Some (0, opennpux_coral_close_shared_window OS dev win s) } }"

definition opennpux_coral_read_shared_u32 ::
  "'w host_os \<Rightarrow> opennpux_coral_device \<Rightarrow> u64 \<Rightarrow> 'w host \<Rightarrow> (int \<times> u32 \<times> 'w host) option" where
  "opennpux_coral_read_shared_u32 OS dev offset s =
     do { (r, win, s) \<leftarrow> opennpux_coral_open_shared_window OS dev 4 s;
          if r \<noteq> 0 then Some (- 1, 0, s)
          else do { let (c, s) = opennpux_coral_check_shared_u32_access (sw_size win) offset s;
            if c \<noteq> 0 then Some (- 1, 0, opennpux_coral_close_shared_window OS dev win s)
            else do { (v, s) \<leftarrow> mapped_load32 OS (dv_fd dev) (sw_offset win + offset) s;
                      Some (0, v, opennpux_coral_close_shared_window OS dev win s) } } }"

definition opennpux_coral_write_shared_u32 ::
  "'w host_os \<Rightarrow> opennpux_coral_device \<Rightarrow> u64 \<Rightarrow> u32 \<Rightarrow> 'w host \<Rightarrow> (int \<times> 'w host) option" where
  "opennpux_coral_write_shared_u32 OS dev offset v s =
     do { (r, win, s) \<leftarrow> opennpux_coral_open_shared_window OS dev 4 s;
          if r \<noteq> 0 then Some (- 1, s)
          else do { let (c, s) = opennpux_coral_check_shared_u32_access (sw_size win) offset s;
            if c \<noteq> 0 then Some (- 1, opennpux_coral_close_shared_window OS dev win s)
            else do { s \<leftarrow> mapped_store32 OS (dv_fd dev) (sw_offset win + offset) v s;
                      Some (0, opennpux_coral_close_shared_window OS dev win s) } } }"

section \<open>Running a job\<close>

definition INT_MAX :: u64 where [abi_defs]: "INT_MAX = 0x7fffffff"

text \<open>The call to \<open>poll\<close>, repeated while a signal interrupts it.\<close>

partial_function (option) poll_retry ::
  "'w host_os \<Rightarrow> int \<Rightarrow> int \<Rightarrow> 'w host \<Rightarrow> (int \<times> int \<times> 'w host) option" where
  "poll_retry OS fd timeout s =
     do { (r, revents, s) \<leftarrow> sys_poll OS fd timeout s;
          if r < 0 \<and> errno s = EINTR then poll_retry OS fd timeout s else Some (r, revents, s) }"

definition status_outcome :: "int \<Rightarrow> u32 \<Rightarrow> 'w host \<Rightarrow> int \<times> 'w host" where
  "status_outcome missing st s =
     (if st AND 0x2 \<noteq> 0 then (- 1, s\<lparr> errno := EIO \<rparr>)
      else if st AND 0x1 = 0 then (- 1, s\<lparr> errno := missing \<rparr>) else (0, s))"

definition run_async ::
  "'w host_os \<Rightarrow> opennpux_coral_device \<Rightarrow> u32 \<Rightarrow> u64 \<Rightarrow> u32 \<Rightarrow> 'w host \<Rightarrow> (int \<times> u32 \<times> 'w host) option" where
  "run_async OS dev entry polls final s =
     do { (r, _, s) \<leftarrow> sys_ioctl OS (dv_fd dev) (START (Some \<lparr> is_entry = entry, is_flags = 0 \<rparr>)) s;
          if r \<noteq> 0 then Some (- 1, final, s)
          else do {
            let timeout = (if INT_MAX < polls then uint INT_MAX else uint polls);
            (poll_result, revents, s) \<leftarrow> poll_retry OS (dv_fd dev) timeout s;
            (info, s) \<leftarrow> opennpux_coral_get_info OS dev s;
            let final = in_status info;
            (reset, _, s) \<leftarrow> sys_ioctl OS (dv_fd dev) RESET s;
            if poll_result < 0 then Some (- 1, final, s)
            else if poll_result = 0 then Some (- 1, final, s\<lparr> errno := ETIMEDOUT \<rparr>)
            else if revents AND (POLLERR OR 0x10 OR 0x20) \<noteq> 0 \<or> in_status info AND 0x2 \<noteq> 0
            then Some (- 1, final, s\<lparr> errno := EIO \<rparr>)
            else if in_status info AND 0x1 = 0 then Some (- 1, final, s\<lparr> errno := EIO \<rparr>)
            else if reset \<noteq> 0 then Some (- 1, final, s)
            else Some (0, final, s) } }"

definition run_driver ::
  "'w host_os \<Rightarrow> opennpux_coral_device \<Rightarrow> u32 \<Rightarrow> u64 \<Rightarrow> u32 \<Rightarrow> 'w host \<Rightarrow> (int \<times> u32 \<times> 'w host) option" where
  "run_driver OS dev entry polls final s =
     do { (r, reply, s) \<leftarrow> sys_ioctl OS (dv_fd dev) (RUN (Some \<lparr> ir_entry = entry, ir_status = 0, ir_polls = polls \<rparr>) True) s;
          if r \<noteq> 0 then Some (- 1, final, s)
          else (case reply of
             Run_reply run \<Rightarrow> (let (r, s) = status_outcome ETIMEDOUT (ir_status run) s in Some (r, ir_status run, s))
           | _ \<Rightarrow> None) }"

primrec poll_register ::
  "'w host_os \<Rightarrow> opennpux_coral_device \<Rightarrow> nat \<Rightarrow> u32 \<Rightarrow> 'w host \<Rightarrow> (u32 \<times> 'w host) option" where
  "poll_register OS dev 0 st s = Some (st, s)"
| "poll_register OS dev (Suc n) st s =
     do { (st, s) \<leftarrow> opennpux_coral_read_reg OS dev (ucast STATUS) s;
          if st AND 0x3 \<noteq> 0 then Some (st, s) else poll_register OS dev n st s }"

definition run_devmem ::
  "'w host_os \<Rightarrow> opennpux_coral_device \<Rightarrow> u32 \<Rightarrow> u64 \<Rightarrow> 'w host \<Rightarrow> (int \<times> u32 \<times> 'w host) option" where
  "run_devmem OS dev entry polls s =
     do { s \<leftarrow> opennpux_coral_write_reg OS dev (ucast PC_START) entry s;
          s \<leftarrow> opennpux_coral_write_reg OS dev (ucast RESET_CONTROL) 1 s;
          s \<leftarrow> opennpux_coral_write_reg OS dev (ucast RESET_CONTROL) 0 s;
          (st, s) \<leftarrow> poll_register OS dev (unat polls) 0 s;
          let (r, s) = status_outcome ETIMEDOUT st s;
          Some (r, st, s) }"

text \<open>
  Every path of the asynchronous run after the poll resets the device exactly once, whatever it returns.
  \<open>final\<close> is what the caller's status variable holds before; it is unchanged where the call does not set it.
\<close>

definition opennpux_coral_run ::
  "'w host_os \<Rightarrow> opennpux_coral_device \<Rightarrow> u32 \<Rightarrow> u64 \<Rightarrow> u32 \<Rightarrow> 'w host \<Rightarrow> (int \<times> u32 \<times> 'w host) option" where
  "opennpux_coral_run OS dev entry polls final s =
     (if dv_transport dev = TRANSPORT_DRIVER then
        let async_features = FEATURE_ASYNC_START OR FEATURE_POLL_COMPLETION in
        if dv_features dev AND async_features = async_features then run_async OS dev entry polls final s
        else run_driver OS dev entry polls final s
      else run_devmem OS dev entry polls s)"

end
