(* ===== verification/Host_Frontends.thy ===== *)
theory Host_Frontends
  imports Host_Runtime
begin

text \<open>
  The front ends of the host runtime (\<open>runtime/host/src/coral_runtime.c\<close>): the DMA test, the vector-add
  command with its self-check, model files and the MobileNet mailbox.
\<close>

section \<open>The DMA test\<close>

record dma_test_result =
  dt_status :: u32
  dt_result :: u32
  dt_magic :: u32
  dt_requests :: u32
  dt_completions :: u32
  dt_errors :: u32
  dt_state :: u32

definition no_dma_test_result :: dma_test_result where
  "no_dma_test_result = \<lparr> dt_status = 0, dt_result = 0, dt_magic = 0, dt_requests = 0, dt_completions = 0, dt_errors = 0,
     dt_state = 0 \<rparr>"

definition opennpux_coral_dma_test ::
  "'w host_os \<Rightarrow> opennpux_coral_device \<Rightarrow> u32 \<Rightarrow> u64 \<Rightarrow> dma_test_result \<Rightarrow> 'w host \<Rightarrow> (int \<times> dma_test_result \<times> 'w host) option" where
  "opennpux_coral_dma_test OS dev entry polls old s =
     do { (r, win, s) \<leftarrow> opennpux_coral_open_shared_window OS dev 16 s;
          if r \<noteq> 0 then Some (- 1, old, s)
          else do {
            let fd = dv_fd dev;
            let shared = sw_offset win;
            s \<leftarrow> mapped_store32 OS fd shared 7 s;
            s \<leftarrow> mapped_store32 OS fd (shared + 4) 35 s;
            s \<leftarrow> mapped_store32 OS fd (shared + 8) 0 s;
            (run_result, st, s) \<leftarrow> opennpux_coral_run OS dev entry polls 0 s;
            (res, s) \<leftarrow> mapped_load32 OS fd shared s;
            (magic, s) \<leftarrow> mapped_load32 OS fd (shared + 8) s;
            (requests, s) \<leftarrow> opennpux_coral_read_reg OS dev (ucast DMA_REQUESTS) s;
            (completions, s) \<leftarrow> opennpux_coral_read_reg OS dev (ucast DMA_COMPLETIONS) s;
            (errors, s) \<leftarrow> opennpux_coral_read_reg OS dev (ucast DMA_ERRORS) s;
            (state, s) \<leftarrow> opennpux_coral_read_reg OS dev (ucast DMA_STATE) s;
            let result = \<lparr> dt_status = st, dt_result = res, dt_magic = magic, dt_requests = requests,
                  dt_completions = completions, dt_errors = errors, dt_state = state \<rparr>;
            let run_errno = errno s;
            let valid = (res = 42 \<and> magic = CORAL_DMA_MAGIC);
            let s = opennpux_coral_close_shared_window OS dev win s;
            if run_result \<noteq> 0 then Some (- 1, result, s\<lparr> errno := run_errno \<rparr>)
            else if \<not> valid then Some (- 1, result, s\<lparr> errno := EIO \<rparr>)
            else Some (0, result, s) } }"

section \<open>Vector addition\<close>

record vector_add_result =
  va_status :: u32
  va_error_code :: u32
  va_completed_elements :: u32
  va_element_count :: u32
  va_checksum :: u32
  va_accelerator_cycles :: u32
  va_opcode :: u32

definition new_vector_add_result :: "u32 \<Rightarrow> u32 \<Rightarrow> vector_add_result" where
  "new_vector_add_result count opcode = \<lparr> va_status = 0, va_error_code = 0, va_completed_elements = 0,
     va_element_count = count, va_checksum = 0, va_accelerator_cycles = 0, va_opcode = opcode \<rparr>"

text \<open>The three stores of one element, and the fields of the command in the order they are written.\<close>

definition stage_element :: "'w host_os \<Rightarrow> int \<Rightarrow> u64 \<Rightarrow> u32 list \<Rightarrow> u32 list \<Rightarrow> nat \<Rightarrow> 'w host \<Rightarrow> 'w host option" where
  "stage_element OS fd org input0 input1 i s =
     do { s \<leftarrow> mapped_store32 OS fd (org + ucast INPUT0_OFFSET + 4 * of_nat i) (input0 ! i) s;
          s \<leftarrow> mapped_store32 OS fd (org + ucast INPUT1_OFFSET + 4 * of_nat i) (input1 ! i) s;
          mapped_store32 OS fd (org + ucast OUTPUT_OFFSET + 4 * of_nat i) 0 s }"

definition command_stores :: "u32 \<Rightarrow> u32 \<Rightarrow> (nat \<times> u32) list" where
  "command_stores opcode count = [(f_magic, COMMAND_MAGIC), (f_abi_version, COMMAND_ABI_VERSION), (f_struct_size, 64),
     (f_opcode, opcode), (16, 1), (f_element_count, count), (f_input0_offset, INPUT0_OFFSET),
     (f_input1_offset, INPUT1_OFFSET), (f_output_offset, OUTPUT_OFFSET), (f_output_size, count * 4),
     (f_status, COMMAND_PENDING)]"

definition store_field :: "'w host_os \<Rightarrow> int \<Rightarrow> u64 \<Rightarrow> nat \<times> u32 \<Rightarrow> 'w host \<Rightarrow> 'w host option" where
  "store_field OS fd command f s = mapped_store32 OS fd (command + of_nat (fst f)) (snd f) s"

text \<open>The check of one element: the output is read for the checksum and again for the comparison.\<close>

definition check_element ::
  "'w host_os \<Rightarrow> int \<Rightarrow> u64 \<Rightarrow> u32 list \<Rightarrow> u32 list \<Rightarrow> nat \<Rightarrow> bool \<times> u32 \<times> 'w host \<Rightarrow> (bool \<times> u32 \<times> 'w host) option" where
  "check_element OS fd org input0 input1 i = (\<lambda>(valid, checksum, s).
     do { let expected = input0 ! i + input1 ! i;
          (v, s) \<leftarrow> mapped_load32 OS fd (org + ucast OUTPUT_OFFSET + 4 * of_nat i) s;
          let checksum = checksum + v;
          (v, s) \<leftarrow> mapped_load32 OS fd (org + ucast OUTPUT_OFFSET + 4 * of_nat i) s;
          Some (valid \<and> v = expected, checksum, s) })"

definition submit_vector_add ::
  "'w host_os \<Rightarrow> opennpux_coral_device \<Rightarrow> u32 \<Rightarrow> u32 \<Rightarrow> u32 list \<Rightarrow> u32 list \<Rightarrow> u32 \<Rightarrow> u32 \<Rightarrow> u64 \<Rightarrow> 'w host \<Rightarrow>
    (int \<times> vector_add_result \<times> 'w host) option" where
  "submit_vector_add OS dev entry opcode input0 input1 count expected_checksum polls s =
     (let result = new_vector_add_result count opcode in
      if count = 0 \<or> TENSOR_MAX_ELEMENTS < count \<or>
         (opcode \<noteq> OPCODE_VECTOR_ADD_U32 \<and> opcode \<noteq> OPCODE_VECTOR_ADD_CUSTOM_U32)
      then Some (- 1, result, s\<lparr> errno := EINVAL \<rparr>)
      else do {
        let required = ucast OUTPUT_OFFSET + ucast count * 4;
        (r, win, s) \<leftarrow> opennpux_coral_open_shared_window OS dev required s;
        if r \<noteq> 0 then Some (- 1, result, s)
        else do {
          let fd = dv_fd dev;
          let org = sw_offset win;
          let command = org + of_nat COMMAND_OFFSET;
          s \<leftarrow> mapped_store OS fd command (replicate 64 0) s;
          s \<leftarrow> loop (stage_element OS fd org input0 input1) [0..<unat count] s;
          s \<leftarrow> loop (store_field OS fd command) (command_stores opcode count) s;
          (run_result, device_status, s) \<leftarrow> opennpux_coral_run OS dev entry polls 0 s;
          let run_errno = errno s;
          (st, s) \<leftarrow> mapped_load32 OS fd (command + of_nat f_status) s;
          (error_code, s) \<leftarrow> mapped_load32 OS fd (command + of_nat f_error_code) s;
          (completed, s) \<leftarrow> mapped_load32 OS fd (command + of_nat f_completed_elements) s;
          (cycles, s) \<leftarrow> mapped_load32 OS fd (command + of_nat f_accelerator_cycles) s;
          let valid = (st = COMMAND_COMPLETE \<and> error_code = COMMAND_ERROR_NONE \<and> completed = count);
          (valid, checksum, s) \<leftarrow> loop (check_element OS fd org input0 input1) [0..<unat count] (valid, 0, s);
          let result = result\<lparr> va_status := st, va_error_code := error_code, va_completed_elements := completed,
                va_accelerator_cycles := cycles, va_checksum := checksum \<rparr>;
          let valid = (valid \<and> checksum = expected_checksum);
          let s = opennpux_coral_close_shared_window OS dev win s;
          if run_result \<noteq> 0 then Some (- 1, result, s\<lparr> errno := run_errno \<rparr>)
          else if \<not> valid \<or> device_status AND 0x1 = 0 then Some (- 1, result, s\<lparr> errno := EIO \<rparr>)
          else Some (0, result, s) } })"

definition test_input0 :: "nat \<Rightarrow> u32 list" where
  "test_input0 n = map (\<lambda>i. of_nat i + 1) [0..<n]"

definition test_input1 :: "nat \<Rightarrow> u32 list" where
  "test_input1 n = map (\<lambda>i. (of_nat i + 1) * 2) [0..<n]"

definition test_checksum :: "nat \<Rightarrow> u32" where
  "test_checksum n = fold (\<lambda>i c. c + (test_input0 n ! i + test_input1 n ! i)) [0..<n] 0"

definition opennpux_coral_vector_add_test ::
  "'w host_os \<Rightarrow> opennpux_coral_device \<Rightarrow> u32 \<Rightarrow> u32 \<Rightarrow> u32 \<Rightarrow> u64 \<Rightarrow> vector_add_result \<Rightarrow> 'w host \<Rightarrow>
    (int \<times> vector_add_result \<times> 'w host) option" where
  "opennpux_coral_vector_add_test OS dev entry opcode count polls old s =
     (if count = 0 \<or> TENSOR_MAX_ELEMENTS < count then Some (- 1, old, s\<lparr> errno := EINVAL \<rparr>)
      else submit_vector_add OS dev entry opcode (test_input0 (unat count)) (test_input1 (unat count)) count
        (test_checksum (unat count)) polls s)"

section \<open>Model files\<close>

record model_result =
  mr_command_count :: u32
  mr_completed_commands :: u32
  mr_output_checksum :: u32
  mr_accelerator_cycles :: u32
  mr_dma_requests :: u32
  mr_dma_completions :: u32
  mr_dma_errors :: u32
  mr_host_elapsed_ns :: u64

definition no_model_result :: model_result where
  "no_model_result = \<lparr> mr_command_count = 0, mr_completed_commands = 0, mr_output_checksum = 0,
     mr_accelerator_cycles = 0, mr_dma_requests = 0, mr_dma_completions = 0, mr_dma_errors = 0, mr_host_elapsed_ns = 0 \<rparr>"

definition MODEL_MAGIC :: u32 where [abi_defs]: "MODEL_MAGIC = 0x4e50584d"
definition MODEL_VERSION :: u32 where [abi_defs]: "MODEL_VERSION = 1"
definition MODEL_MAX_COMMANDS :: u32 where [abi_defs]: "MODEL_MAX_COMMANDS = 64"

record model_header =
  mh_magic :: u32
  mh_version :: u32
  mh_header_size :: u32
  mh_file_size :: u32
  mh_command_count :: u32
  mh_command_offset :: u32

record model_command =
  mc_opcode :: u32
  mc_element_count :: u32
  mc_input0_offset :: u32
  mc_input1_offset :: u32
  mc_expected_checksum :: u32

definition model_range_valid :: "u32 \<Rightarrow> u32 \<Rightarrow> u32 \<Rightarrow> bool" where
  "model_range_valid file_size offset bytes \<longleftrightarrow> offset \<le> file_size \<and> bytes \<le> file_size - offset"

text \<open>Reading the file: \<open>read\<close> until every byte is there; an end of file counts as an I/O error.\<close>

function read_file :: "'w host_os \<Rightarrow> int \<Rightarrow> nat \<Rightarrow> bytes \<Rightarrow> 'w host \<Rightarrow> (int + bytes) \<times> 'w host" where
  "read_file OS fd n received s =
     (if length received < n then
        (case os_read OS fd (n - length received) (world s) of
           (Inl e, w) \<Rightarrow> (Inl e, s\<lparr> world := w \<rparr>)
         | (Inr bs, w) \<Rightarrow> if bs = [] then (Inl EIO, s\<lparr> world := w \<rparr>)
             else read_file OS fd n (received @ bs) (s\<lparr> world := w \<rparr>))
      else (Inr received, s))"
  by pat_completeness auto

termination read_file
  by (relation "measure (\<lambda>(OS, fd, n, bs, s). n - length bs)") (auto simp: neq_Nil_conv)

declare read_file.simps [simp del]

definition load_header :: "bytes \<Rightarrow> model_header option" where
  "load_header file =
     do { magic \<leftarrow> load32 file 0; version \<leftarrow> load32 file 4; header_size \<leftarrow> load32 file 8;
          file_size \<leftarrow> load32 file 12; command_count \<leftarrow> load32 file 16; command_offset \<leftarrow> load32 file 20;
          Some \<lparr> mh_magic = magic, mh_version = version, mh_header_size = header_size, mh_file_size = file_size,
            mh_command_count = command_count, mh_command_offset = command_offset \<rparr> }"

definition load_command :: "bytes \<Rightarrow> nat \<Rightarrow> model_command option" where
  "load_command file a =
     do { opcode \<leftarrow> load32 file a; count \<leftarrow> load32 file (a + 4); input0 \<leftarrow> load32 file (a + 8);
          input1 \<leftarrow> load32 file (a + 12); checksum \<leftarrow> load32 file (a + 16);
          Some \<lparr> mc_opcode = opcode, mc_element_count = count, mc_input0_offset = input0, mc_input1_offset = input1,
            mc_expected_checksum = checksum \<rparr> }"

definition header_invalid :: "u32 \<Rightarrow> model_header \<Rightarrow> bool" where
  "header_invalid file_size h \<longleftrightarrow> mh_magic h \<noteq> MODEL_MAGIC \<or> mh_version h \<noteq> MODEL_VERSION \<or> mh_header_size h \<noteq> 32 \<or>
     mh_file_size h \<noteq> file_size \<or> mh_command_count h = 0 \<or> MODEL_MAX_COMMANDS < mh_command_count h \<or>
     mh_command_offset h AND 3 \<noteq> 0 \<or> \<not> model_range_valid file_size (mh_command_offset h) (mh_command_count h * 32)"

definition command_invalid :: "u32 \<Rightarrow> model_command \<Rightarrow> bool" where
  "command_invalid file_size c \<longleftrightarrow> mc_element_count c = 0 \<or> TENSOR_MAX_ELEMENTS < mc_element_count c \<or>
     mc_input0_offset c AND 3 \<noteq> 0 \<or> mc_input1_offset c AND 3 \<noteq> 0 \<or>
     \<not> model_range_valid file_size (mc_input0_offset c) (mc_element_count c * 4) \<or>
     \<not> model_range_valid file_size (mc_input1_offset c) (mc_element_count c * 4)"

text \<open>One command of the file; the first component says whether the loop goes on.\<close>

definition run_model_command ::
  "'w host_os \<Rightarrow> opennpux_coral_device \<Rightarrow> u32 \<Rightarrow> u64 \<Rightarrow> bytes \<Rightarrow> nat \<Rightarrow> nat \<Rightarrow> model_result \<times> 'w host \<Rightarrow>
    (bool \<times> model_result \<times> 'w host) option" where
  "run_model_command OS dev entry polls file commands i = (\<lambda>(result, s).
     do { c \<leftarrow> load_command file (commands + 32 * i);
          if command_invalid (of_nat (length file)) c then Some (False, result, s\<lparr> errno := EINVAL \<rparr>)
          else do {
            input0 \<leftarrow> load_words file (unat (mc_input0_offset c)) (unat (mc_element_count c));
            input1 \<leftarrow> load_words file (unat (mc_input1_offset c)) (unat (mc_element_count c));
            (r, cr, s) \<leftarrow> submit_vector_add OS dev entry (mc_opcode c) input0 input1 (mc_element_count c)
              (mc_expected_checksum c) polls s;
            if r \<noteq> 0 then Some (False, result, s)
            else Some (True, result\<lparr> mr_completed_commands := mr_completed_commands result + 1,
                   mr_output_checksum := mr_output_checksum result + va_checksum cr,
                   mr_accelerator_cycles := mr_accelerator_cycles result + va_accelerator_cycles cr \<rparr>, s) } })"

definition elapsed_ns :: "(u64 \<times> u64) option \<Rightarrow> (u64 \<times> u64) option \<Rightarrow> u64" where
  "elapsed_ns t0 t1 =
     (case (t0, t1) of
        (Some (s0, n0), Some (s1, n1)) \<Rightarrow>
          let start_ns = s0 * 1000000000 + n0; end_ns = s1 * 1000000000 + n1 in
          if start_ns \<le> end_ns then end_ns - start_ns else 0
      | _ \<Rightarrow> 0)"

text \<open>The file in memory, after it has been read.\<close>

definition run_model ::
  "'w host_os \<Rightarrow> opennpux_coral_device \<Rightarrow> u32 \<Rightarrow> u64 \<Rightarrow> bytes \<Rightarrow> 'w host \<Rightarrow> (int \<times> model_result \<times> 'w host) option" where
  "run_model OS dev entry polls file s =
     (let file_size = of_nat (length file) in
      if file_size < (32 :: u32) then Some (- 1, no_model_result, s\<lparr> errno := EINVAL \<rparr>)
      else do {
        h \<leftarrow> load_header file;
        if header_invalid file_size h then Some (- 1, no_model_result, s\<lparr> errno := EINVAL \<rparr>)
        else do {
          let result = no_model_result\<lparr> mr_command_count := mh_command_count h \<rparr>;
          (before, s) \<leftarrow> opennpux_coral_get_info OS dev s;
          let (t0, w) = os_clock OS (world s);
          (ok, result, s) \<leftarrow> loop_ok (run_model_command OS dev entry polls file (unat (mh_command_offset h)))
            [0..<unat (mh_command_count h)] (result, s\<lparr> world := w \<rparr>);
          if \<not> ok then Some (- 1, result, s)
          else do {
            (after, s) \<leftarrow> opennpux_coral_get_info OS dev s;
            let result = result\<lparr> mr_dma_requests := in_dma_requests after - in_dma_requests before,
                  mr_dma_completions := in_dma_completions after - in_dma_completions before,
                  mr_dma_errors := in_dma_errors after - in_dma_errors before \<rparr>;
            if mr_dma_requests result = 0 \<or> mr_dma_requests result \<noteq> mr_dma_completions result \<or> mr_dma_errors result \<noteq> 0
            then Some (- 1, result, s\<lparr> errno := EIO \<rparr>)
            else let (t1, w) = (if t0 = None then (None, world s) else os_clock OS (world s)) in
              Some (0, result\<lparr> mr_host_elapsed_ns := elapsed_ns t0 t1 \<rparr>, s\<lparr> world := w \<rparr>) } } })"

definition opennpux_coral_run_model_file ::
  "'w host_os \<Rightarrow> opennpux_coral_device \<Rightarrow> u32 \<Rightarrow> string \<Rightarrow> u64 \<Rightarrow> 'w host \<Rightarrow> (int \<times> model_result \<times> 'w host) option" where
  "opennpux_coral_run_model_file OS dev entry path polls s =
     (let (fd, s) = sys_open OS path s in
      if fd < 0 then Some (- 1, no_model_result, s)
      else let (st_size, w) = os_fstat OS fd (world s); s = s\<lparr> world := w \<rparr> in
        if st_size < 0 \<or> 0xffffffff < st_size then Some (- 1, no_model_result, (sys_close OS fd s)\<lparr> errno := EINVAL \<rparr>)
        else if \<not> os_malloc OS (if st_size = 0 then 1 else nat st_size) (world s)
        then Some (- 1, no_model_result, sys_close OS fd s)
        else case read_file OS fd (nat st_size) [] s of
            (Inl e, s) \<Rightarrow> Some (- 1, no_model_result, (sys_close OS fd s)\<lparr> errno := e \<rparr>)
          | (Inr file, s) \<Rightarrow> run_model OS dev entry polls file (sys_close OS fd s))"

section \<open>MobileNet\<close>

definition MOBILENET_MAGIC :: u32 where [abi_defs]: "MOBILENET_MAGIC = 0x4e504d42"
definition MOBILENET_VERSION :: u32 where [abi_defs]: "MOBILENET_VERSION = 1"
definition MOBILENET_MAILBOX_OFFSET :: u32 where [abi_defs]: "MOBILENET_MAILBOX_OFFSET = 0x00400000"
definition MOBILENET_OUTPUT_COUNT :: u32 where [abi_defs]: "MOBILENET_OUTPUT_COUNT = 5"
definition MOBILENET_COMPLETE :: u32 where [abi_defs]: "MOBILENET_COMPLETE = 3"
definition MOBILENET_ERROR_NONE :: u32 where [abi_defs]: "MOBILENET_ERROR_NONE = 0"

text \<open>The size of the mailbox; its fields are read at their byte offsets.\<close>

definition MAILBOX_SIZE :: nat where [abi_defs]: "MAILBOX_SIZE = 80"

record mobilenet_result =
  mb_device_status :: u32
  mb_state :: u32
  mb_error_code :: u32
  mb_output_count :: u32
  mb_output :: "int list"
  mb_output_checksum :: u32
  mb_output_bytes :: u32
  mb_operation_count :: u64
  mb_bytes_read :: u64
  mb_bytes_written :: u64
  mb_npu_cycles :: u64
  mb_dma_requests :: u32
  mb_dma_completions :: u32
  mb_dma_errors :: u32

definition no_mobilenet_result :: mobilenet_result where
  "no_mobilenet_result = \<lparr> mb_device_status = 0, mb_state = 0, mb_error_code = 0, mb_output_count = 0,
     mb_output = replicate 5 0, mb_output_checksum = 0, mb_output_bytes = 0, mb_operation_count = 0, mb_bytes_read = 0,
     mb_bytes_written = 0, mb_npu_cycles = 0, mb_dma_requests = 0, mb_dma_completions = 0, mb_dma_errors = 0 \<rparr>"

definition mapped_load64 :: "'w host_os \<Rightarrow> int \<Rightarrow> u64 \<Rightarrow> 'w host \<Rightarrow> (u64 \<times> 'w host) option" where
  "mapped_load64 OS fd offset s =
     do { (bs, w) \<leftarrow> os_load OS fd offset 8 (world s); Some (le_word bs, s\<lparr> world := w \<rparr>) }"

definition load_output :: "'w host_os \<Rightarrow> int \<Rightarrow> u64 \<Rightarrow> nat \<Rightarrow> int list \<times> 'w host \<Rightarrow> (int list \<times> 'w host) option" where
  "load_output OS fd mailbox i = (\<lambda>(out, s).
     do { (v, s) \<leftarrow> mapped_load32 OS fd (mailbox + 28 + 4 * of_nat i) s; Some (out @ [sint v], s) })"

text \<open>What the host reads back from the mailbox, in the order of the source.\<close>

definition read_mailbox ::
  "'w host_os \<Rightarrow> int \<Rightarrow> u64 \<Rightarrow> mobilenet_result \<Rightarrow> 'w host \<Rightarrow> (bool \<times> mobilenet_result \<times> 'w host) option" where
  "read_mailbox OS fd mailbox result s =
     do { (state, s) \<leftarrow> mapped_load32 OS fd (mailbox + 8) s;
          (error_code, s) \<leftarrow> mapped_load32 OS fd (mailbox + 12) s;
          (output_count, s) \<leftarrow> mapped_load32 OS fd (mailbox + 24) s;
          (out, s) \<leftarrow> loop (load_output OS fd mailbox) [0..<5] ([], s);
          (output_checksum, s) \<leftarrow> mapped_load32 OS fd (mailbox + 48) s;
          (output_bytes, s) \<leftarrow> mapped_load32 OS fd (mailbox + 52) s;
          (operation_count, s) \<leftarrow> mapped_load64 OS fd (mailbox + 56) s;
          (bytes_read, s) \<leftarrow> mapped_load64 OS fd (mailbox + 64) s;
          (bytes_written, s) \<leftarrow> mapped_load64 OS fd (mailbox + 72) s;
          (cycle_high, s) \<leftarrow> mapped_load32 OS fd (mailbox + 20) s;
          (cycle_low, s) \<leftarrow> mapped_load32 OS fd (mailbox + 16) s;
          (magic, s) \<leftarrow> mapped_load32 OS fd mailbox s;
          (version, s) \<leftarrow> mapped_load32 OS fd (mailbox + 4) s;
          let result = result\<lparr> mb_state := state, mb_error_code := error_code, mb_output_count := output_count,
                mb_output := out, mb_output_checksum := output_checksum, mb_output_bytes := output_bytes,
                mb_operation_count := operation_count, mb_bytes_read := bytes_read, mb_bytes_written := bytes_written,
                mb_npu_cycles := push_bit 32 (ucast cycle_high) OR ucast cycle_low \<rparr>;
          Some (magic = MOBILENET_MAGIC \<and> version = MOBILENET_VERSION \<and> state = MOBILENET_COMPLETE \<and>
            error_code = MOBILENET_ERROR_NONE \<and> output_count = MOBILENET_OUTPUT_COUNT \<and> output_bytes \<noteq> 0, result, s) }"

definition opennpux_coral_mobilenet_test ::
  "'w host_os \<Rightarrow> opennpux_coral_device \<Rightarrow> u32 \<Rightarrow> u64 \<Rightarrow> 'w host \<Rightarrow> (int \<times> mobilenet_result \<times> 'w host) option" where
  "opennpux_coral_mobilenet_test OS dev entry polls s =
     do { let required = ucast MOBILENET_MAILBOX_OFFSET + of_nat MAILBOX_SIZE;
          (r, win, s) \<leftarrow> opennpux_coral_open_shared_window OS dev required s;
          if r \<noteq> 0 then Some (- 1, no_mobilenet_result, s)
          else do {
            let mailbox = sw_offset win + ucast MOBILENET_MAILBOX_OFFSET;
            s \<leftarrow> mapped_store OS (dv_fd dev) mailbox (replicate MAILBOX_SIZE 0) s;
            (before, s) \<leftarrow> opennpux_coral_get_info OS dev s;
            (run_result, device_status, s) \<leftarrow> opennpux_coral_run OS dev entry polls 0 s;
            let run_errno = errno s;
            (mailbox_valid, result, s) \<leftarrow> read_mailbox OS (dv_fd dev) mailbox
              (no_mobilenet_result\<lparr> mb_device_status := device_status \<rparr>) s;
            (after, s) \<leftarrow> opennpux_coral_get_info OS dev s;
            let result = result\<lparr> mb_dma_requests := in_dma_requests after - in_dma_requests before,
                  mb_dma_completions := in_dma_completions after - in_dma_completions before,
                  mb_dma_errors := in_dma_errors after - in_dma_errors before \<rparr>;
            let s = opennpux_coral_close_shared_window OS dev win s;
            if run_result \<noteq> 0 then Some (- 1, result, s\<lparr> errno := run_errno \<rparr>)
            else if \<not> mailbox_valid \<or> mb_dma_requests result = 0 \<or>
                    mb_dma_requests result \<noteq> mb_dma_completions result \<or> mb_dma_errors result \<noteq> 0
            then Some (- 1, result, s\<lparr> errno := EIO \<rparr>)
            else Some (0, result, s) } }"

section \<open>Checks\<close>

lemma u64_align4: "(offset :: u64) AND 3 = 0 \<longleftrightarrow> 4 dvd unat offset"
  using and_low_mask_unat [of offset 2] by (simp add: mask_eq_exp_minus_1 dvd_eq_mod_eq_0 word_unat_eq_iff)

lemma u32_align4: "(offset :: u32) AND 3 = 0 \<longleftrightarrow> 4 dvd unat offset"
  using and_low_mask_unat [of offset 2] by (simp add: mask_eq_exp_minus_1 dvd_eq_mod_eq_0 word_unat_eq_iff)

lemma model_range_valid_nat: "model_range_valid n offset k \<longleftrightarrow> unat offset + unat k \<le> unat n"
proof (cases "offset \<le> n")
  case True
  then have "unat (n - offset) = unat n - unat offset" "unat offset \<le> unat n" by (simp_all add: unat_sub word_le_nat_alt)
  then show ?thesis using True by (auto simp: model_range_valid_def word_le_nat_alt)
qed (auto simp: model_range_valid_def word_le_nat_alt)

end
