(* ===== verification/Coralctl.thy ===== *)
theory Coralctl
  imports Host_Frontends
begin

text \<open>
  The command-line tools of the host: \<open>runtime/host/tools/coralctl.c\<close> and
  \<open>runtime/host/tools/mmio32.c\<close>. The result of a program is its exit code and the lines it prints, each a
  key and a value; messages on standard error are left out. A local result struct that the C code does not
  initialise is an argument \<open>stack\<close> of the functions that read it.
\<close>

section \<open>Output\<close>

datatype shown = Str string | Hex32 u32 | Hex64 u64 | Dec u64 | Ints "int list" | Hex_at u64 u32

type_synonym lines = "(string \<times> shown) list"

abbreviation (input) dec32 :: "u32 \<Rightarrow> shown" where "dec32 v \<equiv> Dec (ucast v)"

definition print_info :: "opennpux_coral_device \<Rightarrow> opennpux_coral_info \<Rightarrow> lines" where
  "print_info dev i =
     [(''base'', Hex64 (in_base i)), (''transport'', Str (opennpux_coral_transport_name (dv_transport dev))),
      (''backend_id'', Hex32 (in_backend_id i)), (''backend'', Str (opennpux_coral_backend_name (in_backend i))),
      (''firmware_entry'', Hex32 (in_firmware_entry i)), (''shared_base'', Hex32 (in_shared_base i)),
      (''shared_size'', Hex32 (in_shared_size i)), (''dma_requests'', dec32 (in_dma_requests i)),
      (''dma_completions'', dec32 (in_dma_completions i)), (''dma_errors'', dec32 (in_dma_errors i)),
      (''dma_state'', Hex32 (in_dma_state i)), (''reset_control'', Hex32 (in_reset_control i)),
      (''status'', Hex32 (in_status i)), (''driver_abi'', dec32 (in_abi_version i)),
      (''driver_features'', Hex32 (in_features i))]"

text \<open>The first lines of the commands that start a job.\<close>

definition job_lines :: "opennpux_coral_device \<Rightarrow> opennpux_coral_info \<Rightarrow> u32 \<Rightarrow> lines" where
  "job_lines dev i entry =
     [(''transport'', Str (opennpux_coral_transport_name (dv_transport dev))),
      (''backend'', Str (opennpux_coral_backend_name (in_backend i))), (''entry'', Hex32 entry)]"

section \<open>The commands\<close>

definition print_mem_info ::
  "'w host_os \<Rightarrow> opennpux_coral_device \<Rightarrow> 'w host \<Rightarrow> (int \<times> lines \<times> 'w host) option" where
  "print_mem_info OS dev s =
     do { (r, win, s) \<leftarrow> opennpux_coral_open_shared_window OS dev 0 s;
          if r \<noteq> 0 then Some (1, [], s)
          else Some (0, [(''shared_base'', Hex32 (sw_base win)), (''shared_size'', Hex32 (sw_size win)),
                         (''shared_words'', dec32 (sw_size win div 4))],
                 opennpux_coral_close_shared_window OS dev win s) }"

definition print_read_shared_u32 ::
  "'w host_os \<Rightarrow> opennpux_coral_device \<Rightarrow> u64 \<Rightarrow> 'w host \<Rightarrow> (int \<times> lines \<times> 'w host) option" where
  "print_read_shared_u32 OS dev offset s =
     do { (r, v, s) \<leftarrow> opennpux_coral_read_shared_u32 OS dev offset s;
          if r \<noteq> 0 then Some (1, [], s) else Some (0, [(''shared'', Hex_at offset v)], s) }"

definition print_write_shared_u32 ::
  "'w host_os \<Rightarrow> opennpux_coral_device \<Rightarrow> u64 \<Rightarrow> u32 \<Rightarrow> 'w host \<Rightarrow> (int \<times> lines \<times> 'w host) option" where
  "print_write_shared_u32 OS dev offset v s =
     do { (r, s) \<leftarrow> opennpux_coral_write_shared_u32 OS dev offset v s;
          if r \<noteq> 0 then Some (1, [], s) else Some (0, [(''shared'', Hex_at offset v)], s) }"

definition print_run ::
  "'w host_os \<Rightarrow> opennpux_coral_device \<Rightarrow> u32 \<Rightarrow> u64 \<Rightarrow> 'w host \<Rightarrow> (int \<times> lines \<times> 'w host) option" where
  "print_run OS dev entry polls s =
     do { (info, s) \<leftarrow> opennpux_coral_get_info OS dev s;
          (r, st, s) \<leftarrow> opennpux_coral_run OS dev entry polls 0 s;
          Some (if r \<noteq> 0 then 1 else 0, job_lines dev info entry @ [(''status'', Hex32 st)], s) }"

definition print_dma_test ::
  "'w host_os \<Rightarrow> dma_test_result \<Rightarrow> opennpux_coral_device \<Rightarrow> u32 \<Rightarrow> u64 \<Rightarrow> 'w host \<Rightarrow> (int \<times> lines \<times> 'w host) option" where
  "print_dma_test OS stack dev entry polls s =
     do { (info, s) \<leftarrow> opennpux_coral_get_info OS dev s;
          (r, result, s) \<leftarrow> opennpux_coral_dma_test OS dev entry polls stack s;
          let out = job_lines dev info entry @
            [(''status'', Hex32 (dt_status result)), (''dma_result'', dec32 (dt_result result)),
             (''dma_magic'', Hex32 (dt_magic result)), (''dma_requests'', dec32 (dt_requests result)),
             (''dma_completions'', dec32 (dt_completions result)), (''dma_errors'', dec32 (dt_errors result)),
             (''dma_state'', Hex32 (dt_state result))];
          if r \<noteq> 0 then Some (1, out, s) else Some (0, out @ [(''dma_test'', Str ''PASS'')], s) }"

definition print_vector_add ::
  "'w host_os \<Rightarrow> vector_add_result \<Rightarrow> opennpux_coral_device \<Rightarrow> u32 \<Rightarrow> u32 \<Rightarrow> u32 \<Rightarrow> u64 \<Rightarrow> 'w host \<Rightarrow>
    (int \<times> lines \<times> 'w host) option" where
  "print_vector_add OS stack dev entry opcode element_count polls s =
     do { (info, s) \<leftarrow> opennpux_coral_get_info OS dev s;
          (r, result, s) \<leftarrow> opennpux_coral_vector_add_test OS dev entry opcode element_count polls stack s;
          let out = job_lines dev info entry @
            [(''opcode'', dec32 (va_opcode result)), (''command_status'', dec32 (va_status result)),
             (''command_error'', dec32 (va_error_code result)), (''completed_elements'', dec32 (va_completed_elements result)),
             (''element_count'', dec32 (va_element_count result)), (''output_checksum'', Hex32 (va_checksum result)),
             (''accelerator_cycles'', dec32 (va_accelerator_cycles result))];
          if r \<noteq> 0 then Some (1, out, s) else Some (0, out @ [(''vector_add'', Str ''PASS'')], s) }"

definition print_model_run ::
  "'w host_os \<Rightarrow> opennpux_coral_device \<Rightarrow> u32 \<Rightarrow> string \<Rightarrow> u64 \<Rightarrow> 'w host \<Rightarrow> (int \<times> lines \<times> 'w host) option" where
  "print_model_run OS dev entry path polls s =
     do { (r, result, s) \<leftarrow> opennpux_coral_run_model_file OS dev entry path polls s;
          let out =
            [(''model_commands'', dec32 (mr_command_count result)), (''completed_commands'', dec32 (mr_completed_commands result)),
             (''model_checksum'', Hex32 (mr_output_checksum result)), (''accelerator_cycles'', dec32 (mr_accelerator_cycles result)),
             (''model_dma_requests'', dec32 (mr_dma_requests result)),
             (''model_dma_completions'', dec32 (mr_dma_completions result)),
             (''model_dma_errors'', dec32 (mr_dma_errors result)), (''host_elapsed_ns'', Dec (mr_host_elapsed_ns result))];
          if r \<noteq> 0 then Some (1, out, s) else Some (0, out @ [(''model_run'', Str ''PASS'')], s) }"

text \<open>The printed outputs stop at the count the firmware reports or at the five the mailbox holds.\<close>

definition print_mobilenet_test ::
  "'w host_os \<Rightarrow> opennpux_coral_device \<Rightarrow> u32 \<Rightarrow> u64 \<Rightarrow> 'w host \<Rightarrow> (int \<times> lines \<times> 'w host) option" where
  "print_mobilenet_test OS dev entry polls s =
     do { (r, result, s) \<leftarrow> opennpux_coral_mobilenet_test OS dev entry polls s;
          let out =
            [(''mobilenet_prepare'', Str ''mailbox-only''), (''mobilenet_run'', Str ''started''),
             (''status'', Hex32 (mb_device_status result)), (''mobilenet_state'', Hex32 (mb_state result)),
             (''mobilenet_error'', dec32 (mb_error_code result)), (''mobilenet_npu_cycles'', Dec (mb_npu_cycles result)),
             (''mobilenet_output_checksum'', Hex32 (mb_output_checksum result)),
             (''mobilenet_output_bytes'', dec32 (mb_output_bytes result)),
             (''mobilenet_operation_count'', Dec (mb_operation_count result)),
             (''mobilenet_bytes_read'', Dec (mb_bytes_read result)),
             (''mobilenet_bytes_written'', Dec (mb_bytes_written result)),
             (''mobilenet_dma_requests'', dec32 (mb_dma_requests result)),
             (''mobilenet_dma_completions'', dec32 (mb_dma_completions result)),
             (''mobilenet_dma_errors'', dec32 (mb_dma_errors result)),
             (''mobilenet_output'', Ints (take (min (unat (mb_output_count result)) (unat MOBILENET_OUTPUT_COUNT)) (mb_output result)))];
          if r \<noteq> 0 then Some (1, out, s) else Some (0, out @ [(''mobilenet_test'', Str ''PASS'')], s) }"

section \<open>Arguments\<close>

definition ctl_commands :: "string list" where
  "ctl_commands = [''info'', ''run'', ''dma-test'', ''vector-add'', ''vector-add-custom'', ''model-run'', ''mobilenet-test'',
     ''mem-info'', ''mem-clear'', ''mem-read32'', ''mem-write32'']"

abbreviation (input) vector_command :: "string \<Rightarrow> bool" where
  "vector_command c \<equiv> c = ''vector-add'' \<or> c = ''vector-add-custom''"

definition arity_wrong :: "string \<Rightarrow> nat \<Rightarrow> bool" where
  "arity_wrong c argc \<longleftrightarrow>
     (c = ''info'' \<and> 3 < argc) \<or> (c = ''run'' \<and> 5 < argc) \<or> (c = ''dma-test'' \<and> 4 < argc) \<or>
     (vector_command c \<and> (argc < 3 \<or> 5 < argc)) \<or> (c = ''model-run'' \<and> (argc < 3 \<or> 5 < argc)) \<or>
     (c = ''mobilenet-test'' \<and> 4 < argc) \<or> (c = ''mem-info'' \<and> 3 < argc) \<or> (c = ''mem-clear'' \<and> 3 < argc) \<or>
     (c = ''mem-read32'' \<and> (argc < 3 \<or> 4 < argc)) \<or> (c = ''mem-write32'' \<and> (argc < 4 \<or> 5 < argc))"

record ctl_args =
  ca_base :: u64
  ca_shared_offset :: u64
  ca_shared_value :: u64
  ca_vector_elements :: u64

definition DEFAULT_BASE :: u64 where [abi_defs]: "DEFAULT_BASE = 0x1d000000"

definition base_argument :: "string list \<Rightarrow> nat \<Rightarrow> u64 option" where
  "base_argument argv i = (if i < length argv then opennpux_coral_parse_u64 (argv ! i) else Some DEFAULT_BASE)"

definition parse_arguments :: "string \<Rightarrow> string list \<Rightarrow> ctl_args option" where
  "parse_arguments c argv =
     (if c = ''mem-read32'' \<or> c = ''mem-write32'' then
        do { offset \<leftarrow> opennpux_coral_parse_u64 (argv ! 2);
             v \<leftarrow> (if c = ''mem-write32''
                   then do { v \<leftarrow> opennpux_coral_parse_u64 (argv ! 3); if 0xffffffff < v then None else Some v }
                   else Some 0);
             org \<leftarrow> base_argument argv (if c = ''mem-read32'' then 3 else 4);
             Some \<lparr> ca_base = org, ca_shared_offset = offset, ca_shared_value = v, ca_vector_elements = 0 \<rparr> }
      else if c = ''model-run'' then
        do { org \<leftarrow> base_argument argv 3;
             Some \<lparr> ca_base = org, ca_shared_offset = 0, ca_shared_value = 0, ca_vector_elements = 0 \<rparr> }
      else if vector_command c then
        do { n \<leftarrow> opennpux_coral_parse_u64 (argv ! 2);
             if n = 0 \<or> ucast TENSOR_MAX_ELEMENTS < n then None
             else do { org \<leftarrow> base_argument argv 3;
                       Some \<lparr> ca_base = org, ca_shared_offset = 0, ca_shared_value = 0, ca_vector_elements = n \<rparr> } }
      else
        do { org \<leftarrow> base_argument argv 2;
             Some \<lparr> ca_base = org, ca_shared_offset = 0, ca_shared_value = 0, ca_vector_elements = 0 \<rparr> })"

definition entry_argument :: "string \<Rightarrow> string list \<Rightarrow> u64 \<Rightarrow> u64 option" where
  "entry_argument c argv entry = (if c = ''run'' \<and> 4 \<le> length argv then opennpux_coral_parse_u64 (argv ! 3) else Some entry)"

definition poll_argument :: "string \<Rightarrow> string list \<Rightarrow> u64 option" where
  "poll_argument c argv =
     (let i = (if c = ''mobilenet-test'' then 3 else if c = ''model-run'' \<or> vector_command c then 4
               else if c = ''dma-test'' then 3 else 4) in
      if i < length argv
      then do { polls \<leftarrow> opennpux_coral_parse_u64 (argv ! i); if polls = 0 then None else Some polls }
      else Some (if c = ''run'' then 1000 else 100000))"

section \<open>The program\<close>

text \<open>The job a command starts, once the device is open and its arguments are read.\<close>

definition run_job ::
  "'w host_os \<Rightarrow> dma_test_result \<times> vector_add_result \<Rightarrow> opennpux_coral_device \<Rightarrow> string \<Rightarrow> string list \<Rightarrow> ctl_args \<Rightarrow>
    u32 \<Rightarrow> u64 \<Rightarrow> 'w host \<Rightarrow> (int \<times> lines \<times> 'w host) option" where
  "run_job OS stack dev c argv args entry polls s =
     (if c = ''run'' then print_run OS dev entry polls s
      else if c = ''model-run'' then print_model_run OS dev entry (argv ! 2) polls s
      else if c = ''mobilenet-test'' then print_mobilenet_test OS dev entry polls s
      else if vector_command c then
        print_vector_add OS (snd stack) dev entry
          (if c = ''vector-add-custom'' then OPCODE_VECTOR_ADD_CUSTOM_U32 else OPCODE_VECTOR_ADD_U32)
          (ucast (ca_vector_elements args)) polls s
      else print_dma_test OS (fst stack) dev entry polls s)"

definition coralctl_open ::
  "'w host_os \<Rightarrow> dma_test_result \<times> vector_add_result \<Rightarrow> opennpux_coral_device \<Rightarrow> string \<Rightarrow> string list \<Rightarrow> ctl_args \<Rightarrow>
    'w host \<Rightarrow> (int \<times> lines \<times> 'w host) option" where
  "coralctl_open OS stack dev c argv args s =
     (if c = ''info'' then
        do { (info, s) \<leftarrow> opennpux_coral_get_info OS dev s; Some (0, print_info dev info, s) }
      else if c = ''mem-info'' then print_mem_info OS dev s
      else if c = ''mem-clear'' then
        do { (r, s) \<leftarrow> opennpux_coral_clear_shared_window OS dev s;
             Some (if r = 0 then (0, [(''shared_clear'', Str ''PASS'')], s) else (1, [], s)) }
      else if c = ''mem-read32'' then print_read_shared_u32 OS dev (ca_shared_offset args) s
      else if c = ''mem-write32'' then print_write_shared_u32 OS dev (ca_shared_offset args) (ucast (ca_shared_value args)) s
      else do {
        (info, s) \<leftarrow> opennpux_coral_get_info OS dev s;
        case entry_argument c argv (ucast (in_firmware_entry info)) of
          None \<Rightarrow> Some (2, [], s)
        | Some entry \<Rightarrow>
            (case poll_argument c argv of
               None \<Rightarrow> Some (2, [], s)
             | Some polls \<Rightarrow> run_job OS stack dev c argv args (ucast entry) polls s) })"

text \<open>Every path after the open ends with the close.\<close>

definition coralctl_main ::
  "'w host_os \<Rightarrow> dma_test_result \<times> vector_add_result \<Rightarrow> string list \<Rightarrow> 'w host \<Rightarrow> (int \<times> lines \<times> 'w host) option" where
  "coralctl_main OS stack argv s =
     (if length argv < 2 \<or> 6 < length argv then Some (2, [], s)
      else let c = argv ! 1 in
        if c \<notin> set ctl_commands \<or> arity_wrong c (length argv) then Some (2, [], s)
        else case parse_arguments c argv of
            None \<Rightarrow> Some (2, [], s)
          | Some args \<Rightarrow>
              do { (r, dev, s) \<leftarrow> opennpux_coral_open OS (ca_base args) s;
                   if r \<noteq> 0 then Some (1, [], s)
                   else do { (code, out, s) \<leftarrow> coralctl_open OS stack dev c argv args s;
                             Some (code, out, snd (opennpux_coral_close OS dev s)) } })"

section \<open>mmio32\<close>

text \<open>
  An access through the mapping of one page; outside of it there is no result. \<open>unmaps\<close> says whether
  \<open>munmap\<close> succeeds.
\<close>

definition page_access :: "u64 \<Rightarrow> u64 \<Rightarrow> bool" where
  "page_access page_size page_offset \<longleftrightarrow> unat page_offset + 4 \<le> unat page_size"

definition mmio32_main ::
  "'w host_os \<Rightarrow> bool \<Rightarrow> string list \<Rightarrow> 'w host \<Rightarrow> (int \<times> lines \<times> 'w host) option" where
  "mmio32_main OS unmaps argv s =
     (if length argv \<noteq> 3 \<and> length argv \<noteq> 4 then Some (2, [], s)
      else let do_read = (argv ! 1 = ''read''); do_write = (argv ! 1 = ''write'') in
        if \<not> do_read \<and> \<not> do_write then Some (2, [], s)
        else if (do_read \<and> length argv \<noteq> 3) \<or> (do_write \<and> length argv \<noteq> 4) then Some (2, [], s)
        else case opennpux_coral_parse_u64 (argv ! 2) of
            None \<Rightarrow> Some (2, [], s)
          | Some addr \<Rightarrow>
            (case (if do_write then opennpux_coral_parse_u64 (argv ! 3) else Some 0) of
               None \<Rightarrow> Some (2, [], s)
             | Some write_value \<Rightarrow>
                 if os_page_size OS \<le> 0 then Some (1, [], s)
                 else let page_size = word_of_int (os_page_size OS) :: u64; page_mask = page_size - 1;
                          page_base = addr AND NOT page_mask; page_offset = addr AND page_mask;
                          (fd, s) = sys_open OS ''/dev/mem'' s in
                   if fd < 0 then Some (1, [], s)
                   else let (r, s) = sys_mmap OS fd page_size page_base s in
                     if r < 0 then Some (1, [], sys_close OS fd s)
                     else if \<not> page_access page_size page_offset then None
                     else do {
                       (out, s) \<leftarrow> (if do_read
                          then do { (v, s) \<leftarrow> mapped_load32 OS fd (page_base + page_offset) s; Some ([([], Hex32 v)], s) }
                          else do { s \<leftarrow> mapped_store32 OS fd (page_base + page_offset) (ucast write_value) s; Some ([], s) });
                       if unmaps then Some (0, out, sys_close OS fd (sys_munmap OS fd page_size page_base s))
                       else Some (1, out, sys_close OS fd s) }))"

end
