(* ===== verification/Command_Processor.thy ===== *)
theory Command_Processor
  imports Command_Firmware
begin

text \<open>
  What the firmware of \<open>Command_Firmware\<close> does: the element loop and the command processor against the
  sums they are meant to compute, the commands it refuses, and a command that escapes its checks.
\<close>

section \<open>The element loop\<close>

context mac_unit
begin

lemma add_element_step:
  assumes "ready a" "load32 m f_opcode = Some opcode"
    and "load32 m (in0 + 4 * i) = Some x" "load32 m (in1 + 4 * i) = Some y"
    and "out + 4 * i + 4 \<le> length m" "64 \<le> out" "64 \<le> length m"
  shows "\<exists>m' a'. add_element M in0 in1 out i m a = Some (m', a') \<and> ready a' \<and>
    same_except [(out + 4 * i, 4), (f_completed_elements, 4)] m m' \<and>
    load32 m' (out + 4 * i) = Some (x + y) \<and> load32 m' f_completed_elements = Some (of_nat (i + 1))"
proof -
  obtain a' where a': "(if opcode = OPCODE_VECTOR_ADD_CUSTOM_U32 then custom_add M x y a else Some (x + y, a)) = Some (x + y, a')"
    "ready a'" using custom_add_sum [OF assms(1), of x y] assms(1) by (cases "opcode = OPCODE_VECTOR_ADD_CUSTOM_U32") auto
  obtain m1 where m1: "store32 m (out + 4 * i) (x + y) = Some m1"
    using store32_in_range [of "out + 4 * i" m "x + y"] assms(5) by auto
  obtain m2 where m2: "store32 m1 f_completed_elements (of_nat (i + 1)) = Some m2"
    using store32_in_range [of f_completed_elements m1 "of_nat (i + 1)"] store32_length [OF m1] assms(7)
    by (auto simp: f_completed_elements_def)
  have "add_element M in0 in1 out i m a = Some (m2, a')"
    using assms(2-4) a'(1) m1 m2 by (simp add: add_element_def del: of_nat_Suc)
  moreover have "same_except [(out + 4 * i, 4), (f_completed_elements, 4)] m m2"
    using store32_same_except [OF m1] store32_same_except [OF m2] by (intro same_except_trans [of _ m m1 m2]) force+
  moreover have "load32 m2 (out + 4 * i) = Some (x + y)"
    using load32_store32 [OF m1] load32_store32_other [OF m2] assms(6) by (simp add: f_completed_elements_def)
  ultimately show ?thesis using a'(2) load32_store32 [OF m2] by blast
qed

lemma add_elements_run:
  assumes "ready a" "load32 m f_opcode = Some opcode" "load32 m f_element_count = Some count" "i \<le> unat count"
    and "\<And>j. j < unat count \<Longrightarrow> load32 m (in0 + 4 * j) = Some (xs j)"
    and "\<And>j. j < unat count \<Longrightarrow> load32 m (in1 + 4 * j) = Some (ys j)"
    and "out + 4 * unat count \<le> length m" "64 \<le> in0" "64 \<le> in1" "64 \<le> out" "64 \<le> length m"
    and "in0 + 4 * unat count \<le> out \<or> out + 4 * unat count \<le> in0"
    and "in1 + 4 * unat count \<le> out \<or> out + 4 * unat count \<le> in1"
  shows "\<exists>m' a'. add_elements M in0 in1 out i m a = Some (m', a') \<and> ready a' \<and>
    same_except [(out, 4 * unat count), (f_completed_elements, 4)] m m' \<and>
    (\<forall>j < unat count. load32 m' (out + 4 * j) = (if i \<le> j then Some (xs j + ys j) else load32 m (out + 4 * j))) \<and>
    load32 m' f_completed_elements = (if i < unat count then Some count else load32 m f_completed_elements)"
  using assms
proof (induction "unat count - i" arbitrary: i m a)
  case 0
  then show ?case by (subst add_elements.simps) auto
next
  case (Suc n)
  let ?c = "unat count"
  have i: "i < ?c" using Suc.hyps(2) by simp
  obtain m1 a1 where e: "add_element M in0 in1 out i m a = Some (m1, a1)" "ready a1"
    "same_except [(out + 4 * i, 4), (f_completed_elements, 4)] m m1"
    "load32 m1 (out + 4 * i) = Some (xs i + ys i)" "load32 m1 f_completed_elements = Some (of_nat (i + 1))"
    using add_element_step [OF Suc.prems(1,2) Suc.prems(5) [OF i] Suc.prems(6) [OF i], of out] Suc.prems(7,10,11) i
    by auto
  note keep = same_except_load32 [OF e(3)]
  have big: "same_except [(out, 4 * ?c), (f_completed_elements, 4)] m m1"
    using e(3) i by (auto simp: same_except_def)
  have l: "length m1 = length m" using same_except_length [OF e(3)] .
  have "\<exists>m' a'. add_elements M in0 in1 out (Suc i) m1 a1 = Some (m', a') \<and> ready a' \<and>
    same_except [(out, 4 * ?c), (f_completed_elements, 4)] m1 m' \<and>
    (\<forall>j < ?c. load32 m' (out + 4 * j) = (if Suc i \<le> j then Some (xs j + ys j) else load32 m1 (out + 4 * j))) \<and>
    load32 m' f_completed_elements = (if Suc i < ?c then Some count else load32 m1 f_completed_elements)"
  proof (rule Suc.hyps(1) [OF _ e(2)])
    show "n = ?c - Suc i" using Suc.hyps(2) by simp
    show "load32 m1 f_opcode = Some opcode" using keep [of f_opcode] Suc.prems(2,10) by (simp add: abi_defs)
    show "load32 m1 f_element_count = Some count" using keep [of f_element_count] Suc.prems(3,10) by (simp add: abi_defs)
    show "load32 m1 (in0 + 4 * j) = Some (xs j)" if "j < ?c" for j
      using keep [of "in0 + 4 * j"] Suc.prems(5) [OF that] Suc.prems(8,12) that i by (auto simp: abi_defs)
    show "load32 m1 (in1 + 4 * j) = Some (ys j)" if "j < ?c" for j
      using keep [of "in1 + 4 * j"] Suc.prems(6) [OF that] Suc.prems(9,13) that i by (auto simp: abi_defs)
  qed (use Suc.prems i l in auto)
  then obtain m' a' where r: "add_elements M in0 in1 out (Suc i) m1 a1 = Some (m', a')" "ready a'"
    "same_except [(out, 4 * ?c), (f_completed_elements, 4)] m1 m'"
    "\<And>j. j < ?c \<Longrightarrow> load32 m' (out + 4 * j) = (if Suc i \<le> j then Some (xs j + ys j) else load32 m1 (out + 4 * j))"
    "load32 m' f_completed_elements = (if Suc i < ?c then Some count else load32 m1 f_completed_elements)" by blast
  have run: "add_elements M in0 in1 out i m a = Some (m', a')"
    using Suc.prems(3) i e(1) r(1) by (subst add_elements.simps) simp
  have words: "load32 m' (out + 4 * j) = (if i \<le> j then Some (xs j + ys j) else load32 m (out + 4 * j))" if "j < ?c" for j
  proof -
    have "load32 m1 (out + 4 * j) = load32 m (out + 4 * j)" if "j < i"
      using keep [of "out + 4 * j"] that Suc.prems(10) by (simp add: abi_defs)
    then show ?thesis using r(4) [OF that] e(4) by (cases "j = i") auto
  qed
  have fin: "load32 m' f_completed_elements = Some count"
  proof (cases "Suc i < ?c")
    case False
    then have "of_nat (i + 1) = count" using i by (metis Suc_eq_plus1 Suc_lessI word_of_nat_unat)
    then show ?thesis using r(5) e(5) False by simp
  qed (use r(5) in simp)
  show ?case using run r(2) same_except_trans [OF big r(3)] words fin i by auto
qed

end

section \<open>Commands in memory\<close>

definition command_at :: "bytes \<Rightarrow> opennpux_coral_command \<Rightarrow> bool" where
  "command_at m c \<longleftrightarrow> load_words m COMMAND_OFFSET 16 = Some (command_words c)"

definition command_abi_ok :: "opennpux_coral_command \<Rightarrow> bool" where
  "command_abi_ok c \<longleftrightarrow> cmd_magic c = COMMAND_MAGIC \<and> cmd_abi_version c = COMMAND_ABI_VERSION \<and>
     cmd_struct_size c = COMMAND_SIZE"

definition command_opcode_ok :: "opennpux_coral_command \<Rightarrow> bool" where
  "command_opcode_ok c \<longleftrightarrow> cmd_opcode c = OPCODE_VECTOR_ADD_U32 \<or> cmd_opcode c = OPCODE_VECTOR_ADD_CUSTOM_U32"

definition command_bounds_ok :: "opennpux_coral_command \<Rightarrow> bool" where
  "command_bounds_ok c \<longleftrightarrow> tensor_in_bounds (cmd_input0_offset c) (cmd_element_count c) \<and>
     tensor_in_bounds (cmd_input1_offset c) (cmd_element_count c) \<and>
     tensor_in_bounds (cmd_output_offset c) (cmd_element_count c) \<and> cmd_output_size c = cmd_element_count c * 4"

text \<open>The tensors lie behind the command block and the output does not overlap the inputs.\<close>

definition command_separate :: "opennpux_coral_command \<Rightarrow> bool" where
  "command_separate c \<longleftrightarrow> (let n = 4 * unat (cmd_element_count c); x = unat (cmd_input0_offset c);
     y = unat (cmd_input1_offset c); z = unat (cmd_output_offset c) in
     64 \<le> x \<and> 64 \<le> y \<and> 64 \<le> z \<and> (x + n \<le> z \<or> z + n \<le> x) \<and> (y + n \<le> z \<or> z + n \<le> y))"

lemma command_fields:
  assumes "command_at m c"
  shows "load32 m f_magic = Some (cmd_magic c)" "load32 m f_abi_version = Some (cmd_abi_version c)"
    "load32 m f_struct_size = Some (cmd_struct_size c)" "load32 m f_opcode = Some (cmd_opcode c)"
    "load32 m f_element_count = Some (cmd_element_count c)" "load32 m f_input0_offset = Some (cmd_input0_offset c)"
    "load32 m f_input1_offset = Some (cmd_input1_offset c)" "load32 m f_output_offset = Some (cmd_output_offset c)"
    "load32 m f_output_size = Some (cmd_output_size c)"
  using load_words_nth [OF assms [unfolded command_at_def], of 0] load_words_nth [OF assms [unfolded command_at_def], of 1]
    load_words_nth [OF assms [unfolded command_at_def], of 2] load_words_nth [OF assms [unfolded command_at_def], of 3]
    load_words_nth [OF assms [unfolded command_at_def], of 6] load_words_nth [OF assms [unfolded command_at_def], of 8]
    load_words_nth [OF assms [unfolded command_at_def], of 9] load_words_nth [OF assms [unfolded command_at_def], of 10]
    load_words_nth [OF assms [unfolded command_at_def], of 11]
  by (simp_all add: command_words_def abi_defs)

lemma tensor_in_bounds_nat:
  "tensor_in_bounds offset count \<longleftrightarrow>
     4 dvd unat offset \<and> unat count \<le> 256 \<and> unat offset + 4 * unat count \<le> 0x1000"
proof -
  have al: "offset AND 3 = 0 \<longleftrightarrow> 4 dvd unat offset"
    using and_low_mask_unat [of offset 2] by (simp add: mask_eq_exp_minus_1 dvd_eq_mod_eq_0 word_unat_eq_iff)
  have cnt: "TENSOR_MAX_ELEMENTS < count \<longleftrightarrow> \<not> unat count \<le> 256"
    by (simp add: word_less_nat_alt TENSOR_MAX_ELEMENTS_def not_le)
  show ?thesis
  proof (cases "4 dvd unat offset \<and> unat count \<le> 256 \<and> offset \<le> CORAL_EXTMEM_SIZE")
    case True
    have n: "unat (count * 4) = 4 * unat count" using True by (subst unat_mult_nowrap) simp_all
    have "unat (CORAL_EXTMEM_SIZE - offset) = 0x1000 - unat offset" using True by (simp add: unat_sub CORAL_EXTMEM_SIZE_def)
    moreover have "unat offset \<le> 0x1000" using True by (simp add: word_le_nat_alt CORAL_EXTMEM_SIZE_def)
    ultimately have "count * 4 \<le> CORAL_EXTMEM_SIZE - offset \<longleftrightarrow> unat offset + 4 * unat count \<le> 0x1000"
      using n by (auto simp: word_le_nat_alt)
    then show ?thesis using True al cnt by (simp add: tensor_in_bounds_def)
  next
    case False
    then show ?thesis using al cnt by (auto simp: tensor_in_bounds_def word_le_nat_alt CORAL_EXTMEM_SIZE_def)
  qed
qed

lemma finish_error_writes:
  assumes "64 \<le> length m"
  shows "\<exists>m'. finish_error e m = Some m' \<and> same_except [(f_status, 8)] m m' \<and>
    load32 m' f_error_code = Some e \<and> load32 m' f_status = Some COMMAND_ERROR"
proof -
  obtain m1 where m1: "store32 m f_error_code e = Some m1"
    using store32_in_range [of f_error_code m e] assms by (auto simp: f_error_code_def)
  obtain m2 where m2: "store32 m1 f_status COMMAND_ERROR = Some m2"
    using store32_in_range [of f_status m1 COMMAND_ERROR] store32_length [OF m1] assms by (auto simp: f_status_def)
  have "same_except [(f_status, 8)] m m2"
    using store32_same_except [OF m1, of f_status 8] store32_same_except [OF m2, of f_status 8]
    by (intro same_except_trans [of _ m m1 m2]) (simp_all add: abi_defs)
  then show ?thesis
    using m1 m2 load32_store32 [OF m1] load32_store32_other [OF m2, of f_error_code] load32_store32 [OF m2]
    by (simp add: finish_error_def) (simp add: abi_defs)
qed

text \<open>
  C32: The command processor refuses every command that fails a check with the error code of the first
  failing group of checks (header, opcode, bounds), in that order; it then returns 1 and changes only
  the status and the error code of the command.
\<close>

theorem command_main_rejects:
  assumes c: "command_at m c" and bad: "\<not> (command_abi_ok c \<and> command_opcode_ok c \<and> command_bounds_ok c)"
  shows "\<exists>m'. command_main M m a = Some (1, m', a) \<and> same_except [(f_status, 8)] m m' \<and>
    load32 m' f_status = Some COMMAND_ERROR \<and>
    load32 m' f_error_code = Some (if \<not> command_abi_ok c then COMMAND_ERROR_ABI
      else if \<not> command_opcode_ok c then COMMAND_ERROR_OPCODE else COMMAND_ERROR_BOUNDS)"
proof -
  have "load32 m 60 = Some (cmd_accelerator_cycles c)"
    using load_words_nth [OF c [unfolded command_at_def], of 15] by (simp add: command_words_def abi_defs)
  then have l: "64 \<le> length m" by (simp add: load32_def load_bytes_def split: if_splits)
  note f = command_fields [OF c]
  let ?e = "if \<not> command_abi_ok c then COMMAND_ERROR_ABI
      else if \<not> command_opcode_ok c then COMMAND_ERROR_OPCODE else COMMAND_ERROR_BOUNDS"
  obtain m' where m': "finish_error ?e m = Some m'" "same_except [(f_status, 8)] m m'"
    "load32 m' f_error_code = Some ?e" "load32 m' f_status = Some COMMAND_ERROR"
    using finish_error_writes [OF l] by blast
  have "command_main M m a = Some (1, m', a)"
  proof (cases "command_abi_ok c")
    case False
    then show ?thesis using m'(1) f by (auto simp: command_main_def command_abi_ok_def)
  next
    case abi: True
    show ?thesis
    proof (cases "command_opcode_ok c")
      case False
      then show ?thesis using abi m'(1) f by (auto simp: command_main_def command_abi_ok_def command_opcode_ok_def)
    next
      case True
      then have "\<not> command_bounds_ok c" using bad abi by blast
      then show ?thesis
        using True abi m'(1) f
        by (auto simp: command_main_def command_abi_ok_def command_opcode_ok_def command_bounds_ok_def)
    qed
  qed
  then show ?thesis using m' by blast
qed

text \<open>The four stores that mark a command as running.\<close>

lemma mark_running:
  assumes "64 \<le> length m"
  shows "\<exists>m'. do { m \<leftarrow> store32 m f_status COMMAND_RUNNING; m \<leftarrow> store32 m f_error_code COMMAND_ERROR_NONE;
      m \<leftarrow> store32 m f_completed_elements 0; store32 m f_accelerator_cycles 0 } = Some m' \<and>
    same_except [(f_status, 16)] m m' \<and> load32 m' f_error_code = Some COMMAND_ERROR_NONE \<and>
    load32 m' f_completed_elements = Some 0"
proof -
  obtain m1 where m1: "store32 m f_status COMMAND_RUNNING = Some m1"
    using store32_in_range [of f_status m COMMAND_RUNNING] assms by (auto simp: f_status_def)
  obtain m2 where m2: "store32 m1 f_error_code COMMAND_ERROR_NONE = Some m2"
    using store32_in_range [of f_error_code m1] store32_length [OF m1] assms by (auto simp: f_error_code_def)
  obtain m3 where m3: "store32 m2 f_completed_elements 0 = Some m3"
    using store32_in_range [of f_completed_elements m2] store32_length [OF m1] store32_length [OF m2] assms
    by (auto simp: f_completed_elements_def)
  obtain m4 where m4: "store32 m3 f_accelerator_cycles 0 = Some m4"
    using store32_in_range [of f_accelerator_cycles m3] store32_length [OF m1] store32_length [OF m2]
      store32_length [OF m3] assms by (auto simp: f_accelerator_cycles_def)
  have s: "same_except [(f_status, 16)] m m1" "same_except [(f_status, 16)] m1 m2" "same_except [(f_status, 16)] m2 m3"
    "same_except [(f_status, 16)] m3 m4"
    using store32_same_except [OF m1] store32_same_except [OF m2] store32_same_except [OF m3] store32_same_except [OF m4]
    by (simp_all add: abi_defs)
  have "same_except [(f_status, 16)] m m4"
    using same_except_trans [OF same_except_trans [OF same_except_trans [OF s(1,2)] s(3)] s(4)] .
  moreover have "load32 m4 f_error_code = Some COMMAND_ERROR_NONE" "load32 m4 f_completed_elements = Some 0"
    using load32_store32 [OF m2] load32_store32_other [OF m3, of f_error_code] load32_store32_other [OF m4, of f_error_code]
      load32_store32 [OF m3] load32_store32_other [OF m4, of f_completed_elements] by (simp_all add: abi_defs)
  ultimately show ?thesis using m1 m2 m3 m4 by simp
qed

context mac_unit
begin

lemma command_main_runs:
  assumes c: "command_at m c" and ok: "command_abi_ok c" "command_opcode_ok c" "command_bounds_ok c"
    and sep: "command_separate c" and len: "0x1000 \<le> length m" and ready: "ready a"
    and xs: "load_words m (unat (cmd_input0_offset c)) (unat (cmd_element_count c)) = Some xs"
    and ys: "load_words m (unat (cmd_input1_offset c)) (unat (cmd_element_count c)) = Some ys"
  shows "\<exists>m' a'. command_main M m a = Some (0, m', a') \<and> ready a' \<and>
    same_except [(unat (cmd_output_offset c), 4 * unat (cmd_element_count c)), (f_status, 16)] m m' \<and>
    load_words m' (unat (cmd_output_offset c)) (unat (cmd_element_count c)) = Some (map2 (+) xs ys) \<and>
    load32 m' f_status = Some COMMAND_COMPLETE \<and> load32 m' f_error_code = Some COMMAND_ERROR_NONE \<and>
    load32 m' f_completed_elements = Some (cmd_element_count c)"
proof -
  let ?n = "unat (cmd_element_count c)" and ?x = "unat (cmd_input0_offset c)"
  let ?y = "unat (cmd_input1_offset c)" and ?z = "unat (cmd_output_offset c)"
  let ?R = "[(?z, 4 * ?n), (f_status, 16)]"
  let ?cust = "cmd_opcode c = OPCODE_VECTOR_ADD_CUSTOM_U32"
  note f = command_fields [OF c]
  have b: "?x + 4 * ?n \<le> 0x1000" "?y + 4 * ?n \<le> 0x1000" "?z + 4 * ?n \<le> 0x1000"
    using ok(3) by (simp_all add: command_bounds_ok_def tensor_in_bounds_nat)
  have s: "64 \<le> ?x" "64 \<le> ?y" "64 \<le> ?z" "?x + 4 * ?n \<le> ?z \<or> ?z + 4 * ?n \<le> ?x" "?y + 4 * ?n \<le> ?z \<or> ?z + 4 * ?n \<le> ?y"
    using sep by (simp_all add: command_separate_def Let_def)
  obtain m1 where m1: "do { m \<leftarrow> store32 m f_status COMMAND_RUNNING; m \<leftarrow> store32 m f_error_code COMMAND_ERROR_NONE;
      m \<leftarrow> store32 m f_completed_elements 0; store32 m f_accelerator_cycles 0 } = Some m1"
    "same_except [(f_status, 16)] m m1" "load32 m1 f_error_code = Some COMMAND_ERROR_NONE"
    "load32 m1 f_completed_elements = Some 0"
    using mark_running [of m] len by auto
  note k1 = same_except_load32 [OF m1(2)]
  have l1: "length m1 = length m" using same_except_length [OF m1(2)] .
  obtain t1 a1 where a1: "(if ?cust then mp_read M (custom_reg CUSTOM_MAC_CYCLES) a else (0, a)) = (t1, a1)" "ready a1"
    using cycles [OF ready] ready by (cases ?cust) auto
  obtain t2 a2 where a2: "(if ?cust then mp_read M (custom_reg CUSTOM_MAC_ID) a1 else (0, a1)) = (t2, a2)" "ready a2"
    "\<not> (?cust \<and> t2 \<noteq> CUSTOM_MAC_EXPECTED_ID)"
    using ident [OF a1(2)] a1(2) by (cases ?cust) auto
  have in0: "load32 m1 (?x + 4 * j) = Some (xs ! j)" if "j < ?n" for j
    using k1 [of "?x + 4 * j"] load_words_nth [OF xs that] s(1) by (simp add: abi_defs)
  have in1: "load32 m1 (?y + 4 * j) = Some (ys ! j)" if "j < ?n" for j
    using k1 [of "?y + 4 * j"] load_words_nth [OF ys that] s(2) by (simp add: abi_defs)
  have op1: "load32 m1 f_opcode = Some (cmd_opcode c)" "load32 m1 f_element_count = Some (cmd_element_count c)"
    using k1 [of f_opcode] k1 [of f_element_count] f by (simp_all add: abi_defs)
  obtain m2 a3 where m2: "add_elements M ?x ?y ?z 0 m1 a2 = Some (m2, a3)" "ready a3"
    "same_except [(?z, 4 * ?n), (f_completed_elements, 4)] m1 m2"
    "\<And>j. j < ?n \<Longrightarrow> load32 m2 (?z + 4 * j) = Some (xs ! j + ys ! j)"
    "load32 m2 f_completed_elements = Some (cmd_element_count c)"
  proof -
    have "\<exists>m' a'. add_elements M ?x ?y ?z 0 m1 a2 = Some (m', a') \<and> ready a' \<and>
      same_except [(?z, 4 * ?n), (f_completed_elements, 4)] m1 m' \<and>
      (\<forall>j < ?n. load32 m' (?z + 4 * j) = (if 0 \<le> j then Some (xs ! j + ys ! j) else load32 m1 (?z + 4 * j))) \<and>
      load32 m' f_completed_elements = (if 0 < ?n then Some (cmd_element_count c) else load32 m1 f_completed_elements)"
      using s b l1 len in0 in1 by (intro add_elements_run [OF a2(2) op1]) auto
    moreover have "cmd_element_count c = 0" if "\<not> 0 < ?n" using that by (simp add: unat_eq_zero)
    ultimately show ?thesis using m1(4) that by auto
  qed
  note k2 = same_except_load32 [OF m2(3)]
  have op2: "load32 m2 f_opcode = Some (cmd_opcode c)" "load32 m2 f_error_code = Some COMMAND_ERROR_NONE"
    using k2 [of f_opcode] k2 [of f_error_code] op1 m1(3) s(3) by (simp_all add: abi_defs)
  obtain m3 a4 where m3: "(if ?cust then let (after, a) = mp_read M (custom_reg CUSTOM_MAC_CYCLES) a3 in
        do { m \<leftarrow> store32 m2 f_accelerator_cycles (after - t1); Some (m, a) } else Some (m2, a3)) = Some (m3, a4)"
    "ready a4" "same_except [(f_accelerator_cycles, 4)] m2 m3"
  proof (cases ?cust)
    case True
    obtain t a4 where t: "mp_read M (custom_reg CUSTOM_MAC_CYCLES) a3 = (t, a4)" "ready a4" using cycles [OF m2(2)] by blast
    obtain m3 where "store32 m2 f_accelerator_cycles (t - t1) = Some m3"
      using store32_in_range [of f_accelerator_cycles m2 "t - t1"] same_except_length [OF m2(3)] l1 len
      by (auto simp: f_accelerator_cycles_def)
    then show ?thesis using that True t store32_same_except [of m2 f_accelerator_cycles "t - t1" m3] by simp
  qed (use that m2(2) in simp)
  note k3 = same_except_load32 [OF m3(3)]
  obtain m4 where m4: "store32 m3 f_status COMMAND_COMPLETE = Some m4"
    using store32_in_range [of f_status m3 COMMAND_COMPLETE] same_except_length [OF m3(3)] same_except_length [OF m2(3)] l1 len
    by (auto simp: f_status_def)
  note k4 = load32_store32_other [OF m4]
  have run: "command_main M m a = Some (0, m4, a4)"
  proof -
    obtain s1 s2 s3 where st: "store32 m f_status COMMAND_RUNNING = Some s1" "store32 s1 f_error_code COMMAND_ERROR_NONE = Some s2"
      "store32 s2 f_completed_elements 0 = Some s3" "store32 s3 f_accelerator_cycles 0 = Some m1"
      using m1(1) by (auto split: bind_splits)
    show ?thesis
      using ok a1(1) a2(1,3) m2(1) op2(1) m3(1) m4 f st
      by (simp add: command_main_def command_abi_ok_def command_opcode_ok_def command_bounds_ok_def) blast
  qed
  have "same_except ?R m m4"
  proof -
    have "same_except ?R m m1" "same_except ?R m2 m3"
      using same_except_mono [OF m1(2), of ?R] same_except_mono [OF m3(3), of ?R] by (auto simp: abi_defs)
    moreover have "same_except ?R m1 m2" by (rule same_except_mono [OF m2(3)]) (auto simp: abi_defs)
    moreover have "same_except ?R m3 m4" using store32_same_except [OF m4, of f_status 16 ?R] by simp
    ultimately show ?thesis by (meson same_except_trans)
  qed
  moreover have "load_words m4 ?z ?n = Some (map2 (+) xs ys)"
  proof -
    have "load32 m4 (?z + 4 * j) = Some (xs ! j + ys ! j)" if "j < ?n" for j
      using m2(4) [OF that] k3 [of "?z + 4 * j"] k4 [of "?z + 4 * j"] s(3) by (simp add: abi_defs)
    then have "load_words m4 ?z ?n = Some (map (\<lambda>j. xs ! j + ys ! j) [0..<?n])" by (rule load_words_map)
    moreover have "map (\<lambda>j. xs ! j + ys ! j) [0..<?n] = map2 (+) xs ys"
      using load_words_length [OF xs] load_words_length [OF ys] by (intro nth_equalityI) simp_all
    ultimately show ?thesis by simp
  qed
  ultimately show ?thesis
    using run m3(2) load32_store32 [OF m4] m2(5) op2(2) k3 [of f_completed_elements] k4 [of f_completed_elements]
      k3 [of f_error_code] k4 [of f_error_code]
    by (simp add: abi_defs)
qed

end


section \<open>Properties\<close>

text \<open>
  C2: The command processor adds vectors, with and without the custom unit. For a command whose checks
  pass, with its tensors behind the command block and the output apart from the inputs, it returns 0
  with the element-wise sums modulo \<open>2 ^ 32\<close> in the output, the status complete, no error and the number
  of completed elements equal to the count; nothing else in memory changes except the result fields
  of the command. With the custom unit every wait for its done bit ends.
\<close>

theorem command_main_correct:
  assumes "command_at m c" "command_abi_ok c" "command_opcode_ok c" "command_bounds_ok c" "command_separate c"
    and "0x1000 \<le> length m" "mac_ready a"
    and "load_words m (unat (cmd_input0_offset c)) (unat (cmd_element_count c)) = Some xs"
    and "load_words m (unat (cmd_input1_offset c)) (unat (cmd_element_count c)) = Some ys"
  shows "\<exists>m' a'. command_main clocked_port m a = Some (0, m', a') \<and> mac_ready a' \<and>
    same_except [(unat (cmd_output_offset c), 4 * unat (cmd_element_count c)), (f_status, 16)] m m' \<and>
    load_words m' (unat (cmd_output_offset c)) (unat (cmd_element_count c)) = Some (map2 (+) xs ys) \<and>
    load32 m' f_status = Some COMMAND_COMPLETE \<and> load32 m' f_error_code = Some COMMAND_ERROR_NONE \<and>
    load32 m' f_completed_elements = Some (cmd_element_count c)"
  using assms by (rule mac.command_main_runs)

text \<open>A command staged in memory with its inputs.\<close>

lemma staged_command:
  assumes len: "0x1000 \<le> length m" and b: "command_bounds_ok c" and sep: "command_separate c"
    and n: "length xs = unat (cmd_element_count c)" "length ys = unat (cmd_element_count c)"
    and apart: "unat (cmd_input0_offset c) + 4 * length xs \<le> unat (cmd_input1_offset c)"
  shows "\<exists>m1 m2 m3. store_words m COMMAND_OFFSET (command_words c) = Some m1 \<and>
    store_words m1 (unat (cmd_input0_offset c)) xs = Some m2 \<and> store_words m2 (unat (cmd_input1_offset c)) ys = Some m3 \<and>
    command_at m3 c \<and> length m3 = length m \<and> load_words m3 (unat (cmd_input0_offset c)) (length xs) = Some xs \<and>
    load_words m3 (unat (cmd_input1_offset c)) (length ys) = Some ys"
proof -
  let ?x = "unat (cmd_input0_offset c)" and ?y = "unat (cmd_input1_offset c)"
  have bb: "?x + 4 * length xs \<le> 0x1000" "?y + 4 * length ys \<le> 0x1000" "64 \<le> ?x" "64 \<le> ?y"
    using b sep n by (simp_all add: command_bounds_ok_def tensor_in_bounds_nat command_separate_def Let_def)
  have cl: "length (command_words c) = 16" by (simp add: command_words_def)
  obtain m1 where m1: "store_words m COMMAND_OFFSET (command_words c) = Some m1"
    using store_words_in_range [of COMMAND_OFFSET "command_words c" m] cl len by (auto simp: COMMAND_OFFSET_def)
  have l1: "length m1 = length m" using store_words_length [OF m1] .
  obtain m2 where m2: "store_words m1 ?x xs = Some m2" using store_words_in_range [of ?x xs m1] bb l1 len by auto
  have l2: "length m2 = length m" using store_words_length [OF m2] l1 by simp
  obtain m3 where m3: "store_words m2 ?y ys = Some m3" using store_words_in_range [of ?y ys m2] bb l2 len by auto
  have r: "?x + 4 * length xs \<le> length m1" "?y + 4 * length ys \<le> length m2" using bb l1 l2 len by simp_all
  note k2 = same_except_load_words [OF store_words_same_except [OF m2 r(1)]]
  note k3 = same_except_load_words [OF store_words_same_except [OF m3 r(2)]]
  have "load_words m1 COMMAND_OFFSET 16 = Some (command_words c)" using load_words_store_words [OF m1] cl by simp
  then have "command_at m3 c"
    using k2 [of COMMAND_OFFSET 16] k3 [of COMMAND_OFFSET 16] bb by (simp add: command_at_def COMMAND_OFFSET_def)
  moreover have "load_words m3 ?x (length xs) = Some xs"
    using load_words_store_words [OF m2] k3 [of ?x "length xs"] apart by simp
  ultimately show ?thesis
    using m1 m2 m3 load_words_store_words [OF m3] store_words_length [OF m3] l2 by simp
qed

definition example_command :: opennpux_coral_command where
  "example_command = \<lparr> cmd_magic = COMMAND_MAGIC, cmd_abi_version = 1, cmd_struct_size = 64,
     cmd_opcode = OPCODE_VECTOR_ADD_CUSTOM_U32, cmd_sequence = 1, cmd_flags = 0, cmd_element_count = 2, cmd_reserved0 = 0,
     cmd_input0_offset = 0x100, cmd_input1_offset = 0x500, cmd_output_offset = 0x900, cmd_output_size = 8,
     cmd_status = 0, cmd_error_code = 0, cmd_completed_elements = 0, cmd_accelerator_cycles = 0 \<rparr>"

lemma example_command_ok:
  "command_abi_ok example_command" "command_opcode_ok example_command" "command_bounds_ok example_command"
  "command_separate example_command"
  by (simp_all add: example_command_def command_abi_ok_def command_opcode_ok_def command_bounds_ok_def
      command_separate_def tensor_in_bounds_nat abi_defs)

lemma example_command_layout:
  "unat (cmd_input0_offset example_command) = 0x100" "unat (cmd_input1_offset example_command) = 0x500"
  "unat (cmd_output_offset example_command) = 0x900" "unat (cmd_element_count example_command) = 2"
  by (simp_all add: example_command_def)

lemma staged_example:
  "\<exists>m. command_at m example_command \<and> length m = 4096 \<and> load_words m 0x100 2 = Some [1, 2] \<and>
     load_words m 0x500 2 = Some [40, 41]"
proof -
  have l: "length [1 :: u32, 2] = unat (cmd_element_count example_command)"
    "length [40 :: u32, 41] = unat (cmd_element_count example_command)" by (simp_all add: example_command_layout)
  have "0x1000 \<le> length (replicate 4096 0 :: bytes)"
    "unat (cmd_input0_offset example_command) + 4 * length [1 :: u32, 2] \<le> unat (cmd_input1_offset example_command)"
    by (simp_all add: example_command_layout)
  from staged_command [OF this(1) example_command_ok(3,4) l this(2)]
  show ?thesis unfolding l example_command_layout by (metis length_replicate)
qed

theorem command_main_correct_witness:
  "\<exists>m m' a'. command_at m example_command \<and>
     command_main clocked_port m (mac_Reset \<lparr> mac_model = mac_reset, active_cycles = 0 \<rparr>) = Some (0, m', a') \<and>
     load_words m' 0x900 2 = Some (map2 (+) [1, 2] [40, 41])"
proof -
  obtain m where m: "command_at m example_command" "length m = 4096" "load_words m 0x100 2 = Some [1, 2]"
    "load_words m 0x500 2 = Some [40, 41]" using staged_example by blast
  have "mac_ready (mac_Reset \<lparr> mac_model = mac_reset, active_cycles = 0 \<rparr>)"
    by (simp add: mac_ready_def mac_Reset_regs mac_reset_def)
  then show ?thesis
    using command_main_correct [OF m(1) example_command_ok, unfolded example_command_layout, OF _ _ m(3,4)] m(1,2) by force
qed

theorem command_main_rejects_witness:
  "\<forall>a. \<exists>m m'. command_at m (example_command\<lparr> cmd_opcode := 9 \<rparr>) \<and>
     command_main clocked_port m a = Some (1, m', a) \<and> load32 m' f_error_code = Some COMMAND_ERROR_OPCODE"
proof
  fix a
  let ?c = "example_command\<lparr> cmd_opcode := 9 \<rparr>"
  have l: "length (command_words ?c) = 16" by (simp add: command_words_def)
  obtain m where "store_words (replicate 4096 0) COMMAND_OFFSET (command_words ?c) = Some m"
    using store_words_in_range [of COMMAND_OFFSET "command_words ?c" "replicate 4096 0"] l by (auto simp: COMMAND_OFFSET_def)
  then have m: "command_at m ?c" using load_words_store_words l by (metis command_at_def)
  show "\<exists>m m'. command_at m ?c \<and> command_main clocked_port m a = Some (1, m', a) \<and>
      load32 m' f_error_code = Some COMMAND_ERROR_OPCODE"
    using command_main_rejects [OF m, of clocked_port a] m
    by (auto simp: example_command_def command_abi_ok_def command_opcode_ok_def abi_defs)
qed

section \<open>A command that overwrites itself\<close>

lemma add_element_frame:
  assumes "add_element M in0 in1 out i m a = Some (m', a')"
  shows "same_except [(out + 4 * i, 4), (f_completed_elements, 4)] m m'"
proof -
  obtain v m1 where m1: "store32 m (out + 4 * i) v = Some m1"
    and m2: "store32 m1 f_completed_elements (of_nat (i + 1)) = Some m'"
    using assms by (auto simp: add_element_def simp del: of_nat_Suc split: bind_splits)
  show ?thesis
    using store32_same_except [OF m1] store32_same_except [OF m2] by (intro same_except_trans [of _ m m1 m']) force+
qed

lemma runaway_loop:
  assumes "length m = 0x1000" "load32 m f_element_count = Some 0xffffffff" "1 \<le> i" "i \<le> 0x400"
  shows "add_elements M in0 in1 f_element_count i m a = None"
  using assms
proof (induction "0x400 - i" arbitrary: i m a)
  case 0
  then have "load32 m (in0 + 4 * i) = None" by (simp add: load32_def load_bytes_def)
  then have "add_element M in0 in1 f_element_count i m a = None" by (cases "load32 m f_opcode") (simp_all add: add_element_def)
  then show ?case using 0 by (subst add_elements.simps) simp
next
  case (Suc n)
  show ?case
  proof (cases "add_element M in0 in1 f_element_count i m a")
    case None
    then show ?thesis using Suc.prems by (subst add_elements.simps) simp
  next
    case (Some r)
    then obtain m' a' where r: "add_element M in0 in1 f_element_count i m a = Some (m', a')" by (cases r) auto
    note fr = add_element_frame [OF r]
    have "load32 m' f_element_count = Some 0xffffffff"
      using same_except_load32 [OF fr, of f_element_count] Suc.prems(2,3) by (simp add: abi_defs)
    then have "add_elements M in0 in1 f_element_count (i + 1) m' a' = None"
      using Suc same_except_length [OF fr] by (intro Suc.hyps(1)) simp_all
    then show ?thesis using Suc r by (subst add_elements.simps) simp
  qed
qed

definition self_overwriting_command :: opennpux_coral_command where
  "self_overwriting_command = example_command\<lparr> cmd_opcode := OPCODE_VECTOR_ADD_U32, cmd_element_count := 1,
     cmd_output_offset := 24, cmd_output_size := 4 \<rparr>"

text \<open>
  C33: The bounds check does not keep the output apart from the command block, and the count is read
  from the block in every iteration: a command that passes every check, with one element and its
  output over its own count, makes the firmware leave the external memory it checked against.
\<close>

theorem self_overwriting_command_escapes:
  "\<exists>m. length m = 0x1000 \<and> command_at m self_overwriting_command \<and> command_abi_ok self_overwriting_command \<and>
     command_opcode_ok self_overwriting_command \<and> command_bounds_ok self_overwriting_command \<and>
     (\<forall>a. command_main clocked_port m a = None)"
proof -
  let ?c = self_overwriting_command
  note cdef = self_overwriting_command_def example_command_def
  have l: "length (command_words ?c) = 16" by (simp add: command_words_def)
  obtain m0 where m0: "store_words (replicate 0x1000 0) COMMAND_OFFSET (command_words ?c) = Some m0"
    using store_words_in_range [of COMMAND_OFFSET "command_words ?c" "replicate 0x1000 0"] l by (auto simp: COMMAND_OFFSET_def)
  have l0: "length m0 = 0x1000" using store_words_length [OF m0] by simp
  obtain m1 where m1: "store32 m0 0x100 0xffffffff = Some m1" using store32_in_range [of "0x100" m0] l0 by auto
  have l1: "length m1 = 0x1000" using store32_length [OF m1] l0 by simp
  obtain m where m: "store32 m1 0x500 0 = Some m" using store32_in_range [of "0x500" m1] l1 by auto
  have lm: "length m = 0x1000" using store32_length [OF m] l1 by simp
  have "load_words m0 COMMAND_OFFSET 16 = Some (command_words ?c)" using load_words_store_words [OF m0] l by simp
  then have at: "command_at m ?c"
    using same_except_load_words [OF store32_same_except [OF m1, of "0x100" 4 "[(0x100, 4)]"], of COMMAND_OFFSET 16]
      same_except_load_words [OF store32_same_except [OF m, of "0x500" 4 "[(0x500, 4)]"], of COMMAND_OFFSET 16]
    by (simp add: command_at_def COMMAND_OFFSET_def)
  have x: "load32 m 0x100 = Some 0xffffffff" "load32 m 0x500 = Some 0"
    using load32_store32 [OF m1] load32_store32_other [OF m, of "0x100"] load32_store32 [OF m] by simp_all
  have ok: "command_abi_ok ?c" "command_opcode_ok ?c" "command_bounds_ok ?c"
    by (simp_all add: cdef command_abi_ok_def command_opcode_ok_def command_bounds_ok_def tensor_in_bounds_nat abi_defs)
  have fields: "cmd_opcode ?c = OPCODE_VECTOR_ADD_U32" "cmd_input0_offset ?c = 0x100" "cmd_input1_offset ?c = 0x500"
    "cmd_output_offset ?c = 24" "cmd_element_count ?c = 1" "cmd_output_size ?c = 4" by (simp_all add: cdef)
  note f = command_fields [OF at, unfolded fields]
  obtain r1 where r1: "do { m \<leftarrow> store32 m f_status COMMAND_RUNNING; m \<leftarrow> store32 m f_error_code COMMAND_ERROR_NONE;
      m \<leftarrow> store32 m f_completed_elements 0; store32 m f_accelerator_cycles 0 } = Some r1"
    "same_except [(f_status, 16)] m r1"
    using mark_running [of m] lm by auto
  note k = same_except_load32 [OF r1(2)]
  have lr: "length r1 = 0x1000" using same_except_length [OF r1(2)] lm by simp
  have loads: "load32 r1 0x100 = Some 0xffffffff" "load32 r1 0x500 = Some 0" "load32 r1 f_opcode = Some OPCODE_VECTOR_ADD_U32"
    "load32 r1 f_element_count = Some 1"
    using k [of "0x100"] k [of "0x500"] k [of f_opcode] k [of f_element_count] x f by (simp_all add: abi_defs)
  obtain r2 where r2: "store32 r1 24 0xffffffff = Some r2" using store32_in_range [of 24 r1] lr by auto
  obtain r3 where r3: "store32 r2 f_completed_elements 1 = Some r3"
    using store32_in_range [of f_completed_elements r2] store32_length [OF r2] lr by (auto simp: f_completed_elements_def)
  have el: "add_element clocked_port 0x100 0x500 24 0 r1 a = Some (r3, a)" for a
    using loads r2 r3 by (simp add: add_element_def abi_defs)
  have "load32 r3 f_element_count = Some 0xffffffff"
    using load32_store32 [OF r2] load32_store32_other [OF r3, of 24] by (simp add: abi_defs)
  then have "add_elements clocked_port 0x100 0x500 24 1 r3 a = None" for a
    using runaway_loop [of r3 1 clocked_port "0x100" "0x500" a] store32_length [OF r3] store32_length [OF r2] lr
    by (simp add: f_element_count_def)
  then have loop: "add_elements clocked_port 0x100 0x500 24 0 r1 a = None" for a
    using loads(4) el by (subst add_elements.simps) simp
  obtain s1 s2 s3 where st: "store32 m f_status COMMAND_RUNNING = Some s1" "store32 s1 f_error_code COMMAND_ERROR_NONE = Some s2"
    "store32 s2 f_completed_elements 0 = Some s3" "store32 s3 f_accelerator_cycles 0 = Some r1"
    using r1(1) by (auto split: bind_splits)
  have "command_main clocked_port m a = None" for a
    using ok f st loop
    by (simp add: command_main_def command_abi_ok_def command_bounds_ok_def fields)
      (simp add: abi_defs)
  then show ?thesis using lm at ok by blast
qed

section \<open>The smoke test\<close>

lemma dma_smoke_main_sums:
  assumes "load32 m 0 = Some x" "load32 m 4 = Some y" "12 \<le> length m"
  shows "\<exists>m'. dma_smoke_main m = Some (0, m') \<and> same_except [(0, 4), (8, 4)] m m' \<and>
    load32 m' 0 = Some (x + y) \<and> load32 m' 8 = Some CORAL_DMA_MAGIC"
proof -
  obtain m1 where m1: "store32 m 0 (x + y) = Some m1" using store32_in_range [of 0 m] assms(3) by auto
  obtain m2 where m2: "store32 m1 8 CORAL_DMA_MAGIC = Some m2"
    using store32_in_range [of 8 m1] store32_length [OF m1] assms(3) by auto
  have "same_except [(0, 4), (8, 4)] m m2"
    using store32_same_except [OF m1] store32_same_except [OF m2] by (intro same_except_trans [of _ m m1 m2]) force+
  then show ?thesis
    using assms m1 m2 load32_store32 [OF m1] load32_store32_other [OF m2, of 0] load32_store32 [OF m2]
    by (simp add: dma_smoke_main_def)
qed

end
