(* ===== verification/Host_Window.thy ===== *)
theory Host_Window
  imports Host_Frontends Command_Processor
begin

text \<open>
  The shared window as the host runtime uses it: the bytes a submission leaves there, and the contract
  \<open>window_os\<close> of the operating system under which the calls of the runtime act on those bytes.
\<close>

section \<open>Staging a command\<close>

text \<open>The bytes of the window after the stores of a submission.\<close>

lemma loop_store32:
  assumes "loop (\<lambda>f m. store32 m (fst f) (snd f)) fs m = Some m'"
    and "distinct (map fst fs)" "\<And>f. f \<in> set fs \<Longrightarrow> 4 dvd fst f" "4 dvd a"
  shows "load32 m' a = (case map_of fs a of Some v \<Rightarrow> Some v | None \<Rightarrow> load32 m a)"
  using assms
proof (induction fs arbitrary: m)
  case (Cons f fs)
  obtain m1 where m1: "store32 m (fst f) (snd f) = Some m1" and r: "loop (\<lambda>f m. store32 m (fst f) (snd f)) fs m1 = Some m'"
    using Cons.prems(1) by (auto split: bind_splits)
  have IH: "load32 m' a = (case map_of fs a of Some v \<Rightarrow> Some v | None \<Rightarrow> load32 m1 a)"
    using Cons.prems by (intro Cons.IH [OF r]) auto
  show ?case
  proof (cases "a = fst f")
    case True
    then have "map_of fs a = None" using Cons.prems(2) by (simp add: map_of_eq_None_iff)
    then show ?thesis using IH True load32_store32 [OF m1] by (simp add: map_of_Cons_code prod.case_eq_if split: prod.splits)
  next
    case False
    have "4 dvd fst f" using Cons.prems(3) by simp
    then have "a + 4 \<le> fst f \<or> fst f + 4 \<le> a" using False Cons.prems(4)
      by (metis dvd_def mult_Suc_right not_less_eq_eq add.commute nat_le_linear linorder_neqE_nat Suc_leI mult_le_mono2)
    then have "load32 m1 a = load32 m a" by (rule load32_store32_other [OF m1])
    then show ?thesis using IH False by (cases f) (simp split: option.splits)
  qed
qed simp

lemma loop_store32_total:
  assumes "\<And>f. f \<in> set fs \<Longrightarrow> fst f + 4 \<le> length m"
  shows "\<exists>m'. loop (\<lambda>f m. store32 m (fst f) (snd f)) fs m = Some m' \<and> length m' = length m"
  using assms
proof (induction fs arbitrary: m)
  case (Cons f fs)
  obtain m1 where m1: "store32 m (fst f) (snd f) = Some m1" using store32_in_range [of "fst f" m "snd f"] Cons.prems by auto
  then show ?case using Cons.IH [of m1] Cons.prems store32_length [OF m1] by auto
qed simp

lemma loop_store32_same_except:
  assumes "loop (\<lambda>f m. store32 m (fst f) (snd f)) fs m = Some m'" "\<And>f. f \<in> set fs \<Longrightarrow> fst f + 4 \<le> n"
  shows "same_except [(0, n)] m m'"
  using assms
proof (induction fs arbitrary: m)
  case (Cons f fs)
  obtain m1 where m1: "store32 m (fst f) (snd f) = Some m1" and r: "loop (\<lambda>f m. store32 m (fst f) (snd f)) fs m1 = Some m'"
    using Cons.prems(1) by (auto split: bind_splits)
  have "same_except [(0, n)] m m1" using store32_same_except [OF m1, of 0 n] Cons.prems(2) by simp
  then show ?case using Cons.IH [OF r] Cons.prems(2) same_except_trans by auto
qed simp

definition submitted :: "u32 \<Rightarrow> u32 \<Rightarrow> opennpux_coral_command" where
  "submitted opcode count = \<lparr> cmd_magic = COMMAND_MAGIC, cmd_abi_version = COMMAND_ABI_VERSION, cmd_struct_size = 64,
     cmd_opcode = opcode, cmd_sequence = 1, cmd_flags = 0, cmd_element_count = count, cmd_reserved0 = 0,
     cmd_input0_offset = INPUT0_OFFSET, cmd_input1_offset = INPUT1_OFFSET, cmd_output_offset = OUTPUT_OFFSET,
     cmd_output_size = count * 4, cmd_status = COMMAND_PENDING, cmd_error_code = 0, cmd_completed_elements = 0,
     cmd_accelerator_cycles = 0 \<rparr>"

definition stage_element_mem :: "u32 list \<Rightarrow> u32 list \<Rightarrow> nat \<Rightarrow> bytes \<Rightarrow> bytes option" where
  "stage_element_mem xs ys i m =
     do { m \<leftarrow> store32 m (0x100 + 4 * i) (xs ! i); m \<leftarrow> store32 m (0x500 + 4 * i) (ys ! i); store32 m (0x900 + 4 * i) 0 }"

definition stage_mem :: "u32 \<Rightarrow> u32 \<Rightarrow> u32 list \<Rightarrow> u32 list \<Rightarrow> bytes \<Rightarrow> bytes option" where
  "stage_mem opcode count xs ys m =
     do { m \<leftarrow> store_bytes m 0 (replicate 64 0);
          m \<leftarrow> loop (stage_element_mem xs ys) [0..<unat count] m;
          loop (\<lambda>f m. store32 m (fst f) (snd f)) (command_stores opcode count) m }"

lemma stage_element_step:
  assumes "i < 256" "0x900 + 4 * (i + 1) \<le> length m"
  shows "\<exists>m'. stage_element_mem xs ys i m = Some m' \<and> same_except [(0x100 + 4 * i, 4), (0x500 + 4 * i, 4), (0x900 + 4 * i, 4)] m m' \<and>
    load32 m' (0x100 + 4 * i) = Some (xs ! i) \<and> load32 m' (0x500 + 4 * i) = Some (ys ! i)"
proof -
  let ?R = "[(0x100 + 4 * i, 4), (0x500 + 4 * i, 4), (0x900 + 4 * i, 4)]"
  obtain m1 where m1: "store32 m (0x100 + 4 * i) (xs ! i) = Some m1" using store32_in_range [of "0x100 + 4 * i" m] assms by fastforce
  obtain m2 where m2: "store32 m1 (0x500 + 4 * i) (ys ! i) = Some m2"
    using store32_in_range [of "0x500 + 4 * i" m1] store32_length [OF m1] assms by fastforce
  obtain m3 where m3: "store32 m2 (0x900 + 4 * i) 0 = Some m3"
    using store32_in_range [of "0x900 + 4 * i" m2] store32_length [OF m1] store32_length [OF m2] assms by fastforce
  have "same_except ?R m m1" "same_except ?R m1 m2" "same_except ?R m2 m3"
    using store32_same_except [OF m1, of "0x100 + 4 * i" 4 ?R] store32_same_except [OF m2, of "0x500 + 4 * i" 4 ?R]
      store32_same_except [OF m3, of "0x900 + 4 * i" 4 ?R] by simp_all
  then have "same_except ?R m m3" by (meson same_except_trans)
  moreover have "load32 m3 (0x100 + 4 * i) = Some (xs ! i)" "load32 m3 (0x500 + 4 * i) = Some (ys ! i)"
    using load32_store32 [OF m1] load32_store32_other [OF m2, of "0x100 + 4 * i"] load32_store32_other [OF m3, of "0x100 + 4 * i"]
      load32_store32 [OF m2] load32_store32_other [OF m3, of "0x500 + 4 * i"] assms(1) by simp_all
  ultimately show ?thesis using m1 m2 m3 by (simp add: stage_element_mem_def)
qed

lemma stage_elements:
  assumes "n \<le> 256" "0x900 + 4 * n \<le> length m"
  shows "\<exists>m'. loop (stage_element_mem xs ys) [0..<n] m = Some m' \<and> length m' = length m \<and>
    (\<forall>a. a + 4 \<le> 0x100 \<longrightarrow> load32 m' a = load32 m a) \<and>
    (\<forall>i < n. load32 m' (0x100 + 4 * i) = Some (xs ! i) \<and> load32 m' (0x500 + 4 * i) = Some (ys ! i))"
  using assms
proof (induction n)
  case (Suc n)
  then obtain m1 where m1: "loop (stage_element_mem xs ys) [0..<n] m = Some m1" "length m1 = length m"
    "\<forall>a. a + 4 \<le> 0x100 \<longrightarrow> load32 m1 a = load32 m a"
    "\<forall>i < n. load32 m1 (0x100 + 4 * i) = Some (xs ! i) \<and> load32 m1 (0x500 + 4 * i) = Some (ys ! i)" by auto
  obtain m2 where m2: "stage_element_mem xs ys n m1 = Some m2"
    "same_except [(0x100 + 4 * n, 4), (0x500 + 4 * n, 4), (0x900 + 4 * n, 4)] m1 m2"
    "load32 m2 (0x100 + 4 * n) = Some (xs ! n)" "load32 m2 (0x500 + 4 * n) = Some (ys ! n)"
    using stage_element_step [of n m1 xs ys] Suc.prems m1(2) by auto
  note k = same_except_load32 [OF m2(2)]
  have run: "loop (stage_element_mem xs ys) [0..<Suc n] m = Some m2" using m1(1) m2(1) by (simp add: loop_append)
  have low: "load32 m2 a = load32 m a" if "a + 4 \<le> 0x100" for a using k [of a] m1(3) that by simp
  have elems: "load32 m2 (0x100 + 4 * i) = Some (xs ! i) \<and> load32 m2 (0x500 + 4 * i) = Some (ys ! i)" if "i < Suc n" for i
  proof (cases "i = n")
    case False
    then show ?thesis using k [of "0x100 + 4 * i"] k [of "0x500 + 4 * i"] m1(4) that Suc.prems(1) by auto
  qed (use m2(3,4) in simp)
  show ?case using run low elems same_except_length [OF m2(2)] m1(2) by auto
qed simp

lemma load32_zero: "a + 4 \<le> 64 \<Longrightarrow> store_bytes m 0 (replicate 64 0) = Some m' \<Longrightarrow> load32 m' a = Some 0"
proof -
  assume a: "a + 4 \<le> 64" and m: "store_bytes m 0 (replicate 64 0) = Some m'"
  have "m' = replicate 64 0 @ drop 64 m" "64 \<le> length m'" using m by (auto simp: store_bytes_def split: if_splits)
  then have "take 4 (drop a m') = replicate 4 0" "a + 4 \<le> length m'" using a by auto
  moreover have "le_word (replicate 4 0 :: bytes) = (0 :: u32)" by (simp add: numeral_eq_Suc)
  ultimately show ?thesis by (simp add: load32_def load_bytes_def)
qed

lemma command_stores_offsets:
  "f \<in> set (command_stores opcode count) \<Longrightarrow> 4 dvd fst f \<and> fst f + 4 \<le> 64"
  by (auto simp: command_stores_def abi_defs)

lemma stage_mem_command:
  assumes "unat count \<le> 256" "0x900 + 4 * unat count \<le> length m"
  shows "\<exists>m'. stage_mem opcode count xs ys m = Some m' \<and> length m' = length m \<and> command_at m' (submitted opcode count) \<and>
    (\<forall>i < unat count. load32 m' (0x100 + 4 * i) = Some (xs ! i) \<and> load32 m' (0x500 + 4 * i) = Some (ys ! i))"
proof -
  obtain m1 where m1: "store_bytes m 0 (replicate 64 0) = Some m1" "length m1 = length m"
    using ram.wr_in_range [of 0 "replicate 64 0" m] assms(2) by auto
  obtain m2 where m2: "loop (stage_element_mem xs ys) [0..<unat count] m1 = Some m2" "length m2 = length m"
    "\<forall>a. a + 4 \<le> 0x100 \<longrightarrow> load32 m2 a = load32 m1 a"
    "\<forall>i < unat count. load32 m2 (0x100 + 4 * i) = Some (xs ! i) \<and> load32 m2 (0x500 + 4 * i) = Some (ys ! i)"
    using stage_elements [of "unat count" m1 xs ys] assms m1(2) by auto
  obtain m3 where m3: "loop (\<lambda>f m. store32 m (fst f) (snd f)) (command_stores opcode count) m2 = Some m3" "length m3 = length m"
    using loop_store32_total [of "command_stores opcode count" m2] command_stores_offsets [of _ opcode count] m2(2) assms(2)
    by fastforce
  have dist: "distinct (map fst (command_stores opcode count))" by (simp add: command_stores_def abi_defs)
  have ld: "load32 m3 a = (case map_of (command_stores opcode count) a of Some v \<Rightarrow> Some v | None \<Rightarrow> Some 0)"
    if "4 dvd a" "a + 4 \<le> 64" for a
    using loop_store32 [OF m3(1) dist _ that(1)] command_stores_offsets m2(3) load32_zero [OF that(2) m1(1)] that(2)
    by (simp split: option.splits)
  have "load_words m3 0 16 = Some (map (\<lambda>j. command_words (submitted opcode count) ! j) [0..<16])"
  proof (rule load_words_map)
    fix j :: nat assume "j < 16"
    then have "j = 0 \<or> j = 1 \<or> j = 2 \<or> j = 3 \<or> j = 4 \<or> j = 5 \<or> j = 6 \<or> j = 7 \<or> j = 8 \<or> j = 9 \<or> j = 10 \<or>
      j = 11 \<or> j = 12 \<or> j = 13 \<or> j = 14 \<or> j = 15" by presburger
    then show "load32 m3 (0 + 4 * j) = Some (command_words (submitted opcode count) ! j)"
      using ld [of "4 * j"] by (auto simp: command_stores_def command_words_def submitted_def abi_defs)
  qed
  moreover have "map (\<lambda>j. command_words (submitted opcode count) ! j) [0..<16] = command_words (submitted opcode count)"
  proof -
    have "length (command_words (submitted opcode count)) = 16" by (simp add: command_words_def)
    then show ?thesis using map_nth [of "command_words (submitted opcode count)"] by metis
  qed
  ultimately have "command_at m3 (submitted opcode count)" by (simp add: command_at_def COMMAND_OFFSET_def)
  moreover have "load32 m3 a = load32 m2 a" if "64 \<le> a" for a
    using same_except_load32 [OF loop_store32_same_except [OF m3(1), of 64], of a] command_stores_offsets that by auto
  ultimately show ?thesis using m1(1) m2 m3 by (auto simp: stage_mem_def)
qed

section \<open>The contract of the operating system\<close>

text \<open>
  What the runtime relies on when the driver serves it: the information request answers with the size
  of the window, the window can be mapped, and a mapped window is a byte store of that size.
\<close>

locale window_os =
  fixes OS :: "'w host_os" and dev :: opennpux_coral_device and inv :: "'w \<Rightarrow> bool" and win :: "'w \<Rightarrow> bytes"
  assumes driver: "dv_transport dev = TRANSPORT_DRIVER"
    and feature: "dv_features dev AND FEATURE_SHARED_MMAP \<noteq> 0"
    and info: "inv w \<Longrightarrow> \<exists>i w'. os_ioctl OS (dv_fd dev) (GET_INFO True) w = Some (0, Info_reply i, w') \<and> inv w' \<and>
      win w' = win w \<and> unat (ii_shared_size i) = length (win w)"
    and mmap: "inv w \<Longrightarrow> sz \<noteq> 0 \<Longrightarrow> unat sz \<le> length (win w) \<Longrightarrow> \<exists>r w'. os_mmap OS (dv_fd dev) sz 0 w = (r, w') \<and> 0 \<le> r \<and> inv w' \<and> win w' = win w"
    and munmap: "inv w \<Longrightarrow> inv (os_munmap OS (dv_fd dev) sz a w) \<and> win (os_munmap OS (dv_fd dev) sz a w) = win w"
    and load: "inv w \<Longrightarrow> load_bytes (win w) (unat a) n = Some bs \<Longrightarrow> os_load OS (dv_fd dev) a n w = Some (bs, w)"
    and store: "inv w \<Longrightarrow> store_bytes (win w) (unat a) bs = Some m \<Longrightarrow>
      \<exists>w'. os_store OS (dv_fd dev) a bs w = Some w' \<and> inv w' \<and> win w' = m"
    and clock: "inv w \<Longrightarrow> inv (snd (os_clock OS w)) \<and> win (snd (os_clock OS w)) = win w"
begin

text \<open>A state that keeps the contract and the window.\<close>

definition keeps :: "'w host \<Rightarrow> bytes \<Rightarrow> bool" where
  "keeps s m \<longleftrightarrow> inv (world s) \<and> win (world s) = m"

lemma keeps_errno [simp]: "keeps (s\<lparr> errno := e \<rparr>) m = keeps s m"
  by (simp add: keeps_def)

lemma info_answers:
  assumes "keeps s m"
  shows "\<exists>i s'. get_info_driver OS dev s = Some (i, s') \<and> keeps s' m \<and> errno s' = errno s \<and> unat (in_shared_size i) = length m"
  using info [of "world s"] assms
  by (auto simp: get_info_driver_def sys_ioctl_def call_result_def keeps_def)

lemma read_window_size:
  assumes "keeps s m"
  shows "\<exists>v s'. opennpux_coral_read_reg OS dev (ucast SHARED_SIZE) s = Some (v, s') \<and> keeps s' m \<and> unat v = length m"
    and "\<exists>v s'. opennpux_coral_read_reg OS dev (ucast SHARED_BASE) s = Some (v, s') \<and> keeps s' m"
  using info_answers [OF assms]
  by (auto simp: opennpux_coral_read_reg_def driver info_register_def abi_defs)

lemma open_window:
  assumes "keeps s m" "unat min_size \<le> length m" "m \<noteq> []"
  shows "\<exists>sw s'. opennpux_coral_open_shared_window OS dev min_size s = Some (0, sw, s') \<and> keeps s' m \<and>
    sw_offset sw = 0 \<and> unat (sw_size sw) = length m"
proof -
  obtain org s1 where s1: "opennpux_coral_read_reg OS dev (ucast SHARED_BASE) s = Some (org, s1)" "keeps s1 m"
    using read_window_size(2) [OF assms(1)] by blast
  obtain n s2 where s2: "opennpux_coral_read_reg OS dev (ucast SHARED_SIZE) s1 = Some (n, s2)" "keeps s2 m" "unat n = length m"
    using read_window_size(1) [OF s1(2)] by blast
  obtain r w where "os_mmap OS (dv_fd dev) (ucast n) 0 (world s2) = (r, w)" "0 \<le> r" "inv w" "win w = m"
    using mmap [of "world s2" "ucast n"] s2(2,3) assms(3) by (auto simp: keeps_def word_unat_eq_iff)
  then show ?thesis
    using s1(1) s2(1,3) assms(2) driver feature
    by (simp add: opennpux_coral_open_shared_window_def word_less_nat_alt sys_mmap_def call_result_def no_window_def keeps_def Let_def)
qed

lemma close_window: "keeps s m \<Longrightarrow> keeps (opennpux_coral_close_shared_window OS dev sw s) m"
  using munmap by (simp add: opennpux_coral_close_shared_window_def sys_munmap_def keeps_def)

lemma window_load32: "keeps s m \<Longrightarrow> load32 m (unat a) = Some v \<Longrightarrow> mapped_load32 OS (dv_fd dev) a s = Some (v, s)"
  using load [of "world s" a 4] by (auto simp: mapped_load32_def load32_def keeps_def)

lemma window_store:
  "keeps s m \<Longrightarrow> store_bytes m (unat a) bs = Some m' \<Longrightarrow> \<exists>s'. mapped_store OS (dv_fd dev) a bs s = Some s' \<and> keeps s' m'"
  using store [of "world s" a bs m'] by (auto simp: mapped_store_def keeps_def)

lemma window_store32:
  "keeps s m \<Longrightarrow> store32 m (unat a) v = Some m' \<Longrightarrow> \<exists>s'. mapped_store32 OS (dv_fd dev) a v s = Some s' \<and> keeps s' m'"
  using window_store by (simp add: mapped_store32_def store32_def)

lemma check_access:
  "opennpux_coral_check_shared_u32_access n offset s =
     (if \<not> 4 dvd unat offset then (- 1, s\<lparr> errno := EINVAL \<rparr>)
      else if unat offset + 4 \<le> unat n then (0, s) else (- 1, s\<lparr> errno := ERANGE \<rparr>))"
proof (cases "0xffffffff < offset")
  case True
  then show ?thesis using u32_lt [of n] by (auto simp: opennpux_coral_check_shared_u32_access_def u64_align4 word_less_nat_alt)
next
  case False
  then have "unat (offset + 4) = unat offset + 4" by (subst unat_add_nowrap) (simp_all add: word_less_nat_alt)
  then show ?thesis using False by (auto simp: opennpux_coral_check_shared_u32_access_def u64_align4 word_less_nat_alt)
qed

text \<open>A loop of the runtime that follows a loop on the bytes of the window.\<close>

lemma loop_follows:
  assumes "loop g xs m = Some m'" "keeps s m"
    and "\<And>i s m m1. i \<in> set xs \<Longrightarrow> keeps s m \<Longrightarrow> g i m = Some m1 \<Longrightarrow> \<exists>s'. f i s = Some s' \<and> keeps s' m1"
  shows "\<exists>s'. loop f xs s = Some s' \<and> keeps s' m'"
  using assms
proof (induction xs arbitrary: s m)
  case (Cons x xs)
  obtain m1 where m1: "g x m = Some m1" "loop g xs m1 = Some m'" using Cons.prems(1) by (auto split: bind_splits)
  obtain s1 where s1: "f x s = Some s1" "keeps s1 m1" using Cons.prems(3) [of x s m m1] Cons.prems(2) m1(1) by auto
  have "\<exists>s'. loop f xs s1 = Some s' \<and> keeps s' m'"
    using Cons.prems(3) by (intro Cons.IH [OF m1(2) s1(2)]) simp
  then show ?case using s1(1) by simp
qed simp

end

end
