(* ===== verification/Host_Submit.thy ===== *)
theory Host_Submit
  imports Host_Window
begin

text \<open>
  Submitting a command through the runtime, against the contract of the operating system in
  \<open>Host_Window\<close>: what the submission stages, when it reports success, and the contract of an
  asynchronous run through the driver.
\<close>

section \<open>A submission\<close>

context window_os
begin

lemma stage_follows:
  assumes "keeps s m" "stage_mem opcode count xs ys m = Some m'" "unat count \<le> 256"
  shows "\<exists>s1 s2 s'. mapped_store OS (dv_fd dev) (of_nat COMMAND_OFFSET) (replicate 64 0) s = Some s1 \<and>
    loop (stage_element OS (dv_fd dev) 0 xs ys) [0..<unat count] s1 = Some s2 \<and>
    loop (store_field OS (dv_fd dev) (of_nat COMMAND_OFFSET)) (command_stores opcode count) s2 = Some s' \<and> keeps s' m'"
proof -
  obtain m1 m2 where m1: "store_bytes m 0 (replicate 64 0) = Some m1"
    and m2: "loop (stage_element_mem xs ys) [0..<unat count] m1 = Some m2"
    and m3: "loop (\<lambda>f m. store32 m (fst f) (snd f)) (command_stores opcode count) m2 = Some m'"
    using assms(2) by (auto simp: stage_mem_def split: bind_splits)
  obtain s1 where s1: "mapped_store OS (dv_fd dev) (of_nat COMMAND_OFFSET) (replicate 64 0) s = Some s1" "keeps s1 m1"
    using window_store [OF assms(1), of "of_nat COMMAND_OFFSET" "replicate 64 0" m1] m1 by (auto simp: COMMAND_OFFSET_def)
  have el: "\<exists>s'. stage_element OS (dv_fd dev) 0 xs ys i s = Some s' \<and> keeps s' n'"
    if i: "i \<in> set [0..<unat count]" and k: "keeps s n" and e: "stage_element_mem xs ys i n = Some n'" for i s n n'
  proof -
    obtain n1 n2 where n1: "store32 n (0x100 + 4 * i) (xs ! i) = Some n1"
      and n2: "store32 n1 (0x500 + 4 * i) (ys ! i) = Some n2" and n3: "store32 n2 (0x900 + 4 * i) 0 = Some n'"
      using e by (auto simp: stage_element_mem_def split: bind_splits)
    have u: "unat (0 + ucast (off :: u32) + 4 * of_nat i :: u64) = unat off + 4 * i" if "unat off < 0x1000" for off
      using i assms(3) that by (simp add: unat_word_ariths unat_of_nat)
    have offs: "unat (0 + ucast INPUT0_OFFSET + 4 * of_nat i :: u64) = 0x100 + 4 * i"
      "unat (0 + ucast INPUT1_OFFSET + 4 * of_nat i :: u64) = 0x500 + 4 * i"
      "unat (0 + ucast OUTPUT_OFFSET + 4 * of_nat i :: u64) = 0x900 + 4 * i"
      using u [of INPUT0_OFFSET] u [of INPUT1_OFFSET] u [of OUTPUT_OFFSET] by (simp_all add: abi_defs)
    obtain t1 where t1: "mapped_store32 OS (dv_fd dev) (0 + ucast INPUT0_OFFSET + 4 * of_nat i) (xs ! i) s = Some t1" "keeps t1 n1"
      using window_store32 [OF k, of "0 + ucast INPUT0_OFFSET + 4 * of_nat i"] n1 offs by auto
    obtain t2 where t2: "mapped_store32 OS (dv_fd dev) (0 + ucast INPUT1_OFFSET + 4 * of_nat i) (ys ! i) t1 = Some t2" "keeps t2 n2"
      using window_store32 [OF t1(2), of "0 + ucast INPUT1_OFFSET + 4 * of_nat i"] n2 offs by auto
    obtain t3 where t3: "mapped_store32 OS (dv_fd dev) (0 + ucast OUTPUT_OFFSET + 4 * of_nat i) 0 t2 = Some t3" "keeps t3 n'"
      using window_store32 [OF t2(2), of "0 + ucast OUTPUT_OFFSET + 4 * of_nat i"] n3 offs by auto
    show ?thesis using t1(1) t2(1) t3 by (simp only: stage_element_def bind.bind_lunit simp_thms) blast
  qed
  obtain s2 where s2: "loop (stage_element OS (dv_fd dev) 0 xs ys) [0..<unat count] s1 = Some s2" "keeps s2 m2"
  proof -
    have "\<exists>s'. loop (stage_element OS (dv_fd dev) 0 xs ys) [0..<unat count] s1 = Some s' \<and> keeps s' m2"
      by (rule loop_follows [OF m2 s1(2)]) (rule el)
    then show ?thesis using that by blast
  qed
  have fd: "\<exists>s'. store_field OS (dv_fd dev) (of_nat COMMAND_OFFSET) f s = Some s' \<and> keeps s' n'"
    if f: "f \<in> set (command_stores opcode count)" and k: "keeps s n" and e: "store32 n (fst f) (snd f) = Some n'" for f s n n'
  proof -
    have "unat (of_nat COMMAND_OFFSET + of_nat (fst f) :: u64) = fst f"
      using command_stores_offsets [OF f] by (simp add: COMMAND_OFFSET_def unat_of_nat)
    then show ?thesis
      using window_store32 [OF k, of "of_nat COMMAND_OFFSET + of_nat (fst f)"] e by (simp add: store_field_def)
  qed
  obtain s' where "loop (store_field OS (dv_fd dev) (of_nat COMMAND_OFFSET)) (command_stores opcode count) s2 = Some s'" "keeps s' m'"
  proof -
    have "\<exists>s'. loop (store_field OS (dv_fd dev) (of_nat COMMAND_OFFSET)) (command_stores opcode count) s2 = Some s' \<and> keeps s' m'"
      by (rule loop_follows [OF m3 s2(2)]) (rule fd)
    then show ?thesis using that by blast
  qed
  then show ?thesis using s1(1) s2(1) by blast
qed

lemma check_follows:
  assumes "keeps s m" "n \<le> 256" "\<And>i. i < n \<Longrightarrow> load32 m (0x900 + 4 * i) = Some (z i)"
  shows "loop (check_element OS (dv_fd dev) 0 xs ys) [0..<n] (v, c, s) =
    Some (v \<and> (\<forall>i < n. z i = xs ! i + ys ! i), c + (\<Sum>i\<leftarrow>[0..<n]. z i), s)"
  using assms(2,3)
proof (induction n)
  case (Suc n)
  have "unat (0 + ucast OUTPUT_OFFSET + 4 * of_nat n :: u64) = 0x900 + 4 * n"
    using Suc.prems(1) by (simp add: OUTPUT_OFFSET_def unat_word_ariths unat_of_nat)
  then have ld: "mapped_load32 OS (dv_fd dev) (0 + ucast OUTPUT_OFFSET + 4 * of_nat n) s = Some (z n, s)"
    using window_load32 [OF assms(1)] Suc.prems(2) [of n] by simp
  have ce: "check_element OS (dv_fd dev) 0 xs ys n (v', c', s) = Some (v' \<and> z n = xs ! n + ys ! n, c' + z n, s)" for v' c'
    using ld by (simp add: check_element_def)
  have "loop (check_element OS (dv_fd dev) 0 xs ys) [0..<n] (v, c, s) =
    Some (v \<and> (\<forall>i < n. z i = xs ! i + ys ! i), c + (\<Sum>i\<leftarrow>[0..<n]. z i), s)"
    using Suc by auto
  then show ?case by (auto simp: loop_append ce less_Suc_eq add.assoc)
qed simp

text \<open>
  A submission succeeds exactly when the run does, the command reports completion without error and the
  output in the window is the element-wise sum with the expected checksum. \<open>Q\<close> is what is known of the
  result of the run, the error it sets and the window after it; the error of a failed run is reported.
\<close>

lemma submit_exact:
  assumes k: "keeps s m" and len: "0x900 + 4 * unat count \<le> length m" "length m < 2 ^ 32"
    and count: "count \<noteq> 0" "unat count \<le> 256" "length xs = unat count" "length ys = unat count"
    and op: "opcode = OPCODE_VECTOR_ADD_U32 \<or> opcode = OPCODE_VECTOR_ADD_CUSTOM_U32"
    and staged: "stage_mem opcode count xs ys m = Some m1"
    and run: "\<And>s1. keeps s1 m1 \<Longrightarrow> \<exists>rr st s2 m2. opennpux_coral_run OS dev entry polls 0 s1 = Some (rr, st, s2) \<and>
      keeps s2 m2 \<and> length m2 = length m \<and> Q rr st (errno s2) m2"
  shows "\<exists>r res s' rr st e m2. submit_vector_add OS dev entry opcode xs ys count expected polls s = Some (r, res, s') \<and>
      keeps s' m2 \<and> length m2 = length m \<and> Q rr st e m2 \<and> (rr \<noteq> 0 \<longrightarrow> r = - 1 \<and> errno s' = e) \<and>
      load32 m2 f_status = Some (va_status res) \<and> load32 m2 f_error_code = Some (va_error_code res) \<and>
      load32 m2 f_completed_elements = Some (va_completed_elements res) \<and>
      (r = 0 \<longleftrightarrow> rr = 0 \<and> st AND 1 \<noteq> 0 \<and> va_status res = COMMAND_COMPLETE \<and> va_error_code res = COMMAND_ERROR_NONE \<and>
        va_completed_elements res = count \<and> load_words m2 0x900 (unat count) = Some (map2 (+) xs ys) \<and>
        sum_list (map2 (+) xs ys) = expected)"
proof -
  have "unat (ucast OUTPUT_OFFSET + ucast count * 4 :: u64) \<le> length m" "m \<noteq> []"
    using len count(2) by (auto simp: OUTPUT_OFFSET_def unat_word_ariths)
  then obtain sw s0 where s0: "opennpux_coral_open_shared_window OS dev (ucast OUTPUT_OFFSET + ucast count * 4) s = Some (0, sw, s0)"
    "keeps s0 m" "sw_offset sw = 0"
    using open_window [OF k] by blast
  obtain t1 t2 s1 where t: "mapped_store OS (dv_fd dev) (of_nat COMMAND_OFFSET) (replicate 64 0) s0 = Some t1"
    "loop (stage_element OS (dv_fd dev) 0 xs ys) [0..<unat count] t1 = Some t2"
    "loop (store_field OS (dv_fd dev) (of_nat COMMAND_OFFSET)) (command_stores opcode count) t2 = Some s1" "keeps s1 m1"
    using stage_follows [OF s0(2) staged count(2)] by blast
  obtain rr st s2 m2 where s2: "opennpux_coral_run OS dev entry polls 0 s1 = Some (rr, st, s2)" "keeps s2 m2"
    "length m2 = length m" "Q rr st (errno s2) m2" using run [OF t(4)] by blast
  have "\<exists>v. load32 m2 f = Some v" if "f + 4 \<le> 64" for f
    using that s2(3) len(1) by (simp add: load32_def load_bytes_def)
  from this [of f_status] this [of f_error_code] this [of f_completed_elements] this [of f_accelerator_cycles]
  obtain cst err fin cyc where fields: "load32 m2 f_status = Some cst" "load32 m2 f_error_code = Some err"
    "load32 m2 f_completed_elements = Some fin" "load32 m2 f_accelerator_cycles = Some cyc" by (auto simp: abi_defs)
  have "0x900 + 4 * unat count \<le> length m2" using s2(3) len(1) by simp
  then obtain zs where zs: "load_words m2 0x900 (unat count) = Some zs" by (meson load_words_in_range)
  note lz = load_words_length [OF zs]
  have ld: "mapped_load32 OS (dv_fd dev) (of_nat COMMAND_OFFSET + of_nat f) s2 = Some (v, s2)"
    if "load32 m2 f = Some v" "f < 64" for f v
    using window_load32 [OF s2(2), of "of_nat COMMAND_OFFSET + of_nat f"] that by (simp add: COMMAND_OFFSET_def unat_of_nat)
  have lds: "mapped_load32 OS (dv_fd dev) (of_nat COMMAND_OFFSET + of_nat f_status) s2 = Some (cst, s2)"
    "mapped_load32 OS (dv_fd dev) (of_nat COMMAND_OFFSET + of_nat f_error_code) s2 = Some (err, s2)"
    "mapped_load32 OS (dv_fd dev) (of_nat COMMAND_OFFSET + of_nat f_completed_elements) s2 = Some (fin, s2)"
    "mapped_load32 OS (dv_fd dev) (of_nat COMMAND_OFFSET + of_nat f_accelerator_cycles) s2 = Some (cyc, s2)"
    by (rule ld, rule fields, simp add: abi_defs)+
  have "map (\<lambda>i. zs ! i) [0..<unat count] = zs" using lz map_nth [of zs] by simp
  then have chk: "loop (check_element OS (dv_fd dev) 0 xs ys) [0..<unat count] (v, 0, s2) =
      Some (v \<and> (\<forall>i < unat count. zs ! i = xs ! i + ys ! i), sum_list zs, s2)" for v
    using check_follows [OF s2(2) count(2), of "\<lambda>i. zs ! i" xs ys v 0] load_words_nth [OF zs] by simp
  have sums: "(\<forall>i < unat count. zs ! i = xs ! i + ys ! i) \<longleftrightarrow> zs = map2 (+) xs ys"
    using lz count(3,4) by (auto simp: list_eq_iff_nth_eq)
  have guard: "\<not> (count = 0 \<or> TENSOR_MAX_ELEMENTS < count \<or>
      (opcode \<noteq> OPCODE_VECTOR_ADD_U32 \<and> opcode \<noteq> OPCODE_VECTOR_ADD_CUSTOM_U32))"
    using count op by (auto simp: TENSOR_MAX_ELEMENTS_def word_less_nat_alt)
  let ?s' = "opennpux_coral_close_shared_window OS dev sw s2"
  let ?res = "(new_vector_add_result count opcode)\<lparr> va_status := cst, va_error_code := err,
        va_completed_elements := fin, va_accelerator_cycles := cyc, va_checksum := sum_list zs \<rparr>"
  have cl: "keeps ?s' m2" using close_window [OF s2(2)] .
  have "\<exists>r s'. submit_vector_add OS dev entry opcode xs ys count expected polls s = Some (r, ?res, s') \<and> keeps s' m2 \<and>
      (rr \<noteq> 0 \<longrightarrow> r = - 1 \<and> errno s' = errno s2) \<and> (r = 0 \<longleftrightarrow> rr = 0 \<and> st AND 1 \<noteq> 0 \<and> cst = COMMAND_COMPLETE \<and> err = COMMAND_ERROR_NONE \<and> fin = count \<and>
        zs = map2 (+) xs ys \<and> sum_list zs = expected)"
    using s0(1,3) t(1-3) s2(1) lds chk guard cl sums
    by (auto simp: submit_vector_add_def Let_def)
  then obtain r s' where r: "submit_vector_add OS dev entry opcode xs ys count expected polls s = Some (r, ?res, s')"
    "keeps s' m2" "rr \<noteq> 0 \<longrightarrow> r = - 1 \<and> errno s' = errno s2" "r = 0 \<longleftrightarrow> rr = 0 \<and> st AND 1 \<noteq> 0 \<and> cst = COMMAND_COMPLETE \<and> err = COMMAND_ERROR_NONE \<and> fin = count \<and>
        zs = map2 (+) xs ys \<and> sum_list zs = expected" by blast
  have "r = 0 \<longleftrightarrow> rr = 0 \<and> st AND 1 \<noteq> 0 \<and> cst = COMMAND_COMPLETE \<and> err = COMMAND_ERROR_NONE \<and> fin = count \<and>
        load_words m2 0x900 (unat count) = Some (map2 (+) xs ys) \<and> sum_list (map2 (+) xs ys) = expected"
    using r(4) zs by auto
  then show ?thesis using r(1-3) s2(3,4) fields
    by (intro exI [of _ r] exI [of _ ?res] exI [of _ s'] exI [of _ rr] exI [of _ st] exI [of _ "errno s2"] exI [of _ m2]) simp
qed

end

section \<open>The contract of an asynchronous run\<close>

text \<open>
  The four calls of a run: a start, a poll, the query of the status and the reset. \<open>ends\<close> says whether the job
  started at an entry point ends before the poll gives up, \<open>exec\<close> is the window after a job that ends, or
  nothing if the job faults. A poll that gives up returns 0, and the reset stops the job; of the window only
  the size is known then.
\<close>

locale async_os = window_os +
  fixes ends :: "u32 \<Rightarrow> int \<Rightarrow> 'a \<Rightarrow> bool" and exec :: "u32 \<Rightarrow> 'a \<Rightarrow> bytes option"
  assumes async: "dv_features dev AND (FEATURE_ASYNC_START OR FEATURE_POLL_COMPLETION) = FEATURE_ASYNC_START OR FEATURE_POLL_COMPLETION"
    and job: "inv w \<Longrightarrow> 0 \<le> timeout \<Longrightarrow> \<exists>w1 n revents w2 i w3 w4.
      os_ioctl OS (dv_fd dev) (START (Some \<lparr> is_entry = entry, is_flags = 0 \<rparr>)) w = Some (0, No_reply, w1) \<and>
      os_poll OS (dv_fd dev) timeout w1 = Some (n, revents, w2) \<and>
      os_ioctl OS (dv_fd dev) (GET_INFO True) w2 = Some (0, Info_reply i, w3) \<and>
      os_ioctl OS (dv_fd dev) RESET w3 = Some (0, No_reply, w4) \<and> inv w4 \<and> length (win w4) = length (win w) \<and>
      (if ends entry timeout w then n = 1 \<and>
         (case exec entry w of None \<Rightarrow> revents = POLLERR \<and> ii_status i = 2
          | Some m \<Rightarrow> revents = POLLIN + POLLRDNORM \<and> ii_status i = 1 \<and> win w4 = m)
       else n = 0)"
begin

abbreviation (input) poll_time :: "u64 \<Rightarrow> int" where
  "poll_time polls \<equiv> if INT_MAX < polls then uint INT_MAX else uint polls"

definition ran :: "u32 \<Rightarrow> u64 \<Rightarrow> 'a \<Rightarrow> int \<Rightarrow> u32 \<Rightarrow> int \<Rightarrow> bytes \<Rightarrow> bool" where
  "ran entry polls w r st e m \<longleftrightarrow>
     (if ends entry (poll_time polls) w then
        (case exec entry w of None \<Rightarrow> r = - 1 \<and> st = 2 \<and> e = EIO | Some m' \<Rightarrow> r = 0 \<and> st = 1 \<and> m = m')
      else r = - 1 \<and> e = ETIMEDOUT)"

lemma run_executes:
  assumes "keeps s m"
  shows "\<exists>r st s' m'. opennpux_coral_run OS dev entry polls final s = Some (r, st, s') \<and> keeps s' m' \<and> length m' = length m \<and>
    ran entry polls (world s) r st (errno s') m'"
proof -
  let ?t = "poll_time polls"
  have t: "0 \<le> ?t" by simp
  have k: "inv (world s)" "win (world s) = m" using assms by (simp_all add: keeps_def)
  from job [OF k(1) t, of entry] obtain w1 n revents w2 i w3 w4 where
    w1: "os_ioctl OS (dv_fd dev) (START (Some \<lparr> is_entry = entry, is_flags = 0 \<rparr>)) (world s) = Some (0, No_reply, w1)"
    and w2: "os_poll OS (dv_fd dev) ?t w1 = Some (n, revents, w2)"
    and w3: "os_ioctl OS (dv_fd dev) (GET_INFO True) w2 = Some (0, Info_reply i, w3)"
    and w4: "os_ioctl OS (dv_fd dev) RESET w3 = Some (0, No_reply, w4)" "inv w4" "length (win w4) = length (win (world s))"
    and out: "if ends entry ?t (world s) then n = 1 \<and>
         (case exec entry (world s) of None \<Rightarrow> revents = POLLERR \<and> ii_status i = 2
          | Some m \<Rightarrow> revents = POLLIN + POLLRDNORM \<and> ii_status i = 1 \<and> win w4 = m)
       else n = 0" by blast
  have "0 \<le> n" using out by (auto split: if_splits)
  then have pr: "poll_retry OS (dv_fd dev) ?t (s\<lparr> world := w1 \<rparr>) = Some (n, revents, s\<lparr> world := w2 \<rparr>)"
    using w2 by (subst poll_retry.simps) (simp add: sys_poll_def call_result_def)
  have "\<exists>info. opennpux_coral_get_info OS dev (s\<lparr> world := w2 \<rparr>) = Some (info, s\<lparr> world := w3 \<rparr>) \<and>
      in_status info = ii_status i"
    using w3 driver by (simp add: opennpux_coral_get_info_def get_info_driver_def sys_ioctl_def call_result_def)
  then obtain info where gi: "opennpux_coral_get_info OS dev (s\<lparr> world := w2 \<rparr>) = Some (info, s\<lparr> world := w3 \<rparr>)"
    "in_status info = ii_status i" by blast
  let ?s' = "s\<lparr> world := w4 \<rparr>"
  have run: "opennpux_coral_run OS dev entry polls final s =
      (if n = 0 then Some (- 1, ii_status i, ?s'\<lparr> errno := ETIMEDOUT \<rparr>)
       else if revents AND (POLLERR OR 0x10 OR 0x20) \<noteq> 0 \<or> ii_status i AND 0x2 \<noteq> 0
       then Some (- 1, ii_status i, ?s'\<lparr> errno := EIO \<rparr>)
       else if ii_status i AND 0x1 = 0 then Some (- 1, ii_status i, ?s'\<lparr> errno := EIO \<rparr>)
       else Some (0, ii_status i, ?s'))"
    using w1 pr gi w4(1) async driver \<open>0 \<le> n\<close>
    by (simp add: opennpux_coral_run_def run_async_def sys_ioctl_def call_result_def Let_def)
  have ks: "keeps (?s'\<lparr> errno := e \<rparr>) (win w4)" "keeps ?s' (win w4)" for e using w4(2) by (simp_all add: keeps_def)
  show ?thesis
  proof (cases "ends entry ?t (world s)")
    case False
    then show ?thesis using run out ks w4(3) k(2)
      by (intro exI [of _ "- 1"] exI [of _ "ii_status i"] exI [of _ "?s'\<lparr> errno := ETIMEDOUT \<rparr>"] exI [of _ "win w4"])
        (simp add: ran_def)
  next
    case True
    show ?thesis
    proof (cases "exec entry (world s)")
      case None
      then show ?thesis using run out True ks w4(3) k(2)
        by (intro exI [of _ "- 1"] exI [of _ 2] exI [of _ "?s'\<lparr> errno := EIO \<rparr>"] exI [of _ "win w4"]) (simp add: ran_def)
    next
      case (Some m')
      then show ?thesis using run out True ks w4(3) k(2)
        by (intro exI [of _ 0] exI [of _ 1] exI [of _ ?s'] exI [of _ "win w4"]) (simp add: ran_def)
    qed
  qed
qed

text \<open>The submission of a job: the device runs it on the staged window.\<close>

lemma submission:
  assumes k: "keeps s m" and len: "0x900 + 4 * unat count \<le> length m" "length m < 2 ^ 32"
    and count: "count \<noteq> 0" "unat count \<le> 256" "length xs = unat count" "length ys = unat count"
    and op: "opcode = OPCODE_VECTOR_ADD_U32 \<or> opcode = OPCODE_VECTOR_ADD_CUSTOM_U32"
    and staged: "stage_mem opcode count xs ys m = Some m1"
  shows "\<exists>r res s' w m2. submit_vector_add OS dev entry opcode xs ys count expected polls s = Some (r, res, s') \<and>
      keeps s' m2 \<and> inv w \<and> win w = m1 \<and> length m2 = length m \<and>
      load32 m2 f_status = Some (va_status res) \<and> load32 m2 f_error_code = Some (va_error_code res) \<and>
      load32 m2 f_completed_elements = Some (va_completed_elements res) \<and>
      (if ends entry (poll_time polls) w then
         (case exec entry w of None \<Rightarrow> r = - 1 \<and> errno s' = EIO
          | Some m' \<Rightarrow> m2 = m' \<and> (r = 0 \<longleftrightarrow> load32 m' f_status = Some COMMAND_COMPLETE \<and>
              load32 m' f_error_code = Some COMMAND_ERROR_NONE \<and> load32 m' f_completed_elements = Some count \<and>
              load_words m' 0x900 (unat count) = Some (map2 (+) xs ys) \<and> sum_list (map2 (+) xs ys) = expected))
       else r = - 1 \<and> errno s' = ETIMEDOUT)"
proof -
  let ?Q = "\<lambda>rr st e m2. \<exists>w. inv w \<and> win w = m1 \<and> ran entry polls w rr st e m2"
  have l1: "length m1 = length m" using stage_mem_command [of count m opcode xs ys] count(2) len(1) staged by auto
  have run: "\<exists>rr st s2 m2. opennpux_coral_run OS dev entry polls 0 s1 = Some (rr, st, s2) \<and> keeps s2 m2 \<and>
      length m2 = length m \<and> ?Q rr st (errno s2) m2" if s1: "keeps s1 m1" for s1
    using run_executes [OF s1, of entry polls 0] s1 l1 by (fastforce simp: keeps_def)
  from submit_exact [OF k len count op staged run, of expected]
  obtain r res s' rr st e m2 w where r: "submit_vector_add OS dev entry opcode xs ys count expected polls s = Some (r, res, s')"
    "keeps s' m2" "length m2 = length m" "rr \<noteq> 0 \<longrightarrow> r = - 1 \<and> errno s' = e" "load32 m2 f_status = Some (va_status res)"
    "load32 m2 f_error_code = Some (va_error_code res)" "load32 m2 f_completed_elements = Some (va_completed_elements res)"
    "r = 0 \<longleftrightarrow> rr = 0 \<and> st AND 1 \<noteq> 0 \<and> va_status res = COMMAND_COMPLETE \<and> va_error_code res = COMMAND_ERROR_NONE \<and>
        va_completed_elements res = count \<and> load_words m2 0x900 (unat count) = Some (map2 (+) xs ys) \<and>
        sum_list (map2 (+) xs ys) = expected"
    and w: "inv w" "win w = m1" "ran entry polls w rr st e m2" by blast
  show ?thesis
    using r w by (intro exI [of _ r] exI [of _ res] exI [of _ s'] exI [of _ w] exI [of _ m2]) (auto simp: ran_def split: option.splits if_splits)
qed

end

end
