(* ===== verification/Host_Machine.thy ===== *)
theory Host_Machine
  imports Host_Submit
begin

text \<open>
  The runtime, the kernel driver and the firmware put together on a board, an argument of the machine. What
  runs on the accelerator is a program per entry point. It needs some number of observations of the status
  register before its end shows, or never ends; at its end it has turned the window into another one, or it
  faults; when it is stopped before its end, or faults, what it leaves in the window is arbitrary. The calls
  of the operating system are those of the driver model (\<open>Kernel_Driver\<close>) on the device file, and a read-only
  file system and a clock beside it.
\<close>

section \<open>Board and accelerator\<close>

type_synonym 'a firmware = "bytes \<Rightarrow> 'a \<Rightarrow> (int \<times> bytes \<times> 'a) option"

record 'a program =
  pg_main :: "'a firmware"
  pg_latency :: "bytes \<Rightarrow> 'a \<Rightarrow> nat option"
  pg_partial :: "bytes \<Rightarrow> 'a \<Rightarrow> bytes \<times> 'a"
  pg_transfers :: "bytes \<Rightarrow> 'a \<Rightarrow> u32"

text \<open>
  \<open>bd_read_limit\<close> is the largest number of bytes one \<open>read\<close> returns, \<open>bd_malloc\<close> whether an allocation of a
  size succeeds.
\<close>

record 'a board =
  bd_program :: "u32 \<Rightarrow> 'a program"
  bd_entry :: u32
  bd_files :: "string \<Rightarrow> bytes option"
  bd_read_limit :: nat
  bd_malloc :: "nat \<Rightarrow> bool"

text \<open>A busy core runs the program of an entry point and shows its end after some more status reads.\<close>

datatype core_state = Held | Busy u32 "nat option" | Halted | Faulted

record 'a fw_hw =
  fw_control :: u32
  fw_core :: core_state
  fw_entry :: u32
  fw_base :: u32
  fw_transfers :: u32
  fw_mem :: bytes
  fw_unit :: 'a

definition fw_abandon :: "'a board \<Rightarrow> u32 \<Rightarrow> 'a fw_hw \<Rightarrow> 'a fw_hw" where
  "fw_abandon B entry h =
     (let (m, u) = pg_partial (bd_program B entry) (fw_mem h) (fw_unit h) in h\<lparr> fw_mem := m, fw_unit := u \<rparr>)"

definition fw_finish :: "'a board \<Rightarrow> u32 \<Rightarrow> 'a fw_hw \<Rightarrow> 'a fw_hw" where
  "fw_finish B entry h =
     (case pg_main (bd_program B entry) (fw_mem h) (fw_unit h) of
        None \<Rightarrow> (fw_abandon B entry h)\<lparr> fw_core := Faulted \<rparr>
      | Some (_, m, u) \<Rightarrow> h\<lparr> fw_core := Halted, fw_mem := m, fw_unit := u,
          fw_transfers := fw_transfers h + pg_transfers (bd_program B entry) (fw_mem h) (fw_unit h) \<rparr>)"

definition fw_observe :: "'a board \<Rightarrow> 'a fw_hw \<Rightarrow> 'a fw_hw" where
  "fw_observe B h =
     (case fw_core h of
        Busy entry (Some n) \<Rightarrow> if n = 0 then fw_finish B entry h else h\<lparr> fw_core := Busy entry (Some (n - 1)) \<rparr>
      | _ \<Rightarrow> h)"

definition fw_status :: "'a fw_hw \<Rightarrow> u32" where
  "fw_status h = (case fw_core h of Halted \<Rightarrow> 1 | Faulted \<Rightarrow> 2 | _ \<Rightarrow> 0)"

definition fw_read :: "'a board \<Rightarrow> u32 \<Rightarrow> 'a fw_hw \<Rightarrow> (u32 \<times> 'a fw_hw) option" where
  "fw_read B offset h =
     (if offset = RESET_CONTROL then Some (fw_control h, h)
      else if offset = STATUS then Some (fw_status (fw_observe B h), fw_observe B h)
      else if offset = SHARED_BASE then Some (fw_base h, h)
      else if offset = SHARED_SIZE then Some (of_nat (length (fw_mem h)), h)
      else if offset = BACKEND_ID then Some (0x4e505502, h)
      else if offset = FIRMWARE_ENTRY then Some (bd_entry B, h)
      else if offset = DMA_REQUESTS \<or> offset = DMA_COMPLETIONS then Some (fw_transfers h, h)
      else if offset \<in> driver_registers then Some (0, h)
      else None)"

text \<open>Asserting the reset stops a job; releasing it starts the program of the entry point.\<close>

definition fw_write :: "'a board \<Rightarrow> u32 \<Rightarrow> u32 \<Rightarrow> 'a fw_hw \<Rightarrow> 'a fw_hw option" where
  "fw_write B offset v h =
     (if offset = PC_START then Some (h\<lparr> fw_entry := v \<rparr>)
      else if offset = RESET_CONTROL then
        Some (if v AND 1 \<noteq> 0 then
                (case fw_core h of Busy entry _ \<Rightarrow> fw_abandon B entry h | _ \<Rightarrow> h)\<lparr> fw_control := v, fw_core := Held \<rparr>
              else if fw_control h AND 1 \<noteq> 0 then
                h\<lparr> fw_control := v, fw_core := Busy (fw_entry h) (pg_latency (bd_program B (fw_entry h)) (fw_mem h) (fw_unit h)) \<rparr>
              else h\<lparr> fw_control := v \<rparr>)
      else None)"

definition fw_window :: "'a board \<Rightarrow> 'a fw_hw reg_window" where
  "fw_window B = \<lparr> io_readl = fw_read B, io_writel = fw_write B \<rparr>"

section \<open>System calls\<close>

text \<open>An open file is its descriptor, its size and the bytes not read yet; the time is in milliseconds.\<close>

record 'a machine =
  mc_dev :: opennpux_coral_dev
  mc_hw :: "'a fw_hw"
  mc_files :: "(int \<times> nat \<times> bytes) list"
  mc_time :: nat

text \<open>
  A poll asks the driver at once. If the device is not ready it sleeps until it is woken or its time has
  passed, and asks again; meanwhile the queued work runs once in a millisecond.
\<close>

definition linux_ask :: "'a board \<Rightarrow> 'a machine \<Rightarrow> (int \<times> 'a machine) option" where
  "linux_ask B w =
     do { (revents, k, h) \<leftarrow> coral_poll (fw_window B) (mc_dev w) (mc_hw w);
          Some (revents, w\<lparr> mc_dev := k, mc_hw := h \<rparr>) }"

definition linux_tick :: "'a board \<Rightarrow> 'a machine \<Rightarrow> 'a machine option" where
  "linux_tick B w =
     do { let w = w\<lparr> mc_time := mc_time w + 1 \<rparr>;
          if completion_work (mc_dev w) then do {
            (k, h) \<leftarrow> coral_completion_work (fw_window B) ((mc_dev w)\<lparr> completion_work := False \<rparr>) (mc_hw w);
            Some (w\<lparr> mc_dev := k, mc_hw := h \<rparr>) }
          else Some w }"

primrec linux_sleep :: "'a board \<Rightarrow> nat \<Rightarrow> 'a machine \<Rightarrow> (int \<times> 'a machine) option" where
  "linux_sleep B 0 w = linux_ask B w"
| "linux_sleep B (Suc n) w =
     do { w' \<leftarrow> linux_tick B w;
          if completion_wq (mc_dev w') = completion_wq (mc_dev w) then linux_sleep B n w'
          else do { (revents, w') \<leftarrow> linux_ask B w';
                    if revents \<noteq> 0 then Some (revents, w') else linux_sleep B n w' } }"

definition linux_poll :: "'a board \<Rightarrow> nat \<Rightarrow> 'a machine \<Rightarrow> (int \<times> int \<times> 'a machine) option" where
  "linux_poll B timeout w =
     do { (revents, w) \<leftarrow> linux_ask B w;
          (revents, w) \<leftarrow> (if revents \<noteq> 0 \<or> timeout = 0 then Some (revents, w) else linux_sleep B timeout w);
          Some (if revents = 0 then 0 else 1, revents, w) }"

definition linux_mmap :: "u64 \<Rightarrow> u64 \<Rightarrow> opennpux_coral_dev \<Rightarrow> int" where
  "linux_mmap n offset k =
     (let vm_start = 0x7f0000000000; vm_end = vm_start + (n + 4095) div 4096 * 4096 in
      if n = 0 then - EINVAL
      else (case coral_mmap k (drop_bit 12 offset) vm_start vm_end of Inl e \<Rightarrow> e | Inr _ \<Rightarrow> uint vm_start))"

definition device_fd :: int where "device_fd = 3"

definition linux_open :: "'a board \<Rightarrow> string \<Rightarrow> 'a machine \<Rightarrow> int \<times> 'a machine" where
  "linux_open B path w =
     (if path = DEVICE_PATH then
        let (r, k) = coral_open (mc_dev w) in (if r = 0 then device_fd else r, w\<lparr> mc_dev := k \<rparr>)
      else case bd_files B path of
          None \<Rightarrow> (- 2, w)
        | Some bs \<Rightarrow>
            let fd = fold max (map fst (mc_files w)) device_fd + 1 in
            (fd, w\<lparr> mc_files := (fd, length bs, bs) # mc_files w \<rparr>))"

definition linux_close :: "'a board \<Rightarrow> int \<Rightarrow> 'a machine \<Rightarrow> 'a machine" where
  "linux_close B fd w =
     (if fd = device_fd then
        (case coral_release (fw_window B) (mc_dev w) (mc_hw w) of
           None \<Rightarrow> w | Some (k, h) \<Rightarrow> w\<lparr> mc_dev := k, mc_hw := h \<rparr>)
      else w\<lparr> mc_files := filter (\<lambda>f. fst f \<noteq> fd) (mc_files w) \<rparr>)"

definition linux_ioctl :: "'a board \<Rightarrow> int \<Rightarrow> ioctl_request \<Rightarrow> 'a machine \<Rightarrow> (int \<times> ioctl_reply \<times> 'a machine) option" where
  "linux_ioctl B fd q w =
     (if fd \<noteq> device_fd then Some (- ENOTTY, No_reply, w)
      else do { (r, reply, k, h) \<leftarrow> coral_ioctl (fw_window B) q (mc_dev w) (mc_hw w);
                Some (r, reply, w\<lparr> mc_dev := k, mc_hw := h \<rparr>) })"

definition linux_fstat :: "int \<Rightarrow> 'a machine \<Rightarrow> int" where
  "linux_fstat fd w = (if fd = device_fd then 0 else case map_of (mc_files w) fd of None \<Rightarrow> - 9 | Some (n, _) \<Rightarrow> int n)"

definition linux_read :: "'a board \<Rightarrow> int \<Rightarrow> nat \<Rightarrow> 'a machine \<Rightarrow> (int + bytes) \<times> 'a machine" where
  "linux_read B fd n w =
     (case map_of (mc_files w) fd of
        None \<Rightarrow> (Inl (if fd = device_fd then EINVAL else 9), w)
      | Some (sz, rest) \<Rightarrow>
          let n = min n (bd_read_limit B) in
          (Inr (take n rest),
           w\<lparr> mc_files := map (\<lambda>f. if fst f = fd then (fd, sz, drop n rest) else f) (mc_files w) \<rparr>))"

definition linux_os :: "'a board \<Rightarrow> 'a machine host_os" where
  "linux_os B = \<lparr>
     os_page_size = 4096,
     os_getenv = (\<lambda>_. None),
     os_open = linux_open B,
     os_close = linux_close B,
     os_ioctl = linux_ioctl B,
     os_poll = (\<lambda>fd timeout w. if fd \<noteq> device_fd then None else linux_poll B (nat timeout) w),
     os_mmap = (\<lambda>fd n offset w. (if fd \<noteq> device_fd then - 19 else linux_mmap n offset (mc_dev w), w)),
     os_munmap = (\<lambda>fd n offset w. w),
     os_load = (\<lambda>fd a n w. if fd \<noteq> device_fd then None else do { bs \<leftarrow> load_bytes (fw_mem (mc_hw w)) (unat a) n; Some (bs, w) }),
     os_store = (\<lambda>fd a bs w. if fd \<noteq> device_fd then None
        else do { m \<leftarrow> store_bytes (fw_mem (mc_hw w)) (unat a) bs; Some (w\<lparr> mc_hw := (mc_hw w)\<lparr> fw_mem := m \<rparr> \<rparr>) }),
     os_clock = (\<lambda>w. (Some (of_nat (mc_time w div 1000), of_nat (mc_time w mod 1000 * 1000000)), w)),
     os_malloc = (\<lambda>n w. bd_malloc B n),
     os_fstat = (\<lambda>fd w. (linux_fstat fd w, w)),
     os_read = linux_read B \<rparr>"

definition host_dev :: "u64 \<Rightarrow> opennpux_coral_device" where
  "host_dev org = \<lparr> dv_fd = device_fd, dv_page_size = 4096, dv_mapping = False, dv_page_base = 0, dv_base = org,
     dv_transport = TRANSPORT_DRIVER, dv_abi_version = 1, dv_features = 15 \<rparr>"

section \<open>States\<close>

text \<open>
  A device whose window the driver knows, in whole pages, and a custom unit in a state the programs accept.
  The machine is idle if no job has been started and the core is not busy.
\<close>

fun core_busy :: "core_state \<Rightarrow> bool" where
  "core_busy (Busy _ _) = True" | "core_busy _ = False"

definition window_ok :: "('a \<Rightarrow> bool) \<Rightarrow> 'a machine \<Rightarrow> bool" where
  "window_ok ok w \<longleftrightarrow> ok (fw_unit (mc_hw w)) \<and> PAGE_ALIGNED (shared_start (mc_dev w)) \<and>
     shared_size (mc_dev w) = of_nat (length (fw_mem (mc_hw w))) \<and> length (fw_mem (mc_hw w)) < 2 ^ 32 \<and>
     4096 dvd length (fw_mem (mc_hw w))"

definition machine_idle :: "('a \<Rightarrow> bool) \<Rightarrow> 'a machine \<Rightarrow> bool" where
  "machine_idle ok w \<longleftrightarrow> window_ok ok w \<and> \<not> running (mc_dev w) \<and> \<not> core_busy (fw_core (mc_hw w))"

text \<open>
  Whether the job at an entry point ends before a poll gives up: the poll asks at once, the work once in a
  millisecond, and the poll once more at the end of its time.
\<close>

definition machine_ends :: "'a board \<Rightarrow> u32 \<Rightarrow> int \<Rightarrow> 'a machine \<Rightarrow> bool" where
  "machine_ends B entry timeout w =
     (case pg_latency (bd_program B entry) (fw_mem (mc_hw w)) (fw_unit (mc_hw w)) of
        None \<Rightarrow> False | Some n \<Rightarrow> if nat timeout = 0 then n = 0 else n \<le> nat timeout + 1)"

definition machine_exec :: "'a board \<Rightarrow> u32 \<Rightarrow> 'a machine \<Rightarrow> bytes option" where
  "machine_exec B entry w =
     map_option (\<lambda>(r, m, u). m) (pg_main (bd_program B entry) (fw_mem (mc_hw w)) (fw_unit (mc_hw w)))"

text \<open>What is asked of the programs of a board: they keep the size of the window and an acceptable unit.\<close>

definition program_ok :: "('a \<Rightarrow> bool) \<Rightarrow> 'a program \<Rightarrow> bool" where
  "program_ok ok p \<longleftrightarrow>
     (\<forall>m u. ok u \<longrightarrow> pred_option (\<lambda>(r, m', u'). length m' = length m \<and> ok u') (pg_main p m u) \<and>
        (case pg_partial p m u of (m', u') \<Rightarrow> length m' = length m \<and> ok u'))"

lemma host_opens:
  assumes "\<not> open_count (mc_dev (world s))"
  shows "opennpux_coral_open (linux_os B) org s =
    Some (0, host_dev org, s\<lparr> world := (world s)\<lparr> mc_dev := (mc_dev (world s))\<lparr> open_count := True \<rparr> \<rparr> \<rparr>)"
  using assms
  by (simp add: opennpux_coral_open_def linux_os_def driver_path_def sys_open_def linux_open_def coral_open_def call_result_def
      open_driver_def sys_ioctl_def linux_ioctl_def coral_caps_def no_device_def host_dev_def device_fd_def abi_defs Let_def)


section \<open>Laws\<close>

lemma linux_calls:
  "os_ioctl (linux_os B) device_fd q w =
     do { (r, reply, k, h) \<leftarrow> coral_ioctl (fw_window B) q (mc_dev w) (mc_hw w); Some (r, reply, w\<lparr> mc_dev := k, mc_hw := h \<rparr>) }"
  "os_poll (linux_os B) device_fd timeout w = linux_poll B (nat timeout) w"
  "os_mmap (linux_os B) device_fd n offset w = (linux_mmap n offset (mc_dev w), w)"
  "os_munmap (linux_os B) device_fd n offset w = w"
  "os_load (linux_os B) device_fd a i w = do { bs \<leftarrow> load_bytes (fw_mem (mc_hw w)) (unat a) i; Some (bs, w) }"
  "os_store (linux_os B) device_fd a bs w =
     do { m \<leftarrow> store_bytes (fw_mem (mc_hw w)) (unat a) bs; Some (w\<lparr> mc_hw := (mc_hw w)\<lparr> fw_mem := m \<rparr> \<rparr>) }"
  "dv_fd (host_dev org) = device_fd" "snd (os_clock (linux_os B) w) = w"
  by (simp_all add: linux_os_def linux_ioctl_def host_dev_def)

text \<open>A read of the status register is an observation, and the only read that changes the device.\<close>

lemma status_read: "coral_readl (fw_window B) STATUS h = Some (fw_status (fw_observe B h), fw_observe B h)"
  by (simp add: coral_readl_def fw_window_def fw_read_def STATUS_def RESET_CONTROL_def)

lemma fw_info:
  assumes "length (fw_mem h) < 2 ^ 32"
  shows "\<exists>i. coral_ioctl (fw_window B) (GET_INFO True) k h = Some (0, Info_reply i, k, fw_observe B h) \<and>
    unat (ii_shared_size i) = length (fw_mem h) \<and> ii_status i = fw_status (fw_observe B h)"
  using assms
  by (simp add: coral_fill_info_def coral_readl_def fw_window_def fw_read_def driver_registers_def abi_defs unat_of_nat)

lemma observe_quiet [simp]: "\<not> core_busy (fw_core h) \<Longrightarrow> fw_observe B h = h"
  by (cases "fw_core h") (simp_all add: fw_observe_def)

lemma page_round:
  assumes "unat (n :: u64) \<le> l" "4096 dvd l" "l < 2 ^ 32"
  shows "unat ((n + 4095) div 4096 * 4096) \<le> l"
proof -
  obtain j where j: "l = 4096 * j" using assms(2) by blast
  have "unat (n + 4095) = unat n + 4095" using assms(1,3) by (subst unat_add_nowrap) simp_all
  then have "unat ((n + 4095) div 4096) = (unat n + 4095) div 4096" by (simp add: unat_div)
  moreover have "(unat n + 4095) div 4096 \<le> j" using assms(1) j by simp
  ultimately have "unat ((n + 4095) div 4096) \<le> j" by simp
  moreover have "4096 * j < 2 ^ 64" using j assms(3) by simp
  ultimately show ?thesis using j by (simp add: unat_word_ariths)
qed

lemma linux_maps:
  assumes "window_ok ok w" "n \<noteq> 0" "unat n \<le> length (fw_mem (mc_hw w))"
  shows "0 \<le> linux_mmap n 0 (mc_dev w)"
proof -
  let ?l = "length (fw_mem (mc_hw w))"
  have w: "PAGE_ALIGNED (shared_start (mc_dev w))" "shared_size (mc_dev w) = of_nat ?l" "?l < 2 ^ 32" "4096 dvd ?l"
    using assms(1) by (simp_all add: window_ok_def)
  have "unat ((n + 4095) div 4096 * 4096) \<le> ?l" by (rule page_round) (use assms w in simp_all)
  then have "\<not> of_nat ?l < (n + 4095) div 4096 * 4096" using w(3) by (simp add: word_less_nat_alt unat_of_nat)
  then show ?thesis using w assms(2) by (simp add: linux_mmap_def coral_mmap_def PAGE_ALIGNED_def Let_def)
qed

subsection \<open>Polling\<close>

text \<open>A core that has ended answers at once; one that has not is still busy, with an observation less to come.\<close>

lemma ask_ended:
  assumes "fw_core (mc_hw w) = Halted \<or> fw_core (mc_hw w) = Faulted"
  shows "linux_ask B w = Some (if fw_core (mc_hw w) = Halted then POLLIN + POLLRDNORM else POLLERR,
    w\<lparr> mc_dev := (mc_dev w)\<lparr> running := False \<rparr> \<rparr>)"
  using assms by (auto simp: linux_ask_def coral_poll_def status_read fw_observe_def fw_status_def poll_mask_def Let_def)

lemma ask_busy:
  assumes "fw_core (mc_hw w) = Busy entry l" "l \<noteq> Some 0"
  shows "linux_ask B w = Some (0, w\<lparr> mc_hw := (mc_hw w)\<lparr> fw_core := Busy entry (map_option (\<lambda>n. n - 1) l) \<rparr> \<rparr>)"
  using assms
  by (cases l) (auto simp: linux_ask_def coral_poll_def status_read fw_observe_def fw_status_def poll_mask_def Let_def)

lemma finish_core:
  "fw_core (fw_finish B entry h) = (if pg_main (bd_program B entry) (fw_mem h) (fw_unit h) = None then Faulted else Halted)"
  by (auto simp: fw_finish_def split: option.splits)

text \<open>The end of a job as a poll reports it.\<close>

definition job_done :: "'a board \<Rightarrow> u32 \<Rightarrow> 'a fw_hw \<Rightarrow> (int \<times> 'a machine) \<Rightarrow> bool" where
  "job_done B entry h p \<longleftrightarrow> mc_hw (snd p) = fw_finish B entry h \<and> \<not> running (mc_dev (snd p)) \<and>
     fst p = (if pg_main (bd_program B entry) (fw_mem h) (fw_unit h) = None then POLLERR else POLLIN + POLLRDNORM)"

definition same_file :: "'a machine \<Rightarrow> 'a machine \<Rightarrow> bool" where
  "same_file w w' \<longleftrightarrow> mc_files w' = mc_files w \<and> open_count (mc_dev w') = open_count (mc_dev w) \<and>
     shared_start (mc_dev w') = shared_start (mc_dev w) \<and> shared_size (mc_dev w') = shared_size (mc_dev w)"

lemma finish_core_irrelevant [simp]: "fw_finish B entry (h\<lparr> fw_core := c \<rparr>) = fw_finish B entry h"
  by (auto simp: fw_finish_def fw_abandon_def split: option.splits prod.splits)

lemma ask_finish:
  assumes "fw_core (mc_hw w) = Busy entry (Some 0)"
  shows "\<exists>p. linux_ask B w = Some p \<and> job_done B entry (mc_hw w) p \<and> same_file w (snd p) \<and> fst p \<noteq> 0"
  using assms
  by (auto simp: linux_ask_def coral_poll_def status_read fw_observe_def fw_status_def poll_mask_def finish_core job_done_def
      same_file_def Let_def)

lemma tick_finish:
  assumes "fw_core (mc_hw w) = Busy entry (Some 0)" "running (mc_dev w)" "completion_work (mc_dev w)"
  shows "\<exists>w'. linux_tick B w = Some w' \<and> mc_hw w' = fw_finish B entry (mc_hw w) \<and> same_file w w' \<and>
    completion_wq (mc_dev w') \<noteq> completion_wq (mc_dev w)"
  using assms
  by (auto simp: linux_tick_def coral_completion_work_def status_read fw_observe_def fw_status_def finish_core same_file_def
      wake_up_def Let_def)

lemma tick_busy:
  assumes "fw_core (mc_hw w) = Busy entry l" "l \<noteq> Some 0" "running (mc_dev w)" "completion_work (mc_dev w)"
  shows "\<exists>w'. linux_tick B w = Some w' \<and> mc_hw w' = (mc_hw w)\<lparr> fw_core := Busy entry (map_option (\<lambda>n. n - 1) l) \<rparr> \<and>
    mc_dev w' = mc_dev w \<and> same_file w w'"
proof -
  have "(mc_dev w)\<lparr> completion_work := True \<rparr> = mc_dev w" using assms(4) by simp
  then show ?thesis
    using assms
    by (cases l) (auto simp: linux_tick_def coral_completion_work_def status_read fw_observe_def fw_status_def same_file_def Let_def)
qed

lemma same_file_trans: "same_file w1 w2 \<Longrightarrow> same_file w2 w3 \<Longrightarrow> same_file w1 w3"
  by (simp add: same_file_def)

lemma sleep_ends:
  assumes "fw_core (mc_hw w) = Busy entry (Some l)" "running (mc_dev w)" "completion_work (mc_dev w)" "l \<le> n"
  shows "\<exists>p. linux_sleep B n w = Some p \<and> job_done B entry (mc_hw w) p \<and> same_file w (snd p) \<and> fst p \<noteq> 0"
  using assms
proof (induction n arbitrary: w l)
  case 0
  then show ?case using ask_finish by simp
next
  case (Suc n)
  show ?case
  proof (cases l)
    case 0
    then obtain w1 where w1: "linux_tick B w = Some w1" "mc_hw w1 = fw_finish B entry (mc_hw w)" "same_file w w1"
      "completion_wq (mc_dev w1) \<noteq> completion_wq (mc_dev w)" using tick_finish [of w entry B] Suc.prems by auto
    have "fw_core (mc_hw w1) = Halted \<or> fw_core (mc_hw w1) = Faulted" using w1(2) by (simp add: finish_core)
    from ask_ended [OF this, of B] show ?thesis
      using w1 by (auto simp: job_done_def finish_core same_file_def)
  next
    case (Suc j)
    then obtain w1 where w1: "linux_tick B w = Some w1" "mc_hw w1 = (mc_hw w)\<lparr> fw_core := Busy entry (Some j) \<rparr>"
      "mc_dev w1 = mc_dev w" "same_file w w1" using tick_busy [of w entry "Some (Suc j)" B] Suc.prems by auto
    have "fw_core (mc_hw w1) = Busy entry (Some j)" "running (mc_dev w1)" "completion_work (mc_dev w1)" "j \<le> n"
      using w1(2,3) Suc.prems Suc by simp_all
    from Suc.IH [OF this] obtain p where "linux_sleep B n w1 = Some p" "job_done B entry (mc_hw w1) p" "same_file w1 (snd p)" "fst p \<noteq> 0"
      by blast
    then show ?thesis using w1 same_file_trans by (auto simp: job_done_def)
  qed
qed

lemma sleep_expires:
  assumes "fw_core (mc_hw w) = Busy entry l" "running (mc_dev w)" "completion_work (mc_dev w)" "pred_option (\<lambda>j. n < j) l"
  shows "\<exists>w' l'. linux_sleep B n w = Some (0, w') \<and> mc_hw w' = (mc_hw w)\<lparr> fw_core := Busy entry l' \<rparr> \<and> same_file w w'"
  using assms
proof (induction n arbitrary: w l)
  case 0
  then have "l \<noteq> Some 0" by auto
  then show ?case using ask_busy [OF 0(1), of B] by (auto simp: same_file_def)
next
  case (Suc n)
  then have "l \<noteq> Some 0" by auto
  then obtain w1 where w1: "linux_tick B w = Some w1" "mc_hw w1 = (mc_hw w)\<lparr> fw_core := Busy entry (map_option (\<lambda>n. n - 1) l) \<rparr>"
    "mc_dev w1 = mc_dev w" "same_file w w1" using tick_busy [of w entry l B] Suc.prems by auto
  have "fw_core (mc_hw w1) = Busy entry (map_option (\<lambda>n. n - 1) l)" "running (mc_dev w1)" "completion_work (mc_dev w1)"
    "pred_option (\<lambda>j. n < j) (map_option (\<lambda>n. n - 1) l)"
    using w1(2,3) Suc.prems by (simp_all add: pred_option_def, auto)
  from Suc.IH [OF this] obtain w' l' where "linux_sleep B n w1 = Some (0, w')" "mc_hw w' = (mc_hw w1)\<lparr> fw_core := Busy entry l' \<rparr>"
    "same_file w1 w'" by blast
  then show ?case using w1 same_file_trans by (intro exI [of _ w'] exI [of _ l']) auto
qed

lemma poll_job:
  assumes "fw_core (mc_hw w) = Busy entry l" "running (mc_dev w)" "completion_work (mc_dev w)"
  shows "if (case l of None \<Rightarrow> False | Some j \<Rightarrow> if n = 0 then j = 0 else j \<le> n + 1)
    then \<exists>revents w'. linux_poll B n w = Some (1, revents, w') \<and> job_done B entry (mc_hw w) (revents, w') \<and> same_file w w'
    else \<exists>w' l'. linux_poll B n w = Some (0, 0, w') \<and> mc_hw w' = (mc_hw w)\<lparr> fw_core := Busy entry l' \<rparr> \<and> same_file w w'"
proof (cases "l = Some 0")
  case True
  then show ?thesis using ask_finish [of w entry B] assms(1) by (auto simp: linux_poll_def)
next
  case False
  let ?w = "w\<lparr> mc_hw := (mc_hw w)\<lparr> fw_core := Busy entry (map_option (\<lambda>n. n - 1) l) \<rparr> \<rparr>"
  have a: "linux_ask B w = Some (0, ?w)" using ask_busy [OF assms(1) False] .
  have sf: "same_file ?w w' \<Longrightarrow> same_file w w'" "same_file w ?w" for w' by (simp_all add: same_file_def)
  have w: "fw_core (mc_hw ?w) = Busy entry (map_option (\<lambda>n. n - 1) l)" "running (mc_dev ?w)" "completion_work (mc_dev ?w)"
    using assms by simp_all
  show ?thesis
  proof (cases "case l of None \<Rightarrow> False | Some j \<Rightarrow> if n = 0 then j = 0 else j \<le> n + 1")
    case True
    then obtain j where j: "l = Some j" "n \<noteq> 0" "j - 1 \<le> n" using False by (auto split: option.splits if_splits)
    have "fw_core (mc_hw ?w) = Busy entry (Some (j - 1))" using j(1) by simp
    from sleep_ends [OF this w(2,3) j(3), of B] obtain p where "linux_sleep B n ?w = Some p" "job_done B entry (mc_hw ?w) p"
      "same_file ?w (snd p)" "fst p \<noteq> 0" by blast
    then show ?thesis using True a j(2) sf(1) by (cases p) (auto simp: linux_poll_def job_done_def)
  next
    case late: False
    show ?thesis
    proof (cases "n = 0")
      case True
      then show ?thesis using late a sf(2) by (auto simp: linux_poll_def)
    next
      case n: False
      then have "pred_option (\<lambda>j. n < j) (map_option (\<lambda>n. n - 1) l)" using late by (auto simp: pred_option_def split: option.splits)
      from sleep_expires [OF w this, of B] show ?thesis using late a n sf(1) by (auto simp: linux_poll_def)
    qed
  qed
qed

subsection \<open>The contract of a run\<close>

text \<open>An idle machine with given open files and a device that is open or not.\<close>

definition machine_free :: "('a \<Rightarrow> bool) \<Rightarrow> (int \<times> nat \<times> bytes) list \<Rightarrow> bool \<Rightarrow> 'a machine \<Rightarrow> bool" where
  "machine_free ok fs oc w \<longleftrightarrow> machine_idle ok w \<and> mc_files w = fs \<and> open_count (mc_dev w) = oc"

locale firmware_program =
  fixes B :: "'a board" and ok :: "'a \<Rightarrow> bool"
  assumes programs: "program_ok ok (bd_program B entry)"
begin

definition hw_ok :: "nat \<Rightarrow> 'a fw_hw \<Rightarrow> bool" where
  "hw_ok n h \<longleftrightarrow> ok (fw_unit h) \<and> length (fw_mem h) = n"

lemma abandon_ok: "hw_ok n h \<Longrightarrow> hw_ok n (fw_abandon B entry h)"
  using programs [of entry] by (auto simp: hw_ok_def fw_abandon_def program_ok_def split: prod.splits)

lemma finish_ok:
  assumes "hw_ok n h"
  shows "hw_ok n (fw_finish B entry h)"
proof (cases "pg_main (bd_program B entry) (fw_mem h) (fw_unit h)")
  case None
  then show ?thesis using abandon_ok [OF assms, of entry] by (simp add: fw_finish_def hw_ok_def)
next
  case (Some x)
  have "pred_option (\<lambda>(r, m', u'). length m' = length (fw_mem h) \<and> ok u') (pg_main (bd_program B entry) (fw_mem h) (fw_unit h))"
    using programs [of entry] assms unfolding program_ok_def hw_ok_def by blast
  then show ?thesis using Some assms by (cases x) (auto simp: fw_finish_def hw_ok_def)
qed

lemma observe_ok: "hw_ok n h \<Longrightarrow> hw_ok n (fw_observe B h)"
  using finish_ok by (auto simp: fw_observe_def hw_ok_def split: core_state.splits option.splits)

lemma finish_exec:
  assumes "machine_exec B entry w = Some m"
  shows "fw_mem (fw_finish B entry (mc_hw w)) = m"
  using assms by (auto simp: machine_exec_def fw_finish_def)

lemma fw_reset:
  assumes "hw_ok n h"
  shows "\<exists>k' h'. coral_ioctl (fw_window B) RESET k h = Some (0, No_reply, k', h') \<and> hw_ok n h' \<and> \<not> running k' \<and>
    \<not> core_busy (fw_core h') \<and> open_count k' = open_count k \<and> shared_start k' = shared_start k \<and> shared_size k' = shared_size k \<and>
    (\<not> core_busy (fw_core h) \<longrightarrow> fw_mem h' = fw_mem h)"
proof (cases "fw_core h")
  case (Busy entry l)
  then show ?thesis using abandon_ok [OF assms, of entry]
    by (simp add: coral_reset_def coral_writel_def fw_window_def fw_write_def wake_up_def RESET_CONTROL_def PC_START_def
        hw_ok_def Let_def)
qed (use assms in \<open>simp_all add: coral_reset_def coral_writel_def fw_window_def fw_write_def wake_up_def RESET_CONTROL_def
  PC_START_def hw_ok_def Let_def\<close>)

lemma fw_started:
  assumes "\<not> running k" "\<not> core_busy (fw_core h)"
  shows "\<exists>k' h'. coral_ioctl (fw_window B) (START (Some \<lparr> is_entry = entry, is_flags = 0 \<rparr>)) k h = Some (0, No_reply, k', h') \<and>
    running k' \<and> completion_work k' \<and> open_count k' = open_count k \<and> shared_start k' = shared_start k \<and> shared_size k' = shared_size k \<and>
    fw_mem h' = fw_mem h \<and> fw_unit h' = fw_unit h \<and>
    fw_core h' = Busy entry (pg_latency (bd_program B entry) (fw_mem h) (fw_unit h))"
  using assms
  by (cases "fw_core h") (simp_all add: coral_start_def coral_writel_def fw_window_def fw_write_def RESET_CONTROL_def PC_START_def)

end

sublocale firmware_program \<subseteq> mach: async_os "linux_os B" "host_dev org" "machine_free ok fs oc"
  "\<lambda>w. fw_mem (mc_hw w)" "machine_ends B" "machine_exec B" for org fs oc
proof unfold_locales
  show "dv_transport (host_dev org) = TRANSPORT_DRIVER" "dv_features (host_dev org) AND FEATURE_SHARED_MMAP \<noteq> 0"
    "dv_features (host_dev org) AND (FEATURE_ASYNC_START OR FEATURE_POLL_COMPLETION) = FEATURE_ASYNC_START OR FEATURE_POLL_COMPLETION"
    by (simp_all add: host_dev_def abi_defs)
next
  fix w :: "'a machine"
  assume w: "machine_free ok fs oc w"
  then have ok: "window_ok ok w" "\<not> running (mc_dev w)" "\<not> core_busy (fw_core (mc_hw w))" by (simp_all add: machine_free_def machine_idle_def)
  have len: "length (fw_mem (mc_hw w)) < 2 ^ 32" using ok(1) by (simp add: window_ok_def)
  show "\<exists>i w'. os_ioctl (linux_os B) (dv_fd (host_dev org)) (GET_INFO True) w = Some (0, Info_reply i, w') \<and>
      machine_free ok fs oc w' \<and> fw_mem (mc_hw w') = fw_mem (mc_hw w) \<and>
      unat (ii_shared_size i) = length (fw_mem (mc_hw w))"
    using fw_info [OF len, of B "mc_dev w"] ok(3) w unfolding linux_calls by (auto simp del: coral_ioctl.simps)
  show "\<exists>r w'. os_mmap (linux_os B) (dv_fd (host_dev org)) sz 0 w = (r, w') \<and> 0 \<le> r \<and> machine_free ok fs oc w' \<and>
      fw_mem (mc_hw w') = fw_mem (mc_hw w)" if "sz \<noteq> 0" "unat sz \<le> length (fw_mem (mc_hw w))" for sz
    using linux_maps [OF ok(1) that] w by (simp add: linux_calls)
  show "machine_free ok fs oc (os_munmap (linux_os B) (dv_fd (host_dev org)) sz a w) \<and>
      fw_mem (mc_hw (os_munmap (linux_os B) (dv_fd (host_dev org)) sz a w)) = fw_mem (mc_hw w)" for sz a
    using w by (simp add: linux_calls)
  show "os_load (linux_os B) (dv_fd (host_dev org)) a n w = Some (bs, w)"
    if "load_bytes (fw_mem (mc_hw w)) (unat a) n = Some bs" for a n bs
    using that by (simp add: linux_calls)
  show "\<exists>w'. os_store (linux_os B) (dv_fd (host_dev org)) a bs w = Some w' \<and> machine_free ok fs oc w' \<and>
      fw_mem (mc_hw w') = m"
    if "store_bytes (fw_mem (mc_hw w)) (unat a) bs = Some m" for a bs m
    using w that ram.wr_size [OF that] by (simp add: linux_calls machine_free_def machine_idle_def window_ok_def)
  show "machine_free ok fs oc (snd (os_clock (linux_os B) w)) \<and>
      fw_mem (mc_hw (snd (os_clock (linux_os B) w))) = fw_mem (mc_hw w)"
    using w by (simp add: linux_calls)
  fix timeout :: int and entry
  assume "0 \<le> timeout"
  let ?n = "length (fw_mem (mc_hw w))" and ?h = "mc_hw w"
  obtain k1 h1 where st: "coral_ioctl (fw_window B) (START (Some \<lparr> is_entry = entry, is_flags = 0 \<rparr>)) (mc_dev w) ?h = Some (0, No_reply, k1, h1)"
    "running k1" "completion_work k1" "open_count k1 = open_count (mc_dev w)" "shared_start k1 = shared_start (mc_dev w)" "shared_size k1 = shared_size (mc_dev w)"
    "fw_mem h1 = fw_mem ?h" "fw_unit h1 = fw_unit ?h"
    "fw_core h1 = Busy entry (pg_latency (bd_program B entry) (fw_mem ?h) (fw_unit ?h))"
    using fw_started [OF ok(2,3), of entry] by blast
  let ?w1 = "w\<lparr> mc_dev := k1, mc_hw := h1 \<rparr>"
  have h1: "hw_ok ?n h1" using ok(1) st(7,8) by (simp add: hw_ok_def window_ok_def)
  have pj: "if machine_ends B entry timeout w
    then \<exists>revents w2. linux_poll B (nat timeout) ?w1 = Some (1, revents, w2) \<and> job_done B entry (mc_hw ?w1) (revents, w2) \<and> same_file ?w1 w2
    else \<exists>w2 l. linux_poll B (nat timeout) ?w1 = Some (0, 0, w2) \<and> mc_hw w2 = (mc_hw ?w1)\<lparr> fw_core := Busy entry l \<rparr> \<and> same_file ?w1 w2"
    unfolding machine_ends_def by (rule poll_job) (use st in simp_all)
  have idle: "machine_free ok fs oc w4"
    if "mc_files w4 = fs" "open_count (mc_dev w4) = oc" "hw_ok ?n (mc_hw w4)" "\<not> running (mc_dev w4)" "\<not> core_busy (fw_core (mc_hw w4))"
      "shared_start (mc_dev w4) = shared_start (mc_dev w)" "shared_size (mc_dev w4) = shared_size (mc_dev w)" for w4
    using that ok(1) by (simp add: machine_free_def machine_idle_def window_ok_def hw_ok_def)
  have finish: "\<exists>i w3 w4. os_ioctl (linux_os B) device_fd (GET_INFO True) w2 = Some (0, Info_reply i, w3) \<and>
      os_ioctl (linux_os B) device_fd RESET w3 = Some (0, No_reply, w4) \<and> machine_free ok fs oc w4 \<and>
      length (fw_mem (mc_hw w4)) = ?n \<and> ii_status i = fw_status (fw_observe B (mc_hw w2)) \<and>
      (\<not> core_busy (fw_core (mc_hw w2)) \<longrightarrow> fw_mem (mc_hw w4) = fw_mem (mc_hw w2))"
    if s: "same_file ?w1 w2" "hw_ok ?n (mc_hw w2)" for w2
  proof -
    have l2: "length (fw_mem (mc_hw w2)) < 2 ^ 32" using s(2) len by (simp add: hw_ok_def)
    obtain i where i: "coral_ioctl (fw_window B) (GET_INFO True) (mc_dev w2) (mc_hw w2) = Some (0, Info_reply i, mc_dev w2, fw_observe B (mc_hw w2))"
      "ii_status i = fw_status (fw_observe B (mc_hw w2))" using fw_info [OF l2, of B "mc_dev w2"] by blast
    obtain k4 h4 where r: "coral_ioctl (fw_window B) RESET (mc_dev w2) (fw_observe B (mc_hw w2)) = Some (0, No_reply, k4, h4)"
      "hw_ok ?n h4" "\<not> running k4" "\<not> core_busy (fw_core h4)" "open_count k4 = open_count (mc_dev w2)" "shared_start k4 = shared_start (mc_dev w2)"
      "shared_size k4 = shared_size (mc_dev w2)"
      "\<not> core_busy (fw_core (fw_observe B (mc_hw w2))) \<longrightarrow> fw_mem h4 = fw_mem (fw_observe B (mc_hw w2))"
      using fw_reset [OF observe_ok [OF s(2)], of "mc_dev w2"] by blast
    let ?w3 = "w2\<lparr> mc_dev := mc_dev w2, mc_hw := fw_observe B (mc_hw w2) \<rparr>"
    let ?w4 = "?w3\<lparr> mc_dev := k4, mc_hw := h4 \<rparr>"
    have "machine_free ok fs oc ?w4"
      using s(1) r w st(4-6) by (intro idle) (simp_all add: same_file_def machine_free_def)
    then show ?thesis using i r s
      by (intro exI [of _ i] exI [of _ ?w3] exI [of _ ?w4]) (auto simp: linux_calls hw_ok_def)
  qed
  show "\<exists>w1 n revents w2 i w3 w4.
      os_ioctl (linux_os B) (dv_fd (host_dev org)) (START (Some \<lparr> is_entry = entry, is_flags = 0 \<rparr>)) w = Some (0, No_reply, w1) \<and>
      os_poll (linux_os B) (dv_fd (host_dev org)) timeout w1 = Some (n, revents, w2) \<and>
      os_ioctl (linux_os B) (dv_fd (host_dev org)) (GET_INFO True) w2 = Some (0, Info_reply i, w3) \<and>
      os_ioctl (linux_os B) (dv_fd (host_dev org)) RESET w3 = Some (0, No_reply, w4) \<and> machine_free ok fs oc w4 \<and>
      length (fw_mem (mc_hw w4)) = length (fw_mem (mc_hw w)) \<and>
      (if machine_ends B entry timeout w then n = 1 \<and>
         (case machine_exec B entry w of None \<Rightarrow> revents = POLLERR \<and> ii_status i = 2
          | Some m \<Rightarrow> revents = POLLIN + POLLRDNORM \<and> ii_status i = 1 \<and> fw_mem (mc_hw w4) = m)
       else n = 0)"
  proof (cases "machine_ends B entry timeout w")
    case True
    obtain revents w2 where w2: "linux_poll B (nat timeout) ?w1 = Some (1, revents, w2)" "job_done B entry h1 (revents, w2)" "same_file ?w1 w2"
      using pj True by auto
    have hw2: "mc_hw w2 = fw_finish B entry h1" using w2(2) by (simp add: job_done_def)
    then have "hw_ok ?n (mc_hw w2)" using finish_ok [OF h1] by simp
    from finish [OF w2(3) this] obtain i w3 w4 where f: "os_ioctl (linux_os B) device_fd (GET_INFO True) w2 = Some (0, Info_reply i, w3)"
      "os_ioctl (linux_os B) device_fd RESET w3 = Some (0, No_reply, w4)" "machine_free ok fs oc w4"
      "length (fw_mem (mc_hw w4)) = ?n" "ii_status i = fw_status (fw_observe B (mc_hw w2))"
      "\<not> core_busy (fw_core (mc_hw w2)) \<longrightarrow> fw_mem (mc_hw w4) = fw_mem (mc_hw w2)" by blast
    have nb: "\<not> core_busy (fw_core (mc_hw w2))" by (simp add: hw2 finish_core)
    have "case machine_exec B entry w of None \<Rightarrow> revents = POLLERR \<and> ii_status i = 2
          | Some m \<Rightarrow> revents = POLLIN + POLLRDNORM \<and> ii_status i = 1 \<and> fw_mem (mc_hw w4) = m"
      using w2(2) f(5,6) nb st(7,8)
      by (cases "pg_main (bd_program B entry) (fw_mem ?h) (fw_unit ?h)")
        (auto simp: machine_exec_def job_done_def fw_status_def hw2 finish_core fw_finish_def)
    then show ?thesis using st(1) w2(1) f(1-4) True
      by (intro exI [of _ ?w1] exI [of _ 1] exI [of _ revents] exI [of _ w2] exI [of _ i] exI [of _ w3] exI [of _ w4])
        (simp add: linux_calls)
  next
    case False
    obtain w2 l where w2: "linux_poll B (nat timeout) ?w1 = Some (0, 0, w2)" "mc_hw w2 = h1\<lparr> fw_core := Busy entry l \<rparr>" "same_file ?w1 w2"
      using pj False by auto
    then have "hw_ok ?n (mc_hw w2)" using h1 by (simp add: hw_ok_def)
    from finish [OF w2(3) this] show ?thesis using st(1) w2(1) False
      by (intro exI [of _ ?w1] exI [of _ 0] exI [of _ 0] exI [of _ w2]) (auto simp: linux_calls)
  qed
qed

section \<open>The command firmware as such a program\<close>

lemma add_elements_invariant:
  assumes "\<And>i m a m' a'. I m a \<Longrightarrow> add_element M in0 in1 out i m a = Some (m', a') \<Longrightarrow> I m' a'"
  shows "I m a \<Longrightarrow> add_elements M in0 in1 out i m a = Some (m', a') \<Longrightarrow> I m' a'"
  using assms
proof (induction M in0 in1 out i m a rule: add_elements.induct)
  case (1 M in0 in1 out i m a)
  show ?case
  proof (cases "load32 m f_element_count")
    case (Some c)
    show ?thesis
    proof (cases "i < unat c")
      case True
      then obtain m1 a1 where e: "add_element M in0 in1 out i m a = Some (m1, a1)"
        "add_elements M in0 in1 out (i + 1) m1 a1 = Some (m', a')"
        using 1(3) Some by (subst (asm) add_elements.simps) (auto split: option.splits)
      show ?thesis using 1(1) [OF Some True e(1) refl 1(4) [OF 1(2) e(1)] e(2)] 1(4) by blast
    next
      case False
      then show ?thesis using 1(2,3) Some by (subst (asm) add_elements.simps) simp
    qed
  next
    case None
    then show ?thesis using 1(3) by (subst (asm) add_elements.simps) simp
  qed
qed

context mac_unit
begin

lemma custom_add_ready: "ready a \<Longrightarrow> custom_add M x y a = Some (v, a') \<Longrightarrow> ready a'"
  using custom_add_sum [of a x y] by auto

lemma add_element_ready: "ready a \<Longrightarrow> add_element M in0 in1 out i m a = Some (m', a') \<Longrightarrow> ready a'"
  by (auto simp: add_element_def split: bind_splits if_splits dest: custom_add_ready)

lemma add_elements_ready: "ready a \<Longrightarrow> add_elements M in0 in1 out i m a = Some (m', a') \<Longrightarrow> ready a'"
  using add_elements_invariant [of "\<lambda>_ a. ready a" M in0 in1 out m a i m' a'] add_element_ready by blast

lemma reads_ready:
  "mp_read M (custom_reg CUSTOM_MAC_CYCLES) a = (v, a') \<Longrightarrow> ready a \<Longrightarrow> ready a'"
  "mp_read M (custom_reg CUSTOM_MAC_ID) a = (v, a') \<Longrightarrow> ready a \<Longrightarrow> ready a'"
  using cycles [of a] ident [of a] by auto

end

lemma finish_error_length: "finish_error e m = Some m' \<Longrightarrow> length m' = length m"
  by (auto simp: finish_error_def split: bind_splits dest!: store32_length)

lemma add_element_length: "add_element M in0 in1 out i m a = Some (m', a') \<Longrightarrow> length m' = length m"
  by (auto simp: add_element_def split: bind_splits dest!: store32_length)

lemma add_elements_length: "add_elements M in0 in1 out i m a = Some (m', a') \<Longrightarrow> length m' = length m"
  using add_elements_invariant [of "\<lambda>m' a'. length m' = length m" M in0 in1 out m a i m' a'] add_element_length by fastforce

text \<open>Facts of every result of a computation that may fail.\<close>

lemma all_results:
  "(\<And>x. e = Some x \<Longrightarrow> pred_option P (f x)) \<Longrightarrow> pred_option P (Option.bind e f)"
  "(c \<Longrightarrow> pred_option P x) \<Longrightarrow> (\<not> c \<Longrightarrow> pred_option P y) \<Longrightarrow> pred_option P (if c then x else y)"
  "(\<And>a b. p = (a, b) \<Longrightarrow> pred_option P (g a b)) \<Longrightarrow> pred_option P (case p of (a, b) \<Rightarrow> g a b)"
  "P v \<Longrightarrow> pred_option P (Some v)"
  by (cases e; simp) (auto split: prod.splits)

lemma command_main_length: "pred_option (\<lambda>(r, m', a'). length m' = length m) (command_main M m a)"
  unfolding command_main_def Let_def
  by (intro all_results)
    (auto split: bind_splits if_splits prod.splits dest!: store32_length finish_error_length add_elements_length)

context mac_unit
begin

lemma command_main_ready:
  assumes "ready a"
  shows "pred_option (\<lambda>(r, m', a'). ready a') (command_main M m a)"
  unfolding command_main_def Let_def
  using assms
  by (intro all_results) (auto split: bind_splits if_splits prod.splits dest!: reads_ready dest: add_elements_ready)

end

text \<open>A board with one program; a core released at any other address faults.\<close>

definition fault_program :: "'a program" where
  "fault_program = \<lparr> pg_main = (\<lambda>_ _. None), pg_latency = (\<lambda>_ _. Some 0), pg_partial = Pair, pg_transfers = (\<lambda>_ _. 0) \<rparr>"

definition firmware_board :: "u32 \<Rightarrow> 'a firmware \<Rightarrow> nat option \<Rightarrow> (string \<Rightarrow> bytes option) \<Rightarrow> 'a board" where
  "firmware_board entry main latency files = \<lparr>
     bd_program = (\<lambda>e. if e = entry then
        \<lparr> pg_main = main, pg_latency = (\<lambda>_ _. latency), pg_partial = Pair, pg_transfers = (\<lambda>_ _. 1) \<rparr> else fault_program),
     bd_entry = entry, bd_files = files, bd_read_limit = 4096, bd_malloc = (\<lambda>_. True) \<rparr>"

lemma firmware_board_ok:
  assumes "\<And>m u. ok u \<Longrightarrow> pred_option (\<lambda>(r, m', u'). length m' = length m \<and> ok u') (main m u)"
  shows "program_ok ok (bd_program (firmware_board entry main latency files) e)"
  using assms by (simp add: firmware_board_def fault_program_def program_ok_def)

lemma command_main_ok:
  "mac_ready u \<Longrightarrow> pred_option (\<lambda>(r, m', u'). length m' = length m \<and> mac_ready u') (command_main clocked_port m u)"
  using command_main_length [of m clocked_port u] mac.command_main_ready [of u m]
  by (cases "command_main clocked_port m u") auto

interpretation vector: firmware_program "firmware_board entry (command_main clocked_port) latency files" mac_ready
  for entry latency files
  by unfold_locales (rule firmware_board_ok, rule command_main_ok)

definition dma_firmware :: "unit firmware" where
  "dma_firmware m u = map_option (\<lambda>(r, m). (r, m, u)) (dma_smoke_main m)"

lemma dma_firmware_length: "pred_option (\<lambda>(r, m', u'). length m' = length m) (dma_firmware m u)"
  by (auto simp: pred_option_def dma_firmware_def dma_smoke_main_def split: bind_splits dest!: store32_length)

interpretation smoke: firmware_program "firmware_board entry dma_firmware latency files" "\<lambda>_. True" for entry latency files
  by unfold_locales (rule firmware_board_ok, use dma_firmware_length in simp)

end
