(* ===== verification/End_To_End.thy ===== *)
theory End_To_End
  imports Host_Machine
begin

text \<open>
  Properties of the runtime, the driver and the firmware together: the vector addition from the call of
  the host library to the sums in the shared window or to the timeout, when a submission reports success,
  and that running a model file returns whatever the file holds.
\<close>

section \<open>Model files\<close>

lemma load_command_in_range: "a + 20 \<le> length file \<Longrightarrow> \<exists>c. load_command file a = Some c"
  by (simp add: load_command_def load32_def load_bytes_def)

lemma load_header_in_range: "24 \<le> length file \<Longrightarrow> \<exists>h. load_header file = Some h"
  by (simp add: load_header_def load32_def load_bytes_def)

lemma header_commands:
  assumes "\<not> header_invalid (of_nat (length file)) h" "length file < 2 ^ 32" "i < unat (mh_command_count h)"
  shows "unat (mh_command_offset h) + 32 * i + 32 \<le> length file"
proof -
  have "unat (mh_command_count h) \<le> 64"
    using assms(1) by (auto simp: header_invalid_def MODEL_MAX_COMMANDS_def word_less_nat_alt)
  then have "unat (mh_command_count h * 32) = 32 * unat (mh_command_count h)" by (simp add: unat_word_ariths)
  moreover have "unat (mh_command_offset h) + unat (mh_command_count h * 32) \<le> length file"
    using assms(1,2) by (simp add: header_invalid_def model_range_valid_nat unat_of_nat)
  ultimately show ?thesis using assms(3) by linarith
qed

lemma command_tensors:
  assumes "\<not> command_invalid (of_nat (length file)) c" "length file < 2 ^ 32"
  shows "mc_element_count c \<noteq> 0" "unat (mc_element_count c) \<le> 256"
    "unat (mc_input0_offset c) + 4 * unat (mc_element_count c) \<le> length file"
    "unat (mc_input1_offset c) + 4 * unat (mc_element_count c) \<le> length file"
proof -
  show n: "mc_element_count c \<noteq> 0" "unat (mc_element_count c) \<le> 256"
    using assms(1) by (auto simp: command_invalid_def TENSOR_MAX_ELEMENTS_def word_less_nat_alt)
  then have "unat (mc_element_count c * 4) = 4 * unat (mc_element_count c)" by (simp add: unat_word_ariths)
  then show "unat (mc_input0_offset c) + 4 * unat (mc_element_count c) \<le> length file"
    "unat (mc_input1_offset c) + 4 * unat (mc_element_count c) \<le> length file"
    using assms by (simp_all add: command_invalid_def model_range_valid_nat unat_of_nat)
qed

context async_os
begin

lemma submission_returns:
  assumes "keeps s m" "0xd00 \<le> length m" "length m < 2 ^ 32" "count \<noteq> 0" "unat count \<le> 256"
    "length xs = unat count" "length ys = unat count"
  shows "\<exists>r res s' m'. submit_vector_add OS dev entry opcode xs ys count expected polls s = Some (r, res, s') \<and>
    keeps s' m' \<and> length m' = length m"
proof (cases "opcode = OPCODE_VECTOR_ADD_U32 \<or> opcode = OPCODE_VECTOR_ADD_CUSTOM_U32")
  case True
  have l: "0x900 + 4 * unat count \<le> length m" using assms(2,5) by simp
  then obtain m1 where "stage_mem opcode count xs ys m = Some m1" using stage_mem_command [OF assms(5)] by blast
  then show ?thesis using submission [OF assms(1) l assms(3-7) True] by blast
next
  case False
  then show ?thesis using assms(1) by (auto simp: submit_vector_add_def)
qed

lemma run_model_returns:
  assumes k: "keeps s m" and len: "0xd00 \<le> length m" "length m < 2 ^ 32" "length file < 2 ^ 32"
  shows "\<exists>r res s' m'. run_model OS dev entry polls file s = Some (r, res, s') \<and> keeps s' m' \<and> length m' = length m"
proof (cases "length file < 32")
  case True
  then show ?thesis using k len by (auto simp: run_model_def word_less_nat_alt unat_of_nat)
next
  case False
  let ?K = "\<lambda>s. \<exists>m'. keeps s m' \<and> length m' = length m"
  obtain h where h: "load_header file = Some h" using load_header_in_range [of "file"] False by auto
  show ?thesis
  proof (cases "header_invalid (of_nat (length file)) h")
    case True
    then show ?thesis using h k len by (simp add: run_model_def Let_def) blast
  next
    case valid: False
    let ?f = "run_model_command OS dev entry polls file (unat (mh_command_offset h))"
    obtain i0 s0 where i0: "opennpux_coral_get_info OS dev s = Some (i0, s0)" "keeps s0 m"
      using info_answers [OF k] driver by (auto simp: opennpux_coral_get_info_def)
    let ?s1 = "s0\<lparr> world := snd (os_clock OS (world s0)) \<rparr>"
    have k1: "?K ?s1" using i0(2) clock [of "world s0"] by (auto simp: keeps_def)
    have step: "\<exists>b z. ?f i y = Some (b, z) \<and> ?K (snd z)" if i: "i \<in> set [0..<unat (mh_command_count h)]" and ky: "?K (snd y)" for i y
    proof -
      obtain res s1 m1 where y: "y = (res, s1)" "keeps s1 m1" "length m1 = length m" using ky by (cases y) auto
      obtain c where c: "load_command file (unat (mh_command_offset h) + 32 * i) = Some c"
        using load_command_in_range [of "unat (mh_command_offset h) + 32 * i" "file"] header_commands [OF valid len(3), of i] i
        by auto
      show ?thesis
      proof (cases "command_invalid (of_nat (length file)) c")
        case True
        then show ?thesis using c y by (auto simp: run_model_command_def)
      next
        case False
        note t = command_tensors [OF False len(3)]
        obtain xs where xs: "load_words file (unat (mc_input0_offset c)) (unat (mc_element_count c)) = Some xs"
          using load_words_in_range [OF t(3)] by blast
        obtain ys where ys: "load_words file (unat (mc_input1_offset c)) (unat (mc_element_count c)) = Some ys"
          using load_words_in_range [OF t(4)] by blast
        have "0xd00 \<le> length m1" "length m1 < 2 ^ 32" using len y(3) by simp_all
        then obtain r cr s2 m2 where "submit_vector_add OS dev entry (mc_opcode c) xs ys (mc_element_count c)
            (mc_expected_checksum c) polls s1 = Some (r, cr, s2)" "keeps s2 m2" "length m2 = length m1"
          using submission_returns [OF y(2) _ _ t(1,2) load_words_length [OF xs] load_words_length [OF ys]] by meson
        then show ?thesis using c False xs ys y by (auto simp: run_model_command_def)
      qed
    qed
    let ?start = "(no_model_result\<lparr> mr_command_count := mh_command_count h \<rparr>, ?s1)"
    have "\<exists>b z. loop_ok ?f [0..<unat (mh_command_count h)] ?start = Some (b, z) \<and> ?K (snd z)"
      by (rule loop_ok_total, rule step) (use k1 in simp_all)
    then obtain b z where z: "loop_ok ?f [0..<unat (mh_command_count h)] ?start = Some (b, z)" "?K (snd z)" by blast
    obtain res s2 m2 where zz: "z = (res, s2)" "keeps s2 m2" "length m2 = length m" using z(2) by (cases z) auto
    obtain i2 s3 where i2: "opennpux_coral_get_info OS dev s2 = Some (i2, s3)" "keeps s3 m2"
      using info_answers [OF zz(2)] driver by (auto simp: opennpux_coral_get_info_def)
    have k3: "keeps (s3\<lparr> world := snd (os_clock OS (world s3)) \<rparr>) m2"
      using i2(2) clock [of "world s3"] by (simp add: keeps_def)
    have l: "\<not> (of_nat (length file) :: u32) < 32" using False len(3) by (simp add: word_less_nat_alt unat_of_nat)
    obtain t0 w0 where c0: "os_clock OS (world s0) = (t0, w0)" by fastforce
    obtain t1 w1 where c1: "os_clock OS (world s3) = (t1, w1)" by fastforce
    have ks: "keeps (s3\<lparr> world := w1 \<rparr>) m2" "keeps (s3\<lparr> world := world s3 \<rparr>) m2" using k3 c1 i2(2) by simp_all
    note steps = run_model_def l h valid i0(1) c0 z(1) [unfolded c0 snd_conv zz(1)] i2(1) c1 Let_def
    show ?thesis
    proof (cases b)
      case True
      have "\<exists>r res' s'. run_model OS dev entry polls file s = Some (r, res', s') \<and> keeps s' m2"
        using ks i2(2) by (cases t0) (simp_all add: steps True)
      then show ?thesis using zz(3) by blast
    qed (use zz in \<open>auto simp: steps\<close>)
  qed
qed

end

section \<open>Submissions\<close>

lemma test_checksum_sum: "test_checksum n = sum_list (map2 (+) (test_input0 n) (test_input1 n))"
proof -
  have f: "fold (\<lambda>i c. c + g i) xs c = c + sum_list (map g xs)" for g :: "nat \<Rightarrow> u32" and xs c
    by (induction xs arbitrary: c) (simp_all add: add.assoc)
  have "map2 (+) (test_input0 n) (test_input1 n) = map (\<lambda>i. test_input0 n ! i + test_input1 n ! i) [0..<n]"
    by (auto simp: list_eq_iff_nth_eq test_input0_def test_input1_def)
  then show ?thesis by (simp add: test_checksum_def f)
qed

lemma test_sums: "map2 (+) (test_input0 n) (test_input1 n) = map (\<lambda>i. 3 * (of_nat i + 1)) [0..<n]"
  by (auto simp: list_eq_iff_nth_eq test_input0_def test_input1_def)

lemma submitted_ok:
  assumes "unat count \<le> 256" "opcode = OPCODE_VECTOR_ADD_U32 \<or> opcode = OPCODE_VECTOR_ADD_CUSTOM_U32"
  shows "command_abi_ok (submitted opcode count)" "command_opcode_ok (submitted opcode count)"
    "command_bounds_ok (submitted opcode count)" "command_separate (submitted opcode count)"
  using assms
  by (auto simp: submitted_def command_abi_ok_def command_opcode_ok_def command_bounds_ok_def command_separate_def
      tensor_in_bounds_nat abi_defs)

text \<open>The command firmware on a staged window.\<close>

lemma submitted_adds:
  assumes "unat count \<le> 256" "opcode = OPCODE_VECTOR_ADD_U32 \<or> opcode = OPCODE_VECTOR_ADD_CUSTOM_U32"
    and "0x1000 \<le> length m1" "length xs = unat count" "length ys = unat count"
    and "command_at m1 (submitted opcode count)"
    and in_words: "\<forall>i < unat count. load32 m1 (0x100 + 4 * i) = Some (xs ! i) \<and> load32 m1 (0x500 + 4 * i) = Some (ys ! i)"
    and "mac_ready a"
  shows "\<exists>m' a'. command_main clocked_port m1 a = Some (0, m', a') \<and> load32 m' f_status = Some COMMAND_COMPLETE \<and>
    load32 m' f_error_code = Some COMMAND_ERROR_NONE \<and> load32 m' f_completed_elements = Some count \<and>
    load_words m' 0x900 (unat count) = Some (map2 (+) xs ys)"
proof -
  have fields: "unat (cmd_input0_offset (submitted opcode count)) = 0x100" "unat (cmd_input1_offset (submitted opcode count)) = 0x500"
    "unat (cmd_output_offset (submitted opcode count)) = 0x900" "cmd_element_count (submitted opcode count) = count"
    by (simp_all add: submitted_def abi_defs)
  have "load_words m1 0x100 (unat count) = Some (map (\<lambda>i. xs ! i) [0..<unat count])"
    "load_words m1 0x500 (unat count) = Some (map (\<lambda>i. ys ! i) [0..<unat count])"
    using in_words by (auto intro!: load_words_map)
  then have ws: "load_words m1 0x100 (unat count) = Some xs" "load_words m1 0x500 (unat count) = Some ys"
    using assms(4,5) map_nth [of xs] map_nth [of ys] by simp_all
  show ?thesis
    using mac.command_main_runs [OF assms(6) submitted_ok [OF assms(1,2)], unfolded fields, OF assms(3,8) ws] by auto
qed

text \<open>
  How many observations of the status register a poll budget allows: a budget of no polls allows the one of
  the first question, any other one per millisecond, at most the largest timeout, and two more.
\<close>

definition poll_budget :: "u64 \<Rightarrow> nat" where
  "poll_budget polls = (if polls = 0 then 0 else unat (min polls INT_MAX) + 1)"

definition in_time :: "'a board \<Rightarrow> u32 \<Rightarrow> u64 \<Rightarrow> bytes \<Rightarrow> 'a \<Rightarrow> bool" where
  "in_time B entry polls m u =
     (case pg_latency (bd_program B entry) m u of None \<Rightarrow> False | Some n \<Rightarrow> n \<le> poll_budget polls)"

lemma machine_ends_in_time:
  "machine_ends B entry (if INT_MAX < polls then uint INT_MAX else uint polls) w =
    in_time B entry polls (fw_mem (mc_hw w)) (fw_unit (mc_hw w))"
proof -
  have "nat (if INT_MAX < polls then uint INT_MAX else uint polls) = unat (min polls INT_MAX)"
    by (cases "INT_MAX < polls") (auto simp: min_def)
  moreover have "unat (min polls INT_MAX) = 0 \<longleftrightarrow> polls = 0" by (auto simp: min_def INT_MAX_def unat_eq_0)
  ultimately show ?thesis by (auto simp: machine_ends_def in_time_def poll_budget_def split: option.splits)
qed

context firmware_program
begin

lemma free_idle: "machine_idle ok w \<Longrightarrow> machine_free ok (mc_files w) (open_count (mc_dev w)) w"
  by (simp add: machine_free_def)

lemma firmware_submission:
  assumes idle: "machine_idle ok (world s)" and len: "0x900 + 4 * unat count \<le> length (fw_mem (mc_hw (world s)))"
    and count: "count \<noteq> 0" "unat count \<le> 256" "length xs = unat count" "length ys = unat count"
    and op: "opcode = OPCODE_VECTOR_ADD_U32 \<or> opcode = OPCODE_VECTOR_ADD_CUSTOM_U32"
  shows "\<exists>m1 r res s' u. length m1 = length (fw_mem (mc_hw (world s))) \<and> command_at m1 (submitted opcode count) \<and>
    (\<forall>i < unat count. load32 m1 (0x100 + 4 * i) = Some (xs ! i) \<and> load32 m1 (0x500 + 4 * i) = Some (ys ! i)) \<and> ok u \<and>
    submit_vector_add (linux_os B) (host_dev org) entry opcode xs ys count expected polls s = Some (r, res, s') \<and>
    machine_idle ok (world s') \<and> load32 (fw_mem (mc_hw (world s'))) f_status = Some (va_status res) \<and>
    load32 (fw_mem (mc_hw (world s'))) f_completed_elements = Some (va_completed_elements res) \<and>
    (if \<not> in_time B entry polls m1 u then r = - 1 \<and> errno s' = ETIMEDOUT
     else case pg_main (bd_program B entry) m1 u of None \<Rightarrow> r = - 1 \<and> errno s' = EIO
       | Some (ret, m2, u') \<Rightarrow> fw_mem (mc_hw (world s')) = m2 \<and>
         (r = 0 \<longleftrightarrow> load32 m2 f_status = Some COMMAND_COMPLETE \<and>
            load32 m2 f_error_code = Some COMMAND_ERROR_NONE \<and> load32 m2 f_completed_elements = Some count \<and>
            load_words m2 0x900 (unat count) = Some (map2 (+) xs ys) \<and> sum_list (map2 (+) xs ys) = expected))"
proof -
  let ?w = "world s" let ?m = "fw_mem (mc_hw ?w)" let ?fs = "mc_files ?w" let ?oc = "open_count (mc_dev ?w)"
  have k: "mach.keeps ?fs ?oc s ?m" and l: "length ?m < 2 ^ 32"
    using idle free_idle [OF idle] by (simp_all add: mach.keeps_def machine_idle_def window_ok_def)
  obtain m1 where m1: "stage_mem opcode count xs ys ?m = Some m1" "length m1 = length ?m" "command_at m1 (submitted opcode count)"
    "\<forall>i < unat count. load32 m1 (0x100 + 4 * i) = Some (xs ! i) \<and> load32 m1 (0x500 + 4 * i) = Some (ys ! i)"
    using stage_mem_command [OF count(2) len] by blast
  from mach.submission [where org = org and entry = entry and expected = expected and polls = polls, OF k len l count op m1(1)]
  obtain r res s' w m2 where r: "submit_vector_add (linux_os B) (host_dev org) entry opcode xs ys count expected polls s = Some (r, res, s')"
    "mach.keeps ?fs ?oc s' m2" "load32 m2 f_status = Some (va_status res)"
    "load32 m2 f_completed_elements = Some (va_completed_elements res)"
    and w: "machine_free ok ?fs ?oc w" "fw_mem (mc_hw w) = m1"
    and e: "if machine_ends B entry (if INT_MAX < polls then uint INT_MAX else uint polls) w then
         (case machine_exec B entry w of None \<Rightarrow> r = - 1 \<and> errno s' = EIO
          | Some m' \<Rightarrow> m2 = m' \<and> (r = 0 \<longleftrightarrow> load32 m' f_status = Some COMMAND_COMPLETE \<and>
              load32 m' f_error_code = Some COMMAND_ERROR_NONE \<and> load32 m' f_completed_elements = Some count \<and>
              load_words m' 0x900 (unat count) = Some (map2 (+) xs ys) \<and> sum_list (map2 (+) xs ys) = expected))
       else r = - 1 \<and> errno s' = ETIMEDOUT"
    by blast
  have u: "ok (fw_unit (mc_hw w))" using w(1) by (simp add: machine_free_def machine_idle_def window_ok_def)
  have s': "machine_idle ok (world s')" "fw_mem (mc_hw (world s')) = m2" using r(2) by (simp_all add: mach.keeps_def machine_free_def)
  have "if \<not> in_time B entry polls m1 (fw_unit (mc_hw w)) then r = - 1 \<and> errno s' = ETIMEDOUT
     else case pg_main (bd_program B entry) m1 (fw_unit (mc_hw w)) of None \<Rightarrow> r = - 1 \<and> errno s' = EIO
       | Some (ret, m2, u') \<Rightarrow> fw_mem (mc_hw (world s')) = m2 \<and>
         (r = 0 \<longleftrightarrow> load32 m2 f_status = Some COMMAND_COMPLETE \<and>
            load32 m2 f_error_code = Some COMMAND_ERROR_NONE \<and> load32 m2 f_completed_elements = Some count \<and>
            load_words m2 0x900 (unat count) = Some (map2 (+) xs ys) \<and> sum_list (map2 (+) xs ys) = expected)"
    using e unfolding machine_ends_in_time w(2) s'(2)
    by (cases "pg_main (bd_program B entry) m1 (fw_unit (mc_hw w))") (auto simp: machine_exec_def w(2) split: if_splits)
  then show ?thesis using m1(2-4) r(1,3,4) s' u by blast
qed

lemma firmware_run_model:
  assumes "machine_idle ok (world s)" "fw_mem (mc_hw (world s)) \<noteq> []" "length file < 2 ^ 32"
  shows "\<exists>r res s'. run_model (linux_os B) (host_dev org) entry polls file s = Some (r, res, s') \<and> machine_idle ok (world s') \<and>
    mc_files (world s') = mc_files (world s) \<and> open_count (mc_dev (world s')) = open_count (mc_dev (world s))"
proof -
  let ?m = "fw_mem (mc_hw (world s))"
  have k: "mach.keeps (mc_files (world s)) (open_count (mc_dev (world s))) s ?m" and l: "0xd00 \<le> length ?m" "length ?m < 2 ^ 32"
    using assms(1,2) free_idle [OF assms(1)] by (auto simp: mach.keeps_def machine_idle_def window_ok_def dest!: dvd_imp_le)
  from mach.run_model_returns [where org = org and entry = entry and polls = polls, OF k l assms(3)]
  show ?thesis by (auto simp: mach.keeps_def machine_free_def)
qed

end

text \<open>The command firmware on a board.\<close>

lemma vector_add_runs:
  fixes s :: "custom_mac machine host"
  assumes B: "\<forall>e. program_ok mac_ready (bd_program B e)" "pg_main (bd_program B entry) = command_main clocked_port"
    and idle: "machine_idle mac_ready (world s)" and ne: "fw_mem (mc_hw (world s)) \<noteq> []"
    and count: "count \<noteq> 0" "unat count \<le> 256" "length xs = unat count" "length ys = unat count"
    and op: "opcode = OPCODE_VECTOR_ADD_U32 \<or> opcode = OPCODE_VECTOR_ADD_CUSTOM_U32"
  shows "\<exists>r res s'. submit_vector_add (linux_os B) (host_dev org) entry opcode xs ys count
      (sum_list (map2 (+) xs ys)) polls s = Some (r, res, s') \<and> machine_idle mac_ready (world s') \<and>
    ((\<forall>m u. in_time B entry polls m u) \<longrightarrow> r = 0 \<and> va_status res = COMMAND_COMPLETE \<and> va_completed_elements res = count \<and>
      load_words (fw_mem (mc_hw (world s'))) 0x900 (unat count) = Some (map2 (+) xs ys)) \<and>
    ((\<forall>m u. \<not> in_time B entry polls m u) \<longrightarrow> r = - 1 \<and> errno s' = ETIMEDOUT)"
proof -
  let ?m = "fw_mem (mc_hw (world s))"
  have fw: "firmware_program B mac_ready" using B(1) by unfold_locales blast
  have l: "0x1000 \<le> length ?m" using idle ne by (auto simp: machine_idle_def window_ok_def dest!: dvd_imp_le)
  then have l9: "0x900 + 4 * unat count \<le> length ?m" using count(2) by simp
  from firmware_program.firmware_submission [OF fw idle l9 count op, of org entry "sum_list (map2 (+) xs ys)" polls]
  obtain m1 r res s' u where m1: "length m1 = length ?m" "command_at m1 (submitted opcode count)"
    "\<forall>i < unat count. load32 m1 (0x100 + 4 * i) = Some (xs ! i) \<and> load32 m1 (0x500 + 4 * i) = Some (ys ! i)" "mac_ready u"
    and r: "submit_vector_add (linux_os B) (host_dev org) entry opcode xs ys count (sum_list (map2 (+) xs ys)) polls s = Some (r, res, s')"
      "machine_idle mac_ready (world s')" "load32 (fw_mem (mc_hw (world s'))) f_status = Some (va_status res)"
      "load32 (fw_mem (mc_hw (world s'))) f_completed_elements = Some (va_completed_elements res)"
    and e: "if \<not> in_time B entry polls m1 u then r = - 1 \<and> errno s' = ETIMEDOUT
     else case pg_main (bd_program B entry) m1 u of None \<Rightarrow> r = - 1 \<and> errno s' = EIO
       | Some (ret, m2, u') \<Rightarrow> fw_mem (mc_hw (world s')) = m2 \<and>
         (r = 0 \<longleftrightarrow> load32 m2 f_status = Some COMMAND_COMPLETE \<and>
            load32 m2 f_error_code = Some COMMAND_ERROR_NONE \<and> load32 m2 f_completed_elements = Some count \<and>
            load_words m2 0x900 (unat count) = Some (map2 (+) xs ys) \<and> sum_list (map2 (+) xs ys) = sum_list (map2 (+) xs ys))"
    by blast
  have l1: "0x1000 \<le> length m1" using l m1(1) by simp
  from submitted_adds [OF count(2) op l1 count(3,4) m1(2-4)] B(2)
  obtain m' a' where "pg_main (bd_program B entry) m1 u = Some (0, m', a')" "load32 m' f_status = Some COMMAND_COMPLETE"
    "load32 m' f_error_code = Some COMMAND_ERROR_NONE" "load32 m' f_completed_elements = Some count"
    "load_words m' 0x900 (unat count) = Some (map2 (+) xs ys)" by auto
  then show ?thesis using r e
    by (intro exI [of _ r] exI [of _ res] exI [of _ s']) auto
qed

section \<open>Properties\<close>

text \<open>
  C1: Vector addition from the host library to the firmware and back, on any board whose program at the
  entry point is the command firmware. On an idle machine whose driver knows the shared window, the library
  opens the device through the driver, and the vector-add test of \<open>coral_runtime.c\<close> with either opcode and
  any admissible count stages the command, starts the device and polls it. If the firmware ends within the
  observations the poll budget allows, the test returns 0, the status is complete, every element is counted
  and the window holds the sums \<open>3 * (i + 1)\<close>; if it does not, the test returns -1 with \<open>ETIMEDOUT\<close>. Either
  way the device is reset and the machine idle again.
\<close>

theorem vector_add_test_end_to_end:
  assumes "\<forall>e. program_ok mac_ready (bd_program B e)" "pg_main (bd_program B entry) = command_main clocked_port"
    and "machine_idle mac_ready (world s)" "fw_mem (mc_hw (world s)) \<noteq> []" "\<not> open_count (mc_dev (world s))"
    and "count \<noteq> 0" "unat count \<le> 256" "opcode = OPCODE_VECTOR_ADD_U32 \<or> opcode = OPCODE_VECTOR_ADD_CUSTOM_U32"
  shows "\<exists>dev s1 r res s2. opennpux_coral_open (linux_os B) org s = Some (0, dev, s1) \<and>
    opennpux_coral_vector_add_test (linux_os B) dev entry opcode count polls old s1 = Some (r, res, s2) \<and>
    machine_idle mac_ready (world s2) \<and>
    ((\<forall>m u. in_time B entry polls m u) \<longrightarrow> r = 0 \<and> va_status res = COMMAND_COMPLETE \<and> va_completed_elements res = count \<and>
      load_words (fw_mem (mc_hw (world s2))) 0x900 (unat count) = Some (map (\<lambda>i. 3 * (of_nat i + 1)) [0..<unat count])) \<and>
    ((\<forall>m u. \<not> in_time B entry polls m u) \<longrightarrow> r = - 1 \<and> errno s2 = ETIMEDOUT)"
proof -
  let ?s1 = "s\<lparr> world := (world s)\<lparr> mc_dev := (mc_dev (world s))\<lparr> open_count := True \<rparr> \<rparr> \<rparr>"
  have idle: "machine_idle mac_ready (world ?s1)" "fw_mem (mc_hw (world ?s1)) \<noteq> []"
    using assms(3,4) by (simp_all add: machine_idle_def window_ok_def)
  have "length (test_input0 (unat count)) = unat count" "length (test_input1 (unat count)) = unat count"
    by (simp_all add: test_input0_def test_input1_def)
  note run = vector_add_runs [OF assms(1,2) idle assms(6,7) this assms(8), of org polls]
  have "\<not> (count = 0 \<or> TENSOR_MAX_ELEMENTS < count)" using assms(6,7) by (simp add: TENSOR_MAX_ELEMENTS_def word_less_nat_alt)
  then show ?thesis
    using run host_opens [OF assms(5), of B org]
    by (auto simp: opennpux_coral_vector_add_test_def test_checksum_sum test_sums)
qed

definition idle_mac :: custom_mac where
  "idle_mac = mac_Reset \<lparr> mac_model = mac_reset, active_cycles = 0 \<rparr>"

lemma idle_mac_ready: "mac_ready idle_mac"
  by (simp add: idle_mac_def mac_ready_def mac_Reset_regs mac_reset_def)

definition example_machine :: "'a \<Rightarrow> 'a machine host" where
  "example_machine u = \<lparr> world = \<lparr> mc_dev = \<lparr> regs_start = 0, regs_size = 0x100000, shared_start = 0x80000000, shared_size = 0x1000,
       completion_wq = 0, completion_work = False, running = False, open_count = False \<rparr>,
     mc_hw = \<lparr> fw_control = 1, fw_core = Held, fw_entry = 0, fw_base = 0x80000000, fw_transfers = 0, fw_mem = replicate 0x1000 0,
       fw_unit = u \<rparr>, mc_files = [], mc_time = 0 \<rparr>, errno = 0 \<rparr>"

lemma example_machine_idle:
  "ok u \<Longrightarrow> machine_idle ok (world (example_machine u))" "fw_mem (mc_hw (world (example_machine u))) \<noteq> []"
  "length (fw_mem (mc_hw (world (example_machine u)))) = 0x1000" "\<not> open_count (mc_dev (world (example_machine u)))"
  by (simp_all add: example_machine_def machine_idle_def window_ok_def PAGE_ALIGNED_def)

lemma firmware_board_program:
  "pg_main (bd_program (firmware_board entry main latency files) entry) = main"
  "in_time (firmware_board entry main (Some n) files) entry polls m u \<longleftrightarrow> n \<le> poll_budget polls"
  by (simp_all add: firmware_board_def in_time_def)

text \<open>The firmware at \<open>0x80\<close> needs twenty status reads: a budget of a hundred polls is enough, one of ten is not.\<close>

theorem vector_add_test_end_to_end_witness:
  "\<exists>dev s1 res s2 res' s3. opennpux_coral_open (linux_os (firmware_board 0x80 (command_main clocked_port) (Some 20) (\<lambda>_. None))) 0
      (example_machine idle_mac) = Some (0, dev, s1) \<and>
    opennpux_coral_vector_add_test (linux_os (firmware_board 0x80 (command_main clocked_port) (Some 20) (\<lambda>_. None))) dev
      0x80 2 256 100 (new_vector_add_result 0 0) s1 = Some (0, res, s2) \<and> va_completed_elements res = 256 \<and>
    opennpux_coral_vector_add_test (linux_os (firmware_board 0x80 (command_main clocked_port) (Some 20) (\<lambda>_. None))) dev
      0x80 2 256 10 (new_vector_add_result 0 0) s1 = Some (- 1, res', s3) \<and> errno s3 = ETIMEDOUT"
proof -
  let ?B = "firmware_board 0x80 (command_main clocked_port) (Some 20) (\<lambda>_. None)"
  have ok: "\<forall>e. program_ok mac_ready (bd_program ?B e)" by (intro allI firmware_board_ok command_main_ok)
  have n: "(256 :: u32) \<noteq> 0" "unat (256 :: u32) \<le> 256" "(2 :: u32) = OPCODE_VECTOR_ADD_U32 \<or> (2 :: u32) = OPCODE_VECTOR_ADD_CUSTOM_U32"
    by (simp_all add: abi_defs)
  have t: "\<forall>m u. in_time ?B 0x80 100 m u" "\<forall>m u. \<not> in_time ?B 0x80 10 m u"
    by (simp_all add: firmware_board_program poll_budget_def INT_MAX_def min_def)
  note run = vector_add_test_end_to_end [OF ok firmware_board_program(1) example_machine_idle(1) [of mac_ready, OF idle_mac_ready]
      example_machine_idle(2,4) n, where org = 0 and old = "new_vector_add_result 0 0"]
  show ?thesis using run [of 100] run [of 10] t by auto
qed

text \<open>
  C10: When a submission reports success, for any board whose programs keep the size of the window. The
  submission stages a well-formed command with both inputs, and the device runs the program of the entry
  point on that window. The call returns 0 if and only if the program ends within the observations of the
  poll budget, has a result, and in the window it leaves the command is complete without error, all
  elements are counted, the output words are the element-wise sums of the inputs and their sum is the
  expected checksum. A program that takes longer, or never ends, is reported as \<open>ETIMEDOUT\<close>, one that
  faults as \<open>EIO\<close>. So no firmware can make the library accept a wrong result, and one that computes the
  sums in time is refused only for a wrong expected checksum.
\<close>

theorem submission_exact:
  fixes B :: "unit board"
  assumes "\<forall>e. program_ok (\<lambda>_. True) (bd_program B e)"
    and "machine_idle (\<lambda>_. True) (world s)" "0x900 + 4 * unat count \<le> length (fw_mem (mc_hw (world s)))"
    and "count \<noteq> 0" "unat count \<le> 256" "length xs = unat count" "length ys = unat count"
    and "opcode = OPCODE_VECTOR_ADD_U32 \<or> opcode = OPCODE_VECTOR_ADD_CUSTOM_U32"
  shows "\<exists>m1 r res s'. length m1 = length (fw_mem (mc_hw (world s))) \<and> command_at m1 (submitted opcode count) \<and>
    (\<forall>i < unat count. load32 m1 (0x100 + 4 * i) = Some (xs ! i) \<and> load32 m1 (0x500 + 4 * i) = Some (ys ! i)) \<and>
    submit_vector_add (linux_os B) (host_dev org) entry opcode xs ys count expected polls s = Some (r, res, s') \<and>
    machine_idle (\<lambda>_. True) (world s') \<and>
    (r = 0 \<longleftrightarrow> in_time B entry polls m1 () \<and> (\<exists>ret m2. pg_main (bd_program B entry) m1 () = Some (ret, m2, ()) \<and>
       load32 m2 f_status = Some COMMAND_COMPLETE \<and> load32 m2 f_error_code = Some COMMAND_ERROR_NONE \<and>
       load32 m2 f_completed_elements = Some count \<and>
       load_words m2 0x900 (unat count) = Some (map2 (+) xs ys) \<and> sum_list (map2 (+) xs ys) = expected)) \<and>
    (\<not> in_time B entry polls m1 () \<longrightarrow> r = - 1 \<and> errno s' = ETIMEDOUT) \<and>
    (in_time B entry polls m1 () \<and> pg_main (bd_program B entry) m1 () = None \<longrightarrow> r = - 1 \<and> errno s' = EIO)"
proof -
  have fw: "firmware_program B (\<lambda>_. True)" using assms(1) by unfold_locales blast
  from firmware_program.firmware_submission [OF fw assms(2-8), of org entry expected polls]
  obtain m1 r res s' and u :: unit where m1: "length m1 = length (fw_mem (mc_hw (world s)))" "command_at m1 (submitted opcode count)"
    "\<forall>i < unat count. load32 m1 (0x100 + 4 * i) = Some (xs ! i) \<and> load32 m1 (0x500 + 4 * i) = Some (ys ! i)"
    and r: "submit_vector_add (linux_os B) (host_dev org) entry opcode xs ys count expected polls s = Some (r, res, s')"
      "machine_idle (\<lambda>_. True) (world s')"
    and eu: "if \<not> in_time B entry polls m1 u then r = - 1 \<and> errno s' = ETIMEDOUT
     else case pg_main (bd_program B entry) m1 u of None \<Rightarrow> r = - 1 \<and> errno s' = EIO
       | Some (ret, m2, u') \<Rightarrow> fw_mem (mc_hw (world s')) = m2 \<and>
         (r = 0 \<longleftrightarrow> load32 m2 f_status = Some COMMAND_COMPLETE \<and>
            load32 m2 f_error_code = Some COMMAND_ERROR_NONE \<and> load32 m2 f_completed_elements = Some count \<and>
            load_words m2 0x900 (unat count) = Some (map2 (+) xs ys) \<and> sum_list (map2 (+) xs ys) = expected)"
    by blast
  note e = eu [unfolded unit_eq [of u]]
  have "(r = 0 \<longleftrightarrow> in_time B entry polls m1 () \<and> (\<exists>ret m2. pg_main (bd_program B entry) m1 () = Some (ret, m2, ()) \<and>
       load32 m2 f_status = Some COMMAND_COMPLETE \<and> load32 m2 f_error_code = Some COMMAND_ERROR_NONE \<and>
       load32 m2 f_completed_elements = Some count \<and>
       load_words m2 0x900 (unat count) = Some (map2 (+) xs ys) \<and> sum_list (map2 (+) xs ys) = expected)) \<and>
    (\<not> in_time B entry polls m1 () \<longrightarrow> r = - 1 \<and> errno s' = ETIMEDOUT) \<and>
    (in_time B entry polls m1 () \<and> pg_main (bd_program B entry) m1 () = None \<longrightarrow> r = - 1 \<and> errno s' = EIO)"
    using e by (cases "pg_main (bd_program B entry) m1 ()") (auto split: if_splits)
  then show ?thesis using m1 r by blast
qed

text \<open>The command firmware with the custom unit reset before every run.\<close>

definition reset_firmware :: "unit firmware" where
  "reset_firmware m u = map_option (\<lambda>(r, m, a). (r, m, ())) (command_main clocked_port m idle_mac)"

lemma reset_firmware_length: "pred_option (\<lambda>(r, m', u'). length m' = length m \<and> True) (reset_firmware m u)"
  using command_main_length [of m clocked_port idle_mac]
  by (cases "command_main clocked_port m idle_mac") (auto simp: reset_firmware_def)

abbreviation (input) reset_board :: "(string \<Rightarrow> bytes option) \<Rightarrow> unit board" where
  "reset_board files \<equiv> firmware_board 0x80 reset_firmware (Some 20) files"

lemma reset_board_ok: "\<forall>e. program_ok (\<lambda>_. True) (bd_program (reset_board files) e)"
  by (intro allI firmware_board_ok reset_firmware_length)

theorem submission_exact_witness:
  "\<exists>res s' res' s''. submit_vector_add (linux_os (reset_board (\<lambda>_. None))) (host_dev 0) 0x80 2 [1, 2] [40, 41] 2 84 100 (example_machine ()) =
      Some (0, res, s') \<and>
    submit_vector_add (linux_os (reset_board (\<lambda>_. None))) (host_dev 0) 0x80 2 [1, 2] [40, 41] 2 84 10 (example_machine ()) =
      Some (- 1, res', s'') \<and> errno s'' = ETIMEDOUT"
proof -
  let ?B = "reset_board (\<lambda>_. None)"
  have op: "(2 :: u32) = OPCODE_VECTOR_ADD_U32 \<or> (2 :: u32) = OPCODE_VECTOR_ADD_CUSTOM_U32" by (simp add: abi_defs)
  have n: "(2 :: u32) \<noteq> 0" "unat (2 :: u32) \<le> 256" "length [1 :: u32, 2] = unat (2 :: u32)" "length [40 :: u32, 41] = unat (2 :: u32)" by simp_all
  have len: "0x900 + 4 * unat (2 :: u32) \<le> length (fw_mem (mc_hw (world (example_machine ()))))" by (simp add: example_machine_idle(3))
  have idle: "machine_idle (\<lambda>_. True) (world (example_machine ()))" by (rule example_machine_idle(1)) simp
  have t: "in_time ?B 0x80 100 m u" "\<not> in_time ?B 0x80 10 m u" for m u
    by (simp_all add: firmware_board_program poll_budget_def INT_MAX_def min_def)
  note ex = submission_exact [OF reset_board_ok [of "\<lambda>_. None"] idle len n op, where org = 0 and entry = "0x80" and expected = 84, unfolded example_machine_idle(3)]
  obtain m1 r res s' where m1: "length m1 = 0x1000" "command_at m1 (submitted 2 2)"
    "\<forall>i < unat (2 :: u32). load32 m1 (0x100 + 4 * i) = Some ([1, 2] ! i) \<and> load32 m1 (0x500 + 4 * i) = Some ([40, 41] ! i)"
    and r: "submit_vector_add (linux_os ?B) (host_dev 0) 0x80 2 [1, 2] [40, 41] 2 84 100 (example_machine ()) = Some (r, res, s')"
      "r = 0 \<longleftrightarrow> in_time ?B 0x80 100 m1 () \<and> (\<exists>ret m2. pg_main (bd_program ?B 0x80) m1 () = Some (ret, m2, ()) \<and>
       load32 m2 f_status = Some COMMAND_COMPLETE \<and> load32 m2 f_error_code = Some COMMAND_ERROR_NONE \<and>
       load32 m2 f_completed_elements = Some 2 \<and>
       load_words m2 0x900 (unat (2 :: u32)) = Some (map2 (+) [1, 2] [40, 41]) \<and> sum_list (map2 (+) [1, 2] [40, 41 :: u32]) = 84)"
    using ex [where polls = 100] by blast
  have "0x1000 \<le> length m1" using m1(1) by simp
  from submitted_adds [OF n(2) op this n(3,4) m1(2,3) idle_mac_ready] t(1)
  have "r = 0" unfolding r(2) firmware_board_program(1) by (auto simp: reset_firmware_def)
  moreover obtain r' res' s'' where "submit_vector_add (linux_os ?B) (host_dev 0) 0x80 2 [1, 2] [40, 41] 2 84 10 (example_machine ()) = Some (r', res', s'')"
    "r' = - 1 \<and> errno s'' = ETIMEDOUT" using ex [where polls = 10] t(2) by blast
  ultimately show ?thesis using r(1) by blast
qed

text \<open>
  C34: Running a model file returns, whatever the file holds. For every file of less than four gigabytes,
  every board whose programs keep the size of the window, ending or not, and every poll budget, \<open>run_model\<close>
  ends with a result: the checks of the header and of the commands keep every access to the command table
  and to the input tensors inside the file, the staging keeps inside the window, every wait ends, and the
  machine is idle again with the same open files.
\<close>

theorem run_model_total:
  assumes "\<forall>e. program_ok (\<lambda>_. True) (bd_program B e)"
    and "machine_idle (\<lambda>_. True) (world s)" "fw_mem (mc_hw (world s)) \<noteq> []" "length file < 2 ^ 32"
  shows "\<exists>r res s'. run_model (linux_os B) (host_dev org) entry polls file s = Some (r, res, s') \<and>
    machine_idle (\<lambda>_. True) (world s') \<and> mc_files (world s') = mc_files (world s)"
proof -
  have fw: "firmware_program B (\<lambda>_. True)" using assms(1) by unfold_locales blast
  show ?thesis using firmware_program.firmware_run_model [OF fw assms(2-4), of org entry polls] by blast
qed

text \<open>A file with one valid command, which adds 40 and 2, on a firmware that ends in time, too late or never.\<close>

definition example_model :: bytes where
  "example_model = concat (map (le_bytes 4) ([MODEL_MAGIC, MODEL_VERSION, 32, 72, 1, 32, 0, 0, 2, 1, 64, 68, 42, 0, 0, 0, 40, 2] :: u32 list))"

theorem run_model_total_witness:
  "map_option (header_invalid 72) (load_header example_model) = Some False \<and>
   map_option (command_invalid 72) (load_command example_model 32) = Some False \<and>
   (\<forall>latency. \<exists>r res s'. run_model (linux_os (firmware_board 0x80 reset_firmware latency (\<lambda>_. None))) (host_dev 0) 0x80 100 example_model
      (example_machine ()) = Some (r, res, s') \<and> machine_idle (\<lambda>_. True) (world s'))"
proof (intro conjI allI)
  show "map_option (header_invalid 72) (load_header example_model) = Some False" by code_simp
  show "map_option (command_invalid 72) (load_command example_model 32) = Some False" by code_simp
  fix latency
  have ok: "\<forall>e. program_ok (\<lambda>_. True) (bd_program (firmware_board 0x80 reset_firmware latency (\<lambda>_. None)) e)"
    by (intro allI firmware_board_ok reset_firmware_length)
  have idle: "machine_idle (\<lambda>_. True) (world (example_machine ()))" by (rule example_machine_idle(1)) simp
  have len: "length example_model < 2 ^ 32" by (simp add: example_model_def)
  show "\<exists>r res s'. run_model (linux_os (firmware_board 0x80 reset_firmware latency (\<lambda>_. None))) (host_dev 0) 0x80 100 example_model
      (example_machine ()) = Some (r, res, s') \<and> machine_idle (\<lambda>_. True) (world s')"
    using run_model_total [OF ok idle example_machine_idle(2) len, of 0 "0x80" 100] by blast
qed

end
