(* ===== verification/Coralctl_Safety.thy ===== *)
theory Coralctl_Safety
  imports Coralctl End_To_End
begin

text \<open>
  What \<open>coralctl\<close> does on the machine of \<open>Host_Machine\<close>: for every argument vector it ends with an exit
  code, and it leaves the device closed and idle and no file open.
\<close>

section \<open>Every command returns\<close>

context async_os
begin

text \<open>A computation that returns and keeps the size of the window.\<close>

definition returns :: "nat \<Rightarrow> ('b \<times> 'c \<times> 'a host) option \<Rightarrow> bool" where
  "returns n x \<longleftrightarrow> (\<exists>a b s' m'. x = Some (a, b, s') \<and> keeps s' m' \<and> length m' = n)"

lemma returnsI: "x = Some (a, b, s') \<Longrightarrow> keeps s' m' \<Longrightarrow> length m' = n \<Longrightarrow> returns n x"
  by (auto simp: returns_def)

lemma get_info_returns:
  assumes "keeps s m"
  shows "\<exists>i s'. opennpux_coral_get_info OS dev s = Some (i, s') \<and> keeps s' m"
  using info_answers [OF assms] driver by (auto simp: opennpux_coral_get_info_def)

lemma window_size:
  assumes "keeps s m"
  shows "length m < 2 ^ 32"
proof -
  obtain v :: u32 where "unat v = length m" using read_window_size(1) [OF assms] by blast
  then show ?thesis using u32_lt [of v] by simp
qed

lemma open_too_small:
  assumes "keeps s m" "length m < unat min_size"
  shows "\<exists>sw s'. opennpux_coral_open_shared_window OS dev min_size s = Some (- 1, sw, s') \<and> keeps s' m"
proof -
  obtain org s1 where s1: "opennpux_coral_read_reg OS dev (ucast SHARED_BASE) s = Some (org, s1)" "keeps s1 m"
    using read_window_size(2) [OF assms(1)] by blast
  obtain n s2 where s2: "opennpux_coral_read_reg OS dev (ucast SHARED_SIZE) s1 = Some (n, s2)" "keeps s2 m" "unat n = length m"
    using read_window_size(1) [OF s1(2)] by blast
  have "ucast n < min_size" using assms(2) s2(3) by (simp add: word_less_nat_alt)
  then show ?thesis using s1(1) s2(1,2) by (simp add: opennpux_coral_open_shared_window_def Let_def)
qed

lemma open_any:
  assumes "keeps s m" "m \<noteq> []"
  shows "\<exists>r sw s'. opennpux_coral_open_shared_window OS dev min_size s = Some (r, sw, s') \<and> keeps s' m \<and>
    (r = 0 \<longrightarrow> sw_offset sw = 0 \<and> unat (sw_size sw) = length m \<and> unat min_size \<le> length m)"
proof (cases "unat min_size \<le> length m")
  case True
  then show ?thesis using open_window [OF assms(1) _ assms(2)] by blast
next
  case False
  then show ?thesis using open_too_small [OF assms(1), of min_size] by auto
qed

lemma load_in_range:
  assumes "keeps s m" "unat a + 4 \<le> length m"
  shows "\<exists>v. mapped_load32 OS (dv_fd dev) a s = Some (v, s)"
proof -
  obtain v where "load32 m (unat a) = Some v" using assms(2) by (auto simp: load32_def load_bytes_def)
  then show ?thesis using window_load32 [OF assms(1)] by blast
qed

lemma store_in_range:
  assumes "keeps s m" "unat a + length bs \<le> length m"
  shows "\<exists>s' m'. mapped_store OS (dv_fd dev) a bs s = Some s' \<and> keeps s' m' \<and> length m' = length m"
proof -
  obtain m' where "store_bytes m (unat a) bs = Some m'" "length m' = length m"
    using ram.wr_in_range [OF assms(2)] by blast
  then show ?thesis using window_store [OF assms(1)] by blast
qed

lemma mem_info_returns: "keeps s m \<Longrightarrow> m \<noteq> [] \<Longrightarrow> returns (length m) (print_mem_info OS dev s)"
  using open_any [of s m 0] close_window by (fastforce simp: print_mem_info_def returns_def)

lemma clear_returns:
  assumes "keeps s m" "m \<noteq> []"
  shows "\<exists>r s' m'. opennpux_coral_clear_shared_window OS dev s = Some (r, s') \<and> keeps s' m' \<and> length m' = length m"
proof -
  obtain r sw s1 where o: "opennpux_coral_open_shared_window OS dev 0 s = Some (r, sw, s1)" "keeps s1 m"
    "r = 0 \<longrightarrow> sw_offset sw = 0 \<and> unat (sw_size sw) = length m" using open_any [OF assms] by blast
  show ?thesis
  proof (cases "r = 0")
    case True
    obtain s2 m2 where "mapped_store OS (dv_fd dev) 0 (replicate (length m) 0) s1 = Some s2" "keeps s2 m2" "length m2 = length m"
      using store_in_range [OF o(2), of 0 "replicate (length m) 0"] by auto
    then show ?thesis using o True close_window by (auto simp: opennpux_coral_clear_shared_window_def)
  qed (use o in \<open>auto simp: opennpux_coral_clear_shared_window_def\<close>)
qed

lemma read_shared_returns:
  assumes "keeps s m" "m \<noteq> []"
  shows "returns (length m) (opennpux_coral_read_shared_u32 OS dev offset s)"
proof -
  obtain r sw s1 where o: "opennpux_coral_open_shared_window OS dev 4 s = Some (r, sw, s1)" "keeps s1 m"
    "r = 0 \<longrightarrow> sw_offset sw = 0 \<and> unat (sw_size sw) = length m" using open_any [OF assms] by blast
  show ?thesis
  proof (cases "r = 0 \<and> 4 dvd unat offset \<and> unat offset + 4 \<le> unat (sw_size sw)")
    case True
    obtain v where "mapped_load32 OS (dv_fd dev) offset s1 = Some (v, s1)" using load_in_range [OF o(2), of offset] o(3) True by auto
    then show ?thesis using o True close_window [OF o(2)]
      by (auto simp: opennpux_coral_read_shared_u32_def check_access returns_def)
  next
    case False
    have "keeps (opennpux_coral_close_shared_window OS dev sw (s1\<lparr> errno := e \<rparr>)) m" for e
      using close_window [of "s1\<lparr> errno := e \<rparr>" m] o(2) by simp
    then show ?thesis using o False
      by (auto simp: opennpux_coral_read_shared_u32_def check_access returns_def split: if_splits)
  qed
qed

lemma write_shared_returns:
  assumes "keeps s m" "m \<noteq> []"
  shows "\<exists>r s' m'. opennpux_coral_write_shared_u32 OS dev offset v s = Some (r, s') \<and> keeps s' m' \<and> length m' = length m"
proof -
  obtain r sw s1 where o: "opennpux_coral_open_shared_window OS dev 4 s = Some (r, sw, s1)" "keeps s1 m"
    "r = 0 \<longrightarrow> sw_offset sw = 0 \<and> unat (sw_size sw) = length m" using open_any [OF assms] by blast
  show ?thesis
  proof (cases "r = 0 \<and> 4 dvd unat offset \<and> unat offset + 4 \<le> unat (sw_size sw)")
    case True
    obtain s2 m2 where "mapped_store32 OS (dv_fd dev) offset v s1 = Some s2" "keeps s2 m2" "length m2 = length m"
      using store_in_range [OF o(2), of offset "le_bytes 4 v"] o(3) True by (auto simp: mapped_store32_def)
    then show ?thesis using o True close_window by (auto simp: opennpux_coral_write_shared_u32_def check_access)
  next
    case False
    have "keeps (opennpux_coral_close_shared_window OS dev sw (s1\<lparr> errno := e \<rparr>)) m" for e
      using close_window [of "s1\<lparr> errno := e \<rparr>" m] o(2) by simp
    then show ?thesis using o False
      by (auto simp: opennpux_coral_write_shared_u32_def check_access split: if_splits)
  qed
qed

lemma run_returns:
  assumes "keeps s m"
  shows "\<exists>r st s' m'. opennpux_coral_run OS dev entry polls final s = Some (r, st, s') \<and> keeps s' m' \<and> length m' = length m"
  using run_executes [OF assms] by blast

lemma dma_counter_returns:
  assumes "keeps s m" "offset \<in> {ucast DMA_REQUESTS, ucast DMA_COMPLETIONS, ucast DMA_ERRORS, ucast DMA_STATE}"
  shows "\<exists>v s'. opennpux_coral_read_reg OS dev offset s = Some (v, s') \<and> keeps s' m"
proof -
  obtain i s' where "get_info_driver OS dev s = Some (i, s')" "keeps s' m" using info_answers [OF assms(1)] by blast
  then show ?thesis using assms(2) driver by (auto simp: opennpux_coral_read_reg_def info_register_def abi_defs)
qed

lemma dma_counters_return:
  assumes "keeps s m"
  shows "\<exists>a b c d s1 s2 s3 s4. opennpux_coral_read_reg OS dev (ucast DMA_REQUESTS) s = Some (a, s1) \<and>
    opennpux_coral_read_reg OS dev (ucast DMA_COMPLETIONS) s1 = Some (b, s2) \<and>
    opennpux_coral_read_reg OS dev (ucast DMA_ERRORS) s2 = Some (c, s3) \<and>
    opennpux_coral_read_reg OS dev (ucast DMA_STATE) s3 = Some (d, s4) \<and> keeps s4 m"
proof -
  obtain a s1 where 1: "opennpux_coral_read_reg OS dev (ucast DMA_REQUESTS) s = Some (a, s1)" "keeps s1 m"
    using dma_counter_returns [OF assms, of "ucast DMA_REQUESTS"] by auto
  obtain b s2 where 2: "opennpux_coral_read_reg OS dev (ucast DMA_COMPLETIONS) s1 = Some (b, s2)" "keeps s2 m"
    using dma_counter_returns [OF 1(2), of "ucast DMA_COMPLETIONS"] by auto
  obtain c s3 where 3: "opennpux_coral_read_reg OS dev (ucast DMA_ERRORS) s2 = Some (c, s3)" "keeps s3 m"
    using dma_counter_returns [OF 2(2), of "ucast DMA_ERRORS"] by auto
  obtain d s4 where 4: "opennpux_coral_read_reg OS dev (ucast DMA_STATE) s3 = Some (d, s4)" "keeps s4 m"
    using dma_counter_returns [OF 3(2), of "ucast DMA_STATE"] by auto
  show ?thesis using 1(1) 2(1) 3(1) 4 by blast
qed

lemma dma_test_returns:
  assumes "keeps s m" "m \<noteq> []"
  shows "returns (length m) (opennpux_coral_dma_test OS dev entry polls old s)"
proof -
  obtain r sw s1 where o: "opennpux_coral_open_shared_window OS dev 16 s = Some (r, sw, s1)" "keeps s1 m"
    "r = 0 \<longrightarrow> sw_offset sw = 0 \<and> 16 \<le> length m" using open_any [OF assms, of 16] by auto
  show ?thesis
  proof (cases "r = 0")
    case True
    have l: "16 \<le> length m" using o(3) True by simp
    obtain s2 m2 where s2: "mapped_store32 OS (dv_fd dev) 0 7 s1 = Some s2" "keeps s2 m2" "length m2 = length m"
      using store_in_range [OF o(2), of 0 "le_bytes 4 (7 :: u32)"] l by (auto simp: mapped_store32_def)
    obtain s3 m3 where s3: "mapped_store32 OS (dv_fd dev) 4 35 s2 = Some s3" "keeps s3 m3" "length m3 = length m"
      using store_in_range [OF s2(2), of 4 "le_bytes 4 (35 :: u32)"] l s2(3) by (auto simp: mapped_store32_def)
    obtain s4 m4 where s4: "mapped_store32 OS (dv_fd dev) 8 0 s3 = Some s4" "keeps s4 m4" "length m4 = length m"
      using store_in_range [OF s3(2), of 8 "le_bytes 4 (0 :: u32)"] l s3(3) by (auto simp: mapped_store32_def)
    obtain rr st s5 m5 where s5: "opennpux_coral_run OS dev entry polls 0 s4 = Some (rr, st, s5)" "keeps s5 m5" "length m5 = length m"
      using run_returns [OF s4(2)] s4(3) by metis
    obtain x where x: "mapped_load32 OS (dv_fd dev) 0 s5 = Some (x, s5)" using load_in_range [OF s5(2), of 0] l s5(3) by auto
    obtain y where y: "mapped_load32 OS (dv_fd dev) 8 s5 = Some (y, s5)" using load_in_range [OF s5(2), of 8] l s5(3) by auto
    obtain a b c d t1 t2 t3 t4 where t: "opennpux_coral_read_reg OS dev (ucast DMA_REQUESTS) s5 = Some (a, t1)"
      "opennpux_coral_read_reg OS dev (ucast DMA_COMPLETIONS) t1 = Some (b, t2)"
      "opennpux_coral_read_reg OS dev (ucast DMA_ERRORS) t2 = Some (c, t3)"
      "opennpux_coral_read_reg OS dev (ucast DMA_STATE) t3 = Some (d, t4)" "keeps t4 m5"
      using dma_counters_return [OF s5(2)] by blast
    have "keeps (opennpux_coral_close_shared_window OS dev sw t4) m5" using close_window [OF t(5)] .
    then show ?thesis
      using o True s2(1) s3(1) s4(1) s5(1,3) x y t(1-4)
      by (auto simp: opennpux_coral_dma_test_def returns_def Let_def)
  qed (use o in \<open>auto simp: opennpux_coral_dma_test_def returns_def\<close>)
qed

lemma vector_add_returns:
  assumes "keeps s m" "m \<noteq> []"
  shows "returns (length m) (opennpux_coral_vector_add_test OS dev entry opcode count polls old s)"
proof (cases "count = 0 \<or> TENSOR_MAX_ELEMENTS < count")
  case True
  then show ?thesis using assms by (auto simp: opennpux_coral_vector_add_test_def returns_def)
next
  case False
  then have c: "count \<noteq> 0" "unat count \<le> 256" by (auto simp: TENSOR_MAX_ELEMENTS_def word_less_nat_alt)
  have l: "length (test_input0 (unat count)) = unat count" "length (test_input1 (unat count)) = unat count"
    by (simp_all add: test_input0_def test_input1_def)
  have un: "unat (ucast OUTPUT_OFFSET + ucast count * 4 :: u64) = 0x900 + 4 * unat count"
    using c(2) by (simp add: OUTPUT_OFFSET_def unat_word_ariths)
  show ?thesis
  proof (cases "0x900 + 4 * unat count \<le> length m \<and> (opcode = OPCODE_VECTOR_ADD_U32 \<or> opcode = OPCODE_VECTOR_ADD_CUSTOM_U32)")
    case True
    then obtain m1 where "stage_mem opcode count (test_input0 (unat count)) (test_input1 (unat count)) m = Some m1"
      using stage_mem_command [OF c(2)] by blast
    then show ?thesis
      using submission [OF assms(1) _ window_size [OF assms(1)] c l, of opcode m1 entry "test_checksum (unat count)" polls] True False
      by (auto simp: opennpux_coral_vector_add_test_def returns_def)
  next
    case no: False
    obtain r sw s1 where o: "opennpux_coral_open_shared_window OS dev (ucast OUTPUT_OFFSET + ucast count * 4) s = Some (r, sw, s1)"
      "keeps s1 m" "r = 0 \<longrightarrow> 0x900 + 4 * unat count \<le> length m"
      using open_any [OF assms, of "ucast OUTPUT_OFFSET + ucast count * 4"] un by auto
    then show ?thesis
      using no False assms(1) by (auto simp: opennpux_coral_vector_add_test_def submit_vector_add_def returns_def Let_def)
  qed
qed

lemma load64_in_range:
  assumes "keeps s m" "unat a + 8 \<le> length m"
  shows "\<exists>v. mapped_load64 OS (dv_fd dev) a s = Some (v, s)"
proof -
  obtain bs where "load_bytes m (unat a) 8 = Some bs" using assms(2) by (auto simp: load_bytes_def)
  then have "os_load OS (dv_fd dev) a 8 (world s) = Some (bs, world s)"
    using load [of "world s" a 8 bs] assms(1) by (simp add: keeps_def)
  then show ?thesis by (simp add: mapped_load64_def)
qed

lemma read_mailbox_returns:
  assumes k: "keeps s m" and l: "unat mailbox + 80 \<le> length m"
  shows "\<exists>valid res. read_mailbox OS (dv_fd dev) mailbox result s = Some (valid, res, s)"
proof -
  have un: "unat (mailbox + j) = unat mailbox + unat j" if "unat j \<le> 80" for j
    using l that window_size [OF k] by (subst unat_add_nowrap) simp_all
  have ld: "\<exists>v. mapped_load32 OS (dv_fd dev) (mailbox + j) s = Some (v, s)" if "unat j + 4 \<le> 80" for j
    using load_in_range [OF k, of "mailbox + j"] un [of j] that l by auto
  have ld8: "\<exists>v. mapped_load64 OS (dv_fd dev) (mailbox + j) s = Some (v, s)" if "unat j + 8 \<le> 80" for j
    using load64_in_range [OF k, of "mailbox + j"] un [of j] that l by auto
  have el: "\<exists>out'. load_output OS (dv_fd dev) mailbox i (out, s) = Some (out', s)" if "i \<in> set [0..<5]" for i out
    using ld [of "28 + 4 * of_nat i"] that
    by (auto simp: load_output_def add.assoc unat_word_ariths unat_of_nat)
  have "\<exists>p. loop (load_output OS (dv_fd dev) mailbox) [0..<5] ([], s) = Some p \<and> snd p = s"
    by (rule loop_total) (use el in \<open>force+\<close>)
  then obtain out where out: "loop (load_output OS (dv_fd dev) mailbox) [0..<5] ([], s) = Some (out, s)" by auto
  show ?thesis
    using ld [of 8] ld [of 12] ld [of 24] out ld [of 48] ld [of 52] ld8 [of 56] ld8 [of 64] ld8 [of 72] ld [of 20] ld [of 16]
      ld [of 0] ld [of 4] unfolding read_mailbox_def by auto
qed

lemma mobilenet_returns:
  assumes "keeps s m" "m \<noteq> []"
  shows "returns (length m) (opennpux_coral_mobilenet_test OS dev entry polls s)"
proof -
  let ?req = "ucast MOBILENET_MAILBOX_OFFSET + of_nat MAILBOX_SIZE :: u64"
  have req: "unat ?req = 0x400050" by (simp add: abi_defs)
  obtain r sw s1 where o: "opennpux_coral_open_shared_window OS dev ?req s = Some (r, sw, s1)" "keeps s1 m"
    "r = 0 \<longrightarrow> sw_offset sw = 0 \<and> 0x400050 \<le> length m" using open_any [OF assms, of ?req] unfolding req by blast
  show ?thesis
  proof (cases "r = 0")
    case True
    let ?mb = "ucast MOBILENET_MAILBOX_OFFSET :: u64"
    have l: "unat ?mb + 80 \<le> length m" using o(3) True by (simp add: abi_defs)
    obtain s2 m2 where s2: "mapped_store OS (dv_fd dev) ?mb (replicate MAILBOX_SIZE 0) s1 = Some s2" "keeps s2 m2" "length m2 = length m"
      using store_in_range [OF o(2), of ?mb "replicate MAILBOX_SIZE 0"] l by (auto simp: MAILBOX_SIZE_def)
    obtain i3 s3 where s3: "opennpux_coral_get_info OS dev s2 = Some (i3, s3)" "keeps s3 m2" using get_info_returns [OF s2(2)] by blast
    obtain rr st s4 m4 where s4: "opennpux_coral_run OS dev entry polls 0 s3 = Some (rr, st, s4)" "keeps s4 m4" "length m4 = length m"
      using run_returns [OF s3(2)] s2(3) by metis
    obtain v res where mb: "read_mailbox OS (dv_fd dev) ?mb (no_mobilenet_result\<lparr> mb_device_status := st \<rparr>) s4 = Some (v, res, s4)"
      using read_mailbox_returns [OF s4(2)] l s4(3) by fastforce
    obtain i5 s5 where s5: "opennpux_coral_get_info OS dev s4 = Some (i5, s5)" "keeps s5 m4" using get_info_returns [OF s4(2)] by blast
    have "keeps (opennpux_coral_close_shared_window OS dev sw s5) m4" using close_window [OF s5(2)] .
    then show ?thesis
      using o True s2(1) s3(1) s4(1,3) mb s5(1)
      by (auto simp: opennpux_coral_mobilenet_test_def returns_def Let_def)
  qed (use o in \<open>auto simp: opennpux_coral_mobilenet_test_def returns_def Let_def\<close>)
qed

section \<open>The program\<close>

definition exits :: "nat \<Rightarrow> (int \<times> lines \<times> 'a host) option \<Rightarrow> bool" where
  "exits n x \<longleftrightarrow> (\<exists>code out s' m'. x = Some (code, out, s') \<and> code \<in> {0, 1, 2} \<and> keeps s' m' \<and> length m' = n)"

lemma exitsI: "x = Some (code, out, s') \<Longrightarrow> code = 0 \<or> code = 1 \<or> code = 2 \<Longrightarrow> keeps s' m' \<Longrightarrow> length m' = n \<Longrightarrow> exits n x"
  by (auto simp: exits_def)

lemma shared_words_exit:
  assumes "keeps s m" "m \<noteq> []"
  shows "exits (length m) (print_read_shared_u32 OS dev offset s)" "exits (length m) (print_write_shared_u32 OS dev offset v s)"
    "exits (length m) (print_mem_info OS dev s)"
proof -
  show "exits (length m) (print_read_shared_u32 OS dev offset s)"
    using read_shared_returns [OF assms, of offset] by (auto simp: returns_def print_read_shared_u32_def exits_def)
  show "exits (length m) (print_write_shared_u32 OS dev offset v s)"
    using write_shared_returns [OF assms, of offset v] by (auto simp: print_write_shared_u32_def exits_def)
  show "exits (length m) (print_mem_info OS dev s)"
    using open_any [OF assms, of 0] close_window by (fastforce simp: print_mem_info_def exits_def)
qed

lemma jobs_exit:
  assumes k: "keeps s m" and m: "m \<noteq> []"
  shows "exits (length m) (print_run OS dev entry polls s)" "exits (length m) (print_mobilenet_test OS dev entry polls s)"
    "exits (length m) (print_vector_add OS va dev entry opcode count polls s)"
    "exits (length m) (print_dma_test OS dt dev entry polls s)"
proof -
  obtain i s1 where i: "opennpux_coral_get_info OS dev s = Some (i, s1)" "keeps s1 m" using get_info_returns [OF k] by blast
  show "exits (length m) (print_run OS dev entry polls s)"
    using run_returns [OF i(2), of entry polls 0] i(1) by (auto simp: print_run_def exits_def)
  show "exits (length m) (print_mobilenet_test OS dev entry polls s)"
    using mobilenet_returns [OF k m, of entry polls] by (auto simp: returns_def print_mobilenet_test_def exits_def Let_def)
  show "exits (length m) (print_vector_add OS va dev entry opcode count polls s)"
    using vector_add_returns [OF i(2) m, of entry opcode count polls va] i(1)
    by (auto simp: returns_def print_vector_add_def exits_def Let_def)
  show "exits (length m) (print_dma_test OS dt dev entry polls s)"
    using dma_test_returns [OF i(2) m, of entry polls dt] i(1) by (auto simp: returns_def print_dma_test_def exits_def Let_def)
qed

lemma coralctl_open_exits:
  assumes k: "keeps s m" and m: "m \<noteq> []"
    and model: "\<And>entry path polls t. keeps t m \<Longrightarrow> returns (length m) (opennpux_coral_run_model_file OS dev entry path polls t)"
  shows "exits (length m) (coralctl_open OS stack dev c argv args s)"
proof -
  obtain i s1 where i: "opennpux_coral_get_info OS dev s = Some (i, s1)" "keeps s1 m" using get_info_returns [OF k] by blast
  have mfile: "exits (length m) (print_model_run OS dev entry path polls s1)" for entry path polls
    using model [OF i(2), of entry path polls] by (auto simp: returns_def print_model_run_def exits_def Let_def)
  have job: "exits (length m) (run_job OS stack dev c argv args entry polls s1)" for entry polls
    unfolding run_job_def by (simp only: jobs_exit [OF i(2) m] mfile simp_thms split: if_split)
  have jobs: "exits (length m) (case entry_argument c argv e of None \<Rightarrow> Some (2, [], s1)
      | Some entry \<Rightarrow> (case poll_argument c argv of None \<Rightarrow> Some (2, [], s1)
         | Some polls \<Rightarrow> run_job OS stack dev c argv args (ucast entry) polls s1))" for e
    by (simp add: job exitsI [OF refl _ i(2)] split: option.split)
  have clear: "exits (length m) (do { (r, s) \<leftarrow> opennpux_coral_clear_shared_window OS dev s;
       Some (if r = 0 then (0, [(''shared_clear'', Str ''PASS'')], s) else (1, [], s)) })"
    using clear_returns [OF k m] by (auto simp: exits_def)
  have info: "exits (length m) (do { (info, s) \<leftarrow> opennpux_coral_get_info OS dev s; Some (0, print_info dev info, s) })"
    using i by (auto simp: exits_def)
  show ?thesis
    unfolding coralctl_open_def using jobs clear info
    by (simp only: shared_words_exit [OF k m] i(1) bind.bind_lunit prod.case simp_thms split: if_split)
qed

end

section \<open>Reading a file\<close>

lemma fold_max_ge: "(a :: int) \<le> fold max xs a" "x \<in> set xs \<Longrightarrow> x \<le> fold max xs a"
proof -
  show ge: "(a :: int) \<le> fold max xs a" for xs a
  proof (induction xs arbitrary: a)
    case (Cons y ys)
    show ?case using Cons.IH [of "max y a"] by simp
  qed simp
  show "x \<in> set xs \<Longrightarrow> x \<le> fold max xs a"
  proof (induction xs arbitrary: a)
    case (Cons y ys)
    then show ?case using ge [of "max y a" ys] by auto
  qed simp
qed

text \<open>A read loop on an open file consumes bytes of that file only, and what it returns has the size asked for.\<close>

lemma read_file_open:
  assumes "mc_files (world s) = (fd, sz, rest) # fs" "fd \<notin> fst ` set fs" "length received \<le> n"
  shows "\<exists>x rest'. read_file (linux_os B) fd n received s =
      (x, s\<lparr> world := (world s)\<lparr> mc_files := (fd, sz, rest') # fs \<rparr> \<rparr>) \<and> (\<forall>bs. x = Inr bs \<longrightarrow> length bs = n)"
  using assms
proof (induction "n - length received" arbitrary: received rest s rule: less_induct)
  case less
  let ?w = "\<lambda>rest. s\<lparr> world := (world s)\<lparr> mc_files := (fd, sz, rest) # fs \<rparr> \<rparr>"
  show ?case
  proof (cases "length received < n")
    case False
    then have "read_file (linux_os B) fd n received s = (Inr received, ?w rest)"
      using less.prems(1) by (subst read_file.simps) simp
    then show ?thesis using False less.prems(3) by auto
  next
    case True
    let ?k = "min (n - length received) (bd_read_limit B)"
    have upd: "map (\<lambda>f. if fst f = fd then (fd, sz, drop ?k rest) else f) fs = fs"
      using less.prems(2) by (intro map_idI) auto
    have rd: "os_read (linux_os B) fd (n - length received) (world s) =
        (Inr (take ?k rest), (world s)\<lparr> mc_files := (fd, sz, drop ?k rest) # fs \<rparr>)"
      using less.prems(1) upd by (simp add: linux_os_def linux_read_def Let_def)
    show ?thesis
    proof (cases "take ?k rest = []")
      case mt: True
      have "read_file (linux_os B) fd n received s = (Inl EIO, ?w (drop ?k rest))"
        by (subst read_file.simps) (simp only: True if_True rd prod.case sum.case mt simp_thms if_True)
      then show ?thesis by blast
    next
      case ne: False
      have "read_file (linux_os B) fd n received s = read_file (linux_os B) fd n (received @ take ?k rest) (?w (drop ?k rest))"
        by (subst read_file.simps) (simp only: True if_True rd prod.case sum.case ne if_False)
      moreover have "\<exists>x rest'. read_file (linux_os B) fd n (received @ take ?k rest) (?w (drop ?k rest)) =
          (x, (?w (drop ?k rest))\<lparr> world := (world (?w (drop ?k rest)))\<lparr> mc_files := (fd, sz, rest') # fs \<rparr> \<rparr>) \<and>
          (\<forall>bs. x = Inr bs \<longrightarrow> length bs = n)"
        using True ne less.prems(2) by (intro less.hyps) (auto simp: min_def neq_Nil_conv)
      ultimately show ?thesis by simp
    qed
  qed
qed

context firmware_program
begin

lemma model_file_returns:
  assumes k: "mach.keeps fs True t m" and ne: "m \<noteq> []"
  shows "mach.returns fs True (length m) (opennpux_coral_run_model_file (linux_os B) (host_dev org) entry path polls t)"
proof -
  let ?w = "world t"
  have w: "machine_idle ok ?w" "mc_files ?w = fs" "open_count (mc_dev ?w)" "fw_mem (mc_hw ?w) = m"
    using k by (simp_all add: mach.keeps_def machine_free_def)
  have dev: "mc_dev ?w = k \<Longrightarrow> t\<lparr> world := ?w\<lparr> mc_dev := k \<rparr>, errno := e \<rparr> = t\<lparr> errno := e \<rparr>" for k e by simp
  show ?thesis
  proof (cases "path = DEVICE_PATH \<or> bd_files B path = None")
    case True
    have "\<exists>e. sys_open (linux_os B) path t = (- 1, t\<lparr> errno := e \<rparr>)"
      using True w(3) by (auto simp: sys_open_def linux_os_def linux_open_def coral_open_def call_result_def)
    then obtain e where "sys_open (linux_os B) path t = (- 1, t\<lparr> errno := e \<rparr>)" by blast
    then have "opennpux_coral_run_model_file (linux_os B) (host_dev org) entry path polls t = Some (- 1, no_model_result, t\<lparr> errno := e \<rparr>)"
      by (simp add: opennpux_coral_run_model_file_def)
    then show ?thesis using k by (auto simp: mach.returns_def)
  next
    case False
    then obtain bs where bs: "path \<noteq> DEVICE_PATH" "bd_files B path = Some bs" by auto
    let ?fd = "fold max (map fst fs) device_fd + 1"
    let ?t = "\<lambda>rest. t\<lparr> world := ?w\<lparr> mc_files := (?fd, length bs, rest) # fs \<rparr> \<rparr>"
    have fd: "device_fd < ?fd" using fold_max_ge(1) [of device_fd "map fst fs"] by simp
    have fresh: "?fd \<notin> fst ` set fs"
    proof
      assume "?fd \<in> fst ` set fs"
      then have "?fd \<le> fold max (map fst fs) device_fd" by (intro fold_max_ge(2)) simp
      then show False by simp
    qed
    have pos: "\<not> ?fd < 0" "?fd \<noteq> device_fd" using fd by (simp_all add: device_fd_def)
    have op: "sys_open (linux_os B) path t = (?fd, ?t bs)"
      using bs w(2) pos by (simp add: sys_open_def linux_os_def linux_open_def call_result_def Let_def)
    have st: "os_fstat (linux_os B) ?fd (world (?t bs)) = (int (length bs), world (?t bs))"
      using pos by (simp add: linux_os_def linux_fstat_def)
    have "filter (\<lambda>f. fst f \<noteq> ?fd) fs = fs" using fresh by (metis (mono_tags, lifting) filter_True image_eqI)
    then have cl: "sys_close (linux_os B) ?fd (?t rest) = t" for rest
      using pos w(2) by (simp add: sys_close_def linux_os_def linux_close_def)
    have cle: "sys_close (linux_os B) ?fd (?t rest\<lparr> errno := e \<rparr>) = t\<lparr> errno := e \<rparr>" for rest e
      using pos w(2) \<open>filter (\<lambda>f. fst f \<noteq> ?fd) fs = fs\<close> by (simp add: sys_close_def linux_os_def linux_close_def)
    obtain x rest where rd: "read_file (linux_os B) ?fd (length bs) [] (?t bs) = (x, ?t rest)" "\<And>f. x = Inr f \<Longrightarrow> length f = length bs"
      using read_file_open [of "?t bs" ?fd "length bs" bs fs "[]" "length bs" B] fresh by auto
    have kt: "mach.keeps fs True (t\<lparr> errno := e \<rparr>) m" for e using k by simp
    show ?thesis
    proof (cases "0xffffffff < int (length bs) \<or> \<not> os_malloc (linux_os B) (if int (length bs) = 0 then 1 else length bs) (world (?t bs)) \<or>
        (\<exists>e. x = Inl e)")
      case True
      then have "\<exists>s'. opennpux_coral_run_model_file (linux_os B) (host_dev org) entry path polls t = Some (- 1, no_model_result, s') \<and>
          (s' = t \<or> (\<exists>e. s' = t\<lparr> errno := e \<rparr>))"
        using op st rd(1) cl pos(1) unfolding opennpux_coral_run_model_file_def
        by (auto simp: Let_def split: sum.splits)
      then show ?thesis using k kt by (auto simp: mach.returns_def)
    next
      case ok: False
      then obtain f where f: "x = Inr f" by (cases x) auto
      have "opennpux_coral_run_model_file (linux_os B) (host_dev org) entry path polls t = run_model (linux_os B) (host_dev org) entry polls f t"
        using op st rd(1) cl pos(1) ok f unfolding opennpux_coral_run_model_file_def by (auto simp: Let_def split: if_splits)
      moreover have lf: "length f < 2 ^ 32" using rd(2) [OF f] ok by simp
      moreover have lm: "0xd00 \<le> length m" "length m < 2 ^ 32" using w(1,4) ne by (auto simp: machine_idle_def window_ok_def dest!: dvd_imp_le)
      ultimately show ?thesis
        using mach.run_model_returns [where org = org and entry = entry and polls = polls, OF k lm lf]
        by (auto simp: mach.returns_def)
    qed
  qed
qed

lemma machine_closes:
  assumes "mach.keeps fs True s m"
  shows "snd (opennpux_coral_close (linux_os B) (host_dev org) s) =
    s\<lparr> world := (world s)\<lparr> mc_dev := (mc_dev (world s))\<lparr> open_count := False \<rparr> \<rparr> \<rparr>"
  using assms
  by (simp add: opennpux_coral_close_def host_dev_def sys_close_def linux_os_def linux_close_def coral_release_def mach.keeps_def
      machine_free_def machine_idle_def device_fd_def)

lemma coralctl_main_exits:
  assumes idle: "machine_idle ok (world s)" and ne: "fw_mem (mc_hw (world s)) \<noteq> []" and op: "\<not> open_count (mc_dev (world s))"
  shows "\<exists>code out s'. coralctl_main (linux_os B) stack argv s = Some (code, out, s') \<and> code \<in> {0, 1, 2} \<and>
    machine_idle ok (world s') \<and> \<not> open_count (mc_dev (world s')) \<and> mc_files (world s') = mc_files (world s) \<and>
    length (fw_mem (mc_hw (world s'))) = length (fw_mem (mc_hw (world s)))"
proof (cases "length argv < 2 \<or> 6 < length argv \<or> argv ! 1 \<notin> set ctl_commands \<or> arity_wrong (argv ! 1) (length argv) \<or>
    parse_arguments (argv ! 1) argv = None")
  case True
  then show ?thesis using assms by (auto simp: coralctl_main_def Let_def)
next
  case False
  then obtain args where args: "parse_arguments (argv ! 1) argv = Some args" by auto
  let ?s1 = "s\<lparr> world := (world s)\<lparr> mc_dev := (mc_dev (world s))\<lparr> open_count := True \<rparr> \<rparr> \<rparr>"
  let ?m = "fw_mem (mc_hw (world s))" and ?dev = "host_dev (ca_base args)" and ?fs = "mc_files (world s)"
  have k: "mach.keeps ?fs True ?s1 ?m" using idle by (simp add: mach.keeps_def machine_free_def machine_idle_def window_ok_def)
  have "mach.exits ?fs True (length ?m) (coralctl_open (linux_os B) stack ?dev (argv ! 1) argv args ?s1)"
    by (rule mach.coralctl_open_exits [OF k ne model_file_returns [OF _ ne]])
  then obtain code out s2 m2 where c: "coralctl_open (linux_os B) stack ?dev (argv ! 1) argv args ?s1 = Some (code, out, s2)"
    "code \<in> {0, 1, 2}" "mach.keeps ?fs True s2 m2" "length m2 = length ?m" unfolding mach.exits_def by blast
  have "coralctl_main (linux_os B) stack argv s = Some (code, out, snd (opennpux_coral_close (linux_os B) ?dev s2))"
    using False args c(1) host_opens [OF op, of B "ca_base args"] by (simp add: coralctl_main_def Let_def)
  then show ?thesis
    using c(2-4) unfolding machine_closes [OF c(3)] by (auto simp: mach.keeps_def machine_free_def machine_idle_def window_ok_def)
qed

lemma dma_test_without_window:
  assumes idle: "machine_idle ok (world s)" and mt: "fw_mem (mc_hw (world s)) = []" and op: "\<not> open_count (mc_dev (world s))"
  shows "\<exists>out s'. coralctl_main (linux_os B) (dt, va) [p, ''dma-test''] s = Some (1, out, s') \<and>
    (''dma_result'', Dec (ucast (dt_result dt))) \<in> set out"
proof -
  let ?s1 = "s\<lparr> world := (world s)\<lparr> mc_dev := (mc_dev (world s))\<lparr> open_count := True \<rparr> \<rparr> \<rparr>" and ?dev = "host_dev DEFAULT_BASE"
  let ?fs = "mc_files (world s)"
  have k: "mach.keeps ?fs True ?s1 []" using idle mt by (simp add: mach.keeps_def machine_free_def machine_idle_def window_ok_def)
  obtain i s2 where i: "opennpux_coral_get_info (linux_os B) ?dev ?s1 = Some (i, s2)" "mach.keeps ?fs True s2 []"
    using mach.get_info_returns [OF k] by blast
  obtain i3 s3 where i3: "opennpux_coral_get_info (linux_os B) ?dev s2 = Some (i3, s3)" "mach.keeps ?fs True s3 []"
    using mach.get_info_returns [OF i(2)] by blast
  obtain sw s4 where s4: "opennpux_coral_open_shared_window (linux_os B) ?dev 16 s3 = Some (- 1, sw, s4)"
  proof -
    have "length ([] :: bytes) < unat (16 :: u64)" by simp
    then show ?thesis using mach.open_too_small [where org = DEFAULT_BASE, OF i3(2)] that by blast
  qed
  then have "opennpux_coral_dma_test (linux_os B) ?dev e 100000 dt s3 = Some (- 1, dt, s4)" for e
    by (simp add: opennpux_coral_dma_test_def)
  then show ?thesis
    using i(1) i3(1) host_opens [OF op, of B DEFAULT_BASE]
    by (simp add: coralctl_main_def ctl_commands_def arity_wrong_def parse_arguments_def base_argument_def coralctl_open_def
        entry_argument_def poll_argument_def run_job_def print_dma_test_def Let_def)
qed

end

section \<open>Properties\<close>

text \<open>
  C35: The control program ends on every command line. For every argument vector, every content of the file
  system and of the stack, and every board whose programs keep the size of the window, whether they end in
  time, too late or never, \<open>coralctl\<close> ends with exit code 0, 1 or 2; afterwards the device file is closed, no
  job runs, no other file is left open, and the shared window has its size. So no command leaks the device,
  which only one process can hold, or a model file, and none leaves the accelerator running.
\<close>

theorem coralctl_exits_closed:
  assumes "\<forall>e. program_ok (\<lambda>_. True) (bd_program B e)"
    and "machine_idle (\<lambda>_. True) (world s)" "fw_mem (mc_hw (world s)) \<noteq> []" "\<not> open_count (mc_dev (world s))"
  shows "\<exists>code out s'. coralctl_main (linux_os B) stack argv s = Some (code, out, s') \<and> code \<in> {0, 1, 2} \<and>
    machine_idle (\<lambda>_. True) (world s') \<and> \<not> open_count (mc_dev (world s')) \<and> mc_files (world s') = mc_files (world s) \<and>
    length (fw_mem (mc_hw (world s'))) = length (fw_mem (mc_hw (world s)))"
proof -
  have fw: "firmware_program B (\<lambda>_. True)" using assms(1) by unfold_locales blast
  show ?thesis by (rule firmware_program.coralctl_main_exits [OF fw assms(2-4)])
qed

text \<open>A model file on the board, and a firmware that never ends.\<close>

theorem coralctl_exits_closed_witness:
  "\<exists>code out s'. coralctl_main (linux_os (firmware_board 0x80 reset_firmware None [''m.npu'' \<mapsto> replicate 100 7]))
      (no_dma_test_result, new_vector_add_result 0 0) [''coralctl'', ''model-run'', ''m.npu''] (example_machine ()) = Some (code, out, s') \<and>
    \<not> open_count (mc_dev (world s')) \<and> mc_files (world s') = []"
proof -
  have ok: "\<forall>e. program_ok (\<lambda>_. True) (bd_program (firmware_board 0x80 reset_firmware None [''m.npu'' \<mapsto> replicate 100 7]) e)"
    by (intro allI firmware_board_ok reset_firmware_length)
  have "mc_files (world (example_machine ())) = []" by (simp add: example_machine_def)
  then show ?thesis
    using coralctl_exits_closed [OF ok example_machine_idle(1,2,4), where stack = "(no_dma_test_result, new_vector_add_result 0 0)" and
        argv = "[''coralctl'', ''model-run'', ''m.npu'']"] by auto
qed

text \<open>
  The DMA test of \<open>coralctl\<close> can print an uninitialised struct. If the shared window is too small to be
  opened, \<open>opennpux_coral_dma_test\<close> returns before it sets its result, and \<open>print_dma_test\<close> prints the struct
  all the same: the value it shows for the result is the one that was on the stack, whatever it is.
\<close>

theorem dma_test_prints_stack:
  "\<exists>out s'. coralctl_main (linux_os (reset_board (\<lambda>_. None))) (dt, va) [''coralctl'', ''dma-test'']
      (example_machine ()\<lparr> world := (world (example_machine ()))\<lparr> mc_dev := (mc_dev (world (example_machine ())))\<lparr> shared_size := 0 \<rparr>,
         mc_hw := (mc_hw (world (example_machine ())))\<lparr> fw_mem := [] \<rparr> \<rparr> \<rparr>) = Some (1, out, s') \<and>
    (''dma_result'', Dec (ucast (dt_result dt))) \<in> set out"
proof -
  have fw: "firmware_program (reset_board (\<lambda>_. None)) (\<lambda>_. True)" using reset_board_ok by unfold_locales blast
  show ?thesis
    by (rule firmware_program.dma_test_without_window [OF fw])
      (simp_all add: example_machine_def machine_idle_def window_ok_def PAGE_ALIGNED_def)
qed

end
