(* ===== verification/Ndp_Device.thy ===== *)
theory Ndp_Device
  imports Byte_Memory
begin

text \<open>
  The base class of the near-data-processing devices (\<open>sim/gem5/src/ndp/ndp.cc\<close>): register accesses from
  the CPU, bursts to memory split into requests, and the assembly of their responses.

  Buffers of the device (\<open>new\<close>, \<open>malloc\<close>) are numbered; a pointer is a buffer and an offset. An access
  outside a buffer, the front of an empty list and \<open>panic\<close> are \<open>None\<close>. What gem5 does is an argument:
  \<open>g_accepts\<close> is the answer of \<open>dmaPort.sendTimingReq\<close> to each attempt, \<open>g_block_offset\<close> the place in a
  block at which \<open>Packet::writeDataToBlock\<close> puts the data of a packet. A scheduled \<open>sendData\<close> is counted in
  \<open>n_events\<close>; \<open>n_sent\<close> are the packets the port has accepted, and \<open>n_refused\<close> says that it has refused one
  and owes a retry. The methods of the subclass are an argument too.
\<close>

section \<open>State\<close>

type_synonym ptr = "nat \<times> nat"

record gem5 =
  g_accepts :: "nat \<Rightarrow> bool"
  g_block_offset :: "u64 \<Rightarrow> nat \<Rightarrow> nat"

record sub_request =
  sr_start :: u64
  sr_end :: u64
  sr_data :: ptr

record burst_request =
  br_start :: u64
  br_end :: u64
  br_data :: ptr
  br_write :: bool
  br_subs :: "sub_request list"

record dma_packet =
  pk_addr :: u64
  pk_size :: u64
  pk_write :: bool
  pk_data :: bytes

record 'd ndp =
  n_ctrl :: "u64 \<times> u64"
  n_data :: "u64 \<times> u64"
  n_mmio_only :: bool
  n_max_rsze :: u64
  n_max_reqs :: u64
  n_fly_reqs :: u64
  n_dma_actv :: bool
  n_bursts :: "burst_request list"
  n_packets :: "dma_packet list"
  n_sent :: "dma_packet list"
  n_attempts :: nat
  n_events :: nat
  n_refused :: bool
  n_heap :: "bytes list"
  n_dev :: 'd

record 'd ndp_class =
  c_readPI :: "u64 \<Rightarrow> 'd ndp \<Rightarrow> u64 option"
  c_writePI :: "u64 \<Rightarrow> u64 \<Rightarrow> 'd ndp \<Rightarrow> 'd ndp option"
  c_recvData :: "u64 \<Rightarrow> ptr option \<Rightarrow> u64 \<Rightarrow> 'd ndp \<Rightarrow> 'd ndp option"

definition new_buffer :: "nat \<Rightarrow> 'd ndp \<Rightarrow> nat \<times> 'd ndp" where
  "new_buffer n s = (length (n_heap s), s\<lparr> n_heap := n_heap s @ [replicate n 0] \<rparr>)"

definition heap_load :: "'d ndp \<Rightarrow> ptr \<Rightarrow> nat \<Rightarrow> bytes option" where
  "heap_load s p n = (if fst p < length (n_heap s) then load_bytes (n_heap s ! fst p) (snd p) n else None)"

definition heap_store :: "ptr \<Rightarrow> bytes \<Rightarrow> 'd ndp \<Rightarrow> 'd ndp option" where
  "heap_store p bs s =
     (if fst p < length (n_heap s)
      then do { buf \<leftarrow> store_bytes (n_heap s ! fst p) (snd p) bs; Some (s\<lparr> n_heap := (n_heap s)[fst p := buf] \<rparr>) }
      else None)"

section \<open>Requests to memory\<close>

definition sendData :: "gem5 \<Rightarrow> 'd ndp \<Rightarrow> 'd ndp option" where
  "sendData G s =
     (if n_fly_reqs s = n_max_reqs s then Some (s\<lparr> n_dma_actv := False \<rparr>)
      else case n_packets s of
          [] \<Rightarrow> None
        | p # ps \<Rightarrow>
            let ok = g_accepts G (n_attempts s); s = s\<lparr> n_attempts := n_attempts s + 1 \<rparr> in
            if \<not> ok then Some (s\<lparr> n_refused := True \<rparr>)
            else let s = s\<lparr> n_fly_reqs := n_fly_reqs s + 1, n_packets := ps, n_sent := n_sent s @ [p] \<rparr> in
              Some (if ps \<noteq> [] then s\<lparr> n_events := n_events s + 1 \<rparr> else s\<lparr> n_dma_actv := False \<rparr>))"

text \<open>The loop of \<open>accessMemory\<close>: one sub-request and one packet per chunk.\<close>

partial_function (option) split_burst ::
  "'d ndp \<Rightarrow> u64 \<Rightarrow> u64 \<Rightarrow> bool \<Rightarrow> ptr \<Rightarrow> u64 \<Rightarrow> u64 \<Rightarrow> (sub_request \<times> dma_packet) list \<Rightarrow>
    (sub_request \<times> dma_packet) list option" where
  "split_burst s addr n write data saddr i acc =
     (if saddr < addr + n then
        let R = n_max_rsze s;
            ssize = (if n < i * R + R then n mod R else R);
            sdata = (fst data, snd data + unat (i * R)) in
        do { bs \<leftarrow> (if write then heap_load s sdata (unat ssize) else Some (replicate (unat ssize) 0));
             split_burst s addr n write data (saddr + R) (i + 1)
               (acc @ [(\<lparr> sr_start = saddr, sr_end = saddr + ssize, sr_data = sdata \<rparr>,
                        \<lparr> pk_addr = saddr, pk_size = ssize, pk_write = write, pk_data = bs \<rparr>)]) }
      else Some acc)"

definition accessMemory :: "gem5 \<Rightarrow> u64 \<Rightarrow> u64 \<Rightarrow> bool \<Rightarrow> ptr \<Rightarrow> 'd ndp \<Rightarrow> 'd ndp option" where
  "accessMemory G addr n write data s =
     do { reqs \<leftarrow> split_burst s addr n write data addr 0 [];
          let s = s\<lparr> n_packets := n_packets s @ map snd reqs,
                n_bursts := n_bursts s @ [\<lparr> br_start = addr, br_end = addr + n, br_data = data, br_write = write,
                  br_subs = map fst reqs \<rparr>] \<rparr>;
          if \<not> n_dma_actv s then sendData G (s\<lparr> n_dma_actv := True \<rparr>) else Some s }"

section \<open>Responses\<close>

fun popPendingSubRequest :: "u64 \<Rightarrow> u64 \<Rightarrow> sub_request list \<Rightarrow> (ptr \<times> sub_request list) option" where
  "popPendingSubRequest a e [] = None"
| "popPendingSubRequest a e (r # rs) =
     (if sr_start r = a \<and> sr_end r = e then Some (sr_data r, rs)
      else case popPendingSubRequest a e rs of None \<Rightarrow> None | Some (p, rs') \<Rightarrow> Some (p, r # rs'))"

text \<open>
  The loop over the pending bursts. It leaves early only when a burst is complete: then the subclass gets
  its data, which may append further bursts, and the burst is removed.
\<close>

fun scan_bursts ::
  "gem5 \<Rightarrow> 'd ndp_class \<Rightarrow> dma_packet \<Rightarrow> nat list \<Rightarrow> 'd ndp \<Rightarrow> 'd ndp option" where
  "scan_bursts G C p [] s = Some s"
| "scan_bursts G C p (i # is) s =
     (let b = n_bursts s ! i in
      if br_write b \<noteq> pk_write p then scan_bursts G C p is s
      else case popPendingSubRequest (pk_addr p) (pk_addr p + pk_size p) (br_subs b) of
          None \<Rightarrow> scan_bursts G C p is s
        | Some (data, rest) \<Rightarrow>
            do { s \<leftarrow> (if pk_write p then Some s
                       else heap_store (fst data, snd data + g_block_offset G (pk_addr p) (unat (pk_size p))) (pk_data p) s);
                 let s = s\<lparr> n_bursts := (n_bursts s)[i := b\<lparr> br_subs := rest \<rparr>] \<rparr>;
                 if rest = [] then do {
                   s \<leftarrow> c_recvData C (br_start b) (if br_write b then None else Some (br_data b)) (br_end b - br_start b) s;
                   Some (s\<lparr> n_bursts := take i (n_bursts s) @ drop (Suc i) (n_bursts s) \<rparr>) }
                 else scan_bursts G C p is s })"

definition memCallback :: "gem5 \<Rightarrow> 'd ndp_class \<Rightarrow> dma_packet \<Rightarrow> 'd ndp \<Rightarrow> 'd ndp option" where
  "memCallback G C p s =
     do { s \<leftarrow> scan_bursts G C p [0..<length (n_bursts s)] s;
          let s = s\<lparr> n_fly_reqs := n_fly_reqs s - 1 \<rparr>;
          if \<not> n_dma_actv s \<and> n_packets s \<noteq> [] then sendData G (s\<lparr> n_dma_actv := True \<rparr>) else Some s }"

section \<open>Accesses of the CPU\<close>

datatype cpu_packet = Cpu_read u64 | Cpu_write u64 u64 | Cpu_other u64

datatype cpu_response = Read_response u64 | Write_response

fun cpu_addr :: "cpu_packet \<Rightarrow> u64" where
  "cpu_addr (Cpu_read a) = a" | "cpu_addr (Cpu_write a v) = a" | "cpu_addr (Cpu_other a) = a"

text \<open>The response is sent one cycle later.\<close>

fun handleRequest :: "'d ndp_class \<Rightarrow> cpu_packet \<Rightarrow> 'd ndp \<Rightarrow> (cpu_response \<times> 'd ndp) option" where
  "handleRequest C (Cpu_read a) s =
     do { v \<leftarrow> c_readPI C ((a - fst (n_ctrl s)) div 8) s; Some (Read_response v, s) }"
| "handleRequest C (Cpu_write a v) s =
     do { s' \<leftarrow> c_writePI C ((a - fst (n_ctrl s)) div 8) v s; Some (Write_response, s') }"
| "handleRequest C (Cpu_other a) s = None"

datatype routed = Handled cpu_response | Forwarded

definition in_range :: "u64 \<times> u64 \<Rightarrow> u64 \<Rightarrow> bool" where
  "in_range r a \<longleftrightarrow> fst r \<le> a \<and> a < snd r"

definition recvTimingReq :: "'d ndp_class \<Rightarrow> cpu_packet \<Rightarrow> 'd ndp \<Rightarrow> (routed \<times> 'd ndp) option" where
  "recvTimingReq C p s =
     (if in_range (n_ctrl s) (cpu_addr p) then do { (r, s) \<leftarrow> handleRequest C p s; Some (Handled r, s) }
      else Some (Forwarded, s))"

datatype mem_port = Mem_side | Dma_port

definition recvTimingResp :: "gem5 \<Rightarrow> 'd ndp_class \<Rightarrow> mem_port \<Rightarrow> dma_packet \<Rightarrow> 'd ndp \<Rightarrow> 'd ndp option" where
  "recvTimingResp G C port p s = (case port of Mem_side \<Rightarrow> Some s | Dma_port \<Rightarrow> memCallback G C p s)"

definition recvReqRetry :: "gem5 \<Rightarrow> mem_port \<Rightarrow> 'd ndp \<Rightarrow> 'd ndp option" where
  "recvReqRetry G port s = (case port of Mem_side \<Rightarrow> Some s | Dma_port \<Rightarrow> sendData G (s\<lparr> n_refused := False \<rparr>))"

definition ndp_getAddrRanges :: "(u64 \<times> u64) list \<Rightarrow> 'd ndp \<Rightarrow> (u64 \<times> u64) list" where
  "ndp_getAddrRanges mem_ranges s = (if n_mmio_only s then [n_ctrl s] else mem_ranges)"

end
