(* ===== verification/Ndp_Burst.thy ===== *)
theory Ndp_Burst
  imports Ndp_Device
begin

text \<open>
  The bursts of \<open>Ndp_Device\<close>: how one is split, that its responses assemble the data in memory in whatever
  order they come, and the queue of requests that feeds the memory port.
\<close>

section \<open>Splitting\<close>

definition chunk_len :: "nat \<Rightarrow> nat \<Rightarrow> nat \<Rightarrow> nat" where
  "chunk_len R n i = min R (n - R * i)"

definition chunk_sub :: "u64 \<Rightarrow> ptr \<Rightarrow> nat \<Rightarrow> nat \<Rightarrow> nat \<Rightarrow> sub_request" where
  "chunk_sub addr data R n i = \<lparr> sr_start = addr + of_nat (R * i), sr_end = addr + of_nat (R * i) + of_nat (chunk_len R n i),
     sr_data = (fst data, snd data + R * i) \<rparr>"

text \<open>The packet of a chunk with the bytes \<open>M\<close> of memory, counted from the start of the burst.\<close>

definition chunk_packet :: "(nat \<Rightarrow> u8) \<Rightarrow> u64 \<Rightarrow> nat \<Rightarrow> nat \<Rightarrow> nat \<Rightarrow> dma_packet" where
  "chunk_packet M addr R n i = \<lparr> pk_addr = addr + of_nat (R * i), pk_size = of_nat (chunk_len R n i), pk_write = False,
     pk_data = map M [R * i..<R * i + chunk_len R n i] \<rparr>"

definition chunks :: "nat \<Rightarrow> nat \<Rightarrow> nat" where
  "chunks R n = (n + R - 1) div R"

lemma chunks_bound:
  assumes "0 < R" "i < chunks R n"
  shows "R * i < n"
proof -
  have "Suc i * R \<le> n + R - 1" using assms by (simp add: chunks_def less_eq_div_iff_mult_less_eq Suc_le_eq [symmetric] del: mult_Suc)
  then show ?thesis using assms(1) by (simp add: mult.commute)
qed

lemma chunks_end:
  assumes "0 < R"
  shows "n \<le> R * chunks R n"
proof -
  have "n + R - 1 < R * chunks R n + R"
    unfolding chunks_def using assms by (metis add.commute dividend_less_times_div mult_Suc_right)
  then show ?thesis by simp
qed

lemma unat_plus_of_nat: "unat (a :: u64) + k < 2 ^ 64 \<Longrightarrow> unat (a + of_nat k) = unat a + k"
  by (simp add: unat_add_nowrap unat_of_nat)

lemma chunk_fits: "0 < R \<Longrightarrow> i < chunks R N \<Longrightarrow> R * i + chunk_len R N i \<le> N"
  using chunks_bound [of R i N] by (simp add: chunk_len_def)

text \<open>The bytes that the packets of a burst carry to memory; a read carries none.\<close>

definition burst_data :: "bool \<Rightarrow> 'd ndp \<Rightarrow> ptr \<Rightarrow> nat \<Rightarrow> u8" where
  "burst_data write s data k = (if write then n_heap s ! fst data ! (snd data + k) else 0)"

lemma burst_data_load:
  assumes "write \<Longrightarrow> fst data < length (n_heap s) \<and> snd data + N \<le> length (n_heap s ! fst data)" "a + l \<le> N"
  shows "(if write then heap_load s (fst data, snd data + a) l else Some (replicate l 0)) = Some (map (burst_data write s data) [a..<a + l])"
  using assms by (auto simp: burst_data_def heap_load_def load_bytes_def list_eq_iff_nth_eq add.assoc map_replicate_const)

lemma split_burst_chunks:
  fixes s :: "'d ndp"
  assumes R: "R = unat (n_max_rsze s)" "0 < R" and wrap: "unat addr + unat n + R < 2 ^ 64"
    and buf: "write \<Longrightarrow> fst data < length (n_heap s) \<and> snd data + unat n \<le> length (n_heap s ! fst data)"
  shows "split_burst s addr n write data addr 0 [] =
    Some (map (\<lambda>i. (chunk_sub addr data R (unat n) i, (chunk_packet (burst_data write s data) addr R (unat n) i)\<lparr> pk_write := write \<rparr>))
      [0..<chunks R (unat n)])"
proof -
  let ?m = "chunks R (unat n)" and ?N = "unat n"
  let ?req = "\<lambda>i. (chunk_sub addr data R ?N i, (chunk_packet (burst_data write s data) addr R ?N i)\<lparr> pk_write := write \<rparr>)"
  have "split_burst s addr n write data (addr + of_nat (R * i)) (of_nat i) acc = Some (acc @ map ?req [i..<?m])"
    if "i \<le> ?m" for i acc
    using that
  proof (induction "?m - i" arbitrary: i acc)
    case 0
    then have i: "i = ?m" by simp
    have le: "?N \<le> R * i" using chunks_end [OF R(2)] i by simp
    have "R * i < ?N + R"
    proof (cases i)
      case (Suc j)
      then show ?thesis using chunks_bound [OF R(2), of j ?N] i by simp
    qed (use R(2) in simp)
    then have "unat (addr + of_nat (R * i)) = unat addr + R * i" using wrap by (intro unat_plus_of_nat) simp
    moreover have "unat (addr + n) = unat addr + ?N" using wrap by (simp add: unat_add_nowrap)
    ultimately have "\<not> addr + of_nat (R * i) < addr + n" using le by (simp add: word_less_nat_alt)
    then show ?case using i by (subst split_burst.simps) simp
  next
    case (Suc k)
    have im: "i < ?m" using Suc.hyps(2) by simp
    have lt: "R * i < ?N" using chunks_bound [OF R(2) im] .
    have un: "unat (addr + of_nat (R * i)) = unat addr + R * i" using lt wrap by (intro unat_plus_of_nat) simp
    have un': "unat (addr + n) = unat addr + ?N" using wrap by (simp add: unat_add_nowrap)
    have iR: "of_nat i * n_max_rsze s = of_nat (R * i)" using R(1) by (simp add: mult.commute)
    have unR: "unat (of_nat (R * i) :: u64) = R * i" using lt wrap by (simp add: unat_of_nat del: of_nat_mult)
    have unR': "unat (of_nat (R * i) + n_max_rsze s) = R * i + R"
      using lt wrap R(1) unR by (subst unat_add_nowrap) (simp_all del: of_nat_mult)
    have sz: "(if n < of_nat (R * i) + n_max_rsze s then n mod n_max_rsze s else n_max_rsze s) = of_nat (chunk_len R ?N i)"
    proof (cases "?N < R * i + R")
      case True
      have "?N mod R = ?N - R * i" using True lt by (metis add.commute less_imp_le_nat mod_if mod_mult_self4 nat_less_le
            le_add_diff_inverse2 less_diff_conv2 mod_less)
      then have "n mod n_max_rsze s = of_nat (?N - R * i)" using R(1) wrap
        by (metis unat_mod word_of_nat_unat)
      moreover have "chunk_len R ?N i = ?N - R * i" unfolding chunk_len_def using True by (intro min_absorb2) linarith
      ultimately show ?thesis using True unR' by (simp add: word_less_nat_alt del: of_nat_mult)
    next
      case False
      then have "chunk_len R ?N i = R" unfolding chunk_len_def by (intro min_absorb1) linarith
      then show ?thesis using False unR' R(1) by (simp add: word_less_nat_alt del: of_nat_mult)
    qed
    have "split_burst s addr n write data (addr + of_nat (R * i)) (of_nat i) acc =
        split_burst s addr n write data (addr + of_nat (R * Suc i)) (of_nat (Suc i)) (acc @ [?req i])"
    proof -
      have nxt: "addr + of_nat (R * i) + n_max_rsze s = addr + of_nat (R * Suc i)" "of_nat i + 1 = (of_nat (Suc i) :: u64)"
        using R(1) by simp_all
      have ln: "unat (of_nat (chunk_len R ?N i) :: u64) = chunk_len R ?N i"
        using wrap by (simp add: chunk_len_def unat_of_nat min_def)
      have lo: "addr + of_nat (R * i) < addr + n" using un un' lt by (simp add: word_less_nat_alt)
      note ld = burst_data_load [OF buf chunk_fits [OF R(2) im]]
      show ?thesis
        by (subst split_burst.simps)
          (simp only: lo if_True Let_def iR sz unR ld bind.bind_lunit ln nxt chunk_sub_def chunk_packet_def dma_packet.simps)
    qed
    then show ?case using Suc.hyps(1) [of "Suc i"] Suc.hyps(2) im by (simp add: upt_rec [of i])
  qed
  from this [of 0 "[]"] show ?thesis by simp
qed

section \<open>Assembling the responses\<close>

text \<open>A burst read of \<open>N\<close> bytes, cut into chunks of \<open>R\<close> bytes that do not wrap around and lie at the start of their blocks.\<close>

definition burst_ok :: "gem5 \<Rightarrow> u64 \<Rightarrow> nat \<Rightarrow> nat \<Rightarrow> bool" where
  "burst_ok G addr R N \<longleftrightarrow> 0 < R \<and> unat addr + N + R < 2 ^ 64 \<and>
     (\<forall>i < chunks R N. g_block_offset G (addr + of_nat (R * i)) (chunk_len R N i) = 0)"

lemma burst_okD:
  assumes "burst_ok G addr R N"
  shows "0 < R" "unat addr + N + R < 2 ^ 64" "i < chunks R N \<Longrightarrow> g_block_offset G (addr + of_nat (R * i)) (chunk_len R N i) = 0"
  using assms by (simp_all add: burst_ok_def)

text \<open>An aligned address and the request size as block size give such a burst.\<close>

lemma aligned_burst_ok:
  assumes "0 < R" "unat addr + N + R < 2 ^ 64" "R dvd unat addr"
    and "\<forall>a l. R dvd unat a \<longrightarrow> 0 < l \<longrightarrow> l \<le> R \<longrightarrow> g_block_offset G a l = 0"
  shows "burst_ok G addr R N"
  unfolding burst_ok_def
proof (intro conjI allI impI)
  fix i assume i: "i < chunks R N"
  have lt: "R * i < N" using chunks_bound [OF assms(1) i] .
  then have "unat (addr + of_nat (R * i)) = unat addr + R * i" using assms(2) by (intro unat_plus_of_nat) simp
  then have "R dvd unat (addr + of_nat (R * i))" using assms(3) by simp
  then show "g_block_offset G (addr + of_nat (R * i)) (chunk_len R N i) = 0"
    using assms(1,4) lt by (simp add: chunk_len_def del: of_nat_mult)
qed (use assms in simp_all)

lemma start_inj:
  assumes "burst_ok G addr R N" "i < chunks R N" "j < chunks R N"
  shows "sr_start (chunk_sub addr data R N i) = sr_start (chunk_sub addr data R N j) \<longleftrightarrow> i = j"
proof -
  note R = burst_okD(1) [OF assms(1)] and wrap = burst_okD(2) [OF assms(1)]
  have un: "unat (addr + of_nat (R * k)) = unat addr + R * k" if "k < chunks R N" for k
    using chunks_bound [OF R that] wrap by (intro unat_plus_of_nat) simp
  have "R * i = R * j" if "sr_start (chunk_sub addr data R N i) = sr_start (chunk_sub addr data R N j)"
    using that un [OF assms(2)] un [OF assms(3)] unfolding chunk_sub_def sub_request.simps by (metis add_left_cancel)
  then show ?thesis using R by auto
qed

lemma pop_chunk:
  assumes "burst_ok G addr R N" "i \<in> set is" "set is \<subseteq> {..<chunks R N}"
  shows "popPendingSubRequest (pk_addr (chunk_packet M addr R N i)) (pk_addr (chunk_packet M addr R N i) + pk_size (chunk_packet M addr R N i)) (map (chunk_sub addr data R N) is) =
    Some ((fst data, snd data + R * i), map (chunk_sub addr data R N) (remove1 i is))"
  using assms(2,3)
proof (induction "is")
  case (Cons j js)
  show ?case
  proof (cases "i = j")
    case True
    then show ?thesis by (simp add: chunk_sub_def chunk_packet_def)
  next
    case False
    then have "sr_start (chunk_sub addr data R N j) \<noteq> pk_addr (chunk_packet M addr R N i)"
      using start_inj [OF assms(1), of i j] Cons.prems by (auto simp: chunk_sub_def chunk_packet_def simp del: of_nat_mult)
    then show ?thesis using Cons False by simp
  qed
qed simp

lemma chunk_size:
  assumes "burst_ok G addr R N"
  shows "unat (pk_size (chunk_packet M addr R N i)) = chunk_len R N i"
  using burst_okD(2) [OF assms] by (simp add: chunk_packet_def chunk_len_def unat_of_nat min_def)

text \<open>A state in which the chunks \<open>is\<close> are missing and the others are in the buffer.\<close>

definition collecting ::
  "(nat \<Rightarrow> u8) \<Rightarrow> u64 \<Rightarrow> ptr \<Rightarrow> nat \<Rightarrow> nat \<Rightarrow> burst_request \<Rightarrow> nat list \<Rightarrow> 'd ndp \<Rightarrow> bool" where
  "collecting M addr data R N b is s \<longleftrightarrow> n_bursts s = [b\<lparr> br_subs := map (chunk_sub addr data R N) is \<rparr>] \<and> set is \<subseteq> {..<chunks R N} \<and>
     fst data < length (n_heap s) \<and> snd data + N \<le> length (n_heap s ! fst data) \<and>
     (\<forall>k < N. k div R \<notin> set is \<longrightarrow> n_heap s ! fst data ! (snd data + k) = M k)"

text \<open>The buffers other than \<open>d\<close> are the same, and \<open>d\<close> has its length.\<close>

definition same_heap :: "nat \<Rightarrow> 'd ndp \<Rightarrow> 'd ndp \<Rightarrow> bool" where
  "same_heap d s s' \<longleftrightarrow> length (n_heap s') = length (n_heap s) \<and> length (n_heap s' ! d) = length (n_heap s ! d) \<and>
     (\<forall>e. e \<noteq> d \<longrightarrow> n_heap s' ! e = n_heap s ! e)"

lemma same_heap_trans: "same_heap d s s1 \<Longrightarrow> same_heap d s1 s2 \<Longrightarrow> same_heap d s s2"
  by (simp add: same_heap_def)

lemma store_chunk:
  assumes ok: "burst_ok G addr R N" and c: "collecting M addr data R N b is s" and i: "i < chunks R N"
  shows "\<exists>buf. heap_store (fst data, snd data + R * i) (pk_data (chunk_packet M addr R N i)) s = Some (s\<lparr> n_heap := (n_heap s)[fst data := buf] \<rparr>) \<and>
    length buf = length (n_heap s ! fst data) \<and> (\<forall>k < N. k div R \<notin> set is - {i} \<longrightarrow> buf ! (snd data + k) = M k)"
proof -
  note R = burst_okD(1) [OF ok]
  let ?buf = "n_heap s ! fst data" and ?o = "snd data + R * i" and ?bs = "pk_data (chunk_packet M addr R N i)"
  have id: "fst data < length (n_heap s)" and len: "snd data + N \<le> length ?buf" using c by (simp_all add: collecting_def)
  have lb: "length ?bs = chunk_len R N i" by (simp add: chunk_packet_def)
  have fit: "?o + length ?bs \<le> length ?buf" using chunk_fits [OF R i] len lb by simp
  let ?new = "take ?o ?buf @ ?bs @ drop (?o + length ?bs) ?buf"
  have st: "store_bytes ?buf ?o ?bs = Some ?new" using fit by (simp add: store_bytes_def)
  have run: "heap_store (fst data, ?o) ?bs s = Some (s\<lparr> n_heap := (n_heap s)[fst data := ?new] \<rparr>)"
    using id st by (simp add: heap_store_def)
  have "?new ! (snd data + k) = M k" if "k < N" "k div R \<notin> set is - {i}" for k
  proof (cases "R * i \<le> k \<and> k < R * i + chunk_len R N i")
    case True
    then obtain d where d: "k = R * i + d" "d < chunk_len R N i" by (metis le_add_diff_inverse nat_add_left_cancel_less)
    have "(?bs @ drop (?o + length ?bs) ?buf) ! d = M k" using d by (simp add: nth_append chunk_packet_def)
    moreover have "?new ! (?o + d) = (?bs @ drop (?o + length ?bs) ?buf) ! d"
      using nth_append_length_plus [of "take ?o ?buf" "?bs @ drop (?o + length ?bs) ?buf" d] fit by simp
    ultimately show ?thesis using d(1) by (simp add: add.assoc)
  next
    case False
    have "k div R \<noteq> i"
    proof
      assume "k div R = i"
      then have "R * i \<le> k" "k < R * i + R" using dividend_less_times_div [OF R, of k] by (auto simp: mult.commute)
      then show False using False that(1) by (auto simp: chunk_len_def)
    qed
    then have "?buf ! (snd data + k) = M k" using c that by (simp add: collecting_def)
    moreover have "?new ! (snd data + k) = ?buf ! (snd data + k)"
    proof (cases "k < R * i")
      case True
      then show ?thesis using fit by (simp add: nth_append)
    next
      case False
      then have ge: "?o + length ?bs \<le> snd data + k" using \<open>\<not> (R * i \<le> k \<and> k < R * i + chunk_len R N i)\<close> lb by simp
      then obtain d where "snd data + k = ?o + length ?bs + d" using le_Suc_ex by blast
      then show ?thesis using fit nth_append_length_plus [of "take ?o ?buf @ ?bs" "drop (?o + length ?bs) ?buf" d]
        by (simp add: add.assoc)
    qed
    ultimately show ?thesis by simp
  qed
  then have all: "\<forall>k < N. k div R \<notin> set is - {i} \<longrightarrow> ?new ! (snd data + k) = M k" by blast
  have "length ?new = length ?buf" using fit by simp
  then show ?thesis using run all by blast
qed

lemma chunk_packet_sel [simp]:
  "\<not> pk_write (chunk_packet M addr R N i)" "pk_addr (chunk_packet M addr R N i) = addr + of_nat (R * i)"
  by (simp_all add: chunk_packet_def)

text \<open>One response: it fills its chunk, and the last one hands the buffer to the device.\<close>

lemma scan_chunk:
  assumes ok: "burst_ok G addr R N" and c: "collecting M addr data R N b is s" and i: "i \<in> set is"
    and b: "\<not> br_write b" "br_start b = addr" "br_data b = data" and d: "distinct is"
  shows "\<exists>s1. collecting M addr data R N b (remove1 i is) s1 \<and> n_dev s1 = n_dev s \<and> n_max_rsze s1 = n_max_rsze s \<and>
    same_heap (fst data) s s1 \<and>
    n_packets s1 = n_packets s \<and> n_dma_actv s1 = n_dma_actv s \<and> n_fly_reqs s1 = n_fly_reqs s \<and> n_max_reqs s1 = n_max_reqs s \<and>
    scan_bursts G C (chunk_packet M addr R N i) [0..<length (n_bursts s)] s =
      (if remove1 i is = []
       then do { s2 \<leftarrow> c_recvData C addr (Some data) (br_end b - addr) s1; Some (s2\<lparr> n_bursts := drop 1 (n_bursts s2) \<rparr>) }
       else Some s1)"
proof -
  have bs: "n_bursts s = [b\<lparr> br_subs := map (chunk_sub addr data R N) is \<rparr>]" and sub: "set is \<subseteq> {..<chunks R N}"
    and h: "fst data < length (n_heap s)" "snd data + N \<le> length (n_heap s ! fst data)"
    using c by (simp_all add: collecting_def)
  have ic: "i < chunks R N" using i sub by auto
  obtain buf where buf: "heap_store (fst data, snd data + R * i) (pk_data (chunk_packet M addr R N i)) s =
      Some (s\<lparr> n_heap := (n_heap s)[fst data := buf] \<rparr>)" "length buf = length (n_heap s ! fst data)"
    "\<forall>k < N. k div R \<notin> set is - {i} \<longrightarrow> buf ! (snd data + k) = M k"
    using store_chunk [OF ok c ic] by blast
  let ?s1 = "s\<lparr> n_heap := (n_heap s)[fst data := buf], n_bursts := [b\<lparr> br_subs := map (chunk_sub addr data R N) (remove1 i is) \<rparr>] \<rparr>"
  have "set (remove1 i is) = set is - {i}" using d by (simp add: set_remove1_eq)
  then have "collecting M addr data R N b (remove1 i is) ?s1"
    using sub h buf(2,3) by (auto simp: collecting_def)
  moreover have "scan_bursts G C (chunk_packet M addr R N i) [0..<length (n_bursts s)] s =
      (if remove1 i is = []
       then do { s2 \<leftarrow> c_recvData C addr (Some data) (br_end b - addr) ?s1; Some (s2\<lparr> n_bursts := drop 1 (n_bursts s2) \<rparr>) }
       else Some ?s1)"
    using bs b buf(1) burst_okD(3) [OF ok ic] chunk_size [OF ok, of M i] pop_chunk [OF ok i sub, of M data]
    by (simp add: Let_def del: of_nat_mult)
  moreover have "same_heap (fst data) s ?s1" using buf(2) h(1) by (simp add: same_heap_def)
  ultimately show ?thesis by (intro exI [of _ ?s1]) simp
qed

definition answered :: "gem5 \<Rightarrow> 'd ndp \<Rightarrow> 'd ndp option" where
  "answered G s =
     (let s = s\<lparr> n_fly_reqs := n_fly_reqs s - 1 \<rparr> in
      if \<not> n_dma_actv s \<and> n_packets s \<noteq> [] then sendData G (s\<lparr> n_dma_actv := True \<rparr>) else Some s)"

lemma memCallback_answered: "memCallback G C p s = Option.bind (scan_bursts G C p [0..<length (n_bursts s)] s) (answered G)"
  by (simp add: memCallback_def answered_def [abs_def])

lemma sendData_keeps:
  assumes "n_packets s \<noteq> []"
  shows "\<exists>s'. sendData G s = Some s' \<and> n_bursts s' = n_bursts s \<and> n_heap s' = n_heap s \<and> n_dev s' = n_dev s \<and>
    n_max_rsze s' = n_max_rsze s \<and> n_sent s' @ n_packets s' = n_sent s @ n_packets s"
  using assms by (auto simp: sendData_def Let_def split: list.splits)

lemma answered_keeps:
  "\<exists>s'. answered G s = Some s' \<and> n_bursts s' = n_bursts s \<and> n_heap s' = n_heap s \<and> n_dev s' = n_dev s \<and> n_max_rsze s' = n_max_rsze s \<and>
    n_sent s' @ n_packets s' = n_sent s @ n_packets s"
  using sendData_keeps [of "s\<lparr> n_fly_reqs := n_fly_reqs s - 1, n_dma_actv := True \<rparr>" G] by (auto simp: answered_def Let_def)

lemma memCallback_chunk:
  assumes ok: "burst_ok G addr R N" and c: "collecting M addr data R N b is s" and i: "i \<in> set is"
    and b: "\<not> br_write b" "br_start b = addr" "br_data b = data" and d: "distinct is"
  shows "remove1 i is \<noteq> [] \<Longrightarrow> \<exists>s1. memCallback G C (chunk_packet M addr R N i) s = Some s1 \<and>
      collecting M addr data R N b (remove1 i is) s1 \<and> n_dev s1 = n_dev s \<and> n_max_rsze s1 = n_max_rsze s \<and>
      same_heap (fst data) s s1"
    and "remove1 i is = [] \<Longrightarrow> \<exists>s1. collecting M addr data R N b [] s1 \<and> n_dev s1 = n_dev s \<and> n_max_rsze s1 = n_max_rsze s \<and>
      same_heap (fst data) s s1 \<and>
      memCallback G C (chunk_packet M addr R N i) s =
        do { s2 \<leftarrow> c_recvData C addr (Some data) (br_end b - addr) s1; answered G (s2\<lparr> n_bursts := drop 1 (n_bursts s2) \<rparr>) }"
proof -
  obtain s1 where s1: "collecting M addr data R N b (remove1 i is) s1" "n_dev s1 = n_dev s" "n_max_rsze s1 = n_max_rsze s"
    "same_heap (fst data) s s1"
    "scan_bursts G C (chunk_packet M addr R N i) [0..<length (n_bursts s)] s =
      (if remove1 i is = []
       then do { s2 \<leftarrow> c_recvData C addr (Some data) (br_end b - addr) s1; Some (s2\<lparr> n_bursts := drop 1 (n_bursts s2) \<rparr>) }
       else Some s1)"
    using scan_chunk [OF ok c i b d, of C] by blast
  show "\<exists>s1. memCallback G C (chunk_packet M addr R N i) s = Some s1 \<and>
      collecting M addr data R N b (remove1 i is) s1 \<and> n_dev s1 = n_dev s \<and> n_max_rsze s1 = n_max_rsze s \<and>
      same_heap (fst data) s s1"
    if "remove1 i is \<noteq> []"
  proof -
    obtain s2 where s2: "answered G s1 = Some s2" "n_bursts s2 = n_bursts s1" "n_heap s2 = n_heap s1" "n_dev s2 = n_dev s1"
      "n_max_rsze s2 = n_max_rsze s1" using answered_keeps by blast
    have "memCallback G C (chunk_packet M addr R N i) s = Some s2"
      unfolding memCallback_def s1(5) using that s2(1) by (simp add: answered_def)
    then show ?thesis using s1(1-4) s2 by (intro exI [of _ s2]) (simp add: collecting_def same_heap_def)
  qed
  show "\<exists>s1. collecting M addr data R N b [] s1 \<and> n_dev s1 = n_dev s \<and> n_max_rsze s1 = n_max_rsze s \<and>
      same_heap (fst data) s s1 \<and>
      memCallback G C (chunk_packet M addr R N i) s =
        do { s2 \<leftarrow> c_recvData C addr (Some data) (br_end b - addr) s1; answered G (s2\<lparr> n_bursts := drop 1 (n_bursts s2) \<rparr>) }"
    if last: "remove1 i is = []"
    using s1 unfolding last memCallback_def by (intro exI [of _ s1]) (simp add: answered_def)
qed

lemma collect_all:
  assumes ok: "burst_ok G addr R N" and b: "\<not> br_write b" "br_start b = addr" "br_data b = data"
    and "collecting M addr data R N b is s" "distinct is" "distinct js" "set js \<subset> set is"
  shows "\<exists>s1 is1. loop (\<lambda>i. memCallback G C (chunk_packet M addr R N i)) js s = Some s1 \<and> collecting M addr data R N b is1 s1 \<and>
    distinct is1 \<and> set is1 = set is - set js \<and> n_dev s1 = n_dev s \<and> n_max_rsze s1 = n_max_rsze s \<and>
    same_heap (fst data) s s1"
  using assms(5-8)
proof (induction js arbitrary: "is" s)
  case (Cons j js)
  have set1: "set (remove1 j is) = set is - {j}" using Cons.prems(2) by (simp add: set_remove1_eq)
  have sub1: "set js \<subset> set (remove1 j is)" using Cons.prems(3,4) unfolding set1 by auto
  then have ne: "remove1 j is \<noteq> []" by auto
  have jis: "j \<in> set is" using Cons.prems(4) by auto
  obtain s1 where s1: "memCallback G C (chunk_packet M addr R N j) s = Some s1" "collecting M addr data R N b (remove1 j is) s1"
    "n_dev s1 = n_dev s" "n_max_rsze s1 = n_max_rsze s" "same_heap (fst data) s s1"
    using memCallback_chunk(1) [OF ok Cons.prems(1) jis b Cons.prems(2) ne] by blast
  have d1: "distinct (remove1 j is)" "distinct js" using Cons.prems(2,3) by simp_all
  obtain s2 is2 where s2: "loop (\<lambda>i. memCallback G C (chunk_packet M addr R N i)) js s1 = Some s2"
    "collecting M addr data R N b is2 s2" "distinct is2" "set is2 = set (remove1 j is) - set js" "n_dev s2 = n_dev s1"
    "n_max_rsze s2 = n_max_rsze s1" "same_heap (fst data) s1 s2"
    using Cons.IH [OF s1(2) d1 sub1] by blast
  have "set is2 = set is - set (j # js)" using s2(4) set1 by auto
  then show ?case using s1 s2 same_heap_trans [of _ s s1 s2] by (intro exI [of _ s2] exI [of _ is2]) simp
qed (auto simp: same_heap_def)

text \<open>
  The responses of a burst in any order: all but the last leave the device alone, and with the last one it
  gets a buffer that holds the bytes of memory.
\<close>

lemma burst_assembled:
  assumes ok: "burst_ok G addr R N" and b: "\<not> br_write b" "br_start b = addr" "br_data b = (d, 0)" "br_end b - addr = n"
    and s: "n_bursts s = [b\<lparr> br_subs := map (chunk_sub addr (d, 0) R N) [0..<chunks R N] \<rparr>]" "d < length (n_heap s)"
      "length (n_heap s ! d) = N"
    and js: "distinct (js @ [i])" "set (js @ [i]) = {..<chunks R N}"
  shows "\<exists>s1 s2. loop (\<lambda>i. memCallback G C (chunk_packet M addr R N i)) js s = Some s1 \<and> n_dev s1 = n_dev s \<and>
    length (n_bursts s2) = 1 \<and> n_heap s2 ! d = map M [0..<N] \<and> same_heap d s s2 \<and> n_dev s2 = n_dev s \<and> n_max_rsze s2 = n_max_rsze s \<and>
    memCallback G C (chunk_packet M addr R N i) s1 =
      do { s3 \<leftarrow> c_recvData C addr (Some (d, 0)) n s2; answered G (s3\<lparr> n_bursts := drop 1 (n_bursts s3) \<rparr>) }"
proof -
  have R: "0 < R" using burst_okD(1) [OF ok] .
  have all: "k div R \<in> set [0..<chunks R N]" if "k < N" for k
    using that chunks_end [OF R, of N] R by (simp add: less_mult_imp_div_less mult.commute)
  have c: "collecting M addr (d, 0) R N b [0..<chunks R N] s"
    unfolding collecting_def using s all by (intro conjI allI impI) (simp_all add: atLeast0LessThan)
  have dj: "distinct js" using js(1) by simp
  have up: "set [0..<chunks R N] = insert i (set js)" using js(2) by (simp add: atLeast0LessThan)
  then have sub: "set js \<subset> set [0..<chunks R N]" using js(1) unfolding up by (simp add: psubset_insert_iff)
  obtain s1 is1 where s1: "loop (\<lambda>i. memCallback G C (chunk_packet M addr R N i)) js s = Some s1"
    "collecting M addr (d, 0) R N b is1 s1" "distinct is1" "set is1 = set [0..<chunks R N] - set js" "n_dev s1 = n_dev s"
    "n_max_rsze s1 = n_max_rsze s" "same_heap d s s1"
    using collect_all [OF ok b(1-3) c distinct_upt dj sub, of C] unfolding fst_conv by blast
  have "set is1 = {i}" using s1(4) js(1) unfolding up by (simp add: insert_Diff_if)
  then have is1: "i \<in> set is1" "remove1 i is1 = []"
    using set_remove1_eq [OF s1(3), of i] by simp_all
  from memCallback_chunk(2) [OF ok s1(2) is1(1) b(1-3) s1(3) is1(2), of C]
  obtain s2 where s2: "collecting M addr (d, 0) R N b [] s2" "n_dev s2 = n_dev s1" "n_max_rsze s2 = n_max_rsze s1"
    "same_heap d s1 s2"
    "memCallback G C (chunk_packet M addr R N i) s1 =
        do { s3 \<leftarrow> c_recvData C addr (Some (d, 0)) (br_end b - addr) s2; answered G (s3\<lparr> n_bursts := drop 1 (n_bursts s3) \<rparr>) }"
    unfolding fst_conv by blast
  have "n_heap s2 ! d = map M [0..<N]"
    using s2(1,4) s1(7) s(3) by (auto simp: collecting_def list_eq_iff_nth_eq same_heap_def)
  moreover have "length (n_bursts s2) = 1" using s2(1) by (simp add: collecting_def)
  ultimately show ?thesis using s1 s2 b(4) same_heap_trans [OF s1(7) s2(4)] by (intro exI [of _ s1] exI [of _ s2]) simp
qed

corollary burst_answered:
  assumes ok: "burst_ok G addr R N" and b: "\<not> br_write b" "br_start b = addr" "br_data b = (d, 0)" "br_end b - addr = n"
    and s: "n_bursts s = [b\<lparr> br_subs := map (chunk_sub addr (d, 0) R N) [0..<chunks R N] \<rparr>]" "d < length (n_heap s)"
      "length (n_heap s ! d) = N" "0 < N"
    and js: "distinct js" "set js = {..<chunks R N}"
  shows "\<exists>s2. length (n_bursts s2) = 1 \<and> n_heap s2 ! d = map M [0..<N] \<and> same_heap d s s2 \<and> n_dev s2 = n_dev s \<and>
    n_max_rsze s2 = n_max_rsze s \<and> loop (\<lambda>i. memCallback G C (chunk_packet M addr R N i)) js s =
      do { s3 \<leftarrow> c_recvData C addr (Some (d, 0)) n s2; answered G (s3\<lparr> n_bursts := drop 1 (n_bursts s3) \<rparr>) }"
proof -
  have "0 < chunks R N" using chunks_end [OF burst_okD(1) [OF ok], of N] s(4) by (cases "chunks R N") simp_all
  then have "js \<noteq> []" using js(2) by (cases js) auto
  then obtain ks i where js': "js = ks @ [i]" by (metis rev_exhaust)
  from burst_assembled [OF ok b s(1-3) js [unfolded js'], of C M] show ?thesis
    unfolding js' loop_append loop_single by (elim exE conjE) (simp only: bind.bind_lunit, blast)
qed

text \<open>The acknowledgements of a write burst, in any order.\<close>

lemma scan_acknowledge:
  fixes s :: "'d ndp"
  assumes ok: "burst_ok G' addr R N" and b: "br_write b" "br_start b = addr"
    and s: "n_bursts s = [b\<lparr> br_subs := map (chunk_sub addr data R N) is \<rparr>]" "i \<in> set is" "set is \<subseteq> {..<chunks R N}"
  defines "s1 \<equiv> s\<lparr> n_bursts := [b\<lparr> br_subs := map (chunk_sub addr data R N) (remove1 i is) \<rparr>] \<rparr>"
  shows "memCallback G C ((chunk_packet M addr R N i)\<lparr> pk_write := True \<rparr>) s =
    (if remove1 i is = []
     then do { s2 \<leftarrow> c_recvData C addr None (br_end b - addr) s1; answered G (s2\<lparr> n_bursts := drop 1 (n_bursts s2) \<rparr>) }
     else answered G s1)"
proof -
  have "scan_bursts G C ((chunk_packet M addr R N i)\<lparr> pk_write := True \<rparr>) [0..<length (n_bursts s)] s =
    (if remove1 i is = []
     then do { s2 \<leftarrow> c_recvData C addr None (br_end b - addr) s1; Some (s2\<lparr> n_bursts := drop 1 (n_bursts s2) \<rparr>) } else Some s1)"
    using pop_chunk [OF ok s(2,3), of M data] b s(1) by (simp add: s1_def Let_def del: of_nat_mult)
  then show ?thesis by (simp add: memCallback_answered)
qed

lemma burst_acknowledged:
  fixes s :: "'d ndp"
  assumes R: "0 < R" "unat addr + N + R < 2 ^ 64" and b: "br_write b" "br_start b = addr" "br_end b - addr = n"
    and s: "n_bursts s = [b\<lparr> br_subs := map (chunk_sub addr data R N) is \<rparr>]" "is \<noteq> []" "set is \<subseteq> {..<chunks R N}" "distinct is"
    and js: "distinct js" "set js = set is"
  shows "\<exists>s2. length (n_bursts s2) = 1 \<and> n_heap s2 = n_heap s \<and> n_dev s2 = n_dev s \<and>
    loop (\<lambda>i. memCallback G C ((chunk_packet M addr R N i)\<lparr> pk_write := True \<rparr>)) js s =
      do { s3 \<leftarrow> c_recvData C addr None n s2; answered G (s3\<lparr> n_bursts := drop 1 (n_bursts s3) \<rparr>) }"
  using s js
proof (induction js arbitrary: "is" s)
  case (Cons j js)
  have ok: "burst_ok \<lparr> g_accepts = (\<lambda>_. True), g_block_offset = (\<lambda>_ _. 0) \<rparr> addr R N" using R by (simp add: burst_ok_def)
  have jis: "j \<in> set is" using Cons.prems(6) by auto
  let ?s1 = "s\<lparr> n_bursts := [b\<lparr> br_subs := map (chunk_sub addr data R N) (remove1 j is) \<rparr>] \<rparr>"
  note cb = scan_acknowledge [OF ok b(1,2) Cons.prems(1) jis Cons.prems(3), of G C M]
  have set1: "set (remove1 j is) = set js" using Cons.prems(4-6) by (auto simp: set_remove1_eq)
  show ?case
  proof (cases "remove1 j is = []")
    case True
    then have "js = []" using set1 by simp
    then show ?thesis using True cb b(3) by (intro exI [of _ ?s1]) (simp add: loop_single)
  next
    case False
    obtain s2 where s2: "answered G ?s1 = Some s2" "n_bursts s2 = n_bursts ?s1" "n_heap s2 = n_heap ?s1" "n_dev s2 = n_dev ?s1"
      using answered_keeps [of G ?s1] by blast
    have "n_bursts s2 = [b\<lparr> br_subs := map (chunk_sub addr data R N) (remove1 j is) \<rparr>]" using s2(2) by simp
    moreover have "set (remove1 j is) \<subseteq> {..<chunks R N}" "distinct (remove1 j is)" "distinct js" "set js = set (remove1 j is)"
      using set1 Cons.prems(3-6) by auto
    ultimately show ?thesis using Cons.IH [of s2 "remove1 j is"] False cb s2 by simp
  qed
qed simp

text \<open>The start of a burst.\<close>

lemma accessMemory_burst:
  fixes s :: "'d ndp"
  assumes R: "R = unat (n_max_rsze s)" "0 < R" and wrap: "unat addr + unat n + R < 2 ^ 64" "0 < unat n"
    and buf: "write \<Longrightarrow> fst data < length (n_heap s) \<and> snd data + unat n \<le> length (n_heap s ! fst data)"
  shows "\<exists>s'. accessMemory G addr n write data s = Some s' \<and> n_heap s' = n_heap s \<and> n_dev s' = n_dev s \<and> n_max_rsze s' = n_max_rsze s \<and>
    n_bursts s' = n_bursts s @ [\<lparr> br_start = addr, br_end = addr + n, br_data = data, br_write = write,
      br_subs = map (chunk_sub addr data R (unat n)) [0..<chunks R (unat n)] \<rparr>] \<and>
    n_sent s' @ n_packets s' = n_sent s @ n_packets s @
      map (\<lambda>i. (chunk_packet (burst_data write s data) addr R (unat n) i)\<lparr> pk_write := write \<rparr>) [0..<chunks R (unat n)]"
proof -
  let ?ps = "map (\<lambda>i. (chunk_packet (burst_data write s data) addr R (unat n) i)\<lparr> pk_write := write \<rparr>) [0..<chunks R (unat n)]"
  let ?s2 = "s\<lparr> n_packets := n_packets s @ ?ps, n_bursts := n_bursts s @ [\<lparr> br_start = addr, br_end = addr + n, br_data = data,
    br_write = write, br_subs = map (chunk_sub addr data R (unat n)) [0..<chunks R (unat n)] \<rparr>] \<rparr>"
  have pos: "0 < chunks R (unat n)" using chunks_end [OF R(2), of "unat n"] wrap(2) by (cases "chunks R (unat n)") simp_all
  have run: "accessMemory G addr n write data s = (if \<not> n_dma_actv s then sendData G (?s2\<lparr> n_dma_actv := True \<rparr>) else Some ?s2)"
    using split_burst_chunks [OF R wrap(1) buf] by (simp add: accessMemory_def Let_def comp_def)
  have "n_packets (?s2\<lparr> n_dma_actv := True \<rparr>) \<noteq> []" using pos by simp
  from sendData_keeps [OF this, of G] show ?thesis
    unfolding run by (cases "n_dma_actv s") auto
qed

section \<open>The queue\<close>

text \<open>
  \<open>queue_inv k\<close>: the count of requests in flight is that of the accepted packets, plus the \<open>k\<close> responses being
  handled; it never passes the limit. While the DMA engine is active exactly one trigger is outstanding, a
  scheduled event or a retry, and there is a packet to send; while it is asleep either nothing is to be
  sent or the limit is reached, so that a response will wake it.
\<close>

definition queue_inv :: "nat \<Rightarrow> 'd ndp \<Rightarrow> bool" where
  "queue_inv k s \<longleftrightarrow> unat (n_fly_reqs s) = length (n_sent s) + k \<and> n_fly_reqs s \<le> n_max_reqs s \<and>
     (if n_dma_actv s then n_packets s \<noteq> [] \<and> n_events s + of_bool (n_refused s) = 1
      else n_events s = 0 \<and> \<not> n_refused s \<and> (n_packets s = [] \<or> n_fly_reqs s = n_max_reqs s))"

text \<open>The state in which \<open>sendData\<close> is called: the trigger has been taken.\<close>

definition send_inv :: "nat \<Rightarrow> 'd ndp \<Rightarrow> bool" where
  "send_inv k s \<longleftrightarrow> unat (n_fly_reqs s) = length (n_sent s) + k \<and> n_fly_reqs s \<le> n_max_reqs s \<and> n_dma_actv s \<and>
     n_events s = 0 \<and> \<not> n_refused s"

lemma sendData_queue:
  assumes "send_inv k s" "n_packets s \<noteq> []"
  shows "\<exists>s'. sendData G s = Some s' \<and> queue_inv k s' \<and> n_sent s' @ n_packets s' = n_sent s @ n_packets s \<and>
    n_dev s' = n_dev s \<and> n_heap s' = n_heap s \<and> n_bursts s' = n_bursts s"
proof (cases "n_fly_reqs s = n_max_reqs s")
  case True
  then show ?thesis using assms by (simp add: sendData_def send_inv_def queue_inv_def)
next
  case False
  then have "unat (n_fly_reqs s) \<noteq> unat (n_max_reqs s)" unfolding word_unat_eq_iff [symmetric] .
  moreover have "n_fly_reqs s \<le> n_max_reqs s" using assms(1) by (simp add: send_inv_def)
  ultimately have lt: "unat (n_fly_reqs s) < unat (n_max_reqs s)" unfolding word_le_nat_alt by simp
  then have "unat (n_fly_reqs s) + unat (1 :: u64) < 2 ^ 64" using unat_lt_pow2 [of "n_max_reqs s"] by simp
  then have un: "unat (n_fly_reqs s + 1) = unat (n_fly_reqs s) + 1" by (simp add: unat_add_nowrap)
  then have fly: "n_fly_reqs s + 1 \<le> n_max_reqs s" using lt by (simp add: word_le_nat_alt)
  obtain p ps where ps: "n_packets s = p # ps" using assms(2) by (cases "n_packets s") auto
  show ?thesis
    using assms(1) False un fly ps by (auto simp: sendData_def send_inv_def queue_inv_def Let_def)
qed

lemma accessMemory_queue:
  assumes inv: "queue_inv k s" and a: "accessMemory G addr n w d s = Some s'"
  shows "queue_inv k s'"
proof -
  obtain reqs where reqs: "split_burst s addr n w d addr 0 [] = Some reqs" using a by (auto simp: accessMemory_def split: bind_splits)
  let ?s1 = "s\<lparr> n_packets := n_packets s @ map snd reqs, n_bursts := n_bursts s @ [\<lparr> br_start = addr, br_end = addr + n,
     br_data = d, br_write = w, br_subs = map fst reqs \<rparr>] \<rparr>"
  have a1: "(if \<not> n_dma_actv s then sendData G (?s1\<lparr> n_dma_actv := True \<rparr>) else Some ?s1) = Some s'"
    using a reqs by (simp add: accessMemory_def Let_def)
  show ?thesis
  proof (cases "n_dma_actv s")
    case True
    then show ?thesis using a1 inv by (auto simp: queue_inv_def)
  next
    case False
    then have send: "send_inv k (?s1\<lparr> n_dma_actv := True \<rparr>)" using inv by (simp add: queue_inv_def send_inv_def)
    show ?thesis
    proof (cases "n_packets ?s1 = []")
      case True
      then show ?thesis using False a1 inv by (auto simp: sendData_def queue_inv_def split: if_splits)
    next
      case ne: False
      then show ?thesis using sendData_queue [OF send, of G] a1 False by auto
    qed
  qed
qed

text \<open>What the queue asks of a subclass: its methods keep the invariant.\<close>

locale ndp_subclass =
  fixes C :: "'d ndp_class"
  assumes recv_queue: "queue_inv k s \<Longrightarrow> c_recvData C a d n s = Some s' \<Longrightarrow> queue_inv k s'"
    and write_queue: "queue_inv k s \<Longrightarrow> c_writePI C r v s = Some s' \<Longrightarrow> queue_inv k s'"
begin

lemma scan_queue: "queue_inv k s \<Longrightarrow> scan_bursts G C p is s = Some s' \<Longrightarrow> queue_inv k s'"
proof (induction "is" arbitrary: s)
  case (Cons i "is")
  let ?b = "n_bursts s ! i"
  have skip: "queue_inv k s'" if "scan_bursts G C p is s = Some s'" using Cons.IH [OF Cons.prems(1) that] .
  show ?case
  proof (cases "br_write ?b \<noteq> pk_write p")
    case True
    then show ?thesis using Cons.prems(2) skip by simp
  next
    case False
    show ?thesis
    proof (cases "popPendingSubRequest (pk_addr p) (pk_addr p + pk_size p) (br_subs ?b)")
      case None
      then show ?thesis using False Cons.prems(2) skip by simp
    next
      case (Some dr)
      obtain dat rest where dr: "dr = (dat, rest)" by (cases dr)
      obtain s1 where s1: "(if pk_write p then Some s
          else heap_store (fst dat, snd dat + g_block_offset G (pk_addr p) (unat (pk_size p))) (pk_data p) s) = Some s1"
        using Cons.prems(2) False Some dr by (auto simp: Let_def split: bind_splits if_splits)
      let ?s2 = "s1\<lparr> n_bursts := (n_bursts s1)[i := ?b\<lparr> br_subs := rest \<rparr>] \<rparr>"
      have inv: "queue_inv k ?s2"
        using s1 Cons.prems(1) by (auto simp: heap_store_def queue_inv_def split: if_splits bind_splits)
      show ?thesis
      proof (cases "rest = []")
        case True
        then obtain s3 where "c_recvData C (br_start ?b) (if br_write ?b then None else Some (br_data ?b)) (br_end ?b - br_start ?b) ?s2 = Some s3"
          "s' = s3\<lparr> n_bursts := take i (n_bursts s3) @ drop (Suc i) (n_bursts s3) \<rparr>"
          using Cons.prems(2) False Some dr s1 by (auto simp: Let_def split: bind_splits)
        then show ?thesis using recv_queue [OF inv] by (auto simp: queue_inv_def)
      next
        case nl: False
        then have "scan_bursts G C p is ?s2 = Some s'" using Cons.prems(2) False Some dr s1 by (simp add: Let_def)
        then show ?thesis using Cons.IH [OF inv] by blast
      qed
    qed
  qed
qed simp

lemma memCallback_queue:
  assumes inv: "queue_inv 1 s" and m: "memCallback G C p s = Some s'"
  shows "queue_inv 0 s'"
proof -
  obtain s1 where s1: "scan_bursts G C p [0..<length (n_bursts s)] s = Some s1" "answered G s1 = Some s'"
    using m by (auto simp: memCallback_def answered_def split: bind_splits)
  have i1: "queue_inv 1 s1" using scan_queue [OF inv s1(1)] .
  have pos: "0 < unat (n_fly_reqs s1)" using i1 by (simp add: queue_inv_def)
  then have un: "unat (n_fly_reqs s1 - 1) = unat (n_fly_reqs s1) - 1" by (metis unat_minus_one unat_gt_0)
  have le: "n_fly_reqs s1 - 1 \<le> n_max_reqs s1" using i1 un by (simp add: queue_inv_def word_le_nat_alt)
  show ?thesis
  proof (cases "\<not> n_dma_actv s1 \<and> n_packets s1 \<noteq> []")
    case True
    then have "send_inv 0 (s1\<lparr> n_fly_reqs := n_fly_reqs s1 - 1, n_dma_actv := True \<rparr>)"
      using i1 un le by (auto simp: queue_inv_def send_inv_def)
    from sendData_queue [OF this, of G] show ?thesis using True s1(2) by (auto simp: answered_def Let_def)
  next
    case False
    then show ?thesis using s1(2) i1 un le by (cases "n_dma_actv s1") (auto simp: answered_def queue_inv_def Let_def)
  qed
qed

end

text \<open>
  The device in its system: register accesses of the CPU, the scheduled event, the retry the port owes, and
  the response of memory to an accepted packet, in any order.
\<close>

inductive ndp_step :: "gem5 \<Rightarrow> 'd ndp_class \<Rightarrow> 'd ndp \<Rightarrow> 'd ndp \<Rightarrow> bool" for G C where
  cpu: "recvTimingReq C p s = Some (r, s') \<Longrightarrow> ndp_step G C s s'"
| event: "0 < n_events s \<Longrightarrow> sendData G (s\<lparr> n_events := n_events s - 1 \<rparr>) = Some s' \<Longrightarrow> ndp_step G C s s'"
| retry: "n_refused s \<Longrightarrow> recvReqRetry G Dma_port s = Some s' \<Longrightarrow> ndp_step G C s s'"
| response: "n_sent s = xs @ p # ys \<Longrightarrow> pk_addr q = pk_addr p \<Longrightarrow> pk_size q = pk_size p \<Longrightarrow> pk_write q = pk_write p \<Longrightarrow>
    recvTimingResp G C Dma_port q (s\<lparr> n_sent := xs @ ys \<rparr>) = Some s' \<Longrightarrow> ndp_step G C s s'"
| device: "ndp_step G C s (s\<lparr> n_dev := d \<rparr>)"

context ndp_subclass
begin

lemma step_queue:
  assumes "ndp_step G C s s'" "queue_inv 0 s"
  shows "queue_inv 0 s'"
  using assms
proof cases
  case (cpu p r)
  then show ?thesis
    using assms(2) write_queue by (cases p) (auto simp: recvTimingReq_def split: if_splits bind_splits)
next
  case event
  then have "n_dma_actv s" "n_packets s \<noteq> []" "send_inv 0 (s\<lparr> n_events := n_events s - 1 \<rparr>)"
    using assms(2) by (auto simp: queue_inv_def send_inv_def split: if_splits)
  then show ?thesis using sendData_queue [of 0 "s\<lparr> n_events := n_events s - 1 \<rparr>" G] event(2) by auto
next
  case retry
  then have "n_dma_actv s" "n_packets s \<noteq> []" "send_inv 0 (s\<lparr> n_refused := False \<rparr>)"
    using assms(2) by (auto simp: queue_inv_def send_inv_def split: if_splits)
  then show ?thesis using sendData_queue [of 0 "s\<lparr> n_refused := False \<rparr>" G] retry(2) by (auto simp: recvReqRetry_def)
next
  case (response xs p ys q)
  have "queue_inv 1 (s\<lparr> n_sent := xs @ ys \<rparr>)" using response(1) assms(2) by (auto simp: queue_inv_def split: if_splits)
  then show ?thesis using memCallback_queue response(5) by (simp add: recvTimingResp_def)
next
  case (device d)
  then show ?thesis using assms(2) by (simp add: queue_inv_def)
qed

lemma reachable_queue: "(ndp_step G C)\<^sup>*\<^sup>* s s' \<Longrightarrow> queue_inv 0 s \<Longrightarrow> queue_inv 0 s'"
  by (induction rule: rtranclp_induct) (auto intro: step_queue)

end

text \<open>In a state that satisfies the invariant an event never finds the queue empty, and packets are never stuck.\<close>

lemma queue_progress:
  assumes "queue_inv 0 s" "n_packets s \<noteq> []" "n_max_reqs s \<noteq> 0"
  shows "0 < n_events s \<or> n_refused s \<or> n_sent s \<noteq> []"
  using assms by (auto simp: queue_inv_def unat_eq_0 split: if_splits)

lemma queue_event_defined:
  assumes "queue_inv 0 s" "0 < n_events s \<or> n_refused s"
  shows "\<exists>s'. sendData G (s\<lparr> n_events := n_events s - 1 \<rparr>) = Some s'" "\<exists>s'. recvReqRetry G Dma_port s = Some s'"
  using assms sendData_keeps [of "s\<lparr> n_events := n_events s - 1 \<rparr>" G] sendData_keeps [of "s\<lparr> n_refused := False \<rparr>" G]
  by (auto simp: queue_inv_def recvReqRetry_def split: if_splits)

text \<open>The queue of a device that has just been constructed.\<close>

definition queue_empty :: "'d ndp \<Rightarrow> bool" where
  "queue_empty s \<longleftrightarrow> n_fly_reqs s = 0 \<and> \<not> n_dma_actv s \<and> n_packets s = [] \<and> n_sent s = [] \<and> n_events s = 0 \<and> \<not> n_refused s"

lemma queue_empty_inv: "queue_empty s \<Longrightarrow> queue_inv 0 s"
  by (simp add: queue_empty_def queue_inv_def)

context ndp_subclass
begin

lemma queue_live:
  assumes "queue_empty s0" "(ndp_step G C)\<^sup>*\<^sup>* s0 s"
  shows "unat (n_fly_reqs s) = length (n_sent s) \<and> n_fly_reqs s \<le> n_max_reqs s \<and>
    (n_packets s \<noteq> [] \<and> n_max_reqs s \<noteq> 0 \<longrightarrow> 0 < n_events s \<or> n_refused s \<or> n_sent s \<noteq> []) \<and>
    (0 < n_events s \<longrightarrow> (\<exists>s'. sendData G (s\<lparr> n_events := n_events s - 1 \<rparr>) = Some s')) \<and>
    (n_refused s \<longrightarrow> (\<exists>s'. recvReqRetry G Dma_port s = Some s'))"
proof -
  have inv: "queue_inv 0 s" using reachable_queue [OF assms(2)] queue_empty_inv [OF assms(1)] by blast
  then show ?thesis
    using queue_progress [OF inv] queue_event_defined [OF inv] by (auto simp: queue_inv_def)
qed

end

text \<open>The block offset of \<open>Packet::getOffset\<close>: the low bits of the address.\<close>

definition low_bits :: "u64 \<Rightarrow> nat \<Rightarrow> nat" where
  "low_bits a n = unat (a AND (of_nat n - 1))"

lemma low_bits_aligned:
  assumes "16 dvd unat a" "0 < l" "l \<le> 16"
  shows "low_bits a l = 0"
proof -
  let ?w = "of_nat l - 1 :: u64"
  have w: "?w = of_nat (l - 1)" using assms(2) by (simp add: of_nat_diff)
  have "unat (take_bit 4 ?w) = unat ?w" unfolding w using assms(3) by (simp add: take_bit_eq_mod unat_mod_distrib unat_of_nat)
  then have "take_bit 4 ?w = ?w" by (simp only: word_unat_eq_iff)
  moreover have "unat (take_bit 4 a) = 0" using assms(1) by (simp add: take_bit_eq_mod unat_mod_distrib)
  then have "take_bit 4 a = 0" by (simp only: unat_eq_0)
  ultimately have "a AND ?w = 0" using take_bit_and [of 4 a ?w] by (metis and.left_commute and_zero_eq take_bit_eq_mask)
  then show ?thesis by (simp add: low_bits_def)
qed

text \<open>A memory system that accepts every packet.\<close>

definition example_gem5 :: gem5 where
  "example_gem5 = \<lparr> g_accepts = (\<lambda>_. True), g_block_offset = low_bits \<rparr>"

end
