(* ===== verification/Ndp_Search.thy ===== *)
theory Ndp_Search
  imports Ndp_Burst
begin

text \<open>
  The search device (\<open>sim/gem5/src/ndp_dev_a/ndp_dev_a.cc\<close>): a command fetches its operands with one burst
  and searches, counts or maximises over them. The loop counters of the C++ code are of type \<open>int\<close>; one
  that would pass \<open>2 ^ 31 - 1\<close> has no result. \<open>sd_finish\<close> is the number of cycles of the scheduled completion.
\<close>

section \<open>The device\<close>

record search_dev =
  scaleFactor :: u64
  pi_addr_data :: u64
  pi_data_size :: u64
  pi_data_skey :: u64
  pi_cmmd_code :: u64
  pi_stat_rgst :: u64
  pi_last_rslt :: u64
  has_operands :: bool
  operands :: nat
  sd_finish :: "u64 option"

definition new_search_dev :: search_dev where
  "new_search_dev = \<lparr> scaleFactor = 0, pi_addr_data = 0, pi_data_size = 0, pi_data_skey = 0, pi_cmmd_code = 0, pi_stat_rgst = 1,
     pi_last_rslt = 0, has_operands = False, operands = 0, sd_finish = None \<rparr>"

definition search_readPI :: "u64 \<Rightarrow> search_dev ndp \<Rightarrow> u64 option" where
  "search_readPI ridx s =
     (if ridx = 5 then Some (pi_stat_rgst (n_dev s)) else if ridx = 6 then Some (pi_last_rslt (n_dev s)) else None)"

definition operand :: "search_dev ndp \<Rightarrow> nat \<Rightarrow> u64 option" where
  "operand s i = do { bs \<leftarrow> heap_load s (operands (n_dev s), 8 * i) 8; Some (le_word bs) }"

abbreviation (input) int_counter :: "nat \<Rightarrow> 'a option \<Rightarrow> 'a option" where
  "int_counter i x \<equiv> (if i + 1 < 2 ^ 31 then x else None)"

primrec hit_loop :: "(nat \<Rightarrow> u64 option) \<Rightarrow> u64 \<Rightarrow> nat list \<Rightarrow> nat option option" where
  "hit_loop data skey [] = Some None"
| "hit_loop data skey (i # is) =
     do { v \<leftarrow> data i; if v = skey then Some (Some i) else int_counter i (hit_loop data skey is) }"

definition compare_n_hit :: "(nat \<Rightarrow> u64 option) \<Rightarrow> u64 \<Rightarrow> u64 \<Rightarrow> search_dev \<Rightarrow> (u64 \<times> search_dev) option" where
  "compare_n_hit data n skey d =
     do { r \<leftarrow> hit_loop data skey [0..<unat n];
          case r of Some i \<Rightarrow> Some (of_nat i, d\<lparr> pi_last_rslt := 1 \<rparr>) | None \<Rightarrow> Some (n, d) }"

primrec count_loop :: "(nat \<Rightarrow> u64 option) \<Rightarrow> u64 \<Rightarrow> nat list \<Rightarrow> u64 \<Rightarrow> u64 option" where
  "count_loop data skey [] n = Some n"
| "count_loop data skey (i # is) n =
     do { v \<leftarrow> data i; int_counter i (count_loop data skey is (if v = skey then n + 1 else n)) }"

definition compare_n_count :: "(nat \<Rightarrow> u64 option) \<Rightarrow> u64 \<Rightarrow> u64 \<Rightarrow> search_dev \<Rightarrow> (u64 \<times> search_dev) option" where
  "compare_n_count data n skey d =
     do { c \<leftarrow> count_loop data skey [0..<unat n] 0; Some (n, d\<lparr> pi_last_rslt := c \<rparr>) }"

primrec max_loop :: "(nat \<Rightarrow> u64 option) \<Rightarrow> nat list \<Rightarrow> u64 \<Rightarrow> u64 option" where
  "max_loop data [] m = Some m"
| "max_loop data (i # is) m = do { v \<leftarrow> data i; int_counter i (max_loop data is (if m < v then v else m)) }"

definition compare_n_max :: "(nat \<Rightarrow> u64 option) \<Rightarrow> u64 \<Rightarrow> search_dev \<Rightarrow> (u64 \<times> search_dev) option" where
  "compare_n_max data n d =
     do { m \<leftarrow> data 0; m \<leftarrow> max_loop data [1..<unat n] m; Some (n, d\<lparr> pi_last_rslt := m \<rparr>) }"

definition search_process_fsm :: "gem5 \<Rightarrow> search_dev ndp \<Rightarrow> search_dev ndp option" where
  "search_process_fsm G s =
     (let d = n_dev s in
      if \<not> has_operands d then
        if 2 ^ 64 \<le> 8 * unat (pi_data_size d) then None
        else let (b, s) = new_buffer (8 * unat (pi_data_size d)) s in
          accessMemory G (pi_addr_data d) (pi_data_size d * 8) False (b, 0) (s\<lparr> n_dev := d\<lparr> operands := b \<rparr> \<rparr>)
      else do {
        (cycles, d) \<leftarrow>
          (if pi_cmmd_code d = 0 then compare_n_hit (operand s) (pi_data_size d) (pi_data_skey d) d
           else if pi_cmmd_code d = 1 then compare_n_count (operand s) (pi_data_size d) (pi_data_skey d) d
           else if pi_cmmd_code d = 2 then compare_n_max (operand s) (pi_data_size d) d
           else None);
        Some (s\<lparr> n_dev := d\<lparr> sd_finish := Some (cycles * scaleFactor d) \<rparr> \<rparr>) })"

definition search_writePI :: "gem5 \<Rightarrow> u64 \<Rightarrow> u64 \<Rightarrow> search_dev ndp \<Rightarrow> search_dev ndp option" where
  "search_writePI G ridx v s =
     (let d = n_dev s in
      if pi_stat_rgst d = 0 then None
      else if ridx = 0 then Some (s\<lparr> n_dev := d\<lparr> pi_addr_data := v \<rparr> \<rparr>)
      else if ridx = 1 then Some (s\<lparr> n_dev := d\<lparr> pi_data_size := v \<rparr> \<rparr>)
      else if ridx = 2 then Some (s\<lparr> n_dev := d\<lparr> pi_data_skey := v \<rparr> \<rparr>)
      else if ridx = 3 then Some (s\<lparr> n_dev := d\<lparr> pi_cmmd_code := v \<rparr> \<rparr>)
      else if ridx = 4 then search_process_fsm G (s\<lparr> n_dev := d\<lparr> pi_stat_rgst := 0, scaleFactor := v \<rparr> \<rparr>)
      else None)"

definition search_recvData :: "gem5 \<Rightarrow> u64 \<Rightarrow> ptr option \<Rightarrow> u64 \<Rightarrow> search_dev ndp \<Rightarrow> search_dev ndp option" where
  "search_recvData G addr data n s = search_process_fsm G (s\<lparr> n_dev := (n_dev s)\<lparr> has_operands := True \<rparr> \<rparr>)"

definition search_class :: "gem5 \<Rightarrow> search_dev ndp_class" where
  "search_class G = \<lparr> c_readPI = search_readPI, c_writePI = search_writePI G, c_recvData = search_recvData G \<rparr>"

text \<open>
  The completion event. The source frees the operand array, made with \<open>new[]\<close>, with \<open>delete\<close>; the model takes
  it as freed, that is, not used again.
\<close>

definition search_finish :: "search_dev ndp \<Rightarrow> search_dev ndp" where
  "search_finish s = s\<lparr> n_dev := (n_dev s)\<lparr> pi_stat_rgst := 1, has_operands := False, sd_finish := None \<rparr> \<rparr>"

section \<open>The queue contract\<close>

lemma search_fsm_queue:
  assumes "queue_inv k s" "search_process_fsm G s = Some s'"
  shows "queue_inv k s'"
proof (cases "has_operands (n_dev s)")
  case True
  then show ?thesis using assms by (auto simp: search_process_fsm_def queue_inv_def Let_def split: bind_splits if_splits)
next
  case False
  let ?d = "n_dev s" and ?b = "length (n_heap s)"
  let ?s1 = "s\<lparr> n_heap := n_heap s @ [replicate (8 * unat (pi_data_size (n_dev s))) 0], n_dev := (n_dev s)\<lparr> operands := length (n_heap s) \<rparr> \<rparr>"
  have "accessMemory G (pi_addr_data ?d) (pi_data_size ?d * 8) False (?b, 0) ?s1 = Some s'"
    using assms(2) False by (simp add: search_process_fsm_def new_buffer_def Let_def split: if_splits)
  moreover have "queue_inv k ?s1" using assms(1) by (simp add: queue_inv_def)
  ultimately show ?thesis using accessMemory_queue by blast
qed

interpretation search: ndp_subclass "search_class G" for G
proof
  fix k s a d n s'
  assume "queue_inv k s" "c_recvData (search_class G) a d n s = Some s'"
  then show "queue_inv k s'"
    using search_fsm_queue [of k "s\<lparr> n_dev := (n_dev s)\<lparr> has_operands := True \<rparr> \<rparr>" G s']
    by (simp add: search_class_def search_recvData_def queue_inv_def)
next
  fix k s r v s'
  assume "queue_inv k s" "c_writePI (search_class G) r v s = Some s'"
  then show "queue_inv k s'"
    using search_fsm_queue [of k "s\<lparr> n_dev := (n_dev s)\<lparr> pi_stat_rgst := 0, scaleFactor := v \<rparr> \<rparr>" G s']
    by (auto simp: search_class_def search_writePI_def queue_inv_def Let_def split: if_splits)
qed

text \<open>When the start of a command is defined.\<close>

lemma search_start_defined:
  assumes "queue_inv k s" "pi_stat_rgst (n_dev s) \<noteq> 0" "\<not> has_operands (n_dev s)" "n_max_rsze s \<noteq> 0"
    and w: "unat (pi_addr_data (n_dev s)) + 8 * unat (pi_data_size (n_dev s)) + unat (n_max_rsze s) < 2 ^ 64"
  shows "search_writePI G 4 scale s = None \<longleftrightarrow>
    pi_data_size (n_dev s) = 0 \<and> n_packets s = [] \<and> n_fly_reqs s \<noteq> n_max_reqs s"
proof (cases "pi_data_size (n_dev s) = 0")
  case True
  then show ?thesis
    using assms(1-3)
    by (auto simp: search_writePI_def search_process_fsm_def new_buffer_def accessMemory_def split_burst.simps sendData_def
        queue_inv_def Let_def split: list.splits if_splits)
next
  case False
  let ?d = "n_dev s"
  let ?s1 = "s\<lparr> n_heap := n_heap s @ [replicate (8 * unat (pi_data_size ?d)) 0],
    n_dev := ?d\<lparr> pi_stat_rgst := 0, scaleFactor := scale, operands := length (n_heap s) \<rparr> \<rparr>"
  have un: "unat (pi_data_size ?d * 8) = 8 * unat (pi_data_size ?d)" using w by (simp add: unat_word_ariths mult.commute)
  have lt: "8 * unat (pi_data_size ?d) < 2 ^ 64" using w by linarith
  have sz: "0 < unat (pi_data_size ?d)" "0 < unat (n_max_rsze ?s1)" using False assms(4) by (simp_all add: unat_gt_0)
  have "\<exists>s'. accessMemory G (pi_addr_data ?d) (pi_data_size ?d * 8) False (length (n_heap s), 0) ?s1 = Some s'"
    using accessMemory_burst [of _ ?s1 "pi_addr_data ?d" "pi_data_size ?d * 8" False "(length (n_heap s), 0)" G,
        OF refl sz(2)] w sz(1) un by auto
  then show ?thesis
    using False assms(2,3) lt by (auto simp: search_writePI_def search_process_fsm_def new_buffer_def Let_def)
qed

section \<open>The searches\<close>

lemma hit_loop_find:
  assumes "\<And>i. i \<in> set is \<Longrightarrow> data i = Some (W i) \<and> i + 1 < 2 ^ 31"
  shows "hit_loop data skey is = Some (find (\<lambda>i. W i = skey) is)"
  using assms by (induction "is") auto

lemma count_loop_count:
  assumes "\<And>i. i \<in> set is \<Longrightarrow> data i = Some (W i) \<and> i + 1 < 2 ^ 31"
  shows "count_loop data skey is n = Some (n + of_nat (count_list (map W is) skey))"
  using assms by (induction "is" arbitrary: n) (auto simp: add.assoc)

lemma max_loop_Max:
  assumes "\<And>i. i \<in> set is \<Longrightarrow> data i = Some (W i) \<and> i + 1 < 2 ^ 31"
  shows "max_loop data is m = Some (Max (insert m (W ` set is)))"
  using assms
proof (induction "is" arbitrary: m)
  case (Cons i "is")
  have "max_loop data (i # is) m = Some (Max (insert (if m < W i then W i else m) (W ` set is)))"
    using Cons.IH Cons.prems by simp
  also have "(if m < W i then W i else m) = max m (W i)" by (auto simp: max_def)
  also have "Max (insert (max m (W i)) (W ` set is)) = Max (insert m (W ` set (i # is)))"
    by (cases "set is = {}") (simp_all add: Max_insert max.assoc)
  finally show ?case .
qed simp

definition search_answer :: "u64 \<Rightarrow> u64 \<Rightarrow> u64 list \<Rightarrow> u64 \<Rightarrow> u64" where
  "search_answer code skey ws old =
     (if code = 0 then if skey \<in> set ws then 1 else old
      else if code = 1 then of_nat (count_list ws skey) else Max (set ws))"

text \<open>The operands of a device whose buffer holds the bytes \<open>M\<close>.\<close>

definition mem_words :: "(nat \<Rightarrow> u8) \<Rightarrow> nat \<Rightarrow> u64 list" where
  "mem_words M n = map (\<lambda>i. le_word (map M [8 * i..<8 * i + 8])) [0..<n]"

lemma operand_word:
  assumes "n_heap s ! operands (n_dev s) = map M [0..<8 * n]" "operands (n_dev s) < length (n_heap s)" "i < n"
  shows "operand s i = Some (mem_words M n ! i)"
proof -
  have "take 8 (drop (8 * i) (map M [0..<8 * n])) = map M [8 * i..<8 * i + 8]"
    using assms(3) by (simp add: drop_map take_map drop_upt take_upt)
  then show ?thesis using assms by (simp add: operand_def heap_load_def load_bytes_def mem_words_def)
qed

lemma search_computes:
  assumes d: "has_operands (n_dev s)" "pi_cmmd_code (n_dev s) \<le> 2" "n = unat (pi_data_size (n_dev s))" "0 < n" "n < 2 ^ 31"
    and heap: "n_heap s ! operands (n_dev s) = map M [0..<8 * n]" "operands (n_dev s) < length (n_heap s)"
  shows "\<exists>c. search_process_fsm G s = Some (s\<lparr> n_dev := (n_dev s)\<lparr> pi_last_rslt :=
      search_answer (pi_cmmd_code (n_dev s)) (pi_data_skey (n_dev s)) (mem_words M n) (pi_last_rslt (n_dev s)), sd_finish := Some c \<rparr> \<rparr>)"
proof -
  let ?ws = "mem_words M n" and ?d = "n_dev s"
  have len: "length ?ws = n" by (simp add: mem_words_def)
  have op: "operand s i = Some (?ws ! i) \<and> i + 1 < 2 ^ 31" if "i \<in> set [0..<n]" for i
    using operand_word [OF heap] that d(5) by simp
  have ws: "map (\<lambda>i. ?ws ! i) [0..<n] = ?ws" using len map_nth [of ?ws] by simp
  note nn = d(3) [symmetric]
  have hits: "hit_loop (operand s) key [0..<n] = Some (find (\<lambda>i. ?ws ! i = key) [0..<n])" for key by (rule hit_loop_find) (rule op)
  have counts: "count_loop (operand s) key [0..<n] 0 = Some (of_nat (count_list ?ws key))" for key
    using count_loop_count [of "[0..<n]" "operand s" "\<lambda>i. ?ws ! i" key 0] op ws by simp
  consider "pi_cmmd_code ?d = 0" | "pi_cmmd_code ?d = 1" | "pi_cmmd_code ?d = 2"
  proof -
    have "unat (pi_cmmd_code ?d) \<le> 2" using d(2) by (simp add: word_le_nat_alt)
    then have "unat (pi_cmmd_code ?d) = 0 \<or> unat (pi_cmmd_code ?d) = 1 \<or> unat (pi_cmmd_code ?d) = 2" by linarith
    then show ?thesis using that by (auto simp: word_unat_eq_iff)
  qed
  then show ?thesis
  proof cases
    case 1
    have "find (\<lambda>i. ?ws ! i = pi_data_skey ?d) [0..<n] = None \<longleftrightarrow> pi_data_skey ?d \<notin> set ?ws"
      using len by (auto simp: find_None_iff in_set_conv_nth)
    then show ?thesis
      by (cases "find (\<lambda>i. ?ws ! i = pi_data_skey ?d) [0..<n]")
        (auto simp: 1 d(1) nn hits search_process_fsm_def compare_n_hit_def search_answer_def Let_def)
  next
    case 2
    then show ?thesis by (auto simp: d(1) nn counts search_process_fsm_def compare_n_count_def search_answer_def Let_def)
  next
    case 3
    have op': "operand s i = Some (?ws ! i) \<and> i + 1 < 2 ^ 31" if "i \<in> set [1..<n]" for i using op [of i] that by simp
    have "insert (?ws ! 0) ((!) ?ws ` set [1..<n]) = (!) ?ws ` set [0..<n]" using d(4) by (auto simp: upt_conv_Cons image_iff)
    also have "... = set ?ws" using arg_cong [OF ws, of set] by simp
    finally have "Max (insert (?ws ! 0) ((!) ?ws ` set [1..<n])) = Max (set ?ws)" by simp
    moreover have "max_loop (operand s) [1..<n] m = Some (Max (insert m ((!) ?ws ` set [1..<n])))" for m
      by (rule max_loop_Max) (rule op')
    moreover have "operand s 0 = Some (?ws ! 0)" using op [of 0] d(4) by simp
    ultimately show ?thesis by (auto simp: 3 d(1) nn search_process_fsm_def compare_n_max_def search_answer_def Let_def)
  qed
qed

text \<open>A start command of an idle device: one burst for the operands.\<close>

lemma search_start:
  assumes idle: "pi_stat_rgst (n_dev s) \<noteq> 0" "\<not> has_operands (n_dev s)" "n_bursts s = []"
    and n: "n = unat (pi_data_size (n_dev s))" "0 < n" and addr: "addr = pi_addr_data (n_dev s)"
    and R: "R = unat (n_max_rsze s)" "0 < R" and wrap: "unat addr + 8 * n + R < 2 ^ 64"
  shows "\<exists>s0 b. search_writePI G 4 scale s = Some s0 \<and> \<not> br_write b \<and> br_start b = addr \<and> br_data b = (length (n_heap s), 0) \<and>
    n_bursts s0 = [b\<lparr> br_subs := map (chunk_sub addr (length (n_heap s), 0) R (8 * n)) [0..<chunks R (8 * n)] \<rparr>] \<and>
    length (n_heap s) < length (n_heap s0) \<and> length (n_heap s0 ! length (n_heap s)) = 8 * n \<and> n_max_rsze s0 = n_max_rsze s \<and>
    n_dev s0 = (n_dev s)\<lparr> pi_stat_rgst := 0, scaleFactor := scale, operands := length (n_heap s) \<rparr>"
proof -
  let ?d = "n_dev s" and ?h = "length (n_heap s)"
  let ?s1 = "s\<lparr> n_heap := n_heap s @ [replicate (8 * n) 0], n_dev := (n_dev s)\<lparr> pi_stat_rgst := 0, scaleFactor := scale, operands := length (n_heap s) \<rparr> \<rparr>"
  have sz: "unat (pi_data_size ?d * 8) = 8 * n" using n wrap by (subst unat_mult_nowrap) simp_all
  have R1: "R = unat (n_max_rsze ?s1)" using R(1) by simp
  have w1: "unat addr + unat (pi_data_size ?d * 8) + R < 2 ^ 64" "0 < unat (pi_data_size ?d * 8)" using wrap n(2) sz by simp_all
  have lim: "\<not> 2 ^ 64 \<le> 8 * unat (pi_data_size ?d)" using wrap n(1) by simp
  have run: "search_writePI G 4 scale s = accessMemory G addr (pi_data_size ?d * 8) False (?h, 0) ?s1"
    using idle(1,2) lim addr n(1) by (simp add: search_writePI_def search_process_fsm_def new_buffer_def Let_def)
  let ?b = "\<lparr> br_start = addr, br_end = addr + pi_data_size ?d * 8, br_data = (?h, 0 :: nat), br_write = False, br_subs = [] \<rparr>"
  show ?thesis unfolding run
    using accessMemory_burst [OF R1 R(2) w1, of False "(?h, 0)" G] idle(3) unfolding sz by (auto intro!: exI [of _ ?b])
qed

section \<open>Commands\<close>

text \<open>A command from its start to its result.\<close>

lemma search_command:
  assumes "pi_stat_rgst (n_dev s) \<noteq> 0" "\<not> has_operands (n_dev s)" "n_bursts s = []" "pi_cmmd_code (n_dev s) \<le> 2"
    and "n = unat (pi_data_size (n_dev s))" "0 < n" "n < 2 ^ 31" "addr = pi_addr_data (n_dev s)"
    and "R = unat (n_max_rsze s)" "0 < R" "R dvd unat addr" "unat addr + 8 * n + R < 2 ^ 64"
    and "\<forall>a l. R dvd unat a \<longrightarrow> 0 < l \<longrightarrow> l \<le> R \<longrightarrow> g_block_offset G a l = 0"
    and "distinct (js @ [i])" "set (js @ [i]) = {..<chunks R (8 * n)}"
  shows "\<exists>s0 s1 s2. search_writePI G 4 scale s = Some s0 \<and>
    loop (\<lambda>i. memCallback G (search_class G) (chunk_packet M addr R (8 * n) i)) js s0 = Some s1 \<and> n_dev s1 = n_dev s0 \<and>
    memCallback G (search_class G) (chunk_packet M addr R (8 * n) i) s1 = Some s2 \<and> n_bursts s2 = [] \<and>
    search_readPI 5 s2 = Some 0 \<and> sd_finish (n_dev s2) \<noteq> None \<and> search_readPI 5 (search_finish s2) = Some 1 \<and>
    search_readPI 6 (search_finish s2) =
      Some (search_answer (pi_cmmd_code (n_dev s)) (pi_data_skey (n_dev s)) (mem_words M n) (pi_last_rslt (n_dev s)))"
proof -
  let ?C = "search_class G" and ?N = "8 * n" and ?h = "length (n_heap s)"
  have ok: "burst_ok G addr R ?N" using assms(10-13) by (intro aligned_burst_ok)
  obtain s0 b where s0: "search_writePI G 4 scale s = Some s0" "\<not> br_write b" "br_start b = addr" "br_data b = (?h, 0)"
    "n_bursts s0 = [b\<lparr> br_subs := map (chunk_sub addr (?h, 0) R ?N) [0..<chunks R ?N] \<rparr>]" "?h < length (n_heap s0)"
    "length (n_heap s0 ! ?h) = ?N" "n_dev s0 = (n_dev s)\<lparr> pi_stat_rgst := 0, scaleFactor := scale, operands := ?h \<rparr>"
    using search_start [OF assms(1-3,5,6,8-10,12), of G scale] by blast
  obtain s1 s2 where s1: "loop (\<lambda>i. memCallback G ?C (chunk_packet M addr R ?N i)) js s0 = Some s1" "n_dev s1 = n_dev s0"
    and s2: "length (n_bursts s2) = 1" "n_heap s2 ! ?h = map M [0..<?N]" "same_heap ?h s0 s2" "n_dev s2 = n_dev s0"
    "memCallback G ?C (chunk_packet M addr R ?N i) s1 =
      do { s3 \<leftarrow> c_recvData ?C addr (Some (?h, 0)) (br_end b - addr) s2; answered G (s3\<lparr> n_bursts := drop 1 (n_bursts s3) \<rparr>) }"
    using burst_assembled [OF ok s0(2-4) refl s0(5-7) assms(14,15), of ?C M] by blast
  let ?s2 = "s2\<lparr> n_dev := (n_dev s2)\<lparr> has_operands := True \<rparr> \<rparr>"
  obtain c where c: "search_process_fsm G ?s2 = Some (?s2\<lparr> n_dev := (n_dev ?s2)\<lparr> pi_last_rslt := search_answer (pi_cmmd_code (n_dev s))
      (pi_data_skey (n_dev s)) (mem_words M n) (pi_last_rslt (n_dev s)), sd_finish := Some c \<rparr> \<rparr>)"
    using search_computes [of ?s2 n M G] s2(2-4) s0(6,8) assms(4-7) by (auto simp: same_heap_def)
  let ?s3 = "?s2\<lparr> n_dev := (n_dev ?s2)\<lparr> pi_last_rslt := search_answer (pi_cmmd_code (n_dev s))
      (pi_data_skey (n_dev s)) (mem_words M n) (pi_last_rslt (n_dev s)), sd_finish := Some c \<rparr>, n_bursts := drop 1 (n_bursts s2) \<rparr>"
  obtain s4 where s4: "answered G ?s3 = Some s4" "n_bursts s4 = n_bursts ?s3" "n_dev s4 = n_dev ?s3"
    using answered_keeps [of G ?s3] by blast
  have "memCallback G ?C (chunk_packet M addr R ?N i) s1 = Some s4"
    unfolding s2(5) using c s4(1) by (simp add: search_class_def search_recvData_def)
  then show ?thesis using s0(1,8) s1 s2(1,4) s4(2,3) by (simp add: search_readPI_def search_finish_def)
qed

text \<open>An idle device that is to count the key 7 in the three words at \<open>0x1000\<close>, in requests of 16 bytes.\<close>

definition example_search :: "u64 \<Rightarrow> u64 \<Rightarrow> u64 \<Rightarrow> search_dev ndp" where
  "example_search a n R = \<lparr> n_ctrl = (0x40000000, 0x40001000), n_data = (0, 0), n_mmio_only = True, n_max_rsze = R, n_max_reqs = 2,
     n_fly_reqs = 0, n_dma_actv = False, n_bursts = [], n_packets = [], n_sent = [], n_attempts = 0, n_events = 0, n_refused = False,
     n_heap = [], n_dev = new_search_dev\<lparr> pi_addr_data := a, pi_data_size := n, pi_data_skey := 7, pi_cmmd_code := 1 \<rparr> \<rparr>"

lemmas example_search_simps = example_search_def new_search_dev_def example_gem5_def

section \<open>Properties\<close>

text \<open>
  C4: A command of the search device. On an idle device a write to the start register fetches the operands
  in requests of at most the configured size, and whatever the order in which memory answers them, the
  last answer makes the device compute: once the scheduled completion has run, the status register reads
  1 and the result register is 1 if the key occurs among the words (and keeps its old value otherwise), the
  number of its occurrences, or the maximum, by the command code. The operands are those of memory, for
  every length below \<open>2 ^ 31\<close> words and every address aligned to the request size. The hypothesis on
  \<open>g_block_offset\<close> is that of gem5: a packet aligned to a block that is no smaller has its data at the
  start of the block.
\<close>

theorem search_command_correct:
  assumes "pi_stat_rgst (n_dev s) \<noteq> 0" "\<not> has_operands (n_dev s)" "n_bursts s = []" "pi_cmmd_code (n_dev s) \<le> 2"
    and "n = unat (pi_data_size (n_dev s))" "0 < n" "n < 2 ^ 31" "addr = pi_addr_data (n_dev s)"
    and "R = unat (n_max_rsze s)" "0 < R" "R dvd unat addr" "unat addr + 8 * n + R < 2 ^ 64"
    and "\<forall>a l. R dvd unat a \<longrightarrow> 0 < l \<longrightarrow> l \<le> R \<longrightarrow> g_block_offset G a l = 0"
    and "distinct (js @ [i])" "set (js @ [i]) = {..<chunks R (8 * n)}"
  shows "\<exists>s0 s1 s2. search_writePI G 4 scale s = Some s0 \<and>
    loop (\<lambda>i. memCallback G (search_class G) (chunk_packet M addr R (8 * n) i)) js s0 = Some s1 \<and> n_dev s1 = n_dev s0 \<and>
    memCallback G (search_class G) (chunk_packet M addr R (8 * n) i) s1 = Some s2 \<and> n_bursts s2 = [] \<and>
    search_readPI 5 s2 = Some 0 \<and> sd_finish (n_dev s2) \<noteq> None \<and> search_readPI 5 (search_finish s2) = Some 1 \<and>
    search_readPI 6 (search_finish s2) =
      Some (search_answer (pi_cmmd_code (n_dev s)) (pi_data_skey (n_dev s)) (mem_words M n) (pi_last_rslt (n_dev s)))"
  using assms by (rule search_command)

theorem search_command_correct_witness:
  "\<exists>s0 s1 s2. search_writePI example_gem5 4 1 (example_search 0x1000 3 16) = Some s0 \<and>
    loop (\<lambda>i. memCallback example_gem5 (search_class example_gem5) (chunk_packet (\<lambda>k. of_nat (k mod 8)) 0x1000 16 (8 * 3) i)) [1] s0 = Some s1 \<and>
    n_dev s1 = n_dev s0 \<and>
    memCallback example_gem5 (search_class example_gem5) (chunk_packet (\<lambda>k. of_nat (k mod 8)) 0x1000 16 (8 * 3) 0) s1 = Some s2 \<and>
    n_bursts s2 = [] \<and> search_readPI 5 s2 = Some 0 \<and> sd_finish (n_dev s2) \<noteq> None \<and> search_readPI 5 (search_finish s2) = Some 1 \<and>
    search_readPI 6 (search_finish s2) = Some (search_answer 1 7 (mem_words (\<lambda>k. of_nat (k mod 8)) 3) 0)"
proof -
  let ?s = "example_search 0x1000 3 16"
  have s: "n_dev ?s = new_search_dev\<lparr> pi_addr_data := 0x1000, pi_data_size := 3, pi_data_skey := 7, pi_cmmd_code := 1 \<rparr>"
    "n_bursts ?s = []" "n_max_rsze ?s = 16" by (simp_all add: example_search_def)
  have js: "distinct ([1] @ [0 :: nat])" "set ([1] @ [0]) = {..<chunks 16 (8 * 3)}"
    by (simp_all add: chunks_def lessThan_Suc insert_commute numeral_2_eq_2)
  have off: "\<forall>a l. 16 dvd unat a \<longrightarrow> 0 < l \<longrightarrow> l \<le> 16 \<longrightarrow> g_block_offset example_gem5 a l = 0"
    using low_bits_aligned by (simp add: example_gem5_def)
  have d: "pi_stat_rgst (n_dev ?s) \<noteq> 0" "\<not> has_operands (n_dev ?s)" "pi_cmmd_code (n_dev ?s) = 1" "pi_data_size (n_dev ?s) = 3"
    "pi_addr_data (n_dev ?s) = 0x1000" "pi_data_skey (n_dev ?s) = 7" "pi_last_rslt (n_dev ?s) = 0"
    by (simp_all add: s(1) new_search_dev_def)
  have u: "3 = unat (3 :: u64)" "16 = unat (16 :: u64)" "16 dvd unat (0x1000 :: u64)" "(1 :: u64) \<le> 2" by simp_all
  have w: "unat (0x1000 :: u64) + 8 * 3 + 16 < 2 ^ 64" by simp
  show ?thesis
    using search_command_correct [of ?s 3 "0x1000" 16 example_gem5 "[1]" 0 1 "\<lambda>k. of_nat (k mod 8)", unfolded s(2,3) d(3-7),
      OF d(1,2) refl u(4,1) _ _ refl u(2) _ u(3) w off js] by simp
qed

text \<open>
  C36: The request queue of the search device. From its construction on, under any interleaving of register
  accesses, scheduled events, retries and responses in any order, the count of requests in flight is the
  number of requests memory has accepted and not answered, and never passes the configured limit; packets
  that wait always have an event, a retry or a response to come; and neither a scheduled event nor a retry
  ever finds the list of packets empty. What can find it empty is the start of a command: when the device
  is ready and the operands do not wrap around the address space, the start takes the front of an empty
  list, which is undefined, exactly for a command of no words while nothing waits and the limit is not
  reached.
\<close>

theorem search_queue_live:
  assumes "queue_empty s0" "(ndp_step G (search_class G))\<^sup>*\<^sup>* s0 s"
  shows "unat (n_fly_reqs s) = length (n_sent s) \<and> n_fly_reqs s \<le> n_max_reqs s \<and>
    (n_packets s \<noteq> [] \<and> n_max_reqs s \<noteq> 0 \<longrightarrow> 0 < n_events s \<or> n_refused s \<or> n_sent s \<noteq> []) \<and>
    (0 < n_events s \<longrightarrow> (\<exists>s'. sendData G (s\<lparr> n_events := n_events s - 1 \<rparr>) = Some s')) \<and>
    (n_refused s \<longrightarrow> (\<exists>s'. recvReqRetry G Dma_port s = Some s')) \<and>
    (\<forall>scale. pi_stat_rgst (n_dev s) \<noteq> 0 \<and> \<not> has_operands (n_dev s) \<and> n_max_rsze s \<noteq> 0 \<and>
       unat (pi_addr_data (n_dev s)) + 8 * unat (pi_data_size (n_dev s)) + unat (n_max_rsze s) < 2 ^ 64 \<longrightarrow>
       (search_writePI G 4 scale s = None \<longleftrightarrow>
         pi_data_size (n_dev s) = 0 \<and> n_packets s = [] \<and> n_fly_reqs s \<noteq> n_max_reqs s))"
proof -
  have "queue_inv 0 s" by (rule search.reachable_queue [OF assms(2) queue_empty_inv [OF assms(1)]])
  then show ?thesis using search.queue_live [OF assms] search_start_defined by blast
qed

theorem search_queue_live_witness:
  "queue_empty (example_search 0x1000 3 16) \<and> (\<exists>s. search_writePI example_gem5 4 1 (example_search 0x1000 3 16) = Some s \<and>
    0 < n_events s \<and> unat (n_fly_reqs s) = 1 \<and> n_fly_reqs s \<le> n_max_reqs s)"
proof -
  have e: "queue_empty (example_search 0x1000 3 16)" by (simp add: queue_empty_def example_search_simps)
  obtain s where s: "search_writePI example_gem5 4 1 (example_search 0x1000 3 16) = Some s" "n_events s = 1" "length (n_sent s) = 1"
    by (simp add: search_writePI_def search_process_fsm_def new_buffer_def accessMemory_def split_burst.simps sendData_def
      example_search_simps Let_def)
  have "recvTimingReq (search_class example_gem5) (Cpu_write 0x40000020 1) (example_search 0x1000 3 16) = Some (Handled Write_response, s)"
    using s(1) by (simp add: recvTimingReq_def in_range_def search_class_def example_search_simps)
  then have "(ndp_step example_gem5 (search_class example_gem5))\<^sup>*\<^sup>* (example_search 0x1000 3 16) s"
    by (intro r_into_rtranclp ndp_step.cpu)
  from search_queue_live [OF e this] show ?thesis using e s by simp
qed

text \<open>
  A start command for no words. The device has no packet to send and takes the front of an empty list:
  the access has no defined result.
\<close>

theorem search_zero_size_undefined:
  assumes "pi_stat_rgst (n_dev s) \<noteq> 0" "\<not> has_operands (n_dev s)" "pi_data_size (n_dev s) = 0" "queue_empty s" "n_max_reqs s \<noteq> 0"
  shows "search_writePI G 4 scale s = None"
  using assms
  by (simp add: queue_empty_def search_writePI_def search_process_fsm_def new_buffer_def accessMemory_def split_burst.simps sendData_def
      Let_def)

theorem search_zero_size_undefined_witness:
  "queue_empty (example_search 0x1000 0 16) \<and> search_writePI example_gem5 4 1 (example_search 0x1000 0 16) = None"
  using search_zero_size_undefined [of "example_search 0x1000 0 16" example_gem5 1]
  by (simp add: queue_empty_def example_search_simps)

text \<open>
  An operand address that is not aligned to the request size. \<open>writeDataToBlock\<close> puts the data at the
  offset of the address in its block, so that the response of a full request is written past the end of the
  operand buffer.
\<close>

theorem search_unaligned_overflow:
  assumes "pi_stat_rgst (n_dev s) \<noteq> 0" "\<not> has_operands (n_dev s)" "n_bursts s = []"
    and "n = unat (pi_data_size (n_dev s))" "0 < n" "unat (n_max_rsze s) = 8 * n" "addr = pi_addr_data (n_dev s)"
    and "unat addr + 16 * n < 2 ^ 64" "g_block_offset G addr (8 * n) \<noteq> 0"
  shows "\<exists>s0. search_writePI G 4 scale s = Some s0 \<and>
    memCallback G (search_class G) (chunk_packet M addr (8 * n) (8 * n) 0) s0 = None"
proof -
  let ?N = "8 * n" and ?h = "length (n_heap s)"
  have R: "?N = unat (n_max_rsze s)" "0 < ?N" "unat addr + ?N + ?N < 2 ^ 64" using assms(5,6,8) by simp_all
  obtain s0 b where s0: "search_writePI G 4 scale s = Some s0" "\<not> br_write b"
    "n_bursts s0 = [b\<lparr> br_subs := map (chunk_sub addr (?h, 0) ?N ?N) [0..<chunks ?N ?N] \<rparr>]" "length (n_heap s0 ! ?h) = ?N"
    using search_start [OF assms(1-5,7) R, of G scale] by blast
  have "chunks ?N ?N = 1" unfolding chunks_def using assms(5) by (intro div_nat_eqI) auto
  then have b: "n_bursts s0 = [b\<lparr> br_subs := [chunk_sub addr (?h, 0) ?N ?N 0] \<rparr>]" using s0(3) by simp
  have len: "chunk_len ?N ?N 0 = ?N" by (simp add: chunk_len_def)
  have "unat (of_nat ?N :: u64) = ?N" using R(3) by (simp add: unat_of_nat del: of_nat_mult)
  then have "memCallback G (search_class G) (chunk_packet M addr ?N ?N 0) s0 = None"
    using assms(9) s0(2,4) b len
    by (simp add: memCallback_def chunk_packet_def chunk_sub_def heap_store_def store_bytes_def del: of_nat_mult)
  then show ?thesis using s0(1) by blast
qed

theorem search_unaligned_overflow_witness:
  "\<exists>s0. search_writePI example_gem5 4 1 (example_search 0x1008 2 16) = Some s0 \<and>
    memCallback example_gem5 (search_class example_gem5) (chunk_packet (\<lambda>k. of_nat k) 0x1008 (8 * 2) (8 * 2) 0) s0 = None"
proof -
  let ?s = "example_search 0x1008 2 16"
  have d: "pi_stat_rgst (n_dev ?s) \<noteq> 0" "\<not> has_operands (n_dev ?s)" "n_bursts ?s = []" "2 = unat (pi_data_size (n_dev ?s))"
    "unat (n_max_rsze ?s) = 8 * 2" "0x1008 = pi_addr_data (n_dev ?s)"
    by (simp_all add: example_search_simps)
  have w: "unat (0x1008 :: u64) + 16 * 2 < 2 ^ 64" by simp
  have off: "g_block_offset example_gem5 0x1008 (8 * 2) \<noteq> 0" by (simp add: example_gem5_def low_bits_def)
  show ?thesis by (rule search_unaligned_overflow [OF d(1-4) _ d(5,6) w off]) simp
qed

end
