(* ===== verification/Gemmini_Kernels.thy ===== *)
theory Gemmini_Kernels
  imports Hybrid_Float_Kernels
begin

text \<open>
  The kernels of the Gemmini device (\<open>sim/gem5/src/gemmini_dev_a/gemmini_dev_a.cc\<close>). An array of \<open>float\<close> is
  the list of its 32-bit patterns, and an access outside it is \<open>None\<close>; float addition, multiplication and
  comparison are those of the parameter \<open>F\<close>. Sizes are \<open>unsigned int\<close> and loop counters \<open>int\<close>: a product or
  sum of the two is unsigned and wraps around, a counter that would pass \<open>2 ^ 31 - 1\<close> has no result. Division
  by zero and a failed \<open>assert\<close> are \<open>None\<close> as well.

  The second half gives the value of every kernel in terms of natural numbers.
\<close>

section \<open>Arrays and counters\<close>

type_synonym floats = "u32 list"

definition fetch :: "floats \<Rightarrow> u32 \<Rightarrow> u32 option" where
  "fetch a i = (if unat i < length a then Some (a ! unat i) else None)"

definition put :: "u32 \<Rightarrow> u32 \<Rightarrow> floats \<Rightarrow> floats option" where
  "put i v a = (if unat i < length a then Some (a[unat i := v]) else None)"

text \<open>An index of type \<open>int\<close>.\<close>

definition fetch_int :: "floats \<Rightarrow> u32 \<Rightarrow> u32 option" where
  "fetch_int a i = (if 0 \<le> sint i then fetch a i else None)"

text \<open>\<open>for (int i = 0; i < n; i++)\<close> with an unsigned \<open>n\<close>.\<close>

definition int_loop :: "u32 \<Rightarrow> (nat \<Rightarrow> 's \<Rightarrow> 's option) \<Rightarrow> 's \<Rightarrow> 's option" where
  "int_loop n f s = loop (\<lambda>i s. do { s \<leftarrow> f i s; if i + 1 < 2 ^ 31 then Some s else None }) [0..<unat n] s"

text \<open>\<open>o[i] += x\<close>\<close>

definition accumulate :: "float_ops \<Rightarrow> u32 \<Rightarrow> u32 option \<Rightarrow> floats \<Rightarrow> floats option" where
  "accumulate F i x a = do { v \<leftarrow> fetch a i; x \<leftarrow> x; put i (f_add F v x) a }"

definition product :: "float_ops \<Rightarrow> u32 option \<Rightarrow> u32 option \<Rightarrow> u32 option" where
  "product F x y = do { x \<leftarrow> x; y \<leftarrow> y; Some (f_mul F x y) }"

section \<open>The kernels\<close>

text \<open>\<open>int m_i = i + w - k_size / 2\<close>\<close>

definition tap :: "nat \<Rightarrow> nat \<Rightarrow> u32 \<Rightarrow> u32 option" where
  "tap i w ks = (if i + w < 2 ^ 31 then Some (of_nat (i + w) - ks div 2) else None)"

definition outside :: "u32 \<Rightarrow> u32 \<Rightarrow> bool" where
  "outside mi ms \<longleftrightarrow> sint mi < 0 \<or> ms \<le> mi"

definition baseConv_2D :: "float_ops \<Rightarrow> floats \<Rightarrow> floats \<Rightarrow> floats \<Rightarrow> u32 \<Rightarrow> u32 \<Rightarrow> floats option" where
  "baseConv_2D F m k out ms ks =
     int_loop ms (\<lambda>i. int_loop ms (\<lambda>j out. do {
       let at = of_nat i * ms + of_nat j;
       out \<leftarrow> put at F_0 out;
       int_loop ks (\<lambda>w. int_loop ks (\<lambda>x. accumulate F at (do {
         mi \<leftarrow> tap i w ks;
         mj \<leftarrow> tap j x ks;
         let idx = (if outside mi ms \<or> outside mj ms then -1 else mi * ms + mj);
         if idx = -1 then Some F_0 else product F (fetch_int m idx) (fetch k (of_nat w * ks + of_nat x)) }))) out })) out"

definition baseConv_3D :: "float_ops \<Rightarrow> floats \<Rightarrow> floats \<Rightarrow> floats \<Rightarrow> u32 \<Rightarrow> u32 \<Rightarrow> floats option" where
  "baseConv_3D F m k out ms ks =
     int_loop ms (\<lambda>i. int_loop ms (\<lambda>j. int_loop ms (\<lambda>w out. do {
       let at = of_nat i * ms * ms + of_nat j * ms + of_nat w;
       out \<leftarrow> put at F_0 out;
       int_loop ks (\<lambda>x. int_loop ks (\<lambda>y. int_loop ks (\<lambda>z. accumulate F at (do {
         mi \<leftarrow> tap i x ks;
         mj \<leftarrow> tap j y ks;
         mw \<leftarrow> tap w z ks;
         let idx = (if outside mi ms \<or> outside mj ms \<or> outside mw ms then -1 else mi * ms * ms + mj * ms + mw);
         if idx = -1 then Some F_0
         else product F (fetch_int m idx) (fetch k (of_nat x * ks * ks + of_nat y * ks + of_nat z)) })))) out }))) out"

definition baseConvGemm :: "float_ops \<Rightarrow> floats \<Rightarrow> floats \<Rightarrow> floats \<Rightarrow> u32 \<Rightarrow> u32 \<Rightarrow> floats option" where
  "baseConvGemm F a k out os ks =
     int_loop os (\<lambda>i out. do {
       out \<leftarrow> put (of_nat i) F_0 out;
       int_loop ks (\<lambda>j. accumulate F (of_nat i) (product F (fetch a (of_nat i * ks + of_nat j)) (fetch k (of_nat j)))) out }) out"

definition baseMaxPool :: "float_ops \<Rightarrow> floats \<Rightarrow> floats \<Rightarrow> u32 \<Rightarrow> u32 \<Rightarrow> floats option" where
  "baseMaxPool F m out ms ks =
     (if ks = 0 \<or> ms mod ks \<noteq> 0 then None
      else int_loop (ms div ks) (\<lambda>i. int_loop (ms div ks) (\<lambda>j out. do {
        let at = of_nat i * ms div ks + of_nat j;
        v \<leftarrow> fetch m (of_nat i * ks * ms + of_nat j * ks);
        out \<leftarrow> put at v out;
        int_loop ks (\<lambda>w. int_loop ks (\<lambda>x out. do {
          let idx = (of_nat i * ks + of_nat w) * ms + of_nat j * ks + of_nat x;
          v \<leftarrow> fetch m idx;
          u \<leftarrow> fetch out at;
          if f_less F u v then put at v out else Some out })) out })) out)"

definition baseMaxPoolGemm :: "float_ops \<Rightarrow> floats \<Rightarrow> floats \<Rightarrow> u32 \<Rightarrow> u32 \<Rightarrow> floats option" where
  "baseMaxPoolGemm F a out ms ks =
     (if ks = 0 then None
      else int_loop (ms div ks) (\<lambda>i. int_loop (ms div ks) (\<lambda>j out. do {
        let offset = (of_nat i * ms div ks + of_nat j) * ks * ks;
        v \<leftarrow> fetch a offset;
        v \<leftarrow> int_loop ks (\<lambda>w. int_loop ks (\<lambda>x v. do {
          u \<leftarrow> fetch a (offset + of_nat w * ks + of_nat x);
          Some (if f_less F v u then u else v) })) v;
        put (of_nat i * ms div 2 + of_nat j) v out })) out)"

definition baseRelu :: "float_ops \<Rightarrow> floats \<Rightarrow> floats \<Rightarrow> u32 \<Rightarrow> floats option" where
  "baseRelu F m out ms =
     int_loop ms (\<lambda>i. int_loop ms (\<lambda>j out. do {
       v \<leftarrow> fetch m (of_nat i * ms + of_nat j);
       put (of_nat i * ms + of_nat j) (if f_less F v F_0 then F_0 else v) out })) out"

definition baseMM :: "float_ops \<Rightarrow> floats \<Rightarrow> floats \<Rightarrow> floats \<Rightarrow> u32 \<Rightarrow> floats option" where
  "baseMM F a b out ms =
     int_loop ms (\<lambda>i. int_loop ms (\<lambda>j out. do {
       let at = of_nat i * ms + of_nat j;
       out \<leftarrow> put at F_0 out;
       int_loop ms (\<lambda>w. accumulate F at
         (product F (fetch a (of_nat i * ms + of_nat w)) (fetch b (of_nat w * ms + of_nat j)))) out })) out"

definition baseMMGemm :: "float_ops \<Rightarrow> floats \<Rightarrow> floats \<Rightarrow> floats \<Rightarrow> u32 \<Rightarrow> floats option" where
  "baseMMGemm F a b out ms =
     int_loop ms (\<lambda>i. int_loop ms (\<lambda>j out. do {
       let at = of_nat i * ms + of_nat j;
       out \<leftarrow> put at F_0 out;
       int_loop ms (\<lambda>w. accumulate F at
         (product F (fetch a (of_nat i * ms + of_nat w)) (fetch b (of_nat j * ms + of_nat w)))) out })) out"

section \<open>Loops over arrays\<close>

lemma unat_of_nat_u32: "n < 2 ^ 32 \<Longrightarrow> unat (of_nat n :: u32) = n"
  by (simp add: unat_of_nat)

lemma sint_of_nat_u32:
  assumes "n < 2 ^ 31"
  shows "sint (of_nat n :: u32) = int n"
proof -
  have "(of_nat n :: u32) = word_of_int (int n)" by simp
  then show ?thesis using assms int_word_sint [of "int n", where 'a = 32] by simp
qed

lemma fetch_of_nat [simp]: "i < length a \<Longrightarrow> length a \<le> 2 ^ 32 \<Longrightarrow> fetch a (of_nat i) = Some (a ! i)"
  by (simp add: fetch_def unat_of_nat_u32)

lemma put_of_nat [simp]: "i < length a \<Longrightarrow> length a \<le> 2 ^ 32 \<Longrightarrow> put (of_nat i) v a = Some (a[i := v])"
  by (simp add: put_def unat_of_nat_u32)

lemma int_loop_of_nat:
  assumes "n < 2 ^ 31"
  shows "int_loop (of_nat n) f s = loop f [0..<n] s"
proof -
  have n: "unat (of_nat n :: u32) = n" using assms by (simp add: unat_of_nat_u32)
  show ?thesis unfolding int_loop_def n using assms by (intro loop_cong) simp
qed

text \<open>A nest of two loops is one loop over the linear index.\<close>

lemma loop_linear: "loop (\<lambda>i. loop (f i) [0..<n]) [0..<m] s = loop (\<lambda>t. f (t div n) (t mod n)) [0..<m * n] s"
proof (induction m arbitrary: s)
  case (Suc m)
  have "[0..<Suc m * n] = [0..<m * n] @ map (\<lambda>j. m * n + j) [0..<n]"
    using upt_add_eq_append [of 0 "m * n" n] map_add_upt [of "m * n" n] by (simp add: add.commute)
  moreover have "loop (\<lambda>t. f (t div n) (t mod n)) (map (\<lambda>j. m * n + j) [0..<n]) s' = loop (f m) [0..<n] s'" for s'
    unfolding loop_map by (rule loop_cong) simp
  ultimately show ?case using Suc.IH by (simp add: loop_append bind_eq_Some_conv split: bind_splits)
qed simp

text \<open>A loop that gives every element of the output its value.\<close>

lemma loop_fill:
  assumes "\<And>t a. t < n \<Longrightarrow> length a = length out \<Longrightarrow> body t a = Some (a[t := v t])" "length out = n"
  shows "loop body [0..<n] out = Some (map v [0..<n])"
proof -
  have "loop body [0..<k] out = Some (map v [0..<k] @ drop k out)" if "k \<le> n" for k
    using that
  proof (induction k)
    case (Suc k)
    have "body k (map v [0..<k] @ drop k out) = Some ((map v [0..<k] @ drop k out)[k := v k])"
      using Suc.prems assms(2) by (intro assms(1)) simp_all
    also have "(map v [0..<k] @ drop k out)[k := v k] = map v [0..<Suc k] @ drop (Suc k) out"
      using Suc.prems assms(2) by (simp add: list_update_append Cons_nth_drop_Suc [symmetric])
    finally show ?case using Suc by (simp add: loop_append)
  qed simp
  from this [of n] show ?thesis using assms(2) by simp
qed

text \<open>The sum of the terms \<open>t\<close> in the order of the code.\<close>

definition dot :: "float_ops \<Rightarrow> (nat \<Rightarrow> u32) \<Rightarrow> nat \<Rightarrow> u32" where
  "dot F t n = foldl (\<lambda>a i. f_add F a (t i)) F_0 [0..<n]"

lemma dot_cong: "(\<And>i. i < n \<Longrightarrow> t i = t' i) \<Longrightarrow> dot F t n = dot F t' n"
  unfolding dot_def by (intro foldl_cong) auto

lemma loop_accumulate:
  assumes "i < length a" "length a \<le> 2 ^ 32" "\<And>w. w \<in> set ws \<Longrightarrow> T w = Some (t w)"
  shows "loop (\<lambda>w. accumulate F (of_nat i) (T w)) ws a = Some (a[i := foldl (\<lambda>a w. f_add F a (t w)) (a ! i) ws])"
  using assms by (induction ws arbitrary: a) (simp_all add: accumulate_def)

lemma fill_dot:
  assumes "length out = m" "m \<le> 2 ^ 32" "\<And>t w. t < m \<Longrightarrow> w < n \<Longrightarrow> T t w = Some (v t w)"
  shows "loop (\<lambda>t out. do { out \<leftarrow> put (of_nat t) F_0 out; loop (\<lambda>w. accumulate F (of_nat t) (T t w)) [0..<n] out }) [0..<m] out =
    Some (map (\<lambda>t. dot F (v t) n) [0..<m])"
proof (rule loop_fill)
  fix t and a :: floats assume t: "t < m" "length a = length out"
  then show "do { a \<leftarrow> put (of_nat t) F_0 a; loop (\<lambda>w. accumulate F (of_nat t) (T t w)) [0..<n] a } = Some (a[t := dot F (v t) n])"
    using assms loop_accumulate [of t "a[t := F_0]" "[0..<n]" "T t" "v t" F] by (simp add: dot_def)
qed (rule assms)

text \<open>Index arithmetic that does not wrap around.\<close>

lemmas index_of_nat = of_nat_mult [symmetric] of_nat_add [symmetric]

lemma index_bound:
  fixes n m :: nat
  assumes "i < m" "j < n"
  shows "i * n + j < m * n"
proof -
  have "i * n + j < Suc i * n" using assms(2) by simp
  also have "... \<le> m * n" using assms(1) by (intro mult_le_mono1) simp
  finally show ?thesis .
qed

lemma linear_index: "t < m * (n :: nat) \<Longrightarrow> t div n < m \<and> (0 < n \<longrightarrow> t mod n < n)"
  by (auto simp: less_mult_imp_div_less)

lemma digits: "u < (n :: nat) \<Longrightarrow> (t * n + u) div n = t \<and> (t * n + u) mod n = u"
  by simp

lemma square_bound: "(n :: nat) * n < 2 ^ 31 \<Longrightarrow> n < 2 ^ 16"
  by (rule ccontr) (use mult_le_mono [of "2 ^ 16" n "2 ^ 16" n] in simp)

section \<open>The values of the kernels\<close>

lemma product_fetch:
  assumes "i < length a" "length a \<le> 2 ^ 32" "j < length b" "length b \<le> 2 ^ 32"
  shows "product F (fetch a (of_nat i)) (fetch b (of_nat j)) = Some (f_mul F (a ! i) (b ! j))"
  using assms by (simp add: product_def)

definition mm_value :: "float_ops \<Rightarrow> floats \<Rightarrow> floats \<Rightarrow> nat \<Rightarrow> floats" where
  "mm_value F a b n = map (\<lambda>t. dot F (\<lambda>w. f_mul F (a ! (t div n * n + w)) (b ! (w * n + t mod n))) n) [0..<n * n]"

lemma baseMM_value:
  assumes n: "n * n < 2 ^ 31" and a: "length a = n * n" "length b = n * n" "length out = n * n"
  shows "baseMM F a b out (of_nat n) = Some (mm_value F a b n)"
proof -
  have n31: "n < 2 ^ 31" using square_bound [OF n] by simp
  have "product F (fetch a (of_nat (t div n * n + w))) (fetch b (of_nat (w * n + t mod n))) =
      Some (f_mul F (a ! (t div n * n + w)) (b ! (w * n + t mod n)))" if "t < n * n" "w < n" for t w
    using index_bound [of "t div n" n w n] index_bound [of w n "t mod n" n] linear_index [OF that(1)] that a n
    by (intro product_fetch) simp_all
  then show ?thesis
    unfolding baseMM_def int_loop_of_nat [OF n31] loop_linear Let_def index_of_nat div_mult_mod_eq mm_value_def
    using n a(3) by (intro fill_dot) simp_all
qed

lemma baseMMGemm_value:
  assumes n: "n * n < 2 ^ 31" and a: "length a = n * n" "length b = n * n" "length out = n * n"
  shows "baseMMGemm F a b out (of_nat n) =
    Some (map (\<lambda>t. dot F (\<lambda>w. f_mul F (a ! (t div n * n + w)) (b ! (t mod n * n + w))) n) [0..<n * n])"
proof -
  have n31: "n < 2 ^ 31" using square_bound [OF n] by simp
  have "product F (fetch a (of_nat (t div n * n + w))) (fetch b (of_nat (t mod n * n + w))) =
      Some (f_mul F (a ! (t div n * n + w)) (b ! (t mod n * n + w)))" if "t < n * n" "w < n" for t w
    using index_bound [of "t div n" n w n] index_bound [of "t mod n" n w n] linear_index [OF that(1)] that a n
    by (intro product_fetch) simp_all
  then show ?thesis
    unfolding baseMMGemm_def int_loop_of_nat [OF n31] loop_linear Let_def index_of_nat div_mult_mod_eq
    using n a(3) by (intro fill_dot) simp_all
qed

lemma baseConvGemm_value:
  assumes n: "m * n < 2 ^ 31" "m < 2 ^ 31" "n < 2 ^ 31" and a: "length a = m * n" "length k = n" "length out = m"
  shows "baseConvGemm F a k out (of_nat m) (of_nat n) = Some (map (\<lambda>t. dot F (\<lambda>w. f_mul F (a ! (t * n + w)) (k ! w)) n) [0..<m])"
proof -
  have "product F (fetch a (of_nat (t * n + w))) (fetch k (of_nat w)) = Some (f_mul F (a ! (t * n + w)) (k ! w))" if "t < m" "w < n" for t w
    using index_bound [of t m w n] that a n by (intro product_fetch) simp_all
  then show ?thesis
    unfolding baseConvGemm_def int_loop_of_nat [OF n(2)] int_loop_of_nat [OF n(3)] Let_def index_of_nat
    using n a(3) by (intro fill_dot) simp_all
qed

lemma baseRelu_value:
  assumes n: "n * n < 2 ^ 31" and a: "length m = n * n" "length out = n * n"
  shows "baseRelu F m out (of_nat n) = Some (map (\<lambda>v. if f_less F v F_0 then F_0 else v) m)"
proof -
  have n31: "n < 2 ^ 31" using square_bound [OF n] by simp
  have "baseRelu F m out (of_nat n) = Some (map (\<lambda>t. if f_less F (m ! t) F_0 then F_0 else m ! t) [0..<n * n])"
    unfolding baseRelu_def int_loop_of_nat [OF n31] loop_linear Let_def index_of_nat div_mult_mod_eq
    using n a by (intro loop_fill) simp_all
  also have "... = Some (map (\<lambda>v. if f_less F v F_0 then F_0 else v) m)" using a(1) by (simp add: list_eq_iff_nth_eq)
  finally show ?thesis .
qed

text \<open>The input row that tap \<open>w\<close> of a kernel of size \<open>n\<close> meets at output row \<open>i\<close>, if it is not padding.\<close>

definition pad :: "nat \<Rightarrow> nat \<Rightarrow> nat \<Rightarrow> nat \<Rightarrow> nat option" where
  "pad m n i w = (if n div 2 \<le> i + w \<and> i + w < m + n div 2 then Some (i + w - n div 2) else None)"

lemma pad_bound: "pad m n i w = Some p \<Longrightarrow> p < m"
  by (auto simp: pad_def split: if_splits)

lemma tap_pad:
  assumes "i < m" "w < n" "m < 2 ^ 16" "n < 2 ^ 16"
  shows "\<exists>mi. tap i w (of_nat n) = Some mi \<and> (outside mi (of_nat m) \<longleftrightarrow> pad m n i w = None) \<and>
    (\<forall>p. pad m n i w = Some p \<longrightarrow> mi = of_nat p)"
proof -
  have half: "(of_nat n :: u32) div 2 = of_nat (n div 2)" 
  proof -
    have "unat ((of_nat n :: u32) div 2) = unat (of_nat (n div 2) :: u32)" using assms(4) by (simp add: unat_div_distrib unat_of_nat)
    then show ?thesis by (simp only: word_unat_eq_iff)
  qed
  have tap: "tap i w (of_nat n) = Some (of_nat (i + w) - of_nat (n div 2))" using assms unfolding tap_def half by simp
  show ?thesis
  proof (cases "n div 2 \<le> i + w")
    case True
    have mi: "(of_nat (i + w) - of_nat (n div 2) :: u32) = of_nat (i + w - n div 2)" using True by (rule of_nat_diff [symmetric])
    have un: "unat (of_nat (i + w - n div 2) :: u32) = i + w - n div 2" using assms by (intro unat_of_nat_u32) simp
    have um: "unat (of_nat m :: u32) = m" using assms by (intro unat_of_nat_u32) simp
    have "0 \<le> sint (of_nat (i + w - n div 2) :: u32)" using sint_of_nat_u32 [of "i + w - n div 2"] assms by simp
    then have "outside (of_nat (i + w - n div 2)) (of_nat m) \<longleftrightarrow> pad m n i w = None"
      using True un um by (auto simp: outside_def pad_def word_le_nat_alt)
    then show ?thesis unfolding tap mi by (auto simp: pad_def split: if_splits)
  next
    case False
    let ?d = "n div 2 - (i + w)"
    have mi: "(of_nat (i + w) - of_nat (n div 2) :: u32) = - of_nat ?d" using False by (simp add: of_nat_diff)
    have "(- of_nat ?d :: u32) = word_of_int (- int ?d)" by simp
    moreover have "sint (word_of_int (- int ?d) :: u32) = - int ?d" using assms(4) by (subst int_word_sint) simp
    ultimately have "sint (- of_nat ?d :: u32) < 0" using False by simp
    then show ?thesis using False unfolding tap mi by (auto simp: outside_def pad_def)
  qed
qed

text \<open>The terms of a convolution: a tap on the padding adds zero.\<close>

definition conv2_term :: "float_ops \<Rightarrow> floats \<Rightarrow> floats \<Rightarrow> nat \<Rightarrow> nat \<Rightarrow> nat \<Rightarrow> nat \<Rightarrow> u32" where
  "conv2_term F a k m n t u =
     (case (pad m n (t div m) (u div n), pad m n (t mod m) (u mod n)) of
        (Some p, Some q) \<Rightarrow> f_mul F (a ! (p * m + q)) (k ! u)
      | _ \<Rightarrow> F_0)"

definition conv3_term :: "float_ops \<Rightarrow> floats \<Rightarrow> floats \<Rightarrow> nat \<Rightarrow> nat \<Rightarrow> nat \<Rightarrow> nat \<Rightarrow> u32" where
  "conv3_term F a k m n t u =
     (case (pad m n (t div (m * m)) (u div (n * n)), pad m n (t mod (m * m) div m) (u mod (n * n) div n),
        pad m n (t mod (m * m) mod m) (u mod (n * n) mod n)) of
        (Some p, Some q, Some r) \<Rightarrow> f_mul F (a ! (p * m * m + q * m + r)) (k ! u)
      | _ \<Rightarrow> F_0)"

lemma minus_one_index:
  assumes "n < 2 ^ 31"
  shows "(of_nat n :: u32) \<noteq> -1"
proof
  assume "(of_nat n :: u32) = -1"
  then have "sint (of_nat n :: u32) = -1" by simp
  then show False using sint_of_nat_u32 [OF assms] by simp
qed

lemma fetch_int_of_nat: "n < 2 ^ 31 \<Longrightarrow> n < length a \<Longrightarrow> length a \<le> 2 ^ 32 \<Longrightarrow> fetch_int a (of_nat n) = Some (a ! n)"
  by (simp add: fetch_int_def sint_of_nat_u32)

lemma baseConv_2D_value:
  assumes m: "m * m < 2 ^ 31" "n * n < 2 ^ 31" and a: "length a = m * m" "length k = n * n" "length out = m * m"
  shows "baseConv_2D F a k out (of_nat m) (of_nat n) = Some (map (\<lambda>t. dot F (conv2_term F a k m n t) (n * n)) [0..<m * m])"
proof -
  note sq = square_bound [OF m(1)] square_bound [OF m(2)]
  have m31: "m < 2 ^ 31" "n < 2 ^ 31" using sq by simp_all
  let ?T = "\<lambda>t u. do {
    mi \<leftarrow> tap (t div m) (u div n) (of_nat n); mj \<leftarrow> tap (t mod m) (u mod n) (of_nat n);
    if (if outside mi (of_nat m) \<or> outside mj (of_nat m) then -1 else mi * of_nat m + mj) = -1 then Some F_0
    else product F (fetch_int a (if outside mi (of_nat m) \<or> outside mj (of_nat m) then -1 else mi * of_nat m + mj)) (fetch k (of_nat u)) }"
  have "?T t u = Some (conv2_term F a k m n t u)" if t: "t < m * m" and u: "u < n * n" for t u
  proof -
    note ti = linear_index [OF t] and ui = linear_index [OF u]
    have ix: "t div m < m" "t mod m < m" "u div n < n" "u mod n < n" using ti ui t u by (auto intro: Nat.gr0I)
    obtain mi where mi: "tap (t div m) (u div n) (of_nat n) = Some mi" "outside mi (of_nat m) \<longleftrightarrow> pad m n (t div m) (u div n) = None"
      "\<And>p. pad m n (t div m) (u div n) = Some p \<Longrightarrow> mi = of_nat p"
      using tap_pad [OF ix(1,3) sq] by auto
    obtain mj where mj: "tap (t mod m) (u mod n) (of_nat n) = Some mj" "outside mj (of_nat m) \<longleftrightarrow> pad m n (t mod m) (u mod n) = None"
      "\<And>p. pad m n (t mod m) (u mod n) = Some p \<Longrightarrow> mj = of_nat p"
      using tap_pad [OF ix(2,4) sq] by auto
    show ?thesis
    proof (cases "pad m n (t div m) (u div n) = None \<or> pad m n (t mod m) (u mod n) = None")
      case True
      then show ?thesis using mi(1,2) mj(1,2) by (auto simp: conv2_term_def split: option.splits)
    next
      case False
      then obtain p q where pq: "pad m n (t div m) (u div n) = Some p" "pad m n (t mod m) (u mod n) = Some q" by auto
      have pq_ix: "p * m + q < m * m" using pad_bound [OF pq(1)] pad_bound [OF pq(2)] by (rule index_bound)
      have "product F (fetch_int a (of_nat (p * m + q))) (fetch k (of_nat u)) = Some (f_mul F (a ! (p * m + q)) (k ! u))"
        using fetch_int_of_nat [of "p * m + q" a] pq_ix u m a by (simp add: product_def del: of_nat_mult of_nat_add)
      moreover have "(of_nat (p * m + q) :: u32) \<noteq> -1" using pq_ix m(1) by (intro minus_one_index) simp
      ultimately show ?thesis using mi mj pq by (simp add: Let_def index_of_nat conv2_term_def del: of_nat_mult of_nat_add)
    qed
  qed
  then show ?thesis
    unfolding baseConv_2D_def int_loop_of_nat [OF m31(1)] int_loop_of_nat [OF m31(2)] loop_linear index_of_nat div_mult_mod_eq Let_def
    using m a(3) by (intro fill_dot) simp_all
qed

lemma cube_bound:
  assumes "(n :: nat) * n * n < 2 ^ 31"
  shows "n < 2 ^ 16"
proof (cases n)
  case (Suc k)
  then have "n * n \<le> n * n * n" by simp
  then show ?thesis using assms by (intro square_bound) linarith
qed simp

lemma cube_index: "t div (m * m) * m * m + t mod (m * m) div m * m + t mod (m * m) mod m = (t :: nat)"
  using div_mult_mod_eq [of "t mod (m * m)" m] div_mult_mod_eq [of t "m * m"] by (simp add: mult.assoc)

lemma cube_digits:
  assumes "t < m * m * (m :: nat)"
  shows "t div (m * m) < m" "t mod (m * m) div m < m" "t mod (m * m) mod m < m"
proof -
  have pos: "0 < m" using assms by (auto intro: Nat.gr0I)
  then show "t div (m * m) < m" "t mod (m * m) mod m < m" using assms by (simp_all add: less_mult_imp_div_less mult.assoc)
  show "t mod (m * m) div m < m" using pos by (simp add: less_mult_imp_div_less)
qed

lemma cube_index_bound:
  assumes "p < m" "q < m" "r < (m :: nat)"
  shows "p * m * m + q * m + r < m * m * m"
  using index_bound [OF index_bound [OF assms(1,2)] assms(3)] by (simp add: algebra_simps)

lemma baseConv_3D_value:
  assumes m: "m * m * m < 2 ^ 31" "n * n * n < 2 ^ 31" and a: "length a = m * m * m" "length k = n * n * n" "length out = m * m * m"
  shows "baseConv_3D F a k out (of_nat m) (of_nat n) = Some (map (\<lambda>t. dot F (conv3_term F a k m n t) (n * n * n)) [0..<m * m * m])"
proof -
  note cb = cube_bound [OF m(1)] cube_bound [OF m(2)]
  have m31: "m < 2 ^ 31" "n < 2 ^ 31" using cb by simp_all
  have cube: "x * (x * x) = x * x * x" for x :: nat by simp
  let ?P = "\<lambda>t u. pad m n (t div (m * m)) (u div (n * n))" and ?Q = "\<lambda>t u. pad m n (t mod (m * m) div m) (u mod (n * n) div n)"
    and ?R = "\<lambda>t u. pad m n (t mod (m * m) mod m) (u mod (n * n) mod n)"
  let ?out = "\<lambda>mi mj mw. outside mi (of_nat m) \<or> outside mj (of_nat m) \<or> outside mw (of_nat m)"
  let ?idx = "\<lambda>mi mj mw. if ?out mi mj mw then -1 else mi * of_nat m * of_nat m + mj * of_nat m + mw :: u32"
  let ?T = "\<lambda>t u. do {
    mi \<leftarrow> tap (t div (m * m)) (u div (n * n)) (of_nat n); mj \<leftarrow> tap (t mod (m * m) div m) (u mod (n * n) div n) (of_nat n);
    mw \<leftarrow> tap (t mod (m * m) mod m) (u mod (n * n) mod n) (of_nat n);
    if ?idx mi mj mw = -1 then Some F_0 else product F (fetch_int a (?idx mi mj mw)) (fetch k (of_nat u)) }"
  have "?T t u = Some (conv3_term F a k m n t u)" if t: "t < m * m * m" and u: "u < n * n * n" for t u
  proof -
    note ti = cube_digits [OF t] and ui = cube_digits [OF u]
    obtain mi where mi: "tap (t div (m * m)) (u div (n * n)) (of_nat n) = Some mi" "outside mi (of_nat m) \<longleftrightarrow> ?P t u = None"
      "\<And>p. ?P t u = Some p \<Longrightarrow> mi = of_nat p" using tap_pad [OF ti(1) ui(1) cb] by auto
    obtain mj where mj: "tap (t mod (m * m) div m) (u mod (n * n) div n) (of_nat n) = Some mj" "outside mj (of_nat m) \<longleftrightarrow> ?Q t u = None"
      "\<And>p. ?Q t u = Some p \<Longrightarrow> mj = of_nat p" using tap_pad [OF ti(2) ui(2) cb] by auto
    obtain mw where mw: "tap (t mod (m * m) mod m) (u mod (n * n) mod n) (of_nat n) = Some mw" "outside mw (of_nat m) \<longleftrightarrow> ?R t u = None"
      "\<And>p. ?R t u = Some p \<Longrightarrow> mw = of_nat p" using tap_pad [OF ti(3) ui(3) cb] by auto
    show ?thesis
    proof (cases "?P t u = None \<or> ?Q t u = None \<or> ?R t u = None")
      case True
      then have "?out mi mj mw" using mi(2) mj(2) mw(2) by auto
      moreover have "conv3_term F a k m n t u = F_0" using True by (auto simp: conv3_term_def split: option.splits)
      ultimately show ?thesis using mi(1) mj(1) mw(1) by simp
    next
      case False
      then obtain p q r where pqr: "?P t u = Some p" "?Q t u = Some q" "?R t u = Some r" by auto
      let ?i = "p * m * m + q * m + r"
      have ix: "?i < m * m * m" using pad_bound [OF pqr(1)] pad_bound [OF pqr(2)] pad_bound [OF pqr(3)] by (rule cube_index_bound)
      have "?idx mi mj mw = of_nat ?i" using mi mj mw pqr by simp
      moreover have "product F (fetch_int a (of_nat ?i)) (fetch k (of_nat u)) = Some (f_mul F (a ! ?i) (k ! u))"
        using fetch_int_of_nat [of ?i a] ix u m a by (simp add: product_def del: of_nat_mult of_nat_add)
      moreover have "(of_nat ?i :: u32) \<noteq> -1" using ix m(1) by (intro minus_one_index) simp
      moreover have "conv3_term F a k m n t u = f_mul F (a ! ?i) (k ! u)" using pqr by (simp add: conv3_term_def)
      ultimately show ?thesis using mi(1) mj(1) mw(1) by (simp del: of_nat_mult of_nat_add)
    qed
  qed
  then show ?thesis
    unfolding baseConv_3D_def int_loop_of_nat [OF m31(1)] int_loop_of_nat [OF m31(2)] loop_linear index_of_nat Let_def cube_index cube
    using m a(3) by (intro fill_dot) simp_all
qed

text \<open>The maximum of \<open>v 0\<close> to \<open>v (n - 1)\<close> in the order of the code.\<close>

definition pool :: "float_ops \<Rightarrow> (nat \<Rightarrow> u32) \<Rightarrow> nat \<Rightarrow> u32" where
  "pool F v n = foldl (\<lambda>x i. if f_less F x (v i) then v i else x) (v 0) [0..<n]"

lemma pool_cong:
  assumes "\<And>i. i < n \<Longrightarrow> v i = v' i" "0 < n"
  shows "pool F v n = pool F v' n"
  unfolding pool_def using assms by (intro foldl_cong) auto

lemma loop_pool:
  assumes "i < length a" "length a \<le> 2 ^ 32" "\<And>w. w \<in> set ws \<Longrightarrow> V w = Some (v w)"
  shows "loop (\<lambda>w a. do { x \<leftarrow> V w; y \<leftarrow> fetch a (of_nat i); if f_less F y x then put (of_nat i) x a else Some a }) ws a =
    Some (a[i := foldl (\<lambda>x w. if f_less F x (v w) then v w else x) (a ! i) ws])"
  using assms by (induction ws arbitrary: a) simp_all

lemma loop_pool_value:
  assumes "\<And>w. w \<in> set ws \<Longrightarrow> V w = Some (v w)"
  shows "loop (\<lambda>w x. do { y \<leftarrow> V w; Some (if f_less F x y then y else x) }) ws x =
    Some (foldl (\<lambda>x w. if f_less F x (v w) then v w else x) x ws)"
  using assms by (induction ws arbitrary: x) simp_all

lemma div_of_nat_u32:
  assumes "a < 2 ^ 32" "b < 2 ^ 32"
  shows "(of_nat a :: u32) div of_nat b = of_nat (a div b)" "(of_nat a :: u32) mod of_nat b = of_nat (a mod b)"
proof -
  have le: "a div b < 2 ^ 32" "a mod b < 2 ^ 32" using assms(1) by (meson div_le_dividend le_less_trans mod_less_eq_dividend)+
  have "unat ((of_nat a :: u32) div of_nat b) = unat (of_nat (a div b) :: u32)"
    unfolding unat_div_distrib using assms le by (simp only: unat_of_nat_u32)
  then show "(of_nat a :: u32) div of_nat b = of_nat (a div b)" by (simp only: word_unat_eq_iff)
  have "unat ((of_nat a :: u32) mod of_nat b) = unat (of_nat (a mod b) :: u32)"
    unfolding unat_mod_distrib using assms le by (simp only: unat_of_nat_u32)
  then show "(of_nat a :: u32) mod of_nat b = of_nat (a mod b)" by (simp only: word_unat_eq_iff)
qed

text \<open>A matrix of \<open>p * p\<close> windows of \<open>n * n\<close> elements.\<close>

lemma pool_bounds:
  fixes p n :: nat
  assumes "p * n * (p * n) < 2 ^ 31" "0 < n" "0 < p"
  shows "p * n < 2 ^ 16" "p < 2 ^ 16" "n < 2 ^ 16" "p * p < 2 ^ 31" "n * n < 2 ^ 31"
proof -
  show pn: "p * n < 2 ^ 16" by (rule square_bound [OF assms(1)])
  have "p \<le> p * n" "n \<le> p * n" using assms(2,3) by simp_all
  then show "p < 2 ^ 16" "n < 2 ^ 16" using pn by linarith+
  have "p * p \<le> p * n * (p * n)" "n * n \<le> p * n * (p * n)" using assms(2,3) by (intro mult_le_mono; simp)+
  then show "p * p < 2 ^ 31" "n * n < 2 ^ 31" using assms(1) by linarith+
qed

definition window_element :: "nat \<Rightarrow> nat \<Rightarrow> nat \<Rightarrow> nat \<Rightarrow> nat" where
  "window_element p n t u = (t div p * n + u div n) * (p * n) + t mod p * n + u mod n"

lemma window_element_bound:
  assumes "t < p * p" "u < n * n"
  shows "window_element p n t u < p * n * (p * n)"
proof -
  have pos: "0 < p" "0 < n" using assms by (auto intro: Nat.gr0I)
  have "t div p * n + u div n < p * n" "t mod p * n + u mod n < p * n"
    using linear_index [OF assms(1)] linear_index [OF assms(2)] pos by (auto intro!: index_bound)
  from index_bound [OF this] show ?thesis by (simp add: window_element_def add.assoc)
qed

lemma baseMaxPool_value:
  assumes m: "p * n * (p * n) < 2 ^ 31" "0 < n" "0 < p" and a: "length a = p * n * (p * n)" "length out = p * p"
  shows "baseMaxPool F a out (of_nat (p * n)) (of_nat n) = Some (map (\<lambda>t. pool F (\<lambda>u. a ! window_element p n t u) (n * n)) [0..<p * p])"
proof -
  note b = pool_bounds [OF m]
  have b31: "p < 2 ^ 31" "n < 2 ^ 31" using b by simp_all
  have guard: "\<not> ((of_nat n :: u32) = 0 \<or> (of_nat (p * n) :: u32) mod of_nat n \<noteq> 0)"
  proof -
    have "unat (of_nat n :: u32) \<noteq> 0" "(of_nat (p * n) :: u32) mod of_nat n = of_nat (p * n mod n)"
      using b m(2) div_of_nat_u32(2) [of "p * n" n] by (simp_all add: unat_of_nat_u32)
    then show ?thesis by auto
  qed
  have P: "(of_nat (p * n) :: u32) div of_nat n = of_nat p" using div_of_nat_u32(1) [of "p * n" n] b m(2) by simp
  have "baseMaxPool F a out (of_nat (p * n)) (of_nat n) = loop (\<lambda>t out. do {
      v \<leftarrow> fetch a (of_nat (t div p * n * (p * n) + t mod p * n));
      out \<leftarrow> put (of_nat (t div p * (p * n)) div of_nat n + of_nat (t mod p)) v out;
      loop (\<lambda>u out. do { v \<leftarrow> fetch a (of_nat (window_element p n t u));
        w \<leftarrow> fetch out (of_nat (t div p * (p * n)) div of_nat n + of_nat (t mod p));
        if f_less F w v then put (of_nat (t div p * (p * n)) div of_nat n + of_nat (t mod p)) v out else Some out }) [0..<n * n] out })
      [0..<p * p] out"
    unfolding baseMaxPool_def if_not_P [OF guard] P int_loop_of_nat [OF b31(1)] int_loop_of_nat [OF b31(2)] loop_linear index_of_nat
      Let_def window_element_def ..
  also have "... = Some (map (\<lambda>t. pool F (\<lambda>u. a ! window_element p n t u) (n * n)) [0..<p * p])"
  proof (rule loop_fill)
    fix t and c :: floats assume t: "t < p * p" and c: "length c = length out"
    have "t div p * (p * n) < 2 ^ 32"
    proof -
      have "t div p < p" "p \<le> p * n" using linear_index [OF t] m(2) by simp_all
      then have "t div p * (p * n) \<le> p * n * (p * n)" by (intro mult_le_mono1) linarith
      also have "... < 2 ^ 32" using m(1) by simp
      finally show ?thesis .
    qed
    then have "(of_nat (t div p * (p * n)) :: u32) div of_nat n = of_nat (t div p * p)"
      using div_of_nat_u32(1) [of "t div p * (p * n)" n] b(3) m(2) by (simp add: mult.assoc [symmetric] del: of_nat_mult)
    then have at: "(of_nat (t div p * (p * n)) :: u32) div of_nat n + of_nat (t mod p) = of_nat t"
      using div_mult_mod_eq [of t p] by (metis of_nat_add)
    have v: "fetch a (of_nat (window_element p n t u)) = Some (a ! window_element p n t u)" if "u < n * n" for u
      using window_element_bound [OF t that] a(1) m(1) by simp
    have first: "t div p * n * (p * n) + t mod p * n = window_element p n t 0" by (simp add: window_element_def)
    have tl: "t < length (c[t := x])" "length (c[t := x]) \<le> 2 ^ 32" for x using t c a(2) b(4) by simp_all
    show "do { v \<leftarrow> fetch a (of_nat (t div p * n * (p * n) + t mod p * n));
        out \<leftarrow> put (of_nat (t div p * (p * n)) div of_nat n + of_nat (t mod p)) v c;
        loop (\<lambda>u out. do { v \<leftarrow> fetch a (of_nat (window_element p n t u));
          w \<leftarrow> fetch out (of_nat (t div p * (p * n)) div of_nat n + of_nat (t mod p));
          if f_less F w v then put (of_nat (t div p * (p * n)) div of_nat n + of_nat (t mod p)) v out else Some out }) [0..<n * n] out } =
      Some (c[t := pool F (\<lambda>u. a ! window_element p n t u) (n * n)])"
      unfolding at first using loop_pool [OF tl, of "[0..<n * n]" "\<lambda>u. fetch a (of_nat (window_element p n t u))" "\<lambda>u. a ! window_element p n t u"]
        v t c a(2) b(4) m(2) by (simp add: pool_def)
  qed (rule a)
  finally show ?thesis .
qed

text \<open>The pooling of a lowered operand divides by two where the direct kernel divides by the window size.\<close>

lemma baseMaxPoolGemm_element:
  assumes m: "p * n * (p * n) < 2 ^ 31" "0 < n" "0 < p" and a: "length a = p * n * (p * n)" and t: "t < p * p"
  shows "do {
      v \<leftarrow> fetch a ((of_nat (t div p * (p * n)) div of_nat n + of_nat (t mod p)) * of_nat n * of_nat n);
      loop (\<lambda>u v. do {
        w \<leftarrow> fetch a ((of_nat (t div p * (p * n)) div of_nat n + of_nat (t mod p)) * of_nat n * of_nat n + of_nat (u div n * n) + of_nat (u mod n));
        Some (if f_less F v w then w else v) }) [0..<n * n] v } =
    Some (pool F (\<lambda>u. a ! (t * (n * n) + u)) (n * n))"
proof -
  note b = pool_bounds [OF m]
  have "t div p < p" "p \<le> p * n" using linear_index [OF t] m(2) by simp_all
  then have "t div p * (p * n) \<le> p * n * (p * n)" by (intro mult_le_mono1) linarith
  also have "... < 2 ^ 32" using m(1) by simp
  finally have "(of_nat (t div p * (p * n)) :: u32) div of_nat n = of_nat (t div p * p)"
    using div_of_nat_u32(1) [of "t div p * (p * n)" n] b(3) m(2) by (simp add: mult.assoc [symmetric] del: of_nat_mult)
  then have "(of_nat (t div p * (p * n)) :: u32) div of_nat n + of_nat (t mod p) = of_nat t"
    using div_mult_mod_eq [of t p] by (metis of_nat_add)
  then have off: "((of_nat (t div p * (p * n)) :: u32) div of_nat n + of_nat (t mod p)) * of_nat n * of_nat n = of_nat (t * (n * n))"
    by (simp add: mult.assoc)
  have v: "fetch a (of_nat (t * (n * n) + u)) = Some (a ! (t * (n * n) + u))" if "u < n * n" for u
    using index_bound [OF t that] a m(1) by (intro fetch_of_nat) (simp_all add: algebra_simps)
  have nn: "0 < n * n" using m(2) by simp
  have ix: "(of_nat (t * (n * n)) :: u32) + of_nat (u div n * n) + of_nat (u mod n) = of_nat (t * (n * n) + u)" for u
    using div_mult_mod_eq [of u n] by (metis add.assoc of_nat_add)
  show ?thesis unfolding off ix
    using v [OF nn] loop_pool_value [of "[0..<n * n]" "\<lambda>u. fetch a (of_nat (t * (n * n) + u))" "\<lambda>u. a ! (t * (n * n) + u)" F] v
    by (simp add: pool_def del: of_nat_mult of_nat_add)
qed

lemma baseMaxPoolGemm_loop:
  assumes m: "p * n * (p * n) < 2 ^ 31" "0 < n" "0 < p" and a: "length a = p * n * (p * n)"
  shows "baseMaxPoolGemm F a out (of_nat (p * n)) (of_nat n) =
    loop (\<lambda>t. put (of_nat (t div p * (p * n) div 2 + t mod p)) (pool F (\<lambda>u. a ! (t * (n * n) + u)) (n * n))) [0..<p * p] out"
proof -
  note b = pool_bounds [OF m]
  have b31: "p < 2 ^ 31" "n < 2 ^ 31" using b by simp_all
  have nz: "(of_nat n :: u32) \<noteq> 0" using b(3) m(2) unat_of_nat_u32 [of n] by auto
  have P: "(of_nat (p * n) :: u32) div of_nat n = of_nat p" using div_of_nat_u32(1) [of "p * n" n] b m(2) by simp
  let ?off = "\<lambda>t. (of_nat (t div p * (p * n)) div of_nat n + of_nat (t mod p)) * of_nat n * of_nat n :: u32"
  have "baseMaxPoolGemm F a out (of_nat (p * n)) (of_nat n) = loop (\<lambda>t out. do {
      v \<leftarrow> do { v \<leftarrow> fetch a (?off t);
        loop (\<lambda>u v. do { w \<leftarrow> fetch a (?off t + of_nat (u div n * n) + of_nat (u mod n)); Some (if f_less F v w then w else v) }) [0..<n * n] v };
      put (of_nat (t div p * (p * n)) div 2 + of_nat (t mod p)) v out }) [0..<p * p] out"
    unfolding baseMaxPoolGemm_def if_not_P [OF nz] P int_loop_of_nat [OF b31(1)] int_loop_of_nat [OF b31(2)] loop_linear Let_def
      bind_assoc of_nat_mult [symmetric] ..
  also have "... = loop (\<lambda>t. put (of_nat (t div p * (p * n) div 2 + t mod p)) (pool F (\<lambda>u. a ! (t * (n * n) + u)) (n * n))) [0..<p * p] out"
  proof (rule loop_cong)
    fix t and out :: floats assume "t \<in> set [0..<p * p]"
    then have t: "t < p * p" by simp
    have "t div p < p" "p \<le> p * n" using linear_index [OF t] m(2) by simp_all
    then have "t div p * (p * n) \<le> p * n * (p * n)" by (intro mult_le_mono1) linarith
    also have "... < 2 ^ 32" using m(1) by simp
    finally have half: "(of_nat (t div p * (p * n)) :: u32) div 2 + of_nat (t mod p) = of_nat (t div p * (p * n) div 2 + t mod p)"
      using div_of_nat_u32(1) [of "t div p * (p * n)" 2] by (simp del: of_nat_mult)
    show "do { v \<leftarrow> do { v \<leftarrow> fetch a (?off t);
        loop (\<lambda>u v. do { w \<leftarrow> fetch a (?off t + of_nat (u div n * n) + of_nat (u mod n)); Some (if f_less F v w then w else v) }) [0..<n * n] v };
        put (of_nat (t div p * (p * n)) div 2 + of_nat (t mod p)) v out } =
      put (of_nat (t div p * (p * n) div 2 + t mod p)) (pool F (\<lambda>u. a ! (t * (n * n) + u)) (n * n)) out"
      unfolding baseMaxPoolGemm_element [OF m a t] half by simp
  qed
  finally show ?thesis .
qed

lemma baseMaxPoolGemm_value:
  assumes m: "p * 2 * (p * 2) < 2 ^ 31" "0 < p" and a: "length a = p * 2 * (p * 2)" "length out = p * p"
  shows "baseMaxPoolGemm F a out (of_nat (p * 2)) (of_nat 2) = Some (map (\<lambda>t. pool F (\<lambda>u. a ! (t * (2 * 2) + u)) (2 * 2)) [0..<p * p])"
proof -
  have ix: "t div p * (p * 2) div 2 + t mod p = t" for t using div_mult_mod_eq [of t p] by (simp add: mult.assoc [symmetric])
  have "p * p < 2 ^ 32" using m(1) by simp
  then show ?thesis unfolding baseMaxPoolGemm_loop [OF m(1) _ m(2) a(1), of F out, simplified zero_less_numeral, OF TrueI] ix
    using a(2) by (intro loop_fill) simp_all
qed

lemma put_keeps_length: "put i v a = Some b \<Longrightarrow> length b = length a"
  by (auto simp: put_def split: if_splits)

lemma baseMaxPoolGemm_overflow:
  assumes m: "p * n * (p * n) < 2 ^ 31" "2 < n" "1 < p" and a: "length a = p * n * (p * n)" "length out = p * p"
  shows "baseMaxPoolGemm F a out (of_nat (p * n)) (of_nat n) = None"
proof -
  let ?body = "\<lambda>t. put (of_nat (t div p * (p * n) div 2 + t mod p)) (pool F (\<lambda>u. a ! (t * (n * n) + u)) (n * n))" and ?t = "p * p - 1"
  obtain q where q: "p = Suc q" "0 < q" using m(3) by (cases p) auto
  have t: "?t = q * p + q" "p * p = Suc ?t" using q(1) by simp_all
  have td: "?t div p = q" "?t mod p = q" unfolding t(1) using digits [of q p q] q(1) by simp_all
  have "q * (p * 3) \<le> q * (p * n)" using m(2) by simp
  moreover have "2 * (p * p) \<le> q * (p * 3) + 2 * q" using q by (cases q) (simp_all add: algebra_simps)
  ultimately have big: "p * p \<le> q * (p * n) div 2 + q" by linarith
  have "q * (p * n) \<le> p * n * (p * n)"
  proof (rule mult_le_mono1)
    have "p * 1 \<le> p * n" using m(2) by (intro mult_le_mono2) simp
    then show "q \<le> p * n" using q(1) by simp
  qed
  moreover have "q < 2 ^ 16" using m(2,3) pool_bounds(2) [OF m(1)] q(1) by simp
  moreover have "x div 2 + q < 2 ^ 32" if "x \<le> y" "q < 2 ^ 16" "y < 2 ^ 31" for x y using that by simp
  ultimately have small: "q * (p * n) div 2 + q < 2 ^ 32" using m(1) by blast
  have none: "?body ?t b = None" if "length b = length out" for b
    unfolding td put_def using that a(2) big unat_of_nat_u32 [OF small] by simp
  have up: "[0..<p * p] = [0..<?t] @ [?t]" by (metis le0 t(2) upt_Suc_append)
  have "loop ?body [0..<p * p] out = Option.bind (loop ?body [0..<?t] out) (?body ?t)"
    unfolding up loop_append loop_single ..
  also have "... = None"
  proof (cases "loop ?body [0..<?t] out")
    case (Some b)
    have "length b = length out"
      by (rule loop_invariant [OF Some, where P = "\<lambda>b. length b = length out"]) (auto dest: put_keeps_length)
    then show ?thesis using none unfolding Some by simp
  qed simp
  finally show ?thesis using baseMaxPoolGemm_loop [OF m(1) _ _ a(1), of F out] m(2,3) by simp
qed

end
