(* ===== verification/Gemmini_Device.thy ===== *)
theory Gemmini_Device
  imports Gemmini_Kernels Ndp_Burst
begin

text \<open>
  The Gemmini device (\<open>sim/gem5/src/gemmini_dev_a/gemmini_dev_a.cc\<close>): a command fetches one or two operands
  with read bursts, runs a kernel of \<open>Gemmini_Kernels\<close> and writes the result back with a burst. \<open>malloc\<close> gives
  a new buffer of zeros; no kernel reads an element of the result before it has written it, and only
  \<open>baseMaxPoolGemm\<close> with a window of one can leave elements unwritten. A buffer that was never allocated has
  no elements.
\<close>

section \<open>The device\<close>

datatype GemminiDevAOP =
  Op_conv2d | Op_conv2d_gemm | Op_conv3d | Op_conv3d_gemm | Op_maxpool | Op_maxpool_gemm | Op_relu | Op_mm | Op_mm_gemm

definition opcode_of :: "u64 \<Rightarrow> GemminiDevAOP option" where
  "opcode_of c =
     (if unat c < 9
      then Some ([Op_conv2d, Op_conv2d_gemm, Op_conv3d, Op_conv3d_gemm, Op_maxpool, Op_maxpool_gemm, Op_relu, Op_mm, Op_mm_gemm] ! unat c)
      else None)"

record gemmini =
  pi_addr_m :: u64
  pi_addr_k :: u64
  pi_addr_o :: u64
  pi_size_m :: u64
  pi_size_k :: u64
  pi_opcode :: u64
  pi_status :: u64
  gd_operands :: u32
  gd_m :: nat
  gd_k :: nat
  gd_o :: nat
  gd_m_size :: u64
  gd_k_size :: u64
  gd_o_size :: u64

definition gemmini_readPI :: "u64 \<Rightarrow> gemmini ndp \<Rightarrow> u64 option" where
  "gemmini_readPI ridx s = (if ridx = 7 then Some (pi_status (n_dev s)) else None)"

text \<open>The sizes of the operands and of the result in elements.\<close>

fun gemmini_sizes :: "GemminiDevAOP \<Rightarrow> u64 \<Rightarrow> u64 \<Rightarrow> (u64 \<times> u64 \<times> u64) option" where
  "gemmini_sizes Op_conv2d m k = Some (m * m, k * k, m * m)"
| "gemmini_sizes Op_conv2d_gemm m k = Some (m * m * k * k, k * k, m * m)"
| "gemmini_sizes Op_conv3d m k = Some (m * m * m, k * k * k, m * m * m)"
| "gemmini_sizes Op_conv3d_gemm m k = Some (m * m * m * k * k * k, k * k * k, m * m * m)"
| "gemmini_sizes Op_maxpool m k = (if k = 0 then None else Some (m * m, 0, m * m div k div k))"
| "gemmini_sizes Op_maxpool_gemm m k = (if k = 0 then None else Some (m * m, 0, m * m div k div k))"
| "gemmini_sizes Op_relu m k = Some (m * m, 0, m * m)"
| "gemmini_sizes Op_mm m k = Some (m * m, m * m, m * m)"
| "gemmini_sizes Op_mm_gemm m k = Some (m * m, m * m, m * m)"

text \<open>Float arrays in byte buffers.\<close>

definition float_bytes :: "floats \<Rightarrow> bytes" where
  "float_bytes xs = concat (map (le_bytes 4) xs)"

definition bytes_floats :: "bytes \<Rightarrow> floats" where
  "bytes_floats bs = map (\<lambda>i. le_word (take 4 (drop (4 * i) bs))) [0..<length bs div 4]"

definition buffer_floats :: "gemmini ndp \<Rightarrow> nat \<Rightarrow> floats" where
  "buffer_floats s b = (if b < length (n_heap s) then bytes_floats (n_heap s ! b) else [])"

text \<open>The sizes are parameters of type \<open>unsigned int\<close>.\<close>

fun gemmini_kernel :: "float_ops \<Rightarrow> GemminiDevAOP \<Rightarrow> u64 \<Rightarrow> u64 \<Rightarrow> floats \<Rightarrow> floats \<Rightarrow> floats \<Rightarrow> floats option" where
  "gemmini_kernel F Op_conv2d sm sk m k out = baseConv_2D F m k out (ucast sm) (ucast sk)"
| "gemmini_kernel F Op_conv2d_gemm sm sk m k out = baseConvGemm F m k out (ucast (sm * sm)) (ucast (sk * sk))"
| "gemmini_kernel F Op_conv3d sm sk m k out = baseConv_3D F m k out (ucast sm) (ucast sk)"
| "gemmini_kernel F Op_conv3d_gemm sm sk m k out = baseConvGemm F m k out (ucast (sm * sm * sm)) (ucast (sk * sk * sk))"
| "gemmini_kernel F Op_maxpool sm sk m k out = baseMaxPool F m out (ucast sm) (ucast sk)"
| "gemmini_kernel F Op_maxpool_gemm sm sk m k out = baseMaxPoolGemm F m out (ucast sm) (ucast sk)"
| "gemmini_kernel F Op_relu sm sk m k out = baseRelu F m out (ucast sm)"
| "gemmini_kernel F Op_mm sm sk m k out = baseMM F m k out (ucast sm)"
| "gemmini_kernel F Op_mm_gemm sm sk m k out = baseMMGemm F m k out (ucast sm)"

definition gemmini_process_fsm :: "float_ops \<Rightarrow> gem5 \<Rightarrow> gemmini ndp \<Rightarrow> gemmini ndp option" where
  "gemmini_process_fsm F G s =
     (let d = n_dev s in
      if gd_operands d = 0 then accessMemory G (pi_addr_m d) (gd_m_size d) False (gd_m d, 0) s
      else if gd_operands d = 1 \<and> 0 < gd_k_size d then accessMemory G (pi_addr_k d) (gd_k_size d) False (gd_k d, 0) s
      else do {
        op \<leftarrow> opcode_of (pi_opcode d);
        r \<leftarrow> gemmini_kernel F op (pi_size_m d) (pi_size_k d)
               (buffer_floats s (gd_m d)) (buffer_floats s (gd_k d)) (buffer_floats s (gd_o d));
        accessMemory G (pi_addr_o d) (gd_o_size d) True (gd_o d, 0) (s\<lparr> n_heap := (n_heap s)[gd_o d := float_bytes r] \<rparr>) })"

definition gemmini_start :: "float_ops \<Rightarrow> gem5 \<Rightarrow> gemmini ndp \<Rightarrow> gemmini ndp option" where
  "gemmini_start F G s =
     do { op \<leftarrow> opcode_of (pi_opcode (n_dev s));
          (ms, ks, os) \<leftarrow> gemmini_sizes op (pi_size_m (n_dev s)) (pi_size_k (n_dev s));
          let ms = ms * 4;
          let ks = ks * 4;
          let os = os * 4;
          let (m, s) = new_buffer (unat ms) s;
          let (out, s) = new_buffer (unat os) s;
          let (k, s) = (if 0 < ks then new_buffer (unat ks) s else (gd_k (n_dev s), s));
          let s = s\<lparr> n_dev := (n_dev s)\<lparr> pi_status := 0, gd_m := m, gd_k := k, gd_o := out,
                      gd_m_size := ms, gd_k_size := ks, gd_o_size := os \<rparr> \<rparr>;
          gemmini_process_fsm F G s }"

definition gemmini_writePI :: "float_ops \<Rightarrow> gem5 \<Rightarrow> u64 \<Rightarrow> u64 \<Rightarrow> gemmini ndp \<Rightarrow> gemmini ndp option" where
  "gemmini_writePI F G ridx v s =
     (let d = n_dev s in
      if pi_status d = 0 then None
      else if ridx = 0 then Some (s\<lparr> n_dev := d\<lparr> pi_addr_m := v \<rparr> \<rparr>)
      else if ridx = 1 then Some (s\<lparr> n_dev := d\<lparr> pi_addr_k := v \<rparr> \<rparr>)
      else if ridx = 2 then Some (s\<lparr> n_dev := d\<lparr> pi_addr_o := v \<rparr> \<rparr>)
      else if ridx = 3 then Some (s\<lparr> n_dev := d\<lparr> pi_size_m := v \<rparr> \<rparr>)
      else if ridx = 4 then Some (s\<lparr> n_dev := d\<lparr> pi_size_k := v \<rparr> \<rparr>)
      else if ridx = 5 then Some (s\<lparr> n_dev := d\<lparr> pi_opcode := v \<rparr> \<rparr>)
      else if ridx = 6 then gemmini_start F G s
      else None)"

definition gemmini_recvData :: "float_ops \<Rightarrow> gem5 \<Rightarrow> u64 \<Rightarrow> ptr option \<Rightarrow> u64 \<Rightarrow> gemmini ndp \<Rightarrow> gemmini ndp option" where
  "gemmini_recvData F G addr data n s =
     (if data \<noteq> None then gemmini_process_fsm F G (s\<lparr> n_dev := (n_dev s)\<lparr> gd_operands := gd_operands (n_dev s) + 1 \<rparr> \<rparr>)
      else Some (s\<lparr> n_dev := (n_dev s)\<lparr> pi_status := 1, gd_operands := 0 \<rparr> \<rparr>))"

definition gemmini_class :: "float_ops \<Rightarrow> gem5 \<Rightarrow> gemmini ndp_class" where
  "gemmini_class F G = \<lparr> c_readPI = gemmini_readPI, c_writePI = gemmini_writePI F G, c_recvData = gemmini_recvData F G \<rparr>"

section \<open>The queue contract\<close>

lemma gemmini_fsm_queue:
  assumes "queue_inv k s" "gemmini_process_fsm F G s = Some s'"
  shows "queue_inv k s'"
proof -
  have heap: "queue_inv k (s\<lparr> n_heap := h \<rparr>)" for h using assms(1) by (simp add: queue_inv_def)
  show ?thesis
    using assms(2) accessMemory_queue [OF assms(1)] accessMemory_queue [OF heap]
    by (auto simp: gemmini_process_fsm_def Let_def split: if_splits bind_splits)
qed

lemma gemmini_start_queue:
  assumes "queue_inv k s" "gemmini_start F G s = Some s'"
  shows "queue_inv k s'"
proof -
  have upd: "queue_inv k (s\<lparr> n_heap := h, n_dev := d \<rparr>)" for h d using assms(1) by (simp add: queue_inv_def)
  show ?thesis
    using assms(2) gemmini_fsm_queue [OF upd]
    by (auto simp: gemmini_start_def new_buffer_def Let_def split: if_splits bind_splits)
qed

interpretation gemmini: ndp_subclass "gemmini_class F G" for F G
proof
  fix k s a d n s'
  assume "queue_inv k s" "c_recvData (gemmini_class F G) a d n s = Some s'"
  then show "queue_inv k s'"
    using gemmini_fsm_queue [of k "s\<lparr> n_dev := (n_dev s)\<lparr> gd_operands := gd_operands (n_dev s) + 1 \<rparr> \<rparr>" F G s']
    by (auto simp: gemmini_class_def gemmini_recvData_def queue_inv_def split: if_splits)
next
  fix k s r v s'
  assume "queue_inv k s" "c_writePI (gemmini_class F G) r v s = Some s'"
  then show "queue_inv k s'"
    using gemmini_start_queue [of k s F G s']
    by (auto simp: gemmini_class_def gemmini_writePI_def queue_inv_def Let_def split: if_splits)
qed

section \<open>The result of a command\<close>

text \<open>The numbers of elements of the two operands and of the result.\<close>

fun gemmini_counts :: "GemminiDevAOP \<Rightarrow> nat \<Rightarrow> nat \<Rightarrow> nat \<times> nat \<times> nat" where
  "gemmini_counts Op_conv2d m k = (m * m, k * k, m * m)"
| "gemmini_counts Op_conv2d_gemm m k = (m * m * (k * k), k * k, m * m)"
| "gemmini_counts Op_conv3d m k = (m * m * m, k * k * k, m * m * m)"
| "gemmini_counts Op_conv3d_gemm m k = (m * m * m * (k * k * k), k * k * k, m * m * m)"
| "gemmini_counts Op_maxpool m k = (m * m, 0, m div k * (m div k))"
| "gemmini_counts Op_maxpool_gemm m k = (m * m, 0, m div k * (m div k))"
| "gemmini_counts Op_relu m k = (m * m, 0, m * m)"
| "gemmini_counts Op_mm m k = (m * m, m * m, m * m)"
| "gemmini_counts Op_mm_gemm m k = (m * m, m * m, m * m)"

text \<open>
  Sizes for which a command is defined: fewer than \<open>2 ^ 31\<close> elements in every array, a window that divides the
  matrix, and for the pooling of a lowered operand a window of two.
\<close>

definition gemmini_ok :: "GemminiDevAOP \<Rightarrow> nat \<Rightarrow> nat \<Rightarrow> bool" where
  "gemmini_ok op m k \<longleftrightarrow> 0 < m \<and> (op \<in> {Op_relu, Op_mm, Op_mm_gemm} \<or> 0 < k) \<and>
     (case gemmini_counts op m k of (mc, kc, oc) \<Rightarrow> mc < 2 ^ 31 \<and> kc < 2 ^ 31 \<and> oc < 2 ^ 31) \<and>
     (op \<in> {Op_maxpool, Op_maxpool_gemm} \<longrightarrow> k dvd m) \<and> (op = Op_maxpool_gemm \<longrightarrow> k = 2)"

definition gemm_value :: "float_ops \<Rightarrow> floats \<Rightarrow> floats \<Rightarrow> nat \<Rightarrow> nat \<Rightarrow> floats" where
  "gemm_value F a k m n = map (\<lambda>t. dot F (\<lambda>w. f_mul F (a ! (t * n + w)) (k ! w)) n) [0..<m]"

fun gemmini_value :: "float_ops \<Rightarrow> GemminiDevAOP \<Rightarrow> nat \<Rightarrow> nat \<Rightarrow> floats \<Rightarrow> floats \<Rightarrow> floats" where
  "gemmini_value F Op_conv2d m n a k = map (\<lambda>t. dot F (conv2_term F a k m n t) (n * n)) [0..<m * m]"
| "gemmini_value F Op_conv2d_gemm m n a k = gemm_value F a k (m * m) (n * n)"
| "gemmini_value F Op_conv3d m n a k = map (\<lambda>t. dot F (conv3_term F a k m n t) (n * n * n)) [0..<m * m * m]"
| "gemmini_value F Op_conv3d_gemm m n a k = gemm_value F a k (m * m * m) (n * n * n)"
| "gemmini_value F Op_maxpool m n a k =
     map (\<lambda>t. pool F (\<lambda>u. a ! window_element (m div n) n t u) (n * n)) [0..<m div n * (m div n)]"
| "gemmini_value F Op_maxpool_gemm m n a k = map (\<lambda>t. pool F (\<lambda>u. a ! (t * (n * n) + u)) (n * n)) [0..<m div n * (m div n)]"
| "gemmini_value F Op_relu m n a k = map (\<lambda>v. if f_less F v F_0 then F_0 else v) a"
| "gemmini_value F Op_mm m n a k = mm_value F a k m"
| "gemmini_value F Op_mm_gemm m n a k =
     map (\<lambda>t. dot F (\<lambda>w. f_mul F (a ! (t div m * m + w)) (k ! (t mod m * m + w))) m) [0..<m * m]"

lemma gemmini_value_no_kernel:
  "gemmini_counts op m n = (mc, 0, oc) \<Longrightarrow> gemmini_ok op m n \<Longrightarrow> gemmini_value F op m n a k = gemmini_value F op m n a k'"
  by (cases op) (auto simp: gemmini_ok_def)

lemma ucast_of_nat_u32: "n < 2 ^ 32 \<Longrightarrow> (ucast (of_nat n :: u64) :: u32) = of_nat n"
  by (simp add: word_unat_eq_iff unat_of_nat unsigned_ucast_eq take_bit_nat_eq_self_iff)

lemma gemmini_kernel_value:
  assumes ok: "gemmini_ok op m n" "gemmini_counts op m n = (mc, kc, oc)" "m < 2 ^ 32" "n < 2 ^ 32"
    and len: "length a = mc" "kc \<noteq> 0 \<Longrightarrow> length k = kc" "length out = oc"
  shows "gemmini_kernel F op (of_nat m) (of_nat n) a k out = Some (gemmini_value F op m n a k)"
proof -
  have u: "(ucast (of_nat m :: u64) :: u32) = of_nat m" "(ucast (of_nat n :: u64) :: u32) = of_nat n"
    using ok(3,4) by (simp_all add: ucast_of_nat_u32)
  note defs = gemmini_ok_def u
  show ?thesis
  proof (cases op)
    case Op_conv2d
    then show ?thesis using ok len baseConv_2D_value [of m n a k out F] by (auto simp: defs)
  next
    case Op_conv2d_gemm
    then have b: "m * m * (n * n) < 2 ^ 31" "m * m < 2 ^ 31" "n * n < 2 ^ 31" "length a = m * m * (n * n)" "length k = n * n" "length out = m * m"
      using ok len by (auto simp: gemmini_ok_def)
    have "(ucast (of_nat m * of_nat m :: u64) :: u32) = of_nat (m * m)" "(ucast (of_nat n * of_nat n :: u64) :: u32) = of_nat (n * n)"
      using b ucast_of_nat_u32 [of "m * m"] ucast_of_nat_u32 [of "n * n"] by simp_all
    then show ?thesis using baseConvGemm_value [OF b, of F] by (simp add: Op_conv2d_gemm gemm_value_def del: of_nat_mult)
  next
    case Op_conv3d
    then show ?thesis using ok len baseConv_3D_value [of m n a k out F] by (auto simp: defs)
  next
    case Op_conv3d_gemm
    then have b: "m * m * m * (n * n * n) < 2 ^ 31" "m * m * m < 2 ^ 31" "n * n * n < 2 ^ 31" "length a = m * m * m * (n * n * n)"
      "length k = n * n * n" "length out = m * m * m"
      using ok len by (auto simp: gemmini_ok_def)
    have "(ucast (of_nat m * of_nat m * of_nat m :: u64) :: u32) = of_nat (m * m * m)"
        "(ucast (of_nat n * of_nat n * of_nat n :: u64) :: u32) = of_nat (n * n * n)"
      using b ucast_of_nat_u32 [of "m * m * m"] ucast_of_nat_u32 [of "n * n * n"] by simp_all
    then show ?thesis using baseConvGemm_value [OF b, of F] by (simp add: Op_conv3d_gemm gemm_value_def del: of_nat_mult)
  next
    case Op_maxpool
    then obtain p where p: "m = p * n" "0 < n" "0 < p" using ok(1) by (auto simp: gemmini_ok_def dvd_def mult.commute)
    then have b: "p * n * (p * n) < 2 ^ 31" "length a = p * n * (p * n)" "length out = p * p" "m div n = p"
      using ok len Op_maxpool by (auto simp: gemmini_ok_def)
    show ?thesis unfolding Op_maxpool gemmini_kernel.simps gemmini_value.simps u b(4) unfolding p(1)
      using b(1) p(2,3) b(2,3) by (rule baseMaxPool_value)
  next
    case Op_maxpool_gemm
    then obtain p where p: "m = p * 2" "n = 2" "0 < p" using ok(1) by (auto simp: gemmini_ok_def dvd_def mult.commute)
    then have b: "p * 2 * (p * 2) < 2 ^ 31" "length a = p * 2 * (p * 2)" "length out = p * p" "m div 2 = p"
      using ok len Op_maxpool_gemm by (auto simp: gemmini_ok_def)
    show ?thesis unfolding Op_maxpool_gemm gemmini_kernel.simps gemmini_value.simps u unfolding p(2) b(4) unfolding p(1)
      using b(1) p(3) b(2,3) by (rule baseMaxPoolGemm_value)
  next
    case Op_relu
    then show ?thesis using ok len baseRelu_value [of m a out F] by (simp add: defs)
  next
    case Op_mm
    then have c: "mc = m * m" "kc = m * m" "oc = m * m" "m * m < 2 ^ 31" "0 < m" using ok(1,2) by (simp_all add: gemmini_ok_def)
    have b: "m * m < 2 ^ 31" "length a = m * m" "length k = m * m" "length out = m * m" using len c by simp_all
    show ?thesis unfolding Op_mm gemmini_kernel.simps gemmini_value.simps u using b by (rule baseMM_value)
  next
    case Op_mm_gemm
    then have c: "mc = m * m" "kc = m * m" "oc = m * m" "m * m < 2 ^ 31" "0 < m" using ok(1,2) by (simp_all add: gemmini_ok_def)
    have b: "m * m < 2 ^ 31" "length a = m * m" "length k = m * m" "length out = m * m" using len c by simp_all
    show ?thesis unfolding Op_mm_gemm gemmini_kernel.simps gemmini_value.simps u using b by (rule baseMMGemm_value)
  qed
qed

lemma length_gemmini_value:
  assumes "gemmini_counts op m n = (mc, kc, oc)" "length a = mc"
  shows "length (gemmini_value F op m n a k) = oc"
  using assms by (cases op) (auto simp: gemm_value_def mm_value_def)

lemma div_of_nat_u64:
  assumes "a < 2 ^ 64" "b < 2 ^ 64"
  shows "(of_nat a :: u64) div of_nat b = of_nat (a div b)"
proof -
  have le: "a div b < 2 ^ 64" using assms(1) by (meson div_le_dividend le_less_trans)
  have "unat ((of_nat a :: u64) div of_nat b) = unat (of_nat (a div b) :: u64)"
    unfolding unat_div_distrib using assms le by (simp add: unat_of_nat)
  then show ?thesis by (simp only: word_unat_eq_iff)
qed

lemma gemmini_sizes_counts:
  assumes "gemmini_ok op m n" "gemmini_counts op m n = (mc, kc, oc)" "n < 2 ^ 32"
  shows "gemmini_sizes op (of_nat m) (of_nat n) = Some (of_nat mc, of_nat kc, of_nat oc)"
proof (cases "op \<in> {Op_maxpool, Op_maxpool_gemm}")
  case True
  then obtain p where p: "m = p * n" "0 < n" using assms(1) by (auto simp: gemmini_ok_def dvd_def mult.commute)
  have "p * n * (p * n) < 2 ^ 31" using True assms(1) p by (auto simp: gemmini_ok_def)
  then have sz: "p * n * (p * n) < 2 ^ 64" by simp
  have q: "p * n * (p * n) div n = p * p * n" "p * p * n div n = p * p" using p(2) by (simp_all add: algebra_simps)
  have "p * p * n < 2 ^ 64" using sz unfolding q(1) [symmetric] by (rule le_less_trans [OF div_le_dividend])
  then have "(of_nat (p * n * (p * n)) :: u64) div of_nat n div of_nat n = of_nat (p * p)"
    using div_of_nat_u64 [OF sz, of n] div_of_nat_u64 [of "p * p * n" n] assms(3) unfolding q by (simp del: of_nat_mult)
  then have "(of_nat m * of_nat m :: u64) div of_nat n div of_nat n = of_nat (p * p)" by (simp add: p(1))
  moreover have "(of_nat n :: u64) \<noteq> 0" using p(2) assms(3) by (simp add: word_unat_eq_iff unat_of_nat)
  ultimately show ?thesis using True assms(2) p by auto
next
  case False
  then show ?thesis using assms(2) by (cases op) (auto simp: algebra_simps)
qed

text \<open>The operands as the kernels read them.\<close>

definition mem_floats :: "(nat \<Rightarrow> u8) \<Rightarrow> nat \<Rightarrow> floats" where
  "mem_floats M n = map (\<lambda>i. le_word (map M [4 * i..<4 * i + 4])) [0..<n]"

lemma length_mem_floats [simp]: "length (mem_floats M n) = n"
  by (simp add: mem_floats_def)

lemma bytes_floats_memory: "bytes_floats (map M [0..<4 * n]) = mem_floats M n"
  by (auto simp: bytes_floats_def mem_floats_def take_map drop_map drop_upt take_upt)

lemma length_bytes_floats [simp]: "length bs = 4 * n \<Longrightarrow> length (bytes_floats bs) = n"
  by (simp add: bytes_floats_def)

lemma length_float_bytes [simp]: "length (float_bytes xs) = 4 * length xs"
  by (induction xs) (simp_all add: float_bytes_def)

lemma float_bytes_roundtrip: "bytes_floats (float_bytes xs) = xs"
proof (rule nth_equalityI)
  have el: "take 4 (drop (4 * i) (float_bytes xs)) = le_bytes 4 (xs ! i)" if "i < length xs" for i
    using that
  proof (induction xs arbitrary: i)
    case (Cons x xs)
    then show ?case by (cases i) (simp_all add: float_bytes_def)
  qed simp
  fix i assume "i < length (bytes_floats (float_bytes xs))"
  then have i: "i < length xs" by (simp add: bytes_floats_def)
  then show "bytes_floats (float_bytes xs) ! i = xs ! i" using el [OF i] by (simp add: bytes_floats_def le_word_le_bytes)
qed (simp add: bytes_floats_def)

end
