(* ===== verification/Gemmini_Command.thy ===== *)
theory Gemmini_Command
  imports Gemmini_Device
begin

text \<open>
  A command of the Gemmini device from the write to its start register to the acknowledgement of its result,
  composed of the bursts of \<open>Ndp_Burst\<close> and the kernels of \<open>Gemmini_Kernels\<close>.
\<close>

section \<open>The phases of a command\<close>

text \<open>The registers and buffers of a running command with \<open>c\<close> operands fetched.\<close>

definition running ::
  "GemminiDevAOP \<Rightarrow> nat \<Rightarrow> nat \<Rightarrow> u32 \<Rightarrow> gemmini ndp \<Rightarrow> bool" where
  "running op m n c s \<longleftrightarrow> gemmini_ok op m n \<and> m < 2 ^ 32 \<and> n < 2 ^ 32 \<and> opcode_of (pi_opcode (n_dev s)) = Some op \<and>
     pi_size_m (n_dev s) = of_nat m \<and> pi_size_k (n_dev s) = of_nat n \<and> pi_status (n_dev s) = 0 \<and> gd_operands (n_dev s) = c \<and>
     (case gemmini_counts op m n of (mc, kc, oc) \<Rightarrow>
        gd_m_size (n_dev s) = of_nat (4 * mc) \<and> gd_k_size (n_dev s) = of_nat (4 * kc) \<and> gd_o_size (n_dev s) = of_nat (4 * oc) \<and>
        gd_m (n_dev s) < length (n_heap s) \<and> length (n_heap s ! gd_m (n_dev s)) = 4 * mc \<and>
        gd_o (n_dev s) < length (n_heap s) \<and> length (n_heap s ! gd_o (n_dev s)) = 4 * oc \<and> gd_o (n_dev s) \<noteq> gd_m (n_dev s) \<and>
        (kc \<noteq> 0 \<longrightarrow> gd_k (n_dev s) < length (n_heap s) \<and> length (n_heap s ! gd_k (n_dev s)) = 4 * kc \<and>
           gd_k (n_dev s) \<noteq> gd_m (n_dev s) \<and> gd_k (n_dev s) \<noteq> gd_o (n_dev s)))"

lemma counts_bounds:
  assumes "gemmini_ok op m n" "gemmini_counts op m n = (mc, kc, oc)"
  shows "0 < mc" "0 < oc" "mc < 2 ^ 31" "kc < 2 ^ 31" "oc < 2 ^ 31"
  using assms by (cases op; auto simp: gemmini_ok_def dvd_def)+

lemma byte_count: "c < 2 ^ 31 \<Longrightarrow> unat (of_nat (4 * c) :: u64) = 4 * c"
  by (simp add: unat_of_nat del: of_nat_mult)

text \<open>The bursts of the device: the read of the operand at \<open>addr\<close> and the write of the result.\<close>

abbreviation (input) read_burst :: "u64 \<Rightarrow> u64 \<Rightarrow> nat \<Rightarrow> nat \<Rightarrow> nat \<Rightarrow> burst_request" where
  "read_burst addr n b R N \<equiv> \<lparr> br_start = addr, br_end = addr + n, br_data = (b, 0), br_write = False,
     br_subs = map (chunk_sub addr (b, 0) R N) [0..<chunks R N] \<rparr>"

abbreviation (input) write_burst :: "u64 \<Rightarrow> u64 \<Rightarrow> nat \<Rightarrow> nat \<Rightarrow> nat \<Rightarrow> burst_request" where
  "write_burst addr n b R N \<equiv> \<lparr> br_start = addr, br_end = addr + n, br_data = (b, 0), br_write = True,
     br_subs = map (chunk_sub addr (b, 0) R N) [0..<chunks R N] \<rparr>"

definition result_packets :: "floats \<Rightarrow> u64 \<Rightarrow> nat \<Rightarrow> dma_packet list" where
  "result_packets r addr R = map (\<lambda>i. (chunk_packet (\<lambda>k. float_bytes r ! k) addr R (4 * length r) i)\<lparr> pk_write := True \<rparr>)
     [0..<chunks R (4 * length r)]"

lemma chunk_packet_cong:
  assumes "\<And>k. k < N \<Longrightarrow> M k = M' k" "0 < R" "i < chunks R N"
  shows "chunk_packet M addr R N i = chunk_packet M' addr R N i"
  using assms chunk_fits [OF assms(2,3)] by (simp add: chunk_packet_def)

text \<open>The computation: the result goes to its buffer and into the queue.\<close>

lemma gemmini_computes:
  fixes F :: float_ops
  assumes run: "running op m n c s" "c \<noteq> 0" and counts: "gemmini_counts op m n = (mc, kc, oc)" "kc = 0 \<or> c \<noteq> 1"
    and data: "n_heap s ! gd_m (n_dev s) = map M [0..<4 * mc]" "kc \<noteq> 0 \<Longrightarrow> n_heap s ! gd_k (n_dev s) = map K [0..<4 * kc]"
    and R: "R = unat (n_max_rsze s)" "0 < R" "unat (pi_addr_o (n_dev s)) + 4 * oc + R < 2 ^ 64"
  defines "r \<equiv> gemmini_value F op m n (mem_floats M mc) (mem_floats K kc)"
  shows "\<exists>s'. gemmini_process_fsm F G s = Some s' \<and> n_dev s' = n_dev s \<and> n_max_rsze s' = n_max_rsze s \<and>
    n_bursts s' = n_bursts s @ [write_burst (pi_addr_o (n_dev s)) (of_nat (4 * oc)) (gd_o (n_dev s)) R (4 * oc)] \<and>
    n_sent s' @ n_packets s' = n_sent s @ n_packets s @ result_packets r (pi_addr_o (n_dev s)) R"
proof -
  let ?d = "n_dev s"
  note b = counts_bounds [OF _ counts(1)] and st = run(1) [unfolded running_def counts(1) prod.case]
  have ok: "gemmini_ok op m n" using st by blast
  let ?a = "buffer_floats s (gd_m ?d)" and ?k = "buffer_floats s (gd_k ?d)" and ?o = "buffer_floats s (gd_o ?d)"
  have a: "?a = mem_floats M mc" using st data(1) by (simp add: buffer_floats_def bytes_floats_memory)
  have k: "kc \<noteq> 0 \<Longrightarrow> ?k = mem_floats K kc" using st data(2) by (simp add: buffer_floats_def bytes_floats_memory)
  have "length ?o = oc" using st by (simp add: buffer_floats_def)
  then have "gemmini_kernel F op (of_nat m) (of_nat n) ?a ?k ?o = Some (gemmini_value F op m n ?a ?k)"
    using st k by (intro gemmini_kernel_value [OF ok counts(1)]) (simp_all add: a)
  also have "gemmini_value F op m n ?a ?k = r"
    unfolding a r_def using k gemmini_value_no_kernel [OF _ ok] counts(1) by (cases "kc = 0") auto
  finally have kernel: "gemmini_kernel F op (pi_size_m ?d) (pi_size_k ?d) ?a ?k ?o = Some r" using st by simp
  have len: "length r = oc" unfolding r_def by (rule length_gemmini_value [OF counts(1)]) simp
  let ?s1 = "s\<lparr> n_heap := (n_heap s)[gd_o (n_dev s) := float_bytes r] \<rparr>"
  have fsm: "gemmini_process_fsm F G s = accessMemory G (pi_addr_o ?d) (of_nat (4 * oc)) True (gd_o ?d, 0) ?s1"
    using st counts(2) run(2) kernel by (auto simp: gemmini_process_fsm_def Let_def)
  have u: "unat (of_nat (4 * oc) :: u64) = 4 * oc" using b(5) [OF ok] by (rule byte_count)
  have acc: "R = unat (n_max_rsze ?s1)" "unat (pi_addr_o ?d) + unat (of_nat (4 * oc) :: u64) + R < 2 ^ 64" "0 < unat (of_nat (4 * oc) :: u64)"
    unfolding u using R b(2) [OF ok] by simp_all
  have buf: "fst (gd_o ?d, 0 :: nat) < length (n_heap ?s1) \<and> snd (gd_o ?d, 0) + unat (of_nat (4 * oc) :: u64) \<le> length (n_heap ?s1 ! fst (gd_o ?d, 0 :: nat))"
    unfolding u using st len by simp
  have "(chunk_packet (burst_data True ?s1 (gd_o ?d, 0)) (pi_addr_o ?d) R (4 * oc) i)\<lparr> pk_write := True \<rparr> =
      (chunk_packet (\<lambda>k. float_bytes r ! k) (pi_addr_o ?d) R (4 * oc) i)\<lparr> pk_write := True \<rparr>" if "i < chunks R (4 * oc)" for i
    using that R(2) st by (subst chunk_packet_cong [of "4 * oc" _ "\<lambda>k. float_bytes r ! k"]) (simp_all add: burst_data_def)
  then have pk: "map (\<lambda>i. (chunk_packet (burst_data True ?s1 (gd_o ?d, 0)) (pi_addr_o ?d) R (4 * oc) i)\<lparr> pk_write := True \<rparr>) [0..<chunks R (4 * oc)] =
      result_packets r (pi_addr_o ?d) R" unfolding result_packets_def len by simp
  from accessMemory_burst [of R ?s1 "pi_addr_o ?d" "of_nat (4 * oc)" True "(gd_o ?d, 0)" G, OF acc(1) R(2) acc(2,3) buf, unfolded u pk] show ?thesis
    unfolding fsm by auto
qed

text \<open>The start: the first operand is requested.\<close>

lemma gemmini_starts:
  assumes idle: "pi_status (n_dev s) \<noteq> 0" "gd_operands (n_dev s) = 0"
    and op: "opcode_of (pi_opcode (n_dev s)) = Some op" "m = unat (pi_size_m (n_dev s))" "n = unat (pi_size_k (n_dev s))" "gemmini_ok op m n"
      "m < 2 ^ 32" "n < 2 ^ 32" "gemmini_counts op m n = (mc, kc, oc)"
    and R: "R = unat (n_max_rsze s)" "0 < R" "unat (pi_addr_m (n_dev s)) + 4 * mc + R < 2 ^ 64"
  shows "\<exists>s0. gemmini_writePI F G 6 v s = Some s0 \<and> running op m n 0 s0 \<and> n_max_rsze s0 = n_max_rsze s \<and>
    pi_addr_m (n_dev s0) = pi_addr_m (n_dev s) \<and> pi_addr_k (n_dev s0) = pi_addr_k (n_dev s) \<and> pi_addr_o (n_dev s0) = pi_addr_o (n_dev s) \<and>
    n_bursts s0 = n_bursts s @ [read_burst (pi_addr_m (n_dev s)) (of_nat (4 * mc)) (gd_m (n_dev s0)) R (4 * mc)]"
proof -
  let ?d = "n_dev s" and ?h = "length (n_heap s)"
  note b = counts_bounds [OF op(4,7)]
  have sizes: "gemmini_sizes op (pi_size_m ?d) (pi_size_k ?d) = Some (of_nat mc, of_nat kc, of_nat oc)"
    using gemmini_sizes_counts [OF op(4,7,6)] op(2,3) by simp
  have u: "unat (of_nat mc * 4 :: u64) = 4 * mc" "unat (of_nat kc * 4 :: u64) = 4 * kc" "unat (of_nat oc * 4 :: u64) = 4 * oc"
    using byte_count [OF b(3)] byte_count [OF b(4)] byte_count [OF b(5)] by (simp_all add: mult.commute)
  have k0: "0 < (of_nat kc * 4 :: u64) \<longleftrightarrow> kc \<noteq> 0" using u(2) by (simp add: word_less_nat_alt)
  let ?s1 = "s\<lparr> n_heap := n_heap s @ [replicate (4 * mc) 0, replicate (4 * oc) 0] @ (if kc \<noteq> 0 then [replicate (4 * kc) 0] else []),
    n_dev := (n_dev s)\<lparr> pi_status := 0, gd_m := length (n_heap s), gd_k := (if kc \<noteq> 0 then length (n_heap s) + 2 else gd_k (n_dev s)),
      gd_o := length (n_heap s) + 1, gd_m_size := of_nat mc * 4, gd_k_size := of_nat kc * 4, gd_o_size := of_nat oc * 4 \<rparr> \<rparr>"
  have run: "gemmini_writePI F G 6 v s = accessMemory G (pi_addr_m ?d) (of_nat mc * 4) False (?h, 0) ?s1"
    using idle op(1) sizes k0
    by (simp add: gemmini_writePI_def gemmini_start_def gemmini_process_fsm_def new_buffer_def u Let_def)
  have r1: "running op m n 0 ?s1"
    using idle(2) op by (auto simp: running_def nth_append mult.commute)
  have acc: "R = unat (n_max_rsze ?s1)" "unat (pi_addr_m ?d) + unat (of_nat mc * 4 :: u64) + R < 2 ^ 64" "0 < unat (of_nat mc * 4 :: u64)"
    unfolding u using R b(1) by simp_all
  obtain s0 where s0: "accessMemory G (pi_addr_m ?d) (of_nat mc * 4) False (?h, 0) ?s1 = Some s0" "n_heap s0 = n_heap ?s1" "n_dev s0 = n_dev ?s1"
    "n_max_rsze s0 = n_max_rsze ?s1" "n_bursts s0 = n_bursts ?s1 @ [read_burst (pi_addr_m ?d) (of_nat mc * 4) ?h R (4 * mc)]"
    using accessMemory_burst [of R ?s1 "pi_addr_m ?d" "of_nat mc * 4" False "(?h, 0)" G, OF acc(1) R(2) acc(2,3)] unfolding u by auto
  have "running op m n 0 s0" using r1 unfolding running_def s0(2,3) .
  then show ?thesis using run s0 by (simp add: mult.commute)
qed

text \<open>The last response of a read burst: the operand is in its buffer and the state machine takes its next step.\<close>

lemma same_heap_length: "same_heap d s s' \<Longrightarrow> length (n_heap s' ! e) = length (n_heap s ! e)"
  by (cases "e = d") (auto simp: same_heap_def)

lemma operand_fetched:
  assumes run: "running op m n c s" and burst: "n_bursts s = [read_burst addr nn d R N]" "d < length (n_heap s)" "length (n_heap s ! d) = N" "0 < N"
    and ok: "burst_ok G addr R N" and js: "distinct js" "set js = {..<chunks R N}"
  shows "\<exists>s2. running op m n (c + 1) s2 \<and> n_heap s2 ! d = map M [0..<N] \<and> (\<forall>e. e \<noteq> d \<longrightarrow> n_heap s2 ! e = n_heap s ! e) \<and>
    n_max_rsze s2 = n_max_rsze s \<and> length (n_bursts s2) = 1 \<and> n_dev s2 = (n_dev s)\<lparr> gd_operands := c + 1 \<rparr> \<and>
    loop (\<lambda>i. memCallback G (gemmini_class F G) (chunk_packet M addr R N i)) js s =
      do { s3 \<leftarrow> gemmini_process_fsm F G s2; answered G (s3\<lparr> n_bursts := drop 1 (n_bursts s3) \<rparr>) }"
proof -
  let ?b = "\<lparr> br_start = addr, br_end = addr + nn, br_data = (d, 0 :: nat), br_write = False, br_subs = [] \<rparr>"
  have b: "\<not> br_write ?b" "br_start ?b = addr" "br_data ?b = (d, 0)" "br_end ?b - addr = nn" by simp_all
  have bs: "n_bursts s = [?b\<lparr> br_subs := map (chunk_sub addr (d, 0) R N) [0..<chunks R N] \<rparr>]" using burst(1) by simp
  obtain s1 where s1: "length (n_bursts s1) = 1" "n_heap s1 ! d = map M [0..<N]" "same_heap d s s1" "n_dev s1 = n_dev s"
    "n_max_rsze s1 = n_max_rsze s" "loop (\<lambda>i. memCallback G (gemmini_class F G) (chunk_packet M addr R N i)) js s =
      do { s3 \<leftarrow> c_recvData (gemmini_class F G) addr (Some (d, 0)) nn s1; answered G (s3\<lparr> n_bursts := drop 1 (n_bursts s3) \<rparr>) }"
    using burst_answered [OF ok b bs burst(2-4) js, of M "gemmini_class F G"] by blast
  let ?s2 = "s1\<lparr> n_dev := (n_dev s1)\<lparr> gd_operands := gd_operands (n_dev s1) + 1 \<rparr> \<rparr>"
  have c: "gd_operands (n_dev s1) = c" using run s1(4) by (simp add: running_def split: prod.splits)
  have "length (n_heap s1) = length (n_heap s)" using s1(3) by (simp add: same_heap_def)
  then have "running op m n (c + 1) ?s2"
    using run c s1(4) same_heap_length [OF s1(3)] by (simp add: running_def split: prod.splits)
  moreover have "\<forall>e. e \<noteq> d \<longrightarrow> n_heap ?s2 ! e = n_heap s ! e" using s1(3) by (simp add: same_heap_def)
  moreover have "loop (\<lambda>i. memCallback G (gemmini_class F G) (chunk_packet M addr R N i)) js s =
      do { s3 \<leftarrow> gemmini_process_fsm F G ?s2; answered G (s3\<lparr> n_bursts := drop 1 (n_bursts s3) \<rparr>) }"
    unfolding s1(6) by (simp add: gemmini_class_def gemmini_recvData_def)
  ultimately show ?thesis using s1(1,2,4,5) c by (intro exI [of _ ?s2]) simp
qed

lemma gemmini_result:
  fixes F :: float_ops
  assumes run: "running op m n c s" "c \<noteq> 0" and counts: "gemmini_counts op m n = (mc, kc, oc)" "kc = 0 \<or> c \<noteq> 1"
    and data: "n_heap s ! gd_m (n_dev s) = map M [0..<4 * mc]" "kc \<noteq> 0 \<Longrightarrow> n_heap s ! gd_k (n_dev s) = map K [0..<4 * kc]"
    and R: "R = unat (n_max_rsze s)" "0 < R" "unat (pi_addr_o (n_dev s)) + 4 * oc + R < 2 ^ 64" and one: "length (n_bursts s) = 1"
  shows "\<exists>s4. do { s3 \<leftarrow> gemmini_process_fsm F G s; answered G (s3\<lparr> n_bursts := drop 1 (n_bursts s3) \<rparr>) } = Some s4 \<and> n_dev s4 = n_dev s \<and>
    n_bursts s4 = [write_burst (pi_addr_o (n_dev s)) (of_nat (4 * oc)) (gd_o (n_dev s)) R (4 * oc)] \<and>
    n_sent s4 @ n_packets s4 = n_sent s @ n_packets s @
      result_packets (gemmini_value F op m n (mem_floats M mc) (mem_floats K kc)) (pi_addr_o (n_dev s)) R"
proof -
  obtain s3 where s3: "gemmini_process_fsm F G s = Some s3" "n_dev s3 = n_dev s"
    "n_bursts s3 = n_bursts s @ [write_burst (pi_addr_o (n_dev s)) (of_nat (4 * oc)) (gd_o (n_dev s)) R (4 * oc)]"
    "n_sent s3 @ n_packets s3 = n_sent s @ n_packets s @
      result_packets (gemmini_value F op m n (mem_floats M mc) (mem_floats K kc)) (pi_addr_o (n_dev s)) R"
    using gemmini_computes [OF run counts data R, of F G] by blast
  obtain s4 where "answered G (s3\<lparr> n_bursts := drop 1 (n_bursts s3) \<rparr>) = Some s4" "n_bursts s4 = drop 1 (n_bursts s3)" "n_dev s4 = n_dev s3"
    "n_sent s4 @ n_packets s4 = n_sent s3 @ n_packets s3"
    using answered_keeps [of G "s3\<lparr> n_bursts := drop 1 (n_bursts s3) \<rparr>"] by auto
  then show ?thesis using s3 one by simp
qed

text \<open>The second operand.\<close>

lemma gemmini_second:
  assumes run: "running op m n 1 s" and counts: "gemmini_counts op m n = (mc, kc, oc)" "kc \<noteq> 0"
    and R: "R = unat (n_max_rsze s)" "0 < R" "unat (pi_addr_k (n_dev s)) + 4 * kc + R < 2 ^ 64" and one: "length (n_bursts s) = 1"
  shows "\<exists>s4. do { s3 \<leftarrow> gemmini_process_fsm F G s; answered G (s3\<lparr> n_bursts := drop 1 (n_bursts s3) \<rparr>) } = Some s4 \<and> n_dev s4 = n_dev s \<and>
    n_heap s4 = n_heap s \<and> n_max_rsze s4 = n_max_rsze s \<and> running op m n 1 s4 \<and>
    n_bursts s4 = [read_burst (pi_addr_k (n_dev s)) (of_nat (4 * kc)) (gd_k (n_dev s)) R (4 * kc)]"
proof -
  note st = run [unfolded running_def counts(1) prod.case]
  have ok: "gemmini_ok op m n" using st by blast
  have u: "unat (of_nat (4 * kc) :: u64) = 4 * kc" using counts_bounds(4) [OF ok counts(1)] by (rule byte_count)
  have pos: "0 < unat (of_nat (4 * kc) :: u64)" unfolding u using counts(2) by simp
  have w: "unat (pi_addr_k (n_dev s)) + unat (of_nat (4 * kc) :: u64) + R < 2 ^ 64" unfolding u by (rule R(3))
  have fsm: "gemmini_process_fsm F G s = accessMemory G (pi_addr_k (n_dev s)) (of_nat (4 * kc)) False (gd_k (n_dev s), 0) s"
    using st pos by (simp add: gemmini_process_fsm_def Let_def word_less_nat_alt)
  obtain s3 where s3: "gemmini_process_fsm F G s = Some s3" "n_heap s3 = n_heap s" "n_dev s3 = n_dev s" "n_max_rsze s3 = n_max_rsze s"
    "n_bursts s3 = n_bursts s @ [read_burst (pi_addr_k (n_dev s)) (of_nat (4 * kc)) (gd_k (n_dev s)) R (4 * kc)]"
    using accessMemory_burst [of R s "pi_addr_k (n_dev s)" "of_nat (4 * kc)" False "(gd_k (n_dev s), 0)" G, OF R(1,2) w pos]
    unfolding fsm u by auto
  obtain s4 where s4: "answered G (s3\<lparr> n_bursts := drop 1 (n_bursts s3) \<rparr>) = Some s4" "n_bursts s4 = drop 1 (n_bursts s3)" "n_dev s4 = n_dev s3"
    "n_heap s4 = n_heap s3" "n_max_rsze s4 = n_max_rsze s3"
    using answered_keeps [of G "s3\<lparr> n_bursts := drop 1 (n_bursts s3) \<rparr>"] by auto
  have "running op m n 1 s4" using run unfolding running_def s4(3,4) s3(2,3) .
  then show ?thesis using s3 s4 one by simp
qed

text \<open>From the start to the result in the queue, with one or two operands.\<close>

lemma gemmini_operands:
  fixes F :: float_ops
  assumes run: "running op m n 0 s" and counts: "gemmini_counts op m n = (mc, kc, oc)"
    and addr: "am = pi_addr_m (n_dev s)" "ak = pi_addr_k (n_dev s)" "ao = pi_addr_o (n_dev s)"
    and burst: "n_bursts s = [read_burst am (of_nat (4 * mc)) (gd_m (n_dev s)) R (4 * mc)]"
    and R: "R = unat (n_max_rsze s)" "0 < R" "unat am + 4 * mc + R < 2 ^ 64" "unat ak + 4 * kc + R < 2 ^ 64" "unat ao + 4 * oc + R < 2 ^ 64"
    and aligned: "R dvd unat am" "R dvd unat ak" "\<forall>a l. R dvd unat a \<longrightarrow> 0 < l \<longrightarrow> l \<le> R \<longrightarrow> g_block_offset G a l = 0"
    and js: "distinct js" "set js = {..<chunks R (4 * mc)}" and ks: "distinct ks" "set ks = {..<chunks R (4 * kc)}"
  shows "\<exists>s1 s2 sent. loop (\<lambda>i. memCallback G (gemmini_class F G) (chunk_packet M am R (4 * mc) i)) js s = Some s1 \<and>
    loop (\<lambda>i. memCallback G (gemmini_class F G) (chunk_packet K ak R (4 * kc) i)) ks s1 = Some s2 \<and>
    n_bursts s2 = [write_burst ao (of_nat (4 * oc)) (gd_o (n_dev s2)) R (4 * oc)] \<and> pi_status (n_dev s2) = 0 \<and>
    n_sent s2 @ n_packets s2 = sent @ result_packets (gemmini_value F op m n (mem_floats M mc) (mem_floats K kc)) ao R"
proof -
  note st = run [unfolded running_def counts prod.case]
  have ok: "gemmini_ok op m n" using st by blast
  have mc: "0 < 4 * mc" using counts_bounds(1) [OF ok counts] by simp
  have m: "gd_m (n_dev s) < length (n_heap s)" "length (n_heap s ! gd_m (n_dev s)) = 4 * mc" using st by simp_all
  obtain s1 where s1: "running op m n (0 + 1) s1" "n_heap s1 ! gd_m (n_dev s) = map M [0..<4 * mc]" "n_max_rsze s1 = n_max_rsze s"
    "length (n_bursts s1) = 1" "n_dev s1 = (n_dev s)\<lparr> gd_operands := 0 + 1 \<rparr>"
    and l1: "loop (\<lambda>i. memCallback G (gemmini_class F G) (chunk_packet M am R (4 * mc) i)) js s =
      do { s3 \<leftarrow> gemmini_process_fsm F G s1; answered G (s3\<lparr> n_bursts := drop 1 (n_bursts s3) \<rparr>) }"
    using operand_fetched [OF run burst m mc aligned_burst_ok [OF R(2,3) aligned(1,3)] js, of M F] by blast
  have r1: "running op m n 1 s1" "n_heap s1 ! gd_m (n_dev s1) = map M [0..<4 * mc]" "R = unat (n_max_rsze s1)" "pi_addr_o (n_dev s1) = ao"
    "pi_addr_k (n_dev s1) = ak" "pi_status (n_dev s1) = 0" using s1 R(1) addr st by simp_all
  show ?thesis
  proof (cases "kc = 0")
    case True
    then have "ks = []" using ks(2) R(2) by (simp add: chunks_def)
    moreover obtain s2 where "do { s3 \<leftarrow> gemmini_process_fsm F G s1; answered G (s3\<lparr> n_bursts := drop 1 (n_bursts s3) \<rparr>) } = Some s2"
      "n_dev s2 = n_dev s1" "n_bursts s2 = [write_burst ao (of_nat (4 * oc)) (gd_o (n_dev s1)) R (4 * oc)]"
      "n_sent s2 @ n_packets s2 = n_sent s1 @ n_packets s1 @ result_packets (gemmini_value F op m n (mem_floats M mc) (mem_floats K kc)) ao R"
      using gemmini_result [OF r1(1) _ counts _ r1(2) _ r1(3) R(2) _ s1(4), of K F G] True R(5) unfolding r1(4) by auto
    ultimately show ?thesis unfolding l1 using r1(6) by (intro exI [of _ s2] exI [of _ "n_sent s1 @ n_packets s1"]) simp
  next
    case False
    obtain s2 where s2: "do { s3 \<leftarrow> gemmini_process_fsm F G s1; answered G (s3\<lparr> n_bursts := drop 1 (n_bursts s3) \<rparr>) } = Some s2"
      "n_dev s2 = n_dev s1" "n_heap s2 = n_heap s1" "n_max_rsze s2 = n_max_rsze s1" "running op m n 1 s2"
      "n_bursts s2 = [read_burst ak (of_nat (4 * kc)) (gd_k (n_dev s1)) R (4 * kc)]"
      using gemmini_second [OF r1(1) counts False r1(3) R(2) _ s1(4), of F G] R(4) unfolding r1(5) by auto
    note st2 = s2(5) [unfolded running_def counts prod.case]
    have k: "gd_k (n_dev s1) < length (n_heap s2)" "length (n_heap s2 ! gd_k (n_dev s1)) = 4 * kc" "gd_m (n_dev s1) \<noteq> gd_k (n_dev s1)" "0 < 4 * kc"
      using st2 False s2(2) by auto
    obtain s3 where s3: "running op m n (1 + 1) s3" "n_heap s3 ! gd_k (n_dev s1) = map K [0..<4 * kc]"
      "\<forall>e. e \<noteq> gd_k (n_dev s1) \<longrightarrow> n_heap s3 ! e = n_heap s2 ! e" "n_max_rsze s3 = n_max_rsze s2" "length (n_bursts s3) = 1"
      "n_dev s3 = (n_dev s2)\<lparr> gd_operands := 1 + 1 \<rparr>"
      and l3: "loop (\<lambda>i. memCallback G (gemmini_class F G) (chunk_packet K ak R (4 * kc) i)) ks s2 =
        do { s3 \<leftarrow> gemmini_process_fsm F G s3; answered G (s3\<lparr> n_bursts := drop 1 (n_bursts s3) \<rparr>) }"
      using operand_fetched [OF s2(5,6) k(1,2,4) aligned_burst_ok [OF R(2,4) aligned(2,3)] ks, of K F] by blast
    have r3: "running op m n 2 s3" "n_heap s3 ! gd_m (n_dev s3) = map M [0..<4 * mc]" "n_heap s3 ! gd_k (n_dev s3) = map K [0..<4 * kc]"
      "R = unat (n_max_rsze s3)" "pi_addr_o (n_dev s3) = ao" "pi_status (n_dev s3) = 0"
      using s3 s2(2-4) r1 k(3) by simp_all
    obtain s4 where "do { s3 \<leftarrow> gemmini_process_fsm F G s3; answered G (s3\<lparr> n_bursts := drop 1 (n_bursts s3) \<rparr>) } = Some s4"
      "n_dev s4 = n_dev s3" "n_bursts s4 = [write_burst ao (of_nat (4 * oc)) (gd_o (n_dev s3)) R (4 * oc)]"
      "n_sent s4 @ n_packets s4 = n_sent s3 @ n_packets s3 @ result_packets (gemmini_value F op m n (mem_floats M mc) (mem_floats K kc)) ao R"
      using gemmini_result [OF r3(1) _ counts _ r3(2,3,4) R(2) _ s3(5), of F G] R(5) unfolding r3(5) by auto
    then show ?thesis unfolding l1 s2(1) using r3(6) l3 by (intro exI [of _ s2] exI [of _ s4] exI [of _ "n_sent s3 @ n_packets s3"]) simp
  qed
qed

lemma gemmini_command:
  fixes F :: float_ops
  assumes idle: "pi_status (n_dev s) \<noteq> 0" "gd_operands (n_dev s) = 0" "n_bursts s = []"
    and op: "opcode_of (pi_opcode (n_dev s)) = Some op" "m = unat (pi_size_m (n_dev s))" "n = unat (pi_size_k (n_dev s))" "gemmini_ok op m n"
      "m < 2 ^ 32" "n < 2 ^ 32" "gemmini_counts op m n = (mc, kc, oc)"
    and addr: "am = pi_addr_m (n_dev s)" "ak = pi_addr_k (n_dev s)" "ao = pi_addr_o (n_dev s)"
    and R: "R = unat (n_max_rsze s)" "0 < R" "unat am + 4 * mc + R < 2 ^ 64" "unat ak + 4 * kc + R < 2 ^ 64" "unat ao + 4 * oc + R < 2 ^ 64"
    and aligned: "R dvd unat am" "R dvd unat ak" "\<forall>a l. R dvd unat a \<longrightarrow> 0 < l \<longrightarrow> l \<le> R \<longrightarrow> g_block_offset G a l = 0"
    and js: "distinct js" "set js = {..<chunks R (4 * mc)}" and ks: "distinct ks" "set ks = {..<chunks R (4 * kc)}"
    and os: "distinct os" "set os = {..<chunks R (4 * oc)}"
  shows "\<exists>s0 s1 s2 s3 sent. gemmini_writePI F G 6 v s = Some s0 \<and>
    loop (\<lambda>i. memCallback G (gemmini_class F G) (chunk_packet M am R (4 * mc) i)) js s0 = Some s1 \<and>
    loop (\<lambda>i. memCallback G (gemmini_class F G) (chunk_packet K ak R (4 * kc) i)) ks s1 = Some s2 \<and>
    gemmini_readPI 7 s2 = Some 0 \<and>
    n_sent s2 @ n_packets s2 = sent @ result_packets (gemmini_value F op m n (mem_floats M mc) (mem_floats K kc)) ao R \<and>
    loop (\<lambda>i. memCallback G (gemmini_class F G) ((chunk_packet D ao R (4 * oc) i)\<lparr> pk_write := True \<rparr>)) os s2 = Some s3 \<and>
    n_bursts s3 = [] \<and> gemmini_readPI 7 s3 = Some 1 \<and> gd_operands (n_dev s3) = 0"
proof -
  let ?C = "gemmini_class F G"
  obtain s0 where s0: "gemmini_writePI F G 6 v s = Some s0" "running op m n 0 s0" "n_max_rsze s0 = n_max_rsze s"
    "pi_addr_m (n_dev s0) = am" "pi_addr_k (n_dev s0) = ak" "pi_addr_o (n_dev s0) = ao"
    "n_bursts s0 = [read_burst am (of_nat (4 * mc)) (gd_m (n_dev s0)) R (4 * mc)]"
    using gemmini_starts [OF idle(1,2) op R(1,2) R(3) [unfolded addr], of F G v] idle(3) unfolding addr by auto
  have R0: "R = unat (n_max_rsze s0)" using s0(3) R(1) by simp
  obtain s1 s2 sent where s2: "loop (\<lambda>i. memCallback G ?C (chunk_packet M am R (4 * mc) i)) js s0 = Some s1"
    "loop (\<lambda>i. memCallback G ?C (chunk_packet K ak R (4 * kc) i)) ks s1 = Some s2"
    "n_bursts s2 = [write_burst ao (of_nat (4 * oc)) (gd_o (n_dev s2)) R (4 * oc)]" "pi_status (n_dev s2) = 0"
    "n_sent s2 @ n_packets s2 = sent @ result_packets (gemmini_value F op m n (mem_floats M mc) (mem_floats K kc)) ao R"
    using gemmini_operands [OF s0(2) op(7) s0(4-6) [symmetric] s0(7) R0 R(2-5) aligned js ks, of F M K] by blast
  let ?b = "\<lparr> br_start = ao, br_end = ao + of_nat (4 * oc), br_data = (gd_o (n_dev s2), 0 :: nat), br_write = True, br_subs = [] \<rparr>"
  have b: "br_write ?b" "br_start ?b = ao" "br_end ?b - ao = of_nat (4 * oc)" by simp_all
  have oc: "0 < chunks R (4 * oc)"
    using chunks_end [OF R(2), of "4 * oc"] counts_bounds(2) [OF op(4,7)] by (cases "chunks R (4 * oc)") simp_all
  have bs: "n_bursts s2 = [?b\<lparr> br_subs := map (chunk_sub ao (gd_o (n_dev s2), 0) R (4 * oc)) [0..<chunks R (4 * oc)] \<rparr>]" using s2(3) by simp
  have ix: "[0..<chunks R (4 * oc)] \<noteq> []" "set [0..<chunks R (4 * oc)] \<subseteq> {..<chunks R (4 * oc)}" "distinct [0..<chunks R (4 * oc)]"
    "set os = set [0..<chunks R (4 * oc)]" using oc by (simp_all add: os(2) atLeast0LessThan)
  obtain s' where s': "length (n_bursts s') = 1" "n_dev s' = n_dev s2"
    "loop (\<lambda>i. memCallback G ?C ((chunk_packet D ao R (4 * oc) i)\<lparr> pk_write := True \<rparr>)) os s2 =
      do { s3 \<leftarrow> c_recvData ?C ao None (of_nat (4 * oc)) s'; answered G (s3\<lparr> n_bursts := drop 1 (n_bursts s3) \<rparr>) }"
    using burst_acknowledged [OF R(2,5) b bs ix(1-3) os(1) ix(4), of G ?C D] by blast
  let ?s3 = "s'\<lparr> n_dev := (n_dev s')\<lparr> pi_status := 1, gd_operands := 0 \<rparr>, n_bursts := [] \<rparr>"
  obtain s3 where s3: "answered G ?s3 = Some s3" "n_bursts s3 = n_bursts ?s3" "n_dev s3 = n_dev ?s3" using answered_keeps [of G ?s3] by blast
  have "loop (\<lambda>i. memCallback G ?C ((chunk_packet D ao R (4 * oc) i)\<lparr> pk_write := True \<rparr>)) os s2 = Some s3"
    unfolding s'(3) using s3(1) s'(1) by (simp add: gemmini_class_def gemmini_recvData_def)
  then show ?thesis using s0(1) s2 s3(2,3) by (intro exI [of _ s0] exI [of _ s1] exI [of _ s2] exI [of _ s3] exI [of _ sent])
      (simp add: gemmini_readPI_def)
qed

text \<open>A device that is to multiply two matrices of three by three, in requests of 16 bytes.\<close>

definition example_floats :: float_ops where
  "example_floats = \<lparr> f_add = (+), f_sub = (-), f_mul = (*), f_div = (div), f_less = (<), f_le = (\<le>), f_eq = (=),
     f_isfinite = (\<lambda>_. True), f_exp = id, f_sqrt = id, f_of_int = of_int, f_lround = uint \<rparr>"

definition example_gemmini :: "gemmini ndp" where
  "example_gemmini = \<lparr> n_ctrl = (0x40000000, 0x40001000), n_data = (0, 0), n_mmio_only = True, n_max_rsze = 16, n_max_reqs = 2,
     n_fly_reqs = 0, n_dma_actv = False, n_bursts = [], n_packets = [], n_sent = [], n_attempts = 0, n_events = 0, n_refused = False,
     n_heap = [], n_dev = \<lparr> pi_addr_m = 0x1000, pi_addr_k = 0x2000, pi_addr_o = 0x3000, pi_size_m = 3, pi_size_k = 0, pi_opcode = 7,
       pi_status = 1, gd_operands = 0, gd_m = 0, gd_k = 0, gd_o = 0, gd_m_size = 0, gd_k_size = 0, gd_o_size = 0 \<rparr> \<rparr>"

section \<open>Properties\<close>

text \<open>
  C3: A command of the Gemmini device. For every opcode and admissible size a write to the start register of
  an idle device fetches the operands, whatever the order of the responses, and queues the result for
  memory: the packets carry, at the address of the result, the bytes of the convolution, pooling, rectified
  or product matrix of the floats in memory. The status register reads 0 until the last acknowledgement,
  again in any order, and 1 afterwards, when the device is ready for the next command. Operand addresses
  are aligned to the request size; the hypothesis on \<open>g_block_offset\<close> is that of gem5, a packet aligned to a
  block that is no smaller has its data at the start of the block.
\<close>

theorem gemmini_command_correct:
  fixes F :: float_ops
  assumes idle: "pi_status (n_dev s) \<noteq> 0" "gd_operands (n_dev s) = 0" "n_bursts s = []"
    and op: "opcode_of (pi_opcode (n_dev s)) = Some op" "m = unat (pi_size_m (n_dev s))" "n = unat (pi_size_k (n_dev s))" "gemmini_ok op m n"
      "m < 2 ^ 32" "n < 2 ^ 32" "gemmini_counts op m n = (mc, kc, oc)"
    and addr: "am = pi_addr_m (n_dev s)" "ak = pi_addr_k (n_dev s)" "ao = pi_addr_o (n_dev s)"
    and R: "R = unat (n_max_rsze s)" "0 < R" "unat am + 4 * mc + R < 2 ^ 64" "unat ak + 4 * kc + R < 2 ^ 64" "unat ao + 4 * oc + R < 2 ^ 64"
    and aligned: "R dvd unat am" "R dvd unat ak" "\<forall>a l. R dvd unat a \<longrightarrow> 0 < l \<longrightarrow> l \<le> R \<longrightarrow> g_block_offset G a l = 0"
    and js: "distinct js" "set js = {..<chunks R (4 * mc)}" and ks: "distinct ks" "set ks = {..<chunks R (4 * kc)}"
    and os: "distinct os" "set os = {..<chunks R (4 * oc)}"
  shows "\<exists>s0 s1 s2 s3 sent. gemmini_writePI F G 6 v s = Some s0 \<and>
    loop (\<lambda>i. memCallback G (gemmini_class F G) (chunk_packet M am R (4 * mc) i)) js s0 = Some s1 \<and>
    loop (\<lambda>i. memCallback G (gemmini_class F G) (chunk_packet K ak R (4 * kc) i)) ks s1 = Some s2 \<and>
    gemmini_readPI 7 s2 = Some 0 \<and>
    n_sent s2 @ n_packets s2 = sent @ result_packets (gemmini_value F op m n (mem_floats M mc) (mem_floats K kc)) ao R \<and>
    loop (\<lambda>i. memCallback G (gemmini_class F G) ((chunk_packet D ao R (4 * oc) i)\<lparr> pk_write := True \<rparr>)) os s2 = Some s3 \<and>
    n_bursts s3 = [] \<and> gemmini_readPI 7 s3 = Some 1 \<and> gd_operands (n_dev s3) = 0"
  using assms by (rule gemmini_command)

theorem gemmini_command_correct_witness:
  "\<exists>s0 s1 s2 s3 sent. gemmini_writePI example_floats example_gem5 6 1 example_gemmini = Some s0 \<and>
    loop (\<lambda>i. memCallback example_gem5 (gemmini_class example_floats example_gem5) (chunk_packet (\<lambda>k. of_nat k) 0x1000 16 (4 * 9) i)) [2, 0, 1] s0 = Some s1 \<and>
    loop (\<lambda>i. memCallback example_gem5 (gemmini_class example_floats example_gem5) (chunk_packet (\<lambda>k. of_nat k) 0x2000 16 (4 * 9) i)) [1, 2, 0] s1 = Some s2 \<and>
    gemmini_readPI 7 s2 = Some 0 \<and>
    n_sent s2 @ n_packets s2 = sent @
      result_packets (gemmini_value example_floats Op_mm 3 0 (mem_floats (\<lambda>k. of_nat k) 9) (mem_floats (\<lambda>k. of_nat k) 9)) 0x3000 16 \<and>
    loop (\<lambda>i. memCallback example_gem5 (gemmini_class example_floats example_gem5)
      ((chunk_packet (\<lambda>_. 0) 0x3000 16 (4 * 9) i)\<lparr> pk_write := True \<rparr>)) [0, 2, 1] s2 = Some s3 \<and>
    n_bursts s3 = [] \<and> gemmini_readPI 7 s3 = Some 1 \<and> gd_operands (n_dev s3) = 0"
proof -
  let ?s = example_gemmini
  have d: "pi_status (n_dev ?s) \<noteq> 0" "gd_operands (n_dev ?s) = 0" "n_bursts ?s = []" "opcode_of (pi_opcode (n_dev ?s)) = Some Op_mm"
    "3 = unat (pi_size_m (n_dev ?s))" "0 = unat (pi_size_k (n_dev ?s))" "0x1000 = pi_addr_m (n_dev ?s)" "0x2000 = pi_addr_k (n_dev ?s)"
    "0x3000 = pi_addr_o (n_dev ?s)" "16 = unat (n_max_rsze ?s)"
    by (simp_all add: example_gemmini_def opcode_of_def)
  have op: "gemmini_ok Op_mm 3 0" "(3 :: nat) < 2 ^ 32" "(0 :: nat) < 2 ^ 32" "gemmini_counts Op_mm 3 0 = (9, 9, 9)" by (simp_all add: gemmini_ok_def)
  have a: "16 dvd unat (0x1000 :: u64)" "16 dvd unat (0x2000 :: u64)" by simp_all
  have w: "unat (0x1000 :: u64) + 4 * 9 + 16 < 2 ^ 64" "unat (0x2000 :: u64) + 4 * 9 + 16 < 2 ^ 64" "unat (0x3000 :: u64) + 4 * 9 + 16 < 2 ^ 64" by simp_all
  have off: "\<forall>a l. 16 dvd unat a \<longrightarrow> 0 < l \<longrightarrow> l \<le> 16 \<longrightarrow> g_block_offset example_gem5 a l = 0"
    using low_bits_aligned by (simp add: example_gem5_def)
  have "chunks 16 (4 * 9) = 3" by (simp add: chunks_def)
  then have js: "distinct [2, 0, 1 :: nat]" "set [2, 0, 1] = {..<chunks 16 (4 * 9)}" "distinct [1, 2, 0 :: nat]" "set [1, 2, 0] = {..<chunks 16 (4 * 9)}"
    "distinct [0, 2, 1 :: nat]" "set [0, 2, 1] = {..<chunks 16 (4 * 9)}" by auto
  show ?thesis by (rule gemmini_command_correct [OF d(1-6) op d(7-10) _ w a off js]) simp
qed



text \<open>
  The request queue of the Gemmini device, with its commands of several bursts each, keeps the contract of
  the base class: under any interleaving of accesses, events, retries and responses the requests in flight
  are those memory has accepted and not answered, within the limit, and packets that wait are never stuck.
\<close>

theorem gemmini_queue_live:
  assumes "queue_empty s0" "(ndp_step G (gemmini_class F G))\<^sup>*\<^sup>* s0 s"
  shows "unat (n_fly_reqs s) = length (n_sent s) \<and> n_fly_reqs s \<le> n_max_reqs s \<and>
    (n_packets s \<noteq> [] \<and> n_max_reqs s \<noteq> 0 \<longrightarrow> 0 < n_events s \<or> n_refused s \<or> n_sent s \<noteq> []) \<and>
    (0 < n_events s \<longrightarrow> (\<exists>s'. sendData G (s\<lparr> n_events := n_events s - 1 \<rparr>) = Some s')) \<and>
    (n_refused s \<longrightarrow> (\<exists>s'. recvReqRetry G Dma_port s = Some s'))"
  using assms by (rule gemmini.queue_live)

theorem gemmini_queue_live_witness:
  "queue_empty example_gemmini \<and> unat (n_fly_reqs example_gemmini) = length (n_sent example_gemmini)"
proof -
  have "queue_empty example_gemmini" by (simp add: queue_empty_def example_gemmini_def)
  then show ?thesis using gemmini_queue_live [OF _ rtranclp.rtrancl_refl] by blast
qed

end
