(* ===== verification/Spec2Isabelle.thy ===== *)
theory Spec2Isabelle
  imports NPU_Safety Driver_Concurrency Driver_Device Coralctl_Safety Ndp_Search Gemmini_Command
begin

text \<open>
  Verification development of OpenNpuX: NPU and near-data devices for the gem5 simulator, a bridge to the
  RTL of the CoralNPU core, a Linux driver, a host runtime with its tools, and the firmware of the core.

  \<^bold>\<open>The program.\<close> A tool or application (\<open>runtime/host/tools\<close>) calls the runtime library
  (\<open>runtime/host/src/coral_runtime.c\<close>), which talks to the kernel driver (\<open>runtime/kernel/opennpux_coral.c\<close>)
  or maps the registers itself. The registers belong to the NPU device of the simulator
  (\<open>sim/gem5/src/dev/npu/npu_device.cc\<close>), which forwards them to a backend: a transaction-level model
  (\<open>coral_stagea_backend.cc\<close>) or the RTL behind a bridge library (\<open>coral_verilated_backend.cc\<close> and
  \<open>sim/coralnpu/hw_sim/gem5_bridge\<close>). Firmware on the core exchanges commands with the host through a shared
  window, and may hand an operator to the bridge, which computes it on the host (hybrid kernels). Two
  further devices (\<open>ndp_dev_a\<close>, \<open>gemmini_dev_a\<close>) compute next to memory on top of a common base class (\<open>ndp\<close>).

  \<^bold>\<open>Conventions.\<close> A w-bit unsigned integer is a word and wraps around; a signed integer is an \<open>int\<close> whose
  overflow is undefined. An operation without a defined outcome (undefined behaviour, \<open>panic\<close>, \<open>fatal\<close>, an
  access outside a buffer, an assertion that fails) is \<open>None\<close> in the option monad; an error that the code
  returns is a value. A class or struct is a record, a method a function on it. Counted loops are \<open>loop\<close>
  and \<open>loop_ok\<close>; the loops without a bound in the source are \<open>function\<close> with a termination proof
  (\<open>add_elements\<close>) or \<open>partial_function\<close> (\<open>split_burst\<close>, shown to return by \<open>split_burst_chunks\<close>). No other
  fuel is used: the poll budgets and cycle limits that appear are arguments of the code. Code outside the
  sources is an argument: the Verilated core (\<open>core_model\<close>), the memory system of gem5 (\<open>dma_port\<close>, \<open>gem5\<close>),
  float arithmetic (\<open>float_ops\<close>), the operating system (\<open>host_os\<close>, \<open>platform\<close>), environment variables and
  clocks (\<open>host_env\<close>).

  \<^bold>\<open>Theories.\<close>

  \<^item> \<open>Prelude\<close>, \<open>Byte_Memory\<close>, \<open>C_Strings\<close>: integers, loops, byte vectors (the locale \<open>byte_store\<close>, interpreted on
    byte lists), C string functions.

  \<^item> \<open>Coral_Operator\<close>: the operator ABI and the client helpers of \<open>coral_operator_client.h\<close>, with the layout
    of the descriptor in memory and the staging allocator (locale \<open>region_allocator\<close>).

  \<^item> \<open>Hybrid_Arith\<close>, \<open>Hybrid_Kernels\<close>, \<open>Hybrid_Kernel_Lemmas\<close>, \<open>Hybrid_Conv\<close>, \<open>Hybrid_Dense\<close>,
    \<open>Hybrid_Float_Kernels\<close>, \<open>Hybrid_Frame\<close>, \<open>Hybrid_Operator\<close>: \<open>gem5_hybrid_kernels.cc\<close> and
    \<open>gem5_hybrid_operator.cc\<close>. The fixed-point arithmetic against real arithmetic, the integer kernels
    against the mathematical operators, what every kernel leaves alone, validation and dispatch.

  \<^item> \<open>Axi_Dma\<close>, \<open>Axi_Drivers\<close>, \<open>Custom_Mac\<close>: request builder, the two deferred master drivers (locale
    \<open>deferred_master\<close>) and the custom unit with its clock gating (locale \<open>mac_unit\<close>).

  \<^item> \<open>Bridge_Config\<close>, \<open>Gem5_Bridge\<close>, \<open>Bridge_Invariant\<close>, \<open>Bridge_Memory\<close>, \<open>Bridge_Dma\<close>, \<open>Bridge_Handle\<close>:
    \<open>coralnpu_gem5_abi.cc\<close> and the wrapper. The well-formedness of the handle under all callbacks and calls,
    coherence of the local memory, the doorbell, DMA completion and cycle accounting.

  \<^item> \<open>Coral_Backend\<close>, \<open>Stagea_Backend\<close>, \<open>Verilated_Backend\<close>: the virtual interface with its contract (locale
    \<open>coral_backend_laws\<close>) and the two backends that satisfy it.

  \<^item> \<open>NPU_Device\<close>, \<open>NPU_Invariant\<close>, \<open>NPU_Memory\<close>, \<open>NPU_Safety\<close>: the device. The DMA protocol as a step relation
    over all runs, its accounting, the write-back cache as a refinement of plain memory, and that no step
    writes outside the shared window.

  \<^item> \<open>Kernel_Driver\<close>, \<open>Driver_Concurrency\<close>, \<open>Driver_Device\<close>: every handler of the driver, the handlers and the
    completion worker interleaved at the granularity of shared accesses, and the driver on the simulated
    device (locales \<open>reg_device\<close>, \<open>halting_device\<close>).

  \<^item> \<open>Command_Firmware\<close>, \<open>Command_Processor\<close>: the command and DMA firmware, correctness and refusals.

  \<^item> \<open>Host_Runtime\<close>, \<open>Host_Frontends\<close>, \<open>Coralctl\<close>: the runtime library, its front ends and the two tools.
    \<open>Host_Window\<close> and \<open>Host_Submit\<close> state what the runtime needs of the operating system (locales
    \<open>window_os\<close>, \<open>async_os\<close>) and prove the submission under it; \<open>Host_Machine\<close> discharges those laws on the
    driver model in front of a board: the accelerator runs the program of the entry point it is released at,
    for a number of status reads that may exceed the poll budget or have no bound, beside it are a file
    system and a clock (locale \<open>firmware_program\<close>, interpreted on both firmware images). The board is a
    stand-in for the register interface of the NPU device, not a model of its backends. \<open>End_To_End\<close> and
    \<open>Coralctl_Safety\<close> state the results for the whole chain, timeouts included.

  \<^item> \<open>Ndp_Device\<close>, \<open>Ndp_Burst\<close>: the base class of the near-data devices. Bursts are split into requests and
    assembled again whatever the order of the responses; the request queue as a step relation (locale
    \<open>ndp_subclass\<close>, what a device must keep). \<open>Ndp_Search\<close>: the search device. \<open>Gemmini_Kernels\<close>,
    \<open>Gemmini_Device\<close>, \<open>Gemmini_Command\<close>: the Gemmini device, its kernels against their values over the
    naturals, and a command from its start to its acknowledgement.

  \<^bold>\<open>Bounds.\<close> The hypotheses of the kernel theorems bound sizes where the code would overflow: accumulators of
    32 bits in the matrix product and fully connected kernels, \<open>int\<close> loop counters (fewer than \<open>2 ^ 31\<close>
    elements) in the near-data devices, tensors inside external memory as validation demands. The command
    theorems of the near-data devices ask for operand addresses aligned to the request size, without which
    the code writes past its buffer (\<open>search_unaligned_overflow\<close>).

  \<^bold>\<open>Not modelled.\<close> \<open>gem5_mobilenet.cc\<close> is an application of TensorFlow Lite Micro, whose interpreter is not in
  the sources; \<open>gem5_smoke_halt.c\<close> returns at once. The simulator itself and the RTL of the core are
  third-party code under an overlay, except for the custom unit. \<open>SubmitHybridOperator\<close> is the access
  sequence of a firmware to the doorbell through the buses of the core, of which the sources have no model;
  the doorbell itself is modelled. Shell and Python scripts, simulator configurations and tests are not
  part of the running system. Messages and statistics output, the loading of shared libraries and the two
  matrix-printing functions of the Gemmini device are left out. Of the event queue, the due time of a
  device's own event is modelled and the queue is not.
\<close>

end
